(* ===== verification/Prelude.thy ===== *)
theory Prelude
  imports Main "HOL-Library.Word" "HOL-Library.Sublist"
begin

text \<open>
  Prelude of the development: the fault type of \<^verbatim>\<open>utility.c\<close> and its result type, unsigned
  32-bit arithmetic on \<open>nat\<close> with the wrap-around written out, bytes and C strings, and the
  generic facts about lists that the components share. The collections declared here are
  filled by the component theories and carry their proofs:
  \<^item> \<open>res_simps\<close>: evaluation of the result type;
  \<^item> \<open>view_simps\<close>: what each buffer-level string operation does to the bytes of its string;
  \<^item> \<open>cmd_simps\<close>: definitions of the command handlers.
\<close>

named_theorems res_simps
named_theorems view_simps
named_theorems cmd_simps

section \<open>Faults and results\<close>

text \<open>
  A run that does not return to its caller. \<open>Oops t\<close> is \<^verbatim>\<open>bug(t)\<close>: write
  \<^verbatim>\<open>500 OOPS: t\<close> to the control connection and \<^verbatim>\<open>exit(2)\<close>; \<open>Exited n\<close> is
  \<^verbatim>\<open>vsf_sysutil_exit(n)\<close>; \<open>Segv\<close> stands for undefined behaviour of the C code (a read or
  a write outside the block a pointer points to, or through a null pointer); \<open>Endless f\<close> is a
  recursion of the function \<open>f\<close> that only the end of the stack stops, or a loop of \<open>f\<close> that never ends.
\<close>

datatype fault = Oops string | Exited int | Segv | Endless string

type_synonym 'a res = "fault + 'a"

definition bug :: "string \<Rightarrow> 'a res" where
  "bug p_text = Inl (Oops p_text)"

text \<open>\<^verbatim>\<open>utility.c\<close> defines \<^verbatim>\<open>DIE_DEBUG\<close>, so \<^verbatim>\<open>die\<close> is \<^verbatim>\<open>bug\<close>.\<close>

definition die :: "string \<Rightarrow> 'a res" where
  "die p_text = bug p_text"

definition die2 :: "string \<Rightarrow> string option \<Rightarrow> 'a res" where
  "die2 p_text1 p_text2 =
     die (p_text1 @ (case p_text2 of Some t \<Rightarrow> t | None \<Rightarrow> ''(null)''))"

fun res_bind :: "'a res \<Rightarrow> ('a \<Rightarrow> 'b res) \<Rightarrow> 'b res" where
  "res_bind (Inl f) k = Inl f"
| "res_bind (Inr a) k = k a"

lemma res_bind_Inr_iff [res_simps]:
  "res_bind m k = Inr b \<longleftrightarrow> (\<exists>a. m = Inr a \<and> k a = Inr b)"
  by (cases m) auto

lemma res_bind_Inl_iff [res_simps]:
  "res_bind m k = Inl f \<longleftrightarrow> m = Inl f \<or> (\<exists>a. m = Inr a \<and> k a = Inl f)"
  by (cases m) auto

lemma res_bind_assoc: "res_bind (res_bind m k) h = res_bind m (\<lambda>a. res_bind (k a) h)"
  by (cases m) auto

lemma bug_simps [simp, res_simps]:
  "bug t \<noteq> Inr a" "bug t \<noteq> Inl Segv" "bug t \<noteq> Inl (Exited n)"
  "die t \<noteq> Inr a" "die t \<noteq> Inl Segv" "die t \<noteq> Inl (Exited n)"
  by (simp_all add: bug_def die_def)

section \<open>Unsigned 32-bit arithmetic\<close>

definition u32 :: "nat \<Rightarrow> nat" where
  "u32 n = n mod 2 ^ 32"

abbreviation UINT_MAX :: nat where "UINT_MAX \<equiv> 4294967295"
abbreviation INT_MAX :: nat where "INT_MAX \<equiv> 2147483647"

lemma u32_id [simp]: "n \<le> UINT_MAX \<Longrightarrow> u32 n = n"
  by (simp add: u32_def)

lemma u32_le [simp]: "u32 n \<le> UINT_MAX"
  using mod_less_divisor [of "2 ^ 32" n] by (simp add: u32_def)

text \<open>The overflow test \<^verbatim>\<open>a + b < a\<close> of the code fires exactly when the sum wraps.\<close>

lemma u32_wraps_iff:
  assumes "a \<le> UINT_MAX" and "b \<le> UINT_MAX"
  shows "u32 (a + b) < a \<longleftrightarrow> a + b > UINT_MAX"
  using assms by (auto simp: u32_def mod_if)

lemma unat_small: "n < 2 ^ 32 \<Longrightarrow> unat (of_nat n :: 32 word) = n"
  by (simp add: unat_of_nat)

section \<open>Bytes and C strings\<close>

type_synonym bytes = "char list"

abbreviation NUL :: char where "NUL \<equiv> CHR 0x00"
abbreviation LF :: char where "LF \<equiv> CHR 0x0A"
abbreviation CR :: char where "CR \<equiv> CHR 0x0D"

definition code :: "char \<Rightarrow> nat" where
  "code c = of_char c"

lemma code_less [simp]: "code c < 256"
proof -
  have "(of_char c :: nat) mod 256 < 256" by simp
  then show ?thesis by (simp add: code_def)
qed

lemma code_inj [simp]: "code c = code d \<longleftrightarrow> c = d"
  by (simp add: code_def)

text \<open>What a \<^verbatim>\<open>const char*\<close> denotes: the bytes before the first NUL.\<close>

definition cstr :: "bytes \<Rightarrow> bytes" where
  "cstr bs = takeWhile (\<lambda>c. c \<noteq> NUL) bs"

lemma cstr_no_NUL [simp]: "NUL \<notin> set (cstr bs)"
  by (auto simp: cstr_def dest: set_takeWhileD)

lemma cstr_id [simp]: "NUL \<notin> set bs \<Longrightarrow> cstr bs = bs"
  by (auto simp: cstr_def takeWhile_eq_all_conv)

lemma cstr_terminated [simp]: "NUL \<notin> set bs \<Longrightarrow> cstr (bs @ NUL # rest) = bs"
  by (induction bs) (auto simp: cstr_def)

lemma length_cstr_le [simp]: "length (cstr bs) \<le> length bs"
  by (simp add: cstr_def length_takeWhile_le)

section \<open>Lists\<close>

lemma takeWhile_short: "x \<in> set xs \<Longrightarrow> length (takeWhile (\<lambda>c. c \<noteq> x) xs) < length xs"
  by (induction xs) auto

lemma takeWhile_upto [simp]: "x \<notin> set l \<Longrightarrow> takeWhile (\<lambda>c. c \<noteq> x) (l @ x # r) = l"
  by (induction l) auto

end
