(* ===== verification/Sysutil.thy ===== *)
theory Sysutil
  imports Prelude
begin

unbundle bit_operations_syntax

text \<open>
  The parts of \<^verbatim>\<open>sysutil.c\<close> that compute on values: character classes, number parsing and
  printing, bounded memory primitives and the permission string of a file mode. The C library
  functions they wrap (\<^verbatim>\<open>toupper\<close>, \<^verbatim>\<open>isspace\<close>, \<^verbatim>\<open>isprint\<close>, \<^verbatim>\<open>isalnum\<close>, \<^verbatim>\<open>isdigit\<close>,
  \<^verbatim>\<open>atoi\<close>, \<^verbatim>\<open>snprintf\<close>, \<^verbatim>\<open>memcmp\<close>) are modelled in the C locale, which the program never
  leaves; \<^verbatim>\<open>atoi\<close> is glibc's: \<^verbatim>\<open>strtol\<close> saturating at 64 bits, cut to 32 bits.
\<close>

section \<open>Character classes\<close>

definition vsf_sysutil_toupper :: "char \<Rightarrow> char" where
  "vsf_sysutil_toupper c = (if 97 \<le> code c \<and> code c \<le> 122 then char_of (code c - 32) else c)"

definition vsf_sysutil_isspace :: "char \<Rightarrow> bool" where
  "vsf_sysutil_isspace c \<longleftrightarrow> (9 \<le> code c \<and> code c \<le> 13) \<or> code c = 32"

definition vsf_sysutil_isprint :: "char \<Rightarrow> bool" where
  "vsf_sysutil_isprint c =
     (if code c \<le> 31 then False
      else if code c = 177 then False
      else if code c \<ge> 128 \<and> code c \<le> 159 then False
      else 32 \<le> code c \<and> code c \<le> 126)"

definition vsf_sysutil_isdigit :: "char \<Rightarrow> bool" where
  "vsf_sysutil_isdigit c \<longleftrightarrow> 48 \<le> code c \<and> code c \<le> 57"

definition vsf_sysutil_isalnum :: "char \<Rightarrow> bool" where
  "vsf_sysutil_isalnum c \<longleftrightarrow>
     (48 \<le> code c \<and> code c \<le> 57) \<or> (65 \<le> code c \<and> code c \<le> 90) \<or> (97 \<le> code c \<and> code c \<le> 122)"

definition vsf_sysutil_retval_is_error :: "int \<Rightarrow> bool" where
  "vsf_sysutil_retval_is_error retval = (if retval < 0 then True else False)"

section \<open>Numbers to text\<close>

definition digit_char :: "nat \<Rightarrow> char" where
  "digit_char d = char_of (48 + d)"

fun digits_of :: "nat \<Rightarrow> nat \<Rightarrow> bytes" where
  "digits_of b n =
     (if n < b \<or> b < 2 then [digit_char n] else digits_of b (n div b) @ [digit_char (n mod b)])"

declare digits_of.simps [simp del]

definition vsf_sysutil_ulong_to_str :: "nat \<Rightarrow> bytes" where
  "vsf_sysutil_ulong_to_str the_ulong = digits_of 10 the_ulong"

definition vsf_sysutil_filesize_t_to_str :: "int \<Rightarrow> bytes" where
  "vsf_sysutil_filesize_t_to_str n =
     (if n < 0 then CHR ''-'' # digits_of 10 (nat (- n)) else digits_of 10 (nat n))"

definition vsf_sysutil_int_to_str :: "int \<Rightarrow> bytes" where
  "vsf_sysutil_int_to_str n =
     (if n < 0 then CHR ''-'' # digits_of 10 (nat (- n)) else digits_of 10 (nat n))"

definition vsf_sysutil_uint_to_octal :: "32 word \<Rightarrow> bytes" where
  "vsf_sysutil_uint_to_octal the_uint =
     (if the_uint = 0 then ''0'' else CHR ''0'' # digits_of 8 (unat the_uint))"

section \<open>Text to numbers\<close>

text \<open>
  \<^verbatim>\<open>a_to_filesize_t\<close> walks the digits from the last to the first; the list argument is the
  reversed text that is still to be read.
\<close>

fun a_to_filesize_loop :: "bytes \<Rightarrow> int \<Rightarrow> int \<Rightarrow> int" where
  "a_to_filesize_loop [] result mult = result"
| "a_to_filesize_loop (c # cs) result mult =
     (if code c < 48 \<or> code c > 57 then 0
      else a_to_filesize_loop cs (result + int (code c - 48) * mult) (mult * 10))"

definition vsf_sysutil_a_to_filesize_t :: "bytes \<Rightarrow> int" where
  "vsf_sysutil_a_to_filesize_t p_str =
     (let s = cstr p_str in if length s > 15 then 0 else a_to_filesize_loop (rev s) 0 1)"

text \<open>The accumulator of \<^verbatim>\<open>octal_to_uint\<close> is an \<^verbatim>\<open>unsigned int\<close>: the shift drops high bits.\<close>

fun octal_to_uint_loop :: "bytes \<Rightarrow> 32 word \<Rightarrow> bool \<Rightarrow> 32 word" where
  "octal_to_uint_loop [] result seen_non_zero_digit = result"
| "octal_to_uint_loop (c # cs) result seen_non_zero_digit =
     (if \<not> vsf_sysutil_isdigit c \<or> code c > 55 then result
      else
        let seen = (if code c \<noteq> 48 then True else seen_non_zero_digit);
            result' = (if seen then push_bit 3 result + of_nat (code c - 48) else result)
        in octal_to_uint_loop cs result' seen)"

definition vsf_sysutil_octal_to_uint :: "bytes \<Rightarrow> 32 word" where
  "vsf_sysutil_octal_to_uint p_str = octal_to_uint_loop (cstr p_str) 0 False"

fun strtol_digits :: "bytes \<Rightarrow> nat \<Rightarrow> nat" where
  "strtol_digits [] acc = acc"
| "strtol_digits (c # cs) acc =
     (if vsf_sysutil_isdigit c then strtol_digits cs (acc * 10 + (code c - 48)) else acc)"

definition strtol_value :: "bytes \<Rightarrow> int" where
  "strtol_value p_str =
     (let s = dropWhile vsf_sysutil_isspace (cstr p_str) in
      case s of
        [] \<Rightarrow> 0
      | c # cs \<Rightarrow>
          if c = CHR ''-'' then max (- (2 ^ 63)) (- int (strtol_digits cs 0))
          else if c = CHR ''+'' then min (2 ^ 63 - 1) (int (strtol_digits cs 0))
          else min (2 ^ 63 - 1) (int (strtol_digits s 0)))"

definition vsf_sysutil_atoi :: "bytes \<Rightarrow> int" where
  "vsf_sysutil_atoi p_str = sint (word_of_int (strtol_value p_str) :: 32 word)"

section \<open>Memory primitives\<close>

text \<open>
  The heap is the C library's: for a size the allocator fails, or gives a block of that size
  whose bytes it chooses. The two wrappers check the size first and die when it fails.
\<close>

type_synonym allocator = "nat \<Rightarrow> (nat \<Rightarrow> char) option"

definition allocates :: "allocator \<Rightarrow> bool" where
  "allocates A \<longleftrightarrow> (\<forall>n. 0 < n \<and> n \<le> INT_MAX \<longrightarrow> A n \<noteq> None)"

definition vsf_sysutil_malloc :: "allocator \<Rightarrow> nat \<Rightarrow> bytes res" where
  "vsf_sysutil_malloc A sz =
     (if sz = 0 \<or> sz > INT_MAX then bug ''zero or big size in vsf_sysutil_malloc''
      else case A sz of None \<Rightarrow> die ''malloc'' | Some fill \<Rightarrow> Inr (map fill [0..<sz]))"

text \<open>\<^verbatim>\<open>realloc\<close> keeps the common prefix of the old and the new block.\<close>

definition vsf_sysutil_realloc :: "allocator \<Rightarrow> bytes option \<Rightarrow> nat \<Rightarrow> bytes res" where
  "vsf_sysutil_realloc A p_ptr sz =
     (if sz = 0 \<or> sz > INT_MAX then bug ''zero or big size in vsf_sysutil_realloc''
      else case A sz of
          None \<Rightarrow> die ''realloc''
        | Some fill \<Rightarrow>
            Inr (case p_ptr of
                   None \<Rightarrow> map fill [0..<sz]
                 | Some old \<Rightarrow> take sz old @ map fill [length old..<sz]))"

definition vsf_sysutil_strlen :: "bytes \<Rightarrow> nat res" where
  "vsf_sysutil_strlen p_text =
     (let ret = length (cstr p_text) in
      if ret > INT_MAX div 8 then die ''string suspiciously long'' else Inr ret)"

text \<open>
  \<^verbatim>\<open>memcpy\<close> of a chunk into a block at an offset: nothing for size 0, even through a null
  pointer; otherwise the destination range must lie inside the block.
\<close>

definition vsf_sysutil_memcpy :: "bytes option \<Rightarrow> nat \<Rightarrow> bytes \<Rightarrow> bytes option res" where
  "vsf_sysutil_memcpy p_dest off chunk =
     (if length chunk = 0 then Inr p_dest
      else if length chunk > INT_MAX then die ''possible negative value to memcpy?''
      else case p_dest of
          None \<Rightarrow> Inl Segv
        | Some b \<Rightarrow> if off + length chunk \<le> length b
            then Inr (Some (take off b @ chunk @ drop (off + length chunk) b)) else Inl Segv)"

text \<open>\<^verbatim>\<open>memcmp\<close> on two blocks of the same size: the difference of the first bytes that differ.\<close>

fun vsf_sysutil_memcmp :: "bytes \<Rightarrow> bytes \<Rightarrow> int" where
  "vsf_sysutil_memcmp (a # as) (b # bs) =
     (if a = b then vsf_sysutil_memcmp as bs else int (code a) - int (code b))"
| "vsf_sysutil_memcmp _ _ = 0"

section \<open>File modes\<close>

definition vsf_sysutil_statbuf_get_perms :: "32 word \<Rightarrow> bytes" where
  "vsf_sysutil_statbuf_get_perms st_mode =
     (let fmt = st_mode AND 0xF000;
          on = (\<lambda>m c. if st_mode AND m \<noteq> 0 then c else CHR ''-'');
          special = (\<lambda>m p lo up. if st_mode AND m \<noteq> 0
                       then (if p = CHR ''x'' then lo else up) else p)
      in [ if fmt = 0x8000 then CHR ''-'' else if fmt = 0x4000 then CHR ''d''
           else if fmt = 0xA000 then CHR ''l'' else if fmt = 0x1000 then CHR ''p''
           else if fmt = 0xC000 then CHR ''s'' else if fmt = 0x2000 then CHR ''c''
           else if fmt = 0x6000 then CHR ''b'' else CHR ''?'',
           on 0x100 CHR ''r'', on 0x80 CHR ''w'',
           special 0x800 (on 0x40 CHR ''x'') CHR ''s'' CHR ''S'',
           on 0x20 CHR ''r'', on 0x10 CHR ''w'',
           special 0x400 (on 0x8 CHR ''x'') CHR ''s'' CHR ''S'',
           on 0x4 CHR ''r'', on 0x2 CHR ''w'',
           special 0x200 (on 0x1 CHR ''x'') CHR ''t'' CHR ''T'' ])"

definition vsf_sysutil_statbuf_is_regfile :: "32 word \<Rightarrow> bool" where
  "vsf_sysutil_statbuf_is_regfile st_mode \<longleftrightarrow> st_mode AND 0xF000 = 0x8000"

definition vsf_sysutil_is_port_reserved :: "16 word \<Rightarrow> bool" where
  "vsf_sysutil_is_port_reserved the_port = (if the_port < 1024 then True else False)"

section \<open>Numbers in memory\<close>

text \<open>The bytes of an \<^verbatim>\<open>unsigned int\<close>, least significant first.\<close>

definition enc32 :: "32 word \<Rightarrow> bytes" where
  "enc32 w = (let n = unat w in
     [char_of (n mod 256), char_of (n div 256 mod 256), char_of (n div 65536 mod 256),
      char_of (n div 16777216 mod 256)])"

definition dec32 :: "bytes \<Rightarrow> 32 word" where
  "dec32 bs = of_nat (foldr (\<lambda>c n. code c + 256 * n) bs 0)"

lemma length_enc32 [simp]: "length (enc32 w) = 4"
  by (simp add: enc32_def Let_def)

lemma dec_enc32 [simp]: "dec32 (enc32 w) = w"
proof -
  define n where "n = unat w"
  have n: "n < 2 ^ 32" using unsigned_less [of w] by (simp add: n_def)
  have parts: "n div 65536 = n div 256 div 256" "n div 16777216 = n div 256 div 256 div 256"
    by (simp_all add: div_mult2_eq [symmetric])
  have "n div 256 div 256 div 256 < 256" using n by (simp add: div_mult2_eq [symmetric] less_mult_imp_div_less)
  then have last: "n div 16777216 mod 256 = n div 16777216" unfolding parts by simp
  have "n mod 256 + 256 * (n div 256 mod 256 + 256 * (n div 65536 mod 256 + 256 * (n div 16777216 mod 256))) = n"
    unfolding last unfolding parts by (simp only: add.commute [of "_ mod _"] mult_div_mod_eq)
  then have "foldr (\<lambda>c k. code c + 256 * k) (enc32 w) 0 = n"
    using last by (simp add: enc32_def Let_def code_def n_def [symmetric])
  then show ?thesis by (simp add: dec32_def n_def)
qed

lemma enc32_inj [simp]: "enc32 v = enc32 w \<longleftrightarrow> v = w"
  by (metis dec_enc32)

section \<open>Lemmas: numbers\<close>

lemma code_digit_char [simp]: "d < 208 \<Longrightarrow> code (digit_char d) = 48 + d"
  by (simp add: code_def digit_char_def)

lemma isdigit_digit_char [simp]: "d < 10 \<Longrightarrow> vsf_sysutil_isdigit (digit_char d)"
  by (simp add: vsf_sysutil_isdigit_def)

lemma digits_of_code:
  "1 < b \<Longrightarrow> b \<le> 10 \<Longrightarrow> c \<in> set (digits_of b n) \<Longrightarrow> 48 \<le> code c \<and> code c < 48 + b"
proof (induction b n rule: digits_of.induct)
  case (1 b n)
  have step: "n mod b < b" using "1.prems"(1) by simp
  show ?case
  proof (cases "n < b")
    case True
    with "1.prems" show ?thesis by (auto simp: digits_of.simps [of b n])
  next
    case False
    with "1.prems" have "c \<in> set (digits_of b (n div b)) \<or> c = digit_char (n mod b)"
      by (auto simp: digits_of.simps [of b n])
    then show ?thesis
    proof
      assume "c \<in> set (digits_of b (n div b))"
      with "1.IH" "1.prems" False show ?thesis by auto
    next
      assume c: "c = digit_char (n mod b)"
      have "code c = 48 + n mod b" unfolding c
        by (rule code_digit_char) (use step "1.prems"(2) in linarith)
      with step show ?thesis by simp
    qed
  qed
qed

lemma digits_of_isdigit: "c \<in> set (digits_of 10 n) \<Longrightarrow> vsf_sysutil_isdigit c"
  using digits_of_code [of 10 c n] by (auto simp: vsf_sysutil_isdigit_def)

lemma digits_of_no_NUL [simp]: "1 < b \<Longrightarrow> b \<le> 10 \<Longrightarrow> NUL \<notin> set (digits_of b n)"
  using digits_of_code [of b NUL n] by (auto simp: code_def)

lemma digits_of_not_Nil [simp]: "digits_of b n \<noteq> []"
  by (subst digits_of.simps) simp

lemma length_digits_of: "1 < b \<Longrightarrow> n < b ^ k \<Longrightarrow> 0 < k \<Longrightarrow> length (digits_of b n) \<le> k"
proof (induction k arbitrary: n)
  case (Suc k)
  show ?case
  proof (cases "n < b")
    case True
    then show ?thesis by (subst digits_of.simps) simp
  next
    case False
    with Suc.prems have "n div b < b ^ k" by (simp add: less_mult_imp_div_less mult.commute)
    moreover have "0 < k" using False Suc.prems by (cases k) auto
    ultimately have "length (digits_of b (n div b)) \<le> k" using Suc by blast
    with False Suc.prems(1) show ?thesis by (subst digits_of.simps) simp
  qed
qed simp

lemma strtol_digits_append:
  "\<forall>c \<in> set xs. vsf_sysutil_isdigit c \<Longrightarrow>
   strtol_digits (xs @ ys) acc = strtol_digits ys (strtol_digits xs acc)"
  by (induction xs arbitrary: acc) auto

lemma strtol_digits_digits_of [simp]: "strtol_digits (digits_of 10 n) 0 = n"
proof (induction n rule: less_induct)
  case (less n)
  show ?case
  proof (cases "n < 10")
    case True
    then show ?thesis by (subst digits_of.simps) simp
  next
    case False
    then have "strtol_digits (digits_of 10 (n div 10)) 0 = n div 10" by (simp add: less)
    with False show ?thesis
      by (subst digits_of.simps) (simp add: strtol_digits_append digits_of_isdigit)
  qed
qed

text \<open>The value of a digit string, least significant digit first.\<close>

fun lsd_value :: "bytes \<Rightarrow> nat" where
  "lsd_value [] = 0"
| "lsd_value (c # cs) = (code c - 48) + 10 * lsd_value cs"

lemma a_to_filesize_loop_value:
  "\<forall>c \<in> set cs. vsf_sysutil_isdigit c \<Longrightarrow>
   a_to_filesize_loop cs r m = r + m * int (lsd_value cs)"
proof (induction cs arbitrary: r m)
  case (Cons c cs)
  then have "\<not> (code c < 48 \<or> code c > 57)" by (simp add: vsf_sysutil_isdigit_def)
  with Cons show ?case by (simp add: algebra_simps)
qed simp

lemma lsd_value_digits_of: "lsd_value (rev (digits_of 10 n)) = n"
proof (induction n rule: less_induct)
  case (less n)
  then show ?case
    by (cases "n < 10") (subst digits_of.simps, simp)+
qed

lemma octal_loop_seen: "octal_to_uint_loop cs 0 False = octal_to_uint_loop cs 0 True"
  by (induction cs) (auto simp: Let_def)

lemma octal_loop_append:
  "\<forall>c \<in> set xs. vsf_sysutil_isdigit c \<and> code c \<le> 55 \<Longrightarrow>
   octal_to_uint_loop (xs @ ys) r True = octal_to_uint_loop ys (octal_to_uint_loop xs r True) True"
  by (induction xs arbitrary: r) (auto simp: Let_def)

lemma octal_digit:
  "c \<in> set (digits_of 8 n) \<Longrightarrow> vsf_sysutil_isdigit c \<and> code c \<le> 55"
  using digits_of_code [of 8 c n] by (auto simp: vsf_sysutil_isdigit_def)

lemma octal_loop_digits_of: "octal_to_uint_loop (digits_of 8 n) 0 True = of_nat n"
proof (induction n rule: less_induct)
  case (less n)
  show ?case
  proof (cases "n < 8")
    case True
    then show ?thesis
      by (subst digits_of.simps) (simp add: vsf_sysutil_isdigit_def push_bit_eq_mult)
  next
    case False
    then have "octal_to_uint_loop (digits_of 8 (n div 8)) 0 True = of_nat (n div 8)"
      by (simp add: less)
    moreover have "(of_nat (n div 8) * 8 + of_nat (n mod 8) :: 32 word) = of_nat n"
      using div_mult_mod_eq [of n 8] by (metis of_nat_add of_nat_mult of_nat_numeral)
    moreover have "octal_to_uint_loop (digits_of 8 (n div 8) @ [digit_char (n mod 8)]) 0 True =
        octal_to_uint_loop [digit_char (n mod 8)] (octal_to_uint_loop (digits_of 8 (n div 8)) 0 True) True"
      by (rule octal_loop_append) (use octal_digit in blast)
    moreover have "n mod 8 \<le> 7" by (simp add: less_Suc_eq_le [symmetric])
    ultimately show ?thesis using False
      by (subst digits_of.simps) (simp add: vsf_sysutil_isdigit_def push_bit_eq_mult)
  qed
qed

section \<open>Lemmas: memory\<close>

lemma memcmp_0_iff: "length as = length bs \<Longrightarrow> vsf_sysutil_memcmp as bs = 0 \<longleftrightarrow> as = bs"
  by (induction as bs rule: vsf_sysutil_memcmp.induct) auto

lemma memcmp_self [simp]: "vsf_sysutil_memcmp as as = 0"
  by (induction as) auto

lemma length_digits_of_ge: "1 < b \<Longrightarrow> b ^ k \<le> n \<Longrightarrow> k < length (digits_of b n)"
proof (induction k arbitrary: n)
  case (Suc k)
  then have "b ^ k \<le> n div b" by (simp add: less_eq_div_iff_mult_less_eq mult.commute)
  then have "k < length (digits_of b (n div b))" using Suc by blast
  moreover have "\<not> n < b" using Suc.prems by (metis not_less power_increasing power_one_right
        le_trans nat_less_le One_nat_def Suc_le_mono le0 linorder_not_less order_less_imp_le)
  ultimately show ?case using Suc.prems(1) by (subst digits_of.simps) simp
qed simp

lemma filesize_parse_nat:
  "vsf_sysutil_a_to_filesize_t (digits_of 10 n) = (if n < 10 ^ 15 then int n else 0)"
proof (cases "n < 10 ^ 15")
  case True
  then have "length (digits_of 10 n) \<le> 15" by (intro length_digits_of) simp_all
  with True show ?thesis
    by (simp add: vsf_sysutil_a_to_filesize_t_def a_to_filesize_loop_value lsd_value_digits_of
        digits_of_isdigit)
next
  case False
  then have "15 < length (digits_of 10 n)" by (intro length_digits_of_ge) simp_all
  with False show ?thesis by (simp add: vsf_sysutil_a_to_filesize_t_def)
qed

lemma a_to_filesize_loop_bad:
  "c \<in> set cs \<Longrightarrow> code c < 48 \<Longrightarrow> a_to_filesize_loop cs r m = 0"
  by (induction cs arbitrary: r m) auto

lemma code_minus [simp]: "code CHR ''-'' = 45"
  by (simp add: code_def)

lemma cstr_minus: "cstr (CHR ''-'' # digits_of 10 n) = CHR ''-'' # digits_of 10 n"
  by simp

lemma strtol_value_digits:
  "int n < 2 ^ 63 \<Longrightarrow> strtol_value (digits_of 10 n) = int n"
  "int n \<le> 2 ^ 63 \<Longrightarrow> strtol_value (CHR ''-'' # digits_of 10 n) = - int n"
proof -
  obtain c cs where d: "digits_of 10 n = c # cs" by (cases "digits_of 10 n") auto
  then have "48 \<le> code c" using digits_of_code [of 10 c n] by simp
  then have c: "c \<noteq> CHR ''-''" "c \<noteq> CHR ''+''" "\<not> vsf_sysutil_isspace c"
    using digits_of_isdigit [of c n] d
    by (auto simp: code_def vsf_sysutil_isspace_def)
  have v: "strtol_digits (c # cs) 0 = n" using strtol_digits_digits_of [of n] d by simp
  show "int n < 2 ^ 63 \<Longrightarrow> strtol_value (digits_of 10 n) = int n"
    using c v d digits_of_no_NUL [of 10 n] by (simp add: strtol_value_def)
  have "\<not> vsf_sysutil_isspace CHR ''-''" by (simp add: vsf_sysutil_isspace_def code_def)
  then show "int n \<le> 2 ^ 63 \<Longrightarrow> strtol_value (CHR ''-'' # digits_of 10 n) = - int n"
    using strtol_digits_digits_of [of n] by (simp add: strtol_value_def cstr_minus)
qed

section \<open>Properties\<close>

text \<open>The mode text that \<^verbatim>\<open>SITE UMASK\<close> and the start-up code print in octal is read back
  by \<^verbatim>\<open>vsf_sysutil_octal_to_uint\<close> as the same 32-bit value, for every value.\<close>

theorem octal_roundtrip:
  "vsf_sysutil_octal_to_uint (vsf_sysutil_uint_to_octal w) = w"
proof (cases "w = 0")
  case False
  have "octal_to_uint_loop (digits_of 8 (unat w)) 0 False = w"
    by (simp add: octal_loop_seen octal_loop_digits_of)
  with False show ?thesis
    by (simp add: vsf_sysutil_octal_to_uint_def vsf_sysutil_uint_to_octal_def cstr_def code_def
        vsf_sysutil_isdigit_def flip: cstr_def)
qed (simp add: vsf_sysutil_octal_to_uint_def vsf_sysutil_uint_to_octal_def cstr_def code_def
       vsf_sysutil_isdigit_def)

text \<open>A file size printed by \<^verbatim>\<open>vsf_sysutil_filesize_t_to_str\<close> and parsed by
  \<^verbatim>\<open>vsf_sysutil_a_to_filesize_t\<close> (the argument of REST) comes back unchanged exactly when it has
  at most 15 digits and no sign; every other size is read as 0.\<close>

theorem filesize_roundtrip:
  "vsf_sysutil_a_to_filesize_t (vsf_sysutil_filesize_t_to_str n) =
     (if 0 \<le> n \<and> n < 10 ^ 15 then n else 0)"
proof (cases "n < 0")
  case True
  have "a_to_filesize_loop (rev (CHR ''-'' # digits_of 10 (nat (- n)))) 0 1 = 0"
    by (rule a_to_filesize_loop_bad [where c = "CHR ''-''"]) simp_all
  with True show ?thesis
    by (simp add: vsf_sysutil_filesize_t_to_str_def vsf_sysutil_a_to_filesize_t_def)
next
  case False
  then have "nat n < 10 ^ 15 \<longleftrightarrow> n < 10 ^ 15" by (simp add: nat_less_iff)
  with False show ?thesis
    by (simp add: vsf_sysutil_filesize_t_to_str_def filesize_parse_nat)
qed

text \<open>Every value of an \<^verbatim>\<open>int\<close> survives \<^verbatim>\<open>vsf_sysutil_int_to_str\<close> followed by
  \<^verbatim>\<open>vsf_sysutil_atoi\<close>, the most negative one included.\<close>

theorem int_text_roundtrip:
  assumes "- (2 ^ 31) \<le> n" and "n < 2 ^ 31"
  shows "vsf_sysutil_atoi (vsf_sysutil_int_to_str n) = n"
proof -
  have "strtol_value (vsf_sysutil_int_to_str n) = n"
    using assms strtol_value_digits(1) [of "nat n"] strtol_value_digits(2) [of "nat (- n)"]
    by (auto simp: vsf_sysutil_int_to_str_def)
  with assms show ?thesis
    by (simp add: vsf_sysutil_atoi_def signed_of_int signed_take_bit_int_eq_self)
qed

theorem int_text_roundtrip_witness:
  "vsf_sysutil_atoi (vsf_sysutil_int_to_str (- 2147483648)) = - 2147483648"
  by (rule int_text_roundtrip) simp_all

end
