(* ===== verification/StrVal.thy ===== *)
theory StrVal
  imports Sysutil
begin

text \<open>
  The string values of \<^verbatim>\<open>str.c\<close>. A \<^verbatim>\<open>struct mystr\<close> denotes the list of its first \<^verbatim>\<open>len\<close>
  bytes (its view, see theory \<open>Str\<close>). The operations of \<^verbatim>\<open>str.c\<close> that only read a string are
  defined here, on the view, with the loops of the code. For the operations that change a
  string this theory holds what they do to the view (the functions \<open>v_\<dots>\<close>); theory \<open>Str\<close>
  models them on buffers and proves that they do exactly this. The components above \<^verbatim>\<open>str.c\<close>
  work on views.
\<close>

section \<open>Searching\<close>

record str_locate_result =
  found :: bool
  char_found :: char
  index :: nat

definition not_found :: str_locate_result where
  "not_found = \<lparr>found = False, char_found = NUL, index = 0\<rparr>"

definition found_at :: "nat \<Rightarrow> str_locate_result" where
  "found_at i = \<lparr>found = True, char_found = NUL, index = i\<rparr>"

definition chunk_at :: "bytes \<Rightarrow> nat \<Rightarrow> nat \<Rightarrow> bytes" where
  "chunk_at v i n = take n (drop i v)"

function locate_text_loop :: "bytes \<Rightarrow> bytes \<Rightarrow> nat \<Rightarrow> str_locate_result" where
  "locate_text_loop v t i =
     (if i \<le> length v - length t then
        (if vsf_sysutil_memcmp (chunk_at v i (length t)) t = 0 then found_at i
         else locate_text_loop v t (i + 1))
      else not_found)"
  by pat_completeness auto
termination
  by (relation "measure (\<lambda>(v, t, i). length v + 1 - i)") auto

definition str_locate_text :: "bytes \<Rightarrow> bytes \<Rightarrow> str_locate_result" where
  "str_locate_text v p_text =
     (let t = cstr p_text in
      if length t = 0 \<or> length t > length v then not_found
      else locate_text_loop v t 0)"

fun locate_text_reverse_loop :: "bytes \<Rightarrow> bytes \<Rightarrow> nat \<Rightarrow> str_locate_result" where
  "locate_text_reverse_loop v t i =
     (if vsf_sysutil_memcmp (chunk_at v i (length t)) t = 0 then found_at i
      else if i = 0 then not_found
      else locate_text_reverse_loop v t (i - 1))"

definition str_locate_text_reverse :: "bytes \<Rightarrow> bytes \<Rightarrow> str_locate_result" where
  "str_locate_text_reverse v p_text =
     (let t = cstr p_text in
      if length t = 0 \<or> length t > length v then not_found
      else locate_text_reverse_loop v t (length v - length t))"

declare locate_text_loop.simps [simp del] locate_text_reverse_loop.simps [simp del]

definition str_locate_str :: "bytes \<Rightarrow> bytes \<Rightarrow> str_locate_result" where
  "str_locate_str v look = str_locate_text v look"

definition str_locate_str_reverse :: "bytes \<Rightarrow> bytes \<Rightarrow> str_locate_result" where
  "str_locate_str_reverse v look = str_locate_text_reverse v look"

definition str_locate_char :: "bytes \<Rightarrow> char \<Rightarrow> str_locate_result" where
  "str_locate_char v look_char = str_locate_text v [look_char, NUL]"

fun locate_chars_inner :: "bytes \<Rightarrow> char \<Rightarrow> char option" where
  "locate_chars_inner [] this_char = None"
| "locate_chars_inner (p # ps) this_char =
     (if p = this_char then Some p else locate_chars_inner ps this_char)"

fun locate_chars_loop :: "bytes \<Rightarrow> bytes \<Rightarrow> nat \<Rightarrow> str_locate_result" where
  "locate_chars_loop [] p_chars i = not_found"
| "locate_chars_loop (c # cs) p_chars i =
     (case locate_chars_inner p_chars c of
        Some p \<Rightarrow> \<lparr>found = True, char_found = p, index = i\<rparr>
      | None \<Rightarrow> locate_chars_loop cs p_chars (i + 1))"

definition str_locate_chars :: "bytes \<Rightarrow> bytes \<Rightarrow> str_locate_result" where
  "str_locate_chars v p_chars = locate_chars_loop v (cstr p_chars) 0"

section \<open>Comparing and classifying\<close>

definition str_equal_internal :: "bytes \<Rightarrow> bytes \<Rightarrow> int" where
  "str_equal_internal v1 v2 =
     (let minlen = (if length v2 < length v1 then length v2 else length v1);
          retval = vsf_sysutil_memcmp (take minlen v1) (take minlen v2)
      in if retval \<noteq> 0 \<or> length v1 = length v2 then retval
         else sint (of_nat (length v1) - of_nat (length v2) :: 32 word))"

definition str_strcmp :: "bytes \<Rightarrow> bytes \<Rightarrow> int" where
  "str_strcmp v1 v2 = str_equal_internal v1 v2"

definition str_equal :: "bytes \<Rightarrow> bytes \<Rightarrow> bool" where
  "str_equal v1 v2 \<longleftrightarrow> str_strcmp v1 v2 = 0"

definition str_equal_text :: "bytes \<Rightarrow> bytes \<Rightarrow> bool" where
  "str_equal_text v p_text \<longleftrightarrow> str_equal_internal v (cstr p_text) = 0"

fun str_contains_space :: "bytes \<Rightarrow> bool" where
  "str_contains_space [] = False"
| "str_contains_space (c # cs) = (if vsf_sysutil_isspace c then True else str_contains_space cs)"

fun str_all_space :: "bytes \<Rightarrow> bool" where
  "str_all_space [] = True"
| "str_all_space (c # cs) = (if \<not> vsf_sysutil_isspace c then False else str_all_space cs)"

fun str_contains_unprintable :: "bytes \<Rightarrow> bool" where
  "str_contains_unprintable [] = False"
| "str_contains_unprintable (c # cs) =
     (if \<not> vsf_sysutil_isprint c then True else str_contains_unprintable cs)"

fun str_all_normal_char :: "bytes \<Rightarrow> bool" where
  "str_all_normal_char [] = True"
| "str_all_normal_char (c # cs) =
     (if \<not> (vsf_sysutil_isalnum c \<or> c = CHR ''-'' \<or> c = CHR ''_'' \<or> c = CHR ''.'')
      then False else str_all_normal_char cs)"

definition str_get_char_at :: "bytes \<Rightarrow> nat \<Rightarrow> char res" where
  "str_get_char_at v indexx =
     (if indexx \<ge> length v then bug ''bad indexx in str_get_char_at'' else Inr (v ! indexx))"

definition str_atoi :: "bytes \<Rightarrow> int" where
  "str_atoi v = vsf_sysutil_atoi v"

definition str_a_to_filesize_t :: "bytes \<Rightarrow> int" where
  "str_a_to_filesize_t v = vsf_sysutil_a_to_filesize_t v"

definition str_octal_to_uint :: "bytes \<Rightarrow> 32 word" where
  "str_octal_to_uint v = vsf_sysutil_octal_to_uint v"

section \<open>Lines\<close>

function getline_scan :: "bytes \<Rightarrow> nat \<Rightarrow> nat" where
  "getline_scan v curr_pos =
     (if curr_pos < length v \<and> v ! curr_pos \<noteq> LF then getline_scan v (curr_pos + 1)
      else curr_pos)"
  by pat_completeness auto
termination
  by (relation "measure (\<lambda>(v, p). length v - p)") auto

declare getline_scan.simps [simp del]

text \<open>
  The line, the new position and whether there was a line; the overflow tests of the scan
  cannot fire because the position stays at most the length.
\<close>

definition str_getline :: "bytes \<Rightarrow> nat \<Rightarrow> (bool \<times> bytes \<times> nat) res" where
  "str_getline v start_pos =
     (if start_pos > length v then bug ''p_pos out of range in str_getline''
      else if start_pos = length v then Inr (False, [], start_pos)
      else
        let curr_pos = getline_scan v start_pos;
            out_len = curr_pos - start_pos;
            curr_pos' = (if curr_pos < length v \<and> v ! curr_pos = LF then curr_pos + 1
                         else curr_pos)
        in Inr (True, chunk_at v start_pos out_len, curr_pos'))"

lemma getline_scan_bounds:
  "p \<le> length v \<Longrightarrow> p \<le> getline_scan v p \<and> getline_scan v p \<le> length v"
proof (induction v p rule: getline_scan.induct)
  case (1 v p)
  then show ?case by (subst (1 2) getline_scan.simps) auto
qed

lemma getline_scan_line:
  assumes "p < length v" and "v ! p \<noteq> LF"
  shows "p < getline_scan v p"
proof -
  have "getline_scan v p = getline_scan v (p + 1)"
    using assms by (subst getline_scan.simps) simp
  moreover have "p + 1 \<le> getline_scan v (p + 1)"
    using assms getline_scan_bounds [of "p + 1" v] by simp
  ultimately show ?thesis by simp
qed

lemma str_getline_progress:
  "str_getline v p = Inr (True, line, p') \<Longrightarrow> p < p' \<and> p' \<le> length v"
  using getline_scan_bounds [of p v] getline_scan_line [of p v]
  by (cases "p < length v \<and> v ! p \<noteq> LF")
     (auto simp: str_getline_def Let_def getline_scan.simps [of v p] split: if_splits)

function contains_line_loop :: "bytes \<Rightarrow> bytes \<Rightarrow> nat \<Rightarrow> bool res" where
  "contains_line_loop v p_line pos =
     (case str_getline v pos of
        Inl f \<Rightarrow> Inl f
      | Inr (False, _, _) \<Rightarrow> Inr False
      | Inr (True, curr_line, pos') \<Rightarrow>
          if str_equal curr_line p_line then Inr True else contains_line_loop v p_line pos')"
  by pat_completeness auto
termination
  by (relation "measure (\<lambda>(v, l, p). length v - p)") (auto dest!: str_getline_progress)

declare contains_line_loop.simps [simp del]

definition str_contains_line :: "bytes \<Rightarrow> bytes \<Rightarrow> bool res" where
  "str_contains_line v p_line = contains_line_loop v p_line 0"

section \<open>What the changing operations do to a view\<close>

text \<open>The pair of the new source view and the right-hand side.\<close>

definition v_split_common :: "bytes \<Rightarrow> bytes \<Rightarrow> bool \<Rightarrow> bytes \<times> bytes" where
  "v_split_common v p_text is_reverse =
     (let loc = (if is_reverse then str_locate_text_reverse v p_text else str_locate_text v p_text)
      in if \<not> found loc then (v, [])
         else (take (index loc) v, drop (index loc + length (cstr p_text)) v))"

definition v_split_text :: "bytes \<Rightarrow> bytes \<Rightarrow> bytes \<times> bytes" where
  "v_split_text v p_text = v_split_common v p_text False"

definition v_split_text_reverse :: "bytes \<Rightarrow> bytes \<Rightarrow> bytes \<times> bytes" where
  "v_split_text_reverse v p_text = v_split_common v p_text True"

definition v_split_char :: "bytes \<Rightarrow> char \<Rightarrow> bytes \<times> bytes" where
  "v_split_char v c = v_split_text v [c, NUL]"

definition v_split_char_reverse :: "bytes \<Rightarrow> char \<Rightarrow> bytes \<times> bytes" where
  "v_split_char_reverse v c = v_split_text_reverse v [c, NUL]"

definition v_upper :: "bytes \<Rightarrow> bytes" where
  "v_upper v = map vsf_sysutil_toupper v"

definition v_replace_char :: "bytes \<Rightarrow> char \<Rightarrow> char \<Rightarrow> bytes" where
  "v_replace_char v from to = map (\<lambda>c. if c = from then to else c) v"

definition v_replace_unprintable :: "bytes \<Rightarrow> char \<Rightarrow> bytes" where
  "v_replace_unprintable v new_char = map (\<lambda>c. if vsf_sysutil_isprint c then c else new_char) v"

definition v_rpad :: "bytes \<Rightarrow> nat \<Rightarrow> bytes" where
  "v_rpad v min_width = v @ replicate (min_width - length v) CHR '' ''"

definition v_lpad :: "bytes \<Rightarrow> nat \<Rightarrow> bytes" where
  "v_lpad v min_width = replicate (min_width - length v) CHR '' '' @ v"

text \<open>
  \<^verbatim>\<open>str_replace_text\<close> peels the string from the left: the loop state is the text still to be
  searched and the output so far. A hit is seen by the left-hand side getting shorter.
\<close>

lemma locate_text_found_length:
  "found (str_locate_text v p_text) \<Longrightarrow> cstr p_text \<noteq> [] \<and> length (cstr p_text) \<le> length v"
  by (auto simp: str_locate_text_def not_found_def Let_def split: if_splits)

lemma v_split_text_shorter:
  assumes "snd (v_split_text v p_text) \<noteq> []"
  shows "length (snd (v_split_text v p_text)) < length v"
proof -
  from assms have hit: "found (str_locate_text v p_text)"
    by (auto simp: v_split_text_def v_split_common_def Let_def split: if_splits)
  then have "0 < length (cstr p_text)" "length (cstr p_text) \<le> length v"
    using locate_text_found_length by auto
  moreover have "length (snd (v_split_text v p_text)) =
      length v - (index (str_locate_text v p_text) + length (cstr p_text))"
    using hit by (simp add: v_split_text_def v_split_common_def Let_def)
  ultimately show ?thesis by linarith
qed

function replace_text_loop :: "bytes \<Rightarrow> bytes \<Rightarrow> bytes \<Rightarrow> bytes \<Rightarrow> bytes" where
  "replace_text_loop p_from p_to chunk acc =
     (let lr = v_split_text chunk p_from;
          acc' = acc @ fst lr @ (if length (fst lr) < length chunk then cstr p_to else [])
      in if snd lr = [] then acc' else replace_text_loop p_from p_to (snd lr) acc')"
  by pat_completeness auto
termination
  by (relation "measure (\<lambda>(f, t, c, a). length c)") (auto simp: v_split_text_shorter)

declare replace_text_loop.simps [simp del]

definition v_replace_text :: "bytes \<Rightarrow> bytes \<Rightarrow> bytes \<Rightarrow> bytes" where
  "v_replace_text v p_from p_to = replace_text_loop p_from p_to v []"

section \<open>Lemmas: searching\<close>

text \<open>The text \<open>t\<close> stands at position \<open>i\<close> of \<open>v\<close>.\<close>

definition occurs_at :: "bytes \<Rightarrow> bytes \<Rightarrow> nat \<Rightarrow> bool" where
  "occurs_at v t i \<longleftrightarrow> i + length t \<le> length v \<and> chunk_at v i (length t) = t"

lemma found_simps [simp]:
  "found (found_at i)" "index (found_at i) = i" "\<not> found not_found" "index not_found = 0"
  "found_at i \<noteq> not_found"
  by (auto simp: found_at_def not_found_def)

lemma occurs_at_iff: "occurs_at v t i \<longleftrightarrow> (\<exists>pre post. v = pre @ t @ post \<and> length pre = i)"
proof
  assume "occurs_at v t i"
  then have "v = take i v @ t @ drop (i + length t) v" and "length (take i v) = i"
    by (auto simp: occurs_at_def chunk_at_def)
       (metis add.commute append_take_drop_id drop_drop)
  then show "\<exists>pre post. v = pre @ t @ post \<and> length pre = i" by blast
qed (auto simp: occurs_at_def chunk_at_def)

lemma occurs_atD: "occurs_at v t i \<Longrightarrow> v = take i v @ t @ drop (i + length t) v"
  by (auto simp: occurs_at_iff)

lemma memcmp_chunk:
  "i + length t \<le> length v \<Longrightarrow>
   vsf_sysutil_memcmp (chunk_at v i (length t)) t = 0 \<longleftrightarrow> occurs_at v t i"
  by (simp add: memcmp_0_iff occurs_at_def chunk_at_def)

lemma Least_next:
  fixes i :: nat
  assumes "\<not> P i"
  shows "(LEAST j. i \<le> j \<and> P j) = (LEAST j. i + 1 \<le> j \<and> P j)"
proof -
  have "(\<lambda>j. i \<le> j \<and> P j) = (\<lambda>j. i + 1 \<le> j \<and> P j)"
    using assms by (auto simp: fun_eq_iff Suc_le_eq order_le_less)
  then show ?thesis by simp
qed

lemma locate_text_loop_eq:
  "length t \<le> length v \<Longrightarrow>
   locate_text_loop v t i =
     (if \<exists>j\<ge>i. occurs_at v t j then found_at (LEAST j. i \<le> j \<and> occurs_at v t j) else not_found)"
proof (induction v t i rule: locate_text_loop.induct)
  case (1 v t i)
  show ?case
  proof (cases "i \<le> length v - length t")
    case True
    then have fit: "i + length t \<le> length v" using "1.prems" by simp
    show ?thesis
    proof (cases "occurs_at v t i")
      case hit: True
      then have "(LEAST j. i \<le> j \<and> occurs_at v t j) = i" by (intro Least_equality) auto
      with hit True fit show ?thesis
        by (auto simp: locate_text_loop.simps [of v t i] memcmp_chunk)
    next
      case miss: False
      have "(\<exists>j\<ge>i. occurs_at v t j) \<longleftrightarrow> (\<exists>j\<ge>i + 1. occurs_at v t j)"
        using miss by (metis Suc_eq_plus1 Suc_le_eq le_eq_less_or_eq)
      with miss True fit "1" show ?thesis
        by (auto simp: locate_text_loop.simps [of v t i] memcmp_chunk
            Least_next [of "occurs_at v t" i])
    qed
  next
    case False
    then have "\<not> (\<exists>j\<ge>i. occurs_at v t j)" by (auto simp: occurs_at_def)
    with False show ?thesis by (auto simp: locate_text_loop.simps [of v t i])
  qed
qed

lemma locate_text_reverse_loop_eq:
  "i + length t \<le> length v \<Longrightarrow>
   locate_text_reverse_loop v t i =
     (if \<exists>j\<le>i. occurs_at v t j then found_at (GREATEST j. j \<le> i \<and> occurs_at v t j) else not_found)"
proof (induction i)
  case 0
  then show ?case
    by (auto simp: locate_text_reverse_loop.simps [of v t 0] memcmp_chunk Greatest_equality
        intro!: arg_cong [of _ _ found_at] Greatest_equality [symmetric])
next
  case (Suc i)
  show ?case
  proof (cases "occurs_at v t (Suc i)")
    case True
    then have "(GREATEST j. j \<le> Suc i \<and> occurs_at v t j) = Suc i"
      by (intro Greatest_equality) auto
    with True Suc.prems show ?thesis
      by (auto simp: locate_text_reverse_loop.simps [of v t "Suc i"] memcmp_chunk)
  next
    case False
    have "(\<lambda>j. j \<le> Suc i \<and> occurs_at v t j) = (\<lambda>j. j \<le> i \<and> occurs_at v t j)"
      using False by (auto simp: fun_eq_iff le_Suc_eq)
    moreover have "(\<exists>j\<le>Suc i. occurs_at v t j) \<longleftrightarrow> (\<exists>j\<le>i. occurs_at v t j)"
      using False by (auto simp: le_Suc_eq)
    ultimately show ?thesis using False Suc
      by (simp add: locate_text_reverse_loop.simps [of v t "Suc i"] memcmp_chunk)
  qed
qed

lemma str_locate_text_eq:
  assumes "t = cstr p_text" and "t \<noteq> []"
  shows "str_locate_text v p_text =
    (if \<exists>j. occurs_at v t j then found_at (LEAST j. occurs_at v t j) else not_found)"
  using assms by (auto simp: str_locate_text_def Let_def locate_text_loop_eq occurs_at_def)

lemma str_locate_text_reverse_eq:
  assumes "t = cstr p_text" and "t \<noteq> []"
  shows "str_locate_text_reverse v p_text =
    (if \<exists>j. occurs_at v t j then found_at (GREATEST j. occurs_at v t j) else not_found)"
proof (cases "length t \<le> length v")
  case True
  have "(\<lambda>j. j \<le> length v - length t \<and> occurs_at v t j) = occurs_at v t"
    by (auto simp: fun_eq_iff occurs_at_def)
  moreover have "j \<le> length v - length t" if "occurs_at v t j" for j
    using that by (auto simp: occurs_at_def)
  then have "(\<exists>j\<le>length v - length t. occurs_at v t j) \<longleftrightarrow> (\<exists>j. occurs_at v t j)"
    by blast
  ultimately show ?thesis using assms True
    by (simp add: str_locate_text_reverse_def Let_def locate_text_reverse_loop_eq)
qed (use assms in \<open>auto simp: str_locate_text_reverse_def Let_def occurs_at_def\<close>)

lemma locate_found_occurs:
  assumes "found (if is_rev then str_locate_text_reverse v p_text else str_locate_text v p_text)"
  shows "occurs_at v (cstr p_text)
    (index (if is_rev then str_locate_text_reverse v p_text else str_locate_text v p_text))"
proof -
  let ?t = "cstr p_text"
  have ne: "?t \<noteq> []"
    using assms by (auto simp: str_locate_text_def str_locate_text_reverse_def Let_def split: if_splits)
  have bound: "\<And>y. occurs_at v ?t y \<Longrightarrow> y \<le> length v" by (auto simp: occurs_at_def)
  show ?thesis
    using assms ne LeastI_ex [of "occurs_at v ?t"] GreatestI_ex_nat [of "occurs_at v ?t" "length v"] bound
    by (auto simp: str_locate_text_eq str_locate_text_reverse_eq split: if_splits)
qed

lemma v_split_text_eq:
  assumes "t = cstr p_text" and "t \<noteq> []"
  shows "v_split_text v p_text =
    (if \<exists>j. occurs_at v t j
     then (take (LEAST j. occurs_at v t j) v, drop ((LEAST j. occurs_at v t j) + length t) v)
     else (v, []))"
  using assms by (auto simp: v_split_text_def v_split_common_def Let_def str_locate_text_eq)

lemma v_split_text_found:
  assumes "t = cstr p_text" and "t \<noteq> []" and "occurs_at v t j" and "v_split_text v p_text = (l, r)"
  shows "v = l @ t @ r \<and> (\<forall>i < length l. \<not> occurs_at v t i)"
proof -
  define k where "k = (LEAST j. occurs_at v t j)"
  have occ: "occurs_at v t k" unfolding k_def using assms(3) by (rule LeastI)
  have lr: "l = take k v" "r = drop (k + length t) v"
    using assms by (auto simp: v_split_text_eq k_def split: if_splits)
  have "k \<le> length v" using occ by (simp add: occurs_at_def)
  moreover have "\<not> occurs_at v t i" if "i < k" for i
    using that not_less_Least by (auto simp: k_def)
  ultimately show ?thesis using occurs_atD [OF occ] lr by auto
qed

lemma v_split_text_reverse_found:
  assumes "t = cstr p_text" and "t \<noteq> []" and "occurs_at v t j"
    and "v_split_text_reverse v p_text = (l, r)"
  shows "v = l @ t @ r \<and> (\<forall>i. length l < i \<longrightarrow> \<not> occurs_at v t i)"
proof -
  define k where "k = (GREATEST j. occurs_at v t j)"
  have bound: "\<And>y. occurs_at v t y \<Longrightarrow> y \<le> length v" by (auto simp: occurs_at_def)
  have occ: "occurs_at v t k"
    unfolding k_def using assms(3) bound by (rule GreatestI_nat [of "occurs_at v t"])
  have lr: "l = take k v" "r = drop (k + length t) v"
    using assms by (auto simp: v_split_text_reverse_def v_split_common_def Let_def
        str_locate_text_reverse_eq k_def split: if_splits)
  have "k \<le> length v" using occ by (rule bound)
  moreover have "\<not> occurs_at v t i" if "k < i" for i
    using that Greatest_le_nat [of "occurs_at v t" i "length v"] bound by (auto simp: k_def)
  ultimately show ?thesis using occurs_atD [OF occ] lr by auto
qed

lemma v_split_text_missing:
  "t = cstr p_text \<Longrightarrow> \<not> (\<exists>j. occurs_at v t j) \<Longrightarrow> v_split_text v p_text = (v, [])"
  by (cases "t = []")
     (simp_all add: v_split_text_eq,
      simp add: v_split_text_def v_split_common_def str_locate_text_def)

lemma v_split_text_cong: "cstr p = cstr q \<Longrightarrow> v_split_text v p = v_split_text v q"
  by (simp add: v_split_text_def v_split_common_def str_locate_text_def Let_def)

section \<open>Lemmas: single characters\<close>

lemma occurs_at_singleton: "occurs_at v [c] i \<longleftrightarrow> i < length v \<and> v ! i = c"
  by (auto simp: occurs_at_def chunk_at_def Suc_le_eq take_Suc_conv_app_nth [of 0, simplified]
      hd_drop_conv_nth take_Suc)

lemma occurs_ex_singleton: "(\<exists>i. occurs_at v [c] i) \<longleftrightarrow> c \<in> set v"
  by (auto simp: occurs_at_singleton in_set_conv_nth)

lemma cstr_char [simp]: "c \<noteq> NUL \<Longrightarrow> cstr [c, NUL] = [c]"
  by (simp add: cstr_def)

lemma split_at_first:
  assumes "v = l @ c # r" and "c \<notin> set l"
  shows "takeWhile (\<lambda>x. x \<noteq> c) v = l" and "drop 1 (dropWhile (\<lambda>x. x \<noteq> c) v) = r"
proof -
  have "\<And>x. x \<in> set l \<Longrightarrow> x \<noteq> c" using assms(2) by auto
  then show "takeWhile (\<lambda>x. x \<noteq> c) v = l" "drop 1 (dropWhile (\<lambda>x. x \<noteq> c) v) = r"
    using assms(1) by (simp_all add: takeWhile_append2 dropWhile_append2)
qed

lemma v_split_char_eq:
  assumes "c \<noteq> NUL"
  shows "v_split_char v c = (takeWhile (\<lambda>x. x \<noteq> c) v, drop 1 (dropWhile (\<lambda>x. x \<noteq> c) v))"
proof (cases "c \<in> set v")
  case True
  then obtain j where j: "occurs_at v [c] j" using occurs_ex_singleton [of v c] by blast
  obtain l r where lr: "v_split_char v c = (l, r)" by (cases "v_split_char v c")
  have "v = l @ [c] @ r \<and> (\<forall>i<length l. \<not> occurs_at v [c] i)"
    by (rule v_split_text_found [of "[c]" "[c, NUL]" v j])
       (use j lr assms in \<open>simp_all add: v_split_char_def\<close>)
  then have "v = l @ c # r" and "c \<notin> set l"
    by (auto simp: occurs_at_singleton in_set_conv_nth nth_append)
  then show ?thesis using lr split_at_first [of v l c r] by simp
next
  case False
  then have "takeWhile (\<lambda>x. x \<noteq> c) v = v" "dropWhile (\<lambda>x. x \<noteq> c) v = []"
    by (auto simp: takeWhile_eq_all_conv dropWhile_eq_Nil_conv)
  moreover have "v_split_char v c = (v, [])"
    using False assms occurs_ex_singleton [of v c]
    by (simp add: v_split_char_def v_split_text_missing [of "[c]"])
  ultimately show ?thesis by (simp only: drop_Nil)
qed

lemma v_split_char_missing: "c \<noteq> NUL \<Longrightarrow> c \<notin> set v \<Longrightarrow> v_split_char v c = (v, [])"
  using occurs_ex_singleton [of v c] by (simp add: v_split_char_def v_split_text_missing [of "[c]"])

lemma v_split_char_hit: "c \<noteq> NUL \<Longrightarrow> c \<notin> set l \<Longrightarrow> v_split_char (l @ c # r) c = (l, r)"
  using split_at_first [of "l @ c # r" l c r] by (simp add: v_split_char_eq)

lemma v_split_char_length:
  assumes "c \<noteq> NUL"
  shows "length (fst (v_split_char v c)) + length (snd (v_split_char v c)) \<le> length v"
    and "snd (v_split_char v c) \<noteq> [] \<Longrightarrow>
         length (fst (v_split_char v c)) + length (snd (v_split_char v c)) < length v"
proof -
  have "length (takeWhile (\<lambda>x. x \<noteq> c) v) + length (dropWhile (\<lambda>x. x \<noteq> c) v) = length v"
    by (metis length_append takeWhile_dropWhile_id)
  then show "length (fst (v_split_char v c)) + length (snd (v_split_char v c)) \<le> length v"
    and "snd (v_split_char v c) \<noteq> [] \<Longrightarrow>
      length (fst (v_split_char v c)) + length (snd (v_split_char v c)) < length v"
    using assms by (auto simp: v_split_char_eq)
qed

text \<open>The pieces of a text between separators; always at least one.\<close>

fun pieces :: "char \<Rightarrow> bytes \<Rightarrow> bytes list" where
  "pieces sep [] = [[]]"
| "pieces sep (c # cs) =
     (if c = sep then [] # pieces sep cs else (c # hd (pieces sep cs)) # tl (pieces sep cs))"

lemma pieces_not_Nil [simp]: "pieces sep cs \<noteq> []"
  by (cases cs) auto

lemma pieces_no_sep: "sep \<notin> set s \<Longrightarrow> pieces sep s = [s]"
  by (induction s) auto

lemma pieces_sep: "sep \<notin> set l \<Longrightarrow> pieces sep (l @ sep # r) = l # pieces sep r"
  by (induction l) auto

lemma pieces_append: "pieces s (l @ s # r) = pieces s l @ pieces s r"
  by (induction l) auto

lemma split_char_pieces:
  assumes "c \<noteq> NUL" and "v_split_char s c = (lhs, rhs)"
  shows "c \<notin> set lhs" and "pieces c s = (if c \<in> set s then lhs # pieces c rhs else [lhs])"
    and "c \<notin> set s \<Longrightarrow> lhs = s \<and> rhs = []"
proof -
  show none: "c \<notin> set s \<Longrightarrow> lhs = s \<and> rhs = []"
    using v_split_char_missing [OF assms(1), of s] assms(2) by simp
  have hit: "s = lhs @ c # rhs \<and> c \<notin> set lhs" if in_s: "c \<in> set s"
  proof -
    obtain l r where s: "s = l @ c # r" "c \<notin> set l" using split_list_first [OF in_s] by blast
    then have "v_split_char s c = (l, r)" using v_split_char_hit [OF assms(1)] by simp
    with s assms(2) show ?thesis by simp
  qed
  show "c \<notin> set lhs" using none hit by blast
  show "pieces c s = (if c \<in> set s then lhs # pieces c rhs else [lhs])"
    using none hit pieces_sep pieces_no_sep by metis
qed

lemma str_locate_char_found: "c \<noteq> NUL \<Longrightarrow> found (str_locate_char v c) \<longleftrightarrow> c \<in> set v"
  by (simp add: str_locate_char_def str_locate_text_eq [of "[c]"] occurs_ex_singleton [symmetric])

lemma locate_chars_inner_eq: "locate_chars_inner ps c = (if c \<in> set ps then Some c else None)"
  by (induction ps) auto

lemma locate_chars_loop_eq:
  "locate_chars_loop v ps i =
     (case dropWhile (\<lambda>c. c \<notin> set ps) v of
        [] \<Rightarrow> not_found
      | c # cs \<Rightarrow> \<lparr>found = True, char_found = c,
                   index = i + length (takeWhile (\<lambda>c. c \<notin> set ps) v)\<rparr>)"
proof (induction v arbitrary: i)
  case (Cons a v)
  then show ?case
    by (cases "a \<in> set ps"; cases "dropWhile (\<lambda>c. c \<notin> set ps) v")
       (simp_all add: locate_chars_inner_eq del: dropWhile_eq_Nil_conv)
qed simp

section \<open>Lemmas: replacing\<close>

lemma replace_char_loop_eq:
  assumes "f \<noteq> NUL"
  shows "replace_text_loop [f, NUL] p_to v acc =
    acc @ concat (map (\<lambda>c. if c = f then cstr p_to else [c]) v)"
proof (induction v arbitrary: acc rule: length_induct)
  case (1 v)
  let ?rep = "\<lambda>v. concat (map (\<lambda>c. if c = f then cstr p_to else [c]) v)"
  have same: "?rep l = l" if "f \<notin> set l" for l using that by (induction l) auto
  show ?case
  proof (cases "f \<in> set v")
    case True
    then obtain l r where v: "v = l @ f # r" and l: "f \<notin> set l" by (meson split_list_first)
    have split: "v_split_text v [f, NUL] = (l, r)"
      using v_split_char_hit [OF assms l, of r] v by (simp add: v_split_char_def)
    have "length r < length v" using v by simp
    with "1.IH" have "replace_text_loop [f, NUL] p_to r acc' = acc' @ ?rep r" for acc' by blast
    then show ?thesis using split v same [OF l]
      by (subst replace_text_loop.simps) (simp add: Let_def)
  next
    case False
    have "v_split_text v [f, NUL] = (v, [])"
      using v_split_char_missing [OF assms False] by (simp add: v_split_char_def)
    then show ?thesis using same [OF False]
      by (subst replace_text_loop.simps) (simp add: Let_def)
  qed
qed

lemma v_replace_text_char:
  "f \<noteq> NUL \<Longrightarrow> v_replace_text v [f] p_to = concat (map (\<lambda>c. if c = f then cstr p_to else [c]) v)"
proof -
  assume f: "f \<noteq> NUL"
  have "v_split_text v [f] = v_split_text v [f, NUL]" for v
    using f by (intro v_split_text_cong) simp
  then have "replace_text_loop [f] p_to v acc = replace_text_loop [f, NUL] p_to v acc" for acc
  proof (induction v arbitrary: acc rule: length_induct)
    case (1 v)
    then show ?case
      by (subst (1 2) replace_text_loop.simps) (simp add: Let_def v_split_text_shorter)
  qed
  with replace_char_loop_eq [OF f] show ?thesis by (simp add: v_replace_text_def)
qed

section \<open>Lemmas: comparing\<close>

lemma word_diff_0_iff:
  assumes "a \<le> UINT_MAX" and "b \<le> UINT_MAX"
  shows "sint (of_nat a - of_nat b :: 32 word) = 0 \<longleftrightarrow> a = b"
proof -
  have "unat (of_nat a :: 32 word) = a" "unat (of_nat b :: 32 word) = b"
    using assms by (simp_all add: unat_of_nat)
  then show ?thesis by (metis right_minus_eq signed_eq_0_iff)
qed

lemma str_equal_internal_0_iff:
  assumes "length v1 \<le> UINT_MAX" and "length v2 \<le> UINT_MAX"
  shows "str_equal_internal v1 v2 = 0 \<longleftrightarrow> v1 = v2"
proof (cases "length v1 = length v2")
  case True
  then show ?thesis by (simp add: str_equal_internal_def memcmp_0_iff)
next
  case False
  then show ?thesis using assms by (auto simp: str_equal_internal_def Let_def word_diff_0_iff)
qed

lemma str_equal_iff:
  "length v1 \<le> UINT_MAX \<Longrightarrow> length v2 \<le> UINT_MAX \<Longrightarrow> str_equal v1 v2 \<longleftrightarrow> v1 = v2"
  by (simp add: str_equal_def str_strcmp_def str_equal_internal_0_iff)

text \<open>The order on byte strings that a correct comparison gives: lexicographic on byte values.\<close>

definition byte_order :: "(bytes \<times> bytes) set" where
  "byte_order = lexord {(a, b). code a < code b}"

lemma memcmp_take_less:
  "vsf_sysutil_memcmp (take (min (length v1) (length v2)) v1) (take (min (length v1) (length v2)) v2) < 0
     \<longleftrightarrow> (\<exists>p a b r1 r2. v1 = p @ a # r1 \<and> v2 = p @ b # r2 \<and> code a < code b)"
proof (induction v1 v2 rule: vsf_sysutil_memcmp.induct)
  case (1 a as b bs)
  show ?case
  proof (cases "a = b")
    case True
    with "1" show ?thesis by (auto simp: Cons_eq_append_conv) (metis append_Cons)+
  next
    case False
    then show ?thesis by (auto simp: Cons_eq_append_conv)
  qed
qed auto

lemma memcmp_take_0:
  "vsf_sysutil_memcmp (take (min (length v1) (length v2)) v1) (take (min (length v1) (length v2)) v2) = 0
     \<longleftrightarrow> prefix v1 v2 \<or> prefix v2 v1"
proof -
  let ?m = "min (length v1) (length v2)"
  have "vsf_sysutil_memcmp (take ?m v1) (take ?m v2) = 0 \<longleftrightarrow> take ?m v1 = take ?m v2"
    by (rule memcmp_0_iff) simp
  also have "\<dots> \<longleftrightarrow> prefix v1 v2 \<or> prefix v2 v1"
    by (cases "length v1 \<le> length v2")
       (auto simp: min_def prefix_def, (metis append_take_drop_id)+)
  finally show ?thesis .
qed

lemma sint_diff:
  assumes "a \<le> INT_MAX" and "b \<le> INT_MAX"
  shows "sint (of_nat a - of_nat b :: 32 word) = int a - int b"
proof -
  have "(of_nat a - of_nat b :: 32 word) = word_of_int (int a - int b)" by simp
  also have "sint \<dots> = signed_take_bit 31 (int a - int b)"
    by (subst signed_of_int) simp
  also have "\<dots> = int a - int b"
    by (rule signed_take_bit_int_eq_self) (use assms in auto)
  finally show ?thesis .
qed

lemma strcmp_byte_order:
  assumes "length v1 \<le> INT_MAX" and "length v2 \<le> INT_MAX"
  shows "(str_strcmp v1 v2 = 0 \<longleftrightarrow> v1 = v2) \<and> (str_strcmp v1 v2 < 0 \<longleftrightarrow> (v1, v2) \<in> byte_order)"
proof -
  let ?m = "min (length v1) (length v2)"
  define c where "c = vsf_sysutil_memcmp (take ?m v1) (take ?m v2)"
  have minlen: "(if length v2 < length v1 then length v2 else length v1) = ?m" by simp
  have eq: "str_strcmp v1 v2 =
      (if c \<noteq> 0 \<or> length v1 = length v2 then c else int (length v1) - int (length v2))"
    using assms by (simp add: str_strcmp_def str_equal_internal_def Let_def minlen c_def sint_diff)
  have neg: "c < 0 \<longleftrightarrow> (\<exists>p a b r1 r2. v1 = p @ a # r1 \<and> v2 = p @ b # r2 \<and> code a < code b)"
    unfolding c_def by (rule memcmp_take_less)
  have zero: "c = 0 \<longleftrightarrow> prefix v1 v2 \<or> prefix v2 v1" unfolding c_def by (rule memcmp_take_0)
  have order: "(v1, v2) \<in> byte_order \<longleftrightarrow> (\<exists>a w. v2 = v1 @ a # w) \<or> c < 0"
    unfolding neg byte_order_def lexord_def mem_Collect_eq prod.case by blast
  have "str_strcmp v1 v2 = 0 \<longleftrightarrow> v1 = v2"
    using str_equal_internal_0_iff [of v1 v2] assms by (simp add: str_strcmp_def)
  moreover have "str_strcmp v1 v2 < 0 \<longleftrightarrow> (v1, v2) \<in> byte_order"
  proof (cases "c = 0")
    case True
    then have "prefix v1 v2 \<or> prefix v2 v1" using zero by simp
    then show ?thesis unfolding order eq using True
      by (auto simp: prefix_def neq_Nil_conv)
  next
    case False
    have "\<not> (\<exists>a w. v2 = v1 @ a # w)" using False zero by auto
    then show ?thesis unfolding order eq using False by simp
  qed
  ultimately show ?thesis by blast
qed

section \<open>Lemmas: lines\<close>

function v_lines :: "bytes \<Rightarrow> bytes list" where
  "v_lines [] = []"
| "v_lines (c # cs) =
     takeWhile (\<lambda>x. x \<noteq> LF) (c # cs) # v_lines (drop 1 (dropWhile (\<lambda>x. x \<noteq> LF) (c # cs)))"
  by pat_completeness auto
termination
proof (relation "measure length")
  fix c :: char and cs :: bytes
  have "length (dropWhile (\<lambda>x. x \<noteq> LF) (c # cs)) \<le> length (c # cs)" by (rule length_dropWhile_le)
  then show "(drop 1 (dropWhile (\<lambda>x. x \<noteq> LF) (c # cs)), c # cs) \<in> measure length"
    by (auto simp: less_Suc_eq_le)
qed simp

lemma getline_scan_eq: "p \<le> length v \<Longrightarrow> getline_scan v p = p + length (takeWhile (\<lambda>x. x \<noteq> LF) (drop p v))"
proof (induction v p rule: getline_scan.induct)
  case (1 v p)
  show ?case
  proof (cases "p < length v")
    case True
    then have "drop p v = v ! p # drop (Suc p) v" by (simp add: Cons_nth_drop_Suc)
    with "1" True show ?thesis by (subst getline_scan.simps) simp
  qed (use "1.prems" in \<open>subst getline_scan.simps, simp\<close>)
qed

lemma str_getline_eq:
  assumes "p < length v"
  shows "\<exists>p'. str_getline v p = Inr (True, takeWhile (\<lambda>x. x \<noteq> LF) (drop p v), p') \<and>
           drop p' v = drop 1 (dropWhile (\<lambda>x. x \<noteq> LF) (drop p v)) \<and> p' \<le> length v"
proof -
  let ?w = "takeWhile (\<lambda>x. x \<noteq> LF) (drop p v)"
  have scan: "getline_scan v p = p + length ?w" using assms by (simp add: getline_scan_eq)
  have line: "chunk_at v p (length ?w) = ?w" by (simp add: chunk_at_def takeWhile_eq_take [symmetric])
  have rest: "drop (p + length ?w) v = dropWhile (\<lambda>x. x \<noteq> LF) (drop p v)"
    by (metis add.commute drop_drop dropWhile_eq_drop)
  have le: "p + length ?w \<le> length v"
    using assms length_takeWhile_le [of "\<lambda>x. x \<noteq> LF" "drop p v"] by simp
  show ?thesis
  proof (cases "p + length ?w < length v")
    case True
    have "v ! (p + length ?w) = LF"
      using True nth_length_takeWhile [of "\<lambda>x. x \<noteq> LF" "drop p v"] by simp
    moreover have "drop (Suc (p + length ?w)) v = drop 1 (dropWhile (\<lambda>x. x \<noteq> LF) (drop p v))"
      using rest by (metis One_nat_def drop_drop plus_1_eq_Suc)
    ultimately show ?thesis using True assms scan line
      by (intro exI [of _ "p + length ?w + 1"]) (simp add: str_getline_def Let_def)
  next
    case False
    then have "dropWhile (\<lambda>x. x \<noteq> LF) (drop p v) = []" using rest by (metis drop_all not_less)
    moreover from False le have fin: "p + length ?w = length v" by simp
    moreover have "length v - p = length ?w" using fin by simp
    ultimately show ?thesis using assms scan line
      by (intro exI [of _ "p + length ?w"])
         (simp add: str_getline_def Let_def del: dropWhile_eq_Nil_conv)
  qed
qed

lemma v_lines_drop:
  "p < length v \<Longrightarrow> v_lines (drop p v) =
     takeWhile (\<lambda>x. x \<noteq> LF) (drop p v) # v_lines (drop 1 (dropWhile (\<lambda>x. x \<noteq> LF) (drop p v)))"
  by (cases "drop p v") simp_all

lemma contains_line_loop_eq:
  assumes "length v \<le> UINT_MAX" and "length l \<le> UINT_MAX"
  shows "p \<le> length v \<Longrightarrow> contains_line_loop v l p = Inr (l \<in> set (v_lines (drop p v)))"
proof (induction "length v - p" arbitrary: p rule: less_induct)
  case less
  show ?case
  proof (cases "p < length v")
    case True
    then obtain p' where g: "str_getline v p = Inr (True, takeWhile (\<lambda>x. x \<noteq> LF) (drop p v), p')"
      and d: "drop p' v = drop 1 (dropWhile (\<lambda>x. x \<noteq> LF) (drop p v))" and le: "p' \<le> length v"
      using str_getline_eq by blast
    have "p < p'" using str_getline_progress [OF g] by simp
    then have IH: "contains_line_loop v l p' = Inr (l \<in> set (v_lines (drop p' v)))"
      using less True le by simp
    have "length (takeWhile (\<lambda>x. x \<noteq> LF) (drop p v)) \<le> UINT_MAX"
      using assms(1) length_takeWhile_le [of "\<lambda>x. x \<noteq> LF" "drop p v"] by simp
    then show ?thesis using IH d assms g True
      by (subst contains_line_loop.simps) (auto simp: str_equal_iff v_lines_drop)
  next
    case False
    then show ?thesis using less.prems
      by (subst contains_line_loop.simps) (simp add: str_getline_def)
  qed
qed

section \<open>Properties\<close>

text \<open>Str_locate_text finds the first occurrence. The search reports a hit exactly
  when the non-empty text occurs, and then the reported index is the first place where it
  stands.\<close>

theorem str_locate_text_first:
  "(found (str_locate_text v p_text) \<longleftrightarrow>
      cstr p_text \<noteq> [] \<and> (\<exists>pre post. v = pre @ cstr p_text @ post)) \<and>
   (found (str_locate_text v p_text) \<longrightarrow>
      occurs_at v (cstr p_text) (index (str_locate_text v p_text)) \<and>
      (\<forall>j < index (str_locate_text v p_text). \<not> occurs_at v (cstr p_text) j))"
proof (cases "cstr p_text = []")
  case True
  then show ?thesis by (simp add: str_locate_text_def)
next
  case False
  have "(\<exists>pre post. v = pre @ cstr p_text @ post) \<longleftrightarrow> (\<exists>j. occurs_at v (cstr p_text) j)"
    by (auto simp: occurs_at_iff)
  with False LeastI_ex [of "occurs_at v (cstr p_text)"] show ?thesis
    by (auto simp: str_locate_text_eq dest: not_less_Least)
qed

theorem str_locate_text_first_witness:
  "occurs_at ''a/../b/../c'' ''/../'' (index (str_locate_text ''a/../b/../c'' ''/../''))"
proof -
  have "found (str_locate_text ''a/../b/../c'' ''/../'')" and "cstr ''/../'' = ''/../''" by code_simp+
  with str_locate_text_first [of "''a/../b/../c''" "''/../''"] show ?thesis by simp
qed

text \<open>Str_locate_text_reverse finds the last occurrence.\<close>

theorem str_locate_text_reverse_last:
  assumes "cstr p_text \<noteq> []" and "occurs_at v (cstr p_text) j"
  shows "found (str_locate_text_reverse v p_text) \<and>
    occurs_at v (cstr p_text) (index (str_locate_text_reverse v p_text)) \<and>
    j \<le> index (str_locate_text_reverse v p_text)"
proof -
  have bound: "\<And>y. occurs_at v (cstr p_text) y \<Longrightarrow> y \<le> length v" by (auto simp: occurs_at_def)
  have "occurs_at v (cstr p_text) (GREATEST j. occurs_at v (cstr p_text) j)"
    using assms(2) bound by (rule GreatestI_nat)
  moreover have "j \<le> (GREATEST j. occurs_at v (cstr p_text) j)"
    using assms(2) bound by (rule Greatest_le_nat)
  ultimately show ?thesis using assms by (auto simp: str_locate_text_reverse_eq)
qed

theorem str_locate_text_reverse_last_witness:
  "cstr ''/'' \<noteq> [] \<and> occurs_at ''a/b/c'' (cstr ''/'') 1 \<and>
   1 \<le> index (str_locate_text_reverse ''a/b/c'' ''/'')"
proof -
  have h: "cstr ''/'' \<noteq> []" "occurs_at ''a/b/c'' (cstr ''/'') 1" by code_simp+
  with str_locate_text_reverse_last [OF h] show ?thesis by simp
qed

text \<open>Str_strcmp is the lexicographic order on bytes. For strings of any length the code
  can hold, the comparison is 0 exactly for equal strings and negative exactly when the first is
  smaller in the lexicographic order of byte values; the unsigned subtraction of the lengths
  cannot spoil it.\<close>

theorem str_strcmp_order:
  assumes "length v1 \<le> INT_MAX" and "length v2 \<le> INT_MAX"
  shows "(str_strcmp v1 v2 = 0 \<longleftrightarrow> v1 = v2) \<and> (str_strcmp v1 v2 < 0 \<longleftrightarrow> (v1, v2) \<in> byte_order)"
  using assms by (rule strcmp_byte_order)

theorem str_strcmp_order_witness:
  "length ''ab'' \<le> INT_MAX \<and> length ''abc'' \<le> INT_MAX \<and> (''ab'', ''abc'') \<in> byte_order"
proof -
  have h: "length ''ab'' \<le> INT_MAX" "length ''abc'' \<le> INT_MAX" by simp_all
  have "str_strcmp ''ab'' ''abc'' < 0" by code_simp
  with h str_strcmp_order [OF h] show ?thesis by blast
qed

text \<open>Str_contains_line decides membership in the lines of the text, for every text and
  line that fits in an unsigned length; the scan always ends without a fault.\<close>

theorem str_contains_line_iff:
  assumes "length v \<le> UINT_MAX" and "length l \<le> UINT_MAX"
  shows "str_contains_line v l = Inr (l \<in> set (v_lines v))"
  using contains_line_loop_eq [OF assms, of 0] by (simp add: str_contains_line_def)

theorem str_contains_line_iff_witness:
  "str_contains_line (''root'' @ [LF] @ ''bob'') ''bob'' = Inr True"
proof -
  have h: "length (''root'' @ [LF] @ ''bob'') \<le> UINT_MAX" "length ''bob'' \<le> UINT_MAX" by simp_all
  have "''bob'' \<in> set (v_lines (''root'' @ [LF] @ ''bob''))" by simp
  with str_contains_line_iff [OF h] show ?thesis by simp
qed

end
