(* ===== verification/Str.thy ===== *)
theory Str
  imports StrVal
begin

text \<open>
  The buffers of \<^verbatim>\<open>str.c\<close>: \<^verbatim>\<open>struct mystr\<close> with its heap block, its length and the size it
  believes the block to have, and every operation of the file that changes a string, down to
  the bytes it writes. A write outside the block, or through the null pointer, is \<open>Segv\<close>. A
  chunk argument is the \<^verbatim>\<open>p_src\<close>/\<^verbatim>\<open>len\<close> pair of the code: the bytes that are copied. The static
  temporaries of the code are arguments and results. The locale \<open>string_buffer\<close> states what the
  primitives promise; its lemmas, proved once, carry the derived operations.
\<close>

record mystr =
  p_buf :: "bytes option"
  slen :: nat
  alloc_bytes :: nat

definition INIT_MYSTR :: mystr where
  "INIT_MYSTR = \<lparr>p_buf = None, slen = 0, alloc_bytes = 0\<rparr>"

text \<open>The well-formedness \<^verbatim>\<open>str.c\<close> keeps: no block and both numbers 0, or a block of
  \<^verbatim>\<open>alloc_bytes\<close> bytes that holds the string and its terminator.\<close>

definition wf_str :: "mystr \<Rightarrow> bool" where
  "wf_str s =
     (case p_buf s of
        None \<Rightarrow> slen s = 0 \<and> alloc_bytes s = 0
      | Some b \<Rightarrow> length b = alloc_bytes s \<and> slen s < alloc_bytes s \<and> alloc_bytes s \<le> INT_MAX \<and>
                  b ! slen s = NUL)"

definition view :: "mystr \<Rightarrow> bytes" where
  "view s = (case p_buf s of None \<Rightarrow> [] | Some b \<Rightarrow> take (slen s) b)"

text \<open>\<^verbatim>\<open>p[i] = c\<close>.\<close>

definition poke :: "bytes option \<Rightarrow> nat \<Rightarrow> char \<Rightarrow> bytes option res" where
  "poke p i c =
     (case p of None \<Rightarrow> Inl Segv
      | Some b \<Rightarrow> if i < length b then Inr (Some (b[i := c])) else Inl Segv)"

definition peek :: "bytes option \<Rightarrow> nat \<Rightarrow> char res" where
  "peek p i =
     (case p of None \<Rightarrow> Inl Segv | Some b \<Rightarrow> if i < length b then Inr (b ! i) else Inl Segv)"

section \<open>Primitives\<close>

definition s_setbuf :: "mystr \<Rightarrow> bytes \<Rightarrow> mystr res" where
  "s_setbuf p_str p_newbuf =
     (if p_buf p_str \<noteq> None then bug ''p_buf not NULL when setting it''
      else Inr (p_str\<lparr>p_buf := Some p_newbuf\<rparr>))"

definition str_free :: "mystr \<Rightarrow> mystr" where
  "str_free p_str = p_str\<lparr>p_buf := None, slen := 0, alloc_bytes := 0\<rparr>"

definition private_str_alloc_memchunk :: "allocator \<Rightarrow> mystr \<Rightarrow> bytes \<Rightarrow> mystr res" where
  "private_str_alloc_memchunk A p_str chunk =
     (let n = length chunk in
      if u32 (n + 1) < n then bug ''integer overflow''
      else
        let buf_needed = u32 (n + 1) in
        res_bind
          (if buf_needed > alloc_bytes p_str
           then res_bind (vsf_sysutil_malloc A buf_needed) (\<lambda>blk.
                res_bind (s_setbuf (str_free p_str) blk) (\<lambda>s.
                Inr (s\<lparr>alloc_bytes := buf_needed\<rparr>)))
           else Inr p_str) (\<lambda>s.
        res_bind (vsf_sysutil_memcpy (p_buf s) 0 chunk) (\<lambda>b.
        res_bind (poke b n NUL) (\<lambda>b'.
        Inr (s\<lparr>p_buf := b', slen := n\<rparr>)))))"

definition private_str_append_memchunk :: "allocator \<Rightarrow> mystr \<Rightarrow> bytes \<Rightarrow> mystr res" where
  "private_str_append_memchunk A p_str chunk =
     (let n = length chunk in
      if u32 (n + slen p_str) < n then bug ''integer overflow''
      else if u32 (u32 (n + slen p_str) + 1) < u32 (n + slen p_str) then bug ''integer overflow''
      else
        let buf_needed = u32 (u32 (n + slen p_str) + 1) in
        res_bind
          (if buf_needed > alloc_bytes p_str
           then res_bind (vsf_sysutil_realloc A (p_buf p_str) buf_needed) (\<lambda>blk.
                Inr (p_str\<lparr>p_buf := Some blk, alloc_bytes := buf_needed\<rparr>))
           else Inr p_str) (\<lambda>s.
        res_bind (vsf_sysutil_memcpy (p_buf s) (slen s) chunk) (\<lambda>b.
        res_bind (poke b (slen s + n) NUL) (\<lambda>b'.
        Inr (s\<lparr>p_buf := b', slen := slen s + n\<rparr>)))))"

definition str_trunc :: "mystr \<Rightarrow> nat \<Rightarrow> mystr res" where
  "str_trunc p_str trunc_len =
     (if trunc_len \<ge> alloc_bytes p_str
      then bug ''trunc_len not smaller than alloc_bytes in str_trunc''
      else res_bind (poke (p_buf p_str) trunc_len NUL) (\<lambda>b.
           Inr (p_str\<lparr>p_buf := b, slen := trunc_len\<rparr>)))"

text \<open>\<^verbatim>\<open>str_getbuf\<close> may allocate the empty string behind a \<^verbatim>\<open>const\<close> pointer.\<close>

definition str_getbuf :: "allocator \<Rightarrow> mystr \<Rightarrow> mystr res" where
  "str_getbuf A p_str =
     (if p_buf p_str = None then
        (if slen p_str \<noteq> 0 \<or> alloc_bytes p_str \<noteq> 0
         then bug ''p_buf NULL and len or alloc_bytes != 0 in str_getbuf''
         else private_str_alloc_memchunk A p_str [])
      else Inr p_str)"

definition str_empty :: "allocator \<Rightarrow> mystr \<Rightarrow> mystr res" where
  "str_empty A p_str = res_bind (str_getbuf A p_str) (\<lambda>s. str_trunc s 0)"

definition str_reserve :: "allocator \<Rightarrow> mystr \<Rightarrow> nat \<Rightarrow> mystr res" where
  "str_reserve A p_str res_len =
     (let n = u32 (res_len + 1) in
      if n = 0 then bug ''integer overflow''
      else
        res_bind
          (if n > alloc_bytes p_str
           then res_bind (vsf_sysutil_realloc A (p_buf p_str) n) (\<lambda>blk.
                Inr (p_str\<lparr>p_buf := Some blk, alloc_bytes := n\<rparr>))
           else Inr p_str) (\<lambda>s.
        res_bind (poke (p_buf s) (n - 1) NUL) (\<lambda>b. Inr (s\<lparr>p_buf := b\<rparr>))))"

definition str_isempty :: "mystr \<Rightarrow> bool" where
  "str_isempty p_str \<longleftrightarrow> slen p_str = 0"

definition str_getlen :: "mystr \<Rightarrow> nat" where
  "str_getlen p_str = slen p_str"

section \<open>Assigning and appending\<close>

definition str_alloc_text :: "allocator \<Rightarrow> mystr \<Rightarrow> bytes \<Rightarrow> mystr res" where
  "str_alloc_text A p_str p_src =
     res_bind (vsf_sysutil_strlen p_src) (\<lambda>n. private_str_alloc_memchunk A p_str (take n p_src))"

definition str_copy :: "allocator \<Rightarrow> mystr \<Rightarrow> mystr \<Rightarrow> mystr res" where
  "str_copy A p_dest p_src = private_str_alloc_memchunk A p_dest (view p_src)"

text \<open>
  \<^verbatim>\<open>str_alloc_alt_term\<close> scans a raw buffer for the terminator; running off its end is a read
  outside the block.
\<close>

fun alt_term_scan :: "bytes \<Rightarrow> char \<Rightarrow> nat \<Rightarrow> nat res" where
  "alt_term_scan [] trm n = Inl Segv"
| "alt_term_scan (c # cs) trm n =
     (if c = trm then Inr n
      else if u32 (n + 1) = 0 then bug ''integer overflow'' else alt_term_scan cs trm (u32 (n + 1)))"

definition str_alloc_alt_term :: "allocator \<Rightarrow> mystr \<Rightarrow> bytes \<Rightarrow> char \<Rightarrow> mystr res" where
  "str_alloc_alt_term A p_str p_src trm =
     res_bind (alt_term_scan p_src trm 0) (\<lambda>n. private_str_alloc_memchunk A p_str (take n p_src))"

definition str_alloc_ulong :: "allocator \<Rightarrow> mystr \<Rightarrow> nat \<Rightarrow> mystr res" where
  "str_alloc_ulong A p_str the_long = str_alloc_text A p_str (vsf_sysutil_ulong_to_str the_long @ [NUL])"

definition str_alloc_filesize_t :: "allocator \<Rightarrow> mystr \<Rightarrow> int \<Rightarrow> mystr res" where
  "str_alloc_filesize_t A p_str n = str_alloc_text A p_str (vsf_sysutil_filesize_t_to_str n @ [NUL])"

definition str_append_str :: "allocator \<Rightarrow> mystr \<Rightarrow> mystr \<Rightarrow> mystr res" where
  "str_append_str A p_str p_other = private_str_append_memchunk A p_str (view p_other)"

definition str_append_text :: "allocator \<Rightarrow> mystr \<Rightarrow> bytes \<Rightarrow> mystr res" where
  "str_append_text A p_str p_src =
     res_bind (vsf_sysutil_strlen p_src) (\<lambda>n. private_str_append_memchunk A p_str (take n p_src))"

definition str_append_char :: "allocator \<Rightarrow> mystr \<Rightarrow> char \<Rightarrow> mystr res" where
  "str_append_char A p_str the_char = private_str_append_memchunk A p_str [the_char]"

definition str_append_ulong :: "allocator \<Rightarrow> mystr \<Rightarrow> nat \<Rightarrow> mystr res" where
  "str_append_ulong A p_str n = str_append_text A p_str (vsf_sysutil_ulong_to_str n @ [NUL])"

definition str_append_filesize_t :: "allocator \<Rightarrow> mystr \<Rightarrow> int \<Rightarrow> mystr res" where
  "str_append_filesize_t A p_str n = str_append_text A p_str (vsf_sysutil_filesize_t_to_str n @ [NUL])"

definition str_append_int :: "allocator \<Rightarrow> mystr \<Rightarrow> int \<Rightarrow> mystr res" where
  "str_append_int A p_str n = str_append_text A p_str (vsf_sysutil_int_to_str n @ [NUL])"

section \<open>Changing in place\<close>

text \<open>\<^verbatim>\<open>for (i=0; i < len; i++) p_buf[i] = f(p_buf[i])\<close>, the loop of the three operations below.\<close>

function for_bytes :: "(char \<Rightarrow> char) \<Rightarrow> nat \<Rightarrow> nat \<Rightarrow> bytes option \<Rightarrow> bytes option res" where
  "for_bytes f i n p =
     (if i < n then res_bind (peek p i) (\<lambda>c. res_bind (poke p i (f c)) (\<lambda>p'. for_bytes f (i + 1) n p'))
      else Inr p)"
  by pat_completeness auto
termination
  by (relation "measure (\<lambda>(f, i, n, p). n - i)") auto

declare for_bytes.simps [simp del]

definition str_upper :: "mystr \<Rightarrow> mystr res" where
  "str_upper p_str =
     res_bind (for_bytes vsf_sysutil_toupper 0 (slen p_str) (p_buf p_str)) (\<lambda>b.
     Inr (p_str\<lparr>p_buf := b\<rparr>))"

definition str_replace_char :: "mystr \<Rightarrow> char \<Rightarrow> char \<Rightarrow> mystr res" where
  "str_replace_char p_str from to =
     res_bind (for_bytes (\<lambda>c. if c = from then to else c) 0 (slen p_str) (p_buf p_str)) (\<lambda>b.
     Inr (p_str\<lparr>p_buf := b\<rparr>))"

definition str_replace_unprintable :: "mystr \<Rightarrow> char \<Rightarrow> mystr res" where
  "str_replace_unprintable p_str new_char =
     res_bind (for_bytes (\<lambda>c. if \<not> vsf_sysutil_isprint c then new_char else c)
                 0 (slen p_str) (p_buf p_str)) (\<lambda>b.
     Inr (p_str\<lparr>p_buf := b\<rparr>))"

text \<open>\<^verbatim>\<open>while (to_pad--) str_append_char(p, ' ')\<close>, over any append operation.\<close>

fun pad_loop :: "('s \<Rightarrow> bytes \<Rightarrow> 's res) \<Rightarrow> nat \<Rightarrow> 's \<Rightarrow> 's res" where
  "pad_loop app 0 s = Inr s"
| "pad_loop app (Suc to_pad) s = res_bind (app s [CHR '' '']) (\<lambda>s'. pad_loop app to_pad s')"

definition str_rpad :: "allocator \<Rightarrow> mystr \<Rightarrow> nat \<Rightarrow> mystr res" where
  "str_rpad A p_str min_width =
     (if slen p_str \<ge> min_width then Inr p_str
      else pad_loop (private_str_append_memchunk A) (min_width - slen p_str) p_str)"

text \<open>The result is the static temporary and the string.\<close>

definition str_lpad :: "allocator \<Rightarrow> mystr \<Rightarrow> mystr \<Rightarrow> nat \<Rightarrow> (mystr \<times> mystr) res" where
  "str_lpad A s_tmp_str p_str min_width =
     (if slen p_str \<ge> min_width then Inr (s_tmp_str, p_str)
      else
        res_bind (str_empty A s_tmp_str) (\<lambda>t.
        res_bind (pad_loop (private_str_append_memchunk A) (min_width - slen p_str) t) (\<lambda>t1.
        res_bind (str_append_str A t1 p_str) (\<lambda>t2.
        res_bind (str_copy A p_str t2) (\<lambda>s. Inr (t2, s))))))"

section \<open>Splitting and slicing\<close>

text \<open>The results are the changed source and the right-hand side.\<close>

definition str_split_text_common ::
  "allocator \<Rightarrow> mystr \<Rightarrow> mystr \<Rightarrow> bytes \<Rightarrow> bool \<Rightarrow> (mystr \<times> mystr) res" where
  "str_split_text_common A p_src p_rhs p_text is_reverse =
     res_bind (vsf_sysutil_strlen p_text) (\<lambda>search_len.
       let locate_result = (if is_reverse then str_locate_text_reverse (view p_src) p_text
                            else str_locate_text (view p_src) p_text)
       in if \<not> found locate_result then res_bind (str_empty A p_rhs) (\<lambda>r. Inr (p_src, r))
          else
            let indexx = index locate_result in
            if u32 (indexx + search_len) > slen p_src then bug ''indexx invalid in str_split_text''
            else
              res_bind (private_str_alloc_memchunk A p_rhs
                          (chunk_at (view p_src) (indexx + search_len)
                             (slen p_src - indexx - search_len))) (\<lambda>r.
              res_bind (str_trunc p_src indexx) (\<lambda>l. Inr (l, r))))"

definition str_split_text :: "allocator \<Rightarrow> mystr \<Rightarrow> mystr \<Rightarrow> bytes \<Rightarrow> (mystr \<times> mystr) res" where
  "str_split_text A p_src p_rhs p_text = str_split_text_common A p_src p_rhs p_text False"

definition str_split_text_reverse ::
  "allocator \<Rightarrow> mystr \<Rightarrow> mystr \<Rightarrow> bytes \<Rightarrow> (mystr \<times> mystr) res" where
  "str_split_text_reverse A p_src p_rhs p_text = str_split_text_common A p_src p_rhs p_text True"

definition str_split_char :: "allocator \<Rightarrow> mystr \<Rightarrow> mystr \<Rightarrow> char \<Rightarrow> (mystr \<times> mystr) res" where
  "str_split_char A p_src p_rhs c = str_split_text A p_src p_rhs [c, NUL]"

definition str_split_char_reverse ::
  "allocator \<Rightarrow> mystr \<Rightarrow> mystr \<Rightarrow> char \<Rightarrow> (mystr \<times> mystr) res" where
  "str_split_char_reverse A p_src p_rhs c = str_split_text_reverse A p_src p_rhs [c, NUL]"

definition str_left :: "allocator \<Rightarrow> mystr \<Rightarrow> mystr \<Rightarrow> nat \<Rightarrow> mystr res" where
  "str_left A p_str p_out chars =
     (if chars > slen p_str then bug ''chars invalid in str_left''
      else private_str_alloc_memchunk A p_out (chunk_at (view p_str) 0 chars))"

definition str_right :: "allocator \<Rightarrow> mystr \<Rightarrow> mystr \<Rightarrow> nat \<Rightarrow> mystr res" where
  "str_right A p_str p_out chars =
     (if chars > slen p_str then bug ''chars invalid in str_right''
      else private_str_alloc_memchunk A p_out (chunk_at (view p_str) (slen p_str - chars) chars))"

definition str_mid_to_end :: "allocator \<Rightarrow> mystr \<Rightarrow> mystr \<Rightarrow> nat \<Rightarrow> mystr res" where
  "str_mid_to_end A p_str p_out indexx =
     (if indexx > slen p_str then bug ''invalid indexx in str_mid_to_end''
      else private_str_alloc_memchunk A p_out (chunk_at (view p_str) indexx (slen p_str - indexx)))"

section \<open>The contract of the primitives\<close>

text \<open>
  What a run may do: die for a checked reason, or return a well-formed string whose view is the
  given one. It never reads or writes outside a block.
\<close>

definition outcome :: "('s \<Rightarrow> bool) \<Rightarrow> ('s \<Rightarrow> bytes) \<Rightarrow> 's res \<Rightarrow> bytes \<Rightarrow> bool" where
  "outcome ok vw r v = (case r of Inl f \<Rightarrow> f \<noteq> Segv | Inr s \<Rightarrow> ok s \<and> vw s = v)"

lemma outcome_simps [simp]:
  "outcome ok vw (Inr s) v \<longleftrightarrow> ok s \<and> vw s = v"
  "outcome ok vw (Inl f) v \<longleftrightarrow> f \<noteq> Segv"
  "outcome ok vw (bug t) v" "outcome ok vw (die t) v"
  by (simp_all add: outcome_def bug_def die_def)

lemma outcome_bind:
  assumes "outcome ok vw m v" and "\<And>s. ok s \<Longrightarrow> vw s = v \<Longrightarrow> outcome ok' vw' (k s) w"
  shows "outcome ok' vw' (res_bind m k) w"
  using assms by (cases m) auto

locale string_buffer =
  fixes ok :: "'s \<Rightarrow> bool" and vw :: "'s \<Rightarrow> bytes"
    and alloc :: "'s \<Rightarrow> bytes \<Rightarrow> 's res" and app :: "'s \<Rightarrow> bytes \<Rightarrow> 's res"
    and trunc :: "'s \<Rightarrow> nat \<Rightarrow> 's res"
  assumes alloc_outcome: "ok s \<Longrightarrow> outcome ok vw (alloc s chunk) chunk"
    and app_outcome: "ok s \<Longrightarrow> outcome ok vw (app s chunk) (vw s @ chunk)"
    and trunc_outcome: "ok s \<Longrightarrow> n \<le> length (vw s) \<Longrightarrow> outcome ok vw (trunc s n) (take n (vw s))"
begin

lemma pad_outcome: "ok s \<Longrightarrow> outcome ok vw (pad_loop app n s) (vw s @ replicate n CHR '' '')"
proof (induction n arbitrary: s)
  case (Suc n)
  show ?case
  proof (simp, rule outcome_bind [OF app_outcome [OF Suc.prems]])
    fix s' assume "ok s'" and v: "vw s' = vw s @ [CHR '' '']"
    with Suc.IH [of s'] show "outcome ok vw (pad_loop app n s') (vw s @ CHR '' '' # replicate n CHR '' '')"
      by simp
  qed
qed simp

lemma app2_outcome:
  "ok s \<Longrightarrow> outcome ok vw (res_bind (app s c) (\<lambda>s'. app s' d)) (vw s @ c @ d)"
  by (rule outcome_bind [OF app_outcome]) (auto simp: append_assoc [symmetric] intro: app_outcome
      simp del: append_assoc dest: app_outcome [where chunk = d])

lemma alloc_app_outcome:
  "ok s \<Longrightarrow> outcome ok vw (res_bind (alloc s c) (\<lambda>s'. app s' d)) (c @ d)"
  by (rule outcome_bind [OF alloc_outcome]) (auto dest: app_outcome [where chunk = d])

lemma alloc_trunc_outcome:
  "ok s \<Longrightarrow> n \<le> length c \<Longrightarrow> outcome ok vw (res_bind (alloc s c) (\<lambda>s'. trunc s' n)) (take n c)"
  by (rule outcome_bind [OF alloc_outcome]) (auto dest: trunc_outcome [where n = n])

end

section \<open>The primitives keep the contract\<close>

lemma view_length: "wf_str s \<Longrightarrow> length (view s) = slen s"
  by (auto simp: wf_str_def view_def split: option.splits)

lemma poke_Some [simp]: "i < length b \<Longrightarrow> poke (Some b) i c = Inr (Some (b[i := c]))"
  by (simp add: poke_def)

lemma memcpy_Some:
  "off + length chunk \<le> length b \<Longrightarrow> length chunk \<le> INT_MAX \<Longrightarrow>
   vsf_sysutil_memcpy (Some b) off chunk = Inr (Some (take off b @ chunk @ drop (off + length chunk) b))"
  by (auto simp: vsf_sysutil_memcpy_def)

text \<open>Storing a chunk and its terminator into a block that is big enough.\<close>

lemma store_chunk:
  assumes "length b = alloc_bytes s" "off + length chunk < alloc_bytes s" "alloc_bytes s \<le> INT_MAX"
    and "p_buf s = Some b"
  shows "\<exists>s'. res_bind (vsf_sysutil_memcpy (p_buf s) off chunk) (\<lambda>b.
            res_bind (poke b (off + length chunk) NUL) (\<lambda>b'.
            Inr (s\<lparr>p_buf := b', slen := off + length chunk\<rparr>))) = Inr s' \<and>
          wf_str s' \<and> view s' = take off b @ chunk"
  using assms by (auto simp: memcpy_Some wf_str_def view_def nth_append)

lemma allocatesD: "allocates A \<Longrightarrow> A n = None \<Longrightarrow> n = 0 \<or> n > INT_MAX"
  unfolding allocates_def by (meson not_gr_zero not_less)

lemma malloc_cases:
  obtains (fail) f where "vsf_sysutil_malloc A n = Inl f" "f \<noteq> Segv" "allocates A \<Longrightarrow> n = 0 \<or> n > INT_MAX"
  | (block) b where "vsf_sysutil_malloc A n = Inr b" "length b = n" "0 < n" "n \<le> INT_MAX"
  by (cases "A n"; cases "n = 0 \<or> n > INT_MAX")
     (auto simp: vsf_sysutil_malloc_def bug_def die_def dest: allocatesD)

lemma realloc_cases:
  obtains (fail) f where "vsf_sysutil_realloc A p n = Inl f" "f \<noteq> Segv"
      "allocates A \<Longrightarrow> n = 0 \<or> n > INT_MAX"
  | (block) b where "vsf_sysutil_realloc A p n = Inr b" "0 < n" "n \<le> INT_MAX"
      "\<And>old. p = Some old \<Longrightarrow> length old \<le> n \<Longrightarrow> length b = n \<and> take (length old) b = old"
      "p = None \<Longrightarrow> length b = n"
  by (cases "A n"; cases "n = 0 \<or> n > INT_MAX"; cases p)
     (auto simp: vsf_sysutil_realloc_def bug_def die_def dest: allocatesD)

lemma u32_grow:
  "n \<le> UINT_MAX \<Longrightarrow> \<not> u32 (n + 1) < n \<Longrightarrow> u32 (n + 1) = n + 1"
  by (cases "n = UINT_MAX") (auto simp: u32_def)

lemma wf_strE:
  assumes "wf_str s"
  obtains (null) "p_buf s = None" "slen s = 0" "alloc_bytes s = 0"
  | (block) b where "p_buf s = Some b" "length b = alloc_bytes s" "slen s < alloc_bytes s"
      "alloc_bytes s \<le> INT_MAX" "b ! slen s = NUL"
  using assms by (cases "p_buf s") (auto simp: wf_str_def)

lemma memcpy_big:
  "length chunk > INT_MAX \<Longrightarrow>
   vsf_sysutil_memcpy p off chunk = Inl (Oops ''possible negative value to memcpy?'')"
  by (cases chunk) (auto simp: vsf_sysutil_memcpy_def die_def bug_def)

lemma alloc_memchunk_big:
  assumes "length chunk > INT_MAX"
  shows "outcome ok vw (private_str_alloc_memchunk A s chunk) v"
proof (cases rule: malloc_cases [of A "u32 (length chunk + 1)"])
  case (fail f)
  then show ?thesis using assms by (simp add: private_str_alloc_memchunk_def Let_def memcpy_big)
next
  case (block b)
  then show ?thesis using assms
    by (simp add: private_str_alloc_memchunk_def Let_def memcpy_big str_free_def s_setbuf_def)
qed

lemma append_memchunk_big:
  assumes "length chunk > INT_MAX"
  shows "outcome ok vw (private_str_append_memchunk A s chunk) v"
proof (cases rule: realloc_cases [of A "p_buf s" "u32 (u32 (length chunk + slen s) + 1)"])
  case (fail f)
  then show ?thesis using assms by (simp add: private_str_append_memchunk_def Let_def memcpy_big)
next
  case (block b)
  then show ?thesis using assms by (simp add: private_str_append_memchunk_def Let_def memcpy_big)
qed

text \<open>
  A chunk that fits in \<^verbatim>\<open>INT_MAX\<close> bytes: the call stores it, unless the heap refuses the block.
\<close>

lemma alloc_memchunk_fits:
  assumes wf: "wf_str s" and fits: "length chunk \<le> INT_MAX"
  shows "(\<exists>s'. private_str_alloc_memchunk A s chunk = Inr s' \<and> wf_str s' \<and> view s' = chunk) \<or>
         (\<exists>f. private_str_alloc_memchunk A s chunk = Inl f \<and> f \<noteq> Segv \<and>
              (allocates A \<longrightarrow> length chunk = INT_MAX))"
proof (cases "length chunk + 1 > alloc_bytes s")
  case True
  show ?thesis
  proof (cases rule: malloc_cases [of A "length chunk + 1"])
    case (fail f)
    then show ?thesis using True fits by (auto simp: private_str_alloc_memchunk_def Let_def)
  next
    case (block b)
    then have len: "length b = length chunk + 1" "length chunk + 1 \<le> INT_MAX" by auto
    define s1 where "s1 = str_free s\<lparr>p_buf := Some b, alloc_bytes := length chunk + 1\<rparr>"
    obtain s' where "res_bind (vsf_sysutil_memcpy (p_buf s1) 0 chunk) (\<lambda>b.
            res_bind (poke b (length chunk) NUL) (\<lambda>b'. Inr (s1\<lparr>p_buf := b', slen := length chunk\<rparr>))) = Inr s'"
        and "wf_str s'" and "view s' = chunk"
      using store_chunk [of b s1 0 chunk] len by (auto simp: s1_def)
    then show ?thesis using True fits block
      by (auto simp: private_str_alloc_memchunk_def Let_def s_setbuf_def str_free_def s1_def)
  qed
next
  case False
  with wf obtain b where b: "p_buf s = Some b" "length b = alloc_bytes s" "alloc_bytes s \<le> INT_MAX"
    by (cases rule: wf_strE) auto
  then obtain s' where "res_bind (vsf_sysutil_memcpy (p_buf s) 0 chunk) (\<lambda>b.
            res_bind (poke b (length chunk) NUL) (\<lambda>b'. Inr (s\<lparr>p_buf := b', slen := length chunk\<rparr>))) = Inr s'"
        and "wf_str s'" and "view s' = chunk"
    using store_chunk [of b s 0 chunk] False by auto
  then show ?thesis using False fits by (auto simp: private_str_alloc_memchunk_def Let_def)
qed

lemma append_memchunk_fits:
  assumes wf: "wf_str s" and fits: "length chunk \<le> INT_MAX"
  shows "(\<exists>s'. private_str_append_memchunk A s chunk = Inr s' \<and> wf_str s' \<and> view s' = view s @ chunk) \<or>
         (\<exists>f. private_str_append_memchunk A s chunk = Inl f \<and> f \<noteq> Segv \<and>
              (allocates A \<longrightarrow> slen s + length chunk \<ge> INT_MAX))"
proof (cases "length chunk + slen s + 1 > alloc_bytes s")
  case True
  have small: "slen s \<le> INT_MAX" using wf by (cases rule: wf_strE) auto
  show ?thesis
  proof (cases rule: realloc_cases [of A "p_buf s" "length chunk + slen s + 1"])
    case (fail f)
    then show ?thesis using True fits small
      by (auto simp: private_str_append_memchunk_def Let_def)
  next
    case (block b)
    define s1 where "s1 = s\<lparr>p_buf := Some b, alloc_bytes := length chunk + slen s + 1\<rparr>"
    have b: "length b = length chunk + slen s + 1" "take (slen s) b = view s"
      using wf block True
      by (cases rule: wf_strE; auto simp: view_def min_def dest: arg_cong [where f = "take (slen s)"])+
    obtain s' where "res_bind (vsf_sysutil_memcpy (p_buf s1) (slen s) chunk) (\<lambda>b.
            res_bind (poke b (slen s + length chunk) NUL) (\<lambda>b'.
            Inr (s1\<lparr>p_buf := b', slen := slen s + length chunk\<rparr>))) = Inr s'"
        and "wf_str s'" and "view s' = view s @ chunk"
      using store_chunk [of b s1 "slen s" chunk] b block by (auto simp: s1_def)
    then show ?thesis using True fits small block
      by (auto simp: private_str_append_memchunk_def Let_def s1_def)
  qed
next
  case False
  with wf obtain b where b: "p_buf s = Some b" "length b = alloc_bytes s" "alloc_bytes s \<le> INT_MAX"
    by (cases rule: wf_strE) auto
  then obtain s' where "res_bind (vsf_sysutil_memcpy (p_buf s) (slen s) chunk) (\<lambda>b.
            res_bind (poke b (slen s + length chunk) NUL) (\<lambda>b'.
            Inr (s\<lparr>p_buf := b', slen := slen s + length chunk\<rparr>))) = Inr s'"
        and "wf_str s'" and "view s' = view s @ chunk"
    using store_chunk [of b s "slen s" chunk] False by (auto simp: view_def)
  moreover have "length chunk + slen s + 1 \<le> INT_MAX" using False b by simp
  ultimately show ?thesis using False by (auto simp: private_str_append_memchunk_def Let_def)
qed

lemma alloc_memchunk_outcome:
  "wf_str s \<Longrightarrow> outcome wf_str view (private_str_alloc_memchunk A s chunk) chunk"
  using alloc_memchunk_fits [of s chunk A] alloc_memchunk_big [of chunk]
  by (cases "length chunk \<le> INT_MAX") auto

lemma append_memchunk_outcome:
  "wf_str s \<Longrightarrow> outcome wf_str view (private_str_append_memchunk A s chunk) (view s @ chunk)"
  using append_memchunk_fits [of s chunk A] append_memchunk_big [of chunk]
  by (cases "length chunk \<le> INT_MAX") auto

lemma str_trunc_outcome:
  "wf_str s \<Longrightarrow> n \<le> length (view s) \<Longrightarrow> outcome wf_str view (str_trunc s n) (take n (view s))"
  by (cases rule: wf_strE) (auto simp: str_trunc_def view_def wf_str_def view_length)

interpretation sb: string_buffer wf_str view "private_str_alloc_memchunk A"
  "private_str_append_memchunk A" str_trunc for A
  by unfold_locales (rule alloc_memchunk_outcome append_memchunk_outcome str_trunc_outcome; assumption)+

section \<open>The derived operations\<close>

lemma strlen_cases:
  obtains (long) t where "vsf_sysutil_strlen p = Inl (Oops t)" "length (cstr p) > INT_MAX div 8"
  | (len) "vsf_sysutil_strlen p = Inr (length (cstr p))" "length (cstr p) \<le> INT_MAX div 8"
  by (cases "length (cstr p) > INT_MAX div 8")
     (auto simp: vsf_sysutil_strlen_def Let_def die_def bug_def)

lemma take_cstr [simp]: "take (length (cstr p)) p = cstr p"
  by (simp add: cstr_def takeWhile_eq_take [symmetric])

lemma str_getbuf_outcome:
  assumes "wf_str s"
  shows "outcome wf_str view (str_getbuf A s) (view s)"
  using assms
proof (cases rule: wf_strE)
  case null
  with sb.alloc_outcome [OF assms, of A "[]"] show ?thesis by (simp add: str_getbuf_def view_def)
next
  case block
  with assms show ?thesis by (simp add: str_getbuf_def)
qed

lemma str_empty_outcome: "wf_str s \<Longrightarrow> outcome wf_str view (str_empty A s) []"
  unfolding str_empty_def
  by (rule outcome_bind [OF str_getbuf_outcome]) (auto dest: str_trunc_outcome [where n = 0])

lemma str_alloc_text_outcome:
  "wf_str s \<Longrightarrow> outcome wf_str view (str_alloc_text A s p_src) (cstr p_src)"
  by (cases rule: strlen_cases [of p_src])
     (auto simp: str_alloc_text_def intro: sb.alloc_outcome)

lemma str_append_text_outcome:
  "wf_str s \<Longrightarrow> outcome wf_str view (str_append_text A s p_src) (view s @ cstr p_src)"
  by (cases rule: strlen_cases [of p_src])
     (auto simp: str_append_text_def intro: sb.app_outcome)

lemma str_copy_outcome: "wf_str d \<Longrightarrow> outcome wf_str view (str_copy A d s) (view s)"
  by (simp add: str_copy_def sb.alloc_outcome)

lemma str_append_str_outcome:
  "wf_str s \<Longrightarrow> outcome wf_str view (str_append_str A s t) (view s @ view t)"
  by (simp add: str_append_str_def sb.app_outcome)

lemma str_rpad_outcome:
  "wf_str s \<Longrightarrow> outcome wf_str view (str_rpad A s w) (v_rpad (view s) w)"
  using sb.pad_outcome [of s A "w - slen s"] by (auto simp: str_rpad_def v_rpad_def view_length)

lemma str_lpad_outcome:
  assumes "wf_str t" and "wf_str s" and "str_lpad A t s w = Inr (t', s')"
  shows "wf_str t' \<and> wf_str s' \<and> view s' = v_lpad (view s) w"
proof (cases "slen s \<ge> w")
  case True
  with assms show ?thesis by (auto simp: str_lpad_def v_lpad_def view_length)
next
  case False
  with assms(3) obtain t0 t1 where steps: "str_empty A t = Inr t0"
    "pad_loop (private_str_append_memchunk A) (w - slen s) t0 = Inr t1"
    "str_append_str A t1 s = Inr t'" "str_copy A s t' = Inr s'"
    by (auto simp: str_lpad_def res_simps)
  with str_empty_outcome [OF assms(1), of A] have t0: "wf_str t0" "view t0 = []" by auto
  with steps sb.pad_outcome [of t0 A "w - slen s"]
  have t1: "wf_str t1" "view t1 = replicate (w - slen s) CHR '' ''" by auto
  with steps str_append_str_outcome [of t1 A s] str_copy_outcome [OF assms(2), of A t']
  show ?thesis using assms(2) by (simp add: v_lpad_def view_length)
qed

lemma for_bytes_eq:
  "i \<le> n \<Longrightarrow> n \<le> length b \<Longrightarrow>
   for_bytes f i n (Some b) = Inr (Some (take i b @ map f (take (n - i) (drop i b)) @ drop n b))"
proof (induction "n - i" arbitrary: i b)
  case 0
  then show ?case by (subst for_bytes.simps) simp
next
  case (Suc k)
  show ?case
  proof (cases "i < n")
    case True
    then have "for_bytes f i n (Some b) = for_bytes f (i + 1) n (Some (b[i := f (b ! i)]))"
      using Suc.prems by (subst for_bytes.simps) (simp add: peek_def)
    also have "\<dots> = Inr (Some (take (i + 1) (b[i := f (b ! i)]) @
        map f (take (n - (i + 1)) (drop (i + 1) (b[i := f (b ! i)]))) @ drop n (b[i := f (b ! i)])))"
      using Suc.hyps(1) [of "i + 1" "b[i := f (b ! i)]"] Suc.hyps(2) True Suc.prems by simp
    also have "\<dots> = Inr (Some (take i b @ map f (take (n - i) (drop i b)) @ drop n b))"
      using True Suc.prems
      by (simp add: take_Suc_conv_app_nth Cons_nth_drop_Suc [symmetric] Suc_diff_Suc [symmetric])
    finally show ?thesis .
  next
    case False
    with Suc.prems show ?thesis by (subst for_bytes.simps) simp
  qed
qed

lemma for_bytes_outcome:
  assumes "wf_str s"
  shows "outcome wf_str view
    (res_bind (for_bytes f 0 (slen s) (p_buf s)) (\<lambda>b. Inr (s\<lparr>p_buf := b\<rparr>))) (map f (view s))"
  using assms
proof (cases rule: wf_strE)
  case null
  then show ?thesis using assms by (simp add: for_bytes.simps view_def wf_str_def)
next
  case (block b)
  then show ?thesis by (simp add: for_bytes_eq view_def wf_str_def nth_append)
qed

lemma str_upper_outcome: "wf_str s \<Longrightarrow> outcome wf_str view (str_upper s) (v_upper (view s))"
  by (simp add: str_upper_def v_upper_def for_bytes_outcome)

lemma str_replace_char_outcome:
  "wf_str s \<Longrightarrow> outcome wf_str view (str_replace_char s f t) (v_replace_char (view s) f t)"
  by (simp add: str_replace_char_def v_replace_char_def for_bytes_outcome)

lemma str_replace_unprintable_outcome:
  assumes "wf_str s"
  shows "outcome wf_str view (str_replace_unprintable s c) (v_replace_unprintable (view s) c)"
proof -
  have "(\<lambda>x. if \<not> vsf_sysutil_isprint x then c else x) = (\<lambda>x. if vsf_sysutil_isprint x then x else c)"
    by auto
  then show ?thesis using for_bytes_outcome [OF assms]
    by (simp add: str_replace_unprintable_def v_replace_unprintable_def)
qed

lemma str_split_text_common_outcome:
  assumes "wf_str src" and "wf_str rhs" and "str_split_text_common A src rhs p_text is_rev = Inr (l, r)"
  shows "wf_str l \<and> wf_str r \<and> (view l, view r) = v_split_common (view src) p_text is_rev"
proof (cases rule: strlen_cases [of p_text])
  case (long t)
  with assms(3) show ?thesis by (simp add: str_split_text_common_def)
next
  case len
  define loc where "loc = (if is_rev then str_locate_text_reverse (view src) p_text
    else str_locate_text (view src) p_text)"
  show ?thesis
  proof (cases "found loc")
    case False
    with assms len str_empty_outcome [OF assms(2), of A] show ?thesis
      by (auto simp: str_split_text_common_def v_split_common_def Let_def loc_def res_simps)
  next
    case True
    then have occ: "occurs_at (view src) (cstr p_text) (index loc)"
      unfolding loc_def by (rule locate_found_occurs)
    then have le: "index loc + length (cstr p_text) \<le> slen src"
      by (simp add: occurs_at_def view_length [OF assms(1)])
    from assms(3) len True obtain
      r: "private_str_alloc_memchunk A rhs (chunk_at (view src) (index loc + length (cstr p_text))
            (slen src - index loc - length (cstr p_text))) = Inr r"
      and l: "str_trunc src (index loc) = Inr l"
      by (auto simp: str_split_text_common_def Let_def loc_def [symmetric] res_simps split: if_splits)
    have "chunk_at (view src) (index loc + length (cstr p_text))
            (slen src - index loc - length (cstr p_text)) = drop (index loc + length (cstr p_text)) (view src)"
      by (simp add: chunk_at_def view_length [OF assms(1)])
    then show ?thesis
      using sb.alloc_outcome [OF assms(2), of A "drop (index loc + length (cstr p_text)) (view src)"]
        str_trunc_outcome [OF assms(1), of "index loc"] r l le True
      by (auto simp: v_split_common_def Let_def loc_def [symmetric] view_length [OF assms(1)])
  qed
qed

lemma alloc_memchunk_total:
  assumes "allocates A" and "wf_str s" and "length chunk < INT_MAX"
  shows "\<exists>s'. private_str_alloc_memchunk A s chunk = Inr s' \<and> wf_str s' \<and> view s' = chunk"
  using alloc_memchunk_fits [OF assms(2), of chunk A] assms(1,3) by auto

lemma wf_str_slen: "wf_str s \<Longrightarrow> slen s < INT_MAX"
  by (cases rule: wf_strE) auto

lemma str_trunc_total:
  assumes "wf_str s" and "p_buf s \<noteq> None" and "n \<le> slen s"
  shows "\<exists>s'. str_trunc s n = Inr s' \<and> wf_str s' \<and> view s' = take n (view s)"
  using assms by (cases rule: wf_strE) (auto simp: str_trunc_def wf_str_def view_def)

lemma str_empty_total:
  assumes "allocates A" and "wf_str s"
  shows "\<exists>s'. str_empty A s = Inr s' \<and> wf_str s' \<and> view s' = []"
  using assms(2)
proof (cases rule: wf_strE)
  case null
  then obtain s' where s': "private_str_alloc_memchunk A s [] = Inr s'" "wf_str s'" "view s' = []"
    using alloc_memchunk_total [OF assms, of "[]"] by auto
  then have "p_buf s' \<noteq> None"
    by (auto simp: private_str_alloc_memchunk_def Let_def res_simps poke_def split: option.splits if_splits)
  then show ?thesis using null s' str_trunc_total [of s' 0] by (auto simp: str_empty_def str_getbuf_def)
next
  case (block b)
  then show ?thesis using assms str_trunc_total [of s 0] by (auto simp: str_empty_def str_getbuf_def)
qed

text \<open>Scanning for a terminator that is there.\<close>

lemma alt_term_scan_eq:
  "n + length pre < UINT_MAX \<Longrightarrow> trm \<notin> set pre \<Longrightarrow>
   alt_term_scan (pre @ trm # post) trm n = Inr (n + length pre)"
  by (induction pre arbitrary: n) auto

section \<open>Properties\<close>

text \<open>Str_append. With a heap that allocates, appending a chunk to a well-formed string
  whose total length stays below INT_MAX returns a well-formed string that holds the old bytes
  followed by the chunk; the checks for integer overflow, the reallocation, the copy and the
  terminator of \<^verbatim>\<open>private_str_append_memchunk\<close> are all in the model.\<close>

theorem str_append_total:
  assumes "allocates A" and "wf_str s" and "slen s + length chunk < INT_MAX"
  shows "\<exists>s'. private_str_append_memchunk A s chunk = Inr s' \<and> wf_str s' \<and> view s' = view s @ chunk"
  using append_memchunk_fits [OF assms(2), of chunk A] assms(1,3) by auto

theorem str_append_total_witness:
  "allocates (\<lambda>n. Some (\<lambda>i. NUL)) \<and> wf_str INIT_MYSTR \<and>
   (\<exists>s'. private_str_append_memchunk (\<lambda>n. Some (\<lambda>i. NUL)) INIT_MYSTR ''220'' = Inr s' \<and>
      view s' = ''220'')"
proof -
  have h: "allocates (\<lambda>n. Some (\<lambda>i. NUL))" "wf_str INIT_MYSTR"
    by (simp_all add: allocates_def wf_str_def INIT_MYSTR_def)
  have n: "slen INIT_MYSTR + length ''220'' < INT_MAX" and v: "view INIT_MYSTR = []"
    by (simp_all add: INIT_MYSTR_def view_def)
  show ?thesis using h v str_append_total [OF h n] by auto
qed

text \<open>Memory safety of the primitives. Whatever the heap does and whatever the sizes are,
  the three primitives on a well-formed string never touch memory outside its block and keep it
  well-formed.\<close>

theorem str_primitives_safe:
  assumes "wf_str s"
  shows "outcome wf_str view (private_str_alloc_memchunk A s chunk) chunk \<and>
         outcome wf_str view (private_str_append_memchunk A s chunk) (view s @ chunk) \<and>
         outcome wf_str view (str_empty A s) [] \<and>
         outcome wf_str view (str_upper s) (v_upper (view s)) \<and>
         outcome wf_str view (str_rpad A s w) (v_rpad (view s) w)"
  using assms by (simp add: sb.alloc_outcome sb.app_outcome str_empty_outcome str_upper_outcome
      str_rpad_outcome)

theorem str_primitives_safe_witness:
  "wf_str INIT_MYSTR \<and> outcome wf_str view (private_str_append_memchunk (\<lambda>n. None) INIT_MYSTR ''x'')
     (view INIT_MYSTR @ ''x'')"
proof -
  have h: "wf_str INIT_MYSTR" by (simp add: wf_str_def INIT_MYSTR_def)
  show ?thesis using h str_primitives_safe [OF h] by blast
qed

text \<open>C40: str_split. On well-formed strings, with a heap that allocates and a search text
  of sane length, the split returns: neither the "indexx invalid" check nor a memory fault can
  happen, both results are well-formed, and their bytes are exactly the split of the source's
  bytes.\<close>

theorem str_split_total:
  assumes "allocates A" and "wf_str src" and "wf_str rhs" and "length (cstr p_text) \<le> INT_MAX div 8"
  shows "\<exists>l r. str_split_text_common A src rhs p_text is_rev = Inr (l, r) \<and> wf_str l \<and> wf_str r \<and>
           (view l, view r) = v_split_common (view src) p_text is_rev"
proof -
  define loc where "loc = (if is_rev then str_locate_text_reverse (view src) p_text
    else str_locate_text (view src) p_text)"
  have len: "vsf_sysutil_strlen p_text = Inr (length (cstr p_text))"
    using assms(4) by (cases rule: strlen_cases [of p_text]) auto
  have "\<exists>l r. str_split_text_common A src rhs p_text is_rev = Inr (l, r)"
  proof (cases "found loc")
    case False
    then show ?thesis using len str_empty_total [OF assms(1,3)]
      by (auto simp: str_split_text_common_def Let_def loc_def)
  next
    case True
    then have occ: "occurs_at (view src) (cstr p_text) (index loc)"
      unfolding loc_def by (rule locate_found_occurs)
    have small: "slen src < INT_MAX" using assms(2) by (rule wf_str_slen)
    from occ have le: "index loc + length (cstr p_text) \<le> slen src"
      by (simp add: occurs_at_def view_length [OF assms(2)])
    have "cstr p_text \<noteq> []"
      using True by (auto simp: loc_def str_locate_text_def str_locate_text_reverse_def Let_def
          split: if_splits)
    then have "p_buf src \<noteq> None"
      using le wf_str_def [of src] assms(2) by (auto split: option.splits)
    then obtain l where "str_trunc src (index loc) = Inr l"
      using str_trunc_total [OF assms(2), of "index loc"] le by auto
    moreover have "length (chunk_at (view src) (index loc + length (cstr p_text))
        (slen src - index loc - length (cstr p_text))) < INT_MAX"
      using small by (simp add: chunk_at_def)
    then obtain r where "private_str_alloc_memchunk A rhs
        (chunk_at (view src) (index loc + length (cstr p_text))
          (slen src - index loc - length (cstr p_text))) = Inr r"
      using alloc_memchunk_total [OF assms(1,3)] by blast
    ultimately show ?thesis using len True le small
      by (auto simp: str_split_text_common_def Let_def loc_def [symmetric])
  qed
  then show ?thesis using str_split_text_common_outcome [OF assms(2,3)] by blast
qed

theorem str_split_total_witness:
  "\<exists>l r. str_split_text_common (\<lambda>n. Some (\<lambda>i. NUL)) INIT_MYSTR INIT_MYSTR '' '' False = Inr (l, r) \<and>
     wf_str l \<and> wf_str r"
proof -
  have h: "allocates (\<lambda>n. Some (\<lambda>i. NUL))" "wf_str INIT_MYSTR" "length (cstr '' '') \<le> INT_MAX div 8"
    by (simp_all add: allocates_def wf_str_def INIT_MYSTR_def cstr_def)
  show ?thesis using str_split_total [OF h(1,2,2,3), of False] by blast
qed

end
