(* ===== verification/StrList.thy ===== *)
theory StrList
  imports StrVal "HOL-Library.Multiset"
begin

text \<open>
  \<^verbatim>\<open>strlist.c\<close>: the growable array of strings that the directory listing is built in. The array
  keeps its capacity and its fill apart; a cell above the fill is uninitialised memory (\<open>None\<close>),
  and reading one would be undefined. The strings in the cells are byte values. The C library's
  \<^verbatim>\<open>qsort\<close> is an argument with the contract of the C standard, \<open>is_qsort\<close>: for a comparison
  function that is a total order up to ties it permutes the array into ascending order and says
  nothing about ties.
\<close>

record mystr_list_node =
  str :: bytes
  sort_key_str :: bytes

record mystr_list =
  alloc_len :: nat
  list_len :: nat
  p_nodes :: "mystr_list_node option list"

definition INIT_STRLIST :: mystr_list where
  "INIT_STRLIST = \<lparr>alloc_len = 0, list_len = 0, p_nodes = []\<rparr>"

definition kMaxStrlist :: nat where
  "kMaxStrlist = 10 * 1000 * 1000"

text \<open>\<^verbatim>\<open>sizeof(struct mystr_list_node)\<close> with 8-byte pointers.\<close>

definition node_size :: nat where
  "node_size = 32"

definition str_list_free :: "mystr_list \<Rightarrow> mystr_list" where
  "str_list_free p_list = p_list\<lparr>list_len := 0, alloc_len := 0, p_nodes := []\<rparr>"

definition str_list_get_length :: "mystr_list \<Rightarrow> nat" where
  "str_list_get_length p_list = list_len p_list"

text \<open>Reading cell \<open>i\<close>: outside the block, or uninitialised, is undefined behaviour.\<close>

definition cell :: "mystr_list \<Rightarrow> nat \<Rightarrow> mystr_list_node res" where
  "cell p_list i =
     (if i < length (p_nodes p_list)
      then (case p_nodes p_list ! i of None \<Rightarrow> Inl Segv | Some n \<Rightarrow> Inr n) else Inl Segv)"

function contains_str_loop :: "mystr_list \<Rightarrow> bytes \<Rightarrow> nat \<Rightarrow> bool res" where
  "contains_str_loop p_list p_str i =
     (if i < list_len p_list
      then res_bind (cell p_list i) (\<lambda>n.
           if str_equal p_str (str n) then Inr True else contains_str_loop p_list p_str (i + 1))
      else Inr False)"
  by pat_completeness auto
termination by (relation "measure (\<lambda>(l, s, i). list_len l - i)") auto

declare contains_str_loop.simps [simp del]

definition str_list_contains_str :: "mystr_list \<Rightarrow> bytes \<Rightarrow> bool res" where
  "str_list_contains_str p_list p_str = contains_str_loop p_list p_str 0"

definition grow_nodes :: "mystr_list_node option list \<Rightarrow> nat \<Rightarrow> mystr_list_node option list" where
  "grow_nodes old n = take n old @ replicate (n - length old) None"

definition str_list_add :: "allocator \<Rightarrow> mystr_list \<Rightarrow> bytes \<Rightarrow> bytes option \<Rightarrow> mystr_list res" where
  "str_list_add A p_list p_str p_sort_key_str =
     res_bind
       (if list_len p_list = alloc_len p_list then
          if alloc_len p_list = 0 then
            res_bind (vsf_sysutil_malloc A (u32 (32 * node_size))) (\<lambda>_.
            Inr (p_list\<lparr>alloc_len := 32, p_nodes := grow_nodes [] 32\<rparr>))
          else
            let n = u32 (alloc_len p_list * 2) in
            if n > kMaxStrlist then die ''excessive strlist''
            else res_bind (vsf_sysutil_realloc A (Some []) (u32 (n * node_size))) (\<lambda>_.
                 Inr (p_list\<lparr>alloc_len := n, p_nodes := grow_nodes (p_nodes p_list) n\<rparr>))
        else Inr p_list) (\<lambda>l.
     if list_len l < length (p_nodes l)
     then Inr (l\<lparr>p_nodes := (p_nodes l)[list_len l :=
                   Some \<lparr>str = p_str,
                         sort_key_str = (case p_sort_key_str of None \<Rightarrow> [] | Some k \<Rightarrow> k)\<rparr>],
                 list_len := u32 (list_len l + 1)\<rparr>)
     else Inl Segv)"

definition sort_compare_common :: "mystr_list_node \<Rightarrow> mystr_list_node \<Rightarrow> bool \<Rightarrow> int" where
  "sort_compare_common p_node1 p_node2 reverse =
     (let p_cmp1 = (if sort_key_str p_node1 \<noteq> [] then sort_key_str p_node1 else str p_node1);
          p_cmp2 = (if sort_key_str p_node2 \<noteq> [] then sort_key_str p_node2 else str p_node2)
      in if reverse then str_strcmp p_cmp2 p_cmp1 else str_strcmp p_cmp1 p_cmp2)"

definition sort_compare_func :: "mystr_list_node \<Rightarrow> mystr_list_node \<Rightarrow> int" where
  "sort_compare_func p1 p2 = sort_compare_common p1 p2 False"

definition sort_compare_func_reverse :: "mystr_list_node \<Rightarrow> mystr_list_node \<Rightarrow> int" where
  "sort_compare_func_reverse p1 p2 = sort_compare_common p1 p2 True"

type_synonym qsort_fun =
  "(mystr_list_node \<Rightarrow> mystr_list_node \<Rightarrow> int) \<Rightarrow> mystr_list_node list \<Rightarrow> mystr_list_node list"

definition str_list_sort :: "qsort_fun \<Rightarrow> mystr_list \<Rightarrow> bool \<Rightarrow> mystr_list res" where
  "str_list_sort qs p_list reverse =
     (let used = take (list_len p_list) (p_nodes p_list) in
      if length used < list_len p_list \<or> None \<in> set used then Inl Segv
      else Inr (p_list\<lparr>p_nodes :=
             map Some (qs (if \<not> reverse then sort_compare_func else sort_compare_func_reverse)
                          (map the used)) @ drop (list_len p_list) (p_nodes p_list)\<rparr>))"

definition str_list_get_pstr :: "mystr_list \<Rightarrow> nat \<Rightarrow> bytes res" where
  "str_list_get_pstr p_list indexx =
     (if indexx \<ge> list_len p_list then bug ''indexx out of range in str_list_get_str''
      else res_bind (cell p_list indexx) (\<lambda>n. Inr (str n)))"

section \<open>Invariant and abstraction\<close>

text \<open>The capacity is 0 or 32 times a power of two, and the cells below the fill are set.\<close>

definition wf_list :: "mystr_list \<Rightarrow> bool" where
  "wf_list l \<longleftrightarrow>
     length (p_nodes l) = alloc_len l \<and> list_len l \<le> alloc_len l \<and>
     (alloc_len l = 0 \<or> (\<exists>k \<le> 18. alloc_len l = 32 * 2 ^ k)) \<and>
     (\<forall>i < list_len l. p_nodes l ! i \<noteq> None)"

definition nodes_of :: "mystr_list \<Rightarrow> mystr_list_node list" where
  "nodes_of l = map the (take (list_len l) (p_nodes l))"

definition capacity_limit :: nat where
  "capacity_limit = 8388608"

text \<open>The contract of \<^verbatim>\<open>qsort\<close>, for comparison functions that order the elements at hand.\<close>

definition orders :: "('a \<Rightarrow> 'a \<Rightarrow> int) \<Rightarrow> 'a set \<Rightarrow> bool" where
  "orders cmp S \<longleftrightarrow>
     (\<forall>a \<in> S. \<forall>b \<in> S. (cmp a b \<le> 0 \<or> cmp b a \<le> 0)) \<and>
     (\<forall>a \<in> S. \<forall>b \<in> S. \<forall>c \<in> S. cmp a b \<le> 0 \<longrightarrow> cmp b c \<le> 0 \<longrightarrow> cmp a c \<le> 0)"

definition is_qsort :: "qsort_fun \<Rightarrow> bool" where
  "is_qsort qs \<longleftrightarrow>
     (\<forall>cmp xs. mset (qs cmp xs) = mset xs \<and>
        (orders cmp (set xs) \<longrightarrow> sorted_wrt (\<lambda>a b. cmp a b \<le> 0) (qs cmp xs)))"

definition sort_key :: "mystr_list_node \<Rightarrow> bytes" where
  "sort_key n = (if sort_key_str n \<noteq> [] then sort_key_str n else str n)"

section \<open>Lemmas\<close>

lemma length_nodes_of [simp]: "wf_list l \<Longrightarrow> length (nodes_of l) = list_len l"
  by (simp add: wf_list_def nodes_of_def)

lemma cell_wf: "wf_list l \<Longrightarrow> i < list_len l \<Longrightarrow> cell l i = Inr (nodes_of l ! i)"
  by (auto simp: wf_list_def cell_def nodes_of_def split: option.split)

lemma wf_init [simp]: "wf_list INIT_STRLIST" "nodes_of INIT_STRLIST = []"
  by (simp_all add: wf_list_def INIT_STRLIST_def nodes_of_def)

lemma wf_free [simp]: "wf_list (str_list_free l)" "nodes_of (str_list_free l) = []"
  by (simp_all add: wf_list_def str_list_free_def nodes_of_def)

lemma wf_list_limit: "wf_list l \<Longrightarrow> alloc_len l \<le> capacity_limit"
  using power_increasing [of _ 18 "2 :: nat"]
  by (fastforce simp: wf_list_def capacity_limit_def)

lemma contains_loop_eq:
  assumes "wf_list l" and "\<forall>n \<in> set (nodes_of l). length (str n) \<le> UINT_MAX"
    and "length s \<le> UINT_MAX"
  shows "contains_str_loop l s i = Inr (s \<in> str ` set (drop i (nodes_of l)))"
  using assms
proof (induction l s i rule: contains_str_loop.induct)
  case (1 l s i)
  show ?case
  proof (cases "i < list_len l")
    case True
    then have d: "drop i (nodes_of l) = nodes_of l ! i # drop (i + 1) (nodes_of l)"
      using "1.prems"(1) by (simp add: Cons_nth_drop_Suc)
    have "str_equal s (str (nodes_of l ! i)) \<longleftrightarrow> s = str (nodes_of l ! i)"
      using "1.prems" True by (intro str_equal_iff) auto
    with True "1" d show ?thesis
      by (subst contains_str_loop.simps) (auto simp: cell_wf)
  next
    case False
    with "1.prems" show ?thesis by (subst contains_str_loop.simps) simp
  qed
qed

lemma nth_grow [simp]: "i < length old \<Longrightarrow> length old \<le> n \<Longrightarrow> grow_nodes old n ! i = old ! i"
  by (simp add: grow_nodes_def nth_append)

lemma length_grow [simp]: "length (grow_nodes old n) = n"
  by (simp add: grow_nodes_def)

lemma take_grow [simp]: "m \<le> length old \<Longrightarrow> length old \<le> n \<Longrightarrow> take m (grow_nodes old n) = take m old"
  by (simp add: grow_nodes_def)

definition node_for :: "bytes \<Rightarrow> bytes option \<Rightarrow> mystr_list_node" where
  "node_for s k = \<lparr>str = s, sort_key_str = (case k of None \<Rightarrow> [] | Some k' \<Rightarrow> k')\<rparr>"

lemma str_node_for [simp]: "str (node_for s k) = s"
  by (simp add: node_for_def)

lemma store_cell:
  fixes n
  assumes "wf_list l" and "list_len l < alloc_len l"
  defines "l' \<equiv> l\<lparr>p_nodes := (p_nodes l)[list_len l := Some n], list_len := u32 (list_len l + 1)\<rparr>"
  shows "wf_list l'" and "nodes_of l' = nodes_of l @ [n]"
proof -
  have u: "u32 (list_len l + 1) = list_len l + 1"
    using assms(2) wf_list_limit [OF assms(1)] by (simp add: capacity_limit_def)
  show "wf_list l'" using assms(1,2) u by (auto simp: wf_list_def l'_def nth_list_update)
  show "nodes_of l' = nodes_of l @ [n]"
    using assms(1,2) u by (simp add: wf_list_def l'_def nodes_of_def take_Suc_conv_app_nth)
qed

lemma grown:
  fixes n
  assumes "wf_list l" and "list_len l = alloc_len l" and "n = 32 * 2 ^ k" and "k \<le> 18"
    and "alloc_len l < n"
  defines "l' \<equiv> l\<lparr>alloc_len := n, p_nodes := grow_nodes (p_nodes l) n\<rparr>"
  shows "wf_list l'" and "nodes_of l' = nodes_of l" and "list_len l' < alloc_len l'"
  using assms by (auto simp: wf_list_def l'_def nodes_of_def)

lemma doubled:
  assumes "wf_list l" and "0 < alloc_len l"
  shows "u32 (alloc_len l * 2) = alloc_len l * 2"
    and "alloc_len l * 2 \<le> kMaxStrlist \<longleftrightarrow> alloc_len l < capacity_limit"
    and "alloc_len l < capacity_limit \<Longrightarrow> \<exists>k \<le> 18. alloc_len l * 2 = 32 * 2 ^ k"
proof -
  obtain k where k: "k \<le> 18" "alloc_len l = 32 * 2 ^ k" using assms by (auto simp: wf_list_def)
  show "u32 (alloc_len l * 2) = alloc_len l * 2"
    using wf_list_limit [OF assms(1)] by (simp add: capacity_limit_def)
  show lim: "alloc_len l < capacity_limit \<Longrightarrow> \<exists>k \<le> 18. alloc_len l * 2 = 32 * 2 ^ k"
    using k by (intro exI [of _ "Suc k"]) (auto simp: capacity_limit_def le_less)
  show "alloc_len l * 2 \<le> kMaxStrlist \<longleftrightarrow> alloc_len l < capacity_limit"
  proof
    assume "alloc_len l * 2 \<le> kMaxStrlist"
    with k show "alloc_len l < capacity_limit"
      by (cases "k = 18") (auto simp: capacity_limit_def kMaxStrlist_def le_less)
  next
    assume "alloc_len l < capacity_limit"
    then obtain j where "j \<le> 18" "alloc_len l * 2 = 32 * 2 ^ j" using lim by blast
    then show "alloc_len l * 2 \<le> kMaxStrlist"
      using power_increasing [of j 18 "2 :: nat"] by (simp add: kMaxStrlist_def)
  qed
qed

text \<open>What an allocation wrapper answers for a size it accepts.\<close>

lemma node_malloc_cases:
  assumes "0 < sz" and "sz \<le> INT_MAX"
  shows "(\<exists>b. vsf_sysutil_malloc A sz = Inr b) \<or> \<not> allocates A \<and> vsf_sysutil_malloc A sz = Inl (Oops ''malloc'')"
    and "(\<exists>b. vsf_sysutil_realloc A p sz = Inr b) \<or> \<not> allocates A \<and> vsf_sysutil_realloc A p sz = Inl (Oops ''realloc'')"
  using assms
  by (auto simp: vsf_sysutil_malloc_def vsf_sysutil_realloc_def allocates_def die_def bug_def
      split: option.split)

definition added :: "allocator \<Rightarrow> mystr_list \<Rightarrow> mystr_list_node \<Rightarrow> mystr_list res \<Rightarrow> bool" where
  "added A l n r \<longleftrightarrow>
     (case r of
        Inr l' \<Rightarrow> list_len l < capacity_limit \<and> wf_list l' \<and> nodes_of l' = nodes_of l @ [n]
      | Inl f \<Rightarrow> list_len l = capacity_limit \<and> f = Oops ''excessive strlist'' \<or>
                 \<not> allocates A \<and> (f = Oops ''malloc'' \<or> f = Oops ''realloc''))"

lemma str_list_add_unfold:
  "str_list_add A l s k =
     res_bind
       (if list_len l = alloc_len l then
          if alloc_len l = 0 then
            res_bind (vsf_sysutil_malloc A 1024) (\<lambda>_.
            Inr (l\<lparr>alloc_len := 32, p_nodes := grow_nodes [] 32\<rparr>))
          else
            let n = u32 (alloc_len l * 2) in
            if n > kMaxStrlist then die ''excessive strlist''
            else res_bind (vsf_sysutil_realloc A (Some []) (u32 (n * 32))) (\<lambda>_.
                 Inr (l\<lparr>alloc_len := n, p_nodes := grow_nodes (p_nodes l) n\<rparr>))
        else Inr l) (\<lambda>l.
     if list_len l < length (p_nodes l)
     then Inr (l\<lparr>p_nodes := (p_nodes l)[list_len l := Some (node_for s k)],
                 list_len := u32 (list_len l + 1)\<rparr>)
     else Inl Segv)"
  unfolding str_list_add_def node_for_def node_size_def by simp

lemma store_added:
  assumes "wf_list l'" and "list_len l' < alloc_len l'" and "nodes_of l' = nodes_of l"
    and "wf_list l"
  shows "added A l n (if list_len l' < length (p_nodes l')
     then Inr (l'\<lparr>p_nodes := (p_nodes l')[list_len l' := Some n], list_len := u32 (list_len l' + 1)\<rparr>)
     else Inl Segv)"
proof -
  have "list_len l = list_len l'" using assms by (metis length_nodes_of)
  then have "list_len l < capacity_limit" using assms(2) wf_list_limit [OF assms(1)] by simp
  moreover have "list_len l' < length (p_nodes l')" using assms(1,2) by (simp add: wf_list_def)
  ultimately show ?thesis
    using store_cell [OF assms(1,2), of n] assms(3) by (simp add: added_def)
qed

lemma str_list_add_added:
  assumes wf: "wf_list l"
  shows "added A l (node_for s k) (str_list_add A l s k)"
proof (cases "list_len l = alloc_len l")
  case False
  then have "list_len l < alloc_len l" using wf by (simp add: wf_list_def)
  with False store_added [OF wf this refl wf] show ?thesis by (simp add: str_list_add_unfold)
next
  case full: True
  show ?thesis
  proof (cases "alloc_len l = 0")
    case True
    with full wf have l: "p_nodes l = []" by (simp add: wf_list_def)
    note g = grown [OF wf full, of 32 0, unfolded l]
    from node_malloc_cases(1) [of 1024 A]
    show ?thesis
      using True full g store_added [OF g(1,3,2) wf, of A "node_for s k"]
      by (auto simp: str_list_add_unfold added_def)
  next
    case False
    note d = doubled [OF wf, OF False [unfolded neq0_conv]]
    show ?thesis
    proof (cases "alloc_len l < capacity_limit")
      case True
      obtain k' where k: "k' \<le> 18" "alloc_len l * 2 = 32 * 2 ^ k'" using d(3) [OF True] by blast
      have bound: "alloc_len l * 2 * 32 \<le> INT_MAX" using True by (simp add: capacity_limit_def)
      have le: "alloc_len l * 2 \<le> kMaxStrlist" using True d(2) by blast
      have grow: "alloc_len l < alloc_len l * 2" using False by simp
      note g = grown [OF wf full k(2,1) grow]
      have eq: "str_list_add A l s k = res_bind (vsf_sysutil_realloc A (Some []) (alloc_len l * 2 * 32))
          (\<lambda>_. let l' = l\<lparr>alloc_len := alloc_len l * 2, p_nodes := grow_nodes (p_nodes l) (alloc_len l * 2)\<rparr>
           in if list_len l' < length (p_nodes l')
             then Inr (l'\<lparr>p_nodes := (p_nodes l')[list_len l' := Some (node_for s k)],
                          list_len := u32 (list_len l' + 1)\<rparr>) else Inl Segv)"
        using full False d(1) le bound
        by (cases "vsf_sysutil_realloc A (Some []) (alloc_len l * 2 * 32)")
           (simp_all add: str_list_add_unfold Let_def not_less)
      from node_malloc_cases(2) [of "alloc_len l * 2 * 32" A "Some []"] bound False
      show ?thesis unfolding eq
        using store_added [OF g(1,3,2) wf, of A "node_for s k"]
        by (auto simp: Let_def added_def)
    next
      case lim: False
      then have "alloc_len l = capacity_limit" using wf_list_limit [OF wf] by simp
      with full False d lim show ?thesis
        by (auto simp: str_list_add_unfold Let_def added_def die_def bug_def not_less)
    qed
  qed
qed

section \<open>Lemmas: sorting\<close>

lemma byte_order_trans: "(a, b) \<in> byte_order \<Longrightarrow> (b, c) \<in> byte_order \<Longrightarrow> (a, c) \<in> byte_order"
  unfolding byte_order_def by (rule lexord_trans) (auto simp: trans_def)

lemma byte_order_linear: "(a, b) \<in> byte_order \<or> a = b \<or> (b, a) \<in> byte_order"
  unfolding byte_order_def by (rule lexord_linear) (auto simp: neq_iff)

lemma byte_order_irrefl [simp]: "(a, a) \<notin> byte_order"
  unfolding byte_order_def by (rule lexord_irreflexive) auto

lemma strcmp_le_iff:
  assumes "length v1 \<le> INT_MAX" and "length v2 \<le> INT_MAX"
  shows "str_strcmp v1 v2 \<le> 0 \<longleftrightarrow> (v2, v1) \<notin> byte_order"
proof -
  have "str_strcmp v1 v2 \<le> 0 \<longleftrightarrow> v1 = v2 \<or> (v1, v2) \<in> byte_order"
    using strcmp_byte_order [OF assms] by linarith
  then show ?thesis
    using byte_order_linear [of v1 v2] byte_order_trans [of v1 v2 v1] by auto
qed

definition short_node :: "mystr_list_node \<Rightarrow> bool" where
  "short_node n \<longleftrightarrow> length (str n) \<le> INT_MAX \<and> length (sort_key_str n) \<le> INT_MAX"

definition ordered_nodes :: "bool \<Rightarrow> mystr_list_node \<Rightarrow> mystr_list_node \<Rightarrow> bool" where
  "ordered_nodes reverse a b \<longleftrightarrow>
     (if reverse then (sort_key a, sort_key b) else (sort_key b, sort_key a)) \<notin> byte_order"

definition comparator :: "bool \<Rightarrow> mystr_list_node \<Rightarrow> mystr_list_node \<Rightarrow> int" where
  "comparator reverse = (if \<not> reverse then sort_compare_func else sort_compare_func_reverse)"

lemma comparator_le:
  "short_node a \<Longrightarrow> short_node b \<Longrightarrow> comparator reverse a b \<le> 0 \<longleftrightarrow> ordered_nodes reverse a b"
  by (simp add: short_node_def comparator_def sort_compare_func_def sort_compare_func_reverse_def
      sort_compare_common_def ordered_nodes_def sort_key_def strcmp_le_iff)

lemma ordered_nodes_total: "ordered_nodes r a b \<or> ordered_nodes r b a"
  using byte_order_trans [of "sort_key a" "sort_key b" "sort_key a"] by (auto simp: ordered_nodes_def)

lemma ordered_nodes_trans:
  "ordered_nodes r a b \<Longrightarrow> ordered_nodes r b c \<Longrightarrow> ordered_nodes r a c"
  unfolding ordered_nodes_def by (auto split: if_splits; metis byte_order_linear byte_order_trans)

lemma comparator_orders: "\<forall>n \<in> S. short_node n \<Longrightarrow> orders (comparator reverse) S"
  using ordered_nodes_total ordered_nodes_trans by (fastforce simp: orders_def comparator_le)

lemma str_list_sort_eq:
  assumes "wf_list l"
  shows "str_list_sort qs l reverse = Inr (l\<lparr>p_nodes :=
           map Some (qs (comparator reverse) (nodes_of l)) @ drop (list_len l) (p_nodes l)\<rparr>)"
proof -
  have "None \<notin> set (take (list_len l) (p_nodes l))"
    using assms by (auto simp: wf_list_def in_set_conv_nth)
  moreover have "\<not> length (take (list_len l) (p_nodes l)) < list_len l"
    using assms by (simp add: wf_list_def)
  ultimately show ?thesis by (simp add: str_list_sort_def comparator_def nodes_of_def Let_def)
qed

lemma is_qsort_length: "is_qsort qs \<Longrightarrow> length (qs cmp xs) = length xs"
  by (metis is_qsort_def mset_eq_length)

section \<open>The interface of the string list\<close>

text \<open>
  What the users of the list rely on: a successful \<open>add\<close> appends, the length is the number of
  strings and \<open>get\<close> below it reads the string back.
\<close>

locale string_sequence =
  fixes ok :: "'l \<Rightarrow> bool"
    and items :: "'l \<Rightarrow> bytes list"
    and add :: "'l \<Rightarrow> bytes \<Rightarrow> bytes option \<Rightarrow> 'l res"
    and count :: "'l \<Rightarrow> nat"
    and get :: "'l \<Rightarrow> nat \<Rightarrow> bytes res"
  assumes add_law: "ok l \<Longrightarrow> add l s k = Inr l' \<Longrightarrow> ok l' \<and> items l' = items l @ [s]"
    and count_law: "ok l \<Longrightarrow> count l = length (items l)"
    and get_law: "ok l \<Longrightarrow> i < count l \<Longrightarrow> get l i = Inr (items l ! i)"

text \<open>The two loops the users run: add a batch, read everything from an index on.\<close>

fun add_all :: "('l \<Rightarrow> bytes \<Rightarrow> bytes option \<Rightarrow> 'l res) \<Rightarrow> 'l \<Rightarrow> (bytes \<times> bytes option) list \<Rightarrow> 'l res" where
  "add_all f l [] = Inr l"
| "add_all f l ((s, k) # es) = res_bind (f l s k) (\<lambda>l'. add_all f l' es)"

fun read_all :: "(nat \<Rightarrow> bytes res) \<Rightarrow> nat list \<Rightarrow> bytes list res" where
  "read_all g [] = Inr []"
| "read_all g (i # is) = res_bind (g i) (\<lambda>s. res_bind (read_all g is) (\<lambda>ss. Inr (s # ss)))"

context string_sequence
begin

lemma add_all_items:
  "ok l \<Longrightarrow> add_all add l es = Inr l' \<Longrightarrow> ok l' \<and> items l' = items l @ map fst es"
proof (induction es arbitrary: l)
  case (Cons e es)
  then obtain l1 where "add l (fst e) (snd e) = Inr l1" "add_all add l1 es = Inr l'"
    by (cases e) (auto simp: res_simps)
  with Cons add_law [OF Cons.prems(1)] show ?case by fastforce
qed simp

lemma read_all_items:
  "ok l \<Longrightarrow> \<forall>i \<in> set is. i < count l \<Longrightarrow> read_all (get l) is = Inr (map (\<lambda>i. items l ! i) is)"
  by (induction "is") (auto simp: get_law)

lemma fill_then_read:
  assumes "ok l" and "items l = []" and "add_all add l es = Inr l'"
  shows "read_all (get l') [0..<count l'] = Inr (map fst es)"
  using add_all_items [OF assms(1,3)] assms(2) read_all_items [of l' "[0..<count l']"]
    map_nth [of "map fst es"]
  by (simp add: count_law)

end

interpretation sl: string_sequence wf_list "\<lambda>l. map str (nodes_of l)" "str_list_add A"
  str_list_get_length str_list_get_pstr for A
proof unfold_locales
  fix l s k l'
  assume "wf_list l" and "str_list_add A l s k = Inr l'"
  then show "wf_list l' \<and> map str (nodes_of l') = map str (nodes_of l) @ [s]"
    using str_list_add_added [of l A s k] by (simp add: added_def)
next
  fix l i
  assume "wf_list l" and "i < str_list_get_length l"
  then show "str_list_get_pstr l i = Inr (map str (nodes_of l) ! i)"
    by (simp add: str_list_get_length_def str_list_get_pstr_def cell_wf)
qed (simp add: str_list_get_length_def)

section \<open>Properties\<close>

text \<open>Adding to the string list. The list of a well-formed array grows by exactly the given
  string and key and stays well-formed, through the doubling of the block, as long as it holds
  fewer than 8388608 strings and the heap serves requests; at that size it stops with
  ``excessive strlist'' and no cell outside the block is ever written.\<close>

theorem str_list_add_appends:
  assumes "wf_list l" and "allocates A"
  shows "if list_len l < capacity_limit
         then \<exists>l'. str_list_add A l s k = Inr l' \<and> wf_list l' \<and>
                nodes_of l' = nodes_of l @ [node_for s k]
         else str_list_add A l s k = Inl (Oops ''excessive strlist'')"
  using str_list_add_added [OF assms(1), of A s k] assms wf_list_limit [OF assms(1)]
  by (cases "str_list_add A l s k") (auto simp: added_def)

theorem str_list_add_appends_witness:
  "\<exists>l'. str_list_add (\<lambda>n. Some (\<lambda>i. NUL)) INIT_STRLIST ''b'' (Some ''k'') = Inr l' \<and> wf_list l' \<and>
     nodes_of l' = [node_for ''b'' (Some ''k'')]"
proof -
  have h: "wf_list INIT_STRLIST" "allocates (\<lambda>n. Some (\<lambda>i. NUL))"
    by (simp_all add: allocates_def)
  have "list_len INIT_STRLIST < capacity_limit" by (simp add: INIT_STRLIST_def capacity_limit_def)
  with str_list_add_appends [OF h, of "''b''" "Some ''k''"] show ?thesis by simp
qed

text \<open>Sorting the string list. With any \<^verbatim>\<open>qsort\<close> of the C standard, \<^verbatim>\<open>str_list_sort\<close> returns
  a well-formed list with the same nodes, in ascending (or, reversed, descending) lexicographic
  order of the sort key, or of the string where the key is empty.\<close>

theorem str_list_sort_sorted:
  assumes "is_qsort qs" and "wf_list l" and "\<forall>n \<in> set (nodes_of l). short_node n"
  shows "\<exists>l'. str_list_sort qs l reverse = Inr l' \<and> wf_list l' \<and>
           mset (nodes_of l') = mset (nodes_of l) \<and> sorted_wrt (ordered_nodes reverse) (nodes_of l')"
proof -
  let ?ns = "qs (comparator reverse) (nodes_of l)"
  let ?l' = "l\<lparr>p_nodes := map Some ?ns @ drop (list_len l) (p_nodes l)\<rparr>"
  have q: "mset ?ns = mset (nodes_of l)" "sorted_wrt (\<lambda>a b. comparator reverse a b \<le> 0) ?ns"
    using assms(1) comparator_orders [OF assms(3)] unfolding is_qsort_def by blast+
  have len: "length ?ns = list_len l" using assms(1,2) by (simp add: is_qsort_length)
  have nodes: "nodes_of ?l' = ?ns" using len by (simp add: nodes_of_def map_idI)
  have "wf_list ?l'" using assms(2) len by (auto simp: wf_list_def nth_append)
  moreover have "\<forall>n \<in> set ?ns. short_node n" using assms(3) q(1) by (metis set_mset_mset)
  then have "sorted_wrt (ordered_nodes reverse) ?ns"
    using q(2) by (auto simp: comparator_le elim!: sorted_wrt_mono_rel [rotated])
  ultimately show ?thesis using str_list_sort_eq [OF assms(2)] nodes q(1) by auto
qed

text \<open>A \<^verbatim>\<open>qsort\<close>: straight insertion.\<close>

fun insert_by :: "('a \<Rightarrow> 'a \<Rightarrow> int) \<Rightarrow> 'a \<Rightarrow> 'a list \<Rightarrow> 'a list" where
  "insert_by cmp x [] = [x]"
| "insert_by cmp x (y # ys) = (if cmp x y \<le> 0 then x # y # ys else y # insert_by cmp x ys)"

definition insertion_qsort :: "('a \<Rightarrow> 'a \<Rightarrow> int) \<Rightarrow> 'a list \<Rightarrow> 'a list" where
  "insertion_qsort cmp xs = foldr (insert_by cmp) xs []"

lemma mset_insert_by [simp]: "mset (insert_by cmp x ys) = add_mset x (mset ys)"
  by (induction ys) auto

lemma set_insert_by [simp]: "set (insert_by cmp x ys) = insert x (set ys)"
  by (induction ys) auto

lemma orders_subset: "orders cmp S \<Longrightarrow> T \<subseteq> S \<Longrightarrow> orders cmp T"
  unfolding orders_def by (meson subsetD)

lemma insert_by_sorted:
  "orders cmp (insert x (set ys)) \<Longrightarrow> sorted_wrt (\<lambda>a b. cmp a b \<le> 0) ys \<Longrightarrow>
   sorted_wrt (\<lambda>a b. cmp a b \<le> 0) (insert_by cmp x ys)"
proof (induction ys)
  case (Cons y ys)
  have "orders cmp (insert x (set ys))"
    using Cons.prems(1) by (rule orders_subset) auto
  then have IH: "sorted_wrt (\<lambda>a b. cmp a b \<le> 0) (insert_by cmp x ys)" using Cons by simp
  have tot: "cmp x y \<le> 0 \<or> cmp y x \<le> 0" using Cons.prems(1) by (simp add: orders_def)
  have tr: "z \<in> set ys \<Longrightarrow> cmp x y \<le> 0 \<Longrightarrow> cmp y z \<le> 0 \<Longrightarrow> cmp x z \<le> 0" for z
    using Cons.prems(1) unfolding orders_def by (meson insertCI list.set_intros)
  show ?case using IH tot tr Cons.prems(2) by auto
qed simp

lemma insertion_is_qsort: "is_qsort insertion_qsort"
proof -
  have m: "mset (insertion_qsort cmp xs) = mset xs" for cmp and xs :: "mystr_list_node list"
    by (induction xs) (simp_all add: insertion_qsort_def)
  have "orders cmp (set xs) \<Longrightarrow> sorted_wrt (\<lambda>a b. cmp a b \<le> 0) (insertion_qsort cmp xs)"
    for cmp and xs :: "mystr_list_node list"
  proof (induction xs)
    case (Cons x xs)
    have "orders cmp (set xs)" using Cons.prems by (rule orders_subset) auto
    moreover have "set (insertion_qsort cmp xs) = set xs" using m by (metis set_mset_mset)
    ultimately show ?case
      using Cons insert_by_sorted [of cmp x "insertion_qsort cmp xs"]
      by (simp add: insertion_qsort_def)
  qed (simp add: insertion_qsort_def)
  with m show ?thesis by (simp add: is_qsort_def)
qed

definition two_names :: mystr_list where
  "two_names = \<lparr>alloc_len = 32, list_len = 2,
     p_nodes = [Some (node_for ''b'' None), Some (node_for ''a'' None)] @ replicate 30 None\<rparr>"

lemma two_names_nodes: "nodes_of two_names = [node_for ''b'' None, node_for ''a'' None]"
  by (simp add: two_names_def nodes_of_def)

lemma two_names_wf: "wf_list two_names"
  by (auto simp: two_names_def wf_list_def less_Suc_eq numeral_eq_Suc intro: exI [of _ 0])

theorem str_list_sort_sorted_witness:
  "\<exists>l'. str_list_sort insertion_qsort two_names False = Inr l' \<and> wf_list l' \<and>
     mset (nodes_of l') = mset (nodes_of two_names) \<and> sorted_wrt (ordered_nodes False) (nodes_of l')"
  by (rule str_list_sort_sorted [OF insertion_is_qsort two_names_wf])
     (simp add: two_names_nodes short_node_def node_for_def)

text \<open>A list filled by a run of \<^verbatim>\<open>str_list_add\<close> from the empty one holds exactly the added
  strings: \<^verbatim>\<open>str_list_get_pstr\<close> reads them back by index in the order they were added, and
  \<^verbatim>\<open>str_list_contains_str\<close> decides membership among them.\<close>

theorem str_list_fill_read:
  assumes "add_all (str_list_add A) INIT_STRLIST es = Inr l"
    and "\<forall>e \<in> set es. length (fst e) \<le> UINT_MAX" and "length s \<le> UINT_MAX"
  shows "read_all (str_list_get_pstr l) [0..<str_list_get_length l] = Inr (map fst es) \<and>
         str_list_contains_str l s = Inr (s \<in> fst ` set es)"
proof
  show "read_all (str_list_get_pstr l) [0..<str_list_get_length l] = Inr (map fst es)"
    using assms(1) by (intro sl.fill_then_read) simp_all
  have l: "wf_list l" "map str (nodes_of l) = map fst es"
    using sl.add_all_items [OF _ assms(1)] by simp_all
  then have names: "str ` set (nodes_of l) = fst ` set es" by (metis set_map)
  then have "\<forall>n \<in> set (nodes_of l). length (str n) \<le> UINT_MAX"
    using assms(2) by (metis imageE image_eqI)
  from contains_loop_eq [OF l(1) this assms(3), of 0] names
  show "str_list_contains_str l s = Inr (s \<in> fst ` set es)"
    by (simp add: str_list_contains_str_def)
qed

theorem str_list_fill_read_witness:
  "\<exists>l. add_all (str_list_add (\<lambda>n. Some (\<lambda>i. NUL))) INIT_STRLIST [(''b'', None), (''a'', None)] = Inr l \<and>
     read_all (str_list_get_pstr l) [0..<str_list_get_length l] = Inr [''b'', ''a''] \<and>
     str_list_contains_str l ''a'' = Inr True"
proof -
  let ?run = "add_all (str_list_add (\<lambda>n. Some (\<lambda>i. NUL))) INIT_STRLIST [(''b'', None), (''a'', None)]"
  have run: "?run = Inr (projr ?run)"
    by (simp add: str_list_add_def INIT_STRLIST_def vsf_sysutil_malloc_def node_size_def Let_def
        grow_nodes_def)
  from str_list_fill_read [OF run, of "''a''"] run show ?thesis by fastforce
qed

end
