(* ===== verification/Ascii.thy ===== *)
theory Ascii
  imports Prelude
begin

text \<open>
  \<^verbatim>\<open>ascii.c\<close>: the two line-end conversions of ASCII mode. The receiving one works in place: the
  input is at offset 1 of the buffer, the output starts at offset 0 or 1, and the write pointer
  must never overtake the read pointer. The sending one writes to a second buffer. Reads and
  writes outside a buffer are \<open>Segv\<close>. Both convert one fragment of the stream at a time and carry
  one bit, whether the fragment before ended in a CR.
\<close>

section \<open>Receiving: CR LF to LF, in place\<close>

record ascii_to_bin_ret =
  stored :: nat
  last_was_cr :: bool
  ret_off :: nat

definition get_byte :: "bytes \<Rightarrow> nat \<Rightarrow> char res" where
  "get_byte p i = (if i < length p then Inr (p ! i) else Inl Segv)"

definition put_byte :: "bytes \<Rightarrow> nat \<Rightarrow> char \<Rightarrow> bytes res" where
  "put_byte p i c = (if i < length p then Inr (p[i := c]) else Inl Segv)"

text \<open>The loop: \<open>p_out\<close> is the offset the next byte goes to.\<close>

function ascii_to_bin_loop ::
  "bytes \<Rightarrow> nat \<Rightarrow> nat \<Rightarrow> nat \<Rightarrow> nat \<Rightarrow> bool \<Rightarrow> (bytes \<times> nat \<times> bool) res" where
  "ascii_to_bin_loop p_buf in_len indexx p_out written was_cr =
     (if indexx < in_len then
        res_bind (get_byte p_buf (indexx + 1)) (\<lambda>the_char.
        if the_char \<noteq> CR then
          res_bind (put_byte p_buf p_out the_char) (\<lambda>b.
          ascii_to_bin_loop b in_len (indexx + 1) (p_out + 1) (written + 1) was_cr)
        else if indexx = in_len - 1 then
          ascii_to_bin_loop p_buf in_len (indexx + 1) p_out written True
        else
          res_bind (get_byte p_buf (indexx + 2)) (\<lambda>next_char.
          if next_char \<noteq> LF then
            res_bind (put_byte p_buf p_out the_char) (\<lambda>b.
            ascii_to_bin_loop b in_len (indexx + 1) (p_out + 1) (written + 1) was_cr)
          else ascii_to_bin_loop p_buf in_len (indexx + 1) p_out written was_cr))
      else Inr (p_buf, written, was_cr))"
  by pat_completeness auto
termination by (relation "measure (\<lambda>(b, n, i, _). n - i)") auto

declare ascii_to_bin_loop.simps [simp del]

definition vsf_ascii_ascii_to_bin ::
  "bytes \<Rightarrow> nat \<Rightarrow> bool \<Rightarrow> (bytes \<times> ascii_to_bin_ret) res" where
  "vsf_ascii_ascii_to_bin p_buf in_len prev_cr =
     res_bind
       (if prev_cr then
          if in_len = 0 then Inr True
          else res_bind (get_byte p_buf 1) (\<lambda>c. Inr (c \<noteq> LF))
        else Inr False) (\<lambda>put_cr.
     res_bind
       (if put_cr then res_bind (put_byte p_buf 0 CR) (\<lambda>b. Inr (b, 0, 1)) else Inr (p_buf, 1, 0))
       (\<lambda>(b, off, written).
     res_bind (ascii_to_bin_loop b in_len 0 1 written False) (\<lambda>(b', w, was_cr).
     Inr (b', \<lparr>stored = w, last_was_cr = was_cr, ret_off = off\<rparr>))))"

section \<open>Sending: LF to CR LF\<close>

record bin_to_ascii_ret =
  b_stored :: nat
  b_last_was_cr :: bool

function bin_to_ascii_loop ::
  "bytes \<Rightarrow> bytes \<Rightarrow> nat \<Rightarrow> nat \<Rightarrow> nat \<Rightarrow> char \<Rightarrow> bool \<Rightarrow> (bytes \<times> nat \<times> bool) res" where
  "bin_to_ascii_loop p_in p_out in_len indexx written last_char was_cr =
     (if indexx < in_len then
        res_bind (get_byte p_in indexx) (\<lambda>the_char.
        res_bind
          (if the_char = LF \<and> last_char \<noteq> CR
           then res_bind (put_byte p_out written CR) (\<lambda>o1. Inr (o1, written + 1))
           else Inr (p_out, written)) (\<lambda>(o1, w1).
        res_bind (put_byte o1 w1 the_char) (\<lambda>o2.
        bin_to_ascii_loop p_in o2 in_len (indexx + 1) (w1 + 1) the_char (the_char = CR))))
      else Inr (p_out, written, was_cr))"
  by pat_completeness auto
termination by (relation "measure (\<lambda>(p, q, n, i, _). n - i)") auto

declare bin_to_ascii_loop.simps [simp del]

definition vsf_ascii_bin_to_ascii ::
  "bytes \<Rightarrow> bytes \<Rightarrow> nat \<Rightarrow> bool \<Rightarrow> (bytes \<times> bin_to_ascii_ret) res" where
  "vsf_ascii_bin_to_ascii p_in p_out in_len prev_cr =
     res_bind (bin_to_ascii_loop p_in p_out in_len 0 0 (if prev_cr then CR else NUL) prev_cr)
       (\<lambda>(o1, w, was_cr). Inr (o1, \<lparr>b_stored = w, b_last_was_cr = was_cr\<rparr>))"

section \<open>What the conversions mean\<close>

text \<open>Every CR that is followed by LF is removed.\<close>

fun crlf_to_lf :: "bytes \<Rightarrow> bytes" where
  "crlf_to_lf [] = []"
| "crlf_to_lf [c] = [c]"
| "crlf_to_lf (c # d # cs) =
     (if c = CR \<and> d = LF then crlf_to_lf (d # cs) else c # crlf_to_lf (d # cs))"

text \<open>One fragment: a final CR is held back.\<close>

fun a2b :: "bytes \<Rightarrow> bytes \<times> bool" where
  "a2b [] = ([], False)"
| "a2b [c] = (if c = CR then ([], True) else ([c], False))"
| "a2b (c # d # cs) =
     (let (r, b) = a2b (d # cs) in (if c = CR \<and> d = LF then r else c # r, b))"

text \<open>A held-back CR in front of the next fragment.\<close>

definition held :: "bool \<Rightarrow> bytes \<Rightarrow> bytes" where
  "held prev_cr xs = (if prev_cr \<and> (xs = [] \<or> hd xs \<noteq> LF) then [CR] else [])"

text \<open>Every LF that does not follow a CR gets one.\<close>

fun lf_to_crlf :: "char \<Rightarrow> bytes \<Rightarrow> bytes" where
  "lf_to_crlf l [] = []"
| "lf_to_crlf l (c # cs) = (if c = LF \<and> l \<noteq> CR then [CR, c] else [c]) @ lf_to_crlf c cs"

section \<open>Lemmas: receiving\<close>

lemma a2b_length: "length (fst (a2b xs)) \<le> length xs"
  by (induction xs rule: a2b.induct) (auto simp: Let_def split: prod.splits)

lemma a2b_last: "snd (a2b xs) \<longleftrightarrow> xs \<noteq> [] \<and> last xs = CR"
  by (induction xs rule: a2b.induct) (auto simp: Let_def split: prod.splits)

text \<open>
  The loop on a buffer that is split into the bytes written so far \<open>w\<close>, bytes already read \<open>g\<close>
  that may be overwritten, the bytes to read \<open>xs\<close> and a tail. Writing the byte just read behind
  \<open>w\<close> never touches what is still to be read.
\<close>

lemma put_behind:
  "put_byte (w @ g @ c # ys) (length w) c = Inr ((w @ [c]) @ tl (g @ [c]) @ ys)"
  by (cases g) (simp_all add: put_byte_def)

lemma get_at [simp]: "n = length p \<Longrightarrow> get_byte (p @ c # ys) n = Inr c"
  by (simp add: get_byte_def)

lemma get_split:
  assumes "n + 1 = length w + length g"
  shows "get_byte (w @ g @ c # ys) (n + 1) = Inr c"
    and "get_byte (w @ g @ c # d # ys) (n + 2) = Inr d"
proof -
  show "get_byte (w @ g @ c # ys) (n + 1) = Inr c"
    using get_at [of "n + 1" "w @ g" c ys] assms by simp
  show "get_byte (w @ g @ c # d # ys) (n + 2) = Inr d"
    using get_at [of "n + 2" "w @ g @ [c]" d ys] assms by simp
qed

lemma ascii_to_bin_loop_eq:
  assumes "indexx + length xs = in_len" and "indexx + 1 = length w + length g" and "\<not> was_cr"
  shows "\<exists>t'. ascii_to_bin_loop (w @ g @ xs @ t) in_len indexx (length w) written was_cr =
               Inr (w @ fst (a2b xs) @ t', written + length (fst (a2b xs)), snd (a2b xs)) \<and>
             length (w @ fst (a2b xs) @ t') = length (w @ g @ xs @ t)"
  using assms
proof (induction xs arbitrary: w g indexx written rule: a2b.induct)
  case 1
  then show ?case by (subst ascii_to_bin_loop.simps) simp
next
  case (2 c)
  have stop: "ascii_to_bin_loop b in_len (Suc indexx) n' w' f = Inr (b, w', f)" for b n' w' f
    using 2 by (subst ascii_to_bin_loop.simps) simp
  show ?case
    using 2 get_split(1) [OF "2.prems"(2), of c t] put_behind [of w g c t] stop
    by (subst ascii_to_bin_loop.simps) auto
next
  case (3 c d cs)
  obtain r f where rf: "a2b (d # cs) = (r, f)" by fastforce
  note reads = get_split [OF "3.prems"(2)]
  have more: "indexx < in_len" "indexx \<noteq> in_len - 1" using "3.prems"(1) by auto
  show ?case
  proof (cases "c = CR \<and> d = LF")
    case True
    have "\<exists>t'. ascii_to_bin_loop (w @ (g @ [c]) @ (d # cs) @ t) in_len (Suc indexx) (length w) written was_cr =
            Inr (w @ r @ t', written + length r, f) \<and>
          length (w @ r @ t') = length (w @ (g @ [c]) @ (d # cs) @ t)"
      using "3.IH" [of "Suc indexx" w "g @ [c]" written] "3.prems" rf by auto
    with True rf more reads [of c] show ?thesis
      by (subst ascii_to_bin_loop.simps) auto
  next
    case False
    have "\<exists>t'. ascii_to_bin_loop ((w @ [c]) @ tl (g @ [c]) @ (d # cs) @ t) in_len (Suc indexx)
             (length (w @ [c])) (Suc written) was_cr =
            Inr ((w @ [c]) @ r @ t', Suc written + length r, f) \<and>
          length ((w @ [c]) @ r @ t') = length ((w @ [c]) @ tl (g @ [c]) @ (d # cs) @ t)"
      using "3.IH" [of "Suc indexx" "w @ [c]" "tl (g @ [c])" "Suc written"] "3.prems" rf by auto
    with False rf more reads [of c] put_behind [of w g c "(d # cs) @ t"] show ?thesis
      by (subst ascii_to_bin_loop.simps) auto
  qed
qed

text \<open>One call on a fragment \<open>xs\<close>: the bytes at the returned offset.\<close>

lemma ascii_to_bin_fragment:
  assumes "length xs < length p_buf" and "take (length xs) (drop 1 p_buf) = xs"
  shows "\<exists>b r. vsf_ascii_ascii_to_bin p_buf (length xs) prev_cr = Inr (b, r) \<and>
           length b = length p_buf \<and>
           take (stored r) (drop (ret_off r) b) = held prev_cr xs @ fst (a2b xs) \<and>
           stored r = length (held prev_cr xs @ fst (a2b xs)) \<and>
           last_was_cr r = snd (a2b xs)"
proof -
  obtain c t where p: "p_buf = c # xs @ t"
    using assms by (cases p_buf) (auto, metis append_take_drop_id)
  obtain t1 where t1: "ascii_to_bin_loop ([c] @ [] @ xs @ t) (length xs) 0 1 0 False =
        Inr ([c] @ fst (a2b xs) @ t1, length (fst (a2b xs)), snd (a2b xs))"
      "length ([c] @ fst (a2b xs) @ t1) = length p_buf"
    using ascii_to_bin_loop_eq [of 0 xs "length xs" "[c]" "[]" False t 0] p by auto
  obtain t2 where t2: "ascii_to_bin_loop ([CR] @ [] @ xs @ t) (length xs) 0 1 1 False =
        Inr ([CR] @ fst (a2b xs) @ t2, 1 + length (fst (a2b xs)), snd (a2b xs))"
      "length ([CR] @ fst (a2b xs) @ t2) = length p_buf"
    using ascii_to_bin_loop_eq [of 0 xs "length xs" "[CR]" "[]" False t 1] p by auto
  have first: "xs \<noteq> [] \<Longrightarrow> get_byte p_buf 1 = Inr (hd xs)"
    using p by (cases xs) (auto simp: get_byte_def)
  have put: "put_byte p_buf 0 CR = Inr (CR # xs @ t)" using p by (simp add: put_byte_def)
  show ?thesis
  proof (cases "held prev_cr xs = []")
    case True
    then have "vsf_ascii_ascii_to_bin p_buf (length xs) prev_cr = Inr ([c] @ fst (a2b xs) @ t1,
        \<lparr>stored = length (fst (a2b xs)), last_was_cr = snd (a2b xs), ret_off = 1\<rparr>)"
      using t1 first p by (auto simp: vsf_ascii_ascii_to_bin_def held_def split: if_splits)
    with True t1 show ?thesis by simp
  next
    case False
    then have "held prev_cr xs = [CR]" by (simp add: held_def split: if_splits)
    moreover have "vsf_ascii_ascii_to_bin p_buf (length xs) prev_cr = Inr ([CR] @ fst (a2b xs) @ t2,
        \<lparr>stored = 1 + length (fst (a2b xs)), last_was_cr = snd (a2b xs), ret_off = 0\<rparr>)"
      using t2 first put False by (auto simp: vsf_ascii_ascii_to_bin_def held_def split: if_splits)
    ultimately show ?thesis using t2 by simp
  qed
qed

text \<open>The fragments of a stream in turn, and the CR still held back at its end.\<close>

fun a2b_stream :: "bool \<Rightarrow> bytes list \<Rightarrow> bytes" where
  "a2b_stream prev_cr [] = held prev_cr []"
| "a2b_stream prev_cr (x # xs) = held prev_cr x @ fst (a2b x) @ a2b_stream (snd (a2b x)) xs"

lemma crlf_to_lf_append:
  "crlf_to_lf (xs @ ys) = fst (a2b xs) @ held (snd (a2b xs)) ys @ crlf_to_lf ys"
proof (induction xs rule: a2b.induct)
  case (2 c)
  then show ?case by (cases ys) (auto simp: held_def)
next
  case (3 c d cs)
  then show ?case by (auto simp: Let_def split: prod.splits)
qed (simp add: held_def)

lemma held_append: "xs \<noteq> [] \<Longrightarrow> held b (xs @ ys) = held b xs"
  by (simp add: held_def)

lemma a2b_stream_eq:
  "\<forall>x \<in> set xs. x \<noteq> [] \<Longrightarrow> a2b_stream b xs = held b (concat xs) @ crlf_to_lf (concat xs)"
  by (induction xs arbitrary: b) (simp_all add: crlf_to_lf_append held_append)

section \<open>Lemmas: sending\<close>

lemma lf_to_crlf_cong: "(l = CR \<longleftrightarrow> l' = CR) \<Longrightarrow> lf_to_crlf l xs = lf_to_crlf l' xs"
  by (cases xs) auto

lemma lf_to_crlf_append:
  "lf_to_crlf l (xs @ ys) = lf_to_crlf l xs @ lf_to_crlf (last (l # xs)) ys"
  by (induction xs arbitrary: l) auto

lemma lf_to_crlf_length: "length (lf_to_crlf l xs) \<le> 2 * length xs"
  by (induction xs arbitrary: l) (auto intro: le_SucI)

lemma put_at: "n = length w \<Longrightarrow> put_byte (w @ x # t) n c = Inr ((w @ [c]) @ t)"
  by (simp add: put_byte_def)

lemma bin_to_ascii_loop_eq:
  assumes "p_in = pre @ xs @ post" and "indexx = length pre" and "in_len = indexx + length xs"
    and "length (lf_to_crlf last_char xs) \<le> length t" and "was_cr \<longleftrightarrow> last_char = CR"
  shows "bin_to_ascii_loop p_in (w @ t) in_len indexx (length w) last_char was_cr =
           Inr (w @ lf_to_crlf last_char xs @ drop (length (lf_to_crlf last_char xs)) t,
                length w + length (lf_to_crlf last_char xs), last (last_char # xs) = CR)"
  using assms
proof (induction xs arbitrary: pre indexx w t last_char was_cr)
  case Nil
  then show ?case by (subst bin_to_ascii_loop.simps) simp
next
  case (Cons c cs)
  have read: "get_byte p_in indexx = Inr c" using Cons.prems(1,2) by simp
  have more: "indexx < in_len" using Cons.prems(3) by simp
  have IH: "bin_to_ascii_loop p_in (w' @ t') in_len (Suc indexx) (length w') c (c = CR) =
        Inr (w' @ lf_to_crlf c cs @ drop (length (lf_to_crlf c cs)) t',
             length w' + length (lf_to_crlf c cs), last (c # cs) = CR)"
    if "length (lf_to_crlf c cs) \<le> length t'" for w' t'
    by (rule Cons.IH [of "pre @ [c]"]) (use Cons.prems that in auto)
  show ?case
  proof (cases "c = LF \<and> last_char \<noteq> CR")
    case True
    then obtain x y t' where t: "t = x # y # t'" and fits: "length (lf_to_crlf c cs) \<le> length t'"
      using Cons.prems(4) by (cases t; cases "tl t") auto
    show ?thesis
      using True read more IH [OF fits, of "w @ [CR, c]"] put_at [of "length w" w x "y # t'" CR]
        put_at [of "Suc (length w)" "w @ [CR]" y t' c]
      by (subst bin_to_ascii_loop.simps) (simp add: t)
  next
    case False
    then obtain x t' where t: "t = x # t'" and fits: "length (lf_to_crlf c cs) \<le> length t'"
      using Cons.prems(4) by (cases t) auto
    show ?thesis
      using False read more IH [OF fits, of "w @ [c]"] put_at [of "length w" w x t' c]
      by (subst bin_to_ascii_loop.simps) (auto simp: t)
  qed
qed

definition carry :: "bool \<Rightarrow> char" where
  "carry prev_cr = (if prev_cr then CR else NUL)"

lemma bin_to_ascii_fragment:
  assumes "2 * length xs \<le> length p_out"
  shows "vsf_ascii_bin_to_ascii (xs @ post) p_out (length xs) prev_cr =
           Inr (lf_to_crlf (carry prev_cr) xs @ drop (length (lf_to_crlf (carry prev_cr) xs)) p_out,
                \<lparr>b_stored = length (lf_to_crlf (carry prev_cr) xs),
                 b_last_was_cr = (last (carry prev_cr # xs) = CR)\<rparr>)"
proof -
  have "length (lf_to_crlf (carry prev_cr) xs) \<le> length p_out"
    using lf_to_crlf_length [of "carry prev_cr" xs] assms by linarith
  then have "bin_to_ascii_loop (xs @ post) p_out (length xs) 0 0 (carry prev_cr) prev_cr =
      Inr (lf_to_crlf (carry prev_cr) xs @ drop (length (lf_to_crlf (carry prev_cr) xs)) p_out,
           length (lf_to_crlf (carry prev_cr) xs), last (carry prev_cr # xs) = CR)"
    using bin_to_ascii_loop_eq [of "xs @ post" "[]" xs post 0 "length xs" "carry prev_cr" p_out prev_cr "[]"]
    by (simp add: carry_def)
  then show ?thesis by (simp add: vsf_ascii_bin_to_ascii_def carry_def [symmetric])
qed

lemma carry_last: "lf_to_crlf (carry (last (carry b # xs) = CR)) ys = lf_to_crlf (last (carry b # xs)) ys"
  by (rule lf_to_crlf_cong) (simp add: carry_def)

fun b2a_stream :: "bool \<Rightarrow> bytes list \<Rightarrow> bytes" where
  "b2a_stream prev_cr [] = []"
| "b2a_stream prev_cr (x # xs) =
     lf_to_crlf (carry prev_cr) x @ b2a_stream (last (carry prev_cr # x) = CR) xs"

lemma b2a_stream_eq: "b2a_stream b xs = lf_to_crlf (carry b) (concat xs)"
proof (induction xs arbitrary: b)
  case (Cons x xs)
  then show ?case unfolding b2a_stream.simps concat.simps lf_to_crlf_append by (simp only: carry_last)
qed simp

lemma roundtrip_after: "crlf_to_lf (l # lf_to_crlf l xs) = crlf_to_lf (l # xs)"
  by (induction xs arbitrary: l) auto

lemma crlf_to_lf_drop_first: "c \<noteq> CR \<Longrightarrow> crlf_to_lf (c # xs) = c # crlf_to_lf xs"
  by (cases xs) auto

section \<open>Properties\<close>

text \<open>C35: the receiving conversion is right on every fragment. With the fragment at offset 1 of
  a buffer at least one byte larger, \<^verbatim>\<open>vsf_ascii_ascii_to_bin\<close> reads and writes only inside the
  buffer although it converts in place, stores at most one byte more than it was given, and the
  bytes it returns for a run of non-empty fragments, with the held-back CR at the end, are the
  whole stream with every CR before LF removed, however the stream was cut.\<close>

theorem ascii_to_bin_stream:
  assumes "\<forall>x \<in> set frags. x \<noteq> []"
  shows "(\<forall>xs p_buf prev_cr. length xs < length p_buf \<and> take (length xs) (drop 1 p_buf) = xs \<longrightarrow>
            (\<exists>b r. vsf_ascii_ascii_to_bin p_buf (length xs) prev_cr = Inr (b, r) \<and>
               length b = length p_buf \<and>
               take (stored r) (drop (ret_off r) b) = held prev_cr xs @ fst (a2b xs) \<and>
               stored r \<le> length xs + 1 \<and> last_was_cr r = snd (a2b xs))) \<and>
         a2b_stream False frags = crlf_to_lf (concat frags)"
proof (intro conjI allI impI)
  fix xs p_buf :: bytes and prev_cr
  assume "length xs < length p_buf \<and> take (length xs) (drop 1 p_buf) = xs"
  then obtain b r where "vsf_ascii_ascii_to_bin p_buf (length xs) prev_cr = Inr (b, r)"
    "length b = length p_buf" "take (stored r) (drop (ret_off r) b) = held prev_cr xs @ fst (a2b xs)"
    "stored r = length (held prev_cr xs @ fst (a2b xs))" "last_was_cr r = snd (a2b xs)"
    using ascii_to_bin_fragment [of xs p_buf prev_cr] by blast
  moreover have "length (held prev_cr xs @ fst (a2b xs)) \<le> length xs + 1"
    using a2b_length [of xs] by (simp add: held_def)
  ultimately show "\<exists>b r. vsf_ascii_ascii_to_bin p_buf (length xs) prev_cr = Inr (b, r) \<and>
     length b = length p_buf \<and> take (stored r) (drop (ret_off r) b) = held prev_cr xs @ fst (a2b xs) \<and>
     stored r \<le> length xs + 1 \<and> last_was_cr r = snd (a2b xs)"
    by auto
next
  show "a2b_stream False frags = crlf_to_lf (concat frags)"
    using a2b_stream_eq [OF assms] by (simp add: held_def)
qed

theorem ascii_to_bin_stream_witness:
  "a2b_stream False [[CHR ''a'', CR], [LF, CR], [CHR ''b'', CR]] =
     [CHR ''a'', LF, CR, CHR ''b'', CR] \<and>
   (\<exists>b r. vsf_ascii_ascii_to_bin [NUL, CHR ''b'', CR] 2 True = Inr (b, r) \<and>
      take (stored r) (drop (ret_off r) b) = [CR, CHR ''b''] \<and> last_was_cr r)"
proof -
  let ?f = "[[CHR ''a'', CR], [LF, CR], [CHR ''b'', CR]]"
  have h: "\<forall>x \<in> set ?f. x \<noteq> []" by simp
  note t = ascii_to_bin_stream [OF h]
  have "\<exists>b r. vsf_ascii_ascii_to_bin [NUL, CHR ''b'', CR] (length [CHR ''b'', CR]) True = Inr (b, r) \<and>
      length b = length [NUL, CHR ''b'', CR] \<and>
      take (stored r) (drop (ret_off r) b) = held True [CHR ''b'', CR] @ fst (a2b [CHR ''b'', CR]) \<and>
      stored r \<le> length [CHR ''b'', CR] + 1 \<and> last_was_cr r = snd (a2b [CHR ''b'', CR])"
    by (rule t [THEN conjunct1, rule_format]) simp
  moreover have "crlf_to_lf (concat ?f) = [CHR ''a'', LF, CR, CHR ''b'', CR]" by code_simp
  ultimately show ?thesis using t [THEN conjunct2] by (auto simp: held_def numeral_2_eq_2)
qed

text \<open>The sending conversion. With an output buffer of twice the input, as the header asks,
  \<^verbatim>\<open>vsf_ascii_bin_to_ascii\<close> never writes outside it, and what it writes for the fragments of a
  file in turn is the whole file with a CR put before every LF that has none, however the file
  was cut.\<close>

theorem bin_to_ascii_stream:
  "(\<forall>xs p_out prev_cr. 2 * length xs \<le> length p_out \<longrightarrow>
      (\<exists>b r. vsf_ascii_bin_to_ascii xs p_out (length xs) prev_cr = Inr (b, r) \<and>
         length b = length p_out \<and> take (b_stored r) b = lf_to_crlf (carry prev_cr) xs \<and>
         b_last_was_cr r = (last (carry prev_cr # xs) = CR))) \<and>
   b2a_stream False frags = lf_to_crlf NUL (concat frags)"
proof (intro conjI allI impI)
  fix xs p_out :: bytes and prev_cr
  assume h: "2 * length xs \<le> length p_out"
  then have "length (lf_to_crlf (carry prev_cr) xs) \<le> length p_out"
    using lf_to_crlf_length [of "carry prev_cr" xs] by linarith
  with bin_to_ascii_fragment [OF h, of "[]" prev_cr]
  show "\<exists>b r. vsf_ascii_bin_to_ascii xs p_out (length xs) prev_cr = Inr (b, r) \<and>
     length b = length p_out \<and> take (b_stored r) b = lf_to_crlf (carry prev_cr) xs \<and>
     b_last_was_cr r = (last (carry prev_cr # xs) = CR)" by simp
qed (simp add: b2a_stream_eq carry_def)

theorem bin_to_ascii_stream_witness:
  "\<exists>b r. vsf_ascii_bin_to_ascii [LF] [NUL, NUL] 1 False = Inr (b, r) \<and> take (b_stored r) b = [CR, LF]"
proof -
  have "\<exists>b r. vsf_ascii_bin_to_ascii [LF] [NUL, NUL] (length [LF]) False = Inr (b, r) \<and>
      length b = length [NUL, NUL] \<and> take (b_stored r) b = lf_to_crlf (carry False) [LF] \<and>
      b_last_was_cr r = (last (carry False # [LF]) = CR)"
    by (rule bin_to_ascii_stream [THEN conjunct1, rule_format]) simp
  then show ?thesis by (auto simp: carry_def)
qed

text \<open>What is sent in ASCII mode and received in ASCII mode again, in whatever fragments on
  either side, is the file with every CR LF read as LF; a file without CR LF comes back
  unchanged.\<close>

theorem ascii_roundtrip:
  assumes "\<forall>x \<in> set net. x \<noteq> []" and "concat net = b2a_stream False disk"
  shows "a2b_stream False net = crlf_to_lf (concat disk)"
proof -
  have "crlf_to_lf (NUL # lf_to_crlf NUL (concat disk)) = crlf_to_lf (NUL # concat disk)"
    by (rule roundtrip_after)
  then have "crlf_to_lf (lf_to_crlf NUL (concat disk)) = crlf_to_lf (concat disk)"
    by (simp add: crlf_to_lf_drop_first)
  with assms show ?thesis by (simp add: a2b_stream_eq b2a_stream_eq held_def carry_def)
qed

theorem ascii_roundtrip_witness:
  "a2b_stream False [[CHR ''a'', CR], [LF, CR], [LF]] = [CHR ''a'', LF, LF]"
proof -
  have h: "\<forall>x \<in> set [[CHR ''a'', CR], [LF, CR], [LF]]. x \<noteq> []"
    "concat [[CHR ''a'', CR], [LF, CR], [LF]] = b2a_stream False [[CHR ''a'', LF], [LF]]"
    by (simp_all add: carry_def)
  have "crlf_to_lf (concat [[CHR ''a'', LF], [LF]]) = [CHR ''a'', LF, LF]" by code_simp
  with ascii_roundtrip [OF h] show ?thesis by simp
qed

end
