(* ===== verification/IpAddr.thy ===== *)
theory IpAddr
  imports StrVal
begin

text \<open>
  \<^verbatim>\<open>ipaddrparse.c\<close>: the hand-written parsers of network addresses. A null return of the code is
  \<open>None\<close>; the accumulators are 32-bit words; the static temporaries are local values.
\<close>

unbundle bit_operations_syntax

definition uchar :: "nat \<Rightarrow> char" where
  "uchar n = char_of (n mod 256)"

section \<open>Lists of small numbers\<close>

fun uchar_sep_loop :: "nat \<Rightarrow> nat \<Rightarrow> char \<Rightarrow> bytes \<Rightarrow> bytes \<Rightarrow> bytes option" where
  "uchar_sep_loop 0 items sep tmp p_items = Some p_items"
| "uchar_sep_loop (Suc left) items sep tmp p_items =
     (let i = items - Suc left;
          (lhs, rhs) = v_split_char tmp sep
      in if i < items - 1 \<and> rhs = [] \<or> i = items - 1 \<and> rhs \<noteq> [] then None
         else
           let this_number = str_atoi lhs in
           if this_number < 0 \<or> this_number > 255 then None
           else uchar_sep_loop left items sep rhs (p_items @ [uchar (nat this_number)]))"

definition vsf_sysutil_parse_uchar_string_sep :: "bytes \<Rightarrow> char \<Rightarrow> nat \<Rightarrow> bytes option" where
  "vsf_sysutil_parse_uchar_string_sep p_str sep items = uchar_sep_loop items items sep p_str []"

definition vsf_sysutil_parse_ipv4 :: "bytes \<Rightarrow> bytes option" where
  "vsf_sysutil_parse_ipv4 p_str = vsf_sysutil_parse_uchar_string_sep p_str CHR ''.'' 4"

section \<open>IPv6\<close>

definition low_byte :: "32 word \<Rightarrow> char" where
  "low_byte w = char_of (unat w mod 256)"

text \<open>The value of a hexadecimal digit; \<open>None\<close> for any other character.\<close>

definition hex_digit :: "char \<Rightarrow> nat option" where
  "hex_digit c =
     (let ch = code (vsf_sysutil_toupper c) in
      if ch \<ge> 48 \<and> ch \<le> 57 then Some (ch - 48)
      else if ch \<ge> 65 \<and> ch \<le> 70 then Some (ch - 65 + 10) else None)"

fun parse_hex_loop :: "bytes \<Rightarrow> 32 word \<Rightarrow> 32 word option" where
  "parse_hex_loop [] val = Some val"
| "parse_hex_loop (c # cs) val =
     (case hex_digit c of
        None \<Rightarrow> None
      | Some ch \<Rightarrow>
          let val' = (push_bit 4 val) OR of_nat ch in
          if val' > 0xFFFF then None else parse_hex_loop cs val')"

definition ipv6_parse_hex :: "bytes \<Rightarrow> bytes \<Rightarrow> bytes option" where
  "ipv6_parse_hex p_out_str p_in_str =
     (case parse_hex_loop p_in_str 0 of
        None \<Rightarrow> None
      | Some val \<Rightarrow> Some (p_out_str @ [low_byte (drop_bit 8 val), low_byte (val AND 0xFF)]))"

fun dotquad_loop ::
  "bytes \<Rightarrow> 32 word \<Rightarrow> 32 word \<Rightarrow> bool \<Rightarrow> nat \<Rightarrow> (32 word \<times> 32 word \<times> bool \<times> nat) option" where
  "dotquad_loop [] val final_val seen_char dots = Some (val, final_val, seen_char, dots)"
| "dotquad_loop (ch # cs) val final_val seen_char dots =
     (if ch = CHR ''.'' then
        if \<not> seen_char \<or> dots = 3 then None
        else dotquad_loop cs 0 ((push_bit 8 final_val) OR val) False (dots + 1)
      else if code ch \<ge> 48 \<and> code ch \<le> 57 then
        let val' = val * 10 + of_nat (code ch - 48) in
        if val' > 255 then None else dotquad_loop cs val' final_val True dots
      else None)"

definition ipv4_parse_dotquad :: "bytes \<Rightarrow> bytes \<Rightarrow> bytes option" where
  "ipv4_parse_dotquad p_out_str p_in_str =
     (case dotquad_loop p_in_str 0 0 False 0 of
        None \<Rightarrow> None
      | Some (val, final_val, seen_char, dots) \<Rightarrow>
          if dots \<noteq> 3 \<or> \<not> seen_char then None
          else
            let f = (push_bit 8 final_val) OR val in
            Some (p_out_str @ [low_byte (drop_bit 24 f), low_byte ((drop_bit 16 f) AND 0xFF),
                               low_byte ((drop_bit 8 f) AND 0xFF), low_byte (f AND 0xFF)]))"

function ipv6_parse_main :: "bytes \<Rightarrow> bytes \<Rightarrow> bytes option" where
  "ipv6_parse_main p_out_str s_lhs_str =
     (if s_lhs_str = [] then Some p_out_str
      else
        let (lhs, rhs) = v_split_char s_lhs_str CHR '':'' in
        if lhs = [] then None
        else case (if found (str_locate_char lhs CHR ''.'') then ipv4_parse_dotquad p_out_str lhs
                   else ipv6_parse_hex p_out_str lhs) of
            None \<Rightarrow> None
          | Some out \<Rightarrow> ipv6_parse_main out rhs)"
  by pat_completeness auto
termination
proof (relation "measure (\<lambda>(_, s). length s)")
  fix out s p lhs rhs out'
  assume "s \<noteq> []" and "p = v_split_char s CHR '':''" and "(lhs, rhs) = p" and "lhs \<noteq> []"
  then have "v_split_char s CHR '':'' = (lhs, rhs)" "0 < length lhs" by simp_all
  then show "((out', rhs), out, s) \<in> measure (\<lambda>(_, s). length s)"
    using v_split_char_length(1) [of "CHR '':''" s] by (cases lhs) simp_all
qed simp

declare ipv6_parse_main.simps [simp del]

definition vsf_sysutil_parse_ipv6 :: "bytes \<Rightarrow> bytes option" where
  "vsf_sysutil_parse_ipv6 p_str =
     (let (lhs, rhs) = v_split_text p_str ''::'' in
      case ipv6_parse_main [] lhs of
        None \<Rightarrow> None
      | Some s_ret \<Rightarrow>
          (case ipv6_parse_main [] rhs of
             None \<Rightarrow> None
           | Some s_rhs_ret \<Rightarrow>
               if length s_ret + length s_rhs_ret > 16 then None
               else if length s_rhs_ret > 0
               then Some (s_ret @ replicate (16 - (length s_ret + length s_rhs_ret)) NUL @ s_rhs_ret)
               else Some s_ret))"

section \<open>What the parsers accept\<close>

text \<open>Digit strings and their values.\<close>

definition dec_digit :: "char \<Rightarrow> bool" where
  "dec_digit c \<longleftrightarrow> 48 \<le> code c \<and> code c \<le> 57"

definition dec_value :: "nat \<Rightarrow> bytes \<Rightarrow> nat" where
  "dec_value v cs = foldl (\<lambda>a c. a * 10 + (code c - 48)) v cs"

definition hex_value :: "nat \<Rightarrow> bytes \<Rightarrow> nat" where
  "hex_value v cs = foldl (\<lambda>a c. a * 16 + the (hex_digit c)) v cs"

definition quad_field :: "bytes \<Rightarrow> bool" where
  "quad_field g \<longleftrightarrow> g \<noteq> [] \<and> (\<forall>c \<in> set g. dec_digit c) \<and> dec_value 0 g \<le> 255"

section \<open>Lemmas: words\<close>

lemma shift_or_unat:
  fixes v d :: "32 word"
  assumes "unat v * 2 ^ k + unat d < 2 ^ 32" and "unat d < 2 ^ k"
  shows "unat (push_bit k v OR d) = unat v * 2 ^ k + unat d"
proof -
  have "unat (take_bit k d) = unat d"
    using assms(2) by (simp add: unsigned_take_bit_eq take_bit_nat_eq_self)
  then have t: "take_bit k d = d" by (simp add: word_unat_eq_iff)
  have "push_bit k v AND d = 0"
  proof (rule bit_eqI)
    fix n
    show "bit (push_bit k v AND d) n = bit 0 n"
      using arg_cong [OF t, of "\<lambda>w. bit w n"] by (auto simp: bit_simps)
  qed
  then have "push_bit k v OR d = of_nat (unat v * 2 ^ k + unat d)"
    by (simp add: disjunctive_add_eq_or [symmetric] push_bit_eq_mult)
  also have "unat \<dots> = unat v * 2 ^ k + unat d"
    by (subst unat_of_nat) (use assms(1) in simp)
  finally show ?thesis .
qed

lemma unat_drop_bit:
  "unat (drop_bit 8 (w :: 32 word)) = unat w div 2 ^ 8"
  "unat (drop_bit 16 (w :: 32 word)) = unat w div 2 ^ 16"
  "unat (drop_bit 24 (w :: 32 word)) = unat w div 2 ^ 24"
  by (simp_all add: drop_bit_eq_div unat_div_distrib)

lemma unat_and_FF: "unat ((w :: 32 word) AND 0xFF) = unat w mod 256"
proof -
  have "w AND 0xFF = w mod 256"
    using take_bit_eq_mask [of 8 w] by (simp add: mask_numeral take_bit_eq_mod)
  then show ?thesis by (simp add: unat_mod_distrib)
qed

section \<open>Lemmas: hexadecimal fields\<close>

lemma hex_digit_less: "hex_digit c = Some d \<Longrightarrow> d < 16"
  by (auto simp: hex_digit_def Let_def split: if_splits)

lemma hex_value_ge: "v \<le> hex_value v cs"
proof (induction cs arbitrary: v)
  case (Cons c cs)
  have "v \<le> v * 16 + the (hex_digit c)" by simp
  also have "\<dots> \<le> hex_value (v * 16 + the (hex_digit c)) cs" by (rule Cons)
  finally show ?case by (simp add: hex_value_def)
qed (simp add: hex_value_def)

lemma parse_hex_loop_eq:
  "unat val \<le> 0xFFFF \<Longrightarrow>
   parse_hex_loop cs val =
     (if (\<forall>c \<in> set cs. hex_digit c \<noteq> None) \<and> hex_value (unat val) cs \<le> 0xFFFF
      then Some (of_nat (hex_value (unat val) cs)) else None)"
proof (induction cs arbitrary: val)
  case Nil
  then show ?case by (simp add: hex_value_def)
next
  case (Cons c cs)
  show ?case
  proof (cases "hex_digit c")
    case (Some d)
    define v' where "v' = (push_bit 4 val) OR (of_nat d :: 32 word)"
    have d: "d < 16" using Some by (rule hex_digit_less)
    then have ud: "unat (of_nat d :: 32 word) = d" by (simp add: unat_small)
    have v': "unat v' = unat val * 16 + d"
      unfolding v'_def using Cons.prems d ud by (subst shift_or_unat) simp_all
    have rec: "hex_value (unat val) (c # cs) = hex_value (unat v') cs"
      using Some v' by (simp add: hex_value_def)
    have big: "v' > 0xFFFF \<longleftrightarrow> unat v' > 0xFFFF" by (simp add: word_less_nat_alt)
    have step: "parse_hex_loop (c # cs) val = (if v' > 0xFFFF then None else parse_hex_loop cs v')"
      by (simp add: Some v'_def)
    show ?thesis
    proof (cases "unat v' > 0xFFFF")
      case True
      then have "\<not> hex_value (unat v') cs \<le> 0xFFFF" using hex_value_ge [of "unat v'" cs] by linarith
      with True big show ?thesis unfolding step rec by simp
    next
      case False
      then have "\<not> v' > 0xFFFF" and le: "unat v' \<le> 0xFFFF" using big by simp_all
      with Cons.IH [OF le] show ?thesis unfolding step rec by (simp add: Some)
    qed
  qed simp
qed

lemma ipv6_parse_hex_eq:
  "ipv6_parse_hex out s =
     (if (\<forall>c \<in> set s. hex_digit c \<noteq> None) \<and> hex_value 0 s \<le> 0xFFFF
      then Some (out @ [uchar (hex_value 0 s div 256), uchar (hex_value 0 s)]) else None)"
proof (cases "(\<forall>c \<in> set s. hex_digit c \<noteq> None) \<and> hex_value 0 s \<le> 0xFFFF")
  case True
  then have u: "unat (of_nat (hex_value 0 s) :: 32 word) = hex_value 0 s"
    by (intro unat_small) simp
  have "parse_hex_loop s 0 = Some (of_nat (hex_value 0 s))"
    using True parse_hex_loop_eq [of 0 s] by simp
  with True show ?thesis
    by (simp add: ipv6_parse_hex_def low_byte_def uchar_def unat_drop_bit unat_and_FF u
        del: unsigned_of_nat)
next
  case False
  then have "parse_hex_loop s 0 = None" using parse_hex_loop_eq [of 0 s] by auto
  with False show ?thesis by (auto simp: ipv6_parse_hex_def)
qed

section \<open>Lemmas: dotted quads\<close>

lemma dec_value_ge: "v \<le> dec_value v cs"
proof (induction cs arbitrary: v)
  case (Cons c cs)
  have "v \<le> v * 10 + (code c - 48)" by simp
  also have "\<dots> \<le> dec_value (v * 10 + (code c - 48)) cs" by (rule Cons)
  finally show ?case by (simp add: dec_value_def)
qed (simp add: dec_value_def)

text \<open>The loop on numbers: the finished fields as a list, one word of the code per field.\<close>

fun quad :: "bytes \<Rightarrow> nat \<Rightarrow> bool \<Rightarrow> nat list \<Rightarrow> nat list option" where
  "quad [] v seen fs = (if length fs = 3 \<and> seen then Some (fs @ [v]) else None)"
| "quad (c # cs) v seen fs =
     (if c = CHR ''.'' then if \<not> seen \<or> length fs = 3 then None else quad cs 0 False (fs @ [v])
      else if dec_digit c then
        if v * 10 + (code c - 48) > 255 then None else quad cs (v * 10 + (code c - 48)) True fs
      else None)"

definition pack :: "nat list \<Rightarrow> nat" where
  "pack fs = foldl (\<lambda>a f. a * 256 + f) 0 fs"

lemma pack_less: "\<forall>f \<in> set fs. f < 256 \<Longrightarrow> pack fs < 256 ^ length fs"
  by (induction fs rule: rev_induct) (auto simp: pack_def)

definition quad_bytes :: "nat list \<Rightarrow> bytes" where
  "quad_bytes fs = map uchar fs"

lemma uchar_shift: "uchar (x * 256 + y) = uchar y"
  by (simp add: uchar_def)

lemma unpack4:
  assumes "a \<le> 255" and "b \<le> 255" and "c \<le> 255" and "d \<le> 255"
  defines "n \<equiv> pack [a, b, c, d]"
  shows "uchar (n div 2 ^ 24) = uchar a" and "uchar (n div 2 ^ 16) = uchar b"
    and "uchar (n div 2 ^ 8) = uchar c" and "uchar n = uchar d"
proof -
  have n: "n = ((a * 256 + b) * 256 + c) * 256 + d" by (simp add: n_def pack_def)
  have n8: "n div 2 ^ 8 = (a * 256 + b) * 256 + c" using assms(4) by (simp add: n)
  have n16: "n div 2 ^ 16 = a * 256 + b"
    using assms(3) n8 div_mult2_eq [of n "2 ^ 8" "2 ^ 8"] by simp
  have n24: "n div 2 ^ 24 = a"
    using assms(2) n16 div_mult2_eq [of n "2 ^ 16" "2 ^ 8"] by simp
  show "uchar (n div 2 ^ 24) = uchar a" "uchar (n div 2 ^ 16) = uchar b"
    "uchar (n div 2 ^ 8) = uchar c" "uchar n = uchar d"
    unfolding n24 n16 n8 unfolding n by (simp_all only: uchar_shift)
qed

lemma dotquad_loop_quad:
  assumes "unat val \<le> 255" and "\<forall>f \<in> set fs. f < 256" and "length fs \<le> 3"
    and "unat final = pack fs"
  shows "(case dotquad_loop cs val final seen (length fs) of
            None \<Rightarrow> None
          | Some (v, f, sn, d) \<Rightarrow> if d \<noteq> 3 \<or> \<not> sn then None else Some (unat ((push_bit 8 f) OR v))) =
         map_option pack (quad cs (unat val) seen fs)"
  using assms
proof (induction cs arbitrary: val final seen fs)
  case Nil
  then have "pack fs < 256 ^ 3"
    using pack_less [of fs] power_increasing [of "length fs" 3 "256 :: nat"] by linarith
  with Nil have "unat (push_bit 8 final OR val) = pack fs * 256 + unat val"
    by (subst shift_or_unat) simp_all
  then show ?case by (simp add: pack_def)
next
  case (Cons c cs)
  consider (dot) "c = CHR ''.''" "seen" "length fs \<noteq> 3" | (bad) "c = CHR ''.''" "\<not> seen \<or> length fs = 3"
    | (digit) "c \<noteq> CHR ''.''" "dec_digit c" | (other) "c \<noteq> CHR ''.''" "\<not> dec_digit c" by blast
  then show ?case
  proof cases
    case dot
    have "pack fs < 256 ^ 2"
      using pack_less [of fs] Cons.prems(2,3) dot(3) power_increasing [of "length fs" 2 "256 :: nat"]
      by linarith
    with Cons.prems have u: "unat (push_bit 8 final OR val) = pack (fs @ [unat val])"
      by (subst shift_or_unat) (simp_all add: pack_def)
    have "(case dotquad_loop cs 0 (push_bit 8 final OR val) False (length (fs @ [unat val])) of
            None \<Rightarrow> None
          | Some (v, f, sn, d) \<Rightarrow> if d \<noteq> 3 \<or> \<not> sn then None else Some (unat ((push_bit 8 f) OR v))) =
         map_option pack (quad cs (unat (0 :: 32 word)) False (fs @ [unat val]))"
      by (rule Cons.IH) (use Cons.prems dot u in auto)
    with dot show ?thesis by simp
  next
    case digit
    have d: "code c - 48 \<le> 9" using digit(2) unfolding dec_digit_def by linarith
    have u: "unat (val * 10 + of_nat (code c - 48)) = unat val * 10 + (code c - 48)"
    proof -
      have "val * 10 + of_nat (code c - 48) = (of_nat (unat val * 10 + (code c - 48)) :: 32 word)"
        by simp
      also have "unat \<dots> = unat val * 10 + (code c - 48)"
        by (rule unat_small) (use Cons.prems(1) d in simp)
      finally show ?thesis .
    qed
    have big: "val * 10 + of_nat (code c - 48) > 255 \<longleftrightarrow> unat val * 10 + (code c - 48) > 255"
      unfolding word_less_nat_alt u by simp
    have "code c \<ge> 48 \<and> code c \<le> 57" using digit(2) by (simp add: dec_digit_def)
    with digit big Cons.IH [of "val * 10 + of_nat (code c - 48)" fs final True] Cons.prems u
    show ?thesis by (simp add: Let_def del: of_nat_diff)
  qed (use Cons.prems in \<open>auto simp: dec_digit_def\<close>)
qed

lemma quad_iff:
  "v \<le> 255 \<Longrightarrow> length fs \<le> 3 \<Longrightarrow>
   quad cs v seen fs = Some r \<longleftrightarrow>
     (let gs = pieces CHR ''.'' cs in
      length fs + length gs = 4 \<and> (\<forall>c \<in> set (hd gs). dec_digit c) \<and> (seen \<or> hd gs \<noteq> []) \<and>
      dec_value v (hd gs) \<le> 255 \<and> (\<forall>g \<in> set (tl gs). quad_field g) \<and>
      r = fs @ dec_value v (hd gs) # map (dec_value 0) (tl gs))"
proof (induction cs arbitrary: v seen fs)
  case Nil
  then show ?case by (auto simp: dec_value_def)
next
  case (Cons c cs)
  obtain g gs where f: "pieces CHR ''.'' cs = g # gs" by (cases "pieces CHR ''.'' cs") auto
  show ?case
  proof (cases "c = CHR ''.''")
    case True
    have "length fs < 3 \<Longrightarrow> quad cs 0 False (fs @ [v]) = Some r \<longleftrightarrow>
        (length fs + length (g # gs) = 3 \<and> quad_field g \<and> (\<forall>g \<in> set gs. quad_field g) \<and>
         r = fs @ v # dec_value 0 g # map (dec_value 0) gs)"
      using Cons.IH [of 0 "fs @ [v]" False] Cons.prems f by (auto simp: Let_def quad_field_def)
    with True Cons.prems f show ?thesis by (auto simp: Let_def dec_value_def)
  next
    case False
    define v' where "v' = v * 10 + (code c - 48)"
    have "dec_value v (c # g) = dec_value v' g" by (simp add: dec_value_def v'_def)
    moreover have "v' > 255 \<Longrightarrow> \<not> dec_value v' g \<le> 255" using dec_value_ge [of v' g] by linarith
    ultimately show ?thesis
      using False Cons.IH [of v' fs True] Cons.prems f by (auto simp: Let_def v'_def [symmetric])
  qed
qed

lemma ipv4_parse_dotquad_eq:
  "ipv4_parse_dotquad out s =
     (let gs = pieces CHR ''.'' s in
      if length gs = 4 \<and> (\<forall>g \<in> set gs. quad_field g) then Some (out @ map (uchar \<circ> dec_value 0) gs)
      else None)"
proof -
  define gs where "gs = pieces CHR ''.'' s"
  have ne: "gs = hd gs # tl gs" by (simp add: gs_def)
  have q: "quad s 0 False [] = Some r \<longleftrightarrow>
      length gs = 4 \<and> (\<forall>g \<in> set gs. quad_field g) \<and> r = map (dec_value 0) gs" for r
  proof -
    obtain h t where "gs = h # t" using ne by blast
    then show ?thesis using quad_iff [of 0 "[]" s False r] by (auto simp: Let_def gs_def quad_field_def)
  qed
  define W where "W = (case dotquad_loop s 0 0 False 0 of None \<Rightarrow> None
     | Some (v, f, sn, d) \<Rightarrow> if d \<noteq> 3 \<or> \<not> sn then None else Some (unat ((push_bit 8 f) OR v)))"
  have W: "W = map_option pack (quad s 0 False [])"
    using dotquad_loop_quad [of 0 "[]" 0 s False] by (simp add: W_def pack_def)
  have out: "ipv4_parse_dotquad out s = map_option (\<lambda>n. out @
      [uchar (n div 2 ^ 24), uchar (n div 2 ^ 16), uchar (n div 2 ^ 8), uchar n]) W"
    by (auto simp: ipv4_parse_dotquad_def W_def Let_def low_byte_def uchar_def unat_drop_bit
        unat_and_FF split: option.split)
  show ?thesis
  proof (cases "length gs = 4 \<and> (\<forall>g \<in> set gs. quad_field g)")
    case True
    then obtain a b c d where gs: "gs = [a, b, c, d]"
      by (auto simp: numeral_eq_Suc length_Suc_conv)
    have W': "W = Some (pack (map (dec_value 0) gs))" using q True W by simp
    have "\<forall>g \<in> set gs. dec_value 0 g \<le> 255" using True by (simp add: quad_field_def)
    then have lt: "dec_value 0 a \<le> 255" "dec_value 0 b \<le> 255" "dec_value 0 c \<le> 255" "dec_value 0 d \<le> 255"
      by (simp_all add: gs)
    have "ipv4_parse_dotquad out s = Some (out @ map (uchar \<circ> dec_value 0) gs)"
      unfolding out W' gs using unpack4 [OF lt] by simp
    with True show ?thesis by (simp add: gs_def [symmetric] Let_def)
  next
    case False
    then have "quad s 0 False [] = None" using q by (cases "quad s 0 False []") auto
    with False W out show ?thesis by (simp add: gs_def [symmetric] Let_def)
  qed
qed

section \<open>Lemmas: IPv6\<close>

text \<open>A field between colons: a dotted quad or up to 16 bits in hexadecimal.\<close>

definition v6_ok :: "bytes \<Rightarrow> bool" where
  "v6_ok g \<longleftrightarrow> g \<noteq> [] \<and>
     (if CHR ''.'' \<in> set g
      then length (pieces CHR ''.'' g) = 4 \<and> (\<forall>f \<in> set (pieces CHR ''.'' g). quad_field f)
      else (\<forall>c \<in> set g. hex_digit c \<noteq> None) \<and> hex_value 0 g \<le> 0xFFFF)"

definition v6_bytes :: "bytes \<Rightarrow> bytes" where
  "v6_bytes g =
     (if CHR ''.'' \<in> set g then map (uchar \<circ> dec_value 0) (pieces CHR ''.'' g)
      else [uchar (hex_value 0 g div 256), uchar (hex_value 0 g)])"

text \<open>The fields of one side of the address; one trailing colon is tolerated.\<close>

definition v6_fields :: "bytes \<Rightarrow> bytes list" where
  "v6_fields s =
     (let gs = pieces CHR '':'' s in if last gs = [] then butlast gs else gs)"

lemma v6_fields_Nil [simp]: "v6_fields [] = []"
  by (simp add: v6_fields_def)

lemma v6_fields_split:
  assumes "v_split_char s CHR '':'' = (lhs, rhs)" and "s \<noteq> []"
  shows "v6_fields s = lhs # v6_fields rhs"
proof (cases "CHR '':'' \<in> set s")
  case True
  then have "pieces CHR '':'' s = lhs # pieces CHR '':'' rhs"
    using split_char_pieces(2) [OF _ assms(1)] by simp
  then show ?thesis by (simp add: v6_fields_def Let_def)
next
  case False
  then have "lhs = s" "rhs = []" using split_char_pieces(3) [OF _ assms(1)] by simp_all
  with False assms(2) show ?thesis by (simp add: v6_fields_def pieces_no_sep)
qed

lemma parse_field_eq:
  assumes "g \<noteq> []"
  shows "(if found (str_locate_char g CHR ''.'') then ipv4_parse_dotquad out g
          else ipv6_parse_hex out g) = (if v6_ok g then Some (out @ v6_bytes g) else None)"
  using assms
  by (simp add: str_locate_char_found ipv4_parse_dotquad_eq ipv6_parse_hex_eq v6_ok_def v6_bytes_def
      Let_def)

lemma ipv6_parse_main_eq:
  "ipv6_parse_main out s =
     (if \<forall>g \<in> set (v6_fields s). v6_ok g then Some (out @ concat (map v6_bytes (v6_fields s))) else None)"
proof (induction out s rule: ipv6_parse_main.induct)
  case (1 out s)
  show ?case
  proof (cases "s = []")
    case True
    then show ?thesis by (subst ipv6_parse_main.simps) simp
  next
    case False
    obtain lhs rhs where sp: "v_split_char s CHR '':'' = (lhs, rhs)" by fastforce
    have f: "v6_fields s = lhs # v6_fields rhs" using sp False by (rule v6_fields_split)
    show ?thesis
    proof (cases "lhs = []")
      case True
      then have "\<not> v6_ok lhs" by (simp add: v6_ok_def)
      with True False sp f show ?thesis by (subst ipv6_parse_main.simps) simp
    next
      case lhs: False
      note eq = parse_field_eq [OF lhs, of out]
      have "v6_ok lhs \<Longrightarrow> ipv6_parse_main (out @ v6_bytes lhs) rhs =
          (if \<forall>g \<in> set (v6_fields rhs). v6_ok g
           then Some ((out @ v6_bytes lhs) @ concat (map v6_bytes (v6_fields rhs))) else None)"
        by (rule "1") (use False lhs sp eq in auto)
      with False lhs sp f eq show ?thesis
        by (subst ipv6_parse_main.simps) (simp split: if_split_asm)
    qed
  qed
qed

lemma length_v6_bytes: "v6_ok g \<Longrightarrow> length (v6_bytes g) \<ge> 2"
  by (auto simp: v6_ok_def v6_bytes_def)

section \<open>Lemmas: separated numbers\<close>

lemma str_atoi_digits: "n \<le> 255 \<Longrightarrow> str_atoi (digits_of 10 n) = int n"
  using strtol_value_digits(1) [of n]
  by (simp add: str_atoi_def vsf_sysutil_atoi_def signed_of_nat signed_take_bit_int_eq_self)

text \<open>Numbers printed in decimal with a separator between them.\<close>

fun print_sep :: "char \<Rightarrow> nat list \<Rightarrow> bytes" where
  "print_sep sep [] = []"
| "print_sep sep [n] = digits_of 10 n"
| "print_sep sep (n # m # ns) = digits_of 10 n @ sep # print_sep sep (m # ns)"

lemma sep_not_in_digits: "\<not> dec_digit sep \<Longrightarrow> sep \<notin> set (digits_of 10 n)"
  using digits_of_code [of 10 sep n] by (auto simp: dec_digit_def)

lemma print_sep_not_Nil: "ns \<noteq> [] \<Longrightarrow> print_sep sep ns \<noteq> []"
  by (cases "(sep, ns)" rule: print_sep.cases) auto

lemma uchar_sep_loop_print:
  assumes "sep \<noteq> NUL" and "\<not> dec_digit sep"
  shows "ns \<noteq> [] \<Longrightarrow> \<forall>n \<in> set ns. n \<le> 255 \<Longrightarrow> length ns \<le> items \<Longrightarrow>
    uchar_sep_loop (length ns) items sep (print_sep sep ns) acc = Some (acc @ map uchar ns)"
proof (induction ns arbitrary: acc rule: induct_list012)
  case (2 n)
  have "v_split_char (digits_of 10 n) sep = (digits_of 10 n, [])"
    by (rule v_split_char_missing) (use assms sep_not_in_digits in auto)
  with 2 show ?case by (simp add: str_atoi_digits)
next
  case (3 n m ns)
  have "v_split_char (digits_of 10 n @ sep # print_sep sep (m # ns)) sep = (digits_of 10 n, print_sep sep (m # ns))"
    by (rule v_split_char_hit) (use assms sep_not_in_digits in auto)
  moreover have "print_sep sep (m # ns) \<noteq> []" by (rule print_sep_not_Nil) simp
  moreover have "uchar_sep_loop (length (m # ns)) items sep (print_sep sep (m # ns)) (acc @ [uchar n]) =
      Some ((acc @ [uchar n]) @ map uchar (m # ns))"
    using 3 by (intro "3.IH"(2)) auto
  ultimately show ?case using "3.prems" by (auto simp: str_atoi_digits)
qed simp

lemma uchar_sep_loop_length: "uchar_sep_loop k items sep s acc = Some r \<Longrightarrow> length r = length acc + k"
  by (induction k arbitrary: s acc) (fastforce simp: Let_def split: prod.splits if_splits)+

section \<open>Properties\<close>

text \<open>\<^verbatim>\<open>vsf_sysutil_parse_uchar_string_sep\<close>, the parser behind PORT and dotted IPv4
  addresses: an accepted text gives exactly the number of bytes asked for, and numbers up to 255
  printed with the separator are read back as those bytes, for any number of fields.\<close>

theorem parse_uchar_string_sep_roundtrip:
  assumes "sep \<noteq> NUL" and "\<not> dec_digit sep" and "ns \<noteq> []" and "\<forall>n \<in> set ns. n \<le> 255"
  shows "vsf_sysutil_parse_uchar_string_sep (print_sep sep ns) sep (length ns) = Some (map uchar ns) \<and>
         (\<forall>s r. vsf_sysutil_parse_uchar_string_sep s sep items = Some r \<longrightarrow> length r = items)"
  using uchar_sep_loop_print [OF assms, of "length ns" "[]"]
  by (auto simp: vsf_sysutil_parse_uchar_string_sep_def dest: uchar_sep_loop_length)

theorem parse_uchar_string_sep_roundtrip_witness:
  "vsf_sysutil_parse_uchar_string_sep (print_sep CHR '','' [127, 0, 0, 1, 255, 9]) CHR '','' 6 =
     Some (map uchar [127, 0, 0, 1, 255, 9])"
proof -
  have "CHR '','' \<noteq> NUL" "\<not> dec_digit CHR '',''" "[127, 0, 0, 1, 255, 9 :: nat] \<noteq> []"
    "\<forall>n \<in> set [127, 0, 0, 1, 255, 9 :: nat]. n \<le> 255"
    by (simp_all add: dec_digit_def code_def)
  from parse_uchar_string_sep_roundtrip [OF this] show ?thesis by (simp add: numeral_eq_Suc)
qed

text \<open>\<^verbatim>\<open>ipv4_parse_dotquad\<close> accepts exactly the texts of four dot-separated decimal fields,
  each non-empty, of digits only and at most 255, and then appends the four bytes; the 32-bit
  accumulator never overflows.\<close>

theorem dotquad_exact:
  "ipv4_parse_dotquad out s = Some r \<longleftrightarrow>
     length (pieces CHR ''.'' s) = 4 \<and> (\<forall>g \<in> set (pieces CHR ''.'' s). quad_field g) \<and>
     r = out @ map (uchar \<circ> dec_value 0) (pieces CHR ''.'' s)"
  by (auto simp: ipv4_parse_dotquad_eq Let_def)

theorem dotquad_exact_witness:
  "ipv4_parse_dotquad [] ''10.0.255.7'' = Some (map uchar [10, 0, 255, 7])"
proof -
  have "pieces CHR ''.'' ''10.0.255.7'' = [''10'', ''0'', ''255'', ''7'']" by code_simp
  then show ?thesis
    unfolding dotquad_exact by (simp add: quad_field_def dec_digit_def dec_value_def code_def)
qed

text \<open>C36: what \<^verbatim>\<open>vsf_sysutil_parse_ipv6\<close> accepts and returns. A text is accepted exactly when every
  colon-separated field on both sides of the first double colon is a 16-bit hexadecimal number or a
  dotted quad (a colon at the end of a side is ignored, and a side may be empty) and the two sides have
  at most 16 bytes together. With something right of the double colon the result is exactly 16 bytes,
  the gap filled with zeros. With nothing there, or without a double colon, the result is not filled:
  it is the bytes of the left side alone, which may be fewer than 16, where \<^verbatim>\<open>inet_pton\<close> would fill the
  address or refuse it (\<open>parse_ipv6_short\<close>).\<close>

theorem parse_ipv6_exact:
  assumes "v_split_text p_str ''::'' = (lhs, rhs)"
  defines "L \<equiv> concat (map v6_bytes (v6_fields lhs))" and "R \<equiv> concat (map v6_bytes (v6_fields rhs))"
  shows "vsf_sysutil_parse_ipv6 p_str = Some r \<longleftrightarrow>
     (\<forall>g \<in> set (v6_fields lhs) \<union> set (v6_fields rhs). v6_ok g) \<and> length L + length R \<le> 16 \<and>
     (if rhs = [] then r = L else r = L @ replicate (16 - (length L + length R)) NUL @ R \<and> length r = 16)"
proof -
  have "rhs \<noteq> [] \<Longrightarrow> \<forall>g \<in> set (v6_fields rhs). v6_ok g \<Longrightarrow> R \<noteq> []"
  proof -
    assume "rhs \<noteq> []" and ok: "\<forall>g \<in> set (v6_fields rhs). v6_ok g"
    obtain l r where "v_split_char rhs CHR '':'' = (l, r)" by fastforce
    then have "v6_fields rhs = l # v6_fields r" using \<open>rhs \<noteq> []\<close> by (rule v6_fields_split)
    then show "R \<noteq> []" using ok length_v6_bytes [of l] by (auto simp: R_def)
  qed
  then show ?thesis
    unfolding vsf_sysutil_parse_ipv6_def assms(1) ipv6_parse_main_eq
    by (auto simp: L_def R_def ball_Un)
qed

theorem parse_ipv6_exact_witness:
  "vsf_sysutil_parse_ipv6 ''fe80::1'' = Some ([uchar 0xFE, uchar 0x80] @ replicate 12 NUL @ [uchar 0, uchar 1])"
proof -
  have sp: "v_split_text ''fe80::1'' ''::'' = (''fe80'', ''1'')" by code_simp
  have f: "v6_fields ''fe80'' = [''fe80'']" "v6_fields ''1'' = [''1'']" by code_simp+
  have b: "v6_ok ''fe80''" "v6_ok ''1''" "v6_bytes ''fe80'' = [uchar 0xFE, uchar 0x80]"
    "v6_bytes ''1'' = [uchar 0, uchar 1]"
    by (simp_all add: v6_ok_def v6_bytes_def hex_value_def hex_digit_def vsf_sysutil_toupper_def code_def uchar_def)
  show ?thesis unfolding parse_ipv6_exact [OF sp] f by (simp add: b)
qed

text \<open>An address with nothing after the double colon, or without one, is returned with fewer than
  the 16 bytes that \<^verbatim>\<open>vsf_sysutil_sockaddr_set_ipv6addr\<close> then copies.\<close>

lemma parse_ipv6_short: "vsf_sysutil_parse_ipv6 ''fe80::'' = Some [uchar 0xFE, uchar 0x80]"
proof -
  have "v_split_text ''fe80::'' ''::'' = (''fe80'', [])" by code_simp
  moreover have "v6_fields ''fe80'' = [''fe80'']" by code_simp
  ultimately show ?thesis
    by (simp add: vsf_sysutil_parse_ipv6_def ipv6_parse_main_eq v6_ok_def v6_bytes_def hex_value_def
        hex_digit_def vsf_sysutil_toupper_def code_def uchar_def)
qed

end
