(* ===== verification/Hash.thy ===== *)
theory Hash
  imports Sysutil
begin

text \<open>
  \<^verbatim>\<open>hash.c\<close>: the hash table of the listener, with its nodes on an explicit heap of cells linked
  by \<^verbatim>\<open>p_prev\<close>/\<^verbatim>\<open>p_next\<close> pointers. Following a pointer to no cell is \<open>Segv\<close>; a chain that never ends
  is the value \<open>None\<close> of the search loop. Keys and values are blocks of \<^verbatim>\<open>key_size\<close> and
  \<^verbatim>\<open>value_size\<close> bytes; a lookup returns the address of the node, and writing through the returned
  value pointer is \<open>store_value\<close>. The locale \<open>table\<close> is the interface the listener uses: a partial
  map from keys to values.
\<close>

type_synonym addr = nat

record hash_node =
  p_key :: bytes
  p_value :: bytes
  p_prev :: "addr option"
  p_next :: "addr option"

type_synonym node_heap = "addr \<Rightarrow> hash_node option"

record hash =
  buckets :: nat
  key_size :: nat
  value_size :: nat
  hash_func :: "nat \<Rightarrow> bytes \<Rightarrow> nat"
  p_nodes :: "addr option list"
  heap :: node_heap

text \<open>A run that may also never return.\<close>

type_synonym 'a run = "'a res option"

fun run_bind :: "'a run \<Rightarrow> ('a \<Rightarrow> 'b run) \<Rightarrow> 'b run" where
  "run_bind None k = None"
| "run_bind (Some (Inl f)) k = Some (Inl f)"
| "run_bind (Some (Inr a)) k = k a"

definition hash_alloc ::
  "allocator \<Rightarrow> nat \<Rightarrow> nat \<Rightarrow> nat \<Rightarrow> (nat \<Rightarrow> bytes \<Rightarrow> nat) \<Rightarrow> hash res" where
  "hash_alloc A n_buckets k_size v_size func =
     res_bind (vsf_sysutil_malloc A 40) (\<lambda>_.
     res_bind (vsf_sysutil_malloc A (u32 (8 * n_buckets))) (\<lambda>_.
     Inr \<lparr>buckets = n_buckets, key_size = k_size, value_size = v_size, hash_func = func,
          p_nodes = replicate (u32 (8 * n_buckets) div 8) None, heap = (\<lambda>_. None)\<rparr>))"

definition hash_get_bucket :: "hash \<Rightarrow> bytes \<Rightarrow> nat res" where
  "hash_get_bucket p_hash key =
     (let bucket = hash_func p_hash (buckets p_hash) key in
      if bucket \<ge> buckets p_hash then bug ''bad bucket lookup''
      else if bucket < length (p_nodes p_hash) then Inr bucket else Inl Segv)"

partial_function (option) walk ::
  "node_heap \<Rightarrow> bytes \<Rightarrow> nat \<Rightarrow> addr option \<Rightarrow> addr option run" where
  "walk H key ks p_node =
     (if p_node = None then Some (Inr None)
      else if H (the p_node) = None then Some (Inl Segv)
      else if vsf_sysutil_memcmp (take ks key) (take ks (p_key (the (H (the p_node))))) \<noteq> 0
      then walk H key ks (p_next (the (H (the p_node))))
      else Some (Inr p_node))"

definition hash_get_node_by_key :: "hash \<Rightarrow> bytes \<Rightarrow> addr option run" where
  "hash_get_node_by_key p_hash key =
     run_bind (Some (hash_get_bucket p_hash key)) (\<lambda>b.
     walk (heap p_hash) key (key_size p_hash) (p_nodes p_hash ! b))"

definition hash_lookup_entry :: "hash \<Rightarrow> bytes \<Rightarrow> addr option run" where
  "hash_lookup_entry p_hash key = hash_get_node_by_key p_hash key"

text \<open>A new block of \<open>sz\<close> bytes filled from \<open>src\<close>.\<close>

definition copy_new :: "allocator \<Rightarrow> nat \<Rightarrow> bytes \<Rightarrow> bytes res" where
  "copy_new A sz src =
     res_bind (vsf_sysutil_malloc A sz) (\<lambda>blk.
     if length src < sz then Inl Segv
     else res_bind (vsf_sysutil_memcpy (Some blk) 0 (take sz src)) (\<lambda>b. Inr (the b)))"

text \<open>Writes to the fields of a node through its address.\<close>

definition set_next :: "node_heap \<Rightarrow> addr \<Rightarrow> addr option \<Rightarrow> node_heap res" where
  "set_next H a q =
     (case H a of None \<Rightarrow> Inl Segv | Some n \<Rightarrow> Inr (H(a := Some (n\<lparr>p_next := q\<rparr>))))"

definition set_prev :: "node_heap \<Rightarrow> addr \<Rightarrow> addr option \<Rightarrow> node_heap res" where
  "set_prev H a q =
     (case H a of None \<Rightarrow> Inl Segv | Some n \<Rightarrow> Inr (H(a := Some (n\<lparr>p_prev := q\<rparr>))))"

text \<open>Linking a new node in front of a bucket; \<open>a\<close> is the address the allocation returned.\<close>

definition hash_add_entry :: "allocator \<Rightarrow> addr \<Rightarrow> hash \<Rightarrow> bytes \<Rightarrow> bytes \<Rightarrow> hash run" where
  "hash_add_entry A a p_hash key val =
     run_bind (hash_lookup_entry p_hash key) (\<lambda>present.
     if present \<noteq> None then Some (bug ''duplicate hash key'')
     else Some (
       res_bind (hash_get_bucket p_hash key) (\<lambda>b.
       res_bind (vsf_sysutil_malloc A 32) (\<lambda>_.
       res_bind (copy_new A (key_size p_hash) key) (\<lambda>k.
       res_bind (copy_new A (value_size p_hash) val) (\<lambda>v.
       let H = (heap p_hash)(a := Some \<lparr>p_key = k, p_value = v, p_prev = None, p_next = None\<rparr>) in
       case p_nodes p_hash ! b of
         None \<Rightarrow> Inr (p_hash\<lparr>heap := H, p_nodes := (p_nodes p_hash)[b := Some a]\<rparr>)
       | Some first \<Rightarrow>
           res_bind (set_next H a (Some first)) (\<lambda>H1.
           res_bind (set_prev H1 first (Some a)) (\<lambda>H2.
           Inr (p_hash\<lparr>heap := H2, p_nodes := (p_nodes p_hash)[b := Some a]\<rparr>)))))))))"

definition hash_free_entry :: "hash \<Rightarrow> bytes \<Rightarrow> hash run" where
  "hash_free_entry p_hash key =
     run_bind (hash_get_node_by_key p_hash key) (\<lambda>p_node.
     case p_node of
       None \<Rightarrow> Some (bug ''hash node not found'')
     | Some a \<Rightarrow> Some (
         case heap p_hash a of
           None \<Rightarrow> Inl Segv
         | Some n \<Rightarrow>
             res_bind
               (case p_prev n of
                  Some p \<Rightarrow> res_bind (set_next (heap p_hash) p (p_next n)) (\<lambda>H. Inr (p_hash\<lparr>heap := H\<rparr>))
                | None \<Rightarrow> res_bind (hash_get_bucket p_hash key) (\<lambda>b.
                    Inr (p_hash\<lparr>p_nodes := (p_nodes p_hash)[b := p_next n]\<rparr>))) (\<lambda>h1.
             res_bind
               (case p_next n of
                  Some q \<Rightarrow> res_bind (set_prev (heap h1) q (p_prev n)) (\<lambda>H. Inr (h1\<lparr>heap := H\<rparr>))
                | None \<Rightarrow> Inr h1) (\<lambda>h2.
             Inr (h2\<lparr>heap := (heap h2)(a := None)\<rparr>)))))"

text \<open>Reading and writing the value block behind the pointer a lookup returns.\<close>

definition load_value :: "hash \<Rightarrow> addr \<Rightarrow> bytes res" where
  "load_value p_hash a = (case heap p_hash a of None \<Rightarrow> Inl Segv | Some n \<Rightarrow> Inr (p_value n))"

definition store_value :: "hash \<Rightarrow> addr \<Rightarrow> bytes \<Rightarrow> hash res" where
  "store_value p_hash a v =
     (case heap p_hash a of
        None \<Rightarrow> Inl Segv
      | Some n \<Rightarrow> if length v \<noteq> length (p_value n) then Inl Segv
                  else Inr (p_hash\<lparr>heap := (heap p_hash)(a := Some (n\<lparr>p_value := v\<rparr>))\<rparr>))"

section \<open>Doubly linked segments\<close>

text \<open>\<open>seg H pr p as l q\<close>: from \<open>p\<close>, whose predecessor is \<open>pr\<close>, the nodes \<open>as\<close> in turn, the last of
  which is \<open>l\<close> (or \<open>pr\<close>) and points on to \<open>q\<close>.\<close>

fun seg :: "node_heap \<Rightarrow> addr option \<Rightarrow> addr option \<Rightarrow> addr list \<Rightarrow> addr option \<Rightarrow> addr option \<Rightarrow> bool" where
  "seg H pr p [] l q \<longleftrightarrow> l = pr \<and> q = p"
| "seg H pr p (a # as) l q \<longleftrightarrow>
     p = Some a \<and> (case H a of None \<Rightarrow> False
       | Some n \<Rightarrow> p_prev n = pr \<and> seg H (Some a) (p_next n) as l q)"

lemma seg_append:
  "seg H pr p (xs @ ys) l q \<longleftrightarrow> (\<exists>m r. seg H pr p xs m r \<and> seg H m r ys l q)"
  by (induction xs arbitrary: pr p) (auto split: option.splits)

lemma seg_frame [simp]: "a \<notin> set xs \<Longrightarrow> seg (H(a := x)) pr p xs l q = seg H pr p xs l q"
  by (induction xs arbitrary: pr p) (auto split: option.splits)

lemma seg_cong: "\<forall>a \<in> set xs. H a = H' a \<Longrightarrow> seg H pr p xs l q = seg H' pr p xs l q"
  by (induction xs arbitrary: pr p) (auto split: option.splits)

lemma seg_payload:
  "seg H pr p xs l q \<Longrightarrow> H a = Some n \<Longrightarrow> p_prev n' = p_prev n \<Longrightarrow> p_next n' = p_next n \<Longrightarrow>
   seg (H(a := Some n')) pr p xs l q"
  by (induction xs arbitrary: pr p) (auto split: option.splits if_splits)

lemma seg_last: "seg H pr p xs l q \<Longrightarrow> l = (if xs = [] then pr else Some (last xs))"
  by (induction xs arbitrary: pr p) (auto split: option.splits)

lemma seg_set_next:
  assumes "seg H pr p (xs @ [x]) l q" and "distinct (xs @ [x])" and "H x = Some n"
  shows "seg (H(x := Some (n\<lparr>p_next := q'\<rparr>))) pr p (xs @ [x]) l q'"
  using assms by (auto simp: seg_append split: option.splits)

lemma seg_set_prev:
  assumes "seg H pr p (y # ys) l q" and "distinct (y # ys)" and "H y = Some n"
  shows "seg (H(y := Some (n\<lparr>p_prev := pr'\<rparr>))) pr' p (y # ys) l q"
  using assms by (auto split: option.splits)

lemma seg_first: "seg H pr p xs l None \<Longrightarrow> p = (if xs = [] then None else Some (hd xs))"
  by (cases xs) auto

lemma walk_seg:
  "seg H pr p xs l None \<Longrightarrow> length key = ks \<Longrightarrow>
   \<forall>a \<in> set xs. \<exists>n. H a = Some n \<and> length (p_key n) = ks \<Longrightarrow>
   walk H key ks p = Some (Inr (find (\<lambda>a. p_key (the (H a)) = key) xs))"
proof (induction xs arbitrary: pr p)
  case Nil
  then show ?case by (subst walk.simps) simp
next
  case (Cons a xs)
  then obtain n where n: "p = Some a" "H a = Some n" "length (p_key n) = ks" "seg H (Some a) (p_next n) xs l None"
    by (auto split: option.splits)
  have "vsf_sysutil_memcmp key (p_key n) = 0 \<longleftrightarrow> p_key n = key"
    using n(3) Cons.prems(2) memcmp_0_iff [of key "p_key n"] by auto
  with n Cons show ?case by (subst walk.simps) auto
qed

section \<open>The table as a map\<close>

definition slot :: "hash \<Rightarrow> bytes \<Rightarrow> nat" where
  "slot h k = hash_func h (buckets h) k"

text \<open>\<open>ls b\<close> lists the nodes of bucket \<open>b\<close>: they are linked both ways, they are all the cells there
  are, each is in the bucket its key hashes to, and no two have the same key.\<close>

definition hash_inv :: "hash \<Rightarrow> (nat \<Rightarrow> addr list) \<Rightarrow> bool" where
  "hash_inv h ls \<longleftrightarrow>
     length (p_nodes h) = buckets h \<and>
     (\<forall>b < buckets h. distinct (ls b) \<and> (\<exists>l. seg (heap h) None (p_nodes h ! b) (ls b) l None)) \<and>
     (\<forall>a n. heap h a = Some n \<longrightarrow> length (p_key n) = key_size h \<and> length (p_value n) = value_size h \<and>
        slot h (p_key n) < buckets h \<and> a \<in> set (ls (slot h (p_key n)))) \<and>
     (\<forall>b < buckets h. \<forall>a \<in> set (ls b). \<exists>n. heap h a = Some n \<and> slot h (p_key n) = b) \<and>
     (\<forall>a a' n n'. heap h a = Some n \<longrightarrow> heap h a' = Some n' \<longrightarrow> p_key n = p_key n' \<longrightarrow> a = a')"

lemma hash_invD:
  assumes "hash_inv h ls"
  shows "length (p_nodes h) = buckets h"
    and "b < buckets h \<Longrightarrow> distinct (ls b)"
    and "b < buckets h \<Longrightarrow> \<exists>l. seg (heap h) None (p_nodes h ! b) (ls b) l None"
    and "heap h a = Some n \<Longrightarrow> length (p_key n) = key_size h \<and> length (p_value n) = value_size h \<and>
        slot h (p_key n) < buckets h \<and> a \<in> set (ls (slot h (p_key n)))"
    and "b < buckets h \<Longrightarrow> a \<in> set (ls b) \<Longrightarrow> \<exists>n. heap h a = Some n \<and> slot h (p_key n) = b"
    and "heap h a = Some n \<Longrightarrow> heap h a' = Some n' \<Longrightarrow> p_key n = p_key n' \<Longrightarrow> a = a'"
  using assms unfolding hash_inv_def by blast+

lemma hash_invI:
  assumes "length (p_nodes h) = buckets h"
    and "\<And>b. b < buckets h \<Longrightarrow> distinct (ls b)"
    and "\<And>b. b < buckets h \<Longrightarrow> \<exists>l. seg (heap h) None (p_nodes h ! b) (ls b) l None"
    and "\<And>a n. heap h a = Some n \<Longrightarrow> length (p_key n) = key_size h \<and> length (p_value n) = value_size h \<and>
        slot h (p_key n) < buckets h \<and> a \<in> set (ls (slot h (p_key n)))"
    and "\<And>a b. b < buckets h \<Longrightarrow> a \<in> set (ls b) \<Longrightarrow> \<exists>n. heap h a = Some n \<and> slot h (p_key n) = b"
    and "\<And>a a' n n'. heap h a = Some n \<Longrightarrow> heap h a' = Some n' \<Longrightarrow> p_key n = p_key n' \<Longrightarrow> a = a'"
  shows "hash_inv h ls"
  unfolding hash_inv_def using assms by blast

definition table_rep :: "hash \<Rightarrow> (bytes \<Rightarrow> bytes option) \<Rightarrow> bool" where
  "table_rep h m \<longleftrightarrow>
     (\<exists>ls. hash_inv h ls) \<and>
     (\<forall>k v. m k = Some v \<longleftrightarrow> (\<exists>a n. heap h a = Some n \<and> p_key n = k \<and> p_value n = v))"

text \<open>Arguments the table accepts: a key of the right size whose hash is in range.\<close>

definition good_key :: "hash \<Rightarrow> bytes \<Rightarrow> bool" where
  "good_key h k \<longleftrightarrow> length k = key_size h \<and> slot h k < buckets h"

lemma get_bucket_eq: "hash_inv h ls \<Longrightarrow> good_key h k \<Longrightarrow> hash_get_bucket h k = Inr (slot h k)"
  by (simp add: hash_get_bucket_def good_key_def slot_def hash_invD(1) Let_def)

text \<open>The search returns the one node with the key, and always returns.\<close>

lemma get_node_eq:
  assumes "hash_inv h ls" and "good_key h k"
  shows "\<exists>r. hash_get_node_by_key h k = Some (Inr r) \<and>
           (case r of None \<Rightarrow> \<forall>a n. heap h a = Some n \<longrightarrow> p_key n \<noteq> k
            | Some a \<Rightarrow> \<exists>n. heap h a = Some n \<and> p_key n = k)"
proof -
  let ?b = "slot h k"
  have b: "?b < buckets h" using assms(2) by (simp add: good_key_def)
  obtain l where sg: "seg (heap h) None (p_nodes h ! ?b) (ls ?b) l None"
    using hash_invD(3) [OF assms(1) b] by blast
  have nodes: "\<forall>a \<in> set (ls ?b). \<exists>n. heap h a = Some n \<and> length (p_key n) = key_size h"
    using hash_invD(5) [OF assms(1) b] hash_invD(4) [OF assms(1)] by blast
  let ?r = "find (\<lambda>a. p_key (the (heap h a)) = k) (ls ?b)"
  have "hash_get_node_by_key h k = Some (Inr ?r)"
    using walk_seg [OF sg _ nodes, of k] assms
    by (simp add: hash_get_node_by_key_def get_bucket_eq good_key_def)
  moreover have "case ?r of None \<Rightarrow> \<forall>a n. heap h a = Some n \<longrightarrow> p_key n \<noteq> k
            | Some a \<Rightarrow> \<exists>n. heap h a = Some n \<and> p_key n = k"
  proof (cases ?r)
    case None
    then have "\<forall>a \<in> set (ls ?b). p_key (the (heap h a)) \<noteq> k" by (simp add: find_None_iff)
    then show ?thesis using None hash_invD(4) [OF assms(1)] by fastforce
  next
    case (Some a)
    then have "a \<in> set (ls ?b)" "p_key (the (heap h a)) = k"
      by (auto simp: find_Some_iff)
    then show ?thesis using Some nodes by fastforce
  qed
  ultimately show ?thesis by blast
qed

lemma lookup_rep:
  assumes "table_rep h m" and "good_key h k"
  shows "(m k = None \<longrightarrow> hash_lookup_entry h k = Some (Inr None)) \<and>
         (\<forall>v. m k = Some v \<longrightarrow>
            (\<exists>a. hash_lookup_entry h k = Some (Inr (Some a)) \<and> load_value h a = Inr v))"
proof -
  obtain ls where inv: "hash_inv h ls" using assms(1) by (auto simp: table_rep_def)
  obtain r where r: "hash_get_node_by_key h k = Some (Inr r)"
    "case r of None \<Rightarrow> \<forall>a n. heap h a = Some n \<longrightarrow> p_key n \<noteq> k
       | Some a \<Rightarrow> \<exists>n. heap h a = Some n \<and> p_key n = k"
    using get_node_eq [OF inv assms(2)] by blast
  have m: "m k = Some v \<longleftrightarrow> (\<exists>a n. heap h a = Some n \<and> p_key n = k \<and> p_value n = v)" for v
    using assms(1) by (simp add: table_rep_def)
  show ?thesis
  proof (cases r)
    case None
    then show ?thesis using r m by (auto simp: hash_lookup_entry_def)
  next
    case (Some a)
    then obtain n where n: "heap h a = Some n" "p_key n = k" using r by auto
    then have "m k = Some (p_value n)" using m by blast
    with Some n r show ?thesis by (simp add: hash_lookup_entry_def load_value_def)
  qed
qed

section \<open>Writing through the value pointer\<close>

lemma store_rep:
  assumes "table_rep h m" and "good_key h k" and "hash_lookup_entry h k = Some (Inr (Some a))"
    and "length v = value_size h"
  shows "\<exists>h'. store_value h a v = Inr h' \<and> table_rep h' (m(k \<mapsto> v)) \<and>
           good_key h' = good_key h \<and> value_size h' = value_size h"
proof -
  obtain ls where inv: "hash_inv h ls" using assms(1) by (auto simp: table_rep_def)
  obtain n where n: "heap h a = Some n" "p_key n = k"
    using get_node_eq [OF inv assms(2)] assms(3) by (auto simp: hash_lookup_entry_def)
  let ?n' = "n\<lparr>p_value := v\<rparr>"
  let ?h' = "h\<lparr>heap := (heap h)(a := Some ?n')\<rparr>"
  have st: "store_value h a v = Inr ?h'"
    using n(1) hash_invD(4) [OF inv n(1)] assms(4) by (simp add: store_value_def)
  have slot: "slot ?h' = slot h" by (simp add: slot_def fun_eq_iff)
  have "seg (heap ?h') None (p_nodes h ! b) (ls b) l None"
    if "seg (heap h) None (p_nodes h ! b) (ls b) l None" for b l
    using seg_payload [OF that n(1), of ?n'] by simp
  note links = this
  have cell: "heap ?h' x = Some y \<Longrightarrow> \<exists>z. heap h x = Some z \<and> p_key z = p_key y \<and>
      p_value y = (if x = a then v else p_value z)" for x y
    using n by (auto split: if_splits)
  have "hash_inv ?h' ls"
  proof (rule hash_invI)
    show "length (p_nodes ?h') = buckets ?h'" using hash_invD(1) [OF inv] by simp
    show "distinct (ls b)" if "b < buckets ?h'" for b using hash_invD(2) [OF inv] that by simp
    show "\<exists>l. seg (heap ?h') None (p_nodes ?h' ! b) (ls b) l None" if "b < buckets ?h'" for b
      using hash_invD(3) [OF inv, of b] links that by auto
    show "length (p_key y) = key_size ?h' \<and> length (p_value y) = value_size ?h' \<and>
        slot ?h' (p_key y) < buckets ?h' \<and> x \<in> set (ls (slot ?h' (p_key y)))"
      if "heap ?h' x = Some y" for x y
      using cell [OF that] hash_invD(4) [OF inv, of x] assms(4) by (auto simp: slot)
    show "\<exists>y. heap ?h' x = Some y \<and> slot ?h' (p_key y) = b" if "b < buckets ?h'" "x \<in> set (ls b)" for x b
      using hash_invD(5) [OF inv, of b x] that n by (auto simp: slot)
    show "x = x'" if "heap ?h' x = Some y" "heap ?h' x' = Some y'" "p_key y = p_key y'" for x x' y y'
      using cell [OF that(1)] cell [OF that(2)] hash_invD(6) [OF inv] that(3) by metis
  qed
  moreover have "(m(k \<mapsto> v)) k' = Some v' \<longleftrightarrow>
      (\<exists>a' n'. heap ?h' a' = Some n' \<and> p_key n' = k' \<and> p_value n' = v')" for k' v'
  proof (cases "k' = k")
    case True
    have "heap ?h' a' = Some n' \<Longrightarrow> p_key n' = k \<Longrightarrow> p_value n' = v" for a' n'
      using cell [of a' n'] hash_invD(6) [OF inv n(1), of a'] n(2) by auto
    moreover have "heap ?h' a = Some ?n' \<and> p_key ?n' = k \<and> p_value ?n' = v" using n by simp
    ultimately show ?thesis using True by (metis fun_upd_same option.inject)
  next
    case False
    then have "heap ?h' a' = Some n' \<and> p_key n' = k' \<longleftrightarrow> heap h a' = Some n' \<and> p_key n' = k'" for a' n'
      using n by auto
    moreover have "m k' = Some v' \<longleftrightarrow> (\<exists>a' n'. heap h a' = Some n' \<and> p_key n' = k' \<and> p_value n' = v')"
      using assms(1) by (simp add: table_rep_def)
    ultimately show ?thesis using False by (metis fun_upd_other)
  qed
  ultimately show ?thesis using st slot by (auto simp: table_rep_def good_key_def fun_eq_iff)
qed

section \<open>Replacing the list of one bucket\<close>

text \<open>What a node holds besides its links.\<close>

definition payload :: "node_heap \<Rightarrow> addr \<Rightarrow> (bytes \<times> bytes) option" where
  "payload H a = map_option (\<lambda>n. (p_key n, p_value n)) (H a)"

lemma payload_Some: "payload H a = Some (k, v) \<longleftrightarrow> (\<exists>n. H a = Some n \<and> p_key n = k \<and> p_value n = v)"
  by (auto simp: payload_def)

lemma payload_None: "payload H a = None \<longleftrightarrow> H a = None"
  by (simp add: payload_def)

lemma payload_upd: "payload (H(a := Some n)) x = (if x = a then Some (p_key n, p_value n) else payload H x)"
  by (simp add: payload_def)

lemma table_rep_payload:
  "table_rep h m \<longleftrightarrow> (\<exists>ls. hash_inv h ls) \<and> (\<forall>k v. m k = Some v \<longleftrightarrow> (\<exists>a. payload (heap h) a = Some (k, v)))"
  by (simp add: table_rep_def payload_Some)

lemma bucket_replaced:
  assumes inv: "hash_inv h ls" and b: "b < buckets h"
    and xs: "distinct xs" "seg H None p xs l None"
    and other: "\<And>x b'. b' < buckets h \<Longrightarrow> b' \<noteq> b \<Longrightarrow> x \<in> set (ls b') \<Longrightarrow> H x = heap h x"
    and cells: "\<And>x k v. payload H x = Some (k, v) \<Longrightarrow> length k = key_size h \<and> length v = value_size h \<and>
      slot h k < buckets h \<and> x \<in> set ((ls(b := xs)) (slot h k))"
    and listed: "\<And>x. x \<in> set xs \<Longrightarrow> \<exists>k v. payload H x = Some (k, v) \<and> slot h k = b"
    and keys: "\<And>x x' k v v'. payload H x = Some (k, v) \<Longrightarrow> payload H x' = Some (k, v') \<Longrightarrow> x = x'"
  shows "hash_inv (h\<lparr>heap := H, p_nodes := (p_nodes h)[b := p]\<rparr>) (ls(b := xs))" (is "hash_inv ?h' ?ls")
proof (rule hash_invI)
  have slot: "slot ?h' = slot h" by (simp add: slot_def fun_eq_iff)
  show "length (p_nodes ?h') = buckets ?h'" using hash_invD(1) [OF inv] by simp
  show "distinct (?ls b')" if "b' < buckets ?h'" for b' using hash_invD(2) [OF inv] that xs by simp
  show "\<exists>l. seg (heap ?h') None (p_nodes ?h' ! b') (?ls b') l None" if b': "b' < buckets ?h'" for b'
  proof (cases "b' = b")
    case True
    then show ?thesis using xs(2) b hash_invD(1) [OF inv] by auto
  next
    case False
    then have "\<forall>x \<in> set (ls b'). H x = heap h x" using other b' by auto
    then show ?thesis using hash_invD(3) [OF inv, of b'] False b' seg_cong by fastforce
  qed
  show "length (p_key n) = key_size ?h' \<and> length (p_value n) = value_size ?h' \<and>
      slot ?h' (p_key n) < buckets ?h' \<and> x \<in> set (?ls (slot ?h' (p_key n)))"
    if "heap ?h' x = Some n" for x n
    unfolding slot using cells [of x "p_key n" "p_value n"] that by (auto simp: payload_Some)
  show "\<exists>n. heap ?h' x = Some n \<and> slot ?h' (p_key n) = b'"
    if "b' < buckets ?h'" "x \<in> set (?ls b')" for x b'
  proof (cases "b' = b")
    case True
    then show ?thesis using listed that unfolding slot by (auto simp: payload_Some)
  next
    case False
    then show ?thesis using hash_invD(5) [OF inv, of b' x] other that unfolding slot by auto
  qed
  show "x = x'" if "heap ?h' x = Some n" "heap ?h' x' = Some n'" "p_key n = p_key n'" for x x' n n'
    using keys [of x "p_key n" "p_value n" x' "p_value n'"] that by (auto simp: payload_Some)
qed

lemma inv_payload:
  assumes "hash_inv h ls"
  shows "payload (heap h) x = Some (k, v) \<Longrightarrow> length k = key_size h \<and> length v = value_size h \<and>
      slot h k < buckets h \<and> x \<in> set (ls (slot h k))"
    and "b < buckets h \<Longrightarrow> x \<in> set (ls b) \<Longrightarrow> \<exists>k v. payload (heap h) x = Some (k, v) \<and> slot h k = b"
    and "payload (heap h) x = Some (k, v) \<Longrightarrow> payload (heap h) x' = Some (k, v') \<Longrightarrow> x = x'"
  using hash_invD(4-6) [OF assms] unfolding payload_Some by blast+

lemma buckets_disjoint:
  "hash_inv h ls \<Longrightarrow> b < buckets h \<Longrightarrow> b' < buckets h \<Longrightarrow> x \<in> set (ls b) \<Longrightarrow> x \<in> set (ls b') \<Longrightarrow> b = b'"
  by (metis hash_invD(5) option.inject)

section \<open>Adding\<close>

lemma copy_new_ok:
  "allocates A \<Longrightarrow> 0 < sz \<Longrightarrow> sz \<le> INT_MAX \<Longrightarrow> length src = sz \<Longrightarrow> copy_new A sz src = Inr src"
  by (auto simp: copy_new_def vsf_sysutil_malloc_def vsf_sysutil_memcpy_def allocates_def
      split: option.split)

lemma malloc_ok: "allocates A \<Longrightarrow> 0 < sz \<Longrightarrow> sz \<le> INT_MAX \<Longrightarrow> \<exists>b. vsf_sysutil_malloc A sz = Inr b"
  by (auto simp: vsf_sysutil_malloc_def allocates_def split: option.split)

text \<open>The heap after a node with the given contents was linked in front.\<close>

lemma link_front:
  assumes "seg H None p xs l None" and "distinct xs" and "H a = None"
  shows "\<exists>H'. (case p of
          None \<Rightarrow> Inr (H(a := Some \<lparr>p_key = k, p_value = v, p_prev = None, p_next = None\<rparr>))
        | Some first \<Rightarrow> res_bind (set_next (H(a := Some \<lparr>p_key = k, p_value = v, p_prev = None, p_next = None\<rparr>)) a (Some first))
            (\<lambda>H1. set_prev H1 first (Some a))) = Inr H' \<and>
      (\<exists>l'. seg H' None (Some a) (a # xs) l' None) \<and>
      (\<forall>x. payload H' x = (if x = a then Some (k, v) else payload H x)) \<and>
      (\<forall>x. x \<noteq> a \<and> x \<notin> set xs \<longrightarrow> H' x = H x)"
proof (cases xs)
  case Nil
  with assms have "p = None" by simp
  with Nil show ?thesis by (auto simp: payload_def)
next
  case (Cons y ys)
  with assms obtain n where n: "p = Some y" "H y = Some n" by (auto split: option.splits)
  have ne: "y \<noteq> a" "a \<notin> set ys" using n assms(1,3) Cons
  proof -
    show "y \<noteq> a" using n assms(3) by auto
    have "seg H pr q zs l None \<Longrightarrow> a \<notin> set zs" for pr q zs
      using assms(3) by (induction zs arbitrary: pr q) (auto split: option.splits)
    then have "a \<notin> set xs" using assms(1) by blast
    then show "a \<notin> set ys" using Cons by simp
  qed
  let ?c = "\<lparr>p_key = k, p_value = v, p_prev = None, p_next = p\<rparr>"
  let ?H' = "H(a := Some ?c, y := Some (n\<lparr>p_prev := Some a\<rparr>))"
  have "seg (H(a := Some ?c)) None p (y # ys) l None"
    using assms(1) Cons ne by (auto split: option.splits)
  from seg_set_prev [OF this, of n "Some a"] assms(2) Cons n ne
  have "seg ?H' (Some a) p (y # ys) l None" by simp
  then have "seg ?H' None (Some a) (a # xs) l None" using Cons ne n by simp
  moreover have "payload ?H' x = (if x = a then Some (k, v) else payload H x)" for x
    using n ne by (auto simp: payload_def)
  moreover have "x \<noteq> a \<and> x \<notin> set xs \<longrightarrow> ?H' x = H x" for x using Cons by auto
  moreover have "res_bind (set_next (H(a := Some \<lparr>p_key = k, p_value = v, p_prev = None, p_next = None\<rparr>)) a (Some y))
      (\<lambda>H1. set_prev H1 y (Some a)) = Inr ?H'"
    using n ne by (simp add: set_next_def set_prev_def)
  ultimately show ?thesis using n by auto
qed

definition usable :: "hash \<Rightarrow> bool" where
  "usable h \<longleftrightarrow> 0 < key_size h \<and> key_size h \<le> INT_MAX \<and> 0 < value_size h \<and> value_size h \<le> INT_MAX"

lemma add_unfold:
  assumes "hash_inv h ls" and "good_key h k" and "hash_lookup_entry h k = Some (Inr None)"
    and "allocates A" and "usable h" and "length v = value_size h"
  shows "hash_add_entry A a h k v = Some (res_bind
      (case p_nodes h ! slot h k of
         None \<Rightarrow> Inr ((heap h)(a := Some \<lparr>p_key = k, p_value = v, p_prev = None, p_next = None\<rparr>))
       | Some first \<Rightarrow> res_bind (set_next ((heap h)(a := Some \<lparr>p_key = k, p_value = v, p_prev = None, p_next = None\<rparr>)) a (Some first))
           (\<lambda>H1. set_prev H1 first (Some a)))
      (\<lambda>H. Inr (h\<lparr>heap := H, p_nodes := (p_nodes h)[slot h k := Some a]\<rparr>)))"
proof -
  obtain blk where "vsf_sysutil_malloc A 32 = Inr blk" using malloc_ok [OF assms(4), of 32] by auto
  moreover have "copy_new A (key_size h) k = Inr k" "copy_new A (value_size h) v = Inr v"
    using assms by (auto intro!: copy_new_ok simp: usable_def good_key_def)
  ultimately show ?thesis
    using assms by (simp add: hash_add_entry_def get_bucket_eq Let_def res_bind_assoc split: option.split)
qed

lemma add_rep:
  assumes "table_rep h m" and "good_key h k" and "m k = None" and "heap h a = None"
    and "allocates A" and "usable h" and "length v = value_size h"
  shows "\<exists>h'. hash_add_entry A a h k v = Some (Inr h') \<and> table_rep h' (m(k \<mapsto> v)) \<and>
           good_key h' = good_key h \<and> usable h' \<and> value_size h' = value_size h"
proof -
  obtain ls where inv: "hash_inv h ls" using assms(1) by (auto simp: table_rep_def)
  define b where "b = slot h k"
  have b: "b < buckets h" "length k = key_size h" using assms(2) by (simp_all add: b_def good_key_def)
  have absent: "payload (heap h) x \<noteq> Some (k, w)" for x w
    using assms(1,3) by (metis option.distinct(1) table_rep_payload)
  obtain l where sg: "seg (heap h) None (p_nodes h ! b) (ls b) l None"
    using hash_invD(3) [OF inv b(1)] by blast
  have fresh: "a \<notin> set (ls b')" if "b' < buckets h" for b'
    using hash_invD(5) [OF inv that, of a] assms(4) by auto
  obtain H' l' where H': "(case p_nodes h ! b of
         None \<Rightarrow> Inr ((heap h)(a := Some \<lparr>p_key = k, p_value = v, p_prev = None, p_next = None\<rparr>))
       | Some first \<Rightarrow> res_bind (set_next ((heap h)(a := Some \<lparr>p_key = k, p_value = v, p_prev = None, p_next = None\<rparr>)) a (Some first))
           (\<lambda>H1. set_prev H1 first (Some a))) = Inr H'"
    and sg': "seg H' None (Some a) (a # ls b) l' None"
    and pay: "\<forall>x. payload H' x = (if x = a then Some (k, v) else payload (heap h) x)"
    and same: "\<forall>x. x \<noteq> a \<and> x \<notin> set (ls b) \<longrightarrow> H' x = heap h x"
    using link_front [OF sg hash_invD(2) [OF inv b(1)] assms(4)] by blast
  let ?h' = "h\<lparr>heap := H', p_nodes := (p_nodes h)[b := Some a]\<rparr>"
  have "hash_inv ?h' (ls(b := a # ls b))"
  proof (rule bucket_replaced [OF inv b(1) _ sg'])
    show "distinct (a # ls b)" using fresh [OF b(1)] hash_invD(2) [OF inv b(1)] by simp
    show "H' x = heap h x" if "b' < buckets h" "b' \<noteq> b" "x \<in> set (ls b')" for x b'
      using same fresh [OF that(1)] buckets_disjoint [OF inv b(1) that(1)] that by metis
    show "length k' = key_size h \<and> length w = value_size h \<and> slot h k' < buckets h \<and>
        x \<in> set ((ls(b := a # ls b)) (slot h k'))" if "payload H' x = Some (k', w)" for x k' w
      using inv_payload(1) [OF inv, of x k' w] pay that b assms(7) b_def by (auto split: if_splits)
    show "\<exists>k' w. payload H' x = Some (k', w) \<and> slot h k' = b" if "x \<in> set (a # ls b)" for x
      using inv_payload(2) [OF inv b(1), of x] pay that b_def by auto
    show "x = x'" if "payload H' x = Some (k', w)" "payload H' x' = Some (k', w')" for x x' k' w w'
      using inv_payload(3) [OF inv, of x k' w x' w'] pay that absent by (auto split: if_splits)
  qed
  moreover have "(m(k \<mapsto> v)) k' = Some w \<longleftrightarrow> (\<exists>x. payload H' x = Some (k', w))" for k' w
    using assms(1) pay absent assms(4) unfolding table_rep_payload
    by (auto simp: payload_None [symmetric] split: if_splits) (metis option.distinct(1))
  ultimately have "table_rep ?h' (m(k \<mapsto> v))" unfolding table_rep_payload by auto
  moreover have "hash_add_entry A a h k v = Some (Inr ?h')"
    using add_unfold [OF inv assms(2) _ assms(5,6,7), of a] lookup_rep [OF assms(1,2)] assms(3) H'
    by (simp add: b_def)
  ultimately show ?thesis using assms(6) by (auto simp: good_key_def slot_def usable_def fun_eq_iff)
qed

lemma add_present:
  assumes "table_rep h m" and "good_key h k" and "m k = Some w"
  shows "hash_add_entry A a h k v = Some (Inl (Oops ''duplicate hash key''))"
  using lookup_rep [OF assms(1,2)] assms(3) by (auto simp: hash_add_entry_def bug_def)

section \<open>Removing\<close>

definition prev_linked :: "node_heap \<Rightarrow> hash_node \<Rightarrow> node_heap res" where
  "prev_linked H n = (case p_prev n of Some q \<Rightarrow> set_next H q (p_next n) | None \<Rightarrow> Inr H)"

definition next_linked :: "node_heap \<Rightarrow> hash_node \<Rightarrow> node_heap res" where
  "next_linked H n = (case p_next n of Some q \<Rightarrow> set_prev H q (p_prev n) | None \<Rightarrow> Inr H)"

lemma seg_node: "seg H pr p xs l q \<Longrightarrow> x \<in> set xs \<Longrightarrow> \<exists>n. H x = Some n"
  by (induction xs arbitrary: pr p) (auto split: option.splits)

lemma prev_linked_seg:
  assumes "seg H None p xs (p_prev n) (Some a)" and "distinct xs" and "a \<notin> set xs"
  shows "\<exists>H1. prev_linked H n = Inr H1 \<and>
      seg H1 None (if p_prev n = None then p_next n else p) xs (p_prev n) (p_next n) \<and>
      payload H1 = payload H \<and> (\<forall>x. x \<notin> set xs \<longrightarrow> H1 x = H x)"
proof (cases xs rule: rev_cases)
  case Nil
  with assms show ?thesis by (auto simp: prev_linked_def)
next
  case (snoc zs z)
  then have z: "p_prev n = Some z" using seg_last [OF assms(1)] by simp
  obtain w where w: "H z = Some w" using seg_node [OF assms(1), of z] snoc by auto
  let ?H1 = "H(z := Some (w\<lparr>p_next := p_next n\<rparr>))"
  have "seg ?H1 None p xs (p_prev n) (p_next n)"
    using seg_set_next [of H None p zs z "p_prev n" "Some a" w "p_next n"] assms snoc w by simp
  moreover have "payload ?H1 = payload H" using w by (auto simp: payload_def fun_eq_iff)
  ultimately show ?thesis using z w snoc by (auto simp: prev_linked_def set_next_def)
qed

lemma next_linked_seg:
  assumes "seg H (Some a) (p_next n) ys l None" and "distinct ys"
  shows "\<exists>H1. next_linked H n = Inr H1 \<and> (\<exists>l'. seg H1 (p_prev n) (p_next n) ys l' None) \<and>
      payload H1 = payload H \<and> (\<forall>x. x \<notin> set ys \<longrightarrow> H1 x = H x)"
proof (cases ys)
  case Nil
  with assms show ?thesis by (auto simp: next_linked_def)
next
  case (Cons y zs)
  then have y: "p_next n = Some y" using assms(1) by simp
  obtain w where w: "H y = Some w" using seg_node [OF assms(1), of y] Cons by auto
  let ?H1 = "H(y := Some (w\<lparr>p_prev := p_prev n\<rparr>))"
  have "seg ?H1 (p_prev n) (p_next n) ys l None"
    using seg_set_prev [of H "Some a" "p_next n" y zs l None w "p_prev n"] assms Cons w by simp
  moreover have "payload ?H1 = payload H" using w by (auto simp: payload_def fun_eq_iff)
  ultimately show ?thesis using y w Cons by (auto simp: next_linked_def set_prev_def)
qed

lemma unlink:
  assumes sg: "seg H None p (xs @ a # ys) l None" and d: "distinct (xs @ a # ys)" and n: "H a = Some n"
  shows "\<exists>H1 H2 l'. prev_linked H n = Inr H1 \<and> next_linked H1 n = Inr H2 \<and>
      seg (H2(a := None)) None (if p_prev n = None then p_next n else p) (xs @ ys) l' None \<and>
      (\<forall>x. payload (H2(a := None)) x = (if x = a then None else payload H x)) \<and>
      (\<forall>x. x \<notin> set (xs @ a # ys) \<longrightarrow> (H2(a := None)) x = H x)"
proof -
  have left: "seg H None p xs (p_prev n) (Some a)" and right: "seg H (Some a) (p_next n) ys l None"
    using sg n by (auto simp: seg_append)
  obtain H1 where H1: "prev_linked H n = Inr H1"
      "seg H1 None (if p_prev n = None then p_next n else p) xs (p_prev n) (p_next n)"
      "payload H1 = payload H" "\<forall>x. x \<notin> set xs \<longrightarrow> H1 x = H x"
    using prev_linked_seg [OF left] d by auto
  have "\<forall>x \<in> set ys. H1 x = H x" using H1(4) d by auto
  then have "seg H1 (Some a) (p_next n) ys l None" using right seg_cong by blast
  then obtain H2 l' where H2: "next_linked H1 n = Inr H2" "seg H2 (p_prev n) (p_next n) ys l' None"
      "payload H2 = payload H1" "\<forall>x. x \<notin> set ys \<longrightarrow> H2 x = H1 x"
    using next_linked_seg d by (metis distinct.simps(2) distinct_append)
  have "\<forall>x \<in> set xs. H2 x = H1 x" using H2(4) d by auto
  then have "seg H2 None (if p_prev n = None then p_next n else p) xs (p_prev n) (p_next n)"
    using H1(2) seg_cong by blast
  with H2(2) d have "seg (H2(a := None)) None (if p_prev n = None then p_next n else p) (xs @ ys) l' None"
    by (auto simp: seg_append)
  moreover have "payload (H2(a := None)) x = (if x = a then None else payload H x)" for x
    using H1(3) H2(3) by (simp add: payload_def fun_eq_iff)
  moreover have "x \<notin> set (xs @ a # ys) \<longrightarrow> (H2(a := None)) x = H x" for x
    using H1(4) H2(4) by simp
  ultimately show ?thesis using H1(1) H2(1) by blast
qed

lemma free_unfold:
  assumes inv: "hash_inv h ls" and gk: "good_key h k"
    and "hash_get_node_by_key h k = Some (Inr (Some a))" and "heap h a = Some n"
    and "prev_linked (heap h) n = Inr H1" and "next_linked H1 n = Inr H2"
  shows "hash_free_entry h k = Some (Inr (h\<lparr>heap := H2(a := None),
      p_nodes := (p_nodes h)[slot h k := (if p_prev n = None then p_next n else p_nodes h ! slot h k)]\<rparr>))"
  using assms
  by (auto simp: hash_free_entry_def get_bucket_eq prev_linked_def next_linked_def
      split: option.splits if_splits)

lemma free_rep:
  assumes "table_rep h m" and "good_key h k" and "m k = Some v"
  shows "\<exists>h'. hash_free_entry h k = Some (Inr h') \<and> table_rep h' (m(k := None)) \<and>
           good_key h' = good_key h \<and> usable h' = usable h \<and> value_size h' = value_size h"
proof -
  obtain ls where inv: "hash_inv h ls" using assms(1) by (auto simp: table_rep_def)
  define b where "b = slot h k"
  have b: "b < buckets h" using assms(2) by (simp add: b_def good_key_def)
  obtain r where r: "hash_get_node_by_key h k = Some (Inr r)"
    "case r of None \<Rightarrow> \<forall>a n. heap h a = Some n \<longrightarrow> p_key n \<noteq> k
       | Some a \<Rightarrow> \<exists>n. heap h a = Some n \<and> p_key n = k"
    using get_node_eq [OF inv assms(2)] by blast
  have "\<exists>a n. heap h a = Some n \<and> p_key n = k" using assms(1,3) by (auto simp: table_rep_def)
  then obtain a n where a: "r = Some a" "heap h a = Some n" "p_key n = k"
    using r(2) by (cases r) auto
  have "a \<in> set (ls b)" using hash_invD(4) [OF inv a(2)] a(3) by (simp add: b_def)
  then obtain xs ys where lb: "ls b = xs @ a # ys" using split_list by metis
  obtain l where sg: "seg (heap h) None (p_nodes h ! b) (xs @ a # ys) l None"
    using hash_invD(3) [OF inv b] lb by auto
  have d: "distinct (xs @ a # ys)" using hash_invD(2) [OF inv b] lb by simp
  obtain H1 H2 l' where H: "prev_linked (heap h) n = Inr H1" "next_linked H1 n = Inr H2"
    and sg': "seg (H2(a := None)) None (if p_prev n = None then p_next n else p_nodes h ! b) (xs @ ys) l' None"
    and pay: "\<forall>x. payload (H2(a := None)) x = (if x = a then None else payload (heap h) x)"
    and same: "\<forall>x. x \<notin> set (xs @ a # ys) \<longrightarrow> (H2(a := None)) x = heap h x"
    using unlink [OF sg d a(2)] by blast
  let ?p = "if p_prev n = None then p_next n else p_nodes h ! b"
  let ?h' = "h\<lparr>heap := H2(a := None), p_nodes := (p_nodes h)[b := ?p]\<rparr>"
  have only: "payload (heap h) x = Some (k, w) \<Longrightarrow> x = a" for x w
    using inv_payload(3) [OF inv, of x k w a "p_value n"] a by (simp add: payload_def)
  have "hash_inv ?h' (ls(b := xs @ ys))"
  proof (rule bucket_replaced [OF inv b _ sg'])
    show "distinct (xs @ ys)" using d by simp
    show "(H2(a := None)) x = heap h x" if "b' < buckets h" "b' \<noteq> b" "x \<in> set (ls b')" for x b'
    proof -
      have "x \<notin> set (ls b)" using buckets_disjoint [OF inv b that(1)] that by metis
      then show ?thesis using same lb by metis
    qed
    show "length k' = key_size h \<and> length w = value_size h \<and> slot h k' < buckets h \<and>
        x \<in> set ((ls(b := xs @ ys)) (slot h k'))" if "payload (H2(a := None)) x = Some (k', w)" for x k' w
      using inv_payload(1) [OF inv, of x k' w] pay that lb by (auto split: if_splits)
    show "\<exists>k' w. payload (H2(a := None)) x = Some (k', w) \<and> slot h k' = b" if "x \<in> set (xs @ ys)" for x
    proof -
      have "x \<noteq> a" "x \<in> set (ls b)" using that d lb by auto
      then show ?thesis using inv_payload(2) [OF inv b, of x] pay by metis
    qed
    show "x = x'" if "payload (H2(a := None)) x = Some (k', w)" "payload (H2(a := None)) x' = Some (k', w')"
      for x x' k' w w'
      using inv_payload(3) [OF inv, of x k' w x' w'] pay that by (auto split: if_splits)
  qed
  moreover have "(m(k := None)) k' = Some w \<longleftrightarrow> (\<exists>x. payload (H2(a := None)) x = Some (k', w))" for k' w
  proof (cases "k' = k")
    case True
    then show ?thesis using pay only by (auto split: if_splits)
  next
    case False
    have "payload (heap h) a = Some (k, p_value n)" using a by (simp add: payload_def)
    then show ?thesis using False assms(1) pay unfolding table_rep_payload
      by (auto split: if_splits) (metis option.inject prod.inject)
  qed
  ultimately have "table_rep ?h' (m(k := None))" unfolding table_rep_payload by auto
  moreover have "hash_free_entry h k = Some (Inr ?h')"
    using free_unfold [OF inv assms(2) _ a(2) H] r(1) a(1) by (simp add: b_def)
  ultimately show ?thesis by (auto simp: good_key_def slot_def usable_def fun_eq_iff)
qed

lemma free_absent:
  assumes "table_rep h m" and "good_key h k" and "m k = None"
  shows "hash_free_entry h k = Some (Inl (Oops ''hash node not found''))"
  using lookup_rep [OF assms(1,2)] assms(3)
  by (auto simp: hash_free_entry_def hash_lookup_entry_def bug_def)

section \<open>The interface of the table\<close>

text \<open>
  A table that behaves as a partial map. Looking up an absent key finds nothing, a present one
  gives a handle that reads and overwrites its value; adding and removing change exactly one
  key, and adding a present key or removing an absent one stops the process. Every operation
  returns.
\<close>

locale table =
  fixes rep :: "'h \<Rightarrow> (bytes \<Rightarrow> bytes option) \<Rightarrow> bool"
    and key_ok :: "bytes \<Rightarrow> bool"
    and val_ok :: "bytes \<Rightarrow> bool"
    and fresh :: "'h \<Rightarrow> 'p \<Rightarrow> bool"
    and find_entry :: "'h \<Rightarrow> bytes \<Rightarrow> 'p option run"
    and load :: "'h \<Rightarrow> 'p \<Rightarrow> bytes res"
    and store :: "'h \<Rightarrow> 'p \<Rightarrow> bytes \<Rightarrow> 'h res"
    and add_entry :: "'p \<Rightarrow> 'h \<Rightarrow> bytes \<Rightarrow> bytes \<Rightarrow> 'h run"
    and free_entry :: "'h \<Rightarrow> bytes \<Rightarrow> 'h run"
  assumes find_absent: "rep h m \<Longrightarrow> key_ok k \<Longrightarrow> m k = None \<Longrightarrow> find_entry h k = Some (Inr None)"
    and find_present: "rep h m \<Longrightarrow> key_ok k \<Longrightarrow> m k = Some v \<Longrightarrow>
      \<exists>a. find_entry h k = Some (Inr (Some a)) \<and> load h a = Inr v"
    and store_law: "rep h m \<Longrightarrow> key_ok k \<Longrightarrow> val_ok v \<Longrightarrow> find_entry h k = Some (Inr (Some a)) \<Longrightarrow>
      \<exists>h'. store h a v = Inr h' \<and> rep h' (m(k \<mapsto> v))"
    and add_law: "rep h m \<Longrightarrow> key_ok k \<Longrightarrow> val_ok v \<Longrightarrow> m k = None \<Longrightarrow> fresh h a \<Longrightarrow>
      \<exists>h'. add_entry a h k v = Some (Inr h') \<and> rep h' (m(k \<mapsto> v))"
    and free_law: "rep h m \<Longrightarrow> key_ok k \<Longrightarrow> m k = Some v \<Longrightarrow>
      \<exists>h'. free_entry h k = Some (Inr h') \<and> rep h' (m(k := None))"
begin

text \<open>A stored value is the one the next lookup loads; after a removal there is none.\<close>

lemma store_then_find:
  assumes "rep h m" and "key_ok k" and "val_ok v" and "find_entry h k = Some (Inr (Some a))"
    and "store h a v = Inr h'"
  shows "\<exists>b. find_entry h' k = Some (Inr (Some b)) \<and> load h' b = Inr v"
  using store_law [OF assms(1-4)] assms(5) find_present [OF _ assms(2)] by fastforce

lemma free_then_find:
  assumes "rep h m" and "key_ok k" and "m k = Some v" and "free_entry h k = Some (Inr h')"
  shows "find_entry h' k = Some (Inr None)"
  using free_law [OF assms(1-3)] assms(4) find_absent [OF _ assms(2)] by fastforce

text \<open>Replacing a value: overwrite it when the key is present, add it when not. This is the
  pattern of the callers that count.\<close>

lemma put_present:
  assumes "rep h m" and "key_ok k" and "val_ok v" and "m k = Some w"
  shows "\<exists>a h'. find_entry h k = Some (Inr (Some a)) \<and> load h a = Inr w \<and>
           store h a v = Inr h' \<and> rep h' (m(k \<mapsto> v))"
  using find_present [OF assms(1,2,4)] store_law [OF assms(1-3)] by blast

lemma rep_frame:
  assumes "rep h m" and "key_ok k" and "m k = Some v" and "free_entry h k = Some (Inr h')"
    and "key_ok k'" and "k' \<noteq> k" and "m k' = Some w"
  shows "\<exists>a. find_entry h' k' = Some (Inr (Some a)) \<and> load h' a = Inr w"
  using free_law [OF assms(1-3)] assms(4-) find_present [of h' "m(k := None)" k' w] by auto

end

text \<open>The hash table provides the interface for every hash function, bucket count and size. The
  parameters are fixed when the table is allocated.\<close>

definition has_shape :: "nat \<Rightarrow> nat \<Rightarrow> nat \<Rightarrow> (nat \<Rightarrow> bytes \<Rightarrow> nat) \<Rightarrow> hash \<Rightarrow> bool" where
  "has_shape B ks vs f h \<longleftrightarrow> buckets h = B \<and> key_size h = ks \<and> value_size h = vs \<and> hash_func h = f"

definition shaped_rep ::
  "nat \<Rightarrow> nat \<Rightarrow> nat \<Rightarrow> (nat \<Rightarrow> bytes \<Rightarrow> nat) \<Rightarrow> hash \<Rightarrow> (bytes \<Rightarrow> bytes option) \<Rightarrow> bool" where
  "shaped_rep B ks vs f h m \<longleftrightarrow> has_shape B ks vs f h \<and> usable h \<and> table_rep h m"

text \<open>No operation changes the shape.\<close>

lemma shape_add: "hash_add_entry A a h k v = Some (Inr h') \<Longrightarrow> has_shape B ks vs f h' = has_shape B ks vs f h"
  by (cases "hash_lookup_entry h k" rule: option.exhaust; cases "the (hash_lookup_entry h k)")
     (auto simp: hash_add_entry_def res_simps Let_def has_shape_def split: if_splits option.splits)

lemma shape_free: "hash_free_entry h k = Some (Inr h') \<Longrightarrow> has_shape B ks vs f h' = has_shape B ks vs f h"
  by (cases "hash_get_node_by_key h k" rule: option.exhaust; cases "the (hash_get_node_by_key h k)")
     (auto simp: hash_free_entry_def res_simps has_shape_def split: if_splits option.splits)

lemma shape_store: "store_value h a v = Inr h' \<Longrightarrow> has_shape B ks vs f h' = has_shape B ks vs f h \<and> usable h' = usable h"
  by (auto simp: store_value_def has_shape_def usable_def split: option.splits if_splits)

interpretation ht: table "shaped_rep B ks vs f" "\<lambda>k. length k = ks \<and> f B k < B" "\<lambda>v. length v = vs"
  "\<lambda>h a. heap h a = None \<and> allocates A" hash_lookup_entry load_value store_value
  "hash_add_entry A" hash_free_entry for B ks vs f A
proof unfold_locales
  fix h m k
  assume rep: "shaped_rep B ks vs f h m" and "length k = ks \<and> f B k < B"
  then have k: "good_key h k" "table_rep h m" "usable h"
    by (auto simp: shaped_rep_def has_shape_def good_key_def slot_def)
  have shape: "has_shape B ks vs f h" "value_size h = vs"
    using rep by (simp_all add: shaped_rep_def has_shape_def)
  show "hash_lookup_entry h k = Some (Inr None)" if "m k = None"
    using lookup_rep [OF k(2,1)] that by blast
  show "\<exists>a. hash_lookup_entry h k = Some (Inr (Some a)) \<and> load_value h a = Inr v" if "m k = Some v" for v
    using lookup_rep [OF k(2,1)] that by blast
  show "\<exists>h'. store_value h a v = Inr h' \<and> shaped_rep B ks vs f h' (m(k \<mapsto> v))"
    if "length v = vs" "hash_lookup_entry h k = Some (Inr (Some a))" for v a
    using store_rep [OF k(2,1) that(2), of v] that(1) shape k(3)
    by (auto simp: shaped_rep_def shape_store)
  show "\<exists>h'. hash_add_entry A a h k v = Some (Inr h') \<and> shaped_rep B ks vs f h' (m(k \<mapsto> v))"
    if "length v = vs" "m k = None" "heap h a = None \<and> allocates A" for v a
    using add_rep [OF k(2,1) that(2) _ _ k(3), of a A v] that shape
    by (auto simp: shaped_rep_def shape_add)
  show "\<exists>h'. hash_free_entry h k = Some (Inr h') \<and> shaped_rep B ks vs f h' (m(k := None))"
    if "m k = Some v" for v
    using free_rep [OF k(2,1) that] shape k(3) by (auto simp: shaped_rep_def shape_free)
qed

lemma alloc_rep:
  assumes "allocates A" and "0 < B" and "8 * B \<le> INT_MAX" and "0 < ks" and "ks \<le> INT_MAX"
    and "0 < vs" and "vs \<le> INT_MAX"
  shows "\<exists>h. hash_alloc A B ks vs f = Inr h \<and> shaped_rep B ks vs f h (\<lambda>_. None)"
proof -
  obtain b1 where "vsf_sysutil_malloc A 40 = Inr b1" using malloc_ok [OF assms(1), of 40] by auto
  moreover obtain b2 where "vsf_sysutil_malloc A (8 * B) = Inr b2"
    using malloc_ok [OF assms(1), of "8 * B"] assms by auto
  moreover define h where "h = \<lparr>buckets = B, key_size = ks, value_size = vs, hash_func = f,
      p_nodes = replicate B None, heap = (\<lambda>_. None)\<rparr>"
  ultimately have "hash_alloc A B ks vs f = Inr h" using assms(3) by (simp add: hash_alloc_def)
  moreover have "hash_inv h (\<lambda>_. [])" by (rule hash_invI) (auto simp: h_def)
  ultimately show ?thesis
    using assms by (auto simp: shaped_rep_def has_shape_def usable_def table_rep_def h_def)
qed

section \<open>Properties\<close>

text \<open>C15: the hash table is a map. A table that represents \<open>m\<close>, through its linked nodes on the
  heap, answers every lookup with the value \<open>m\<close> has (the search of the chain always ends), adding
  an absent key and removing a present one give a table for the changed map, and adding a present
  key or removing an absent one stops with the message of the code.\<close>

theorem hash_table_is_map:
  assumes "shaped_rep B ks vs f h m" and "length k = ks" and "f B k < B"
    and "length v = vs" and "heap h a = None" and "allocates A"
  shows "case m k of
      None \<Rightarrow> hash_lookup_entry h k = Some (Inr None) \<and>
        hash_free_entry h k = Some (Inl (Oops ''hash node not found'')) \<and>
        (\<exists>h'. hash_add_entry A a h k v = Some (Inr h') \<and> shaped_rep B ks vs f h' (m(k \<mapsto> v)))
    | Some w \<Rightarrow> (\<exists>p. hash_lookup_entry h k = Some (Inr (Some p)) \<and> load_value h p = Inr w) \<and>
        hash_add_entry A a h k v = Some (Inl (Oops ''duplicate hash key'')) \<and>
        (\<exists>h'. hash_free_entry h k = Some (Inr h') \<and> shaped_rep B ks vs f h' (m(k := None)))"
proof -
  have k: "length k = ks \<and> f B k < B" and fr: "heap h a = None \<and> allocates A" using assms by simp_all
  have gk: "good_key h k" "table_rep h m"
    using assms by (auto simp: shaped_rep_def has_shape_def good_key_def slot_def)
  show ?thesis
  proof (cases "m k")
    case None
    then show ?thesis
      using ht.find_absent [OF assms(1) k None] ht.add_law [OF assms(1) k assms(4) None fr]
        free_absent [OF gk(2,1) None] by simp
  next
    case (Some w)
    then show ?thesis
      using ht.find_present [OF assms(1) k Some] ht.free_law [OF assms(1) k Some]
        add_present [OF gk(2,1) Some] by simp
  qed
qed

text \<open>A table with one bucket and one entry.\<close>

definition one_entry :: hash where
  "one_entry = \<lparr>buckets = 1, key_size = 1, value_size = 1, hash_func = (\<lambda>B k. 0), p_nodes = [Some 7],
     heap = (\<lambda>_. None)(7 := Some \<lparr>p_key = ''k'', p_value = ''v'', p_prev = None, p_next = None\<rparr>)\<rparr>"

lemma one_entry_rep: "shaped_rep 1 1 1 (\<lambda>B k. 0) one_entry [''k'' \<mapsto> ''v'']"
proof -
  have "hash_inv one_entry (\<lambda>_. [7])"
    by (rule hash_invI) (auto simp: one_entry_def slot_def split: if_splits)
  then show ?thesis
    by (auto simp: shaped_rep_def has_shape_def usable_def table_rep_def one_entry_def split: if_splits)
qed

theorem hash_table_is_map_witness:
  "hash_free_entry one_entry ''x'' = Some (Inl (Oops ''hash node not found''))"
proof -
  have "heap one_entry 9 = None" "allocates (\<lambda>n. Some (\<lambda>i. NUL))"
    by (simp_all add: one_entry_def allocates_def)
  from hash_table_is_map [OF one_entry_rep, of "''x''" "''w''", OF _ _ _ this] show ?thesis by simp
qed

end
