(* ===== verification/Standalone.thy ===== *)
theory Standalone
  imports Hash
begin

text \<open>
  \<^verbatim>\<open>standalone.c\<close>: the accounting of the listener process. It keeps the number of children and
  two hash tables: connections per client address and client address per child. One turn of the
  accept loop, the handler that reaps children, and the counting functions are modelled on the
  tables of \<open>Hash\<close>; the results of \<^verbatim>\<open>accept\<close>, \<^verbatim>\<open>fork\<close> and \<^verbatim>\<open>waitpid\<close> are arguments. The step
  relation \<open>listens\<close> runs them in any order, with the set of live children as the kernel knows
  it. Signal handlers run only at the defined points of \<^verbatim>\<open>vsf_sysutil_check_pending_actions\<close>: in the wait for a
  connection, between two steps of the relation, and in a system call that a signal interrupts. The accepting
  step has one such call, the \<^verbatim>\<open>vsf_sysutil_close\<close> of the client's socket between the fork and the entry of the
  child. It is taken to succeed at once: a failure would end the process, and an interrupted close could reap
  the child before it has its entry.
\<close>

unbundle bit_operations_syntax

section \<open>The listener\<close>

record listener =
  s_children :: "32 word"
  s_p_ip_count_hash :: hash
  s_p_pid_ip_hash :: hash

record vsf_client_launch =
  num_children :: "32 word"
  num_this_ip :: "32 word"

definition s_ipaddr_size :: nat where
  "s_ipaddr_size = 16"

fun hash_ip_loop :: "bytes \<Rightarrow> 32 word \<Rightarrow> nat \<Rightarrow> 32 word" where
  "hash_ip_loop [] val shift = val"
| "hash_ip_loop (c # cs) val shift =
     hash_ip_loop cs (val XOR push_bit shift (of_nat (code c))) (if shift < 8 then 24 else shift - 8)"

definition hash_ip :: "nat \<Rightarrow> bytes \<Rightarrow> nat" where
  "hash_ip n_buckets p_raw_ip = unat (hash_ip_loop (take s_ipaddr_size p_raw_ip) 0 24) mod n_buckets"

definition hash_pid :: "nat \<Rightarrow> bytes \<Rightarrow> nat" where
  "hash_pid n_buckets p_pid = unat (dec32 (take 4 p_pid)) mod n_buckets"

text \<open>The start of \<^verbatim>\<open>vsf_standalone_main\<close>, as far as the accounting goes.\<close>

definition standalone_start :: "allocator \<Rightarrow> bool \<Rightarrow> bool \<Rightarrow> listener res" where
  "standalone_start A tunable_listen tunable_listen_ipv6 =
     (if tunable_listen \<and> tunable_listen_ipv6 then die ''run two copies of vsftpd for IPv4 and IPv6''
      else
        res_bind (hash_alloc A 256 s_ipaddr_size 4 hash_ip) (\<lambda>ips.
        res_bind (hash_alloc A 256 4 s_ipaddr_size hash_pid) (\<lambda>pids.
        Inr \<lparr>s_children = 0, s_p_ip_count_hash = ips, s_p_pid_ip_hash = pids\<rparr>)))"

definition handle_ip_count :: "allocator \<Rightarrow> addr \<Rightarrow> listener \<Rightarrow> bytes \<Rightarrow> (listener \<times> 32 word) run" where
  "handle_ip_count A a L p_ipaddr =
     (let h = s_p_ip_count_hash L in
      run_bind (hash_lookup_entry h p_ipaddr) (\<lambda>p_count.
      case p_count of
        None \<Rightarrow>
          run_bind (hash_add_entry A a h p_ipaddr (enc32 1)) (\<lambda>h'.
          Some (Inr (L\<lparr>s_p_ip_count_hash := h'\<rparr>, 1)))
      | Some p \<Rightarrow>
          run_bind (Some (load_value h p)) (\<lambda>v.
          let count = dec32 v + 1 in
          run_bind (Some (store_value h p (enc32 count))) (\<lambda>h'.
          Some (Inr (L\<lparr>s_p_ip_count_hash := h'\<rparr>, count))))))"

definition drop_ip_count :: "listener \<Rightarrow> bytes \<Rightarrow> listener run" where
  "drop_ip_count L p_raw_addr =
     (let h = s_p_ip_count_hash L in
      run_bind (hash_lookup_entry h p_raw_addr) (\<lambda>p_count.
      case p_count of
        None \<Rightarrow> Some (bug ''IP address missing from hash'')
      | Some p \<Rightarrow>
          run_bind (Some (load_value h p)) (\<lambda>v.
          if dec32 v = 0 then Some (bug ''zero count for IP address'')
          else
            let count = dec32 v - 1 in
            run_bind (Some (store_value h p (enc32 count))) (\<lambda>h'.
            if count = 0
            then run_bind (hash_free_entry h' p_raw_addr) (\<lambda>h''. Some (Inr (L\<lparr>s_p_ip_count_hash := h''\<rparr>)))
            else Some (Inr (L\<lparr>s_p_ip_count_hash := h'\<rparr>))))))"

text \<open>One reaped child in \<^verbatim>\<open>handle_sigchld\<close>; a lookup that fails passes the null pointer on.\<close>

definition reap_child :: "listener \<Rightarrow> 32 word \<Rightarrow> listener run" where
  "reap_child L reap_one =
     (let L1 = L\<lparr>s_children := s_children L - 1\<rparr> in
      run_bind (hash_lookup_entry (s_p_pid_ip_hash L1) (enc32 reap_one)) (\<lambda>p.
      case p of
        None \<Rightarrow> Some (Inl Segv)
      | Some a \<Rightarrow>
          run_bind (Some (load_value (s_p_pid_ip_hash L1) a)) (\<lambda>p_ip.
          run_bind (drop_ip_count L1 p_ip) (\<lambda>L2.
          run_bind (hash_free_entry (s_p_pid_ip_hash L2) (enc32 reap_one)) (\<lambda>h.
          Some (Inr (L2\<lparr>s_p_pid_ip_hash := h\<rparr>)))))))"

text \<open>The handler: the children \<^verbatim>\<open>waitpid\<close> delivers until it returns 0.\<close>

fun handle_sigchld :: "listener \<Rightarrow> 32 word list \<Rightarrow> listener run" where
  "handle_sigchld L [] = Some (Inr L)"
| "handle_sigchld L (reap_one # pids) =
     (if reap_one = 0 then Some (Inr L)
      else run_bind (reap_child L reap_one) (\<lambda>L'. handle_sigchld L' pids))"

text \<open>One turn of the accept loop after a connection came in; \<open>new_child\<close> is what \<^verbatim>\<open>fork\<close>
  returned. The parent goes on (no launch data); the child leaves the loop with its data.\<close>

definition accept_client ::
  "allocator \<Rightarrow> addr \<Rightarrow> addr \<Rightarrow> listener \<Rightarrow> bytes \<Rightarrow> 32 word \<Rightarrow> (listener \<times> vsf_client_launch) run" where
  "accept_client A a1 a2 L p_raw_addr new_child =
     (let L1 = L\<lparr>s_children := s_children L + 1\<rparr> in
      run_bind (handle_ip_count A a1 L1 p_raw_addr) (\<lambda>(L2, n).
      let child_info = \<lparr>num_children = s_children L1, num_this_ip = n\<rparr> in
      if new_child \<noteq> 0 then
        if sint new_child > 0 then
          run_bind (hash_add_entry A a2 (s_p_pid_ip_hash L2) (enc32 new_child) p_raw_addr) (\<lambda>h.
          Some (Inr (L2\<lparr>s_p_pid_ip_hash := h\<rparr>, child_info)))
        else
          run_bind (drop_ip_count (L2\<lparr>s_children := s_children L2 - 1\<rparr>) p_raw_addr) (\<lambda>L3.
          Some (Inr (L3, child_info)))
      else Some (Inr (L2, child_info))))"

section \<open>Lemmas: buckets\<close>

lemma hash_ip_less: "0 < B \<Longrightarrow> hash_ip B k < B"
  by (simp add: hash_ip_def)

lemma hash_pid_less: "0 < B \<Longrightarrow> hash_pid B k < B"
  by (simp add: hash_pid_def)

section \<open>Counting per address\<close>

definition count_entry :: "nat \<Rightarrow> bytes option" where
  "count_entry n = (if n = 0 then None else Some (enc32 (of_nat n)))"

text \<open>The address table holds the counts \<open>g\<close>; an address without connections has no entry.\<close>

definition counts :: "listener \<Rightarrow> (bytes \<Rightarrow> nat) \<Rightarrow> bool" where
  "counts L g \<longleftrightarrow>
     (\<exists>m. shaped_rep 256 16 4 hash_ip (s_p_ip_count_hash L) m \<and>
          (\<forall>ip. length ip = 16 \<longrightarrow> m ip = count_entry (g ip)))"

lemma of_nat_pos: "0 < n \<Longrightarrow> n < 2 ^ 32 \<Longrightarrow> (of_nat n :: 32 word) \<noteq> 0"
proof
  assume "0 < n" "n < 2 ^ 32" and "(of_nat n :: 32 word) = 0"
  then show False using unat_small [of n] by (metis less_irrefl unsigned_0)
qed

lemma handle_ip_count_ok:
  assumes "counts L g" and "length ip = 16" and "g ip + 1 < 2 ^ 32"
    and "heap (s_p_ip_count_hash L) a = None" and "allocates A"
  shows "\<exists>h'. handle_ip_count A a L ip = Some (Inr (L\<lparr>s_p_ip_count_hash := h'\<rparr>, of_nat (g ip + 1))) \<and>
           counts (L\<lparr>s_p_ip_count_hash := h'\<rparr>) (g(ip := g ip + 1))"
proof -
  let ?h = "s_p_ip_count_hash L"
  obtain m where m: "shaped_rep 256 16 4 hash_ip ?h m" "\<forall>ip. length ip = 16 \<longrightarrow> m ip = count_entry (g ip)"
    using assms(1) by (auto simp: counts_def)
  have k: "length ip = 16 \<and> hash_ip 256 ip < 256" using assms(2) by (simp add: hash_ip_less)
  show ?thesis
  proof (cases "g ip")
    case 0
    then have none: "m ip = None" using m(2) assms(2) by (simp add: count_entry_def)
    obtain h' where h': "hash_add_entry A a ?h ip (enc32 1) = Some (Inr h')"
        "shaped_rep 256 16 4 hash_ip h' (m(ip \<mapsto> enc32 1))"
      using ht.add_law [OF m(1) k _ none, of "enc32 1" a A] assms(4,5) by auto
    have "counts (L\<lparr>s_p_ip_count_hash := h'\<rparr>) (g(ip := 1))"
      using h'(2) m(2) unfolding counts_def by (auto simp: count_entry_def)
    with h' 0 ht.find_absent [OF m(1) k none] show ?thesis
      by (auto simp: handle_ip_count_def Let_def)
  next
    case (Suc n)
    then have present: "m ip = Some (enc32 (of_nat (g ip)))"
      using m(2) assms(2) by (simp add: count_entry_def)
    define c where "c = (of_nat (g ip + 1) :: 32 word)"
    obtain p h' where p: "hash_lookup_entry ?h ip = Some (Inr (Some p))"
        "load_value ?h p = Inr (enc32 (of_nat (g ip)))" "store_value ?h p (enc32 c) = Inr h'"
        "shaped_rep 256 16 4 hash_ip h' (m(ip \<mapsto> enc32 c))"
      using ht.put_present [OF m(1) k _ present, of "enc32 c"] by auto
    have "counts (L\<lparr>s_p_ip_count_hash := h'\<rparr>) (g(ip := g ip + 1))"
      using p(4) m(2) unfolding counts_def by (auto simp: count_entry_def c_def)
    moreover have "dec32 (enc32 (of_nat (g ip))) + 1 = c" by (simp add: c_def add.commute)
    ultimately show ?thesis using p
      by (auto simp: handle_ip_count_def Let_def c_def [symmetric])
  qed
qed

lemma drop_ip_count_ok:
  assumes "counts L g" and "length ip = 16" and "0 < g ip" and "g ip < 2 ^ 32"
  shows "\<exists>h'. drop_ip_count L ip = Some (Inr (L\<lparr>s_p_ip_count_hash := h'\<rparr>)) \<and>
           counts (L\<lparr>s_p_ip_count_hash := h'\<rparr>) (g(ip := g ip - 1))"
proof -
  let ?h = "s_p_ip_count_hash L"
  obtain m where m: "shaped_rep 256 16 4 hash_ip ?h m" "\<forall>ip. length ip = 16 \<longrightarrow> m ip = count_entry (g ip)"
    using assms(1) by (auto simp: counts_def)
  have k: "length ip = 16 \<and> hash_ip 256 ip < 256" using assms(2) by (simp add: hash_ip_less)
  have present: "m ip = Some (enc32 (of_nat (g ip)))"
    using m(2) assms(2,3) by (simp add: count_entry_def)
  define c where "c = (of_nat (g ip - 1) :: 32 word)"
  have dec: "dec32 (enc32 (of_nat (g ip))) - 1 = c" using assms(3) by (simp add: c_def of_nat_diff)
  have nz: "dec32 (enc32 (of_nat (g ip))) \<noteq> 0" using of_nat_pos [OF assms(3,4)] by simp
  obtain p h' where p: "hash_lookup_entry ?h ip = Some (Inr (Some p))"
      "load_value ?h p = Inr (enc32 (of_nat (g ip)))" "store_value ?h p (enc32 c) = Inr h'"
      "shaped_rep 256 16 4 hash_ip h' (m(ip \<mapsto> enc32 c))"
    using ht.put_present [OF m(1) k _ present, of "enc32 c"] by auto
  have c0: "c = 0 \<longleftrightarrow> g ip = 1"
    using of_nat_pos [of "g ip - 1"] assms(3,4) by (cases "g ip = 1") (auto simp: c_def)
  show ?thesis
  proof (cases "g ip = 1")
    case True
    obtain h'' where h'': "hash_free_entry h' ip = Some (Inr h'')"
        "shaped_rep 256 16 4 hash_ip h'' ((m(ip \<mapsto> enc32 c))(ip := None))"
      using ht.free_law [OF p(4) k, of "enc32 c"] by auto
    have "counts (L\<lparr>s_p_ip_count_hash := h''\<rparr>) (g(ip := 0))"
      using h''(2) m(2) unfolding counts_def by (auto simp: count_entry_def)
    with True h'' p dec nz c0 show ?thesis by (auto simp: drop_ip_count_def Let_def)
  next
    case False
    then have "counts (L\<lparr>s_p_ip_count_hash := h'\<rparr>) (g(ip := g ip - 1))"
      using p(4) m(2) assms(3) unfolding counts_def by (auto simp: count_entry_def c_def)
    with False p dec nz c0 show ?thesis by (auto simp: drop_ip_count_def Let_def)
  qed
qed

section \<open>The invariant\<close>

text \<open>Connections from one address, given the live children.\<close>

definition clients :: "(32 word \<Rightarrow> bytes option) \<Rightarrow> bytes \<Rightarrow> nat" where
  "clients c ip = card {p. c p = Some ip}"

definition accounts :: "(32 word \<Rightarrow> bytes option) \<Rightarrow> listener \<Rightarrow> bool" where
  "accounts c L \<longleftrightarrow>
     (\<forall>p ip. c p = Some ip \<longrightarrow> sint p > 0 \<and> length ip = 16) \<and>
     s_children L = of_nat (card (dom c)) \<and> counts L (clients c) \<and>
     (\<exists>m. shaped_rep 256 4 16 hash_pid (s_p_pid_ip_hash L) m \<and> (\<forall>p. m (enc32 p) = c p))"

lemma finite_clients [simp]: "finite {p :: 32 word. P p}"
  by (rule finite_subset [OF subset_UNIV finite])

lemma clients_less:
  assumes "\<forall>p ip. c p = Some ip \<longrightarrow> sint p > 0 \<and> length ip = 16"
  shows "clients c ip + 1 < 2 ^ 32"
proof -
  have "{p. c p = Some ip} \<subseteq> UNIV - {0, - 1}" using assms by fastforce
  then have "card {p. c p = Some ip} \<le> card (UNIV - {0, - 1 :: 32 word})"
    by (intro card_mono) (simp_all add: finite_subset [OF subset_UNIV finite])
  then show ?thesis by (simp add: clients_def card_word)
qed

lemma clients_add:
  assumes "c p = None"
  shows "clients (c(p \<mapsto> ip)) = (clients c)(ip := clients c ip + 1)"
proof
  fix x
  have "{q. (c(p \<mapsto> ip)) q = Some x} = (if x = ip then insert p {q. c q = Some x} else {q. c q = Some x})"
    using assms by auto
  then show "clients (c(p \<mapsto> ip)) x = ((clients c)(ip := clients c ip + 1)) x"
    using assms by (simp add: clients_def)
qed

lemma clients_remove:
  assumes "c p = Some ip"
  shows "clients (c(p := None)) = (clients c)(ip := clients c ip - 1)" and "0 < clients c ip"
proof -
  have "{q. (c(p := None)) q = Some x} = {q. c q = Some x} - (if x = ip then {p} else {})" for x
    using assms by auto
  then show "clients (c(p := None)) = (clients c)(ip := clients c ip - 1)"
    using assms by (auto simp: clients_def fun_eq_iff)
  show "0 < clients c ip" using assms by (auto simp: clients_def card_gt_0_iff)
qed

lemma card_dom_add: "c p = None \<Longrightarrow> card (dom (c(p \<mapsto> (ip :: bytes)))) = card (dom c) + 1"
  for c :: "32 word \<Rightarrow> bytes option"
  by (simp add: domIff card_insert_disjoint finite_subset [OF subset_UNIV finite])

lemma card_dom_remove: "c p = Some ip \<Longrightarrow> card (dom (c(p := None))) + 1 = card (dom c)"
  for c :: "32 word \<Rightarrow> bytes option"
  by (metis card_dom_add fun_upd_same fun_upd_triv fun_upd_upd)

lemma counts_only: "s_p_ip_count_hash L' = s_p_ip_count_hash L \<Longrightarrow> counts L' g = counts L g"
  by (simp add: counts_def)

lemma enc32_key: "length (enc32 p) = 4 \<and> hash_pid 256 (enc32 p) < 256"
  by (simp add: hash_pid_less)

text \<open>What a turn of the loop does, by the result of \<^verbatim>\<open>fork\<close>.\<close>

lemma accept_ok:
  assumes acc: "accounts c L" and ip: "length ip = 16" and A: "allocates A"
    and a1: "heap (s_p_ip_count_hash L) a1 = None" and a2: "heap (s_p_pid_ip_hash L) a2 = None"
    and child: "sint new_child > 0 \<Longrightarrow> c new_child = None"
  shows "\<exists>L' launch. accept_client A a1 a2 L ip new_child = Some (Inr (L', launch)) \<and>
      num_children launch = of_nat (card (dom c) + 1) \<and>
      num_this_ip launch = of_nat (clients c ip + 1) \<and>
      (sint new_child > 0 \<longrightarrow> accounts (c(new_child \<mapsto> ip)) L') \<and>
      (sint new_child < 0 \<longrightarrow> accounts c L')"
proof -
  let ?L1 = "L\<lparr>s_children := s_children L + 1\<rparr>"
  obtain m where m: "shaped_rep 256 4 16 hash_pid (s_p_pid_ip_hash L) m" "\<forall>p. m (enc32 p) = c p"
    using acc by (auto simp: accounts_def)
  have c: "\<forall>p ip. c p = Some ip \<longrightarrow> sint p > 0 \<and> length ip = 16" "s_children L = of_nat (card (dom c))"
      "counts ?L1 (clients c)"
    using acc by (auto simp: accounts_def counts_def)
  note room = clients_less [OF c(1), of ip]
  obtain h where h: "handle_ip_count A a1 ?L1 ip = Some (Inr (?L1\<lparr>s_p_ip_count_hash := h\<rparr>, of_nat (clients c ip + 1)))"
      "counts (?L1\<lparr>s_p_ip_count_hash := h\<rparr>) ((clients c)(ip := clients c ip + 1))"
    using handle_ip_count_ok [OF c(3) ip room _ A, of a1] a1 by auto
  let ?L2 = "?L1\<lparr>s_p_ip_count_hash := h\<rparr>"
  consider (zero) "new_child = 0" | (child) "sint new_child > 0" | (fail) "sint new_child < 0"
    by (metis linorder_neqE signed_eq_0_iff)
  then show ?thesis
  proof cases
    case zero
    with h(1) c(2) show ?thesis by (simp add: accept_client_def Let_def)
  next
    case ch: child
    then have none: "m (enc32 new_child) = None" and nz: "new_child \<noteq> 0" using child m(2) by auto
    obtain h' where h': "hash_add_entry A a2 (s_p_pid_ip_hash L) (enc32 new_child) ip = Some (Inr h')"
        "shaped_rep 256 4 16 hash_pid h' (m(enc32 new_child \<mapsto> ip))"
      using ht.add_law [OF m(1) enc32_key _ none, of ip a2 A] ip a2 A by auto
    have "accounts (c(new_child \<mapsto> ip)) (?L2\<lparr>s_p_pid_ip_hash := h'\<rparr>)"
      using h(2) h'(2) c m(2) nz ip ch child card_dom_add [of c new_child ip]
      unfolding accounts_def
      by (auto simp: clients_add counts_def add.commute simp del: dom_fun_upd intro!: exI [of _ "m(enc32 new_child \<mapsto> ip)"])
    with h(1) h'(1) ch nz c(2) show ?thesis by (simp add: accept_client_def Let_def)
  next
    case fail
    then have nz: "new_child \<noteq> 0" "\<not> sint new_child > 0" by auto
    let ?L3 = "?L2\<lparr>s_children := s_children ?L2 - 1\<rparr>"
    have "counts ?L3 ((clients c)(ip := clients c ip + 1))" using h(2) by (simp add: counts_def)
    from drop_ip_count_ok [OF this ip] room
    obtain h' where h': "drop_ip_count ?L3 ip = Some (Inr (?L3\<lparr>s_p_ip_count_hash := h'\<rparr>))"
        "counts (?L3\<lparr>s_p_ip_count_hash := h'\<rparr>) (clients c)"
      by auto
    have "accounts c (?L3\<lparr>s_p_ip_count_hash := h'\<rparr>)"
      using h'(2) c m unfolding accounts_def by auto
    with h(1) h'(1) fail nz c(2) show ?thesis by (simp add: accept_client_def Let_def)
  qed
qed

lemma reap_ok:
  assumes acc: "accounts c L" and p: "c p = Some ip"
  shows "\<exists>L'. reap_child L p = Some (Inr L') \<and> accounts (c(p := None)) L'"
proof -
  let ?L1 = "L\<lparr>s_children := s_children L - 1\<rparr>"
  obtain m where m: "shaped_rep 256 4 16 hash_pid (s_p_pid_ip_hash L) m" "\<forall>p. m (enc32 p) = c p"
    using acc by (auto simp: accounts_def)
  have c: "\<forall>p ip. c p = Some ip \<longrightarrow> sint p > 0 \<and> length ip = 16" "s_children L = of_nat (card (dom c))"
      "counts ?L1 (clients c)" "length ip = 16"
    using acc p by (auto simp: accounts_def counts_def)
  have present: "m (enc32 p) = Some ip" using m(2) p by simp
  obtain a where a: "hash_lookup_entry (s_p_pid_ip_hash L) (enc32 p) = Some (Inr (Some a))"
      "load_value (s_p_pid_ip_hash L) a = Inr ip"
    using ht.find_present [OF m(1) enc32_key present] by auto
  obtain h where h: "drop_ip_count ?L1 ip = Some (Inr (?L1\<lparr>s_p_ip_count_hash := h\<rparr>))"
      "counts (?L1\<lparr>s_p_ip_count_hash := h\<rparr>) ((clients c)(ip := clients c ip - 1))"
    using drop_ip_count_ok [OF c(3,4) clients_remove(2) [where c = c and p = p, OF p]]
      clients_less [OF c(1), of ip] by auto
  obtain h' where h': "hash_free_entry (s_p_pid_ip_hash L) (enc32 p) = Some (Inr h')"
      "shaped_rep 256 4 16 hash_pid h' (m(enc32 p := None))"
    using ht.free_law [OF m(1) enc32_key present] by auto
  have "of_nat (card (dom c)) - 1 = (of_nat (card (dom (c(p := None)))) :: 32 word)"
    using card_dom_remove [of c p ip] p by (metis add_diff_cancel_right' of_nat_1 of_nat_add)
  then have "accounts (c(p := None)) (?L1\<lparr>s_p_ip_count_hash := h, s_p_pid_ip_hash := h'\<rparr>)"
    using h(2) h'(2) c m(2) clients_remove(1) [of c p ip] p
    unfolding accounts_def
    by (auto simp: counts_def simp del: dom_fun_upd intro!: exI [of _ "m(enc32 p := None)"])
  with a h(1) h'(1) show ?thesis by (auto simp: reap_child_def Let_def)
qed

section \<open>The listener as a step relation\<close>

text \<open>
  \<open>listens A c L\<close>: from its start the listener can reach state \<open>L\<close> with \<open>c\<close> the live children and
  their addresses. What the kernel promises: a new child's pid is positive and not the pid of a
  child that was not reaped yet, a reaped pid is a child's, and \<^verbatim>\<open>malloc\<close> gives unused addresses.
\<close>

inductive listens :: "allocator \<Rightarrow> (32 word \<Rightarrow> bytes option) \<Rightarrow> listener \<Rightarrow> bool" for A where
  start: "standalone_start A l4 l6 = Inr L \<Longrightarrow> listens A (\<lambda>_. None) L"
| forked: "listens A c L \<Longrightarrow> length ip = 16 \<Longrightarrow> heap (s_p_ip_count_hash L) a1 = None \<Longrightarrow>
    heap (s_p_pid_ip_hash L) a2 = None \<Longrightarrow> sint pid > 0 \<Longrightarrow> c pid = None \<Longrightarrow>
    accept_client A a1 a2 L ip pid = Some (Inr (L', launch)) \<Longrightarrow> listens A (c(pid \<mapsto> ip)) L'"
| fork_failed: "listens A c L \<Longrightarrow> length ip = 16 \<Longrightarrow> heap (s_p_ip_count_hash L) a1 = None \<Longrightarrow>
    heap (s_p_pid_ip_hash L) a2 = None \<Longrightarrow> sint pid < 0 \<Longrightarrow>
    accept_client A a1 a2 L ip pid = Some (Inr (L', launch)) \<Longrightarrow> listens A c L'"
| reaped: "listens A c L \<Longrightarrow> c pid = Some ip \<Longrightarrow> reap_child L pid = Some (Inr L') \<Longrightarrow>
    listens A (c(pid := None)) L'"

lemma start_ok:
  assumes "allocates A" and "standalone_start A l4 l6 = Inr L"
  shows "accounts (\<lambda>_. None) L"
proof -
  obtain h1 where h1: "hash_alloc A 256 16 4 hash_ip = Inr h1" "shaped_rep 256 16 4 hash_ip h1 (\<lambda>_. None)"
    using alloc_rep [OF assms(1), of 256 16 4 hash_ip] by auto
  obtain h2 where h2: "hash_alloc A 256 4 16 hash_pid = Inr h2" "shaped_rep 256 4 16 hash_pid h2 (\<lambda>_. None)"
    using alloc_rep [OF assms(1), of 256 4 16 hash_pid] by auto
  have "L = \<lparr>s_children = 0, s_p_ip_count_hash = h1, s_p_pid_ip_hash = h2\<rparr>"
    using assms(2) h1(1) h2(1) by (auto simp: standalone_start_def s_ipaddr_size_def split: if_splits)
  with h1(2) h2(2) show ?thesis
    by (auto simp: accounts_def counts_def clients_def count_entry_def dom_def)
qed

lemma listens_accounts:
  assumes "allocates A"
  shows "listens A c L \<Longrightarrow> accounts c L"
proof (induction rule: listens.induct)
  case (start l4 l6 L)
  then show ?case using start_ok [OF assms] by blast
next
  case (forked c L ip a1 a2 pid L' launch)
  then show ?case using accept_ok [OF forked.IH forked(2) assms forked(3,4), of pid]
    by (metis Inr_inject option.inject prod.inject)
next
  case (fork_failed c L ip a1 a2 pid L' launch)
  then show ?case using accept_ok [OF fork_failed.IH fork_failed(2) assms fork_failed(3,4), of pid] by auto
next
  case (reaped c L pid ip L')
  then show ?case using reap_ok [OF reaped.IH reaped(2)] by (metis Inr_inject option.inject)
qed

section \<open>Properties\<close>

text \<open>C16: the connection limits are enforced on exact numbers. In every state the listener can
  reach, a new connection is told the number of live children including itself and the number of
  live connections from its own address including itself, and neither accepting, a failed fork
  nor reaping any live child ever faults, stops the process or loops.\<close>

theorem listener_counts_exact:
  assumes "allocates A" and "listens A c L" and "length ip = 16"
    and "heap (s_p_ip_count_hash L) a1 = None" and "heap (s_p_pid_ip_hash L) a2 = None"
    and "sint new_child > 0 \<longrightarrow> c new_child = None"
  shows "(\<exists>L' launch. accept_client A a1 a2 L ip new_child = Some (Inr (L', launch)) \<and>
            num_children launch = of_nat (card (dom c) + 1) \<and>
            num_this_ip launch = of_nat (card {p. c p = Some ip} + 1)) \<and>
         (\<forall>pid \<in> dom c. \<exists>L'. reap_child L pid = Some (Inr L'))"
proof -
  have acc: "accounts c L" using listens_accounts assms by blast
  from accept_ok [OF acc assms(3,1,4,5), of new_child] assms(6) reap_ok [OF acc]
  show ?thesis by (fastforce simp: clients_def)
qed

definition plain_heap :: allocator where
  "plain_heap n = Some (\<lambda>i. NUL)"

lemma plain_heap_allocates: "allocates plain_heap"
  by (simp add: allocates_def plain_heap_def)

lemma plain_start:
  obtains L where "standalone_start plain_heap True False = Inr L"
    "heap (s_p_ip_count_hash L) 0 = None" "heap (s_p_pid_ip_hash L) 0 = None"
  by (auto simp: standalone_start_def hash_alloc_def vsf_sysutil_malloc_def plain_heap_def
      s_ipaddr_size_def)

theorem listener_counts_exact_witness:
  "\<exists>L L' launch. listens plain_heap (\<lambda>_. None) L \<and>
     accept_client plain_heap 0 0 L (replicate 16 NUL) 77 = Some (Inr (L', launch)) \<and>
     num_children launch = 1 \<and> num_this_ip launch = 1"
proof -
  obtain L where L: "standalone_start plain_heap True False = Inr L"
    "heap (s_p_ip_count_hash L) 0 = None" "heap (s_p_pid_ip_hash L) 0 = None" by (rule plain_start)
  have r: "listens plain_heap (\<lambda>_. None) L" using L(1) by (rule listens.start)
  from listener_counts_exact [OF plain_heap_allocates r _ L(2,3), of "replicate 16 NUL" 77] r
  show ?thesis by fastforce
qed

text \<open>C17: the accounting survives a whole run of the signal handler. From any reachable state,
  reaping a list of distinct live children returns, and afterwards the tables describe exactly
  the children that are left.\<close>

theorem sigchld_keeps_accounts:
  assumes "allocates A" and "listens A c L" and "distinct pids" and "set pids \<subseteq> dom c"
  shows "\<exists>L'. handle_sigchld L pids = Some (Inr L') \<and> accounts (\<lambda>p. if p \<in> set pids then None else c p) L'"
proof -
  have acc: "accounts c L" using listens_accounts assms by blast
  then show ?thesis using assms(3,4)
  proof (induction pids arbitrary: c L)
    case Nil
    then show ?case by (simp add: fun_eq_iff)
  next
    case (Cons p pids)
    then obtain ip where ip: "c p = Some ip" by auto
    then obtain L1 where L1: "reap_child L p = Some (Inr L1)" "accounts (c(p := None)) L1"
      using reap_ok [OF Cons.prems(1)] by blast
    have "p \<noteq> 0" using ip Cons.prems(1) unfolding accounts_def by (metis less_irrefl signed_0)
    moreover obtain L' where L': "handle_sigchld L1 pids = Some (Inr L')"
        "accounts (\<lambda>q. if q \<in> set pids then None else (c(p := None)) q) L'"
    proof -
      have "set pids \<subseteq> dom (c(p := None))" using Cons.prems(2,3) by (auto simp: dom_def)
      moreover have "distinct pids" using Cons.prems(2) by simp
      ultimately show ?thesis using Cons.IH [OF L1(2)] that by blast
    qed
    moreover have "(\<lambda>q. if q \<in> set pids then None else (c(p := None)) q) =
        (\<lambda>q. if q \<in> set (p # pids) then None else c q)" by auto
    ultimately show ?case using L1(1) by auto
  qed
qed

theorem sigchld_keeps_accounts_witness:
  "\<exists>L L'. listens plain_heap [77 \<mapsto> replicate 16 NUL] L \<and> handle_sigchld L [77] = Some (Inr L') \<and>
     accounts (\<lambda>p. if p \<in> set [77] then None else [77 \<mapsto> replicate 16 NUL] p) L'"
proof -
  obtain L where L: "standalone_start plain_heap True False = Inr L"
    "heap (s_p_ip_count_hash L) 0 = None" "heap (s_p_pid_ip_hash L) 0 = None" by (rule plain_start)
  have r: "listens plain_heap (\<lambda>_. None) L" using L(1) by (rule listens.start)
  obtain L1 launch where "accept_client plain_heap 0 0 L (replicate 16 NUL) 77 = Some (Inr (L1, launch))"
    using accept_ok [OF start_ok [OF plain_heap_allocates L(1)] _ plain_heap_allocates L(2,3),
        of "replicate 16 NUL" 77] by auto
  then have r1: "listens plain_heap [77 \<mapsto> replicate 16 NUL] L1"
    by (rule listens.forked [OF r _ L(2,3), rotated 3]) simp_all
  have sub: "set [77] \<subseteq> dom [77 \<mapsto> replicate 16 NUL]" by simp
  have d: "distinct [77 :: 32 word]" by simp
  note sigchld_keeps_accounts [OF plain_heap_allocates r1 d sub]
  with r1 show ?thesis by blast
qed

end
