(* ===== verification/NameFilter.thy ===== *)
theory NameFilter
  imports StrVal
begin

text \<open>
  The file-name matcher of \<^verbatim>\<open>ls.c\<close> and the two checks of \<^verbatim>\<open>access.c\<close> built on it. The loop of
  \<^verbatim>\<open>vsf_filename_passes_filter\<close> is \<open>passes_loop\<close>, its inner loop over the alternatives of a brace
  list, which calls the function again, is \<open>passes_braces\<close>; the shared counter \<^verbatim>\<open>*iters\<close> is threaded
  through. The reference is \<open>glob\<close>, the meaning of the patterns the comment of the code lists.
\<close>

definition VSFTP_MATCHITERS_MAX :: nat where
  "VSFTP_MATCHITERS_MAX = 1000"

text \<open>The text before the next special character of the filter, the filter behind it, and the
  character, or NUL when there is none.\<close>

definition next_token :: "bytes \<Rightarrow> bytes \<times> bytes \<times> char" where
  "next_token filter_remain =
     (let loc = str_locate_chars filter_remain ''*?{'' in
      if found loc
      then (take (index loc) filter_remain, drop (index loc + 1) filter_remain, char_found loc)
      else (filter_remain, [], NUL))"

text \<open>Matching the needed text: \<open>None\<close> is a failure, else what is left of the name.\<close>

definition chop_match :: "bytes \<Rightarrow> bytes \<Rightarrow> bool \<Rightarrow> bytes option" where
  "chop_match name_remain needed must_match_at_current_pos =
     (if needed \<noteq> [] then
        let loc = str_locate_str name_remain needed in
        if \<not> found loc then None
        else if must_match_at_current_pos \<and> index loc > 0 then None
        else Some (drop (index loc + length needed) name_remain)
      else Some name_remain)"

definition token_char :: "char \<Rightarrow> bool" where
  "token_char c \<longleftrightarrow> c = CHR ''*'' \<or> c = CHR ''?'' \<or> c = CHR ''{''"

lemma token_chars: "(\<lambda>c. c \<notin> set (cstr ''*?{'')) = (\<lambda>c. \<not> token_char c)"
  by (simp add: token_char_def fun_eq_iff)

lemma next_token_eq:
  "next_token f =
     (case dropWhile (\<lambda>c. \<not> token_char c) f of
        [] \<Rightarrow> (f, [], NUL)
      | c # cs \<Rightarrow> (takeWhile (\<lambda>c. \<not> token_char c) f, cs, c))"
proof (cases "dropWhile (\<lambda>c. \<not> token_char c) f")
  case Nil
  then show ?thesis
    unfolding next_token_def str_locate_chars_def locate_chars_loop_eq token_chars
    by (simp del: dropWhile_eq_Nil_conv)
next
  case (Cons c cs)
  let ?l = "takeWhile (\<lambda>c. \<not> token_char c) f"
  have split: "f = ?l @ c # cs" using takeWhile_dropWhile_id [of _ f] Cons by metis
  have t: "take (length ?l) f = ?l" by (metis append_eq_conv_conj split)
  have d: "drop (length ?l + 1) f = cs"
    using arg_cong [OF split, of "drop (length ?l + 1)"] by simp
  show ?thesis using Cons t d
    unfolding next_token_def str_locate_chars_def locate_chars_loop_eq token_chars
    by (simp del: dropWhile_eq_Nil_conv)
qed

lemma next_token_cases:
  assumes "next_token f = (needed, f1, tok)"
  obtains (last) "needed = f" "f1 = []" "tok = NUL" "\<forall>c \<in> set f. \<not> token_char c"
  | (token) "f = needed @ tok # f1" "token_char tok" "\<forall>c \<in> set needed. \<not> token_char c"
proof (cases "dropWhile (\<lambda>c. \<not> token_char c) f")
  case Nil
  with assms last show thesis by (simp add: next_token_eq)
next
  case (Cons c cs)
  then have "needed = takeWhile (\<lambda>c. \<not> token_char c) f" "f1 = cs" "tok = c"
    using assms by (simp_all add: next_token_eq)
  moreover have "token_char c" using hd_dropWhile [of "\<lambda>c. \<not> token_char c" f] Cons by simp
  moreover have "f = takeWhile (\<lambda>c. \<not> token_char c) f @ c # cs"
    using takeWhile_dropWhile_id [of _ f] Cons by metis
  ultimately show thesis using token by (metis set_takeWhileD)
qed

lemma next_token_length: "(needed, f1, tok) = next_token f \<Longrightarrow> f \<noteq> [] \<Longrightarrow> length f1 < length f"
  by (erule next_token_cases [OF sym]) auto

lemma split_lengths:
  assumes "c \<noteq> NUL" and "v_split_char v c = (a, b)"
  shows "length a + length b \<le> length v"
  using v_split_char_length(1) [OF assms(1), of v] assms(2) by simp

function (sequential) passes_loop :: "bytes \<Rightarrow> bytes \<Rightarrow> bool \<Rightarrow> char \<Rightarrow> nat \<Rightarrow> bool \<times> nat"
  and passes_braces :: "bytes \<Rightarrow> bytes \<Rightarrow> bytes \<Rightarrow> bytes \<Rightarrow> nat \<Rightarrow> bool \<times> nat" where
  "passes_loop filter_remain name_remain must last_token iters =
     (if filter_remain \<noteq> [] \<and> iters < VSFTP_MATCHITERS_MAX then
        let (needed, filter1, tok) = next_token filter_remain in
        case chop_match name_remain needed must of
          None \<Rightarrow> (False, iters + 1)
        | Some name1 \<Rightarrow>
            if tok = CHR ''?'' then
              if name1 = [] then (False, iters + 1)
              else passes_loop filter1 (drop 1 name1) True tok (iters + 1)
            else if tok = CHR ''{'' then
              if found (str_locate_char filter1 CHR ''}'') then
                let (brace_list, filter2) = v_split_char filter1 CHR ''}'';
                    (first, rest) = v_split_char brace_list CHR '',''
                in passes_braces first rest name1 filter2 (iters + 1)
              else if name1 = [] \<or> hd name1 \<noteq> CHR ''{'' then (False, iters + 1)
              else passes_loop filter1 (drop 1 name1) True tok (iters + 1)
            else passes_loop filter1 name1 False tok (iters + 1)
      else (\<not> (length name_remain > 0 \<and> last_token \<noteq> CHR ''*'') \<and> iters \<noteq> VSFTP_MATCHITERS_MAX, iters))"
| "passes_braces brace_list temp name_remain filter_remain iters =
     (if brace_list = [] then (False, iters)
      else
        let (r, iters') = passes_loop (brace_list @ filter_remain) name_remain True NUL iters in
        if r then (True, iters')
        else
          let (first, rest) = v_split_char temp CHR '','' in
          passes_braces first rest name_remain filter_remain iters')"
  by pat_completeness auto
termination
proof (relation "measure (\<lambda>x. case x of
      Inl (f, n, m, l, i) \<Rightarrow> 2 * length f
    | Inr (b, t, n, f, i) \<Rightarrow> 2 * (length b + length t + length f) + 1)", goal_cases)
  case (3 f n m l i p a q f1 tok n1 p1 bl f2 p2 b t)
  have "length f1 < length f" using 3 next_token_length [of _ f1 tok f] by auto
  moreover have "length bl + length f2 \<le> length f1" "length b + length t \<le> length bl"
    using 3 split_lengths [of "CHR ''}''" f1 bl f2] split_lengths [of "CHR '',''" bl b t] by simp_all
  ultimately show ?case by simp
next
  case (7 b t n f i p r i' p' first rest)
  then show ?case using split_lengths [of "CHR '',''" t first rest] by (cases b) auto
qed (auto dest: next_token_length)

declare passes_loop.simps [simp del] passes_braces.simps [simp del]

definition vsf_filename_passes_filter :: "bytes \<Rightarrow> bytes \<Rightarrow> nat \<Rightarrow> bool \<times> nat" where
  "vsf_filename_passes_filter p_filename_str p_filter_str iters =
     passes_loop p_filter_str p_filename_str True NUL iters"

section \<open>The meaning of a filter\<close>

lemma pieces_length: "g \<in> set (pieces c s) \<Longrightarrow> length g \<le> length s"
proof (induction s arbitrary: g)
  case (Cons a s)
  show ?case
  proof (cases "a = c")
    case False
    then have "g = a # hd (pieces c s) \<or> g \<in> set (tl (pieces c s))" using Cons.prems by auto
    then show ?thesis
    proof
      assume "g = a # hd (pieces c s)"
      then show ?thesis using Cons.IH [of "hd (pieces c s)"] by simp
    next
      assume "g \<in> set (tl (pieces c s))"
      then show ?thesis using Cons.IH [of g] by (metis pieces_not_Nil le_SucI length_Cons list.set_sel(2))
    qed
  qed (use Cons in \<open>auto intro: le_SucI\<close>)
qed simp

function glob :: "bytes \<Rightarrow> bytes \<Rightarrow> bool" where
  "glob [] name = (name = [])"
| "glob (c # p) name =
     (if c = CHR ''*'' then \<exists>k \<in> set [0..<Suc (length name)]. glob p (drop k name)
      else if c = CHR ''?'' then name \<noteq> [] \<and> glob p (drop 1 name)
      else if c = CHR ''{'' \<and> CHR ''}'' \<in> set p then
        \<exists>g \<in> set (pieces CHR '','' (fst (v_split_char p CHR ''}''))).
          glob (g @ snd (v_split_char p CHR ''}'')) name
      else name \<noteq> [] \<and> hd name = c \<and> glob p (drop 1 name))"
  by pat_completeness auto
termination
proof (relation "measure (\<lambda>(p, n). length p)", goal_cases)
  case (4 c p name g)
  then have "length g \<le> length (fst (v_split_char p CHR ''}''))" by (intro pieces_length)
  then show ?case using v_split_char_length(1) [of "CHR ''}''" p] by simp
qed auto

declare glob.simps(2) [simp del]

lemma glob_literal:
  "\<forall>c \<in> set l. \<not> token_char c \<Longrightarrow> glob (l @ p) (l @ n) = glob p n"
  by (induction l) (auto simp: glob.simps(2) token_char_def)

lemma glob_star: "glob (CHR ''*'' # p) name \<longleftrightarrow> (\<exists>k \<le> length name. glob p (drop k name))"
  by (auto simp: glob.simps(2) less_Suc_eq_le simp del: upt_Suc)

lemma split_char_sets: "v_split_char v c = (a, b) \<Longrightarrow> set a \<subseteq> set v \<and> set b \<subseteq> set v"
  by (auto simp: v_split_char_def v_split_text_def v_split_common_def Let_def
      dest: in_set_takeD in_set_dropD split: if_splits)

lemma chop_match_Some:
  assumes "chop_match n needed must = Some n1" and "NUL \<notin> set needed"
  obtains k where "k \<le> length n" "drop k n = needed @ n1" "must \<longrightarrow> k = 0"
proof (cases "needed = []")
  case True
  then show thesis using assms(1) that [of 0] by (simp add: chop_match_def)
next
  case False
  let ?loc = "str_locate_str n needed"
  have f: "found ?loc" "n1 = drop (index ?loc + length needed) n" "must \<longrightarrow> index ?loc = 0"
    using assms(1) False by (auto simp: chop_match_def Let_def split: if_splits)
  have "occurs_at n needed (index ?loc)"
    using locate_found_occurs [of False n needed] f(1) assms(2) by (simp add: str_locate_str_def)
  then have "n = take (index ?loc) n @ needed @ n1" "index ?loc + length needed \<le> length n"
    using occurs_atD f(2) by (auto simp: occurs_at_def)
  then show thesis using f(3) that [of "index ?loc"]
    by (metis add_leD1 append_eq_conv_conj length_take min.absorb2)
qed

text \<open>The counter never passes its limit.\<close>

lemma passes_iters:
  "i \<le> VSFTP_MATCHITERS_MAX \<Longrightarrow> snd (passes_loop f n m l i) \<le> VSFTP_MATCHITERS_MAX"
  "i \<le> VSFTP_MATCHITERS_MAX \<Longrightarrow> snd (passes_braces b t n f i) \<le> VSFTP_MATCHITERS_MAX"
proof (induction f n m l i and b t n f i rule: passes_loop_passes_braces.induct)
  case (1 f n m l i)
  then show ?case by (subst passes_loop.simps) (auto split: prod.splits option.splits)
next
  case (2 b t n f i)
  then show ?case by (subst passes_braces.simps) (auto split: prod.splits)
qed

definition may_start :: "char \<Rightarrow> bytes \<Rightarrow> bytes \<Rightarrow> bool" where
  "may_start l f n = (if l = CHR ''*'' then \<exists>k \<le> length n. glob f (drop k n) else glob f n)"

lemma may_startI:
  assumes "k \<le> length n" and "drop k n = needed @ n1" and "l \<noteq> CHR ''*'' \<longrightarrow> k = 0"
    and "\<forall>c \<in> set needed. \<not> token_char c" and "glob f n1"
  shows "may_start l (needed @ f) n"
proof -
  have "glob (needed @ f) (drop k n)" using assms glob_literal by simp
  then show ?thesis using assms(1,3) by (auto simp: may_start_def)
qed

text \<open>One turn of the loop, by the token it meets.\<close>

lemma passes_sound_aux:
  "fst (passes_loop f n must l i) \<Longrightarrow> i \<le> VSFTP_MATCHITERS_MAX \<Longrightarrow> NUL \<notin> set f \<Longrightarrow>
     (f \<noteq> [] \<Longrightarrow> must \<longleftrightarrow> l \<noteq> CHR ''*'') \<Longrightarrow> may_start l f n"
  "fst (passes_braces b t n f i) \<Longrightarrow> i \<le> VSFTP_MATCHITERS_MAX \<Longrightarrow> NUL \<notin> set (b @ t @ f) \<Longrightarrow>
     \<exists>g \<in> set (b # pieces CHR '','' t). g \<noteq> [] \<and> glob (g @ f) n"
proof (induction f n must l i and b t n f i rule: passes_loop_passes_braces.induct)
  case (1 f n must l i)
  show ?case
  proof (cases "f \<noteq> [] \<and> i < VSFTP_MATCHITERS_MAX")
    case False
    then have "f = []" "n = [] \<or> l = CHR ''*''"
      using "1.prems"(1,2) by (auto simp: passes_loop.simps [of f])
    then show ?thesis by (auto simp: may_start_def)
  next
    case go: True
    obtain needed f1 tok where tok: "next_token f = (needed, f1, tok)" by (cases "next_token f") auto
    obtain n1 where n1: "chop_match n needed must = Some n1"
      using "1.prems"(1) go tok by (subst (asm) passes_loop.simps) (auto split: option.splits)
    have set: "set needed \<subseteq> set f" "set f1 \<subseteq> set f"
      using tok by (cases rule: next_token_cases; auto)+
    obtain k where k: "k \<le> length n" "drop k n = needed @ n1" "must \<longrightarrow> k = 0"
      using chop_match_Some [OF n1] set(1) "1.prems"(3) by blast
    have plain: "\<forall>c \<in> set needed. \<not> token_char c" using tok by (cases rule: next_token_cases) auto
    note start = may_startI [OF k(1,2) _ plain]
    have at: "l \<noteq> CHR ''*'' \<longrightarrow> k = 0" using k(3) "1.prems"(4) go by blast
    have i1: "i + 1 \<le> VSFTP_MATCHITERS_MAX" using go by simp
    have nul: "NUL \<notin> set f1" using set(2) "1.prems"(3) by auto
    have run: "passes_loop f n must l i =
       (if tok = CHR ''?'' then
          if n1 = [] then (False, i + 1) else passes_loop f1 (drop 1 n1) True tok (i + 1)
        else if tok = CHR ''{'' then
          if found (str_locate_char f1 CHR ''}'') then
            let (brace_list, filter2) = v_split_char f1 CHR ''}'';
                (first, rest) = v_split_char brace_list CHR '',''
            in passes_braces first rest n1 filter2 (i + 1)
          else if n1 = [] \<or> hd n1 \<noteq> CHR ''{'' then (False, i + 1)
          else passes_loop f1 (drop 1 n1) True tok (i + 1)
        else passes_loop f1 n1 False tok (i + 1))"
      using go tok n1 by (subst passes_loop.simps) simp
    have one: "tok = CHR ''?'' \<or> tok = CHR ''{'' \<and> \<not> found (str_locate_char f1 CHR ''}'') \<Longrightarrow> n1 \<noteq> [] \<Longrightarrow>
        tok = CHR ''{'' \<longrightarrow> hd n1 = CHR ''{'' \<Longrightarrow>
        fst (passes_loop f1 (drop 1 n1) True tok (i + 1)) \<Longrightarrow> glob f1 (drop 1 n1)"
      using "1.IH"(1,3) go tok n1 i1 nul by (auto simp: may_start_def)
    have brace: "tok = CHR ''{'' \<Longrightarrow> found (str_locate_char f1 CHR ''}'') \<Longrightarrow>
        v_split_char f1 CHR ''}'' = (bl, f2) \<Longrightarrow> v_split_char bl CHR '','' = (b, t) \<Longrightarrow>
        fst (passes_braces b t n1 f2 (i + 1)) \<Longrightarrow> NUL \<notin> set (b @ t @ f2) \<Longrightarrow>
        \<exists>g \<in> set (b # pieces CHR '','' t). g \<noteq> [] \<and> glob (g @ f2) n1" for bl f2 b t
      using "1.IH"(2) go tok n1 i1 by auto
    have star: "tok \<noteq> CHR ''?'' \<Longrightarrow> tok \<noteq> CHR ''{'' \<Longrightarrow> fst (passes_loop f1 n1 False tok (i + 1)) \<Longrightarrow>
        (f1 \<noteq> [] \<Longrightarrow> tok = CHR ''*'') \<Longrightarrow> may_start tok f1 n1"
      using "1.IH"(4) go tok n1 i1 nul by auto
    have "fst (passes_loop f n must l i)" by (fact "1.prems"(1))
    note pass = this [unfolded run]
    from tok show ?thesis
    proof (cases rule: next_token_cases)
      case last
      then have "may_start tok f1 n1" using star pass by simp
      then show ?thesis using start [OF at, of "[]"] last by (simp add: may_start_def)
    next
      case token
      have "glob (tok # f1) n1"
      proof (cases "tok = CHR ''*''")
        case True
        then have "may_start tok f1 n1" using star pass by simp
        with True show ?thesis by (simp add: may_start_def glob_star)
      next
        case False
        then consider (any) "tok = CHR ''?''" | (brace) "tok = CHR ''{''" "CHR ''}'' \<in> set f1"
          | (lit) "tok = CHR ''{''" "CHR ''}'' \<notin> set f1"
          using token(2) by (auto simp: token_char_def)
        then show ?thesis
        proof cases
          case any
          then show ?thesis using one pass by (auto simp: glob.simps(2) split: if_splits)
        next
          case br: brace
          obtain bl f2 where sp: "v_split_char f1 CHR ''}'' = (bl, f2)" by fastforce
          obtain b t where sp2: "v_split_char bl CHR '','' = (b, t)" by fastforce
          have sets: "set bl \<subseteq> set f1" "set f2 \<subseteq> set f1" "set b \<subseteq> set bl" "set t \<subseteq> set bl"
            using split_char_sets [OF sp] split_char_sets [OF sp2] by auto
          have f: "found (str_locate_char f1 CHR ''}'')" using br(2) by (simp add: str_locate_char_found)
          then have "fst (passes_braces b t n1 f2 (i + 1))" using pass br(1) sp sp2 by simp
          moreover have "NUL \<notin> set (b @ t @ f2)" using sets nul by auto
          ultimately obtain g where g: "g \<in> set (b # pieces CHR '','' t)" "g \<noteq> []" "glob (g @ f2) n1"
            using brace [OF br(1) f sp sp2] by blast
          have "g \<in> set (pieces CHR '','' bl)"
            using split_char_pieces [OF _ sp2] g(1,2) by (cases "CHR '','' \<in> set bl") auto
          with g(3) br sp show ?thesis by (auto simp: glob.simps(2))
        next
          case lit
          then show ?thesis using one pass
            by (auto simp: glob.simps(2) str_locate_char_found split: if_splits)
        qed
      qed
      then show ?thesis using start [OF at, of "tok # f1"] token(1) by simp
    qed
  qed
next
  case (2 b t n f i)
  have b: "b \<noteq> []" using "2.prems"(1) by (auto simp: passes_braces.simps [of b])
  obtain r i' where r: "passes_loop (b @ f) n True NUL i = (r, i')" by fastforce
  show ?case
  proof (cases r)
    case True
    then have "may_start NUL (b @ f) n"
      using "2.IH"(1) [OF b] "2.prems" r by simp
    with b show ?thesis by (simp add: may_start_def)
  next
    case False
    obtain b' t' where sp: "v_split_char t CHR '','' = (b', t')" by fastforce
    have "i' \<le> VSFTP_MATCHITERS_MAX" using passes_iters(1) [OF "2.prems"(2), of "b @ f" n True NUL] r by simp
    moreover have "fst (passes_braces b' t' n f i')"
      using "2.prems"(1) b r False sp by (subst (asm) passes_braces.simps) simp
    moreover have "NUL \<notin> set (b' @ t' @ f)" using split_char_sets [OF sp] "2.prems"(3) by auto
    ultimately obtain g where g: "g \<in> set (b' # pieces CHR '','' t')" "g \<noteq> []" "glob (g @ f) n"
      using "2.IH"(2) [OF b r [symmetric] refl False sp [symmetric] refl] by blast
    have "g \<in> set (pieces CHR '','' t)"
      using split_char_pieces [OF _ sp] g(1,2) by (cases "CHR '','' \<in> set t") auto
    with g show ?thesis by auto
  qed
qed

section \<open>Access checks\<close>

text \<open>\<^verbatim>\<open>access.c\<close>; the tunable is \<open>None\<close> when it is not set.\<close>

definition vsf_access_check_file :: "bytes option \<Rightarrow> bytes \<Rightarrow> bool" where
  "vsf_access_check_file tunable_deny_file p_filename_str =
     (case tunable_deny_file of
        None \<Rightarrow> True
      | Some t \<Rightarrow>
          let s_access_str = cstr t in
          if fst (vsf_filename_passes_filter p_filename_str s_access_str 0) then False
          else if found (str_locate_str p_filename_str s_access_str) then False
          else True)"

definition vsf_access_check_file_visible :: "bytes option \<Rightarrow> bytes \<Rightarrow> bool" where
  "vsf_access_check_file_visible tunable_hide_file p_filename_str =
     (case tunable_hide_file of
        None \<Rightarrow> True
      | Some t \<Rightarrow>
          let s_access_str = cstr t in
          if fst (vsf_filename_passes_filter p_filename_str s_access_str 0) then False
          else if found (str_locate_str p_filename_str s_access_str) then False
          else True)"

section \<open>Lemmas: patterns that are matched exactly\<close>

lemma locate_prefix:
  assumes "l \<noteq> []" and "NUL \<notin> set l"
  shows "chop_match n l True = (if prefix l n then Some (drop (length l) n) else None)"
proof -
  have eq: "str_locate_str n l =
      (if \<exists>j. occurs_at n l j then found_at (LEAST j. occurs_at n l j) else not_found)"
    using assms by (simp add: str_locate_str_def str_locate_text_eq)
  have zero: "occurs_at n l 0 \<longleftrightarrow> prefix l n"
    by (auto simp: occurs_at_iff prefix_def)
  show ?thesis
  proof (cases "prefix l n")
    case True
    then have "(LEAST j. occurs_at n l j) = 0" using zero by (intro Least_equality) auto
    with True zero assms(1) show ?thesis unfolding chop_match_def eq by (auto simp: Let_def)
  next
    case False
    have "\<exists>j. occurs_at n l j \<Longrightarrow> (LEAST j. occurs_at n l j) \<noteq> 0"
      using zero False LeastI_ex [of "occurs_at n l"] by metis
    with False assms(1) show ?thesis unfolding chop_match_def eq by (auto simp: Let_def)
  qed
qed

lemma passes_end:
  "passes_loop [] n m l i = (\<not> (length n > 0 \<and> l \<noteq> CHR ''*'') \<and> i \<noteq> VSFTP_MATCHITERS_MAX, i)"
  by (subst passes_loop.simps) simp

lemma next_token_plain: "\<forall>c \<in> set l. \<not> token_char c \<Longrightarrow> next_token l = (l, [], NUL)"
  using dropWhile_append2 [of l "\<lambda>c. \<not> token_char c" "[]"] by (simp add: next_token_eq del: dropWhile_eq_Nil_conv)

lemma next_token_star: "\<forall>c \<in> set l. \<not> token_char c \<Longrightarrow> next_token (l @ ''*'') = (l, [], CHR ''*'')"
  by (simp add: next_token_eq token_char_def)

lemma passes_literal:
  assumes "l \<noteq> []" and "NUL \<notin> set l" and "\<forall>c \<in> set l. \<not> token_char c"
  shows "fst (vsf_filename_passes_filter n l 0) \<longleftrightarrow> n = l"
    and "fst (vsf_filename_passes_filter n (l @ ''*'') 0) \<longleftrightarrow> prefix l n"
  using assms
  by (auto simp: vsf_filename_passes_filter_def passes_loop.simps [of l] passes_loop.simps [of "l @ ''*''"]
      next_token_plain next_token_star locate_prefix passes_end VSFTP_MATCHITERS_MAX_def prefix_def)

section \<open>Properties\<close>

text \<open>C32: a name that passes a filter is one the pattern language of the comment describes: for
  every filter without NUL and every name, if \<^verbatim>\<open>vsf_filename_passes_filter\<close> accepts then the name
  matches with its wildcards, single characters and (possibly repeated) brace lists. The loop
  always ends, within 1000 turns counted over all nested calls.\<close>

theorem filter_sound:
  assumes "NUL \<notin> set p_filter"
  shows "(fst (vsf_filename_passes_filter name p_filter 0) \<longrightarrow> glob p_filter name) \<and>
         snd (vsf_filename_passes_filter name p_filter 0) \<le> VSFTP_MATCHITERS_MAX"
  using passes_sound_aux(1) [of p_filter name True NUL 0] passes_iters(1) [of 0 p_filter name True NUL] assms
  by (simp add: vsf_filename_passes_filter_def may_start_def)

theorem filter_sound_witness:
  "fst (vsf_filename_passes_filter ''a1.jpg'' ''a?.{gif,jpg}'' 0) \<and> glob ''a?.{gif,jpg}'' ''a1.jpg''"
proof -
  have h: "NUL \<notin> set ''a?.{gif,jpg}''" by simp
  have "fst (vsf_filename_passes_filter ''a1.jpg'' ''a?.{gif,jpg}'' 0)" by code_simp
  with filter_sound [OF h] show ?thesis by blast
qed

text \<open>C33: the deny pattern. A name that \<^verbatim>\<open>vsf_access_check_file\<close> refuses matches the configured
  pattern or contains it literally; with a pattern without special characters a name is refused
  exactly when it contains the pattern, and with a pattern that is a literal followed by one star
  exactly when it starts with the literal or contains the pattern itself.\<close>

theorem deny_file_exact:
  assumes "NUL \<notin> set l" and "l \<noteq> []" and "\<forall>c \<in> set l. \<not> token_char c" and "NUL \<notin> set p"
  shows "(\<not> vsf_access_check_file (Some p) name \<longrightarrow> glob p name \<or> (\<exists>j. occurs_at name p j)) \<and>
         (\<not> vsf_access_check_file (Some l) name \<longleftrightarrow> (\<exists>j. occurs_at name l j)) \<and>
         (\<not> vsf_access_check_file (Some (l @ ''*'')) name \<longleftrightarrow>
            prefix l name \<or> (\<exists>j. occurs_at name (l @ ''*'') j))"
proof (intro conjI impI)
  have nul: "NUL \<notin> set (l @ ''*'')" using assms(1) by simp
  have loc: "found (str_locate_str name q) \<Longrightarrow> \<exists>j. occurs_at name q j" if "NUL \<notin> set q" for q
    using locate_found_occurs [of False name q] that by (auto simp: str_locate_str_def)
  have loc': "found (str_locate_str name q) \<longleftrightarrow> (\<exists>j. occurs_at name q j)" if "NUL \<notin> set q" "q \<noteq> []" for q
    using that by (simp add: str_locate_str_def str_locate_text_eq)
  show "glob p name \<or> (\<exists>j. occurs_at name p j)" if "\<not> vsf_access_check_file (Some p) name"
    using that loc [OF assms(4)] assms(4) passes_sound_aux(1) [of p name True NUL 0]
    by (auto simp: vsf_access_check_file_def Let_def vsf_filename_passes_filter_def may_start_def split: if_splits)
  have "occurs_at l l 0" by (simp add: occurs_at_iff)
  then show "\<not> vsf_access_check_file (Some l) name \<longleftrightarrow> (\<exists>j. occurs_at name l j)"
    using passes_literal(1) [OF assms(2,1,3), of name] loc' [OF assms(1,2)] assms(1)
    by (auto simp: vsf_access_check_file_def Let_def)
  show "\<not> vsf_access_check_file (Some (l @ ''*'')) name \<longleftrightarrow>
      prefix l name \<or> (\<exists>j. occurs_at name (l @ ''*'') j)"
    using passes_literal(2) [OF assms(2,1,3), of name] loc' [OF nul] cstr_id [OF nul]
    by (simp add: vsf_access_check_file_def Let_def)
qed

theorem deny_file_exact_witness:
  "\<not> vsf_access_check_file (Some ''.htpasswd'') ''pub/.htpasswd''"
proof -
  have h: "NUL \<notin> set ''.htpasswd''" "''.htpasswd'' \<noteq> []" "\<forall>c \<in> set ''.htpasswd''. \<not> token_char c"
    by (simp_all add: token_char_def)
  have "occurs_at ''pub/.htpasswd'' ''.htpasswd'' 4" by code_simp
  with deny_file_exact [OF h h(1), of "''pub/.htpasswd''"] show ?thesis by blast
qed

text \<open>The matcher takes the first place where a literal fits and never another one, so a pattern
  that begins with a star misses names that repeat the literal; and behind a star an alternative
  of a brace list must fit at once.\<close>

lemma filter_incomplete:
  "glob ''*.c'' ''a.c.c'' \<and> vsf_access_check_file (Some ''*.c'') ''a.c.c'' \<and>
   glob ''*{a,b}'' ''xxa'' \<and> vsf_access_check_file (Some ''*{a,b}'') ''xxa''"
  by code_simp

end
