(* ===== verification/Paths.thy ===== *)
theory Paths
  imports NameFilter
begin

text \<open>
  The path handling that \<^verbatim>\<open>postlogin.c\<close>, \<^verbatim>\<open>ls.c\<close>, \<^verbatim>\<open>sysstr.c\<close> and \<^verbatim>\<open>access.c\<close> share: the user's root
  directory, turning an argument into a full path, removing dots from it by rewriting the text,
  and the check that the result lies below the root. The working directory is an argument (what
  \<^verbatim>\<open>getcwd\<close> returned; empty when it failed). The reference is \<open>resolve\<close>, the directory a path names
  when its components are followed one by one.
\<close>

record root_conf =
  user_home_dir :: bytes
  cos_appid :: bytes
  cos_bucket :: bytes

definition get_user_root_dir :: "root_conf \<Rightarrow> bytes" where
  "get_user_root_dir rc =
     (let d0 = cstr (user_home_dir rc);
          d1 = (if d0 = [] then d0 @ ''./'' else d0);
          d2 = (if last d1 \<noteq> CHR ''/'' then d1 @ ''/'' else d1)
      in d2 @ cstr (cos_appid rc) @ ''/'' @ cstr (cos_bucket rc))"

definition str_session_getcwd :: "root_conf \<Rightarrow> bytes \<Rightarrow> bytes" where
  "str_session_getcwd rc cwd = v_replace_text cwd (get_user_root_dir rc) []"

definition cwd_prefix :: "bytes \<Rightarrow> bytes" where
  "cwd_prefix cwd = (if cwd = [] \<or> last cwd \<noteq> CHR ''/'' then cwd @ ''/'' else cwd)"

definition prepend_path_to_filename :: "bytes \<Rightarrow> bytes \<Rightarrow> bytes" where
  "prepend_path_to_filename cwd p_str =
     (if p_str = [] \<or> hd p_str \<noteq> CHR ''/'' then cwd_prefix cwd else []) @ p_str"

definition prepend_session_path_to_filename :: "root_conf \<Rightarrow> bytes \<Rightarrow> bytes \<Rightarrow> bytes" where
  "prepend_session_path_to_filename rc cwd p_str =
     (if p_str = [] \<or> hd p_str \<noteq> CHR ''/'' then cwd_prefix cwd else get_user_root_dir rc) @ p_str"

section \<open>Replacing text: what a run keeps\<close>

text \<open>A property that survives one replacement survives \<^verbatim>\<open>str_replace_text\<close>.\<close>

lemma replace_loop_keeps:
  assumes "\<And>a b. P (a @ cstr f @ b) \<Longrightarrow> P (a @ cstr t @ b)" and "P (acc @ chunk)"
  shows "P (replace_text_loop f t chunk acc)"
  using assms
proof (induction f t chunk acc rule: replace_text_loop.induct)
  case (1 f t chunk acc)
  obtain l r where lr: "v_split_text chunk f = (l, r)" by fastforce
  show ?case
  proof (cases "cstr f \<noteq> [] \<and> (\<exists>j. occurs_at chunk (cstr f) j)")
    case True
    then obtain j where "occurs_at chunk (cstr f) j" by blast
    then have c: "chunk = l @ cstr f @ r" using v_split_text_found [OF refl _ _ lr] True by blast
    then have less: "length l < length chunk" using True by simp
    have P: "P ((acc @ l) @ cstr t @ r)" by (rule "1.prems"(1)) (use "1.prems"(2) c in simp)
    show ?thesis
    proof (cases "r = []")
      case True
      with P lr less show ?thesis by (subst replace_text_loop.simps) simp
    next
      case False
      have "P (replace_text_loop f t r (acc @ l @ cstr t))"
        using "1.IH" [of "(l, r)" "acc @ l @ cstr t"] lr less False "1.prems"(1) P by simp
      with lr less False show ?thesis by (subst replace_text_loop.simps) simp
    qed
  next
    case False
    then have "v_split_text chunk f = (chunk, [])"
      using v_split_text_missing [OF refl, of chunk f]
      by (auto simp: v_split_text_def v_split_common_def str_locate_text_def)
    with "1.prems"(2) show ?thesis by (subst replace_text_loop.simps) simp
  qed
qed

lemma replace_keeps:
  "(\<And>a b. P (a @ cstr f @ b) \<Longrightarrow> P (a @ cstr t @ b)) \<Longrightarrow> P v \<Longrightarrow> P (v_replace_text v f t)"
  unfolding v_replace_text_def by (rule replace_loop_keeps [where acc = "[]"]) auto

lemma sublist_occurs: "sublist t v \<longleftrightarrow> (\<exists>j. occurs_at v t j)"
  by (auto simp: sublist_def occurs_at_iff)

lemma replace_length:
  assumes "length (cstr t) \<le> length (cstr f)"
  shows "length (v_replace_text v f t) \<le> length v"
  by (rule replace_keeps [where P = "\<lambda>x. length x \<le> length v"]) (use assms in auto)

lemma replace_shorter:
  assumes "length (cstr t) < length (cstr f)" and "sublist (cstr f) v"
  shows "length (v_replace_text v f t) < length v"
proof -
  obtain l r where lr: "v_split_text v f = (l, r)" by fastforce
  obtain j where "occurs_at v (cstr f) j" using assms(2) by (auto simp: sublist_occurs)
  then have v: "v = l @ cstr f @ r" using v_split_text_found [OF refl _ _ lr] assms(1) by fastforce
  have less: "length l < length v" using v assms(1) by (cases "cstr f") auto
  have short: "length (l @ cstr t @ r) < length v" using v assms(1) by simp
  show ?thesis
  proof (cases "r = []")
    case True
    with lr less short show ?thesis
      unfolding v_replace_text_def by (subst replace_text_loop.simps) simp
  next
    case False
    have "length (replace_text_loop f t r (l @ cstr t)) \<le> length (l @ cstr t @ r)"
      by (rule replace_loop_keeps [where P = "\<lambda>x. length x \<le> length (l @ cstr t @ r)"])
         (use assms(1) in auto)
    with lr less short False show ?thesis
      unfolding v_replace_text_def by (subst replace_text_loop.simps) simp
  qed
qed

lemma replace_missing:
  assumes "\<not> sublist (cstr f) v"
  shows "v_replace_text v f t = v"
  using v_split_text_missing [OF refl, of v f] assms
  by (simp add: v_replace_text_def replace_text_loop.simps [of f] sublist_occurs)

section \<open>Removing dots\<close>

function remove_dots :: "bytes \<Rightarrow> bytes" where
  "remove_dots p_path =
     (let q = v_replace_text p_path ''/./'' ''/'' in
      if length q = length p_path then q else remove_dots q)"
  by pat_completeness auto
termination
proof (relation "measure length")
  fix p q :: bytes
  assume "q = v_replace_text p ''/./'' ''/''" and "length q \<noteq> length p"
  then show "(q, p) \<in> measure length" using replace_length [of "''/''" "''/./''" p] by auto
qed simp

declare remove_dots.simps [simp del]

lemma split_text_cases:
  assumes "cstr t \<noteq> []" and "v_split_text v t = (l, r)"
  obtains (found) "v = l @ cstr t @ r" "\<forall>i < length l. \<not> occurs_at v (cstr t) i" "length l < length v"
  | (missing) "\<not> sublist (cstr t) v" "l = v" "r = []"
proof (cases "sublist (cstr t) v")
  case True
  then obtain j where "occurs_at v (cstr t) j" by (auto simp: sublist_occurs)
  from v_split_text_found [OF refl assms(1) this assms(2)] assms(1) show thesis
    using found by (metis length_append less_add_same_cancel1 add_pos_nonneg length_greater_0_conv zero_le)
next
  case False
  then show thesis using v_split_text_missing [OF refl, of v t] assms(2) missing by (simp add: sublist_occurs)
qed

text \<open>What is left of the text before its last slash, or all of it when there is none.\<close>

definition parent_text :: "bytes \<Rightarrow> bytes" where
  "parent_text lhs = fst (v_split_char_reverse lhs CHR ''/'')"

lemma parent_text_cases:
  obtains (slash) seg where "lhs = parent_text lhs @ CHR ''/'' # seg" "CHR ''/'' \<notin> set seg"
  | (plain) "parent_text lhs = lhs" "CHR ''/'' \<notin> set lhs"
proof (cases "CHR ''/'' \<in> set lhs")
  case True
  then obtain j where j: "occurs_at lhs [CHR ''/''] j" using occurs_ex_singleton by metis
  obtain l r where lr: "v_split_text_reverse lhs [CHR ''/'', NUL] = (l, r)" by fastforce
  have s: "lhs = l @ [CHR ''/''] @ r \<and> (\<forall>i. length l < i \<longrightarrow> \<not> occurs_at lhs [CHR ''/''] i)"
    by (rule v_split_text_reverse_found [OF _ _ j lr]) simp_all
  have "CHR ''/'' \<notin> set r"
  proof
    assume "CHR ''/'' \<in> set r"
    then obtain a b where "r = a @ CHR ''/'' # b" using split_list by metis
    then have "lhs = (l @ CHR ''/'' # a) @ [CHR ''/''] @ b" using s by simp
    then have "occurs_at lhs [CHR ''/''] (length (l @ CHR ''/'' # a))"
      unfolding occurs_at_iff by blast
    with s show False by auto
  qed
  with s lr slash show thesis by (simp add: parent_text_def v_split_char_reverse_def)
next
  case False
  then have "\<not> found (str_locate_text_reverse lhs [CHR ''/'', NUL])"
    using locate_found_occurs [of True lhs "[CHR ''/'', NUL]"] occurs_ex_singleton [of lhs "CHR ''/''"]
    by auto
  then show thesis using plain False
    by (simp add: parent_text_def v_split_char_reverse_def v_split_text_reverse_def v_split_common_def)
qed

lemma parent_text_length: "length (parent_text lhs) \<le> length lhs"
proof (cases rule: parent_text_cases [of lhs])
  case (slash seg)
  then have "length lhs = length (parent_text lhs @ CHR ''/'' # seg)" by simp
  then show ?thesis by simp
qed simp

function remove_dotdots :: "bytes \<Rightarrow> bytes" where
  "remove_dotdots p_path =
     (let (lhs, rhs) = v_split_text p_path ''/../'' in
      if length lhs = length p_path then lhs
      else remove_dotdots (parent_text lhs @ (if rhs \<noteq> [] then ''/'' @ rhs else [])))"
  by pat_completeness auto
termination
proof (relation "measure length")
  fix p x lhs rhs :: bytes and y
  assume "y = v_split_text p ''/../''" and "(lhs, rhs) = y" and ne: "length lhs \<noteq> length p"
  then have "v_split_text p ''/../'' = (lhs, rhs)" by simp
  then have "length lhs + 4 + length rhs = length p"
    by (cases rule: split_text_cases [rotated]) (use ne in auto)
  then show "(parent_text lhs @ (if rhs \<noteq> [] then ''/'' @ rhs else []), p) \<in> measure length"
    using parent_text_length [of lhs] by simp
qed simp

declare remove_dotdots.simps [simp del]

definition real_path :: "bytes \<Rightarrow> bytes \<Rightarrow> bytes" where
  "real_path cwd p_path = remove_dotdots (remove_dots (prepend_path_to_filename cwd p_path))"

definition session_real_path :: "root_conf \<Rightarrow> bytes \<Rightarrow> bytes \<Rightarrow> bytes" where
  "session_real_path rc cwd p_path =
     remove_dotdots (remove_dots (prepend_session_path_to_filename rc cwd p_path))"

section \<open>Where a path leads\<close>

text \<open>One component: nothing for an empty one or a dot, up for two dots, else down.\<close>

definition step_into :: "bytes list \<Rightarrow> bytes \<Rightarrow> bytes list" where
  "step_into st c = (if c = [] \<or> c = ''.'' then st else if c = ''..'' then butlast st else st @ [c])"

definition walk_path :: "bytes list \<Rightarrow> bytes \<Rightarrow> bytes list" where
  "walk_path st p = foldl step_into st (pieces CHR ''/'' p)"

definition resolve :: "bytes \<Rightarrow> bytes list" where
  "resolve p = walk_path [] p"

lemma walk_append: "walk_path st (l @ CHR ''/'' # r) = walk_path (walk_path st l) r"
  by (simp add: walk_path_def pieces_append)

lemma walk_Nil [simp]: "walk_path st [] = st"
  by (simp add: walk_path_def step_into_def)

lemma walk_plain: "CHR ''/'' \<notin> set c \<Longrightarrow> walk_path st c = step_into st c"
  by (simp add: walk_path_def pieces_no_sep)

lemma walk_dot: "walk_path st (l @ ''/./'' @ r) = walk_path st (l @ ''/'' @ r)"
  using walk_append [of st l "''.'' @ CHR ''/'' # r"] walk_append [of "walk_path st l" "''.''" r]
    walk_append [of st l r]
  by (simp add: walk_plain step_into_def)

lemma walk_up: "walk_path st (l @ ''/../'' @ r) = walk_path (butlast (walk_path st l)) r"
  using walk_append [of st l "''..'' @ CHR ''/'' # r"] walk_append [of "walk_path st l" "''..''" r]
  by (simp add: walk_plain step_into_def)

lemma remove_dots_props:
  "resolve (remove_dots p) = resolve p" "\<not> sublist ''/./'' (remove_dots p)"
  "set (remove_dots p) \<subseteq> set p"
proof (induction p rule: remove_dots.induct)
  case (1 p)
  let ?q = "v_replace_text p ''/./'' ''/''"
  have r: "resolve ?q = resolve p"
    by (rule replace_keeps [where P = "\<lambda>x. resolve x = resolve p"])
       (simp_all add: resolve_def walk_dot [of "[]" _ _, simplified])
  have s: "set ?q \<subseteq> set p"
    by (rule replace_keeps [where P = "\<lambda>x. set x \<subseteq> set p"]) auto
  have eq: "length ?q = length p \<Longrightarrow> \<not> sublist ''/./'' p \<and> ?q = p"
    using replace_shorter [of "''/''" "''/./''" p] replace_missing [of "''/./''" p "''/''"] by auto
  show "resolve (remove_dots p) = resolve p"
    using 1(1) [OF refl] r by (subst remove_dots.simps) (simp add: Let_def)
  show "\<not> sublist ''/./'' (remove_dots p)"
    using 1(2) [OF refl] eq by (subst remove_dots.simps) (auto simp: Let_def)
  show "set (remove_dots p) \<subseteq> set p"
    using 1(3) [OF refl] s by (subst remove_dots.simps) (auto simp: Let_def)
qed

text \<open>A text whose inner characters are no slashes cannot straddle a slash.\<close>

lemma sublist_join:
  assumes "sublist t (q @ x # r)" and "x \<notin> set (tl (butlast t))" and "2 \<le> length t"
  shows "sublist t (q @ [x]) \<or> sublist t (x # r)"
proof -
  obtain a b where ab: "q @ x # r = a @ t @ b" using assms(1) by (auto simp: sublist_def)
  consider (left) "length (a @ t) \<le> length (q @ [x])" | (right) "length q \<le> length a"
    | (over) "length a < length q" "length q + 1 < length (a @ t)" by fastforce
  then show ?thesis
  proof cases
    case left
    have "take (length (q @ [x])) (a @ t @ b) = q @ [x]" using ab by (metis append_Cons append_assoc
          append_eq_conv_conj append_Nil)
    moreover have "take (length (q @ [x])) (a @ t @ b) = a @ t @ take (length (q @ [x]) - length (a @ t)) b"
      using left by simp
    ultimately show ?thesis by (metis sublist_def)
  next
    case right
    have "drop (length q) (a @ t @ b) = x # r" using ab by (metis append_eq_conv_conj)
    moreover have "drop (length q) (a @ t @ b) = drop (length q) a @ t @ b" using right by simp
    ultimately show ?thesis by (metis sublist_def)
  next
    case over
    let ?i = "length q - length a"
    have "(a @ t @ b) ! length q = x" using ab by (metis nth_append_length)
    moreover have "?i < length t" using over by simp
    ultimately have "t ! ?i = x" using over by (simp add: nth_append)
    moreover have "0 < ?i" "?i < length t - 1" using over by auto
    then obtain k where k: "?i = Suc k" "Suc k < length t - 1" by (cases ?i) auto
    then have "t ! ?i = tl (butlast t) ! k" "k < length (tl (butlast t))"
      by (simp_all add: nth_tl nth_butlast)
    ultimately show ?thesis using assms(2) nth_mem by metis
  qed
qed

definition tidy :: "bytes \<Rightarrow> bool" where
  "tidy p \<longleftrightarrow> (p = [] \<or> hd p = CHR ''/'') \<and> \<not> sublist ''//'' p \<and> \<not> sublist ''/./'' p"

lemma sublist_part: "sublist t v \<Longrightarrow> sublist t (a @ v @ b)"
  by (auto simp: sublist_def) (metis append_assoc)

text \<open>One rewriting of the loop: it keeps tidiness and the directory that is named.\<close>

lemma dotdot_step:
  assumes "tidy p" and split: "p = lhs @ ''/../'' @ rhs" and first: "\<forall>i < length lhs. \<not> occurs_at p ''/../'' i"
  defines "p' \<equiv> parent_text lhs @ (if rhs \<noteq> [] then ''/'' @ rhs else [])"
  shows "tidy p'" and "resolve p' = resolve p" and "set p' \<subseteq> set p"
proof -
  obtain t where t: "lhs @ ''/'' = parent_text lhs @ CHR ''/'' # t"
      "lhs = parent_text lhs \<or> lhs = parent_text lhs @ CHR ''/'' # butlast t"
    by (cases rule: parent_text_cases [of lhs]) (auto, (metis append_Cons append_assoc butlast_snoc)+)
  have left: "p = (parent_text lhs @ ''/'') @ (t @ ''../'' @ rhs)" using split t(1) by simp
  have right: "p = (lhs @ ''/..'') @ (''/'' @ rhs)" using split by simp
  have no: "\<not> sublist u p'" if u: "\<not> sublist u p" "CHR ''/'' \<notin> set (tl (butlast u))" "2 \<le> length u" for u
  proof
    assume sub: "sublist u p'"
    have l: "\<not> sublist u (parent_text lhs @ ''/'')" and r: "\<not> sublist u (''/'' @ rhs)"
      using u(1) left right by (metis sublist_part append_Nil append_Nil2)+
    show False
    proof (cases "rhs = []")
      case True
      then have "sublist u (parent_text lhs)" using sub by (simp add: p'_def)
      then show False using l by (metis sublist_part append_Nil)
    next
      case False
      then show False using sub sublist_join [OF _ u(2,3)] l r by (auto simp: p'_def)
    qed
  qed
  have "hd p' = CHR ''/''" if "p' \<noteq> []"
  proof (cases "parent_text lhs")
    case Nil
    with that show ?thesis by (auto simp: p'_def split: if_splits)
  next
    case (Cons c cs)
    then have "hd p = c" using left by simp
    with assms(1) Cons left show ?thesis by (auto simp: tidy_def p'_def)
  qed
  with assms(1) no show "tidy p'" by (auto simp: tidy_def)
  have "set (parent_text lhs) \<subseteq> set p" by (subst left) auto
  then show "set p' \<subseteq> set p" using split by (auto simp: p'_def)
  have join: "resolve p' = walk_path (walk_path [] (parent_text lhs)) rhs"
    using walk_append [of "[]" "parent_text lhs" rhs] by (simp add: p'_def resolve_def)
  show "resolve p' = resolve p"
  proof (cases rule: parent_text_cases [of lhs])
    case (slash seg)
    let ?q = "parent_text lhs"
    have "seg \<noteq> []"
    proof
      assume "seg = []"
      then have "p = ?q @ ''//'' @ ''../'' @ rhs" using split slash(1) by simp
      with assms(1) show False by (metis sublist_appendI tidy_def)
    qed
    moreover have "seg \<noteq> ''.''"
    proof
      assume "seg = ''.''"
      then have "p = ?q @ ''/./'' @ ''../'' @ rhs" using split slash(1) by simp
      with assms(1) show False by (metis sublist_appendI tidy_def)
    qed
    moreover have "seg \<noteq> ''..''"
    proof
      assume "seg = ''..''"
      then have "p = ?q @ ''/../'' @ ''../'' @ rhs" using split slash(1) by simp
      then have "occurs_at p ''/../'' (length ?q)" unfolding occurs_at_iff by blast
      moreover have "length ?q < length lhs" using slash(1) by (metis length_append less_add_same_cancel1 length_Cons zero_less_Suc)
      ultimately show False using first by blast
    qed
    ultimately have "walk_path [] lhs = walk_path [] ?q @ [seg]"
      using slash walk_append [of "[]" ?q seg] by (simp add: walk_plain step_into_def)
    then show ?thesis unfolding join using split walk_up [of "[]" lhs rhs] by (simp add: resolve_def)
  next
    case plain
    have "lhs = []"
    proof (rule ccontr)
      assume "lhs \<noteq> []"
      then have "hd lhs = CHR ''/''" using assms(1) split by (auto simp: tidy_def)
      with plain(2) \<open>lhs \<noteq> []\<close> show False by (metis hd_in_set)
    qed
    then show ?thesis unfolding join using plain split walk_up [of "[]" lhs rhs] by (simp add: resolve_def)
  qed
qed

lemma remove_dotdots_props:
  "\<not> sublist ''/../'' (remove_dotdots p)"
  "tidy p \<Longrightarrow> resolve (remove_dotdots p) = resolve p"
  "tidy p \<Longrightarrow> tidy (remove_dotdots p)"
proof (induction p rule: remove_dotdots.induct)
  case (1 p)
  obtain lhs rhs where lr: "v_split_text p ''/../'' = (lhs, rhs)" by fastforce
  have c: "cstr ''/../'' = ''/../''" by simp
  have eq: "remove_dotdots p = (if length lhs = length p then lhs
      else remove_dotdots (parent_text lhs @ (if rhs \<noteq> [] then ''/'' @ rhs else [])))"
    using lr by (subst remove_dotdots.simps) simp
  let ?p' = "parent_text lhs @ (if rhs \<noteq> [] then ''/'' @ rhs else [])"
  from lr show "\<not> sublist ''/../'' (remove_dotdots p)" and "tidy p \<Longrightarrow> resolve (remove_dotdots p) = resolve p"
    and "tidy p \<Longrightarrow> tidy (remove_dotdots p)"
  proof (atomize (full), cases rule: split_text_cases [rotated, consumes 1, case_names found missing ne])
    case found
    then have ne: "length lhs \<noteq> length p" by simp
    note IH = 1 [OF refl lr [symmetric] ne]
    have "p = lhs @ ''/../'' @ rhs" "\<forall>i < length lhs. \<not> occurs_at p ''/../'' i" using found by simp_all
    note step = dotdot_step [OF _ this]
    show "\<not> sublist ''/../'' (remove_dotdots p) \<and> (tidy p \<longrightarrow> resolve (remove_dotdots p) = resolve p) \<and>
        (tidy p \<longrightarrow> tidy (remove_dotdots p))"
      unfolding eq using ne IH step by simp
  next
    case missing
    then show "\<not> sublist ''/../'' (remove_dotdots p) \<and> (tidy p \<longrightarrow> resolve (remove_dotdots p) = resolve p) \<and>
        (tidy p \<longrightarrow> tidy (remove_dotdots p))"
      unfolding eq by simp
  qed simp
qed

lemma dot_step_keeps:
  assumes "hd (a @ ''/./'' @ b) = CHR ''/'' \<and> \<not> sublist ''//'' (a @ ''/./'' @ b)"
  shows "hd (a @ ''/'' @ b) = CHR ''/'' \<and> \<not> sublist ''//'' (a @ ''/'' @ b)"
proof -
  have l: "\<not> sublist ''//'' (a @ ''/'')" and r: "\<not> sublist ''//'' (CHR ''/'' # b)"
    using assms sublist_part [of "''//''" "a @ ''/''" "[]" "''./'' @ b"]
      sublist_part [of "''//''" "CHR ''/'' # b" "a @ ''/.''" "[]"] by auto
  have "\<not> sublist ''//'' (a @ CHR ''/'' # b)" using sublist_join [of "''//''" a "CHR ''/''" b] l r by auto
  moreover have "hd (a @ ''/'' @ b) = CHR ''/''" using assms by (cases a) auto
  ultimately show ?thesis by simp
qed

lemma remove_dots_tidy:
  assumes "hd p = CHR ''/''" and "\<not> sublist ''//'' p"
  shows "tidy (remove_dots p)"
proof -
  have "hd (remove_dots p) = CHR ''/'' \<and> \<not> sublist ''//'' (remove_dots p)"
    using assms
  proof (induction p rule: remove_dots.induct)
    case (1 p)
    have "hd (v_replace_text p ''/./'' ''/'') = CHR ''/'' \<and> \<not> sublist ''//'' (v_replace_text p ''/./'' ''/'')"
    proof (rule replace_keeps [where P = "\<lambda>x. hd x = CHR ''/'' \<and> \<not> sublist ''//'' x"])
      have c: "cstr ''/./'' = ''/./''" "cstr ''/'' = ''/''" by simp_all
      show "hd (a @ cstr ''/'' @ b) = CHR ''/'' \<and> \<not> sublist ''//'' (a @ cstr ''/'' @ b)"
        if "hd (a @ cstr ''/./'' @ b) = CHR ''/'' \<and> \<not> sublist ''//'' (a @ cstr ''/./'' @ b)" for a b
        using that unfolding c by (rule dot_step_keeps)
      show "hd p = CHR ''/'' \<and> \<not> sublist ''//'' p" using "1.prems" by simp
    qed
    moreover have "remove_dots p = (let q = v_replace_text p ''/./'' ''/'' in
        if length q = length p then q else remove_dots q)"
      by (rule remove_dots.simps)
    ultimately show ?case using "1.IH" [OF refl] by (simp add: Let_def split: if_splits)
  qed
  with remove_dots_props(2) show ?thesis by (simp add: tidy_def)
qed

section \<open>The check that a path is below the root\<close>

text \<open>\<^verbatim>\<open>strncmp(a, b, n) == 0\<close>.\<close>

definition strncmp_0 :: "bytes \<Rightarrow> bytes \<Rightarrow> nat \<Rightarrow> bool" where
  "strncmp_0 a b n \<longleftrightarrow> take n (cstr a) = take n (cstr b)"

definition vsf_access_session_check_file :: "root_conf \<Rightarrow> bytes option \<Rightarrow> bytes \<Rightarrow> bytes \<Rightarrow> bool" where
  "vsf_access_session_check_file rc tunable_deny_file cwd p_filename_str =
     (let r = session_real_path rc cwd p_filename_str;
          s_real_path = (if r = [] \<or> last r \<noteq> CHR ''/'' then r @ ''/'' else r);
          s_user_root = get_user_root_dir rc @ ''/''
      in if \<not> strncmp_0 s_user_root s_real_path (length s_user_root) then False
         else vsf_access_check_file tunable_deny_file p_filename_str)"

section \<open>Lemmas: staying below the root\<close>

lemma strncmp_prefix: "NUL \<notin> set a \<Longrightarrow> strncmp_0 a b (length a) \<Longrightarrow> prefix a b"
proof -
  assume a: "NUL \<notin> set a" and "strncmp_0 a b (length a)"
  then have "a = take (length a) (cstr b)" by (simp add: strncmp_0_def)
  then have "prefix a (cstr b)" by (metis take_is_prefix)
  moreover have "prefix (cstr b) b" unfolding cstr_def prefix_def by (metis takeWhile_dropWhile_id)
  ultimately show "prefix a b" by (rule prefix_order.trans)
qed

lemma pieces_sublist:
  "c \<in> set (pieces s x) \<Longrightarrow> sublist (s # c @ [s]) (s # x @ [s])"
proof (induction "length x" arbitrary: x rule: less_induct)
  case less
  show ?case
  proof (cases "s \<in> set x")
    case True
    then obtain l r where lr: "x = l @ s # r" "s \<notin> set l" using split_list_first by metis
    then consider "c = l" | "c \<in> set (pieces s r)" using less.prems by (auto simp: pieces_sep)
    then show ?thesis
    proof cases
      case 1
      then have "s # x @ [s] = [] @ (s # c @ [s]) @ (r @ [s])" using lr by simp
      then show ?thesis by (metis sublist_appendI)
    next
      case 2
      then have "sublist (s # c @ [s]) (s # r @ [s])" using less.hyps [of r] lr by simp
      then show ?thesis using lr sublist_part [of "s # c @ [s]" "s # r @ [s]" "s # l" "[]"] by simp
    qed
  next
    case False
    then show ?thesis using less.prems by (simp add: pieces_no_sep)
  qed
qed

lemma walk_down:
  "''..'' \<notin> set (pieces CHR ''/'' p) \<Longrightarrow> prefix st (walk_path st p)"
proof -
  have "''..'' \<notin> set cs \<Longrightarrow> prefix st (foldl step_into st cs)" for cs
  proof (induction cs arbitrary: st)
    case (Cons c cs)
    have "prefix st (step_into st c)" using Cons.prems by (auto simp: step_into_def)
    also have "prefix \<dots> (foldl step_into (step_into st c) cs)" using Cons by simp
    finally show ?case by simp
  qed simp
  then show "''..'' \<notin> set (pieces CHR ''/'' p) \<Longrightarrow> prefix st (walk_path st p)"
    by (simp add: walk_path_def)
qed

text \<open>A path that starts with the root and a slash, has no \<^verbatim>\<open>/../\<close> and does not end in two dots, leads
  below the root.\<close>

lemma below_root:
  assumes "prefix (root @ ''/'') r'" and "r' = r \<or> r' = r @ ''/''" and "last r' = CHR ''/''"
    and "\<not> sublist ''/../'' r" and "\<not> suffix ''/..'' r"
  shows "prefix (resolve root) (resolve r)"
proof -
  obtain rest where rest: "r' = root @ CHR ''/'' # rest" using assms(1) by (auto simp: prefix_def)
  have nodd: "\<not> sublist ''/../'' r'"
  proof
    assume "sublist ''/../'' r'"
    then obtain a b where ab: "r' = a @ ''/../'' @ b" by (auto simp: sublist_def)
    show False
    proof (cases "r' = r")
      case True
      with ab assms(4) show False by (metis sublist_appendI)
    next
      case False
      then have r: "r @ ''/'' = a @ ''/../'' @ b" using assms(2) ab by simp
      show False
      proof (cases b rule: rev_cases)
        case Nil
        then have "r = a @ ''/..''" using r by (metis append.assoc append_Cons append_Nil append_Nil2 butlast_snoc)
        with assms(5) show False by (simp add: suffix_def)
      next
        case (snoc b' z)
        then have "r = a @ ''/../'' @ b'" using r by (metis append.assoc butlast_snoc)
        with assms(4) show False by (metis sublist_appendI)
      qed
    qed
  qed
  have "''..'' \<notin> set (pieces CHR ''/'' rest)"
  proof
    assume dd: "''..'' \<in> set (pieces CHR ''/'' rest)"
    show False
    proof (cases rest rule: rev_cases)
      case Nil
      with dd show False by simp
    next
      case (snoc x z)
      then have z: "z = CHR ''/''" using assms(3) rest by simp
      then have "''..'' \<in> set (pieces CHR ''/'' x)"
        using dd snoc pieces_append [of "CHR ''/''" x "[]"] by auto
      then have "sublist ''/../'' (CHR ''/'' # x @ ''/'')" using pieces_sublist by fastforce
      then show False using nodd rest snoc z sublist_part [of "''/../''" "CHR ''/'' # x @ ''/''" root "[]"] by simp
    qed
  qed
  then have "prefix (resolve root) (resolve r')"
    unfolding rest resolve_def walk_append by (rule walk_down)
  moreover have "resolve r' = resolve r" using assms(2) walk_append [of "[]" r "[]"] by (auto simp: resolve_def)
  ultimately show ?thesis by simp
qed

text \<open>Two dots at the end of the normalised path lead at most one level above the root.\<close>

lemma prefix_butlast: "prefix a b \<Longrightarrow> prefix (butlast a) (butlast b)"
proof -
  assume "prefix a b"
  then obtain c where b: "b = a @ c" by (auto simp: prefix_def)
  have "prefix (butlast a) a" by (rule prefixeq_butlast)
  then show ?thesis unfolding b by (cases "c = []") (simp_all add: butlast_append prefix_prefix)
qed

lemma snoc_same: "a @ [c] = b @ [d] \<Longrightarrow> a = b"
  by simp

lemma above_root:
  assumes "prefix (root @ ''/'') (r @ ''/'')" and "r = x @ ''/..''" and "\<not> sublist ''/../'' r" and "\<not> suffix ''/..'' root"
  shows "prefix (butlast (resolve root)) (resolve r)"
proof -
  obtain rest where rest: "x @ ''/../'' = root @ CHR ''/'' # rest" using assms(1,2) by (auto simp: prefix_def)
  have "prefix (root @ ''/'') (x @ ''/'')"
  proof (cases rest rule: rev_cases)
    case Nil
    with rest have "(x @ ''/..'') @ [CHR ''/''] = root @ [CHR ''/'']" by simp
    from snoc_same [OF this] have "root = x @ ''/..''" by simp
    with assms(4) show ?thesis by (simp add: suffix_def)
  next
    case (snoc r1 z)
    with rest have "(x @ ''/..'') @ [CHR ''/''] = (root @ CHR ''/'' # r1) @ [z]" by (simp only: append.assoc append_Cons append_Nil)
    from snoc_same [OF this] have r1: "(x @ ''/.'') @ ''.'' = root @ CHR ''/'' # r1" by simp
    show ?thesis
    proof (cases r1 rule: rev_cases)
      case (snoc r2 y)
      with r1 have "(x @ ''/.'') @ ''.'' = (root @ CHR ''/'' # r2) @ [y]" by (simp only: append.assoc append_Cons append_Nil)
      from snoc_same [OF this] have r2: "(x @ ''/'') @ ''.'' = root @ CHR ''/'' # r2" by simp
      show ?thesis
      proof (cases r2 rule: rev_cases)
        case (snoc r3 v)
        with r2 have "(x @ ''/'') @ ''.'' = (root @ CHR ''/'' # r3) @ [v]" by (simp only: append.assoc append_Cons append_Nil)
        from snoc_same [OF this] have "x @ ''/'' = root @ CHR ''/'' # r3" .
        then show ?thesis by (simp add: prefix_def)
      qed (use r2 in \<open>auto dest: arg_cong [where f = last]\<close>)
    qed (use r1 in \<open>auto dest: arg_cong [where f = last]\<close>)
  qed
  moreover have "\<not> sublist ''/../'' x" using assms(2,3) by (metis append.right_neutral append_Nil sublist_part)
  moreover have "\<not> suffix ''/..'' x"
  proof
    assume "suffix ''/..'' x"
    then obtain y where "x = y @ ''/..''" by (auto simp: suffix_def)
    then have "r = y @ ''/../'' @ ''..''" using assms(2) by simp
    with assms(3) show False by (metis sublist_appendI)
  qed
  ultimately have "prefix (resolve root) (resolve x)" by (intro below_root [where r' = "x @ ''/''"]) simp_all
  moreover have "resolve r = butlast (resolve x)"
    using walk_append [of "[]" x "''..''"] assms(2) by (simp add: resolve_def walk_path_def step_into_def pieces_no_sep)
  ultimately show ?thesis by (simp add: prefix_butlast)
qed

section \<open>Properties\<close>

text \<open>C34: the textual normalisation, and where it is right. \<^verbatim>\<open>session_real_path\<close> returns on every full path
  (both loops end), and its result contains no \<^verbatim>\<open>/../\<close>. For a full path that starts with a slash and has
  no double slash, the result contains no \<^verbatim>\<open>/./\<close> and no double slash either, and following it component
  by component leads to the same directory as following the original. A double slash in the full path
  is excluded because it is not handled: before \<^verbatim>\<open>..\<close> the empty component is removed in place of the
  directory before it (\<open>check_file_escapes\<close>).\<close>

theorem session_real_path_correct:
  assumes "prepend_session_path_to_filename rc cwd arg = p"
  shows "\<not> sublist ''/../'' (session_real_path rc cwd arg) \<and>
    (hd p = CHR ''/'' \<and> \<not> sublist ''//'' p \<longrightarrow>
       resolve (session_real_path rc cwd arg) = resolve p \<and>
       \<not> sublist ''/./'' (session_real_path rc cwd arg) \<and>
       \<not> sublist ''//'' (session_real_path rc cwd arg))"
proof (intro conjI impI)
  show "\<not> sublist ''/../'' (session_real_path rc cwd arg)"
    unfolding session_real_path_def by (rule remove_dotdots_props(1))
next
  assume p: "hd p = CHR ''/'' \<and> \<not> sublist ''//'' p"
  then have t: "tidy (remove_dots p)" by (intro remove_dots_tidy) simp_all
  have "tidy (remove_dotdots (remove_dots p))" by (rule remove_dotdots_props(3) [OF t])
  with remove_dotdots_props(2) [OF t] remove_dots_props(1) assms(1)
  show "resolve (session_real_path rc cwd arg) = resolve p" "\<not> sublist ''/./'' (session_real_path rc cwd arg)"
    "\<not> sublist ''//'' (session_real_path rc cwd arg)"
    by (auto simp: session_real_path_def tidy_def)
qed

definition demo_root :: root_conf where
  "demo_root = \<lparr>user_home_dir = ''/d'', cos_appid = ''1'', cos_bucket = ''b''\<rparr>"

theorem session_real_path_correct_witness:
  "session_real_path demo_root ''/d/1/b/x'' ''./y/../z'' = ''/d/1/b/x/z'' \<and>
   resolve ''/d/1/b/x/z'' = resolve ''/d/1/b/x/./y/../z''"
proof -
  have p: "prepend_session_path_to_filename demo_root ''/d/1/b/x'' ''./y/../z'' = ''/d/1/b/x/./y/../z''"
    by code_simp
  have "hd ''/d/1/b/x/./y/../z'' = CHR ''/'' \<and> \<not> sublist ''//'' ''/d/1/b/x/./y/../z''" by code_simp
  moreover have r: "session_real_path demo_root ''/d/1/b/x'' ''./y/../z'' = ''/d/1/b/x/z''" by code_simp
  ultimately show ?thesis using session_real_path_correct [OF p] unfolding r by blast
qed

text \<open>C14: confinement, and its limit. When \<^verbatim>\<open>vsf_access_session_check_file\<close> accepts an argument whose full
  path starts with a slash and has no double slash, the name does not match the deny pattern, and the
  path, followed component by component, leads to a place at or below the user's root, unless its
  normalised form ends in \<^verbatim>\<open>/..\<close>. Such a path is accepted although the last two dots still count; it may
  lead out of the root, but not further than to the directory that holds the root. For a full path with
  a double slash nothing is claimed: it can lead further up (\<open>check_file_escapes\<close>). The root itself must
  not end in \<^verbatim>\<open>/..\<close>.\<close>

theorem check_file_confines:
  assumes "vsf_access_session_check_file rc deny cwd arg" and "NUL \<notin> set (get_user_root_dir rc)"
    and "\<not> suffix ''/..'' (get_user_root_dir rc)"
    and "prepend_session_path_to_filename rc cwd arg = p" and "hd p = CHR ''/''" and "\<not> sublist ''//'' p"
  shows "vsf_access_check_file deny arg \<and>
    prefix (if suffix ''/..'' (session_real_path rc cwd arg) then butlast (resolve (get_user_root_dir rc))
            else resolve (get_user_root_dir rc)) (resolve p)"
proof -
  let ?r = "session_real_path rc cwd arg" and ?root = "get_user_root_dir rc"
  let ?r' = "if ?r = [] \<or> last ?r \<noteq> CHR ''/'' then ?r @ ''/'' else ?r"
  have acc: "strncmp_0 (?root @ ''/'') ?r' (length (?root @ ''/''))" "vsf_access_check_file deny arg"
    using assms(1) by (auto simp: vsf_access_session_check_file_def Let_def split: if_splits)
  have t: "tidy (remove_dots p)" using assms(5,6) by (rule remove_dots_tidy)
  have r: "?r = remove_dotdots (remove_dots p)" using assms(4) by (simp add: session_real_path_def)
  have same: "resolve ?r = resolve p"
    unfolding r using remove_dotdots_props(2) [OF t] remove_dots_props(1) [of p] by simp
  have root: "prefix (?root @ ''/'') ?r'" by (rule strncmp_prefix) (use acc(1) assms(2) in auto)
  have dd: "\<not> sublist ''/../'' ?r" unfolding r by (rule remove_dotdots_props(1))
  show ?thesis
  proof (cases "suffix ''/..'' ?r")
    case False
    have "prefix (resolve ?root) (resolve ?r)" by (rule below_root [OF root _ _ dd False]) auto
    with False same acc(2) show ?thesis by simp
  next
    case True
    then obtain x where x: "?r = x @ ''/..''" by (auto simp: suffix_def)
    have "prefix (?root @ ''/'') (?r @ ''/'')" using root unfolding x by simp
    from above_root [OF this x dd assms(3)] True same acc(2) show ?thesis by simp
  qed
qed

theorem check_file_confines_witness:
  "prefix (resolve (get_user_root_dir demo_root)) (resolve ''/d/1/b/x/../y'') \<and>
   vsf_access_check_file None ''x/../y''"
proof -
  have h: "vsf_access_session_check_file demo_root None ''/d/1/b'' ''x/../y''"
    "NUL \<notin> set (get_user_root_dir demo_root)" "\<not> suffix ''/..'' (get_user_root_dir demo_root)"
    "prepend_session_path_to_filename demo_root ''/d/1/b'' ''x/../y'' = ''/d/1/b/x/../y''"
    "hd ''/d/1/b/x/../y'' = CHR ''/''" "\<not> sublist ''//'' ''/d/1/b/x/../y''"
    by code_simp+
  have "\<not> suffix ''/..'' (session_real_path demo_root ''/d/1/b'' ''x/../y'')" by code_simp
  with check_file_confines [OF h] show ?thesis by simp
qed

text \<open>Neither restriction can be dropped: two dots at the end and a double slash before two dots
  both pass the check and lead above the root, the second as far up as the client likes.\<close>

lemma check_file_escapes:
  "vsf_access_session_check_file demo_root None ''/d/1/b'' ''..'' \<and>
   resolve (prepend_session_path_to_filename demo_root ''/d/1/b'' ''..'') = [''d'', ''1''] \<and>
   vsf_access_session_check_file demo_root None ''/d/1/b'' ''//../y'' \<and>
   resolve (prepend_session_path_to_filename demo_root ''/d/1/b'' ''//../y'') = [''d'', ''1'', ''y'']"
  by code_simp

end
