(* ===== verification/Tunables.thy ===== *)
theory Tunables
  imports StrVal
begin

text \<open>
  \<^verbatim>\<open>tunables.c\<close> and the tables of \<^verbatim>\<open>parseconf.c\<close>. The global variables \<^verbatim>\<open>tunable_<name>\<close> are three
  families indexed by \<open>name\<close>: switches, unsigned integers and strings (\<open>None\<close> is the null pointer).
  The tables give the variable for each setting name.
\<close>

record tunables =
  tbool :: "string \<Rightarrow> bool"
  tuint :: "string \<Rightarrow> 32 word"
  tstr :: "string \<Rightarrow> bytes option"

section \<open>The tables of settings\<close>

definition parseconf_bool_array :: "(string \<times> string) list" where
  "parseconf_bool_array =
    [(''anonymous_enable'', ''anonymous_enable''), (''local_enable'', ''local_enable''),
     (''pasv_enable'', ''pasv_enable''), (''port_enable'', ''port_enable''),
     (''chroot_local_user'', ''chroot_local_user''), (''write_enable'', ''write_enable''),
     (''anon_upload_enable'', ''anon_upload_enable''),
     (''anon_mkdir_write_enable'', ''anon_mkdir_write_enable''),
     (''anon_other_write_enable'', ''anon_other_write_enable''),
     (''chown_uploads'', ''chown_uploads''),
     (''connect_from_port_20'', ''connect_from_port_20''),
     (''xferlog_enable'', ''xferlog_enable''), (''dirmessage_enable'', ''dirmessage_enable''),
     (''anon_world_readable_only'', ''anon_world_readable_only''),
     (''async_abor_enable'', ''async_abor_enable''),
     (''ascii_upload_enable'', ''ascii_upload_enable''),
     (''ascii_download_enable'', ''ascii_download_enable''),
     (''one_process_model'', ''one_process_model''),
     (''xferlog_std_format'', ''xferlog_std_format''),
     (''pasv_promiscuous'', ''pasv_promiscuous''),
     (''deny_email_enable'', ''deny_email_enable''),
     (''chroot_list_enable'', ''chroot_list_enable''),
     (''setproctitle_enable'', ''setproctitle_enable''),
     (''text_userdb_names'', ''text_userdb_names''),
     (''ls_recurse_enable'', ''ls_recurse_enable''),
     (''log_ftp_protocol'', ''log_ftp_protocol''), (''guest_enable'', ''guest_enable''),
     (''userlist_enable'', ''userlist_enable''), (''userlist_deny'', ''userlist_deny''),
     (''use_localtime'', ''use_localtime''), (''check_shell'', ''check_shell''),
     (''hide_ids'', ''hide_ids''), (''listen'', ''listen''),
     (''port_promiscuous'', ''port_promiscuous''),
     (''passwd_chroot_enable'', ''passwd_chroot_enable''),
     (''no_anon_password'', ''no_anon_password''), (''tcp_wrappers'', ''tcp_wrappers''),
     (''use_sendfile'', ''use_sendfile''), (''force_dot_files'', ''force_dot_files''),
     (''listen_ipv6'', ''listen_ipv6''), (''dual_log_enable'', ''dual_log_enable''),
     (''syslog_enable'', ''syslog_enable''), (''background'', ''background''),
     (''virtual_use_local_privs'', ''virtual_use_local_privs''),
     (''session_support'', ''session_support''), (''download_enable'', ''download_enable''),
     (''dirlist_enable'', ''dirlist_enable''), (''chmod_enable'', ''chmod_enable''),
     (''secure_email_list_enable'', ''secure_email_list_enable''),
     (''run_as_launching_user'', ''run_as_launching_user''), (''no_log_lock'', ''no_log_lock''),
     (''ssl_enable'', ''ssl_enable''), (''allow_anon_ssl'', ''allow_anon_ssl''),
     (''force_local_logins_ssl'', ''force_local_logins_ssl''),
     (''force_local_data_ssl'', ''force_local_data_ssl''), (''ssl_sslv2'', ''sslv2''),
     (''ssl_sslv3'', ''sslv3''), (''ssl_tlsv1'', ''tlsv1''),
     (''tilde_user_enable'', ''tilde_user_enable''),
     (''force_anon_logins_ssl'', ''force_anon_logins_ssl''),
     (''force_anon_data_ssl'', ''force_anon_data_ssl''), (''mdtm_write'', ''mdtm_write''),
     (''lock_upload_files'', ''lock_upload_files''),
     (''pasv_addr_resolve'', ''pasv_addr_resolve''), (''debug_ssl'', ''debug_ssl''),
     (''require_cert'', ''require_cert''), (''validate_cert'', ''validate_cert''),
     (''strict_ssl_read_eof'', ''strict_ssl_read_eof''),
     (''strict_ssl_write_shutdown'', ''strict_ssl_write_shutdown''),
     (''ssl_request_cert'', ''ssl_request_cert''),
     (''delete_failed_uploads'', ''delete_failed_uploads''),
     (''implicit_ssl'', ''implicit_ssl''), (''ptrace_sandbox'', ''ptrace_sandbox''),
     (''require_ssl_reuse'', ''require_ssl_reuse''), (''isolate'', ''isolate''),
     (''isolate_network'', ''isolate_network''), (''ftp_enable'', ''ftp_enable''),
     (''http_enable'', ''http_enable''), (''seccomp_sandbox'', ''seccomp_sandbox''),
     (''allow_writeable_chroot'', ''allow_writeable_chroot''),
     (''cos_take_sha'', ''cos_take_sha'')]"

definition parseconf_uint_array :: "(string \<times> string) list" where
  "parseconf_uint_array =
    [(''accept_timeout'', ''accept_timeout''), (''connect_timeout'', ''connect_timeout''),
     (''local_umask'', ''local_umask''), (''anon_umask'', ''anon_umask''),
     (''ftp_data_port'', ''ftp_data_port''),
     (''idle_session_timeout'', ''idle_session_timeout''),
     (''data_connection_timeout'', ''data_connection_timeout''),
     (''pasv_min_port'', ''pasv_min_port''), (''pasv_max_port'', ''pasv_max_port''),
     (''anon_max_rate'', ''anon_max_rate''), (''local_max_rate'', ''local_max_rate''),
     (''listen_port'', ''listen_port''), (''max_clients'', ''max_clients''),
     (''file_open_mode'', ''file_open_mode''), (''max_per_ip'', ''max_per_ip''),
     (''trans_chunk_size'', ''trans_chunk_size''),
     (''delay_failed_login'', ''delay_failed_login''),
     (''delay_successful_login'', ''delay_successful_login''),
     (''max_login_fails'', ''max_login_fails''), (''chown_upload_mode'', ''chown_upload_mode''),
     (''max_upload_file_size'', ''max_upload_file_size''),
     (''list_max_count'', ''list_max_count''),
     (''cos_download_chunk_size'', ''cos_download_chunk_size''),
     (''cos_upload_slice_size'', ''cos_upload_slice_size''),
     (''cos_conn_timeout_ms'', ''cos_conn_timeout_ms''),
     (''cos_req_timeout_ms'', ''cos_req_timeout_ms''),
     (''cos_sign_expire_s'', ''cos_sign_expire_s'')]"

definition parseconf_str_array :: "(string \<times> string) list" where
  "parseconf_str_array =
    [(''secure_chroot_dir'', ''secure_chroot_dir''), (''ftp_username'', ''ftp_username''),
     (''chown_username'', ''chown_username''), (''xferlog_file'', ''xferlog_file''),
     (''vsftpd_log_file'', ''vsftpd_log_file''), (''message_file'', ''message_file''),
     (''nopriv_user'', ''nopriv_user''), (''ftpd_banner'', ''ftpd_banner''),
     (''banned_email_file'', ''banned_email_file''),
     (''chroot_list_file'', ''chroot_list_file''), (''pam_service_name'', ''pam_service_name''),
     (''guest_username'', ''guest_username''), (''userlist_file'', ''userlist_file''),
     (''anon_root'', ''anon_root''), (''local_root'', ''local_root''),
     (''banner_file'', ''banner_file''), (''pasv_address'', ''pasv_address''),
     (''listen_address'', ''listen_address''), (''user_config_dir'', ''user_config_dir''),
     (''listen_address6'', ''listen_address6''), (''cmds_allowed'', ''cmds_allowed''),
     (''hide_file'', ''hide_file''), (''deny_file'', ''deny_file''),
     (''user_sub_token'', ''user_sub_token''),
     (''email_password_file'', ''email_password_file''), (''rsa_cert_file'', ''rsa_cert_file''),
     (''dsa_cert_file'', ''dsa_cert_file''), (''ssl_ciphers'', ''ssl_ciphers''),
     (''rsa_private_key_file'', ''rsa_private_key_file''),
     (''dsa_private_key_file'', ''dsa_private_key_file''),
     (''ca_certs_file'', ''ca_certs_file''), (''cmds_denied'', ''cmds_denied''),
     (''cos_appid'', ''cos_appid''), (''cos_secretid'', ''cos_secretid''),
     (''cos_secretkey'', ''cos_secretkey''), (''cos_bucket'', ''cos_bucket''),
     (''cos_region'', ''cos_region''), (''cos_download_domain'', ''cos_download_domain''),
     (''cos_user_home_dir'', ''user_home_dir''), (''login_users'', ''login_users'')]"

section \<open>Defaults\<close>

text \<open>The assignments of \<^verbatim>\<open>tunables_load_defaults\<close>: the switches it turns on (it turns the others
  off), the numbers, and the strings it installs.\<close>

definition default_on :: "string list" where
  "default_on =
    [''anonymous_enable'', ''pasv_enable'', ''port_enable'', ''anon_world_readable_only'',
     ''userlist_deny'', ''check_shell'', ''listen'', ''use_sendfile'', ''download_enable'',
     ''dirlist_enable'', ''chmod_enable'', ''force_local_logins_ssl'', ''force_local_data_ssl'',
     ''tlsv1'', ''mdtm_write'', ''lock_upload_files'', ''strict_ssl_read_eof'',
     ''ssl_request_cert'', ''require_ssl_reuse'', ''isolate'', ''isolate_network'',
     ''ftp_enable'', ''seccomp_sandbox'']"

definition default_uints :: "(string \<times> 32 word) list" where
  "default_uints =
    [(''accept_timeout'', 60), (''connect_timeout'', 60), (''local_umask'', 63),
     (''anon_umask'', 63), (''ftp_data_port'', 20), (''idle_session_timeout'', 300),
     (''data_connection_timeout'', 300), (''pasv_min_port'', 5001), (''pasv_max_port'', 0),
     (''anon_max_rate'', 0), (''local_max_rate'', 0), (''listen_port'', 21),
     (''max_clients'', 2000), (''file_open_mode'', 438), (''max_per_ip'', 50),
     (''trans_chunk_size'', 0), (''delay_failed_login'', 1), (''delay_successful_login'', 0),
     (''max_login_fails'', 3), (''chown_upload_mode'', 384), (''cos_conn_timeout_ms'', 10000),
     (''cos_req_timeout_ms'', 60000), (''cos_sign_expire_s'', 300),
     (''cos_upload_slice_size'', 1048576), (''max_upload_file_size'', 0),
     (''list_max_count'', 0), (''cos_download_chunk_size'', 0)]"

definition default_strs :: "(string \<times> bytes) list" where
  "default_strs =
    [(''secure_chroot_dir'', ''/usr/share/empty''), (''ftp_username'', ''ftp''),
     (''chown_username'', ''root''), (''xferlog_file'', ''/var/log/xferlog''),
     (''vsftpd_log_file'', ''/var/log/vsftpd.log''), (''message_file'', ''.message''),
     (''nopriv_user'', ''nobody''), (''banned_email_file'', ''/etc/vsftpd.banned_emails''),
     (''chroot_list_file'', ''/etc/vsftpd.chroot_list''), (''pam_service_name'', ''ftp''),
     (''guest_username'', ''ftp''), (''userlist_file'', ''/etc/vsftpd.user_list''),
     (''email_password_file'', ''/etc/vsftpd.email_passwords''),
     (''rsa_cert_file'', ''/usr/share/ssl/certs/vsftpd.pem''),
     (''ssl_ciphers'', ''ECDHE-RSA-AES256-GCM-SHA384''), (''cos_appid'', ''''),
     (''cos_secretid'', ''''), (''cos_secretkey'', ''''), (''cos_bucket'', ''''),
     (''cos_region'', ''gz''), (''cos_download_domain'', ''cdn''),
     (''user_home_dir'', ''/tempdir'')]"

definition tunables_load_defaults :: tunables where
  "tunables_load_defaults =
     \<lparr>tbool = (\<lambda>v. v \<in> set default_on),
      tuint = (\<lambda>v. case map_of default_uints v of Some n \<Rightarrow> n | None \<Rightarrow> 0),
      tstr = map_of default_strs\<rparr>"

section \<open>Lemmas: the tables\<close>

text \<open>The names of all settings, in the order the tables are searched.\<close>

definition all_settings :: "string list" where
  "all_settings = map fst parseconf_str_array @ map fst parseconf_bool_array @ map fst parseconf_uint_array"

end
