(* ===== verification/Settings.thy ===== *)
theory Settings
  imports Tunables
begin

text \<open>The tables of \<^verbatim>\<open>parseconf.c\<close> against each other and against the defaults of \<^verbatim>\<open>tunables.c\<close>.\<close>

text \<open>The settings tables are sound. No setting name is in two of the three tables or twice in
  one, so which table is searched first does not matter; no two settings write the same variable;
  and every variable that gets a non-zero default can be set from the configuration file.\<close>

theorem settings_tables_sound:
  "distinct all_settings \<and> distinct (map snd parseconf_str_array) \<and>
   distinct (map snd parseconf_bool_array) \<and> distinct (map snd parseconf_uint_array) \<and>
   set default_on \<subseteq> snd ` set parseconf_bool_array \<and>
   fst ` set default_uints = snd ` set parseconf_uint_array \<and>
   fst ` set default_strs \<subseteq> snd ` set parseconf_str_array"
proof (intro conjI)
  show "distinct all_settings"
    by (simp add: all_settings_def parseconf_str_array_def parseconf_bool_array_def
        parseconf_uint_array_def)
  show "distinct (map snd parseconf_str_array)" by (simp add: parseconf_str_array_def)
  show "distinct (map snd parseconf_bool_array)" by (simp add: parseconf_bool_array_def)
  show "distinct (map snd parseconf_uint_array)" by (simp add: parseconf_uint_array_def)
  show "set default_on \<subseteq> snd ` set parseconf_bool_array" by code_simp
  show "fst ` set default_uints = snd ` set parseconf_uint_array" by code_simp
  show "fst ` set default_strs \<subseteq> snd ` set parseconf_str_array" by code_simp
qed

end
