(* ===== verification/Parseconf.thy ===== *)
theory Parseconf
  imports Tunables
begin

text \<open>
  \<^verbatim>\<open>parseconf.c\<close>: reading one setting and reading a configuration file. The table searches are
  \<open>find_setting\<close>; the file system is an argument (what \<^verbatim>\<open>str_fileread\<close> returned for a name, and
  whether the ownership check passes). A fatal error is the fault of \<^verbatim>\<open>die2\<close>.
\<close>

fun find_setting :: "(string \<times> string) list \<Rightarrow> bytes \<Rightarrow> string option" where
  "find_setting [] name = None"
| "find_setting ((n, var) # ps) name = (if name = n then Some var else find_setting ps name)"

definition load_bool :: "bytes \<Rightarrow> string \<Rightarrow> bytes \<Rightarrow> bool \<Rightarrow> tunables \<Rightarrow> tunables res" where
  "load_bool setting var val errs_fatal T =
     (let u = v_upper val in
      if u = ''YES'' \<or> u = ''TRUE'' \<or> u = ''1'' then Inr (T\<lparr>tbool := (tbool T)(var := True)\<rparr>)
      else if u = ''NO'' \<or> u = ''FALSE'' \<or> u = ''0'' then Inr (T\<lparr>tbool := (tbool T)(var := False)\<rparr>)
      else if errs_fatal then die2 ''bad bool value in config file for: '' (Some setting)
      else Inr T)"

definition load_uint :: "string \<Rightarrow> bytes \<Rightarrow> tunables \<Rightarrow> tunables" where
  "load_uint var val T =
     T\<lparr>tuint := (tuint T)(var :=
         (if val \<noteq> [] \<and> hd val = CHR ''0'' then str_octal_to_uint val
          else word_of_int (str_atoi val)))\<rparr>"

definition vsf_parseconf_load_setting :: "bytes \<Rightarrow> bool \<Rightarrow> tunables \<Rightarrow> tunables res" where
  "vsf_parseconf_load_setting p_setting errs_fatal T =
     (let (setting, val) = v_split_char (cstr (dropWhile vsf_sysutil_isspace p_setting)) CHR ''='' in
      case find_setting parseconf_str_array setting of
        Some var \<Rightarrow> Inr (T\<lparr>tstr := (tstr T)(var := (if val = [] then None else Some val))\<rparr>)
      | None \<Rightarrow>
          if val = [] then
            if errs_fatal then die2 ''missing value in config file for: '' (Some setting) else Inr T
          else case find_setting parseconf_bool_array setting of
            Some var \<Rightarrow> load_bool setting var val errs_fatal T
          | None \<Rightarrow>
              (case find_setting parseconf_uint_array setting of
                 Some var \<Rightarrow> Inr (load_uint var val T)
               | None \<Rightarrow>
                   if errs_fatal then die2 ''unrecognised variable in config file: '' (Some setting)
                   else Inr T))"

text \<open>A line the loader skips.\<close>

definition skipped_line :: "bytes \<Rightarrow> bool" where
  "skipped_line l \<longleftrightarrow> l = [] \<or> hd l = CHR ''#'' \<or> str_all_space l"

function load_lines :: "bytes \<Rightarrow> nat \<Rightarrow> bool \<Rightarrow> tunables \<Rightarrow> tunables res" where
  "load_lines config_file str_pos errs_fatal T =
     (case str_getline config_file str_pos of
        Inl f \<Rightarrow> Inl f
      | Inr (False, _, _) \<Rightarrow> Inr T
      | Inr (True, line, str_pos') \<Rightarrow>
          if skipped_line line then load_lines config_file str_pos' errs_fatal T
          else
            (case vsf_parseconf_load_setting line errs_fatal T of
               Inl f \<Rightarrow> Inl f
             | Inr T' \<Rightarrow> load_lines config_file str_pos' errs_fatal T'))"
  by pat_completeness auto
termination
  by (relation "measure (\<lambda>(v, p, e, t). length v - p)") (auto dest!: str_getline_progress)

declare load_lines.simps [simp del]

definition vsf_parseconf_load_file ::
  "(bytes \<Rightarrow> bytes option) \<Rightarrow> (bytes \<Rightarrow> bool) \<Rightarrow> bytes option \<Rightarrow> bool \<Rightarrow>
   bytes option \<times> tunables \<Rightarrow> (bytes option \<times> tunables) res" where
  "vsf_parseconf_load_file fileread owner_ok p_filename errs_fatal st =
     (let (saved, T) = st;
          saved' = (case p_filename of None \<Rightarrow> saved | Some f \<Rightarrow> Some f)
      in case saved' of
           None \<Rightarrow> bug ''null filename in vsf_parseconf_load_file''
         | Some f \<Rightarrow>
             (case fileread f of
                None \<Rightarrow> if errs_fatal then die2 ''cannot read config file: '' (Some f)
                        else Inr (saved', T)
              | Some config_file \<Rightarrow>
                  if \<not> owner_ok f then die ''config file not owned by correct user, or not a file''
                  else res_bind (load_lines config_file 0 errs_fatal T) (\<lambda>T'. Inr (saved', T'))))"

section \<open>Lemmas\<close>

lemma find_setting_map_of: "find_setting ps n = map_of ps n"
  by (induction ps n rule: find_setting.induct) auto

text \<open>A line \<^verbatim>\<open>name=value\<close> splits at the first equals sign.\<close>

definition plain_name :: "bytes \<Rightarrow> bool" where
  "plain_name n \<longleftrightarrow> n \<noteq> [] \<and> NUL \<notin> set n \<and> LF \<notin> set n \<and> CHR ''='' \<notin> set n \<and> \<not> vsf_sysutil_isspace (hd n) \<and> hd n \<noteq> CHR ''#''"

lemma plain_settings: "n \<in> set all_settings \<Longrightarrow> plain_name n"
proof -
  have "\<forall>n \<in> set all_settings. plain_name n" unfolding plain_name_def by code_simp
  then show "n \<in> set all_settings \<Longrightarrow> plain_name n" by blast
qed

lemma setting_split:
  assumes "plain_name n" and "NUL \<notin> set val"
  shows "v_split_char (cstr (dropWhile vsf_sysutil_isspace (n @ CHR ''='' # val))) CHR ''='' = (n, val)"
proof -
  have n: "n \<noteq> []" "NUL \<notin> set n" "CHR ''='' \<notin> set n" "\<not> vsf_sysutil_isspace (hd n)"
    using assms(1) by (simp_all add: plain_name_def)
  then have "dropWhile vsf_sysutil_isspace (n @ CHR ''='' # val) = n @ CHR ''='' # val"
    by (cases n) auto
  moreover have "cstr (n @ CHR ''='' # val) = n @ CHR ''='' # val" using n assms(2) by (intro cstr_id) auto
  ultimately show ?thesis using v_split_char_hit [of "CHR ''=''" n val] n(3) by simp
qed

text \<open>Loading the lines is loading the settings of the lines that are not skipped, in order.\<close>

fun load_settings :: "bool \<Rightarrow> bytes list \<Rightarrow> tunables \<Rightarrow> tunables res" where
  "load_settings errs_fatal [] T = Inr T"
| "load_settings errs_fatal (l # ls) T =
     res_bind (vsf_parseconf_load_setting l errs_fatal T) (\<lambda>T'. load_settings errs_fatal ls T')"

lemma load_lines_eq:
  "p \<le> length v \<Longrightarrow>
   load_lines v p errs_fatal T =
     load_settings errs_fatal (filter (\<lambda>l. \<not> skipped_line l) (v_lines (drop p v))) T"
proof (induction "length v - p" arbitrary: p T rule: less_induct)
  case less
  show ?case
  proof (cases "p < length v")
    case True
    obtain p' where p': "str_getline v p = Inr (True, takeWhile (\<lambda>x. x \<noteq> LF) (drop p v), p')"
        "drop p' v = drop 1 (dropWhile (\<lambda>x. x \<noteq> LF) (drop p v))" "p' \<le> length v"
      using str_getline_eq [OF True] by blast
    have "p < p'" using str_getline_progress [OF p'(1)] by simp
    then have IH: "load_lines v p' errs_fatal T' =
        load_settings errs_fatal (filter (\<lambda>l. \<not> skipped_line l) (v_lines (drop p' v))) T'" for T'
      using less.hyps [of p' T'] True p'(3) by simp
    have lines: "v_lines (drop p v) = takeWhile (\<lambda>x. x \<noteq> LF) (drop p v) # v_lines (drop p' v)"
      using v_lines_drop [OF True] p'(2) by simp
    show ?thesis unfolding lines
      using p'(1) IH
      by (cases "vsf_parseconf_load_setting (takeWhile (\<lambda>x. x \<noteq> LF) (drop p v)) errs_fatal T")
         (simp_all add: load_lines.simps [of v p])
  next
    case False
    then show ?thesis using less.prems
      by (subst load_lines.simps) (simp add: str_getline_def)
  qed
qed

lemma load_setting_split:
  assumes "plain_name n" and "NUL \<notin> set val"
  shows "vsf_parseconf_load_setting (n @ CHR ''='' # val) e T =
     (case find_setting parseconf_str_array n of
        Some var \<Rightarrow> Inr (T\<lparr>tstr := (tstr T)(var := (if val = [] then None else Some val))\<rparr>)
      | None \<Rightarrow>
          if val = [] then
            if e then die2 ''missing value in config file for: '' (Some n) else Inr T
          else case find_setting parseconf_bool_array n of
            Some var \<Rightarrow> load_bool n var val e T
          | None \<Rightarrow>
              (case find_setting parseconf_uint_array n of
                 Some var \<Rightarrow> Inr (load_uint var val T)
               | None \<Rightarrow>
                   if e then die2 ''unrecognised variable in config file: '' (Some n) else Inr T))"
  unfolding vsf_parseconf_load_setting_def setting_split [OF assms] by simp

lemma str_octal_octal: "str_octal_to_uint (vsf_sysutil_uint_to_octal w) = w"
proof (cases "w = 0")
  case False
  have "octal_to_uint_loop (digits_of 8 (unat w)) 0 False = w"
    by (simp add: octal_loop_seen octal_loop_digits_of)
  with False show ?thesis
    by (simp add: str_octal_to_uint_def vsf_sysutil_octal_to_uint_def vsf_sysutil_uint_to_octal_def
        code_def vsf_sysutil_isdigit_def)
qed (simp add: str_octal_to_uint_def vsf_sysutil_octal_to_uint_def vsf_sysutil_uint_to_octal_def cstr_def
       code_def vsf_sysutil_isdigit_def)

lemma octal_text: "vsf_sysutil_uint_to_octal w \<noteq> []" "hd (vsf_sysutil_uint_to_octal w) = CHR ''0''"
  "NUL \<notin> set (vsf_sysutil_uint_to_octal w)"
  by (auto simp: vsf_sysutil_uint_to_octal_def)

section \<open>What a configuration file says\<close>

text \<open>The lines of a file as its author means them: remarks, blank lines, switches with the spelling of their value,
  numbers in octal and in decimal, strings; and three kinds of mistakes, namely a switch with a value that is none of the
  spellings, a name without a value, and an unknown name.\<close>

datatype entry =
    Remark bytes | Blank bytes | Switch bytes bytes bool | Octal bytes "32 word" | Decimal bytes nat | Words bytes bytes
  | Misspelt bytes bytes | Valueless bytes | Unknown bytes bytes

fun entry_line :: "entry \<Rightarrow> bytes" where
  "entry_line (Remark t) = CHR ''#'' # t"
| "entry_line (Blank t) = t"
| "entry_line (Switch n v b) = n @ CHR ''='' # v"
| "entry_line (Octal n w) = n @ CHR ''='' # vsf_sysutil_uint_to_octal w"
| "entry_line (Decimal n k) = n @ CHR ''='' # digits_of 10 k"
| "entry_line (Words n v) = n @ CHR ''='' # v"
| "entry_line (Misspelt n v) = n @ CHR ''='' # v"
| "entry_line (Valueless n) = n @ [CHR ''='']"
| "entry_line (Unknown n v) = n @ CHR ''='' # v"

definition spells :: "bytes \<Rightarrow> bool \<Rightarrow> bool" where
  "spells v b \<longleftrightarrow> v_upper v \<in> (if b then {''YES'', ''TRUE'', ''1''} else {''NO'', ''FALSE'', ''0''})"

text \<open>The variable of a name: a switch, a number or a string. No name is in two tables, but the proofs do not
  need that: a name counts for the first table that has it.\<close>

definition str_var :: "bytes \<Rightarrow> string option" where
  "str_var n = map_of parseconf_str_array n"

definition bool_var :: "bytes \<Rightarrow> string option" where
  "bool_var n = (if str_var n = None then map_of parseconf_bool_array n else None)"

definition uint_var :: "bytes \<Rightarrow> string option" where
  "uint_var n = (if str_var n = None \<and> bool_var n = None then map_of parseconf_uint_array n else None)"

fun wf_entry :: "entry \<Rightarrow> bool" where
  "wf_entry (Remark t) \<longleftrightarrow> True"
| "wf_entry (Blank t) \<longleftrightarrow> (\<forall>c \<in> set t. vsf_sysutil_isspace c)"
| "wf_entry (Switch n v b) \<longleftrightarrow> bool_var n \<noteq> None \<and> spells v b"
| "wf_entry (Octal n w) \<longleftrightarrow> uint_var n \<noteq> None"
| "wf_entry (Decimal n k) \<longleftrightarrow> uint_var n \<noteq> None \<and> 0 < k \<and> k < 2 ^ 31"
| "wf_entry (Words n v) \<longleftrightarrow> str_var n \<noteq> None"
| "wf_entry (Misspelt n v) \<longleftrightarrow> bool_var n \<noteq> None \<and> v \<noteq> [] \<and> (\<forall>b. \<not> spells v b)"
| "wf_entry (Valueless n) \<longleftrightarrow> bool_var n \<noteq> None \<or> uint_var n \<noteq> None"
| "wf_entry (Unknown n v) \<longleftrightarrow> plain_name n \<and> n \<notin> set all_settings \<and> v \<noteq> []"

fun effect :: "entry \<Rightarrow> tunables \<Rightarrow> tunables" where
  "effect (Switch n v b) T = T\<lparr>tbool := (tbool T)(the (bool_var n) := b)\<rparr>"
| "effect (Octal n w) T = T\<lparr>tuint := (tuint T)(the (uint_var n) := w)\<rparr>"
| "effect (Decimal n k) T = T\<lparr>tuint := (tuint T)(the (uint_var n) := of_nat k)\<rparr>"
| "effect (Words n v) T = T\<lparr>tstr := (tstr T)(the (str_var n) := (if v = [] then None else Some v))\<rparr>"
| "effect _ T = T"

fun complaint :: "entry \<Rightarrow> string option" where
  "complaint (Misspelt n v) = Some (''bad bool value in config file for: '' @ n)"
| "complaint (Valueless n) = Some (''missing value in config file for: '' @ n)"
| "complaint (Unknown n v) = Some (''unrecognised variable in config file: '' @ n)"
| "complaint _ = None"

text \<open>Reading entries: the first mistake ends the process if mistakes are fatal, and is ignored otherwise.\<close>

fun read_entries :: "bool \<Rightarrow> entry list \<Rightarrow> tunables \<Rightarrow> tunables res" where
  "read_entries errs_fatal [] T = Inr T"
| "read_entries errs_fatal (e # es) T =
     (case complaint e of
        Some m \<Rightarrow> if errs_fatal then Inl (Oops m) else read_entries errs_fatal es T
      | None \<Rightarrow> read_entries errs_fatal es (effect e T))"

text \<open>A file: every line is ended by a line feed and holds no other, and no null byte.\<close>

definition clean_entry :: "entry \<Rightarrow> bool" where
  "clean_entry e \<longleftrightarrow> wf_entry e \<and> LF \<notin> set (entry_line e) \<and> NUL \<notin> set (entry_line e)"

definition file_of :: "entry list \<Rightarrow> bytes" where
  "file_of es = concat (map (\<lambda>e. entry_line e @ [LF]) es)"

lemma v_lines_file: "\<forall>e \<in> set es. LF \<notin> set (entry_line e) \<Longrightarrow> v_lines (file_of es) = map entry_line es"
proof (induction es)
  case (Cons e es)
  let ?l = "entry_line e"
  have t: "takeWhile (\<lambda>x. x \<noteq> LF) (?l @ LF # r) = ?l" "dropWhile (\<lambda>x. x \<noteq> LF) (?l @ LF # r) = LF # r" for r
    using Cons.prems by (auto simp: takeWhile_append dropWhile_append)
  have "v_lines (?l @ LF # r) = ?l # v_lines r" for r
    using t [of r] v_lines.simps(2) [of "hd (?l @ LF # r)" "tl (?l @ LF # r)"] by simp
  then show ?case using Cons by (simp add: file_of_def)
qed (simp add: file_of_def)

lemma table_lookup:
  "find_setting parseconf_str_array n = str_var n"
  "str_var n = None \<Longrightarrow> find_setting parseconf_bool_array n = bool_var n"
  "str_var n = None \<Longrightarrow> bool_var n = None \<Longrightarrow> find_setting parseconf_uint_array n = uint_var n"
  by (simp_all add: find_setting_map_of str_var_def bool_var_def uint_var_def)

lemma tables_disjoint:
  "bool_var n = Some v \<Longrightarrow> str_var n = None" "uint_var n = Some v \<Longrightarrow> str_var n = None \<and> bool_var n = None"
  by (simp_all add: bool_var_def uint_var_def split: if_splits)

lemma var_names:
  "str_var n = Some v \<Longrightarrow> plain_name n" "bool_var n = Some v \<Longrightarrow> plain_name n" "uint_var n = Some v \<Longrightarrow> plain_name n"
proof -
  have m: "map_of ps n = Some v \<Longrightarrow> set (map fst ps) \<subseteq> set all_settings \<Longrightarrow> plain_name n" for ps :: "(string \<times> string) list"
    by (rule plain_settings) (metis (no_types) fst_conv image_eqI list.set_map map_of_SomeD subsetD)
  show "str_var n = Some v \<Longrightarrow> plain_name n"
    unfolding str_var_def by (rule m [of parseconf_str_array]) (simp_all add: all_settings_def)
  show "bool_var n = Some v \<Longrightarrow> plain_name n"
    unfolding bool_var_def by (rule m [of parseconf_bool_array]) (auto simp: all_settings_def split: if_splits)
  show "uint_var n = Some v \<Longrightarrow> plain_name n"
    unfolding uint_var_def by (rule m [of parseconf_uint_array]) (auto simp: all_settings_def split: if_splits)
qed

lemma no_var: "n \<notin> set all_settings \<Longrightarrow> str_var n = None \<and> bool_var n = None \<and> uint_var n = None"
  by (simp add: bool_var_def uint_var_def str_var_def map_of_eq_None_iff all_settings_def)

lemma decimal_text: "0 < k \<Longrightarrow> hd (digits_of 10 k) \<noteq> CHR ''0''"
proof (induction k rule: less_induct)
  case (less k)
  show ?case
  proof (cases "k < 10")
    case True
    then have d: "digits_of 10 k = [digit_char k]" by (simp add: digits_of.simps [of 10 k])
    have "code (digit_char k) = 48 + k" using True by (simp add: digit_char_def code_def)
    moreover have "code CHR ''0'' = 48" by (simp add: code_def)
    ultimately have "digit_char k \<noteq> CHR ''0''" using less.prems by (metis add.right_neutral add_left_cancel less_not_refl)
    with d show ?thesis by simp
  next
    case False
    with less.IH [of "k div 10"] show ?thesis by (simp add: digits_of.simps [of 10 k])
  qed
qed

lemma str_atoi_decimal: "k < 2 ^ 31 \<Longrightarrow> (word_of_int (str_atoi (digits_of 10 k)) :: 32 word) = of_nat k"
  using strtol_value_digits(1) [of k] by (simp add: str_atoi_def vsf_sysutil_atoi_def)

lemma all_space_set: "str_all_space v \<longleftrightarrow> (\<forall>c \<in> set v. vsf_sysutil_isspace c)"
  by (induction v) auto

lemma named_not_skipped: "plain_name n \<Longrightarrow> \<not> skipped_line (n @ r)"
  by (cases n) (auto simp: plain_name_def skipped_line_def all_space_set)

lemma load_entry:
  assumes "clean_entry e" and "\<not> skipped_line (entry_line e)"
  shows "vsf_parseconf_load_setting (entry_line e) f T =
    (case complaint e of Some m \<Rightarrow> if f then Inl (Oops m) else Inr T | None \<Rightarrow> Inr (effect e T))"
proof (cases e)
  case (Remark t)
  with assms(2) show ?thesis by (simp add: skipped_line_def)
next
  case (Blank t)
  with assms show ?thesis by (simp add: skipped_line_def all_space_set clean_entry_def)
next
  case (Switch n v b)
  with assms obtain var where n: "bool_var n = Some var" "spells v b" "NUL \<notin> set v" by (auto simp: clean_entry_def)
  moreover have "v \<noteq> []" using n(2) by (auto simp: spells_def v_upper_def split: if_splits)
  ultimately show ?thesis
    using load_setting_split [OF var_names(2) [OF n(1)] n(3), of f T] tables_disjoint(1) [OF n(1)] Switch
    by (cases b) (auto simp: table_lookup load_bool_def spells_def Let_def)
next
  case (Octal n w)
  with assms obtain var where n: "uint_var n = Some var" by (auto simp: clean_entry_def)
  then show ?thesis
    using load_setting_split [OF var_names(3) [OF n] octal_text(3), of w f T] tables_disjoint(2) [OF n] Octal octal_text [of w]
    by (simp add: table_lookup load_uint_def str_octal_octal)
next
  case (Decimal n k)
  with assms obtain var where n: "uint_var n = Some var" "0 < k" "k < 2 ^ 31" by (auto simp: clean_entry_def)
  have d: "NUL \<notin> set (digits_of 10 k)" by simp
  show ?thesis
    using load_setting_split [OF var_names(3) [OF n(1)] d, of f T] tables_disjoint(2) [OF n(1)] Decimal
      decimal_text [OF n(2)] str_atoi_decimal [OF n(3)] n(1)
    by (simp add: table_lookup load_uint_def)
next
  case (Words n v)
  with assms obtain var where n: "str_var n = Some var" "NUL \<notin> set v" by (auto simp: clean_entry_def)
  then show ?thesis using load_setting_split [OF var_names(1) [OF n(1)] n(2), of f T] Words by (simp add: table_lookup)
next
  case (Misspelt n v)
  with assms obtain var where n: "bool_var n = Some var" "NUL \<notin> set v" "v \<noteq> []" "\<not> spells v True" "\<not> spells v False"
    by (auto simp: clean_entry_def)
  then show ?thesis
    using load_setting_split [OF var_names(2) [OF n(1)] n(2), of f T] tables_disjoint(1) [OF n(1)] Misspelt
    by (simp add: table_lookup load_bool_def spells_def Let_def die2_def die_def bug_def)
next
  case (Valueless n)
  with assms obtain var where n: "bool_var n = Some var \<or> uint_var n = Some var" by (auto simp: clean_entry_def)
  then have "plain_name n" "str_var n = None" using var_names tables_disjoint by blast+
  then show ?thesis using load_setting_split [of n "[]" f T] Valueless
    by (simp add: table_lookup die2_def die_def bug_def)
next
  case (Unknown n v)
  with assms have n: "plain_name n" "n \<notin> set all_settings" "NUL \<notin> set v" "v \<noteq> []" by (auto simp: clean_entry_def)
  then show ?thesis using load_setting_split [OF n(1,3), of f T] no_var [OF n(2)] Unknown
    by (simp add: table_lookup die2_def die_def bug_def)
qed

lemma skipped_entry: "clean_entry e \<Longrightarrow> skipped_line (entry_line e) \<longleftrightarrow> (\<exists>t. e = Remark t \<or> e = Blank t)"
  by (cases e) (auto simp: clean_entry_def named_not_skipped dest: var_names, auto simp: skipped_line_def all_space_set)

lemma load_settings_entries:
  "\<forall>e \<in> set es. clean_entry e \<Longrightarrow>
   load_settings f (filter (\<lambda>l. \<not> skipped_line l) (map entry_line es)) T = read_entries f es T"
proof (induction es arbitrary: T)
  case (Cons e es)
  show ?case
  proof (cases "skipped_line (entry_line e)")
    case True
    with Cons skipped_entry [of e] show ?thesis by auto
  next
    case False
    with Cons load_entry [of e f T] show ?thesis by (auto split: option.split)
  qed
qed simp

lemma load_file_entries:
  assumes "\<forall>e \<in> set es. clean_entry e" and "fileread f = Some (file_of es)" and "owner_ok f"
  shows "vsf_parseconf_load_file fileread owner_ok (Some f) fatal (saved, T) =
    res_bind (read_entries fatal es T) (\<lambda>T'. Inr (Some f, T'))"
proof -
  have "v_lines (file_of es) = map entry_line es" using assms(1) by (intro v_lines_file) (simp add: clean_entry_def)
  then show ?thesis using assms load_lines_eq [of 0 "file_of es" fatal T] load_settings_entries [OF assms(1)]
    by (simp add: vsf_parseconf_load_file_def)
qed

section \<open>Properties\<close>

text \<open>C37: a configuration file means what its author wrote. The file is written from entries: remarks
  behind a hash sign, blank lines, switches spelt as one of YES, TRUE, 1, NO, FALSE, 0 in any case,
  numbers in octal with a leading zero or in decimal, strings, each under a name of the tables. When it
  can be read and passes the ownership check, loading it sets exactly the variables of these names to
  these values, in the order of the lines, and changes nothing else; an empty string clears its
  variable.\<close>

theorem conf_file_is_its_settings:
  assumes "\<forall>e \<in> set es. clean_entry e \<and> complaint e = None" and "fileread f = Some (file_of es)" and "owner_ok f"
  shows "vsf_parseconf_load_file fileread owner_ok (Some f) errs_fatal (saved, T) = Inr (Some f, fold effect es T)"
proof -
  have "\<forall>e \<in> set es. complaint e = None \<Longrightarrow> read_entries errs_fatal es T = Inr (fold effect es T)"
    by (induction es arbitrary: T) auto
  with load_file_entries [of es fileread f owner_ok errs_fatal saved T] assms show ?thesis by simp
qed

theorem conf_file_is_its_settings_witness:
  "vsf_parseconf_load_file (\<lambda>_. Some (''# c'' @ [LF, LF] @ ''write_enable=yes'' @ [LF])) (\<lambda>_. True)
      (Some ''/etc/v'') True (None, tunables_load_defaults) =
    Inr (Some ''/etc/v'', tunables_load_defaults\<lparr>tbool := (tbool tunables_load_defaults)(''write_enable'' := True)\<rparr>)"
proof -
  let ?es = "[Remark '' c'', Blank [], Switch ''write_enable'' ''yes'' True]"
  have v: "bool_var ''write_enable'' = Some ''write_enable''" "spells ''yes'' True" by code_simp+
  then have "\<forall>e \<in> set ?es. clean_entry e \<and> complaint e = None" by (simp add: clean_entry_def)
  from conf_file_is_its_settings [OF this, of "\<lambda>_. Some (file_of ?es)" "''/etc/v''" "\<lambda>_. True" True None tunables_load_defaults] v
  show ?thesis by (simp add: file_of_def)
qed



end
