(* ===== verification/Netstr.thy ===== *)
theory Netstr
  imports StrVal
begin

text \<open>
  Cutting lines out of a socket: \<^verbatim>\<open>str_netfd_alloc\<close> of \<^verbatim>\<open>netstr.c\<close>, which peeks, looks for the
  terminator and then reads exactly up to it. The socket is the bytes still to come and a schedule
  of what each peek sees: some number of bytes (at least one of those still to come, at most what
  the caller asks for), an error, or the alarm of the session, whose handler shuts the read side
  down so that the peek returns 0. After the last byte the peer has closed. Reads that follow a
  peek return what was peeked.
\<close>

section \<open>Reading a line\<close>

datatype peek_result = Sees nat | Peek_error | Alarm

fun sees :: "peek_result \<Rightarrow> bool" where
  "sees (Sees k) = True"
| "sees _ = False"

definition VSFTP_MAX_COMMAND_LINE :: nat where
  "VSFTP_MAX_COMMAND_LINE = 4096"

text \<open>How many bytes a peek for \<open>left\<close> bytes returns.\<close>

definition visible :: "nat \<Rightarrow> nat \<Rightarrow> bytes \<Rightarrow> nat" where
  "visible w left incoming =
     (if incoming = [] then 0 else max 1 (min w (min left (length incoming))))"

text \<open>\<open>p_readbuf\<close> holds what was read so far; \<open>left\<close> is the space behind it.\<close>

function netfd_loop ::
  "char \<Rightarrow> nat \<Rightarrow> bytes \<Rightarrow> nat \<Rightarrow> peek_result list \<Rightarrow> bytes \<Rightarrow>
   (int \<times> bytes \<times> peek_result list \<times> bytes) res" where
  "netfd_loop term maxlen p_readbuf left sched incoming =
     (if length p_readbuf + left \<noteq> maxlen then bug ''poor buffer accounting in str_netfd_alloc''
      else if left = 0 then Inr (-1, [], sched, incoming)
      else
        let (w, sched') = (case sched of [] \<Rightarrow> (Sees left, []) | s # ss \<Rightarrow> (s, ss)) in
        case w of
          Peek_error \<Rightarrow> die ''vsf_sysutil_recv_peek''
        | Alarm \<Rightarrow> Inr (0, [], sched', incoming)
        | Sees k \<Rightarrow>
            let bytes_read = visible k left incoming;
                chunk = take bytes_read incoming;
                i = length (takeWhile (\<lambda>c. c \<noteq> term) chunk)
            in if bytes_read = 0 then Inr (0, [], sched', incoming)
               else if i < length chunk
               then Inr (int (i + 1), takeWhile (\<lambda>c. c \<noteq> term) (p_readbuf @ chunk), sched',
                         drop (i + 1) incoming)
               else if bytes_read > left then bug ''bytes_read > left in str_netfd_alloc''
               else netfd_loop term maxlen (p_readbuf @ chunk) (left - bytes_read) sched'
                      (drop bytes_read incoming))"
  by pat_completeness auto
termination
  by (relation "measure (\<lambda>(t, m, b, l, s, inc). l)") (auto split: list.splits)

declare netfd_loop.simps [simp del]

definition str_netfd_alloc ::
  "char \<Rightarrow> nat \<Rightarrow> peek_result list \<Rightarrow> bytes \<Rightarrow> (int \<times> bytes \<times> peek_result list \<times> bytes) res" where
  "str_netfd_alloc term maxlen sched incoming = netfd_loop term maxlen [] maxlen sched incoming"

section \<open>Lemmas\<close>

text \<open>The outcome for a stream, whatever the peeks see.\<close>

definition line_outcome ::
  "char \<Rightarrow> nat \<Rightarrow> bytes \<Rightarrow> bytes \<Rightarrow> (int \<times> bytes \<times> peek_result list \<times> bytes) res \<Rightarrow> bool" where
  "line_outcome term left p_readbuf incoming r \<longleftrightarrow>
     (let l = takeWhile (\<lambda>c. c \<noteq> term) incoming in
      if length l < left \<and> length l < length incoming
      then \<exists>ret s. r = Inr (ret, p_readbuf @ l, s, drop (length l + 1) incoming) \<and> 0 < ret
      else if left \<le> length incoming then \<exists>s. r = Inr (-1, [], s, drop left incoming)
      else \<exists>s. r = Inr (0, [], s, []))"

lemma netfd_loop_outcome:
  "length p_readbuf + left = maxlen \<Longrightarrow> tm \<notin> set p_readbuf \<Longrightarrow> list_all sees sched \<Longrightarrow>
   line_outcome tm left p_readbuf incoming (netfd_loop tm maxlen p_readbuf left sched incoming)"
proof (induction tm maxlen p_readbuf left sched incoming rule: netfd_loop.induct)
  case (1 tm maxlen buf left sched incoming)
  consider (full) "left = 0" | (closed) "left \<noteq> 0" "incoming = []" | (data) "left \<noteq> 0" "incoming \<noteq> []"
    by blast
  then show ?case
  proof cases
    case full
    then have "netfd_loop tm maxlen buf left sched incoming = Inr (-1, [], sched, incoming)"
      using "1.prems"(1) by (subst netfd_loop.simps) simp
    with full show ?thesis by (simp add: line_outcome_def Let_def)
  next
    case closed
    obtain k ss where "(case sched of [] \<Rightarrow> (Sees left, []) | s # ss \<Rightarrow> (s, ss)) = (Sees k, ss)"
      using "1.prems"(3) by (cases sched; cases "hd sched") auto
    then have "netfd_loop tm maxlen buf left sched incoming = Inr (0, [], ss, [])"
      using closed "1.prems"(1) by (subst netfd_loop.simps) (simp add: visible_def)
    with closed show ?thesis by (simp add: line_outcome_def Let_def)
  next
    case False: data
    obtain k ss where ks: "(case sched of [] \<Rightarrow> (Sees left, []) | s # ss \<Rightarrow> (s, ss)) = (Sees k, ss)"
        "list_all sees ss"
      using "1.prems"(3) by (cases sched; cases "hd sched") auto
    define n where "n = visible k left incoming"
    have "1 \<le> length incoming" using False by (simp add: Suc_le_eq)
    then have n: "0 < n" "n \<le> left" "n \<le> length incoming"
      using False by (auto simp: n_def visible_def min_def max_def)
    let ?chunk = "take n incoming"
    have inc: "incoming = ?chunk @ drop n incoming" by simp
    show ?thesis
    proof (cases "tm \<in> set ?chunk")
      case True
      have tw: "takeWhile (\<lambda>c. c \<noteq> tm) incoming = takeWhile (\<lambda>c. c \<noteq> tm) ?chunk"
        using takeWhile_append1 [OF True, of "\<lambda>c. c \<noteq> tm" "drop n incoming"] inc by simp
      have less: "length (takeWhile (\<lambda>c. c \<noteq> tm) ?chunk) < length ?chunk"
        using True by (rule takeWhile_short)
      have buf: "takeWhile (\<lambda>c. c \<noteq> tm) (buf @ ?chunk) = buf @ takeWhile (\<lambda>c. c \<noteq> tm) ?chunk"
        using "1.prems"(2) by (intro takeWhile_append2) auto
      have "netfd_loop tm maxlen buf left sched incoming =
          Inr (int (length (takeWhile (\<lambda>c. c \<noteq> tm) ?chunk) + 1), buf @ takeWhile (\<lambda>c. c \<noteq> tm) ?chunk, ss,
               drop (length (takeWhile (\<lambda>c. c \<noteq> tm) ?chunk) + 1) incoming)"
        using False "1.prems"(1) ks n less buf
        by (subst netfd_loop.simps) (simp add: n_def [symmetric] Let_def)
      with less n show ?thesis unfolding line_outcome_def tw by (simp add: Let_def)
    next
      case notin: False
      have all: "takeWhile (\<lambda>c. c \<noteq> tm) ?chunk = ?chunk" using notin by (auto simp: takeWhile_eq_all_conv)
      have tw: "takeWhile (\<lambda>c. c \<noteq> tm) incoming = ?chunk @ takeWhile (\<lambda>c. c \<noteq> tm) (drop n incoming)"
        using takeWhile_append2 [of ?chunk "\<lambda>c. c \<noteq> tm" "drop n incoming"] notin inc by auto
      have run: "netfd_loop tm maxlen buf left sched incoming =
          netfd_loop tm maxlen (buf @ ?chunk) (left - n) ss (drop n incoming)"
        using False "1.prems"(1) ks n all
        by (subst netfd_loop.simps) (simp add: n_def [symmetric] Let_def del: takeWhile_eq_all_conv)
      have IH: "line_outcome tm (left - n) (buf @ ?chunk) (drop n incoming)
          (netfd_loop tm maxlen (buf @ ?chunk) (left - n) ss (drop n incoming))"
      proof (rule "1.IH" [OF _ _ ks(1) [symmetric] refl refl n_def refl refl])
        show "\<not> length buf + left \<noteq> maxlen" "left \<noteq> 0" using "1.prems"(1) False by simp_all
      qed (use "1.prems" False ks n all notin in \<open>auto simp del: takeWhile_eq_all_conv\<close>)
      have len: "length ?chunk = n" using n by simp
      show ?thesis unfolding run using IH n len
        unfolding line_outcome_def tw by (auto simp: Let_def add.commute split: if_splits)
    qed
  qed
qed

text \<open>A line that was read shortens the stream.\<close>

lemma netfd_consumes:
  "netfd_loop tm maxlen buf left sc inc = Inr (r, l, sc', inc') \<Longrightarrow> 0 < r \<Longrightarrow> length inc' < length inc"
proof (induction left arbitrary: buf sc inc rule: less_induct)
  case (less left)
  have step: "length inc' < length inc"
    if "netfd_loop tm maxlen b (left - n) ss (drop n inc) = Inr (r, l, sc', inc')" "0 < n" "left \<noteq> 0" for b n ss
  proof -
    have "length inc' < length (drop n inc)" by (rule less.IH [OF _ that(1) less.prems(2)]) (use that in simp)
    then show ?thesis by simp
  qed
  from less.prems show ?case
    by (subst (asm) netfd_loop.simps)
      (auto simp: bug_def Let_def intro: step split: if_splits prod.splits list.splits peek_result.splits)
qed

section \<open>Properties\<close>

text \<open>C18: the line reader is exact and does not depend on how the bytes arrive. Whatever each peek
  sees, \<^verbatim>\<open>str_netfd_alloc\<close> returns the bytes before the first terminator and leaves the stream just
  behind it, if the terminator is among the first \<open>maxlen\<close> bytes; otherwise it reports a line that
  is too long after exactly \<open>maxlen\<close> bytes, or the end of the stream. Its buffer checks never fire.\<close>

theorem netfd_line_exact:
  assumes "list_all sees sched"
  shows "let l = takeWhile (\<lambda>c. c \<noteq> tm) incoming; r = str_netfd_alloc tm maxlen sched incoming in
      if length l < maxlen \<and> length l < length incoming
      then \<exists>ret s. r = Inr (ret, l, s, drop (length l + 1) incoming) \<and> 0 < ret
      else if maxlen \<le> length incoming then \<exists>s. r = Inr (-1, [], s, drop maxlen incoming)
      else \<exists>s. r = Inr (0, [], s, [])"
  using netfd_loop_outcome [of "[]" maxlen maxlen tm sched incoming] assms
  unfolding line_outcome_def str_netfd_alloc_def Let_def append_Nil by simp

theorem netfd_line_exact_witness:
  "\<exists>ret s. str_netfd_alloc LF 10 [Sees 1, Sees 5] (''QUIT'' @ [LF] @ ''X'') = Inr (ret, ''QUIT'', s, ''X'') \<and> 0 < ret"
proof -
  have h: "list_all sees [Sees 1, Sees 5]" by simp
  show ?thesis using netfd_line_exact [OF h, of LF "''QUIT'' @ [LF] @ ''X''" 10] by (simp add: Let_def)
qed

end
