(* ===== verification/Sockaddr.thy ===== *)
theory Sockaddr
  imports IpAddr
begin

text \<open>
  Socket addresses: the functions of \<^verbatim>\<open>sysutil.c\<close> on \<^verbatim>\<open>struct vsf_sysutil_sockaddr\<close>, the tagged union
  of an IPv4 and an IPv6 address. Addresses are their raw bytes in network order, ports are in
  host order (the byte swaps of \<^verbatim>\<open>htons\<close> and \<^verbatim>\<open>ntohs\<close> cancel). \<open>canon\<close> is the 16-byte form in
  which the comparison of the two families is an equality.
\<close>

datatype sockaddr =
    Sockaddr_in bytes "16 word"
  | Sockaddr_in6 bytes "16 word" "32 word"
  | Sockaddr_other nat

text \<open>The sizes of \<^verbatim>\<open>struct in_addr\<close> and \<^verbatim>\<open>struct in6_addr\<close>.\<close>

fun wf_addr :: "sockaddr \<Rightarrow> bool" where
  "wf_addr (Sockaddr_in a p) \<longleftrightarrow> length a = 4"
| "wf_addr (Sockaddr_in6 a p s) \<longleftrightarrow> length a = 16"
| "wf_addr (Sockaddr_other f) \<longleftrightarrow> False"

definition vsf_sysutil_sockaddr_alloc_ipv4 :: sockaddr where
  "vsf_sysutil_sockaddr_alloc_ipv4 = Sockaddr_in (replicate 4 NUL) 0"

definition vsf_sysutil_sockaddr_alloc_ipv6 :: sockaddr where
  "vsf_sysutil_sockaddr_alloc_ipv6 = Sockaddr_in6 (replicate 16 NUL) 0 0"

text \<open>The clone keeps the address and the scope, not the port.\<close>

fun vsf_sysutil_sockaddr_clone :: "sockaddr \<Rightarrow> sockaddr res" where
  "vsf_sysutil_sockaddr_clone (Sockaddr_in a p) = Inr (Sockaddr_in a 0)"
| "vsf_sysutil_sockaddr_clone (Sockaddr_in6 a p s) = Inr (Sockaddr_in6 a 0 s)"
| "vsf_sysutil_sockaddr_clone (Sockaddr_other f) = die ''can only support ipv4 and ipv6 currently''"

definition v4_pattern :: bytes where
  "v4_pattern = replicate 10 NUL @ [CHR 0xFF, CHR 0xFF]"

fun vsf_sysutil_sockaddr_ipv6_v4 :: "sockaddr \<Rightarrow> bytes option" where
  "vsf_sysutil_sockaddr_ipv6_v4 (Sockaddr_in6 a p s) =
     (if vsf_sysutil_memcmp v4_pattern (take 12 a) \<noteq> 0 then None else Some (drop 12 a))"
| "vsf_sysutil_sockaddr_ipv6_v4 _ = None"

fun vsf_sysutil_sockaddr_ipv4_v6 :: "sockaddr \<Rightarrow> bytes option" where
  "vsf_sysutil_sockaddr_ipv4_v6 (Sockaddr_in a p) = Some (v4_pattern @ take 4 a)"
| "vsf_sysutil_sockaddr_ipv4_v6 _ = None"

fun vsf_sysutil_sockaddr_addr_equal :: "sockaddr \<Rightarrow> sockaddr \<Rightarrow> bool" where
  "vsf_sysutil_sockaddr_addr_equal (Sockaddr_in a p) (Sockaddr_in6 b q s) =
     (case vsf_sysutil_sockaddr_ipv6_v4 (Sockaddr_in6 b q s) of
        None \<Rightarrow> False | Some v4 \<Rightarrow> vsf_sysutil_memcmp v4 a = 0)"
| "vsf_sysutil_sockaddr_addr_equal (Sockaddr_in6 a p s) (Sockaddr_in b q) =
     (case vsf_sysutil_sockaddr_ipv6_v4 (Sockaddr_in6 a p s) of
        None \<Rightarrow> False | Some v4 \<Rightarrow> vsf_sysutil_memcmp v4 b = 0)"
| "vsf_sysutil_sockaddr_addr_equal (Sockaddr_in a p) (Sockaddr_in b q) =
     (vsf_sysutil_memcmp a b = 0)"
| "vsf_sysutil_sockaddr_addr_equal (Sockaddr_in6 a p s) (Sockaddr_in6 b q t) =
     (vsf_sysutil_memcmp a b = 0)"
| "vsf_sysutil_sockaddr_addr_equal _ _ = False"

fun vsf_sysutil_sockaddr_is_ipv6 :: "sockaddr \<Rightarrow> bool" where
  "vsf_sysutil_sockaddr_is_ipv6 (Sockaddr_in6 a p s) = True"
| "vsf_sysutil_sockaddr_is_ipv6 _ = False"

text \<open>Copying \<open>n\<close> bytes out of a shorter block reads outside it.\<close>

definition raw_bytes :: "nat \<Rightarrow> bytes \<Rightarrow> bytes res" where
  "raw_bytes n p_raw = (if length p_raw < n then Inl Segv else Inr (take n p_raw))"

fun vsf_sysutil_sockaddr_set_ipv4addr :: "sockaddr \<Rightarrow> bytes \<Rightarrow> sockaddr res" where
  "vsf_sysutil_sockaddr_set_ipv4addr (Sockaddr_in a p) p_raw =
     res_bind (raw_bytes 4 p_raw) (\<lambda>r. Inr (Sockaddr_in r p))"
| "vsf_sysutil_sockaddr_set_ipv4addr (Sockaddr_in6 a p s) p_raw =
     res_bind (raw_bytes 4 p_raw) (\<lambda>r.
     case vsf_sysutil_sockaddr_ipv4_v6 (Sockaddr_in r 0) of
       None \<Rightarrow> Inl Segv | Some v6 \<Rightarrow> Inr (Sockaddr_in6 v6 p s))"
| "vsf_sysutil_sockaddr_set_ipv4addr (Sockaddr_other f) p_raw = bug ''bad family''"

fun vsf_sysutil_sockaddr_set_ipv6addr :: "sockaddr \<Rightarrow> bytes \<Rightarrow> sockaddr res" where
  "vsf_sysutil_sockaddr_set_ipv6addr (Sockaddr_in6 a p s) p_raw =
     res_bind (raw_bytes 16 p_raw) (\<lambda>r. Inr (Sockaddr_in6 r p s))"
| "vsf_sysutil_sockaddr_set_ipv6addr _ p_raw = bug ''bad family''"

fun vsf_sysutil_sockaddr_get_raw_addr :: "sockaddr \<Rightarrow> bytes res" where
  "vsf_sysutil_sockaddr_get_raw_addr (Sockaddr_in a p) = Inr a"
| "vsf_sysutil_sockaddr_get_raw_addr (Sockaddr_in6 a p s) = Inr a"
| "vsf_sysutil_sockaddr_get_raw_addr (Sockaddr_other f) = bug ''bad family''"

definition vsf_sysutil_get_ipaddr_size :: nat where
  "vsf_sysutil_get_ipaddr_size = (let size = 4; size2 = 16 in if size2 > size then size2 else size)"

fun vsf_sysutil_sockaddr_set_any :: "sockaddr \<Rightarrow> sockaddr res" where
  "vsf_sysutil_sockaddr_set_any (Sockaddr_in a p) = Inr (Sockaddr_in (replicate 4 NUL) p)"
| "vsf_sysutil_sockaddr_set_any (Sockaddr_in6 a p s) = Inr (Sockaddr_in6 (replicate 16 NUL) p s)"
| "vsf_sysutil_sockaddr_set_any (Sockaddr_other f) = bug ''bad family''"

fun vsf_sysutil_sockaddr_get_port :: "sockaddr \<Rightarrow> 16 word res" where
  "vsf_sysutil_sockaddr_get_port (Sockaddr_in a p) = Inr p"
| "vsf_sysutil_sockaddr_get_port (Sockaddr_in6 a p s) = Inr p"
| "vsf_sysutil_sockaddr_get_port (Sockaddr_other f) = bug ''bad family''"

fun vsf_sysutil_sockaddr_set_port :: "sockaddr \<Rightarrow> 16 word \<Rightarrow> sockaddr res" where
  "vsf_sysutil_sockaddr_set_port (Sockaddr_in a p) the_port = Inr (Sockaddr_in a the_port)"
| "vsf_sysutil_sockaddr_set_port (Sockaddr_in6 a p s) the_port = Inr (Sockaddr_in6 a the_port s)"
| "vsf_sysutil_sockaddr_set_port (Sockaddr_other f) the_port = bug ''bad family''"

text \<open>\<^verbatim>\<open>inet_ntoa\<close> of the C library.\<close>

definition vsf_sysutil_inet_ntoa :: "bytes \<Rightarrow> bytes" where
  "vsf_sysutil_inet_ntoa a = print_sep CHR ''.'' (map code a)"

section \<open>Lemmas\<close>

fun canon :: "sockaddr \<Rightarrow> bytes" where
  "canon (Sockaddr_in a p) = v4_pattern @ a"
| "canon (Sockaddr_in6 a p s) = a"
| "canon (Sockaddr_other f) = []"

lemma length_pattern [simp]: "length v4_pattern = 12"
  by (simp add: v4_pattern_def)

lemma mapped_iff: "v4_pattern @ a = b \<longleftrightarrow> take 12 b = v4_pattern \<and> drop 12 b = a"
proof
  assume "take 12 b = v4_pattern \<and> drop 12 b = a"
  then show "v4_pattern @ a = b" using append_take_drop_id [of 12 b] by simp
qed auto

lemma ipv6_v4_eq:
  "vsf_sysutil_sockaddr_ipv6_v4 (Sockaddr_in6 a p s) =
     (if take 12 a = v4_pattern then Some (drop 12 a) else None)" if "length a = 16"
  using that memcmp_0_iff [of v4_pattern "take 12 a"] by auto

lemma addr_equal_canon:
  "wf_addr p \<Longrightarrow> wf_addr q \<Longrightarrow> vsf_sysutil_sockaddr_addr_equal p q \<longleftrightarrow> canon p = canon q"
proof (induction p q rule: vsf_sysutil_sockaddr_addr_equal.induct)
  case (1 a p b q s)
  then show ?case
    by (simp add: ipv6_v4_eq mapped_iff memcmp_0_iff del: vsf_sysutil_sockaddr_ipv6_v4.simps)
next
  case (2 a p s b q)
  then have "canon (Sockaddr_in6 a p s) = canon (Sockaddr_in b q) \<longleftrightarrow> v4_pattern @ b = a" by auto
  with 2 show ?case
    by (simp only: mapped_iff)
      (simp add: ipv6_v4_eq memcmp_0_iff del: vsf_sysutil_sockaddr_ipv6_v4.simps)
qed (simp_all add: memcmp_0_iff)

lemma set_port_ok:
  "wf_addr a \<Longrightarrow> \<exists>b. vsf_sysutil_sockaddr_set_port a p = Inr b \<and> wf_addr b \<and> canon b = canon a \<and>
     vsf_sysutil_sockaddr_get_port b = Inr p \<and>
     vsf_sysutil_sockaddr_is_ipv6 b = vsf_sysutil_sockaddr_is_ipv6 a"
  by (cases a) simp_all

lemma clone_ok:
  "wf_addr a \<Longrightarrow> \<exists>b. vsf_sysutil_sockaddr_clone a = Inr b \<and> wf_addr b \<and> canon b = canon a \<and>
     vsf_sysutil_sockaddr_is_ipv6 b = vsf_sysutil_sockaddr_is_ipv6 a"
  by (cases a) simp_all

lemma set_ipv4_ok:
  "wf_addr a \<Longrightarrow> 4 \<le> length r \<Longrightarrow>
   \<exists>b. vsf_sysutil_sockaddr_set_ipv4addr a r = Inr b \<and> wf_addr b \<and> canon b = v4_pattern @ take 4 r \<and>
     vsf_sysutil_sockaddr_is_ipv6 b = vsf_sysutil_sockaddr_is_ipv6 a"
  by (cases a) (simp_all add: raw_bytes_def)

lemma set_ipv6_ok:
  "wf_addr a \<Longrightarrow> vsf_sysutil_sockaddr_is_ipv6 a \<Longrightarrow> 16 \<le> length r \<Longrightarrow>
   \<exists>b. vsf_sysutil_sockaddr_set_ipv6addr a r = Inr b \<and> wf_addr b \<and> canon b = take 16 r \<and>
     vsf_sysutil_sockaddr_is_ipv6 b"
  by (cases a) (simp_all add: raw_bytes_def)

lemmas sockaddr_ok = set_port_ok clone_ok set_ipv4_ok set_ipv6_ok

section \<open>Properties\<close>

text \<open>C28: the address comparison that guards PORT, EPRT and passive connections is an equivalence
  of addresses: it holds exactly for addresses with the same 16-byte form, in which an IPv4
  address and its IPv4-mapped IPv6 address are one, and it ignores ports and scopes; and setting
  an IPv4 address in a socket address of either family makes it equal to exactly that address.\<close>

theorem addr_equal_is_equivalence:
  assumes "wf_addr p" and "wf_addr q" and "wf_addr r" and "length a = 4" and "length b = 4"
  shows "vsf_sysutil_sockaddr_addr_equal p p \<and>
    vsf_sysutil_sockaddr_addr_equal p q = vsf_sysutil_sockaddr_addr_equal q p \<and>
    (vsf_sysutil_sockaddr_addr_equal p q \<longrightarrow> vsf_sysutil_sockaddr_addr_equal q r \<longrightarrow>
     vsf_sysutil_sockaddr_addr_equal p r) \<and>
    (\<exists>p'. vsf_sysutil_sockaddr_set_ipv4addr p a = Inr p' \<and>
       (vsf_sysutil_sockaddr_addr_equal p' (Sockaddr_in b port) \<longleftrightarrow> a = b))"
proof -
  obtain p' where p': "vsf_sysutil_sockaddr_set_ipv4addr p a = Inr p'" "wf_addr p'"
      "canon p' = v4_pattern @ take 4 a"
    using set_ipv4_ok [of p a] assms by auto
  moreover have "vsf_sysutil_sockaddr_addr_equal p' (Sockaddr_in b port) \<longleftrightarrow> a = b"
    using assms p' by (simp add: addr_equal_canon)
  ultimately show ?thesis using assms by (auto simp: addr_equal_canon)
qed

theorem addr_equal_is_equivalence_witness:
  "\<exists>p'. vsf_sysutil_sockaddr_set_ipv4addr vsf_sysutil_sockaddr_alloc_ipv6 ''abcd'' = Inr p' \<and>
     (vsf_sysutil_sockaddr_addr_equal p' (Sockaddr_in ''abcd'' 21) \<longleftrightarrow> ''abcd'' = ''abcd'')"
  using addr_equal_is_equivalence [of vsf_sysutil_sockaddr_alloc_ipv6 "Sockaddr_in ''abcd'' 0"
      "Sockaddr_in ''abcd'' 0" "''abcd''" "''abcd''" 21]
  by (simp add: vsf_sysutil_sockaddr_alloc_ipv6_def)

end
