(* ===== verification/World.thy ===== *)
theory World
  imports Netstr Sockaddr Tunables
begin

text \<open>
  The state of a session process and the actions on it. \<open>vsf_session\<close> is \<^verbatim>\<open>struct vsf_session\<close>;
  \<open>world\<close> adds what surrounds it: the control connection (bytes still to come and how they
  arrive), the fragments that will arrive on the data connection (\<open>None\<close>: a read that fails), the privileged parent's copy of the session with the two directions of the socket
  between the processes, and the trace of everything the process did to the outside. An action
  returns a result or a fault together with the world it leaves. Functions outside the sources
  (the operating system, the COS client) appear as events: each call is appended to the trace, and
  the environment \<open>env\<close>, a parameter, gives the answer from the calls made so far.
\<close>

section \<open>The session\<close>

datatype EVSFLogEntryType =
    kVSFLogEntryNull | kVSFLogEntryDownload | kVSFLogEntryUpload | kVSFLogEntryMkdir
  | kVSFLogEntryLogin | kVSFLogEntryFTPInput | kVSFLogEntryFTPOutput | kVSFLogEntryConnection
  | kVSFLogEntryDelete | kVSFLogEntryRename | kVSFLogEntryRmdir | kVSFLogEntryChmod
  | kVSFLogEntryDebug

record vsf_session =
  p_local_addr :: sockaddr
  p_remote_addr :: sockaddr
  idle_timeout :: bool
  data_timeout :: bool
  pasv_listen_fd :: int
  p_port_sockaddr :: "sockaddr option"
  data_fd :: int
  data_progress :: bool
  bw_rate_max :: "32 word"
  is_anonymous :: bool
  is_guest :: bool
  user_str :: bytes
  anon_pass_str :: bytes
  restart_pos :: int
  is_ascii :: bool
  abor_received :: bool
  epsv_all :: bool
  is_http :: bool
  http_get_arg :: bytes
  p_visited_dir_list :: "bytes list"
  anon_ftp_uid :: int
  guest_user_uid :: int
  anon_upload_chown_uid :: int
  banned_email_str :: bytes
  email_passwords_str :: bytes
  userlist_str :: bytes
  banner_str :: bytes
  tcp_wrapper_ok :: bool
  xferlog_fd :: int
  vsftpd_log_fd :: int
  remote_ip_str :: bytes
  log_type :: "EVSFLogEntryType option"
  log_start_sec :: int
  log_start_usec :: int
  log_str :: bytes
  transfer_size :: int
  ftp_cmd_str :: bytes
  ftp_arg_str :: bytes
  num_clients :: "32 word"
  num_this_ip :: "32 word"
  home_str :: bytes
  control_use_ssl :: bool
  data_use_ssl :: bool
  ssl_slave_active :: bool
  login_fails :: "32 word"
  permissions :: "32 word"

section \<open>The world and the environment\<close>

text \<open>\<open>Sys f texts numbers\<close> is a call of the outside function \<open>f\<close>; \<open>Out\<close> and \<open>Data\<close> are bytes given
  to the control and to the data connection.\<close>

datatype event = Sys string "bytes list" "int list" | Out bytes | Data bytes

datatype wire_item = Byte char | Fd int

record world =
  sess :: vsf_session
  parent :: vsf_session
  incoming :: bytes
  sched :: "peek_result list"
  up :: "wire_item list"
  down :: "wire_item list"
  data_in :: "bytes option list"
  trace :: "event list"

text \<open>An entry of a listing of the store, and a page of one: the entries, whether the listing is
  complete, and the mark to continue at. A page that cannot be read is \<open>None\<close>.\<close>

record file_info =
  info_type :: nat
  file_name :: bytes
  file_size :: int
  mtime :: int

record list_page =
  infos :: "file_info list"
  listover :: bool
  next_context :: bytes

text \<open>The environment: the configuration, the answers to calls, and the C library's \<^verbatim>\<open>qsort\<close> on pairs of
  a text and its sort key.\<close>

record env =
  tun :: tunables
  answers :: "event list \<Rightarrow> event \<Rightarrow> int"
  texts :: "event list \<Rightarrow> event \<Rightarrow> bytes"
  pages :: "event list \<Rightarrow> event \<Rightarrow> list_page option list"
  qsort_fn :: "(bytes \<times> bytes \<Rightarrow> bytes \<times> bytes \<Rightarrow> int) \<Rightarrow> (bytes \<times> bytes) list \<Rightarrow> (bytes \<times> bytes) list"

abbreviation tb :: "env \<Rightarrow> string \<Rightarrow> bool" where "tb E v \<equiv> tbool (tun E) v"
abbreviation tu :: "env \<Rightarrow> string \<Rightarrow> 32 word" where "tu E v \<equiv> tuint (tun E) v"
abbreviation ts :: "env \<Rightarrow> string \<Rightarrow> bytes option" where "ts E v \<equiv> tstr (tun E) v"

section \<open>Actions\<close>

type_synonym 'a act = "world \<Rightarrow> 'a res \<times> world"

definition ret :: "'a \<Rightarrow> 'a act" where
  "ret a = (\<lambda>w. (Inr a, w))"

definition raise :: "fault \<Rightarrow> 'a act" where
  "raise f = (\<lambda>w. (Inl f, w))"

definition lift :: "'a res \<Rightarrow> 'a act" where
  "lift r = (\<lambda>w. (r, w))"

definition bnd :: "'a act \<Rightarrow> ('a \<Rightarrow> 'b act) \<Rightarrow> 'b act" where
  "bnd m k = (\<lambda>w. case m w of (Inl f, w') \<Rightarrow> (Inl f, w') | (Inr a, w') \<Rightarrow> k a w')"

definition thn :: "'a act \<Rightarrow> 'b act \<Rightarrow> 'b act" where
  "thn m n = bnd m (\<lambda>_. n)"

fun steps :: "unit act list \<Rightarrow> unit act" where
  "steps [] = ret ()"
| "steps (m # ms) = bnd m (\<lambda>_. steps ms)"

definition doif :: "bool \<Rightarrow> unit act \<Rightarrow> unit act" where
  "doif b m = (if b then m else ret ())"

definition gets :: "(vsf_session \<Rightarrow> 'a) \<Rightarrow> 'a act" where
  "gets f = (\<lambda>w. (Inr (f (sess w)), w))"

definition upd :: "(vsf_session \<Rightarrow> vsf_session) \<Rightarrow> unit act" where
  "upd f = (\<lambda>w. (Inr (), w\<lparr>sess := f (sess w)\<rparr>))"

text \<open>A call whose answer matters, one whose answer is ignored, and queries, which leave no trace.\<close>

definition sys :: "env \<Rightarrow> event \<Rightarrow> int act" where
  "sys E e = (\<lambda>w. (Inr (answers E (trace w) e), w\<lparr>trace := trace w @ [e]\<rparr>))"

definition emit :: "event \<Rightarrow> unit act" where
  "emit e = (\<lambda>w. (Inr (), w\<lparr>trace := trace w @ [e]\<rparr>))"

definition ask :: "env \<Rightarrow> event \<Rightarrow> int act" where
  "ask E e = (\<lambda>w. (Inr (answers E (trace w) e), w))"

definition ask_text :: "env \<Rightarrow> event \<Rightarrow> bytes act" where
  "ask_text E e = (\<lambda>w. (Inr (texts E (trace w) e), w))"

definition vsf_sysutil_exit :: "int \<Rightarrow> 'a act" where
  "vsf_sysutil_exit n = raise (Exited n)"

lemmas act_defs = ret_def raise_def lift_def bnd_def thn_def doif_def gets_def upd_def sys_def emit_def
  ask_def ask_text_def vsf_sysutil_exit_def

lemma bnd_ret [simp]: "bnd (ret a) k = k a"
  by (simp add: act_defs)

lemma bnd_raise [simp]: "bnd (raise f) k = raise f"
  by (simp add: act_defs)

lemma bnd_assoc: "bnd (bnd m k) h = bnd m (\<lambda>a. bnd (k a) h)"
  by (rule ext) (auto simp: bnd_def split: prod.splits sum.splits)

section \<open>Weakest preconditions\<close>

text \<open>\<open>wp m Q X w\<close>: run from \<open>w\<close>, the action returns with \<open>Q\<close> or faults with \<open>X\<close>.\<close>

definition wp :: "'a act \<Rightarrow> ('a \<Rightarrow> world \<Rightarrow> bool) \<Rightarrow> (fault \<Rightarrow> world \<Rightarrow> bool) \<Rightarrow> world \<Rightarrow> bool" where
  "wp m Q X w = (case m w of (Inl f, w') \<Rightarrow> X f w' | (Inr a, w') \<Rightarrow> Q a w')"

named_theorems wp_simps

lemma wp_basic [wp_simps]:
  "wp (ret a) Q X w = Q a w"
  "wp (raise f) Q X w = X f w"
  "wp (vsf_sysutil_exit n) Q X w = X (Exited n) w"
  "wp (lift r) Q X w = (case r of Inl f \<Rightarrow> X f w | Inr a \<Rightarrow> Q a w)"
  "wp (gets g) Q X w = Q (g (sess w)) w"
  "wp (upd u) Q' X w = Q' () (w\<lparr>sess := u (sess w)\<rparr>)"
  "wp (emit e) Q' X w = Q' () (w\<lparr>trace := trace w @ [e]\<rparr>)"
  "wp (sys E e) Q'' X w = Q'' (answers E (trace w) e) (w\<lparr>trace := trace w @ [e]\<rparr>)"
  "wp (ask E e) Q'' X w = Q'' (answers E (trace w) e) w"
  "wp (ask_text E e) Q3 X w = Q3 (texts E (trace w) e) w"
  by (simp_all add: wp_def act_defs split: sum.splits)

lemma wp_bnd [wp_simps]: "wp (bnd m k) Q X w = wp m (\<lambda>a. wp (k a) Q X) X w"
  by (auto simp: wp_def bnd_def split: prod.splits sum.splits)

lemma wp_thn [wp_simps]: "wp (thn m n) Q X w = wp m (\<lambda>_. wp n Q X) X w"
  by (simp add: thn_def wp_bnd)

lemma wp_steps [wp_simps]:
  "wp (steps []) Q X w = Q () w"
  "wp (steps (m # ms)) Q X w = wp m (\<lambda>_. wp (steps ms) Q X) X w"
  by (simp_all add: wp_simps)

lemma wp_doif [wp_simps]: "wp (doif b m) Q X w = (if b then wp m Q X w else Q () w)"
  by (simp add: doif_def wp_simps)

lemma wp_if [wp_simps]: "wp (if b then m else n) Q X w = (if b then wp m Q X w else wp n Q X w)"
  by simp

lemma wp_mono:
  "wp m Q X w \<Longrightarrow> (\<And>a w'. Q a w' \<Longrightarrow> Q' a w') \<Longrightarrow> (\<And>f w'. X f w' \<Longrightarrow> X' f w') \<Longrightarrow> wp m Q' X' w"
  by (auto simp: wp_def split: prod.splits sum.splits)

section \<open>What an action keeps\<close>

text \<open>\<open>keeps I m\<close>: the invariant survives the action, also when it faults.\<close>

definition keeps :: "(world \<Rightarrow> bool) \<Rightarrow> 'a act \<Rightarrow> bool" where
  "keeps I m \<longleftrightarrow> (\<forall>w. I w \<longrightarrow> I (snd (m w)))"

named_theorems keeps_intros

lemma keeps_ret [keeps_intros]: "keeps I (ret a)"
  by (simp add: keeps_def ret_def)

lemma keeps_raise [keeps_intros]: "keeps I (raise f)"
  by (simp add: keeps_def raise_def)

lemma keeps_exit [keeps_intros]: "keeps I (vsf_sysutil_exit n)"
  by (simp add: keeps_def vsf_sysutil_exit_def raise_def)

lemma keeps_lift [keeps_intros]: "keeps I (lift r)"
  by (simp add: keeps_def lift_def)

lemma keeps_gets [keeps_intros]: "keeps I (gets g)"
  by (simp add: keeps_def gets_def)

lemma keeps_ask [keeps_intros]: "keeps I (ask E e)"
  by (simp add: keeps_def ask_def)

lemma keeps_ask_text [keeps_intros]: "keeps I (ask_text E e)"
  by (simp add: keeps_def ask_text_def)

lemma keeps_bnd [keeps_intros]: "keeps I m \<Longrightarrow> (\<And>a. keeps I (k a)) \<Longrightarrow> keeps I (bnd m k)"
proof (unfold keeps_def bnd_def, intro allI impI)
  fix w assume m: "\<forall>w. I w \<longrightarrow> I (snd (m w))" and k: "\<And>a. \<forall>w. I w \<longrightarrow> I (snd (k a w))" and I: "I w"
  then have "I (snd (m w))" by blast
  then show "I (snd (case m w of (Inl f, w') \<Rightarrow> (Inl f, w') | (Inr a, w') \<Rightarrow> k a w'))"
    using k by (cases "m w") (auto split: sum.splits)
qed

lemma keeps_thn [keeps_intros]: "keeps I m \<Longrightarrow> keeps I n \<Longrightarrow> keeps I (thn m n)"
  by (simp add: thn_def keeps_bnd)

lemma keeps_steps_Nil [keeps_intros]: "keeps I (steps [])"
  by (simp add: keeps_ret)

lemma keeps_steps_Cons [keeps_intros]: "keeps I m \<Longrightarrow> keeps I (steps ms) \<Longrightarrow> keeps I (steps (m # ms))"
  by (auto intro: keeps_bnd)

lemma keeps_doif [keeps_intros]: "(b \<Longrightarrow> keeps I m) \<Longrightarrow> keeps I (doif b m)"
  by (simp add: doif_def keeps_ret)

lemma keeps_if [keeps_intros]:
  "(b \<Longrightarrow> keeps I m) \<Longrightarrow> (\<not> b \<Longrightarrow> keeps I n) \<Longrightarrow> keeps I (if b then m else n)"
  by simp

lemma keeps_option [keeps_intros]:
  "keeps I m \<Longrightarrow> (\<And>x. keeps I (k x)) \<Longrightarrow> keeps I (case v of None \<Rightarrow> m | Some x \<Rightarrow> k x)"
  by (cases v) simp_all

lemma keeps_prod [keeps_intros]: "(\<And>a b. keeps I (k a b)) \<Longrightarrow> keeps I (case v of (a, b) \<Rightarrow> k a b)"
  by (cases v) simp

lemma keepsD: "keeps I m \<Longrightarrow> I w \<Longrightarrow> wp m (\<lambda>_. I) (\<lambda>_. I) w"
  by (cases "m w") (auto simp: wp_def keeps_def split: sum.splits prod.splits dest: spec [of _ w])

lemma keeps_wp: "(\<And>w. I w \<Longrightarrow> wp m (\<lambda>_. I) (\<lambda>_. I) w) \<Longrightarrow> keeps I m"
proof (unfold keeps_def, intro allI impI)
  fix w assume h: "\<And>w. I w \<Longrightarrow> wp m (\<lambda>_. I) (\<lambda>_. I) w" and "I w"
  from h [OF this(2)] show "I (snd (m w))" by (cases "m w"; cases "fst (m w)") (simp_all add: wp_def)
qed

text \<open>Invariants of the session alone and of the trace alone.\<close>

abbreviation on_sess :: "(vsf_session \<Rightarrow> bool) \<Rightarrow> world \<Rightarrow> bool" where
  "on_sess P \<equiv> \<lambda>w. P (sess w)"

lemma keeps_upd_sess [keeps_intros]: "(\<And>s. P s \<Longrightarrow> P (f s)) \<Longrightarrow> keeps (on_sess P) (upd f)"
  by (simp add: keeps_def upd_def)

lemma keeps_emit_sess [keeps_intros]: "keeps (on_sess P) (emit e)" "keeps (on_sess P) (sys E e)"
  by (simp_all add: keeps_def emit_def sys_def)

definition only :: "(event \<Rightarrow> bool) \<Rightarrow> nat \<Rightarrow> world \<Rightarrow> bool" where
  "only P n w \<longleftrightarrow> (\<forall>e \<in> set (drop n (trace w)). P e)"

lemma drop_snoc: "e \<in> set (drop n (xs @ [x])) \<Longrightarrow> e \<in> set (drop n xs) \<or> e = x"
  by (auto dest: in_set_dropD [of e _ "[x]"])

lemma keeps_only [keeps_intros]:
  "keeps (only P n) (upd f)" "P e \<Longrightarrow> keeps (only P n) (emit e)" "P e \<Longrightarrow> keeps (only P n) (sys E e)"
  by (auto simp: keeps_def only_def upd_def emit_def sys_def simp del: drop_append dest!: drop_snoc)

section \<open>Actions that only talk to the outside\<close>

text \<open>\<open>talks P F m\<close>: the action changes nothing but the trace, which grows by events of \<open>P\<close>, and if it
  faults then with a fault of \<open>F\<close>.\<close>

definition talks :: "(event \<Rightarrow> bool) \<Rightarrow> (fault \<Rightarrow> bool) \<Rightarrow> 'a act \<Rightarrow> bool" where
  "talks P F m \<longleftrightarrow> (\<forall>w. \<exists>r es. m w = (r, w\<lparr>trace := trace w @ es\<rparr>) \<and> list_all P es \<and>
     (\<forall>f. r = Inl f \<longrightarrow> F f))"

named_theorems talks_intros

lemma talksI: "(\<And>w. \<exists>r es. m w = (r, w\<lparr>trace := trace w @ es\<rparr>) \<and> list_all P es \<and> (\<forall>f. r = Inl f \<longrightarrow> F f)) \<Longrightarrow>
  talks P F m"
  by (simp add: talks_def)

lemma talks_query [talks_intros]:
  "talks P F (ret a)" "talks P F (gets g)" "talks P F (ask E e)" "talks P F (ask_text E e)"
  by (auto simp: talks_def act_defs intro!: exI [where x = "[]"])

lemma talks_emit [talks_intros]:
  "P e \<Longrightarrow> talks P F (emit e)" "P e \<Longrightarrow> talks P F (sys E e)"
  by (auto simp: talks_def act_defs intro!: exI [where x = "[e]"])

lemma talks_raise [talks_intros]:
  "F f \<Longrightarrow> talks P F (raise f)" "F (Exited n) \<Longrightarrow> talks P F (vsf_sysutil_exit n)"
  by (auto simp: talks_def act_defs intro!: exI [where x = "[]"])

lemma talks_lift [talks_intros]: "(\<And>f. r = Inl f \<Longrightarrow> F f) \<Longrightarrow> talks P F (lift r)"
  by (auto simp: talks_def act_defs intro!: exI [where x = "[]"])

lemma talks_bnd [talks_intros]:
  assumes "talks P F m" and "\<And>a. talks P F (k a)"
  shows "talks P F (bnd m k)"
proof (rule talksI)
  fix w
  obtain r es where m: "m w = (r, w\<lparr>trace := trace w @ es\<rparr>)" "list_all P es" "\<forall>f. r = Inl f \<longrightarrow> F f"
    using assms(1) unfolding talks_def by blast
  show "\<exists>r es. bnd m k w = (r, w\<lparr>trace := trace w @ es\<rparr>) \<and> list_all P es \<and> (\<forall>f. r = Inl f \<longrightarrow> F f)"
  proof (cases r)
    case (Inl f)
    then show ?thesis using m by (auto simp: bnd_def)
  next
    case (Inr a)
    obtain r' es' where k: "k a (w\<lparr>trace := trace w @ es\<rparr>) = (r', w\<lparr>trace := trace w @ es @ es'\<rparr>)"
        "list_all P es'" "\<forall>f. r' = Inl f \<longrightarrow> F f"
      using assms(2) [of a, unfolded talks_def, rule_format, of "w\<lparr>trace := trace w @ es\<rparr>"] by auto
    then show ?thesis using m Inr by (auto simp: bnd_def intro!: exI [where x = "es @ es'"])
  qed
qed

lemma talks_thn [talks_intros]: "talks P F m \<Longrightarrow> talks P F n \<Longrightarrow> talks P F (thn m n)"
  by (simp add: thn_def talks_bnd)

lemma talks_if [talks_intros]:
  "(b \<Longrightarrow> talks P F m) \<Longrightarrow> (\<not> b \<Longrightarrow> talks P F n) \<Longrightarrow> talks P F (if b then m else n)"
  "(b \<Longrightarrow> talks P F m') \<Longrightarrow> talks P F (doif b m')"
  by (simp_all add: doif_def talks_query)

lemma talks_steps [talks_intros]:
  "talks P F (steps [])" "talks P F m \<Longrightarrow> talks P F (steps ms) \<Longrightarrow> talks P F (steps (m # ms))"
  by (auto intro: talks_query talks_bnd)

lemma talks_option [talks_intros]:
  "talks P F m \<Longrightarrow> (\<And>x. v = Some x \<Longrightarrow> talks P F (k x)) \<Longrightarrow> talks P F (case v of None \<Rightarrow> m | Some x \<Rightarrow> k x)"
  by (cases v) simp_all

lemma talks_prod [talks_intros]: "(\<And>a b. talks P F (k a b)) \<Longrightarrow> talks P F (case v of (a, b) \<Rightarrow> k a b)"
  by (cases v) simp

lemma talks_mono:
  "talks P F m \<Longrightarrow> (\<And>e. P e \<Longrightarrow> P' e) \<Longrightarrow> (\<And>f. F f \<Longrightarrow> F' f) \<Longrightarrow> talks P' F' m"
  unfolding talks_def by (metis list.pred_mono_strong)

lemma wp_talks:
  assumes "talks P F m"
    and "\<And>a es. list_all P es \<Longrightarrow> Q a (w\<lparr>trace := trace w @ es\<rparr>)"
    and "\<And>f es. list_all P es \<Longrightarrow> F f \<Longrightarrow> X f (w\<lparr>trace := trace w @ es\<rparr>)"
  shows "wp m Q X w"
proof -
  obtain r es where "m w = (r, w\<lparr>trace := trace w @ es\<rparr>)" "list_all P es" "\<forall>f. r = Inl f \<longrightarrow> F f"
    using assms(1) unfolding talks_def by blast
  then show ?thesis using assms(2,3) by (cases r) (auto simp: wp_def)
qed

lemma talks_total:
  "talks P (\<lambda>_. False) m \<Longrightarrow> \<exists>a es. m w = (Inr a, w\<lparr>trace := trace w @ es\<rparr>) \<and> list_all P es"
  unfolding talks_def by (metis sum.exhaust)

lemma talks_keeps_sess: "talks P F m \<Longrightarrow> keeps (on_sess I) m"
  by (rule keeps_wp) (auto intro: wp_talks)

lemma talks_keeps_only: "talks P F m \<Longrightarrow> (\<And>e. P e \<Longrightarrow> P' e) \<Longrightarrow> keeps (only P' n) m"
proof (rule keeps_wp)
  fix w assume t: "talks P F m" and P: "\<And>e. P e \<Longrightarrow> P' e" and w: "only P' n w"
  have "only P' n (w\<lparr>trace := trace w @ es\<rparr>)" if "list_all P es" for es
    using that w P by (auto simp: only_def list_all_iff dest: in_set_dropD)
  then show "wp m (\<lambda>_. only P' n) (\<lambda>_. only P' n) w" using t by (auto intro: wp_talks)
qed

section \<open>How an action can fail\<close>

text \<open>\<open>faults F m\<close>: wherever it is run, the action fails only with faults of \<open>F\<close>.\<close>

definition faults :: "(fault \<Rightarrow> bool) \<Rightarrow> 'a act \<Rightarrow> bool" where
  "faults F m \<longleftrightarrow> (\<forall>w f w'. m w = (Inl f, w') \<longrightarrow> F f)"

named_theorems faults_intros

lemma faults_basic [faults_intros]:
  "faults F (ret a)" "faults F (gets g)" "faults F (upd u)" "faults F (emit e)" "faults F (sys E e)"
  "faults F (ask E e)" "faults F (ask_text E e)" "faults F (steps [])"
  "F f \<Longrightarrow> faults F (raise f)" "F (Exited n) \<Longrightarrow> faults F (vsf_sysutil_exit n)"
  "(\<And>f. r = Inl f \<Longrightarrow> F f) \<Longrightarrow> faults F (lift r)"
  by (simp_all add: faults_def act_defs)

lemma faults_bnd [faults_intros]: "faults F m \<Longrightarrow> (\<And>a. faults F (k a)) \<Longrightarrow> faults F (bnd m k)"
  by (auto simp: faults_def bnd_def split: prod.splits sum.splits)

lemma faults_thn [faults_intros]:
  "faults F m \<Longrightarrow> faults F n \<Longrightarrow> faults F (thn m n)"
  "faults F m' \<Longrightarrow> faults F (steps ms) \<Longrightarrow> faults F (steps (m' # ms))"
  by (auto simp: thn_def intro: faults_bnd)

lemma faults_cases [faults_intros]:
  "(b \<Longrightarrow> faults F m) \<Longrightarrow> (\<not> b \<Longrightarrow> faults F n) \<Longrightarrow> faults F (if b then m else n)"
  "(b \<Longrightarrow> faults F m') \<Longrightarrow> faults F (doif b m')"
  "faults F m \<Longrightarrow> (\<And>x. faults F (h x)) \<Longrightarrow> faults F (case v of None \<Rightarrow> m | Some x \<Rightarrow> h x)"
  "(\<And>a b. faults F (g a b)) \<Longrightarrow> faults F (case p of (a, b) \<Rightarrow> g a b)"
  by (auto simp: doif_def faults_basic split: option.splits prod.splits)

lemma wp_faults: "faults F m \<Longrightarrow> wp m Q (\<lambda>_ _. True) w \<Longrightarrow> wp m Q (\<lambda>f _. F f) w"
  by (cases "m w"; cases "fst (m w)") (auto simp: faults_def wp_def)

lemma talks_faults: "talks P F m \<Longrightarrow> faults F m"
  unfolding talks_def faults_def by (metis fst_conv)

section \<open>Actions that see only the session and the trace\<close>

definition same_view :: "world \<Rightarrow> world \<Rightarrow> bool" where
  "same_view v u \<longleftrightarrow> sess v = sess u \<and> trace v = trace u"

definition inward :: "'a act \<Rightarrow> bool" where
  "inward m \<longleftrightarrow> (\<forall>v u. same_view v u \<longrightarrow> fst (m v) = fst (m u) \<and> same_view (snd (m v)) (snd (m u)))"

named_theorems inward_intros

lemma inward_basic [inward_intros]:
  "inward (ret a)" "inward (raise f)" "inward (lift r)" "inward (gets g)" "inward (ask E e)"
  "inward (ask_text E e)" "inward (upd h)" "inward (emit e)" "inward (sys E e)"
  by (simp_all add: inward_def same_view_def act_defs)

lemma inward_bnd [inward_intros]:
  assumes "inward m" and "\<And>a. inward (k a)"
  shows "inward (bnd m k)"
proof (unfold inward_def, intro allI impI)
  fix v u assume vu: "same_view v u"
  have m: "fst (m v) = fst (m u)" "same_view (snd (m v)) (snd (m u))"
    using assms(1) vu by (auto simp: inward_def)
  show "fst (bnd m k v) = fst (bnd m k u) \<and> same_view (snd (bnd m k v)) (snd (bnd m k u))"
  proof (cases "fst (m u)")
    case (Inl f)
    with m show ?thesis by (cases "m v"; cases "m u") (simp add: bnd_def)
  next
    case (Inr a)
    have "fst (k a (snd (m v))) = fst (k a (snd (m u))) \<and>
        same_view (snd (k a (snd (m v)))) (snd (k a (snd (m u))))"
      using assms(2) [of a] m(2) by (simp add: inward_def)
    with m Inr show ?thesis by (cases "m v"; cases "m u") (simp add: bnd_def)
  qed
qed

lemma inward_if [inward_intros]:
  "inward m \<Longrightarrow> inward n \<Longrightarrow> inward (if b then m else n)" "inward m' \<Longrightarrow> inward (doif b m')"
  by (simp_all add: doif_def inward_basic)

lemma inward_steps [inward_intros]:
  "inward (steps [])" "inward m \<Longrightarrow> inward (steps ms) \<Longrightarrow> inward (steps (m # ms))"
  by (auto intro: inward_basic inward_bnd)

lemma inward_option [inward_intros]:
  "inward m \<Longrightarrow> (\<And>x. inward (k x)) \<Longrightarrow> inward (case v of None \<Rightarrow> m | Some x \<Rightarrow> k x)"
  by (cases v) simp_all

section \<open>A sample session\<close>

text \<open>A quiet session at its start, and an environment in which every write succeeds.\<close>

definition blank_session :: vsf_session where
  "blank_session = \<lparr>p_local_addr = Sockaddr_in ''abcd'' 21, p_remote_addr = Sockaddr_in ''wxyz'' 5000,
     idle_timeout = False, data_timeout = False, pasv_listen_fd = - 1, p_port_sockaddr = None,
     data_fd = - 1, data_progress = False, bw_rate_max = 0, is_anonymous = False, is_guest = False,
     user_str = [], anon_pass_str = [], restart_pos = 0, is_ascii = False, abor_received = False,
     epsv_all = False, is_http = False, http_get_arg = [], p_visited_dir_list = [],
     anon_ftp_uid = - 1, guest_user_uid = - 1, anon_upload_chown_uid = - 1, banned_email_str = [],
     email_passwords_str = [], userlist_str = [], banner_str = [], tcp_wrapper_ok = True,
     xferlog_fd = - 1, vsftpd_log_fd = - 1, remote_ip_str = ''1.2.3.4'', log_type = None,
     log_start_sec = 0, log_start_usec = 0, log_str = [], transfer_size = 0, ftp_cmd_str = [],
     ftp_arg_str = [], num_clients = 1, num_this_ip = 1, home_str = ''/'', control_use_ssl = False,
     data_use_ssl = False, ssl_slave_active = False, login_fails = 0, permissions = 3\<rparr>"

definition world_with :: "vsf_session \<Rightarrow> bytes \<Rightarrow> world" where
  "world_with s input = \<lparr>sess = s, parent = s, incoming = input, sched = [Sees 2], up = [], down = [],
     data_in = [], trace = []\<rparr>"

fun obliging :: "event list \<Rightarrow> event \<Rightarrow> int" where
  "obliging tr (Out b) = int (length b)"
| "obliging tr (Data b) = int (length b)"
| "obliging tr (Sys f bs ns) = 0"

definition plain_env :: env where
  "plain_env = \<lparr>tun = tunables_load_defaults, answers = obliging, texts = (\<lambda>tr e. ''/''),
     pages = (\<lambda>tr e. []), qsort_fn = (\<lambda>cmp xs. xs)\<rparr>"

text \<open>The same environment with every option off, every number 0 and every text unset.\<close>

definition bare_env :: env where
  "bare_env = plain_env\<lparr>tun := \<lparr>tbool = (\<lambda>v. False), tuint = (\<lambda>v. 0), tstr = (\<lambda>v. None)\<rparr>\<rparr>"

lemma bare_env_simps [simp]:
  "tb bare_env v = False" "tu bare_env v = 0" "ts bare_env v = None"
  "answers bare_env = obliging" "texts bare_env = (\<lambda>tr e. ''/'')"
  by (simp_all add: bare_env_def plain_env_def)

end
