(* ===== verification/Logging.thy ===== *)
theory Logging
  imports World
begin

text \<open>
  \<^verbatim>\<open>logging.c\<close>: the pending log entry of a session, the two line formats and where the lines go.
  Dates, the process number, the clock and the printed transfer rate come from the environment.
  The clean-up of unprintable characters is disabled in the source, so a line holds its texts as
  they are: the last section shows what that allows.
\<close>

definition vsf_log_type_is_transfer :: "EVSFLogEntryType \<Rightarrow> bool" where
  "vsf_log_type_is_transfer type \<longleftrightarrow> type = kVSFLogEntryDownload \<or> type = kVSFLogEntryUpload"

abbreviation time_sec :: event where "time_sec \<equiv> Sys ''vsf_sysutil_get_time_sec'' [] []"
abbreviation time_usec :: event where "time_usec \<equiv> Sys ''vsf_sysutil_get_time_usec'' [] []"
abbreviation current_date :: event where "current_date \<equiv> Sys ''vsf_sysutil_get_current_date'' [] []"

section \<open>Opening the logs\<close>

definition open_log :: "env \<Rightarrow> bytes option \<Rightarrow> string \<Rightarrow> int act" where
  "open_log E file err =
     bnd (case file of None \<Rightarrow> ret (- 1)
          | Some f \<Rightarrow> sys E (Sys ''vsf_sysutil_create_or_open_file_append'' [f] [384])) (\<lambda>retval.
     if vsf_sysutil_retval_is_error retval then lift (die2 err file) else ret retval)"

definition vsf_log_init :: "env \<Rightarrow> unit act" where
  "vsf_log_init E = steps
     [doif (tb E ''syslog_enable'' \<or> tb E ''tcp_wrappers'') (emit (Sys ''vsf_sysutil_openlog'' [] [1])),
      if \<not> tb E ''xferlog_enable'' \<and> \<not> tb E ''dual_log_enable'' then ret ()
      else steps
        [doif (tb E ''dual_log_enable'' \<or> tb E ''xferlog_std_format'')
           (bnd (open_log E (ts E ''xferlog_file'') ''failed to open xferlog log file:'')
             (\<lambda>fd. upd (xferlog_fd_update (\<lambda>_. fd)))),
         doif ((tb E ''dual_log_enable'' \<or> \<not> tb E ''xferlog_std_format'') \<and> \<not> tb E ''syslog_enable'')
           (bnd (open_log E (ts E ''vsftpd_log_file'') ''failed to open vsftpd log file:'')
             (\<lambda>fd. upd (vsftpd_log_fd_update (\<lambda>_. fd))))]]"

section \<open>The pending entry\<close>

definition vsf_log_start_entry :: "env \<Rightarrow> EVSFLogEntryType \<Rightarrow> unit act" where
  "vsf_log_start_entry E what =
     bnd (gets log_type) (\<lambda>t.
     if t \<noteq> None then lift (bug ''non null log_type in vsf_log_start_entry'')
     else steps
       [upd (\<lambda>s. s\<lparr>log_type := Some what, log_start_sec := 0, log_start_usec := 0,
                   transfer_size := 0, log_str := []\<rparr>),
        doif (vsf_log_type_is_transfer what)
          (bnd (ask E time_sec) (\<lambda>sec. bnd (ask E time_usec) (\<lambda>usec.
           upd (\<lambda>s. s\<lparr>log_start_sec := sec, log_start_usec := usec\<rparr>))))])"

definition vsf_log_entry_pending :: "bool act" where
  "vsf_log_entry_pending = gets (\<lambda>s. log_type s \<noteq> None)"

definition vsf_log_clear_entry :: "unit act" where
  "vsf_log_clear_entry = upd (log_type_update (\<lambda>_. None))"

section \<open>Lines\<close>

text \<open>The line of the wu-ftpd format, from the date and the time of the end of the transfer.\<close>

definition wuftpd_line :: "vsf_session \<Rightarrow> bytes \<Rightarrow> int \<Rightarrow> bool \<Rightarrow> bytes" where
  "wuftpd_line s date now succeeded =
     (let delta_sec = (if now - log_start_sec s \<le> 0 then 1 else now - log_start_sec s) in
      cstr date @ '' '' @ vsf_sysutil_ulong_to_str (nat delta_sec) @ '' '' @
      remote_ip_str s @ '' '' @ vsf_sysutil_filesize_t_to_str (transfer_size s) @ '' '' @
      v_replace_char (log_str s) CHR '' '' CHR ''_'' @ '' '' @
      (if is_ascii s then ''a '' else ''b '') @ ''_ '' @
      (if log_type s = Some kVSFLogEntryUpload then ''i '' else ''o '') @
      (if is_anonymous s \<and> \<not> is_guest s then ''a '' @ anon_pass_str s
       else (if is_guest s then ''g '' else ''r '') @ user_str s) @ '' '' @
      ''ftp 0 * '' @ (if succeeded then ''c'' else ''i''))"

definition vsf_log_do_log_wuftpd_format :: "env \<Rightarrow> bool \<Rightarrow> bytes act" where
  "vsf_log_do_log_wuftpd_format E succeeded =
     bnd (ask_text E current_date) (\<lambda>date.
     bnd (ask E time_sec) (\<lambda>now. gets (\<lambda>s. wuftpd_line s date now succeeded)))"

fun entry_name :: "EVSFLogEntryType \<Rightarrow> bytes option" where
  "entry_name kVSFLogEntryDownload = Some ''DOWNLOAD''"
| "entry_name kVSFLogEntryUpload = Some ''UPLOAD''"
| "entry_name kVSFLogEntryMkdir = Some ''MKDIR''"
| "entry_name kVSFLogEntryLogin = Some ''LOGIN''"
| "entry_name kVSFLogEntryFTPInput = Some ''FTP command''"
| "entry_name kVSFLogEntryFTPOutput = Some ''FTP response''"
| "entry_name kVSFLogEntryConnection = Some ''CONNECT''"
| "entry_name kVSFLogEntryDelete = Some ''DELETE''"
| "entry_name kVSFLogEntryRename = Some ''RENAME''"
| "entry_name kVSFLogEntryRmdir = Some ''RMDIR''"
| "entry_name kVSFLogEntryChmod = Some ''CHMOD''"
| "entry_name kVSFLogEntryDebug = Some ''DEBUG''"
| "entry_name kVSFLogEntryNull = None"

definition has_status :: "EVSFLogEntryType \<Rightarrow> bool" where
  "has_status what \<longleftrightarrow> what \<noteq> kVSFLogEntryFTPInput \<and> what \<noteq> kVSFLogEntryFTPOutput \<and>
     what \<noteq> kVSFLogEntryConnection \<and> what \<noteq> kVSFLogEntryDebug"

text \<open>The line of the vsftpd format: its head, and everything from the name of the entry on.\<close>

definition vsftpd_head :: "bool \<Rightarrow> vsf_session \<Rightarrow> bytes \<Rightarrow> nat \<Rightarrow> bytes" where
  "vsftpd_head syslog s date pid =
     (if \<not> syslog then cstr date @ '' [pid '' @ vsf_sysutil_ulong_to_str pid @ ''] '' else []) @
     (if user_str s \<noteq> [] then ''['' @ user_str s @ ''] '' else [])"

definition vsftpd_body ::
  "vsf_session \<Rightarrow> bool \<Rightarrow> EVSFLogEntryType \<Rightarrow> bytes \<Rightarrow> bytes \<Rightarrow> bytes \<Rightarrow> bytes" where
  "vsftpd_body s succeeded what name p_log_str rate =
     (if has_status what then if succeeded then ''OK '' else ''FAIL '' else []) @ name @
     '': Client '' @ [CHR 0x22] @ remote_ip_str s @ [CHR 0x22] @
     (if what = kVSFLogEntryLogin \<and> anon_pass_str s \<noteq> []
      then '', anon password '' @ [CHR 0x22] @ anon_pass_str s @ [CHR 0x22] else []) @
     (if p_log_str \<noteq> [] then '', '' @ [CHR 0x22] @ p_log_str @ [CHR 0x22] else []) @
     (if what \<noteq> kVSFLogEntryFTPInput \<and> what \<noteq> kVSFLogEntryFTPOutput \<and> what \<noteq> kVSFLogEntryDebug
      then (if transfer_size s \<noteq> 0
            then '', '' @ vsf_sysutil_filesize_t_to_str (transfer_size s) @ '' bytes'' else []) @
           (if vsf_log_type_is_transfer what then '', '' @ rate @ ''Kbyte/sec'' else [])
      else [])"

definition rate_of :: "vsf_session \<Rightarrow> int \<Rightarrow> int \<Rightarrow> event" where
  "rate_of s sec usec =
     Sys ''kbyte_rate'' [] [transfer_size s, sec - log_start_sec s, usec - log_start_usec s]"

definition vsf_log_do_log_vsftpd_format ::
  "env \<Rightarrow> bool \<Rightarrow> EVSFLogEntryType \<Rightarrow> bytes \<Rightarrow> bytes act" where
  "vsf_log_do_log_vsftpd_format E succeeded what p_log_str =
     bnd (ask_text E current_date) (\<lambda>date.
     bnd (ask E (Sys ''vsf_sysutil_getpid'' [] [])) (\<lambda>pid.
     bnd (ask E time_sec) (\<lambda>sec. bnd (ask E time_usec) (\<lambda>usec.
     bnd (gets (\<lambda>s. rate_of s sec usec)) (\<lambda>e. bnd (ask_text E e) (\<lambda>rate.
     case entry_name what of
       None \<Rightarrow> lift (bug ''bad entry_type in vsf_log_do_log'')
     | Some name \<Rightarrow>
         gets (\<lambda>s. vsftpd_head (tb E ''syslog_enable'') s date (nat pid) @
                   vsftpd_body s succeeded what name p_log_str (cstr rate))))))))"

definition vsf_log_do_log_to_file :: "env \<Rightarrow> int \<Rightarrow> bytes \<Rightarrow> unit act" where
  "vsf_log_do_log_to_file E fd p_str =
     bnd (if \<not> tb E ''no_log_lock'' then sys E (Sys ''vsf_sysutil_lock_file_write'' [] [fd]) else ret 0) (\<lambda>retval.
     if vsf_sysutil_retval_is_error retval then ret ()
     else steps
       [emit (Sys ''str_write_loop'' [p_str @ [LF]] [fd]),
        doif (\<not> tb E ''no_log_lock'') (emit (Sys ''vsf_sysutil_unlock_file'' [] [fd]))])"

definition vsf_log_common :: "env \<Rightarrow> bool \<Rightarrow> EVSFLogEntryType \<Rightarrow> bytes \<Rightarrow> unit act" where
  "vsf_log_common E succeeded what p_str = steps
     [bnd (gets xferlog_fd) (\<lambda>fd.
      doif (fd \<noteq> - 1 \<and> vsf_log_type_is_transfer what)
        (bnd (vsf_log_do_log_wuftpd_format E succeeded) (\<lambda>line. vsf_log_do_log_to_file E fd line))),
      bnd (gets vsftpd_log_fd) (\<lambda>fd.
      doif (fd \<noteq> - 1)
        (bnd (vsf_log_do_log_vsftpd_format E succeeded what p_str) (\<lambda>line.
         vsf_log_do_log_to_file E fd line))),
      doif (tb E ''syslog_enable'')
        (bnd (vsf_log_do_log_vsftpd_format E succeeded what p_str) (\<lambda>line.
         emit (Sys ''str_syslog'' [line]
           [if what = kVSFLogEntryLogin \<and> \<not> succeeded then 1 else 0])))]"

definition vsf_log_line :: "env \<Rightarrow> EVSFLogEntryType \<Rightarrow> bytes \<Rightarrow> unit act" where
  "vsf_log_line E what p_str = vsf_log_common E True what p_str"

text \<open>Without a pending entry the type is the number 0, which the formats treat as no entry.\<close>

definition vsf_log_do_log :: "env \<Rightarrow> bool \<Rightarrow> unit act" where
  "vsf_log_do_log E succeeded =
     bnd (gets (\<lambda>s. (log_type s, log_str s))) (\<lambda>(t, l). steps
       [vsf_log_common E succeeded (case t of None \<Rightarrow> kVSFLogEntryNull | Some what \<Rightarrow> what) l,
        upd (log_type_update (\<lambda>_. None))])"

section \<open>Lemmas\<close>

text \<open>The events logging makes.\<close>

fun is_log :: "event \<Rightarrow> bool" where
  "is_log (Sys f bs ns) \<longleftrightarrow> f \<in> {''vsf_sysutil_lock_file_write'', ''str_write_loop'',
     ''vsf_sysutil_unlock_file'', ''str_syslog''}"
| "is_log _ \<longleftrightarrow> False"

lemma bug_fault: "bug t = Inl f \<longleftrightarrow> f = Oops t" "die t = Inl f \<longleftrightarrow> f = Oops t"
  by (auto simp: bug_def die_def)

lemma talks_log_file [talks_intros]: "talks is_log F (vsf_log_do_log_to_file E fd l)"
  unfolding vsf_log_do_log_to_file_def by (intro talks_intros) simp_all

lemma talks_wuftpd [talks_intros]: "talks P F (vsf_log_do_log_wuftpd_format E b)"
  unfolding vsf_log_do_log_wuftpd_format_def by (intro talks_intros)

lemma talks_vsftpd [talks_intros]:
  "what \<noteq> kVSFLogEntryNull \<Longrightarrow> talks P F (vsf_log_do_log_vsftpd_format E b what l)"
proof -
  assume "what \<noteq> kVSFLogEntryNull"
  then obtain name where "entry_name what = Some name" by (cases what) auto
  then show ?thesis unfolding vsf_log_do_log_vsftpd_format_def by (simp) (intro talks_intros)
qed

lemma talks_log_common [talks_intros]:
  "what \<noteq> kVSFLogEntryNull \<Longrightarrow> talks is_log F (vsf_log_common E b what l)"
  unfolding vsf_log_common_def by (intro talks_intros) simp_all

lemma talks_log_line [talks_intros]:
  "what \<noteq> kVSFLogEntryNull \<Longrightarrow> talks is_log F (vsf_log_line E what l)"
  unfolding vsf_log_line_def by (rule talks_log_common)

lemma inward_log [inward_intros]: "inward (vsf_log_line E what l)"
  unfolding vsf_log_line_def vsf_log_common_def vsf_log_do_log_wuftpd_format_def
    vsf_log_do_log_vsftpd_format_def vsf_log_do_log_to_file_def
  by (intro inward_intros)

section \<open>Properties\<close>

text \<open>C31: a line of the transfer log can be taken apart again. When the address of the client and
  the name of the user have no spaces, the fields of the line behind the date are, in order, the
  duration, the address, the size, the path with its spaces replaced, the type, the action flag,
  the direction, the access mode, the user, the service and the status, also for anonymous users,
  whose identity is free of spaces.\<close>

theorem xferlog_fields:
  assumes "CHR '' '' \<notin> set (remote_ip_str s)" and "CHR '' '' \<notin> set (user_str s)"
    and "CHR '' '' \<notin> set (anon_pass_str s)"
  shows "pieces CHR '' '' (wuftpd_line s date now succeeded) =
     pieces CHR '' '' (cstr date) @
     [vsf_sysutil_ulong_to_str (nat (max 1 (now - log_start_sec s))), remote_ip_str s,
      vsf_sysutil_filesize_t_to_str (transfer_size s),
      map (\<lambda>c. if c = CHR '' '' then CHR ''_'' else c) (log_str s),
      if is_ascii s then ''a'' else ''b'', ''_'',
      if log_type s = Some kVSFLogEntryUpload then ''i'' else ''o'',
      if is_guest s then ''g'' else if is_anonymous s then ''a'' else ''r'',
      if is_anonymous s \<and> \<not> is_guest s then anon_pass_str s else user_str s,
      ''ftp'', ''0'', ''*'', if succeeded then ''c'' else ''i'']"
proof -
  have d: "CHR '' '' \<notin> set (vsf_sysutil_ulong_to_str n)" for n
    using digits_of_code [of 10 "CHR '' ''" n] by (auto simp: vsf_sysutil_ulong_to_str_def code_def)
  then have f: "CHR '' '' \<notin> set (vsf_sysutil_filesize_t_to_str n)" for n
    by (auto simp: vsf_sysutil_filesize_t_to_str_def vsf_sysutil_ulong_to_str_def)
  have p: "CHR '' '' \<notin> set (map (\<lambda>c. if c = CHR '' '' then CHR ''_'' else c) (log_str s))"
    by auto
  show ?thesis
    unfolding wuftpd_line_def Let_def
    by (simp add: pieces_append pieces_sep pieces_no_sep [OF p] pieces_no_sep d f assms max_def v_replace_char_def)
qed

theorem xferlog_fields_witness:
  "pieces CHR '' '' (wuftpd_line (blank_session\<lparr>user_str := ''joe'', log_str := ''/my file''\<rparr>) ''Mon 1'' 7 True) =
     [''Mon'', ''1'', ''7'', ''1.2.3.4'', ''0'', ''/my_file'', ''b'', ''_'', ''o'', ''r'', ''joe'', ''ftp'', ''0'', ''*'', ''c'']"
proof -
  let ?s = "blank_session\<lparr>user_str := ''joe'', log_str := ''/my file''\<rparr>"
  have "CHR '' '' \<notin> set (remote_ip_str ?s)" "CHR '' '' \<notin> set (user_str ?s)" "CHR '' '' \<notin> set (anon_pass_str ?s)"
    by (simp_all add: blank_session_def)
  moreover have "digits_of 10 7 = ''7''" "digits_of 10 0 = ''0''" by code_simp+
  ultimately show ?thesis using xferlog_fields [of ?s "''Mon 1''" 7 True]
    by (simp add: blank_session_def vsf_sysutil_ulong_to_str_def vsf_sysutil_filesize_t_to_str_def)
qed

text \<open>A path with a line feed, which a client can send as the byte 0 in its command line, splits its
  log line: everything behind the line feed stands at the start of a line of its own.\<close>

lemma log_line_forged:
  "\<exists>l r. vsftpd_body s ok what name (a @ [LF] @ forged) rate = l @ [LF] @ forged @ r"
proof -
  have "vsftpd_body s ok what name (a @ [LF] @ forged) rate =
      ((if has_status what then if ok then ''OK '' else ''FAIL '' else []) @ name @
       '': Client '' @ [CHR 0x22] @ remote_ip_str s @ [CHR 0x22] @
       (if what = kVSFLogEntryLogin \<and> anon_pass_str s \<noteq> []
        then '', anon password '' @ [CHR 0x22] @ anon_pass_str s @ [CHR 0x22] else []) @
       '', '' @ [CHR 0x22] @ a) @ [LF] @ forged @ ([CHR 0x22] @
       (if what \<noteq> kVSFLogEntryFTPInput \<and> what \<noteq> kVSFLogEntryFTPOutput \<and> what \<noteq> kVSFLogEntryDebug
        then (if transfer_size s \<noteq> 0
              then '', '' @ vsf_sysutil_filesize_t_to_str (transfer_size s) @ '' bytes'' else []) @
             (if vsf_log_type_is_transfer what then '', '' @ rate @ ''Kbyte/sec'' else [])
        else []))"
    by (simp add: vsftpd_body_def)
  then show ?thesis by blast
qed

end
