(* ===== verification/Cmdio.thy ===== *)
theory Cmdio
  imports Logging
begin

text \<open>
  The control connection: the control half of \<^verbatim>\<open>readwrite.c\<close>, and \<^verbatim>\<open>ftpcmdio.c\<close>, which turns lines
  into commands and replies into bytes. Bytes given to the control connection, over TLS or not, are
  \<open>Out\<close> events; the answer of the environment is what the write returned.
\<close>

section \<open>Writing\<close>

datatype EVSFRWTarget = kVSFRWControl | kVSFRWData

fun to_target :: "EVSFRWTarget \<Rightarrow> bytes \<Rightarrow> event" where
  "to_target kVSFRWControl p_str = Out p_str"
| "to_target kVSFRWData p_str = Data p_str"

definition str_netfd_write :: "env \<Rightarrow> bytes \<Rightarrow> EVSFRWTarget \<Rightarrow> int act" where
  "str_netfd_write E p_str target =
     (if p_str = [] then lift (bug ''zero str_len in str_netfd_write'')
      else bnd (sys E (to_target target p_str)) (\<lambda>retval.
        ret (if vsf_sysutil_retval_is_error retval \<or> retval \<noteq> int (length p_str) then - 1 else 0)))"

definition ftp_write_str :: "env \<Rightarrow> bytes \<Rightarrow> EVSFRWTarget \<Rightarrow> int act" where
  "ftp_write_str E p_str target =
     bnd (gets (\<lambda>s. (case target of kVSFRWData \<Rightarrow> data_use_ssl s | kVSFRWControl \<Rightarrow> control_use_ssl s,
                     ssl_slave_active s))) (\<lambda>(ssl, slave).
     if ssl \<and> slave then
       bnd (sys E (to_target target p_str)) (\<lambda>written.
       ret (case target of
              kVSFRWData \<Rightarrow> if written > 0 \<and> written = int (length p_str) then 0 else - 1
            | kVSFRWControl \<Rightarrow> written))
     else if ssl then
       bnd (sys E (to_target target p_str)) (\<lambda>r. ret (if r \<noteq> int (length p_str) then - 1 else 0))
     else str_netfd_write E p_str target)"

text \<open>The bytes of a reply: byte 255 is doubled and line feeds become NUL.\<close>

definition reply_bytes :: "nat \<Rightarrow> char \<Rightarrow> bytes \<Rightarrow> bytes" where
  "reply_bytes status sep p_str =
     (let mangled = v_replace_char (v_replace_text p_str [CHR 0xFF] [CHR 0xFF, CHR 0xFF]) LF NUL
      in vsf_sysutil_ulong_to_str status @ [sep] @ mangled @ [CR, LF])"

definition ftp_write_str_common :: "env \<Rightarrow> nat \<Rightarrow> char \<Rightarrow> bytes \<Rightarrow> unit act" where
  "ftp_write_str_common E status sep p_str = steps
     [doif (tb E ''log_ftp_protocol'')
        (vsf_log_line E kVSFLogEntryFTPOutput (vsf_sysutil_ulong_to_str status @ [sep] @ p_str)),
      bnd (ftp_write_str E (reply_bytes status sep p_str) kVSFRWControl) (\<lambda>retval.
      if retval \<noteq> 0 then lift (die ''ftp_write'') else ret ())]"

definition vsf_cmdio_write_str :: "env \<Rightarrow> nat \<Rightarrow> bytes \<Rightarrow> unit act" where
  "vsf_cmdio_write_str E status p_str = ftp_write_str_common E status CHR '' '' p_str"

definition vsf_cmdio_write_str_hyphen :: "env \<Rightarrow> nat \<Rightarrow> bytes \<Rightarrow> unit act" where
  "vsf_cmdio_write_str_hyphen E status p_str = ftp_write_str_common E status CHR ''-'' p_str"

definition ftp_write_text_common :: "env \<Rightarrow> nat \<Rightarrow> bytes \<Rightarrow> char \<Rightarrow> unit act" where
  "ftp_write_text_common E status p_text sep = ftp_write_str_common E status sep (cstr p_text)"

definition vsf_cmdio_write :: "env \<Rightarrow> nat \<Rightarrow> bytes \<Rightarrow> unit act" where
  "vsf_cmdio_write E status p_text = ftp_write_text_common E status p_text CHR '' ''"

definition vsf_cmdio_write_hyphen :: "env \<Rightarrow> nat \<Rightarrow> bytes \<Rightarrow> unit act" where
  "vsf_cmdio_write_hyphen E status p_text = ftp_write_text_common E status p_text CHR ''-''"

definition vsf_cmdio_write_raw :: "env \<Rightarrow> bytes \<Rightarrow> unit act" where
  "vsf_cmdio_write_raw E p_text = steps
     [doif (tb E ''log_ftp_protocol'') (vsf_log_line E kVSFLogEntryFTPOutput (cstr p_text)),
      bnd (ftp_write_str E (cstr p_text) kVSFRWControl) (\<lambda>retval.
      if retval \<noteq> 0 then lift (die ''ftp_write_str'') else ret ())]"

definition vsf_cmdio_write_exit :: "env \<Rightarrow> nat \<Rightarrow> bytes \<Rightarrow> int \<Rightarrow> 'a act" where
  "vsf_cmdio_write_exit E status p_text exit_val =
     thn (steps
       [emit (Sys ''vsf_sysutil_activate_noblock'' [] [0]),
        emit (Sys ''vsf_sysutil_shutdown_read_failok'' [] [0]),
        vsf_cmdio_write E status p_text,
        emit (Sys ''vsf_sysutil_shutdown_failok'' [] [0])])
     (vsf_sysutil_exit exit_val)"

section \<open>Reading commands\<close>

definition handle_alarm_timeout :: "unit act" where
  "handle_alarm_timeout = steps
     [upd (idle_timeout_update (\<lambda>_. True)),
      emit (Sys ''vsf_sysutil_activate_noblock'' [] [0]),
      emit (Sys ''vsf_sysutil_shutdown_read_failok'' [] [0])]"

definition vsf_cmdio_set_alarm :: "env \<Rightarrow> unit act" where
  "vsf_cmdio_set_alarm E =
     doif (tu E ''idle_session_timeout'' > 0)
       (steps [emit (Sys ''vsf_sysutil_install_sighandler'' [''handle_alarm_timeout''] [1]),
               emit (Sys ''vsf_sysutil_set_alarm'' [] [uint (tu E ''idle_session_timeout'')])])"

text \<open>The next line of the control connection, and whether the alarm went off while waiting.\<close>

definition next_line :: "(int \<times> bytes \<times> bool) act" where
  "next_line = (\<lambda>w.
     case str_netfd_alloc LF VSFTP_MAX_COMMAND_LINE (sched w) (incoming w) of
       Inl f \<Rightarrow> (Inl f, w)
     | Inr (retval, line, sched', rest) \<Rightarrow>
         (Inr (retval, line, Alarm \<in> set (take (length (sched w) - length sched') (sched w))),
          w\<lparr>sched := sched', incoming := rest\<rparr>))"

definition ftp_getline :: "(int \<times> bytes) act" where
  "ftp_getline = bnd next_line (\<lambda>(retval, line, fired).
     thn (doif fired handle_alarm_timeout) (ret (retval, line)))"

fun strip_cr :: "bytes \<Rightarrow> bytes" where
  "strip_cr [] = []"
| "strip_cr (c # cs) = (if c = CR then strip_cr cs else c # cs)"

text \<open>\<open>None\<close>: the remote end hung up.\<close>

definition control_getline :: "env \<Rightarrow> bytes option act" where
  "control_getline E =
     bnd ftp_getline (\<lambda>(retval, line).
     if retval = 0 then ret None
     else if retval < 0 then vsf_cmdio_write_exit E 500 ''Input line too long.'' 1
     else ret (Some (rev (strip_cr (rev (v_replace_char line NUL LF))))))"

text \<open>The command in upper case and its argument; a single space is the command of one space.\<close>

definition split_command :: "bytes \<Rightarrow> bytes \<times> bytes" where
  "split_command line =
     (let (cmd, arg) = (if line = '' '' then (line, []) else v_split_char line CHR '' '')
      in (v_upper cmd, arg))"

text \<open>What is logged of a command when the protocol is logged.\<close>

definition cmd_log_line :: "bytes \<Rightarrow> bytes \<Rightarrow> bytes" where
  "cmd_log_line cmd arg =
     (if cmd = ''PASS'' then ''PASS <password>''
      else if arg \<noteq> [] then cmd @ '' '' @ arg else cmd)"

definition vsf_cmdio_get_cmd_and_arg :: "env \<Rightarrow> bool \<Rightarrow> (bytes \<times> bytes) act" where
  "vsf_cmdio_get_cmd_and_arg E set_alarm =
     thn (doif set_alarm (vsf_cmdio_set_alarm E))
     (bnd (control_getline E) (\<lambda>line.
      bnd (gets idle_timeout) (\<lambda>timeout.
      if timeout then vsf_cmdio_write_exit E 421 ''Timeout.'' 1
      else case line of
        None \<Rightarrow> thn (emit (Sys ''vsf_sysutil_shutdown_failok'' [] [0])) (vsf_sysutil_exit 1)
      | Some l \<Rightarrow>
          let (cmd, arg) = split_command l in
          thn (doif (tb E ''log_ftp_protocol'')
                 (vsf_log_line E kVSFLogEntryFTPInput (cmd_log_line cmd arg)))
            (ret (cmd, arg)))))"

section \<open>Lemmas: writing\<close>

fun is_cmdio :: "event \<Rightarrow> bool" where
  "is_cmdio (Out b) = True"
| "is_cmdio (Data b) = False"
| "is_cmdio (Sys f bs ns) \<longleftrightarrow> is_log (Sys f bs ns) \<or> f \<in> {''vsf_sysutil_activate_noblock'',
     ''vsf_sysutil_shutdown_read_failok'', ''vsf_sysutil_shutdown_failok'',
     ''vsf_sysutil_install_sighandler'', ''vsf_sysutil_set_alarm''}"

lemma log_is_cmdio: "is_log e \<Longrightarrow> is_cmdio e"
  by (cases e) auto

lemma talks_log_cmdio [talks_intros]:
  "what \<noteq> kVSFLogEntryNull \<Longrightarrow> talks is_cmdio F (vsf_log_line E what l)"
  by (rule talks_mono [OF talks_log_line log_is_cmdio])

text \<open>A write to the control connection that is not empty: what happens to the world.\<close>

lemma talks_ftp_write [talks_intros]:
  "b \<noteq> [] \<Longrightarrow> talks is_cmdio F (ftp_write_str E b kVSFRWControl)"
  unfolding ftp_write_str_def str_netfd_write_def by (intro talks_intros) simp_all

lemma reply_bytes_not_Nil [simp]: "reply_bytes status sep s \<noteq> []"
  by (simp add: reply_bytes_def Let_def)

lemma talks_reply [talks_intros]:
  assumes "F (Oops ''ftp_write'')"
  shows "talks is_cmdio F (ftp_write_str_common E status sep s)"
    and "talks is_cmdio F (vsf_cmdio_write_str E status s)"
    and "talks is_cmdio F (vsf_cmdio_write_str_hyphen E status s)"
    and "talks is_cmdio F (vsf_cmdio_write E status s)"
    and "talks is_cmdio F (vsf_cmdio_write_hyphen E status s)"
proof -
  show *: "talks is_cmdio F (ftp_write_str_common E status sep s)" for status sep s
    unfolding ftp_write_str_common_def by (intro talks_intros) (simp_all add: assms bug_fault)
  show "talks is_cmdio F (vsf_cmdio_write_str E status s)"
    "talks is_cmdio F (vsf_cmdio_write_str_hyphen E status s)"
    "talks is_cmdio F (vsf_cmdio_write E status s)"
    "talks is_cmdio F (vsf_cmdio_write_hyphen E status s)"
    by (simp_all add: vsf_cmdio_write_str_def vsf_cmdio_write_str_hyphen_def vsf_cmdio_write_def
        vsf_cmdio_write_hyphen_def ftp_write_text_common_def *)
qed

lemma talks_raw [talks_intros]:
  "cstr s \<noteq> [] \<Longrightarrow> F (Oops ''ftp_write_str'') \<Longrightarrow> talks is_cmdio F (vsf_cmdio_write_raw E s)"
  unfolding vsf_cmdio_write_raw_def by (intro talks_intros) (simp_all add: bug_fault)

lemma talks_write_exit [talks_intros]:
  "F (Oops ''ftp_write'') \<Longrightarrow> F (Exited n) \<Longrightarrow> talks is_cmdio F (vsf_cmdio_write_exit E status s n)"
  unfolding vsf_cmdio_write_exit_def by (intro talks_intros) simp_all

lemma talks_set_alarm [talks_intros]: "talks is_cmdio F (vsf_cmdio_set_alarm E)"
  unfolding vsf_cmdio_set_alarm_def by (intro talks_intros) simp_all

text \<open>Undoing the encoding of a reply text, as a client does.\<close>

fun undouble :: "bytes \<Rightarrow> bytes" where
  "undouble [] = []"
| "undouble (c # cs) = c # undouble (if c = CHR 0xFF then drop 1 cs else cs)"

lemma double_eq:
  "v_replace_text s [CHR 0xFF] [CHR 0xFF, CHR 0xFF] =
     concat (map (\<lambda>c. if c = CHR 0xFF then [CHR 0xFF, CHR 0xFF] else [c]) s)"
proof -
  have "cstr [CHR 0xFF, CHR 0xFF] = [CHR 0xFF, CHR 0xFF]" by simp
  moreover have "v_replace_text s [CHR 0xFF] [CHR 0xFF, CHR 0xFF] =
      concat (map (\<lambda>c. if c = CHR 0xFF then cstr [CHR 0xFF, CHR 0xFF] else [c]) s)"
    by (rule v_replace_text_char) simp
  ultimately show ?thesis by presburger
qed

definition mangle :: "bytes \<Rightarrow> bytes" where
  "mangle s = v_replace_char (concat (map (\<lambda>c. if c = CHR 0xFF then [CHR 0xFF, CHR 0xFF] else [c]) s)) LF NUL"

lemma reply_mangle:
  "reply_bytes status sep s = vsf_sysutil_ulong_to_str status @ [sep] @ mangle s @ [CR, LF]"
  by (simp add: reply_bytes_def mangle_def double_eq)

lemma mangle_Cons:
  "mangle (c # s) = (if c = CHR 0xFF then [CHR 0xFF, CHR 0xFF] else if c = LF then [NUL] else [c]) @ mangle s"
  by (simp add: mangle_def v_replace_char_def)

lemma mangle_no_LF: "LF \<notin> set (mangle s)"
  by (induction s) (auto simp: mangle_Cons, simp add: mangle_def v_replace_char_def)

lemma undouble_mangle:
  "NUL \<notin> set s \<Longrightarrow> v_replace_char (undouble (mangle s)) NUL LF = s"
proof (induction s)
  case Nil
  then show ?case by (simp add: mangle_def v_replace_char_def)
next
  case (Cons c s)
  then show ?case by (auto simp: mangle_Cons v_replace_char_def)
qed

section \<open>Lemmas: reading\<close>

lemma strip_cr_eq: "strip_cr cs = dropWhile (\<lambda>c. c = CR) cs"
  by (induction cs) auto

lemma strip_last: "l = [] \<or> last l \<noteq> CR \<Longrightarrow> rev (strip_cr (rev (l @ replicate n CR))) = l"
proof -
  assume h: "l = [] \<or> last l \<noteq> CR"
  have "strip_cr (replicate n CR @ rev l) = strip_cr (rev l)"
    by (induction n) auto
  moreover have "strip_cr (rev l) = rev l" using h by (cases l rule: rev_cases) auto
  ultimately show ?thesis by simp
qed

text \<open>A schedule without errors and alarms leaves a schedule without them.\<close>

lemma next_line_sent:
  assumes "LF \<notin> set l" and "length l < VSFTP_MAX_COMMAND_LINE" and "list_all sees (sched w)"
    and "incoming w = l @ LF # rest"
  shows "\<exists>r s. 0 < r \<and> next_line w = (Inr (r, l, False), w\<lparr>sched := s, incoming := rest\<rparr>)"
proof -
  have tw: "takeWhile (\<lambda>c. c \<noteq> LF) (incoming w) = l"
    using takeWhile_upto [of LF l rest] assms(1,4) by simp
  have "line_outcome LF VSFTP_MAX_COMMAND_LINE [] (incoming w)
      (str_netfd_alloc LF VSFTP_MAX_COMMAND_LINE (sched w) (incoming w))"
    unfolding str_netfd_alloc_def by (rule netfd_loop_outcome) (use assms(3) in auto)
  then obtain r s where "str_netfd_alloc LF VSFTP_MAX_COMMAND_LINE (sched w) (incoming w) = Inr (r, l, s, rest)" "0 < r"
    unfolding line_outcome_def tw using assms(2,4) by (auto simp: Let_def)
  moreover have "Alarm \<notin> set (take n (sched w))" for n
    using assms(3) by (auto simp: list_all_iff dest!: in_set_takeD)
  ultimately show ?thesis by (auto simp: next_line_def)
qed

text \<open>Reading the line \<open>l\<close> that a client sent with CR LF at its end.\<close>

lemma control_getline_line:
  assumes "LF \<notin> set l" and "length l + 1 < VSFTP_MAX_COMMAND_LINE" and "list_all sees (sched w)"
    and "l = [] \<or> last l \<noteq> CR" and "NUL \<notin> set l" and "incoming w = l @ [CR, LF] @ rest"
  shows "\<exists>s. control_getline E w = (Inr (Some l), w\<lparr>sched := s, incoming := rest\<rparr>)"
proof -
  obtain r s where "0 < r" "next_line w = (Inr (r, l @ [CR], False), w\<lparr>sched := s, incoming := rest\<rparr>)"
    using next_line_sent [of "l @ [CR]" w rest] assms by auto
  moreover have "v_replace_char (l @ [CR]) NUL LF = l @ [CR]"
    using assms(5) by (auto simp: v_replace_char_def intro!: map_idI)
  ultimately show ?thesis using strip_last [OF assms(4), of 1]
    by (auto simp: control_getline_def ftp_getline_def act_defs)
qed

text \<open>A command that was read shortens what the client has sent.\<close>

lemma get_cmd_consumes:
  assumes "vsf_cmdio_get_cmd_and_arg E b w = (Inr r, w')"
  shows "length (incoming w') < length (incoming w)"
proof -
  let ?less = "\<lambda>l v. l \<noteq> None \<longrightarrow> length (incoming v) < length (incoming w)"
  have exits: "wp (vsf_cmdio_write_exit E c t n) Q (\<lambda>_ _. True) u" for c t n u and Q :: "'b \<Rightarrow> world \<Rightarrow> bool"
    unfolding vsf_cmdio_write_exit_def wp_thn wp_basic by (simp add: wp_def split: prod.split sum.split)
  have line: "wp next_line (\<lambda>(r, _) v. 0 < r \<longrightarrow> length (incoming v) < length (incoming u)) (\<lambda>_ _. True) u" for u
    by (auto simp: wp_def next_line_def str_netfd_alloc_def dest: netfd_consumes split: sum.split prod.split)
  have getline: "wp (control_getline E) ?less (\<lambda>_ _. True) u" if "incoming u = incoming w" for u
    unfolding control_getline_def ftp_getline_def wp_bnd
    by (rule wp_mono [OF line]) (auto simp: that wp_simps handle_alarm_timeout_def intro!: exits)
  have alarm: "wp (doif b (vsf_cmdio_set_alarm E)) (\<lambda>_ u. incoming u = incoming w) (\<lambda>_ _. True) w"
    by (rule wp_talks [where P = is_cmdio and F = "\<lambda>_. True"]) (auto intro: talks_intros)
  have logged: "wp (doif (tb E ''log_ftp_protocol'') (vsf_log_line E kVSFLogEntryFTPInput t))
      (\<lambda>_. wp (ret p) (\<lambda>_ v. length (incoming v) < length (incoming w)) (\<lambda>_ _. True)) (\<lambda>_ _. True) u"
    if "length (incoming u) < length (incoming w)" for t u and p :: "bytes \<times> bytes"
    by (rule wp_talks [where P = is_log and F = "\<lambda>_. True"]) (use that in \<open>auto intro: talks_intros simp: wp_basic\<close>)
  have "wp (vsf_cmdio_get_cmd_and_arg E b) (\<lambda>_ v. length (incoming v) < length (incoming w)) (\<lambda>_ _. True) w"
    unfolding vsf_cmdio_get_cmd_and_arg_def wp_thn wp_bnd
    by (rule wp_mono [OF alarm], rule wp_mono [OF getline], assumption)
      (auto simp: wp_basic wp_thn wp_if Let_def case_prod_unfold intro!: logged exits split: option.split)
  with assms show ?thesis by (simp add: wp_def)
qed

section \<open>Properties\<close>

text \<open>C19: commands arrive as they were sent. A line of a command without a space, one space and an
  argument, ended by CR LF, is delivered as the command in upper case and the unchanged argument,
  however the bytes arrive, and the next line is left in the stream; apart from the alarm and the
  protocol log nothing else happens.\<close>

theorem command_roundtrip:
  assumes "list_all sees (sched w)" and "CHR '' '' \<notin> set cmd" and "cmd \<noteq> []"
    and "LF \<notin> set (cmd @ arg)" and "NUL \<notin> set (cmd @ arg)" and "arg \<noteq> []" and "last arg \<noteq> CR"
    and "length (cmd @ arg) + 2 < VSFTP_MAX_COMMAND_LINE"
    and "incoming w = cmd @ '' '' @ arg @ [CR, LF] @ rest" and "\<not> idle_timeout (sess w)"
  shows "\<exists>s es. vsf_cmdio_get_cmd_and_arg E set_alarm w =
           (Inr (v_upper cmd, arg), w\<lparr>sched := s, incoming := rest, trace := trace w @ es\<rparr>) \<and>
           list_all is_cmdio es"
proof -
  let ?l = "cmd @ '' '' @ arg" and ?m = "doif set_alarm (vsf_cmdio_set_alarm E)"
  have "talks is_cmdio (\<lambda>_. False) ?m" by (intro talks_intros)
  from talks_total [OF this, of w]
  obtain es where a: "?m w = (Inr (), w\<lparr>trace := trace w @ es\<rparr>)" "list_all is_cmdio es" by auto
  obtain s where g: "control_getline E (w\<lparr>trace := trace w @ es\<rparr>) =
      (Inr (Some ?l), w\<lparr>trace := trace w @ es, sched := s, incoming := rest\<rparr>)"
    using control_getline_line [of ?l "w\<lparr>trace := trace w @ es\<rparr>" rest E] assms by auto
  have "?l \<noteq> '' ''" using assms(3,6) by (cases cmd) auto
  moreover have "v_split_char ?l CHR '' '' = (cmd, arg)"
    using v_split_char_hit [of "CHR '' ''" cmd arg] assms(2) by simp
  ultimately have sp: "split_command ?l = (v_upper cmd, arg)" by (simp add: split_command_def)
  let ?n = "doif (tb E ''log_ftp_protocol'')
    (vsf_log_line E kVSFLogEntryFTPInput (cmd_log_line (v_upper cmd) arg))"
  have "talks is_cmdio (\<lambda>_. False) ?n" by (intro talks_intros) simp
  from talks_total [OF this, of "w\<lparr>trace := trace w @ es, sched := s, incoming := rest\<rparr>"]
  obtain es' where "?n (w\<lparr>trace := trace w @ es, sched := s, incoming := rest\<rparr>) =
      (Inr (), w\<lparr>sched := s, incoming := rest, trace := trace w @ es @ es'\<rparr>)" "list_all is_cmdio es'"
    by auto
  with a g sp assms(10) show ?thesis
    by (intro exI [where x = s] exI [where x = "es @ es'"])
      (auto simp: vsf_cmdio_get_cmd_and_arg_def thn_def bnd_def gets_def ret_def)
qed

theorem command_roundtrip_witness:
  "\<exists>s es. vsf_cmdio_get_cmd_and_arg plain_env False
       (world_with blank_session (''retr'' @ '' '' @ ''a b'' @ [CR, LF] @ ''QUIT'')) =
     (Inr (v_upper ''retr'', ''a b''), (world_with blank_session (''retr'' @ '' '' @ ''a b'' @ [CR, LF] @ ''QUIT''))
        \<lparr>sched := s, incoming := ''QUIT'', trace := [] @ es\<rparr>) \<and> list_all is_cmdio es"
proof -
  let ?w = "world_with blank_session (''retr'' @ '' '' @ ''a b'' @ [CR, LF] @ ''QUIT'')"
  have "trace ?w = []" by (simp add: world_with_def)
  with command_roundtrip [of ?w "''retr''" "''a b''" "''QUIT''" plain_env False] show ?thesis
    by (simp add: world_with_def blank_session_def VSFTP_MAX_COMMAND_LINE_def)
qed

text \<open>C26: a reply is one line and can be read back. Whatever the text, also one taken from a file
  name, the bytes of a reply contain a line feed only as their last byte, after a carriage return,
  so no text can make the client see a second reply; undoing the doubled byte 255 and the
  replaced line feeds gives the text back; and exactly these bytes go to the control connection,
  after the protocol log, with a failed write ending the process.\<close>

theorem reply_is_one_line:
  assumes "NUL \<notin> set s" and "sep \<noteq> LF"
  shows "\<exists>m r es. ftp_write_str_common E status sep s w =
             (r, w\<lparr>trace := trace w @ es @ [Out (vsf_sysutil_ulong_to_str status @ [sep] @ m @ [CR, LF])]\<rparr>) \<and>
           list_all is_log es \<and> (r = Inr () \<or> r = Inl (Oops ''ftp_write'')) \<and>
           LF \<notin> set (vsf_sysutil_ulong_to_str status @ [sep] @ m) \<and>
           v_replace_char (undouble m) NUL LF = s"
proof -
  let ?l = "doif (tb E ''log_ftp_protocol'')
    (vsf_log_line E kVSFLogEntryFTPOutput (vsf_sysutil_ulong_to_str status @ [sep] @ s))"
  have "LF \<notin> set (vsf_sysutil_ulong_to_str status)"
    using digits_of_code [of 10 LF status] by (auto simp: vsf_sysutil_ulong_to_str_def code_def)
  moreover have "talks is_log (\<lambda>_. False) ?l" by (intro talks_intros) simp
  from talks_total [OF this, of w]
  obtain es where "?l w = (Inr (), w\<lparr>trace := trace w @ es\<rparr>)" "list_all is_log es" by auto
  moreover have "\<exists>r. ftp_write_str E b kVSFRWControl v = (Inr r, v\<lparr>trace := trace v @ [Out b]\<rparr>)"
    if "b \<noteq> []" for b v
    using that by (auto simp: ftp_write_str_def str_netfd_write_def act_defs)
  from this [of "reply_bytes status sep s" "w\<lparr>trace := trace w @ es\<rparr>"]
  obtain r where "ftp_write_str E (reply_bytes status sep s) kVSFRWControl (w\<lparr>trace := trace w @ es\<rparr>) =
      (Inr r, w\<lparr>trace := trace w @ es @ [Out (reply_bytes status sep s)]\<rparr>)" by auto
  ultimately show ?thesis
    using mangle_no_LF [of s] undouble_mangle [OF assms(1)] assms(2)
    by (intro exI [where x = "mangle s"] exI [where x = "if r \<noteq> 0 then Inl (Oops ''ftp_write'') else Inr ()"]
          exI [where x = es])
      (auto simp: ftp_write_str_common_def reply_mangle bnd_def lift_def ret_def die_def bug_def)
qed

theorem reply_is_one_line_witness:
  "\<exists>m r es. ftp_write_str_common plain_env 257 CHR '' '' (''a'' @ [LF] @ ''200 ok'') (world_with blank_session []) =
     (r, (world_with blank_session [])\<lparr>trace := trace (world_with blank_session []) @ es @
        [Out (vsf_sysutil_ulong_to_str 257 @ [CHR '' ''] @ m @ [CR, LF])]\<rparr>) \<and>
     LF \<notin> set (vsf_sysutil_ulong_to_str 257 @ [CHR '' ''] @ m)"
proof -
  have "NUL \<notin> set (''a'' @ [LF] @ ''200 ok'')" "CHR '' '' \<noteq> LF" by simp_all
  from reply_is_one_line [OF this] show ?thesis by blast
qed

text \<open>C27: passwords stay out of the logs. Reading a PASS line leaves the same trace whatever the
  password is, with the protocol log on or off and wherever the log lines go.\<close>

theorem password_not_logged:
  assumes "list_all sees (sched w)" and "v_upper pass = ''PASS''" and "CHR '' '' \<notin> set pass"
    and "\<forall>pw \<in> {pw1, pw2}. LF \<notin> set (pass @ pw) \<and> NUL \<notin> set (pass @ pw) \<and> pw \<noteq> [] \<and> last pw \<noteq> CR \<and>
           length (pass @ pw) + 2 < VSFTP_MAX_COMMAND_LINE"
    and "\<not> idle_timeout (sess w)"
  shows "trace (snd (vsf_cmdio_get_cmd_and_arg E alarm (w\<lparr>incoming := pass @ '' '' @ pw1 @ [CR, LF] @ rest1\<rparr>))) =
         trace (snd (vsf_cmdio_get_cmd_and_arg E alarm (w\<lparr>incoming := pass @ '' '' @ pw2 @ [CR, LF] @ rest2\<rparr>)))"
proof -
  have run: "\<exists>v. sess v = sess w \<and> trace v = trace (snd (doif alarm (vsf_cmdio_set_alarm E) w)) \<and>
      trace (snd (vsf_cmdio_get_cmd_and_arg E alarm (w\<lparr>incoming := pass @ '' '' @ pw @ [CR, LF] @ rest\<rparr>))) =
      trace (snd (doif (tb E ''log_ftp_protocol'') (vsf_log_line E kVSFLogEntryFTPInput ''PASS <password>'') v))"
    if pw: "pw \<in> {pw1, pw2}" for pw rest
  proof -
    let ?w = "w\<lparr>incoming := pass @ '' '' @ pw @ [CR, LF] @ rest\<rparr>" and ?m = "doif alarm (vsf_cmdio_set_alarm E)"
    let ?l = "pass @ '' '' @ pw"
    have "talks is_cmdio (\<lambda>_. False) ?m" by (intro talks_intros)
    from talks_total [OF this, of ?w]
    obtain es where m: "?m ?w = (Inr (), ?w\<lparr>trace := trace w @ es\<rparr>)" by auto
    have t: "trace (snd (?m ?w)) = trace (snd (?m w))"
      by (simp add: vsf_cmdio_set_alarm_def act_defs)
    obtain s where g: "control_getline E (?w\<lparr>trace := trace w @ es\<rparr>) =
        (Inr (Some ?l), ?w\<lparr>trace := trace w @ es, sched := s, incoming := rest\<rparr>)"
      using control_getline_line [of ?l "?w\<lparr>trace := trace w @ es\<rparr>" rest E] assms(1,4) pw by force
    have "?l \<noteq> '' ''" using assms(4) pw by (cases pass) auto
    moreover have "v_split_char ?l CHR '' '' = (pass, pw)"
      using v_split_char_hit [of "CHR '' ''" pass pw] assms(3) by simp
    ultimately have sp: "split_command ?l = (''PASS'', pw)" by (simp add: split_command_def assms(2))
    let ?v = "?w\<lparr>trace := trace w @ es, sched := s, incoming := rest\<rparr>"
    show ?thesis
      using m g sp assms(5) t
      by (intro exI [where x = ?v])
        (auto simp: vsf_cmdio_get_cmd_and_arg_def thn_def bnd_def gets_def ret_def cmd_log_line_def
          split: sum.splits prod.splits)
  qed
  have same: "trace (snd (doif b (vsf_log_line E what l) v)) = trace (snd (doif b (vsf_log_line E what l) u))"
    if "sess v = sess u" "trace v = trace u" for b what l v u
  proof -
    have "inward (doif b (vsf_log_line E what l))" by (intro inward_intros)
    then show ?thesis unfolding inward_def same_view_def using that by blast
  qed
  obtain v where v: "sess v = sess w" "trace v = trace (snd (doif alarm (vsf_cmdio_set_alarm E) w))"
      "trace (snd (vsf_cmdio_get_cmd_and_arg E alarm (w\<lparr>incoming := pass @ '' '' @ pw1 @ [CR, LF] @ rest1\<rparr>))) =
       trace (snd (doif (tb E ''log_ftp_protocol'') (vsf_log_line E kVSFLogEntryFTPInput ''PASS <password>'') v))"
    using run [of pw1 rest1] by blast
  obtain u where u: "sess u = sess w" "trace u = trace (snd (doif alarm (vsf_cmdio_set_alarm E) w))"
      "trace (snd (vsf_cmdio_get_cmd_and_arg E alarm (w\<lparr>incoming := pass @ '' '' @ pw2 @ [CR, LF] @ rest2\<rparr>))) =
       trace (snd (doif (tb E ''log_ftp_protocol'') (vsf_log_line E kVSFLogEntryFTPInput ''PASS <password>'') u))"
    using run [of pw2 rest2] by blast
  show ?thesis unfolding v(3) u(3) by (rule same) (simp_all add: u(1,2) v(1,2))
qed

theorem password_not_logged_witness:
  "trace (snd (vsf_cmdio_get_cmd_and_arg plain_env True
       ((world_with blank_session [])\<lparr>incoming := ''pass'' @ '' '' @ ''secret'' @ [CR, LF] @ []\<rparr>))) =
   trace (snd (vsf_cmdio_get_cmd_and_arg plain_env True
       ((world_with blank_session [])\<lparr>incoming := ''pass'' @ '' '' @ ''1234'' @ [CR, LF] @ []\<rparr>)))"
proof (rule password_not_logged)
  show "v_upper ''pass'' = ''PASS''" by code_simp
qed (simp_all add: world_with_def blank_session_def VSFTP_MAX_COMMAND_LINE_def)

end
