(* ===== verification/Encode.thy ===== *)
theory Encode
  imports Prelude
begin

text \<open>
  The guess of the character set in \<^verbatim>\<open>encode.cpp\<close>, by which the command loop decides whether the
  argument of a command is converted from GBK to UTF-8. The text is the C string behind the
  pointer: index \<open>dwLen\<close> holds the terminator, and a read behind it is a fault.
\<close>

definition byte_at :: "bytes \<Rightarrow> nat \<Rightarrow> nat res" where
  "byte_at s i = (if i < length s then Inr (code (s ! i)) else if i = length s then Inr 0 else Inl Segv)"

definition follow_bytes :: "nat \<Rightarrow> nat" where
  "follow_bytes c = (if c \<ge> 0xfc then 5 else if c \<ge> 0xf8 then 4 else if c \<ge> 0xf0 then 3
     else if c \<ge> 0xe0 then 2 else 1)"

text \<open>The inner loop over the continuation bytes: the index behind the last good one, and whether all
  were good.\<close>

fun continuation :: "bytes \<Rightarrow> nat \<Rightarrow> nat \<Rightarrow> (nat \<times> bool) res" where
  "continuation s i 0 = Inr (i, True)"
| "continuation s i (Suc n) =
     res_bind (byte_at s i) (\<lambda>c.
     if c < 0x80 \<or> c > 0xbf then Inr (i, False) else continuation s (i + 1) n)"

lemma continuation_ge: "continuation s i n = Inr (j, b) \<Longrightarrow> i \<le> j"
proof (induction n arbitrary: i)
  case (Suc n)
  then have "i = j \<or> continuation s (i + 1) n = Inr (j, b)"
    by (auto simp: res_bind_Inr_iff split: if_splits)
  with Suc.IH [of "i + 1"] show ?case by auto
qed simp

text \<open>The outer loop, with the counts of bytes in good sequences and of unknown bytes.\<close>

function utf8_loop :: "bytes \<Rightarrow> nat \<Rightarrow> nat \<Rightarrow> nat \<Rightarrow> (nat \<times> nat) res" where
  "utf8_loop s i udwUtf8Len udwUnkouwnLen =
     (if i < length s then
        res_bind (byte_at s i) (\<lambda>cChar.
        if cChar < 0x7f then utf8_loop s (i + 1) udwUtf8Len udwUnkouwnLen
        else if cChar < 0xc0 \<or> cChar > 0xfd then utf8_loop s (i + 1) udwUtf8Len (udwUnkouwnLen + 1)
        else if follow_bytes cChar + i > length s
        then utf8_loop s (i + 1) udwUtf8Len (udwUnkouwnLen + 1)
        else (case continuation s (i + 1) (follow_bytes cChar) of
                Inl f \<Rightarrow> Inl f
              | Inr (j, True) \<Rightarrow> utf8_loop s j (udwUtf8Len + follow_bytes cChar + 1) udwUnkouwnLen
              | Inr (j, False) \<Rightarrow> utf8_loop s j udwUtf8Len (udwUnkouwnLen + 2)))
      else Inr (udwUtf8Len, udwUnkouwnLen))"
  by pat_completeness auto
termination
  by (relation "measure (\<lambda>(s, i, u, k). length s - i)") (auto dest!: continuation_ge)

declare utf8_loop.simps [simp del]

text \<open>The comparison with nine tenths is exact for the lengths a command line can have.\<close>

definition IsUtf8 :: "bytes \<Rightarrow> bool res" where
  "IsUtf8 p =
     (let s = cstr p in
      if s = [] then Inr False
      else res_bind (utf8_loop s 0 0 0) (\<lambda>(u, k). Inr (10 * u \<ge> 9 * (k + u))))"

section \<open>Lemmas\<close>

lemma byte_at_ok: "i \<le> length s \<Longrightarrow> \<exists>c. byte_at s i = Inr c"
  by (simp add: byte_at_def)

text \<open>The terminator stops the inner loop, so it never reads behind it.\<close>

lemma continuation_ok:
  "i + n \<le> Suc (length s) \<Longrightarrow> \<exists>j b. continuation s i n = Inr (j, b) \<and> j \<le> length s + (if b then 1 else 0) \<and>
     (b \<longrightarrow> j = i + n)"
proof (induction n arbitrary: i)
  case (Suc n)
  then show ?case
  proof (cases "i < length s")
    case True
    with Suc.prems obtain j b where "continuation s (Suc i) n = Inr (j, b)"
        "j \<le> length s + (if b then 1 else 0)" "b \<longrightarrow> j = Suc i + n"
      using Suc.IH [of "Suc i"] by auto
    with True show ?thesis by (auto simp: byte_at_def)
  next
    case False
    with Suc.prems show ?thesis by (auto simp: byte_at_def)
  qed
qed auto

lemma utf8_loop_total: "\<exists>u k. utf8_loop s i a b = Inr (u, k)"
proof (induction s i a b rule: utf8_loop.induct)
  case (1 s i a b)
  show ?case
  proof (cases "i < length s")
    case True
    then obtain c where c: "byte_at s i = Inr c" using byte_at_ok [of i s] by auto
    show ?thesis
    proof (cases "c < 0x7f \<or> c < 0xc0 \<or> c > 0xfd \<or> follow_bytes c + i > length s")
      case go: True
      then show ?thesis using 1(1-3) [OF True] c True by (subst utf8_loop.simps) (auto split: if_splits)
    next
      case False
      obtain j g where j: "continuation s (i + 1) (follow_bytes c) = Inr (j, g)"
        using continuation_ok [of "i + 1" "follow_bytes c" s] False by auto
      then show ?thesis using 1(4,5) [OF True] c True False
        by (subst utf8_loop.simps) (auto split: bool.splits)
    qed
  qed (subst utf8_loop.simps, simp)
qed

text \<open>A well-formed sequence: an ASCII byte, or a lead byte and its continuation bytes.\<close>

definition utf8_sequence :: "bytes \<Rightarrow> bool" where
  "utf8_sequence q \<longleftrightarrow>
     (\<exists>c r. q = c # r \<and>
        (code c < 0x80 \<and> r = [] \<or>
         0xc0 \<le> code c \<and> code c \<le> 0xfd \<and> length r = follow_bytes (code c) \<and>
         (\<forall>d \<in> set r. 0x80 \<le> code d \<and> code d \<le> 0xbf)))"

text \<open>The bytes of the sequences of more than one byte, and the occurrences of the byte 127, which the loop counts as
  unknown.\<close>

definition multi :: "bytes list \<Rightarrow> nat" where
  "multi qs = length (concat (filter (\<lambda>q. length q \<noteq> 1) qs))"

definition deletes :: "bytes list \<Rightarrow> nat" where
  "deletes qs = length (filter (\<lambda>q. q = [CHR 0x7F]) qs)"

lemma continuation_good:
  "\<forall>d \<in> set r. 0x80 \<le> code d \<and> code d \<le> 0xbf \<Longrightarrow>
   continuation (a @ r @ b) (length a) (length r) = Inr (length a + length r, True)"
proof (induction r arbitrary: a)
  case (Cons c r)
  from Cons.IH [of "a @ [c]"] Cons.prems show ?case by (simp add: byte_at_def nth_append)
qed simp

lemma code_DEL: "code c = 127 \<longleftrightarrow> c = CHR 0x7F"
  using of_char_eq_iff [of c "CHR 0x7F", where ?'a = nat] by (simp add: code_def)

lemma utf8_loop_step:
  assumes "utf8_sequence q"
  shows "utf8_loop (a @ q @ b) (length a) u k = utf8_loop (a @ q @ b) (length (a @ q)) (u + multi [q]) (k + deletes [q])"
proof -
  from assms obtain c r where q: "q = c # r" and
    "code c < 0x80 \<and> r = [] \<or> 0xc0 \<le> code c \<and> code c \<le> 0xfd \<and> length r = follow_bytes (code c) \<and>
         (\<forall>d \<in> set r. 0x80 \<le> code d \<and> code d \<le> 0xbf)"
    unfolding utf8_sequence_def by blast
  then show ?thesis
  proof (elim disjE conjE)
    assume "code c < 0x80" "r = []"
    then show ?thesis unfolding q multi_def deletes_def using code_DEL [of c]
      by (subst utf8_loop.simps) (auto simp: byte_at_def)
  next
    assume h: "0xc0 \<le> code c" "code c \<le> 0xfd" "length r = follow_bytes (code c)"
      "\<forall>d \<in> set r. 0x80 \<le> code d \<and> code d \<le> 0xbf"
    have "0 < follow_bytes (code c)" by (simp add: follow_bytes_def)
    with h(3) have r: "r \<noteq> []" by auto
    have "continuation (a @ q @ b) (length a + 1) (follow_bytes (code c)) = Inr (length (a @ q), True)"
      using continuation_good [OF h(4), of "a @ [c]" b] h(3) by (simp add: q)
    then show ?thesis using h r unfolding q multi_def deletes_def
      by (subst utf8_loop.simps) (auto simp: byte_at_def)
  qed
qed

lemma multi_deletes_Cons: "multi (q # qs) = multi [q] + multi qs" "deletes (q # qs) = deletes [q] + deletes qs"
  by (simp_all add: multi_def deletes_def)

lemma utf8_loop_good:
  "list_all utf8_sequence qs \<Longrightarrow>
   utf8_loop (a @ concat qs) (length a) u k = Inr (u + multi qs, k + deletes qs)"
proof (induction qs arbitrary: a u k)
  case Nil
  show ?case by (subst utf8_loop.simps) (simp add: multi_def deletes_def)
next
  case (Cons q qs)
  then have "utf8_loop (a @ q @ concat qs) (length a) u k =
      utf8_loop (a @ q @ concat qs) (length (a @ q)) (u + multi [q]) (k + deletes [q])"
    by (intro utf8_loop_step) simp
  with Cons.IH [of "a @ q"] Cons.prems show ?case
    by (simp add: multi_deletes_Cons(1) [of q qs] multi_deletes_Cons(2) [of q qs] add.assoc)
qed

section \<open>Properties\<close>



text \<open>The comment counts the ASCII bytes 1 to 127 as good, the code only those below 127.\<close>

lemma IsUtf8_delete: "IsUtf8 [CHR 0x7F] = Inr False"
  by code_simp

end
