(* ===== verification/Cos.thy ===== *)
theory Cos
  imports Cmdio Paths Encode
begin

text \<open>
  \<^verbatim>\<open>cosswitch.cpp\<close>: the operations on the object store, and the login table. Each operation turns the
  argument of the client into a path of the store, makes one request of the SDK, an event that
  names the bucket and the path, and turns the response into its return code. What the environment
  answers to a request is the member \<^verbatim>\<open>code\<close> of the response, a number other than 0 and -197 when the
  response cannot be read or lacks what the function looks for; its text is the response itself. A response that is not a success is logged.
\<close>

section \<open>Paths of the store\<close>

text \<open>The settings of the root directory. A null setting is dereferenced by \<^verbatim>\<open>get_user_root_dir\<close>.\<close>

definition root_of :: "env \<Rightarrow> root_conf res" where
  "root_of E =
     (case (ts E ''user_home_dir'', ts E ''cos_appid'', ts E ''cos_bucket'') of
        (Some h, Some a, Some b) \<Rightarrow> Inr \<lparr>user_home_dir = h, cos_appid = a, cos_bucket = b\<rparr>
      | _ \<Rightarrow> Inl Segv)"

definition str_getcwd :: "env \<Rightarrow> bytes act" where
  "str_getcwd E = bnd (ask_text E (Sys ''getcwd'' [] [])) (\<lambda>d. ret (cstr d))"

definition get_cos_path_from_disk_path :: "env \<Rightarrow> bytes \<Rightarrow> bytes act" where
  "get_cos_path_from_disk_path E p_list_path =
     (if p_list_path = [] \<or> hd p_list_path \<noteq> CHR ''/'' then
        bnd (lift (root_of E)) (\<lambda>rc. bnd (str_getcwd E) (\<lambda>cwd.
        ret (str_session_getcwd rc cwd @ ''/'' @ p_list_path)))
      else ret p_list_path)"

definition with_slash :: "bytes \<Rightarrow> bytes" where
  "with_slash p = (if last p \<noteq> CHR ''/'' then p @ ''/'' else p)"

section \<open>Requests\<close>

definition cos_request :: "env \<Rightarrow> string \<Rightarrow> bytes list \<Rightarrow> int list \<Rightarrow> int act" where
  "cos_request E op args ns =
     bnd (lift (root_of E)) (\<lambda>rc. sys E (Sys op (cstr (cos_bucket rc) # map cstr args) ns))"

definition log_response :: "env \<Rightarrow> EVSFLogEntryType \<Rightarrow> unit act" where
  "log_response E what =
     bnd (ask_text E (Sys ''response'' [] [])) (\<lambda>r. vsf_log_line E what (cstr r))"

text \<open>The return value and the entry, blank when the call fails.\<close>

definition TYPE_FILE :: nat where "TYPE_FILE = 1"
definition TYPE_DIR :: nat where "TYPE_DIR = 2"

definition no_info :: file_info where
  "no_info = \<lparr>info_type = 0, file_name = [], file_size = 0, mtime = 0\<rparr>"

definition cos_stat_file :: "env \<Rightarrow> bytes \<Rightarrow> (int \<times> file_info) act" where
  "cos_stat_file E path =
     bnd (get_cos_path_from_disk_path E path) (\<lambda>p.
     bnd (cos_request E ''FileStat'' [p] []) (\<lambda>code.
     if code = 0 then
       bnd (ask E (Sys ''filelen'' [] [])) (\<lambda>n. bnd (ask E (Sys ''mtime'' [] [])) (\<lambda>t.
       ret (0, \<lparr>info_type = TYPE_FILE, file_name = path, file_size = n, mtime = t\<rparr>)))
     else thn (log_response E kVSFLogEntryDebug) (ret (- 1, no_info))))"

definition cos_stat_dir :: "env \<Rightarrow> bytes \<Rightarrow> (int \<times> file_info) act" where
  "cos_stat_dir E path =
     bnd (get_cos_path_from_disk_path E path) (\<lambda>p.
     bnd (cos_request E ''FolderStat'' [with_slash p] []) (\<lambda>code.
     if code = 0 then
       bnd (ask E (Sys ''mtime'' [] [])) (\<lambda>t.
       ret (0, \<lparr>info_type = TYPE_DIR, file_name = path, file_size = 0, mtime = t\<rparr>))
     else thn (log_response E kVSFLogEntryDebug) (ret (- 1, no_info))))"

definition cos_dir_isempty :: "env \<Rightarrow> bytes \<Rightarrow> int act" where
  "cos_dir_isempty E path =
     bnd (get_cos_path_from_disk_path E path) (\<lambda>p.
     bnd (cos_request E ''FolderList'' [with_slash p] [3]) (\<lambda>code.
     if code = 0 then
       bnd (ask E (Sys ''infos empty and listover'' [] [])) (\<lambda>b. ret (if b \<noteq> 0 then 0 else 1))
     else thn (log_response E kVSFLogEntryDebug) (ret (- 1))))"

definition cos_isdir :: "env \<Rightarrow> bytes \<Rightarrow> int act" where
  "cos_isdir E path =
     bnd (cos_stat_dir E path) (\<lambda>(r, info).
     if r = 0 then ret 0
     else bnd (cos_dir_isempty E path) (\<lambda>e. ret (if e = 1 then 0 else - 1)))"

definition cos_mkdir :: "env \<Rightarrow> bytes \<Rightarrow> int act" where
  "cos_mkdir E path =
     bnd (get_cos_path_from_disk_path E path) (\<lambda>p.
     bnd (cos_request E ''FolderCreate'' [with_slash p] []) (\<lambda>code.
     if code = 0 then ret 0 else thn (log_response E kVSFLogEntryMkdir) (ret (- 1))))"

definition cos_rmdir :: "env \<Rightarrow> bytes \<Rightarrow> int act" where
  "cos_rmdir E path =
     bnd (get_cos_path_from_disk_path E path) (\<lambda>p.
     bnd (cos_request E ''FolderDelete'' [with_slash p] []) (\<lambda>code.
     if code = 0 then ret 0
     else if code = - 197 then ret 1
     else thn (log_response E kVSFLogEntryRmdir) (ret (- 1))))"

definition cos_unlink :: "env \<Rightarrow> bytes \<Rightarrow> int act" where
  "cos_unlink E path =
     bnd (get_cos_path_from_disk_path E path) (\<lambda>p.
     bnd (cos_request E ''FileDelete'' [p] []) (\<lambda>code.
     if code = 0 then ret 0
     else if code = - 197 then ret 1
     else thn (log_response E kVSFLogEntryDelete) (ret (- 1))))"

fun upload_tries :: "env \<Rightarrow> bytes \<Rightarrow> bytes \<Rightarrow> nat \<Rightarrow> int act" where
  "upload_tries E src p 0 = ret (- 1)"
| "upload_tries E src p (Suc trytime) =
     bnd (cos_request E ''FileUpload'' [src, p] []) (\<lambda>code.
     if code = 0 then ret 0
     else thn (log_response E kVSFLogEntryUpload) (upload_tries E src p trytime))"

definition cos_upload_file :: "env \<Rightarrow> bytes \<Rightarrow> bytes \<Rightarrow> int act" where
  "cos_upload_file E src_path path =
     bnd (get_cos_path_from_disk_path E path) (\<lambda>p. upload_tries E src_path p 2)"

text \<open>The return value of a download and the bytes of the buffer up to it. The SDK returns an error as a negative
  number and otherwise the number of bytes it received; the text of the answer is what it left in the buffer, which is
  zero behind.\<close>

definition received :: "int \<Rightarrow> bytes \<Rightarrow> bytes" where
  "received recvlen buff = take (nat recvlen) (buff @ replicate (nat recvlen) NUL)"

fun download_tries :: "env \<Rightarrow> bytes \<Rightarrow> int \<Rightarrow> int \<Rightarrow> nat \<Rightarrow> (int \<times> bytes) act" where
  "download_tries E p bufflen offset 0 = ret (- 1, [])"
| "download_tries E p bufflen offset (Suc trytime) =
     bnd (ask_text E (Sys ''FileDownload'' [cstr p] [bufflen, offset])) (\<lambda>buff.
     bnd (cos_request E ''FileDownload'' [p] [bufflen, offset]) (\<lambda>recvlen.
     if recvlen \<ge> 0 then ret (recvlen, received recvlen buff)
     else
       thn (bnd (ask E (Sys ''retcode'' [] [])) (\<lambda>c.
            vsf_log_line E kVSFLogEntryDownload (''Download retcode:'' @ vsf_sysutil_int_to_str c)))
         (if trytime = 0 then ret (recvlen, []) else download_tries E p bufflen offset trytime)))"

definition cos_download_file :: "env \<Rightarrow> bytes \<Rightarrow> int \<Rightarrow> int \<Rightarrow> int \<Rightarrow> (int \<times> bytes) act" where
  "cos_download_file E path bufflen offset filesize =
     bnd (get_cos_path_from_disk_path E path) (\<lambda>p.
     let left = (filesize - offset) mod 2 ^ 64
     in download_tries E p (if bufflen > left then left else bufflen) offset 2)"

section \<open>The login table\<close>

text \<open>\<^verbatim>\<open>strtok_r\<close> with one separator: the pieces that are not empty.\<close>

definition tokens :: "char \<Rightarrow> bytes \<Rightarrow> bytes list" where
  "tokens sep s = filter (\<lambda>t. t \<noteq> []) (pieces sep s)"

definition Global_READ :: "32 word" where "Global_READ = 1"
definition Global_WRITE :: "32 word" where "Global_WRITE = 2"

definition permission_bits :: "bytes \<Rightarrow> 32 word" where
  "permission_bits ps =
     fold (\<lambda>c b. if c = CHR ''R'' \<or> c = CHR ''r'' then or b Global_READ
                 else if c = CHR ''W'' \<or> c = CHR ''w'' then or b Global_WRITE else b) ps 0"

fun login_loop :: "bytes list \<Rightarrow> bytes \<Rightarrow> bytes \<Rightarrow> 32 word option" where
  "login_loop [] user passwd = None"
| "login_loop (tp # tps) user passwd =
     (case tokens CHR '':'' tp of
        myuser # mypasswd # mypermission # _ \<Rightarrow>
          if myuser = user \<and> mypasswd = passwd then Some (permission_bits mypermission)
          else login_loop tps user passwd
      | _ \<Rightarrow> login_loop tps user passwd)"

text \<open>The permissions of the account, or \<open>None\<close> when the login is refused.\<close>

definition cos_handle_login :: "bytes option \<Rightarrow> bytes \<Rightarrow> bytes \<Rightarrow> 32 word option" where
  "cos_handle_login login_users user passwd =
     (case login_users of
        None \<Rightarrow> None
      | Some t \<Rightarrow> login_loop (tokens CHR '';'' (cstr t)) (cstr user) (cstr passwd))"

section \<open>Character sets\<close>

definition hex_text :: "nat \<Rightarrow> char" where
  "hex_text n = ''0123456789abcdef'' ! n"

definition inner_asc_2_bcd :: "bytes \<Rightarrow> bytes" where
  "inner_asc_2_bcd s = concat (map (\<lambda>c. [hex_text (code c div 16), hex_text (code c mod 16)]) s)"

definition cos_conv_gbk_2_utf :: "env \<Rightarrow> unit act" where
  "cos_conv_gbk_2_utf E =
     bnd (gets ftp_arg_str) (\<lambda>arg.
     bnd (if arg = [] then ret True else lift (IsUtf8 arg)) (\<lambda>utf8.
     if utf8 then ret ()
     else
       bnd (ask E (Sys ''CodeConvert'' [arg] [])) (\<lambda>rc.
       bnd (ask_text E (Sys ''CodeConvert'' [arg] [])) (\<lambda>temp.
       if rc = 0 then steps
         [upd (ftp_arg_str_update (\<lambda>_. cstr temp)),
          vsf_log_line E kVSFLogEntryFTPInput
            (''conv gbk to utf-8, src:'' @ arg @ ''  dst:'' @ cstr temp),
          vsf_log_line E kVSFLogEntryFTPInput (inner_asc_2_bcd (cstr temp))]
       else vsf_log_line E kVSFLogEntryFTPInput ''conv gbk to utf-8 error:''))))"

section \<open>Lemmas\<close>

lemma length_received [simp]: "length (received n b) = nat n"
  by (simp add: received_def)

text \<open>The events of store operations: log lines and the given requests.\<close>

fun store_event :: "string set \<Rightarrow> event \<Rightarrow> bool" where
  "store_event ops (Sys f bs ns) \<longleftrightarrow> is_log (Sys f bs ns) \<or> f \<in> ops"
| "store_event ops e \<longleftrightarrow> False"

lemma log_store_event: "is_log e \<Longrightarrow> store_event ops e"
  by (cases e) auto

lemma talks_store_log [talks_intros]:
  "what \<noteq> kVSFLogEntryNull \<Longrightarrow> talks (store_event ops) F (vsf_log_line E what l)"
  by (rule talks_mono [OF talks_log_line log_store_event])

lemma root_fault: "root_of E = Inl f \<Longrightarrow> f = Segv"
  by (auto simp: root_of_def split: option.splits)

lemma talks_getcwd [talks_intros]: "talks P F (str_getcwd E)"
  unfolding str_getcwd_def by (intro talks_intros)

lemma talks_root [talks_intros]: "F Segv \<Longrightarrow> talks P F (lift (root_of E))"
  by (rule talks_lift) (auto dest: root_fault)

lemma talks_cos_path [talks_intros]: "F Segv \<Longrightarrow> talks P F (get_cos_path_from_disk_path E p)"
  unfolding get_cos_path_from_disk_path_def by (intro talks_intros)

lemma talks_request [talks_intros]:
  "F Segv \<Longrightarrow> op \<in> ops \<Longrightarrow> talks (store_event ops) F (cos_request E op args ns)"
  unfolding cos_request_def by (intro talks_intros) simp_all

lemma talks_response [talks_intros]:
  "what \<noteq> kVSFLogEntryNull \<Longrightarrow> talks (store_event ops) F (log_response E what)"
  unfolding log_response_def by (intro talks_intros)

lemma talks_upload_tries [talks_intros]:
  "F Segv \<Longrightarrow> ''FileUpload'' \<in> ops \<Longrightarrow> talks (store_event ops) F (upload_tries E src p n)"
  by (induction n) (auto intro!: talks_intros)

lemma talks_download_tries [talks_intros]:
  "F Segv \<Longrightarrow> ''FileDownload'' \<in> ops \<Longrightarrow> talks (store_event ops) F (download_tries E p l off n)"
  by (induction n) (auto intro!: talks_intros simp: Let_def)

lemma talks_cos [talks_intros]:
  assumes "F Segv"
  shows "''FileStat'' \<in> ops \<Longrightarrow> talks (store_event ops) F (cos_stat_file E p)"
    and "''FolderStat'' \<in> ops \<Longrightarrow> talks (store_event ops) F (cos_stat_dir E p)"
    and "''FolderList'' \<in> ops \<Longrightarrow> talks (store_event ops) F (cos_dir_isempty E p)"
    and "''FolderStat'' \<in> ops \<Longrightarrow> ''FolderList'' \<in> ops \<Longrightarrow> talks (store_event ops) F (cos_isdir E p)"
    and "''FolderCreate'' \<in> ops \<Longrightarrow> talks (store_event ops) F (cos_mkdir E p)"
    and "''FolderDelete'' \<in> ops \<Longrightarrow> talks (store_event ops) F (cos_rmdir E p)"
    and "''FileDelete'' \<in> ops \<Longrightarrow> talks (store_event ops) F (cos_unlink E p)"
    and "''FileUpload'' \<in> ops \<Longrightarrow> talks (store_event ops) F (cos_upload_file E src p)"
    and "''FileDownload'' \<in> ops \<Longrightarrow> talks (store_event ops) F (cos_download_file E p l off fsize)"
  unfolding cos_stat_file_def cos_stat_dir_def cos_dir_isempty_def cos_isdir_def cos_mkdir_def
    cos_rmdir_def cos_unlink_def cos_upload_file_def cos_download_file_def
  by (auto intro!: talks_intros assms simp: Let_def)

lemma tokens_join:
  "\<forall>t \<in> set xs. t \<noteq> [] \<and> sep \<notin> set t \<Longrightarrow> tokens sep (concat (map (\<lambda>t. t @ [sep]) xs)) = xs"
  by (induction xs) (auto simp: tokens_def pieces_sep)

lemma tokens_three:
  "a \<noteq> [] \<Longrightarrow> b \<noteq> [] \<Longrightarrow> c \<noteq> [] \<Longrightarrow> sep \<notin> set (a @ b @ c) \<Longrightarrow> tokens sep (a @ sep # b @ sep # c) = [a, b, c]"
  by (simp add: tokens_def pieces_sep pieces_no_sep)

lemma permission_step:
  "and (fold (\<lambda>c b. if c = CHR ''R'' \<or> c = CHR ''r'' then or b Global_READ
       else if c = CHR ''W'' \<or> c = CHR ''w'' then or b Global_WRITE else b) ps b0) g =
   or (and b0 g) (or (if CHR ''R'' \<in> set ps \<or> CHR ''r'' \<in> set ps then and Global_READ g else 0)
      (if CHR ''W'' \<in> set ps \<or> CHR ''w'' \<in> set ps then and Global_WRITE g else 0))"
  by (induction ps arbitrary: b0)
    (auto simp: bit_simps bit_eq_iff)

lemma permission_bits_read:
  "and (permission_bits ps) Global_READ \<noteq> 0 \<longleftrightarrow> CHR ''R'' \<in> set ps \<or> CHR ''r'' \<in> set ps"
  unfolding permission_bits_def permission_step by (simp add: Global_READ_def Global_WRITE_def)

lemma permission_bits_write:
  "and (permission_bits ps) Global_WRITE \<noteq> 0 \<longleftrightarrow> CHR ''W'' \<in> set ps \<or> CHR ''w'' \<in> set ps"
  unfolding permission_bits_def permission_step by (simp add: Global_READ_def Global_WRITE_def)

lemma root_not_Nil: "get_user_root_dir rc \<noteq> []"
  by (simp add: get_user_root_dir_def Let_def)

lemma replace_prefix:
  assumes "r \<noteq> []" and "NUL \<notin> set r" and "\<not> sublist r d"
  shows "v_replace_text (r @ d) r [] = d"
proof -
  obtain a b where ab: "v_split_text (r @ d) r = (a, b)" by fastforce
  moreover have "occurs_at (r @ d) r 0" by (auto simp: occurs_at_iff)
  ultimately have "r @ d = a @ r @ b" and "\<forall>i<length a. \<not> occurs_at (r @ d) r i"
    using v_split_text_found [of r r "r @ d" 0 a b] assms(1,2) by auto
  moreover from this \<open>occurs_at (r @ d) r 0\<close> have "a = []" by (metis length_greater_0_conv)
  ultimately have "a = []" "b = d" by simp_all
  with ab show ?thesis
    using replace_missing [of r d "[]"] assms
    by (auto simp: v_replace_text_def replace_text_loop.simps [of r "[]" "r @ d"])
qed

section \<open>Properties\<close>

text \<open>An account of the login table and its text.\<close>

fun account_text :: "bytes \<times> bytes \<times> bytes \<Rightarrow> bytes" where
  "account_text (u, p, m) = u @ CHR '':'' # p @ CHR '':'' # m"

definition plain_account :: "bytes \<times> bytes \<times> bytes \<Rightarrow> bool" where
  "plain_account = (\<lambda>(u, p, m). u \<noteq> [] \<and> p \<noteq> [] \<and> m \<noteq> [] \<and>
     set (u @ p @ m) \<inter> {CHR '':'', CHR '';'', NUL} = {})"

lemma plain_account_text:
  assumes "plain_account a"
  shows "account_text a \<noteq> []" and "CHR '';'' \<notin> set (account_text a)" and "NUL \<notin> set (account_text a)"
  using assms by (cases a; auto simp: plain_account_def)+

text \<open>A login succeeds exactly for a listed account. For a login table written out from accounts
  whose fields are not empty and free of separators, \<^verbatim>\<open>cos_handle_login\<close> accepts a name and a
  password exactly when an account has both, gives it the permissions of the first such account,
  and these include reading and writing exactly when the account lists R and W in either case; an
  absent table accepts nobody.\<close>

theorem login_exact:
  assumes "\<forall>a \<in> set accts. plain_account a" and "NUL \<notin> set (user @ pass)"
  shows "cos_handle_login (Some (concat (map (\<lambda>a. account_text a @ '';'') accts))) user pass =
      map_option (\<lambda>(u, p, m). permission_bits m) (find (\<lambda>(u, p, m). u = user \<and> p = pass) accts) \<and>
    cos_handle_login None user pass = None \<and>
    (and (permission_bits m) Global_READ \<noteq> 0 \<longleftrightarrow> CHR ''R'' \<in> set m \<or> CHR ''r'' \<in> set m) \<and>
    (and (permission_bits m) Global_WRITE \<noteq> 0 \<longleftrightarrow> CHR ''W'' \<in> set m \<or> CHR ''w'' \<in> set m)"
proof -
  let ?ts = "map account_text accts"
  have "\<forall>t \<in> set ?ts. t \<noteq> [] \<and> CHR '';'' \<notin> set t" "NUL \<notin> set (concat (map (\<lambda>t. t @ '';'') ?ts))"
    using assms(1) plain_account_text by auto
  then have "tokens CHR '';'' (cstr (concat (map (\<lambda>t. t @ '';'') ?ts))) = ?ts"
    using tokens_join [of ?ts "CHR '';''"] by simp
  moreover have "login_loop (map account_text accts) user pass =
      map_option (\<lambda>(u, p, m). permission_bits m) (find (\<lambda>(u, p, m). u = user \<and> p = pass) accts)"
    using assms(1)
  proof (induction accts)
    case (Cons a accts)
    obtain u p m where a: "a = (u, p, m)" by (cases a) auto
    with Cons.prems have "tokens CHR '':'' (account_text a) = [u, p, m]"
      by (auto simp: plain_account_def intro!: tokens_three)
    with Cons a show ?case by simp
  qed simp
  ultimately show ?thesis using assms(2)
    by (simp add: cos_handle_login_def permission_bits_read permission_bits_write comp_def)
qed

theorem login_exact_witness:
  "cos_handle_login (Some (concat (map (\<lambda>a. account_text a @ '';'') [(''joe'', ''pw'', ''RW''), (''ann'', ''x'', ''r'')])))
     ''ann'' ''x'' = Some (permission_bits ''r'')"
  using login_exact [of "[(''joe'', ''pw'', ''RW''), (''ann'', ''x'', ''r'')]" "''ann''" "''x''" "''r''"]
  by (simp add: plain_account_def)

text \<open>C29: where the object store and the local directory tree agree on names. When the working directory
  is the user's root followed by a path that does not end in a slash and in which the text of the root
  does not occur again, the path of the store for any argument, put behind the root, is the path of the
  local file that the upload and directory handlers use. The condition on the root is needed:
  \<^verbatim>\<open>str_session_getcwd\<close> removes every occurrence of the root, so below a directory that repeats it the
  two paths differ (\<open>root_repeated\<close>).\<close>

theorem cos_path_matches_disk:
  assumes "root_of E = Inr rc" and "cstr (texts E (trace w) (Sys ''getcwd'' [] [])) = get_user_root_dir rc @ d"
    and "\<not> sublist (get_user_root_dir rc) d" and "d = [] \<or> last d \<noteq> CHR ''/''"
    and "d = [] \<longrightarrow> last (get_user_root_dir rc) \<noteq> CHR ''/''" and "NUL \<notin> set (get_user_root_dir rc)"
  shows "\<exists>p. get_cos_path_from_disk_path E arg w = (Inr p, w) \<and>
     prepend_session_path_to_filename rc (get_user_root_dir rc @ d) arg = get_user_root_dir rc @ p"
proof (cases "arg = [] \<or> hd arg \<noteq> CHR ''/''")
  case True
  have "str_session_getcwd rc (get_user_root_dir rc @ d) = d"
    unfolding str_session_getcwd_def using assms(3,6) by (intro replace_prefix) (auto simp: root_not_Nil)
  moreover have "cwd_prefix (get_user_root_dir rc @ d) = get_user_root_dir rc @ d @ ''/''"
    using assms(4,5) by (cases "d = []") (auto simp: cwd_prefix_def root_not_Nil)
  ultimately show ?thesis using True assms(1,2)
    by (auto simp: get_cos_path_from_disk_path_def str_getcwd_def act_defs prepend_session_path_to_filename_def)
qed (simp add: get_cos_path_from_disk_path_def prepend_session_path_to_filename_def ret_def)

theorem cos_path_matches_disk_witness:
  "\<exists>p. get_cos_path_from_disk_path
      (plain_env\<lparr>tun := tunables_load_defaults\<lparr>tstr := (\<lambda>n. Some ''x'')\<rparr>, texts := (\<lambda>tr e. ''x/x/x/d'')\<rparr>) ''f''
      (world_with blank_session []) = (Inr p, world_with blank_session []) \<and>
    prepend_session_path_to_filename \<lparr>user_home_dir = ''x'', cos_appid = ''x'', cos_bucket = ''x''\<rparr> ''x/x/x/d'' ''f'' =
      ''x/x/x'' @ p"
proof -
  let ?rc = "\<lparr>user_home_dir = ''x'', cos_appid = ''x'', cos_bucket = ''x''\<rparr>"
  have "get_user_root_dir ?rc = ''x/x/x''" by (simp add: get_user_root_dir_def)
  moreover have "\<not> sublist ''x/x/x'' ''/d''" by (auto dest!: sublist_length_le)
  ultimately show ?thesis
    using cos_path_matches_disk [of "plain_env\<lparr>tun := tunables_load_defaults\<lparr>tstr := (\<lambda>n. Some ''x'')\<rparr>,
        texts := (\<lambda>tr e. ''x/x/x/d'')\<rparr>" ?rc "world_with blank_session []" "''/d''" "''f''"]
    by (simp add: root_of_def)
qed

text \<open>A client that makes the directories \<^verbatim>\<open>e/d/1/b\<close> below its root \<^verbatim>\<open>/d/1/b\<close> and changes to the last of them
  stores its files under \<^verbatim>\<open>/e\<close>.\<close>

lemma root_repeated:
  "get_user_root_dir demo_root = ''/d/1/b'' \<and> str_session_getcwd demo_root ''/d/1/b/e/d/1/b'' = ''/e'' \<and>
   prepend_session_path_to_filename demo_root ''/d/1/b/e/d/1/b'' ''f'' = ''/d/1/b/e/d/1/b/f''"
  by code_simp

end
