(* ===== verification/Privops.thy ===== *)
theory Privops
  imports Cos
begin

text \<open>
  \<^verbatim>\<open>privops.c\<close>: the operations a session process asks of its privileged half, on the session and the
  events of \<open>World\<close>. Sockets are numbers the environment hands out; an address in an event is its
  16-byte form and its port. The wrappers of \<^verbatim>\<open>sysutil.c\<close> that end the process when a system call
  fails are written out with it.
\<close>

unbundle bit_operations_syntax

datatype EVSFPrivopLoginResult = kVSFLoginNull | kVSFLoginFail | kVSFLoginAnon | kVSFLoginReal

section \<open>System calls\<close>

definition kVSFSysUtilErrADDRINUSE :: int where "kVSFSysUtilErrADDRINUSE = 2"
definition kVSFSysUtilErrACCES :: int where "kVSFSysUtilErrACCES = 7"

definition vsf_sysutil_get_error :: "env \<Rightarrow> int act" where
  "vsf_sysutil_get_error E = ask E (Sys ''vsf_sysutil_get_error'' [] [])"

text \<open>A call after which the process dies unless it returned 0.\<close>

definition or_die :: "env \<Rightarrow> event \<Rightarrow> string \<Rightarrow> unit act" where
  "or_die E e msg = bnd (sys E e) (\<lambda>retval. if retval \<noteq> 0 then lift (die msg) else ret ())"

definition vsf_sysutil_get_ipv4_sock :: "env \<Rightarrow> int act" where
  "vsf_sysutil_get_ipv4_sock E =
     bnd (sys E (Sys ''socket'' [] [4])) (\<lambda>retval. if retval < 0 then lift (die ''socket'') else ret retval)"

definition vsf_sysutil_get_ipv6_sock :: "env \<Rightarrow> int act" where
  "vsf_sysutil_get_ipv6_sock E =
     bnd (sys E (Sys ''socket'' [] [6])) (\<lambda>retval. if retval < 0 then lift (die ''socket'') else ret retval)"

fun vsf_sysutil_get_ipsock :: "env \<Rightarrow> sockaddr \<Rightarrow> int act" where
  "vsf_sysutil_get_ipsock E (Sockaddr_in a p) = vsf_sysutil_get_ipv4_sock E"
| "vsf_sysutil_get_ipsock E (Sockaddr_in6 a p s) = vsf_sysutil_get_ipv6_sock E"
| "vsf_sysutil_get_ipsock E (Sockaddr_other f) = lift (bug ''bad family'')"

definition vsf_sysutil_close :: "env \<Rightarrow> int \<Rightarrow> unit act" where
  "vsf_sysutil_close E fd = or_die E (Sys ''close'' [] [fd]) ''close''"

definition vsf_sysutil_activate_reuseaddr :: "env \<Rightarrow> int \<Rightarrow> unit act" where
  "vsf_sysutil_activate_reuseaddr E fd = or_die E (Sys ''reuseaddr'' [] [fd]) ''setsockopt: reuseaddr''"

definition addr_event :: "string \<Rightarrow> int list \<Rightarrow> sockaddr \<Rightarrow> 16 word \<Rightarrow> event" where
  "addr_event f ns a port = Sys f [canon a] (ns @ [uint port])"

definition vsf_sysutil_bind :: "env \<Rightarrow> int \<Rightarrow> sockaddr \<Rightarrow> int act" where
  "vsf_sysutil_bind E fd p_sockaddr =
     (case vsf_sysutil_sockaddr_get_port p_sockaddr of
        Inl f \<Rightarrow> lift (die ''can only support ipv4 and ipv6 currently'')
      | Inr port \<Rightarrow> sys E (addr_event ''bind'' [fd] p_sockaddr port))"

definition vsf_sysutil_listen :: "env \<Rightarrow> int \<Rightarrow> int act" where
  "vsf_sysutil_listen E fd =
     bnd (sys E (Sys ''listen'' [] [fd, 1])) (\<lambda>retval.
     bnd (vsf_sysutil_get_error E) (\<lambda>err.
     if vsf_sysutil_retval_is_error retval \<and> err \<noteq> kVSFSysUtilErrADDRINUSE then lift (die ''listen'')
     else ret retval))"

definition vsf_sysutil_connect_timeout :: "env \<Rightarrow> int \<Rightarrow> sockaddr \<Rightarrow> 32 word \<Rightarrow> int act" where
  "vsf_sysutil_connect_timeout E fd p_addr wait_seconds =
     (case vsf_sysutil_sockaddr_get_port p_addr of
        Inl f \<Rightarrow> lift (die ''can only support ipv4 and ipv6 currently'')
      | Inr port \<Rightarrow> sys E (addr_event ''connect'' [fd, uint wait_seconds] p_addr port))"

text \<open>The address of the peer of an accepted connection, by the size of its raw form.\<close>

definition peer_of :: "bytes \<Rightarrow> sockaddr" where
  "peer_of raw = (if length raw = 4 then Sockaddr_in raw 0
     else if length raw = 16 then Sockaddr_in6 raw 0 0 else Sockaddr_other (length raw))"

definition vsf_sysutil_accept_timeout :: "env \<Rightarrow> int \<Rightarrow> 32 word \<Rightarrow> (int \<times> sockaddr) act" where
  "vsf_sysutil_accept_timeout E fd wait_seconds =
     (let e = Sys ''accept'' [] [fd, uint wait_seconds] in
      bnd (ask_text E e) (\<lambda>raw.
      bnd (sys E e) (\<lambda>retval.
      if retval < 0 then ret (- 1, Sockaddr_other 0)
      else if \<not> wf_addr (peer_of raw) then lift (die ''can only support ipv4 and ipv6 currently'')
      else ret (retval, peer_of raw))))"

text \<open>The four bytes of \<^verbatim>\<open>rand()\<close> combined.\<close>

definition vsf_sysutil_get_random_byte :: "env \<Rightarrow> 8 word act" where
  "vsf_sysutil_get_random_byte E =
     bnd (sys E (Sys ''rand'' [] [])) (\<lambda>r.
     let u = word_of_int r :: 32 word
     in ret (ucast u XOR ucast (drop_bit 8 u) XOR ucast (drop_bit 16 u) XOR ucast (drop_bit 24 u)))"

definition vsf_sysutil_sleep :: "int list \<Rightarrow> unit act" where
  "vsf_sysutil_sleep secs = emit (Sys ''sleep'' [] secs)"

section \<open>Data connections\<close>

text \<open>The loop around \<^verbatim>\<open>bind\<close>: a second try after a pause of one second and a random fraction.\<close>

fun bind_loop :: "env \<Rightarrow> int \<Rightarrow> 16 word \<Rightarrow> nat \<Rightarrow> unit act" where
  "bind_loop E s port 0 = ret ()"
| "bind_loop E s port (Suc left) =
     bnd (gets p_local_addr) (\<lambda>l.
     bnd (lift (vsf_sysutil_sockaddr_clone l)) (\<lambda>a0.
     bnd (lift (vsf_sysutil_sockaddr_set_port a0 port)) (\<lambda>p_sockaddr.
     bnd (vsf_sysutil_bind E s p_sockaddr) (\<lambda>retval.
     if retval = 0 then ret ()
     else bnd (vsf_sysutil_get_error E) (\<lambda>err.
       if err \<noteq> kVSFSysUtilErrADDRINUSE \<or> left = 0 then lift (die ''vsf_sysutil_bind'')
       else bnd (vsf_sysutil_get_random_byte E) (\<lambda>r.
         thn (vsf_sysutil_sleep [1, uint r]) (bind_loop E s port left)))))))"

definition vsf_privop_get_ftp_port_sock :: "env \<Rightarrow> 16 word \<Rightarrow> bool \<Rightarrow> int act" where
  "vsf_privop_get_ftp_port_sock E remote_port use_port_sockaddr =
     bnd (gets p_local_addr) (\<lambda>l.
     bnd (vsf_sysutil_get_ipsock E l) (\<lambda>s.
     bnd (gets pasv_listen_fd) (\<lambda>pfd.
     if pfd \<noteq> - 1 then lift (die ''listed fd is active?'')
     else if vsf_sysutil_is_port_reserved remote_port then lift (die ''Illegal port request'')
     else
       let port = (if tb E ''connect_from_port_20'' then ucast (tu E ''ftp_data_port'') else 0) in
       thn (vsf_sysutil_activate_reuseaddr E s)
       (thn (bind_loop E s port 2)
       (bnd (if use_port_sockaddr then gets p_port_sockaddr
             else bnd (gets p_remote_addr) (\<lambda>r.
                  bnd (lift (vsf_sysutil_sockaddr_set_port r remote_port)) (\<lambda>r'.
                  thn (upd (p_remote_addr_update (\<lambda>_. r'))) (ret (Some r'))))) (\<lambda>p_connect_to.
        case p_connect_to of
          None \<Rightarrow> raise Segv
        | Some a \<Rightarrow>
            bnd (vsf_sysutil_connect_timeout E s a (tu E ''connect_timeout'')) (\<lambda>retval.
            if vsf_sysutil_retval_is_error retval then thn (vsf_sysutil_close E s) (ret (- 1))
            else ret s)))))))"

definition vsf_privop_pasv_cleanup :: "env \<Rightarrow> unit act" where
  "vsf_privop_pasv_cleanup E =
     bnd (gets pasv_listen_fd) (\<lambda>fd.
     doif (fd \<noteq> - 1) (steps [vsf_sysutil_close E fd, upd (pasv_listen_fd_update (\<lambda>_. - 1))]))"

definition vsf_privop_pasv_active :: "int act" where
  "vsf_privop_pasv_active = bnd (gets pasv_listen_fd) (\<lambda>fd. ret (if fd \<noteq> - 1 then 1 else 0))"

text \<open>The range of passive ports, and a random port of it. The products of the source are exact in
  double precision.\<close>

definition port_range :: "env \<Rightarrow> 16 word \<times> 16 word" where
  "port_range E =
     (let min_port = (if tu E ''pasv_min_port'' > 1024 \<and> tu E ''pasv_min_port'' \<le> 65535
                      then ucast (tu E ''pasv_min_port'') else 1024);
          max_port = (if tu E ''pasv_max_port'' \<ge> ucast min_port \<and> tu E ''pasv_max_port'' < 65535
                      then ucast (tu E ''pasv_max_port'') else 65535)
      in (min_port, max_port))"

definition scale_port :: "16 word \<Rightarrow> 16 word \<Rightarrow> 16 word \<Rightarrow> 16 word" where
  "scale_port min_port max_port the_port =
     word_of_nat (unat min_port + unat the_port * (unat max_port - unat min_port + 1) div 65536)"

definition listen_on :: "env \<Rightarrow> sockaddr \<Rightarrow> int \<Rightarrow> 16 word \<Rightarrow> int act" where
  "listen_on E l fd the_port =
     thn (vsf_sysutil_activate_reuseaddr E fd)
     (bnd (lift (vsf_sysutil_sockaddr_clone l)) (\<lambda>a0.
      bnd (lift (vsf_sysutil_sockaddr_set_port a0 the_port)) (\<lambda>s_p_sockaddr.
      bnd (vsf_sysutil_bind E fd s_p_sockaddr) (\<lambda>retval.
      if vsf_sysutil_retval_is_error retval then ret retval else vsf_sysutil_listen E fd))))"

fun pasv_listen_loop :: "env \<Rightarrow> nat \<Rightarrow> (16 word) act" where
  "pasv_listen_loop E 0 = lift (die ''vsf_sysutil_bind'')"
| "pasv_listen_loop E (Suc bind_retries) =
     bnd (vsf_sysutil_get_random_byte E) (\<lambda>hi.
     bnd (vsf_sysutil_get_random_byte E) (\<lambda>lo.
     let the_port = scale_port (fst (port_range E)) (snd (port_range E)) (push_bit 8 (ucast hi) OR ucast lo) in
     bnd (gets p_local_addr) (\<lambda>l.
     bnd (if vsf_sysutil_sockaddr_is_ipv6 l then vsf_sysutil_get_ipv6_sock E
          else vsf_sysutil_get_ipv4_sock E) (\<lambda>fd.
     thn (upd (pasv_listen_fd_update (\<lambda>_. fd)))
     (bnd (listen_on E l fd the_port) (\<lambda>retval.
      if \<not> vsf_sysutil_retval_is_error retval then ret the_port
      else bnd (vsf_sysutil_get_error E) (\<lambda>err.
        if err = kVSFSysUtilErrADDRINUSE \<or> err = kVSFSysUtilErrACCES then
          thn (vsf_sysutil_close E fd)
          (thn (upd (pasv_listen_fd_update (\<lambda>_. - 1))) (pasv_listen_loop E bind_retries))
        else lift (die ''vsf_sysutil_bind / listen''))))))))"

text \<open>\<^verbatim>\<open>while (--bind_retries)\<close> from 10: nine tries.\<close>

definition vsf_privop_pasv_listen :: "env \<Rightarrow> (16 word) act" where
  "vsf_privop_pasv_listen E =
     bnd (gets pasv_listen_fd) (\<lambda>fd.
     if fd \<noteq> - 1 then lift (die ''listed fd already active'') else pasv_listen_loop E 9)"

definition vsf_privop_accept_pasv :: "env \<Rightarrow> int act" where
  "vsf_privop_accept_pasv E =
     bnd (gets pasv_listen_fd) (\<lambda>fd.
     if fd = - 1 then lift (die ''listed fd not active'')
     else bnd (vsf_sysutil_accept_timeout E fd (tu E ''accept_timeout'')) (\<lambda>(remote_fd, p_accept_addr).
       if vsf_sysutil_retval_is_error remote_fd then ret (- 1)
       else bnd (gets p_remote_addr) (\<lambda>r.
         if \<not> tb E ''pasv_promiscuous'' \<and> \<not> vsf_sysutil_sockaddr_addr_equal r p_accept_addr
         then thn (vsf_sysutil_close E remote_fd) (ret (- 2))
         else ret remote_fd)))"

section \<open>Ownership of uploads\<close>

definition vsf_privop_do_file_chown :: "env \<Rightarrow> int \<Rightarrow> unit act" where
  "vsf_privop_do_file_chown E fd =
     thn (or_die E (Sys ''fstat'' [] [fd]) ''fstat'')
     (bnd (ask E (Sys ''st_uid'' [] [fd])) (\<lambda>uid.
      bnd (ask E (Sys ''st_mode'' [] [fd])) (\<lambda>mode.
      bnd (gets (\<lambda>s. (anon_upload_chown_uid s, anon_ftp_uid s, guest_user_uid s))) (\<lambda>(to_uid, anon, guest).
      if uid = to_uid then ret ()
      else if to_uid = - 1 \<or> \<not> vsf_sysutil_statbuf_is_regfile (word_of_int mode) \<or>
              (uid \<noteq> anon \<and> uid \<noteq> guest)
      then lift (die ''invalid fd in cmd_process_chown'')
      else or_die E (Sys ''fchown'' [] [fd, to_uid, - 1]) ''fchown''))))"

section \<open>Login\<close>

definition setup_username_globals :: "env \<Rightarrow> bytes \<Rightarrow> unit act" where
  "setup_username_globals E p_str = steps
     [upd (user_str_update (\<lambda>_. p_str)),
      bnd (gets remote_ip_str) (\<lambda>ip.
      doif (tb E ''setproctitle_enable'')
        (emit (Sys ''vsf_sysutil_set_proctitle_prefix'' [ip @ ''/'' @ p_str] [])))]"

definition handle_anonymous_login :: "env \<Rightarrow> bytes \<Rightarrow> EVSFPrivopLoginResult act" where
  "handle_anonymous_login E p_pass_str =
     bnd (gets banned_email_str) (\<lambda>banned.
     bnd (if banned \<noteq> [] then lift (str_contains_line banned p_pass_str) else ret False) (\<lambda>is_banned.
     if is_banned then ret kVSFLoginFail
     else bnd (gets email_passwords_str) (\<lambda>emails.
     bnd (if emails \<noteq> [] then lift (str_contains_line emails p_pass_str) else ret True) (\<lambda>listed.
     if emails \<noteq> [] \<and> (\<not> listed \<or> p_pass_str = []) then ret kVSFLoginFail
     else
       let pass = (if p_pass_str = [] then ''?'' else p_pass_str) in
       thn (steps
         [upd (anon_pass_str_update (\<lambda>_. v_replace_char (v_replace_char pass CHR '' '' CHR ''_'') LF CHR ''?'')),
          setup_username_globals E (case ts E ''ftp_username'' of None \<Rightarrow> [] | Some u \<Rightarrow> cstr u),
          upd (permissions_update (\<lambda>_. Global_WRITE OR Global_READ)),
          upd (banned_email_str_update (\<lambda>_. [])),
          upd (email_passwords_str_update (\<lambda>_. []))])
       (ret kVSFLoginAnon)))))"

definition handle_local_login :: "env \<Rightarrow> bytes \<Rightarrow> bytes \<Rightarrow> EVSFPrivopLoginResult act" where
  "handle_local_login E p_user_str p_pass_str =
     (case cos_handle_login (ts E ''login_users'') p_user_str p_pass_str of
        None \<Rightarrow> ret kVSFLoginFail
      | Some perms \<Rightarrow>
          thn (steps [upd (permissions_update (\<lambda>_. perms)), setup_username_globals E p_user_str])
          (ret kVSFLoginReal))"

definition VSFTP_USERNAME_MAX :: nat where "VSFTP_USERNAME_MAX = 128"
definition VSFTP_PASSWORD_MAX :: nat where "VSFTP_PASSWORD_MAX = 128"

text \<open>The screening of names and passwords before they are looked up.\<close>

definition acceptable :: "bytes \<Rightarrow> bytes \<Rightarrow> bool" where
  "acceptable p_user_str p_pass_str \<longleftrightarrow>
     \<not> (length p_user_str = 0 \<or> length p_user_str > VSFTP_USERNAME_MAX) \<and>
     \<not> (\<not> vsf_sysutil_isalnum (hd p_user_str) \<and> hd p_user_str \<noteq> CHR ''_'' \<and> hd p_user_str \<noteq> CHR ''.'') \<and>
     \<not> (str_contains_space p_user_str \<or> str_contains_unprintable p_user_str) \<and>
     \<not> length p_pass_str > VSFTP_PASSWORD_MAX"

definition handle_login :: "env \<Rightarrow> bytes \<Rightarrow> bytes \<Rightarrow> EVSFPrivopLoginResult act" where
  "handle_login E p_user_str p_pass_str =
     (if \<not> acceptable p_user_str p_pass_str then ret kVSFLoginFail
      else
        let upper_str = v_upper p_user_str;
            anonymous_login = tb E ''anonymous_enable'' \<and> (upper_str = ''FTP'' \<or> upper_str = ''ANONYMOUS'')
        in if anonymous_login then handle_anonymous_login E p_pass_str
           else if \<not> tb E ''local_enable'' then lift (die ''unexpected local login in handle_login'')
           else handle_local_login E p_user_str p_pass_str)"

definition log_login :: "env \<Rightarrow> EVSFPrivopLoginResult \<Rightarrow> unit act" where
  "log_login E result =
     thn (vsf_log_start_entry E kVSFLogEntryLogin)
     (if result = kVSFLoginFail
      then steps [vsf_log_do_log E False,
                  doif (tu E ''delay_failed_login'' \<noteq> 0) (vsf_sysutil_sleep [uint (tu E ''delay_failed_login'')])]
      else steps [vsf_log_do_log E True,
                  doif (tu E ''delay_successful_login'' \<noteq> 0)
                    (vsf_sysutil_sleep [uint (tu E ''delay_successful_login'')])])"

definition vsf_privop_do_login :: "env \<Rightarrow> bytes \<Rightarrow> EVSFPrivopLoginResult act" where
  "vsf_privop_do_login E p_pass_str =
     bnd (gets user_str) (\<lambda>user.
     bnd (handle_login E user p_pass_str) (\<lambda>result. thn (log_login E result) (ret result)))"

section \<open>Lemmas\<close>

lemma scale_port_range:
  assumes "min_port \<le> max_port"
  shows "min_port \<le> scale_port min_port max_port p" and "scale_port min_port max_port p \<le> max_port"
proof -
  let ?a = "unat min_port" and ?b = "unat max_port" and ?p = "unat p"
  have ab: "?a \<le> ?b" "?b < 65536" "?p < 65536"
    using assms unsigned_less [of max_port] unsigned_less [of p] by (simp_all add: word_le_nat_alt)
  have "?p * (?b - ?a + 1) div 65536 \<le> ?b - ?a"
  proof -
    have "?p * (?b - ?a + 1) < 65536 * (?b - ?a + 1)" using ab by (intro mult_strict_right_mono) auto
    then show ?thesis by (simp add: less_mult_imp_div_less mult.commute Suc_leI less_Suc_eq_le [symmetric])
  qed
  then have le: "?a + ?p * (?b - ?a + 1) div 65536 \<le> ?b" using ab by linarith
  then have "unat (scale_port min_port max_port p) = ?a + ?p * (?b - ?a + 1) div 65536"
    unfolding scale_port_def unsigned_of_nat of_nat_id using ab by (intro take_bit_nat_eq_self) simp
  with le show "min_port \<le> scale_port min_port max_port p" "scale_port min_port max_port p \<le> max_port"
    by (simp_all add: word_le_nat_alt)
qed

lemma port_range_ordered: "fst (port_range E) \<le> snd (port_range E)" "1024 \<le> fst (port_range E)"
proof -
  let ?lo = "tu E ''pasv_min_port''" and ?hi = "tu E ''pasv_max_port''"
  have small: "unat (ucast x :: 16 word) = unat x" if "x \<le> 65535" for x :: "32 word"
    using that by (simp add: unsigned_ucast_eq word_le_nat_alt unsigned_take_bit_eq take_bit_nat_eq_self)
  have up: "unat (ucast x :: 32 word) = unat x" for x :: "16 word"
    using unsigned_less [of x, where ?'a = nat]
    by (simp add: unsigned_ucast_eq unsigned_take_bit_eq take_bit_nat_eq_self)
  show "1024 \<le> fst (port_range E)"
    using small [of ?lo] by (auto simp: port_range_def Let_def word_le_nat_alt word_less_nat_alt)
  have "fst (port_range E) \<le> 65535"
    using unsigned_less [of "fst (port_range E)", where ?'a = nat] by (simp add: word_le_nat_alt)
  then show "fst (port_range E) \<le> snd (port_range E)"
    using small [of ?hi] up
    by (auto simp: port_range_def Let_def word_le_nat_alt word_less_nat_alt)
qed

lemma wp_or_die [wp_simps]:
  "wp (or_die E e msg) Q X w =
     (let w' = w\<lparr>trace := trace w @ [e]\<rparr> in if answers E (trace w) e = 0 then Q () w' else X (Oops msg) w')"
  by (simp add: or_die_def wp_simps die_def bug_def Let_def)

lemma wp_random_byte: "(\<And>b. Q b (w\<lparr>trace := trace w @ [Sys ''rand'' [] []]\<rparr>)) \<Longrightarrow> wp (vsf_sysutil_get_random_byte E) Q X w"
  by (simp add: vsf_sysutil_get_random_byte_def wp_simps Let_def)

lemma wp_sock:
  assumes "\<And>fd e. 0 \<le> fd \<Longrightarrow> Q fd (w\<lparr>trace := trace w @ [e]\<rparr>)" and "\<And>f v. X f v"
  shows "wp (if b then vsf_sysutil_get_ipv6_sock E else vsf_sysutil_get_ipv4_sock E) Q X w"
  using assms by (simp_all add: vsf_sysutil_get_ipv4_sock_def vsf_sysutil_get_ipv6_sock_def wp_simps die_def bug_def)

lemma wp_bndI: "wp m (\<lambda>a. wp (k a) Q X) X w \<Longrightarrow> wp (bnd m k) Q X w"
  by (simp add: wp_bnd)

text \<open>The passive socket as the client will find it: bound to the local address and listening.\<close>

definition listening :: "env \<Rightarrow> vsf_session \<Rightarrow> 16 word \<Rightarrow> world \<Rightarrow> bool" where
  "listening E s port w \<longleftrightarrow> (\<exists>fd tr.
     let b = addr_event ''bind'' [fd] (p_local_addr s) port; l = Sys ''listen'' [] [fd, 1]
     in 0 \<le> fd \<and> sess w = s\<lparr>pasv_listen_fd := fd\<rparr> \<and> trace w = tr @ [b, l] \<and>
        0 \<le> answers E tr b \<and> 0 \<le> answers E (tr @ [b]) l)"

lemma listen_on_wp:
  assumes "p_local_addr s = l" and "0 \<le> fd" and "sess w = s\<lparr>pasv_listen_fd := fd\<rparr>"
  shows "wp (listen_on E l fd port) (\<lambda>r w'. sess w' = sess w \<and> (0 \<le> r \<longrightarrow> listening E s port w')) (\<lambda>_ _. True) w"
  using assms
  by (cases l) (auto simp: listen_on_def wp_simps die_def bug_def Let_def vsf_sysutil_activate_reuseaddr_def
      vsf_sysutil_bind_def vsf_sysutil_listen_def vsf_sysutil_get_error_def vsf_sysutil_retval_is_error_def
      listening_def addr_event_def intro!: exI [where x = "trace w @ [Sys ''reuseaddr'' [] [fd]]"])

lemma pasv_listen_loop_wp:
  "wp (pasv_listen_loop E n)
     (\<lambda>port w'. listening E (sess w) port w' \<and> fst (port_range E) \<le> port \<and> port \<le> snd (port_range E))
     (\<lambda>_ _. True) w"
proof (induction n arbitrary: w)
  case (Suc n)
  let ?Q = "\<lambda>port w'. listening E (sess w) port w' \<and> fst (port_range E) \<le> port \<and> port \<le> snd (port_range E)"
  have IH: "wp (pasv_listen_loop E n) ?Q (\<lambda>_ _. True) v" if "sess v = (sess w)\<lparr>pasv_listen_fd := - 1\<rparr>" for v
    using Suc [of v] that by (simp add: listening_def)
  note range = scale_port_range [OF port_range_ordered(1)]
  have "wp (bnd (listen_on E l fd port) (\<lambda>retval. if \<not> vsf_sysutil_retval_is_error retval then ret port
      else bnd (vsf_sysutil_get_error E) (\<lambda>err. if err = kVSFSysUtilErrADDRINUSE \<or> err = kVSFSysUtilErrACCES then
          thn (vsf_sysutil_close E fd) (thn (upd (pasv_listen_fd_update (\<lambda>_. - 1))) (pasv_listen_loop E n))
        else lift (die ''vsf_sysutil_bind / listen'')))) ?Q (\<lambda>_ _. True) v"
    if "p_local_addr (sess w) = l" "0 \<le> fd" "sess v = (sess w)\<lparr>pasv_listen_fd := fd\<rparr>"
      "fst (port_range E) \<le> port" "port \<le> snd (port_range E)" for l fd port v
    unfolding wp_bnd
    by (rule wp_mono [OF listen_on_wp [OF that(1-3)]])
      (use that(3-5) in \<open>auto simp: wp_simps vsf_sysutil_retval_is_error_def vsf_sysutil_get_error_def
        vsf_sysutil_close_def die_def bug_def Let_def intro!: IH\<close>)
  note rest = this
  show ?case
    unfolding pasv_listen_loop.simps Let_def
    by (intro wp_bndI wp_random_byte, unfold wp_basic, rule wp_bndI, rule wp_sock, unfold wp_thn wp_basic)
      (rule rest, simp_all add: range)
qed (simp add: wp_simps die_def bug_def)

text \<open>How often a session has tried to bind a socket.\<close>

definition binds :: "event list \<Rightarrow> nat" where
  "binds tr = length (filter (\<lambda>e. case e of Sys f _ _ \<Rightarrow> f = ''bind'' | _ \<Rightarrow> False) tr)"

lemma binds_simps [simp]:
  "binds [] = 0" "binds (Sys f as ns # tr) = (if f = ''bind'' then 1 else 0) + binds tr" "binds (a @ b) = binds a + binds b"
  by (simp_all add: binds_def)

lemma listen_on_binds:
  "wp (listen_on E l fd port) (\<lambda>_ w'. binds (trace w') = binds (trace w) + 1)
     (\<lambda>f w'. binds (trace w') \<le> binds (trace w) + 1 \<and> f \<noteq> Oops ''vsf_sysutil_bind'') w"
  by (cases l) (auto simp: listen_on_def wp_simps die_def bug_def Let_def vsf_sysutil_activate_reuseaddr_def
      vsf_sysutil_bind_def vsf_sysutil_listen_def vsf_sysutil_get_error_def vsf_sysutil_retval_is_error_def addr_event_def)

lemma pasv_listen_loop_binds:
  "wp (pasv_listen_loop E n) (\<lambda>_ w'. binds (trace w') \<le> binds (trace w) + n)
     (\<lambda>f w'. binds (trace w') \<le> binds (trace w) + n \<and>
        (f = Oops ''vsf_sysutil_bind'' \<longrightarrow> binds (trace w') = binds (trace w) + n)) w"
proof (induction n arbitrary: w)
  case (Suc n)
  let ?Q = "\<lambda>_ w'. binds (trace w') \<le> binds (trace w) + Suc n"
  let ?X = "\<lambda>f w'. ?Q () w' \<and> (f = Oops ''vsf_sysutil_bind'' \<longrightarrow> binds (trace w') = binds (trace w) + Suc n)"
  have IH: "wp (pasv_listen_loop E n) ?Q ?X v" if "binds (trace v) = Suc (binds (trace w))" for v
    by (rule wp_mono [OF Suc]) (use that in simp_all)
  have rest: "wp (bnd (listen_on E l fd port) (\<lambda>retval. if \<not> vsf_sysutil_retval_is_error retval then ret port
      else bnd (vsf_sysutil_get_error E) (\<lambda>err. if err = kVSFSysUtilErrADDRINUSE \<or> err = kVSFSysUtilErrACCES then
          thn (vsf_sysutil_close E fd) (thn (upd (pasv_listen_fd_update (\<lambda>_. - 1))) (pasv_listen_loop E n))
        else lift (die ''vsf_sysutil_bind / listen'')))) ?Q ?X v" if "binds (trace v) = binds (trace w)" for l fd port v
    unfolding wp_bnd
    by (rule wp_mono [OF listen_on_binds])
      (use that in \<open>auto simp: wp_simps vsf_sysutil_get_error_def vsf_sysutil_close_def die_def bug_def Let_def intro!: IH [simplified]\<close>)
  have byte: "wp (vsf_sysutil_get_random_byte E) R X u" if "\<And>a v. binds (trace v) = binds (trace u) \<Longrightarrow> R a v" for R X u
    by (simp add: vsf_sysutil_get_random_byte_def wp_simps Let_def that)
  have sock: "wp (if b then vsf_sysutil_get_ipv6_sock E else vsf_sysutil_get_ipv4_sock E) R ?X u"
    if "binds (trace u) = binds (trace w)" "\<And>a v. binds (trace v) = binds (trace w) \<Longrightarrow> R a v" for R b u
    using that by (simp add: vsf_sysutil_get_ipv6_sock_def vsf_sysutil_get_ipv4_sock_def wp_simps die_def bug_def Let_def)
  show ?case
    unfolding pasv_listen_loop.simps Let_def
    by (intro wp_bndI byte, unfold wp_basic, rule wp_bndI, rule sock, simp, unfold wp_thn wp_basic) (rule rest, simp)
qed (simp add: wp_simps die_def bug_def)

lemma wp_Inr: "wp m Q X w \<Longrightarrow> m w = (Inr a, w') \<Longrightarrow> Q a w'"
  by (simp add: wp_def)

lemma wp_returns: "wp m (\<lambda>_ _. True) (\<lambda>_ _. False) w \<Longrightarrow> \<exists>a w'. m w = (Inr a, w')"
  by (cases "m w"; cases "fst (m w)") (simp_all add: wp_def)

lemma ucast_up: "ucast (ucast x :: 16 word) = (x :: 32 word)" if "x \<le> 65535"
proof -
  have "unat (ucast (ucast x :: 16 word) :: 32 word) = unat x"
    using that by (simp add: unsigned_ucast_eq unsigned_take_bit_eq word_le_nat_alt take_bit_nat_eq_self)
  then show ?thesis by (simp only: word_unat_eq_iff)
qed

lemma ucast_le: "ucast (a :: 16 word) \<le> (ucast b :: 32 word) \<longleftrightarrow> a \<le> b"
  by (simp add: word_le_nat_alt unsigned_ucast_eq unsigned_take_bit_eq take_bit_nat_eq_self
      unsigned_less [where ?'a = nat, THEN less_trans])

lemma wp_total: "wp m Q (\<lambda>_ _. False) w \<Longrightarrow> \<exists>a w'. m w = (Inr a, w') \<and> Q a w'"
  by (cases "m w"; cases "fst (m w)") (simp_all add: wp_def)

text \<open>What a login may have done to the session when it returned \<open>r\<close>.\<close>

definition granted :: "env \<Rightarrow> vsf_session \<Rightarrow> bytes \<Rightarrow> EVSFPrivopLoginResult \<Rightarrow> vsf_session \<Rightarrow> bool" where
  "granted E s pass r s' \<longleftrightarrow>
     (case r of
        kVSFLoginNull \<Rightarrow> False
      | kVSFLoginFail \<Rightarrow> permissions s' = permissions s \<and> user_str s' = user_str s
      | kVSFLoginAnon \<Rightarrow> acceptable (user_str s) pass \<and> tb E ''anonymous_enable'' \<and>
          v_upper (user_str s) \<in> {''FTP'', ''ANONYMOUS''} \<and>
          (banned_email_str s \<noteq> [] \<longrightarrow> pass \<notin> set (v_lines (banned_email_str s))) \<and>
          (email_passwords_str s \<noteq> [] \<longrightarrow> pass \<noteq> [] \<and> pass \<in> set (v_lines (email_passwords_str s))) \<and>
          anon_pass_str s' \<noteq> [] \<and> set (anon_pass_str s') \<inter> {CHR '' '', LF} = {} \<and> permissions s' = 3
      | kVSFLoginReal \<Rightarrow> acceptable (user_str s) pass \<and>
          cos_handle_login (ts E ''login_users'') (user_str s) pass = Some (permissions s') \<and>
          user_str s' = user_str s)"

definition login_ok :: "env \<Rightarrow> vsf_session \<Rightarrow> bytes \<Rightarrow> EVSFPrivopLoginResult \<Rightarrow> vsf_session \<Rightarrow> bool" where
  "login_ok E s pass r s' \<longleftrightarrow> granted E s pass r s' \<and> log_type s' = None"

lemma granted_log:
  "granted E s pass r (t\<lparr>log_type := lt, log_start_sec := a, log_start_usec := b, transfer_size := c, log_str := d\<rparr>) \<longleftrightarrow>
   granted E s pass r t"
  by (simp add: granted_def split: EVSFPrivopLoginResult.split)

lemma wp_setup_username:
  "(\<And>w'. sess w' = (sess w)\<lparr>user_str := u\<rparr> \<Longrightarrow> Q () w') \<Longrightarrow> wp (setup_username_globals E u) Q X w"
  by (simp add: setup_username_globals_def wp_simps)

lemma handle_login_wp:
  assumes "tb E ''local_enable''" "length (banned_email_str (sess w)) \<le> UINT_MAX"
    "length (email_passwords_str (sess w)) \<le> UINT_MAX" "length pass \<le> UINT_MAX"
  shows "wp (handle_login E (user_str (sess w)) pass)
    (\<lambda>r w'. granted E (sess w) pass r (sess w') \<and> log_type (sess w') = log_type (sess w)) (\<lambda>_ _. False) w"
proof -
  have line: "str_contains_line v pass = Inr (pass \<in> set (v_lines v))" if "length v \<le> UINT_MAX" for v
    using contains_line_loop_eq [OF that assms(4), of 0] by (simp add: str_contains_line_def)
  have local_ok: "wp (handle_local_login E (user_str (sess w)) pass)
    (\<lambda>r w'. granted E (sess w) pass r (sess w') \<and> log_type (sess w') = log_type (sess w)) (\<lambda>_ _. False) w"
    if "acceptable (user_str (sess w)) pass"
    using that by (auto simp: handle_local_login_def wp_simps granted_def split: option.splits intro!: wp_setup_username)
  have "wp (handle_anonymous_login E pass)
    (\<lambda>r w'. granted E (sess w) pass r (sess w') \<and> log_type (sess w') = log_type (sess w)) (\<lambda>_ _. False) w"
    if "acceptable (user_str (sess w)) pass" "tb E ''anonymous_enable''" "v_upper (user_str (sess w)) \<in> {''FTP'', ''ANONYMOUS''}"
    using that assms(2,3)
    by (simp add: handle_anonymous_login_def wp_simps line Let_def granted_def)
      (auto simp: wp_simps granted_def Global_READ_def Global_WRITE_def v_replace_char_def intro!: wp_setup_username)
  with local_ok assms(1) show ?thesis
    by (auto simp: handle_login_def wp_simps Let_def granted_def)
qed

lemma wp_log_do_log:
  assumes "log_type (sess w) = Some what" "what \<noteq> kVSFLogEntryNull"
    and "\<And>w'. sess w' = (sess w)\<lparr>log_type := None\<rparr> \<Longrightarrow> Q () w'"
  shows "wp (vsf_log_do_log E ok) Q X w"
  unfolding vsf_log_do_log_def wp_bnd wp_basic prod.case wp_steps assms(1) option.case
  by (rule wp_talks [OF talks_log_common [OF assms(2)]]) (simp_all add: assms(3) wp_simps)

lemma log_login_wp:
  assumes "log_type (sess w) = None"
    and "\<And>w' n. sess w' = (sess w)\<lparr>log_type := None, log_start_sec := 0, log_start_usec := 0, transfer_size := 0,
      log_str := []\<rparr> \<Longrightarrow> Q () w'"
  shows "wp (log_login E result) Q X w"
  unfolding log_login_def vsf_log_start_entry_def
  by (simp add: assms(1) wp_simps vsf_log_type_is_transfer_def vsf_sysutil_sleep_def)
    (auto intro!: wp_log_do_log assms(2) simp: wp_simps vsf_sysutil_sleep_def)

section \<open>Properties\<close>

text \<open>C23: a passive socket listens on an allowed port after at most nine attempts.
  \<^verbatim>\<open>vsf_privop_pasv_listen\<close> binds a socket at most nine times, and exactly nine times when it gives up with
  the message \<^verbatim>\<open>vsf_sysutil_bind\<close>. When it returns a port, no listener was open before, the last two
  system calls bound a fresh socket to the local address with that port and set it listening, both
  with success, the session differs only in the number of the new listener, the port is not a reserved
  one, and it lies in the configured range when the configuration gives a sensible one.\<close>

theorem pasv_listen_in_range:
  assumes "vsf_privop_pasv_listen E w = (r, w')"
  shows "binds (trace w') \<le> binds (trace w) + 9 \<and>
    (r = Inl (Oops ''vsf_sysutil_bind'') \<longrightarrow> binds (trace w') = binds (trace w) + 9) \<and>
    (\<forall>port. r = Inr port \<longrightarrow>
       pasv_listen_fd (sess w) = - 1 \<and> listening E (sess w) port w' \<and> 1024 \<le> port \<and>
       (1024 < tu E ''pasv_min_port'' \<and> tu E ''pasv_min_port'' \<le> tu E ''pasv_max_port'' \<and>
          tu E ''pasv_max_port'' < 65535 \<longrightarrow>
        tu E ''pasv_min_port'' \<le> ucast port \<and> ucast port \<le> tu E ''pasv_max_port''))"
proof (cases "pasv_listen_fd (sess w) = - 1")
  case False
  with assms show ?thesis by (auto simp: vsf_privop_pasv_listen_def act_defs die_def bug_def)
next
  case True
  let ?lo = "tu E ''pasv_min_port''" and ?hi = "tu E ''pasv_max_port''"
  have loop: "pasv_listen_loop E 9 w = (r, w')"
    using assms True by (simp add: vsf_privop_pasv_listen_def act_defs)
  note tries = pasv_listen_loop_binds [of E 9 w, unfolded wp_def loop, simplified]
  show ?thesis
  proof (cases r)
    case (Inl f)
    with tries show ?thesis by simp
  next
    case (Inr port)
    have "fst (port_range E) = ucast ?lo" "snd (port_range E) = ucast ?hi"
      if "1024 < ?lo" "?lo \<le> ?hi" "?hi < 65535"
      using that order_trans [OF that(2) less_imp_le [OF that(3)]] by (simp_all add: port_range_def Let_def ucast_up)
    with Inr tries True wp_Inr [OF pasv_listen_loop_wp loop [unfolded Inr]] port_range_ordered(2) [of E]
      ucast_up [of ?lo] ucast_up [of ?hi] ucast_le [of "ucast ?lo" port] ucast_le [of port "ucast ?hi"]
    show ?thesis by auto
  qed
qed

theorem pasv_listen_in_range_witness:
  "\<exists>port w'. vsf_privop_pasv_listen plain_env (world_with blank_session []) = (Inr port, w') \<and> 1024 \<le> port \<and>
     binds (trace w') \<le> 9"
proof -
  have "wp (vsf_privop_pasv_listen plain_env) (\<lambda>_ _. True) (\<lambda>_ _. False) (world_with blank_session [])"
    by (simp add: vsf_privop_pasv_listen_def pasv_listen_loop.simps(2) [of _ 8, simplified] wp_simps Let_def
        vsf_sysutil_get_random_byte_def listen_on_def vsf_sysutil_get_ipv4_sock_def vsf_sysutil_bind_def
        vsf_sysutil_activate_reuseaddr_def vsf_sysutil_listen_def vsf_sysutil_get_error_def addr_event_def
        vsf_sysutil_retval_is_error_def plain_env_def world_with_def blank_session_def)
  then obtain port w' where r: "vsf_privop_pasv_listen plain_env (world_with blank_session []) = (Inr port, w')"
    using wp_returns by blast
  moreover have "binds (trace (world_with blank_session [])) = 0" by (simp add: binds_def world_with_def)
  ultimately show ?thesis using pasv_listen_in_range [OF r] by auto
qed

text \<open>C24: data connections come from the client's host. A passive connection that
  \<^verbatim>\<open>vsf_privop_accept_pasv\<close> hands out has a peer whose address equals that of the control connection
  unless the configuration allows any peer, and the session is unchanged; a connection from
  elsewhere is closed and refused.\<close>

theorem accept_pasv_same_host:
  assumes "vsf_privop_accept_pasv E w = (Inr fd, w')" and "wf_addr (p_remote_addr (sess w))"
  defines "e \<equiv> Sys ''accept'' [] [pasv_listen_fd (sess w), uint (tu E ''accept_timeout'')]"
  shows "sess w' = sess w \<and> pasv_listen_fd (sess w) \<noteq> - 1 \<and>
    (if answers E (trace w) e < 0 then fd = - 1
     else if tb E ''pasv_promiscuous'' \<or> canon (peer_of (texts E (trace w) e)) = canon (p_remote_addr (sess w))
     then fd = answers E (trace w) e
     else fd = - 2 \<and> last (trace w') = Sys ''close'' [] [answers E (trace w) e])"
proof -
  have "wp (vsf_privop_accept_pasv E) (\<lambda>fd w'. sess w' = sess w \<and> pasv_listen_fd (sess w) \<noteq> - 1 \<and>
    (if answers E (trace w) e < 0 then fd = - 1
     else if tb E ''pasv_promiscuous'' \<or> canon (peer_of (texts E (trace w) e)) = canon (p_remote_addr (sess w))
     then fd = answers E (trace w) e
     else fd = - 2 \<and> last (trace w') = Sys ''close'' [] [answers E (trace w) e])) (\<lambda>_ _. True) w"
    using addr_equal_canon [OF assms(2), of "peer_of (texts E (trace w) e)"]
    by (simp add: vsf_privop_accept_pasv_def vsf_sysutil_accept_timeout_def vsf_sysutil_retval_is_error_def
        vsf_sysutil_close_def wp_simps die_def bug_def Let_def e_def)
  from wp_Inr [OF this assms(1)] show ?thesis .
qed

theorem accept_pasv_same_host_witness:
  "\<exists>w'. vsf_privop_accept_pasv (bare_env\<lparr>texts := (\<lambda>tr e. ''evil'')\<rparr>)
      (world_with (blank_session\<lparr>pasv_listen_fd := 5\<rparr>) []) = (Inr (- 2), w') \<and> last (trace w') = Sys ''close'' [] [0]"
proof -
  let ?E = "bare_env\<lparr>texts := (\<lambda>tr e. ''evil'')\<rparr>" and ?w = "world_with (blank_session\<lparr>pasv_listen_fd := 5\<rparr>) []"
  have "wp (vsf_privop_accept_pasv ?E) (\<lambda>_ _. True) (\<lambda>_ _. False) ?w"
    by (simp add: vsf_privop_accept_pasv_def vsf_sysutil_accept_timeout_def wp_simps Let_def peer_of_def
        vsf_sysutil_close_def world_with_def blank_session_def)
  then obtain fd w' where r: "vsf_privop_accept_pasv ?E ?w = (Inr fd, w')" using wp_returns by blast
  have "wf_addr (p_remote_addr (sess ?w))" by (simp add: world_with_def blank_session_def)
  from accept_pasv_same_host [OF r this, THEN conjunct2, THEN conjunct2]
  have "fd = - 2 \<and> last (trace w') = Sys ''close'' [] [0]"
    by (simp add: world_with_def blank_session_def peer_of_def)
  with r show ?thesis by blast
qed

text \<open>Logins are granted only on the stated grounds. With no log entry pending and local logins
  enabled, \<^verbatim>\<open>vsf_privop_do_login\<close> always returns and leaves no entry pending. It grants a local login
  only to a screened name and password that the login table lists, and with the permissions of that
  account; an anonymous login only when these are enabled, to one of the two names, with a
  password that is not banned and is listed where a list exists, and then the recorded password
  cannot break the log format; a refused login leaves permissions and name as they were.\<close>

theorem login_grants:
  assumes "log_type (sess w) = None" and "tb E ''local_enable''"
    and "length (banned_email_str (sess w)) \<le> UINT_MAX" and "length (email_passwords_str (sess w)) \<le> UINT_MAX"
    and "length pass \<le> UINT_MAX"
  shows "\<exists>r w'. vsf_privop_do_login E pass w = (Inr r, w') \<and> login_ok E (sess w) pass r (sess w')"
proof -
  have "wp (vsf_privop_do_login E pass) (\<lambda>r w'. login_ok E (sess w) pass r (sess w')) (\<lambda>_ _. False) w"
    unfolding vsf_privop_do_login_def wp_bnd wp_basic wp_thn
    by (rule wp_mono [OF handle_login_wp [OF assms(2-5)]])
      (use assms(1) in \<open>auto intro!: log_login_wp simp: login_ok_def granted_log\<close>)
  then show ?thesis by (rule wp_total)
qed

definition login_env :: env where
  "login_env = bare_env\<lparr>tun := \<lparr>tbool = (\<lambda>v. v = ''local_enable''), tuint = (\<lambda>v. 0),
     tstr = (\<lambda>v. if v = ''login_users'' then Some ''joe:pw:rw;'' else None)\<rparr>\<rparr>"

theorem login_grants_witness:
  "\<exists>r w'. vsf_privop_do_login login_env ''pw'' (world_with (blank_session\<lparr>user_str := ''joe''\<rparr>) []) = (Inr r, w') \<and>
     login_ok login_env (blank_session\<lparr>user_str := ''joe''\<rparr>) ''pw'' r (sess w')"
  using login_grants [of "world_with (blank_session\<lparr>user_str := ''joe''\<rparr>) []" login_env "''pw''"]
  by (simp add: login_env_def world_with_def blank_session_def)

text \<open>Only uploads of the guest accounts change owner. When \<^verbatim>\<open>vsf_privop_do_file_chown\<close> returns, either
  the file already had the wanted owner and nothing was done after looking at it, or it was a
  regular file of the anonymous or the guest user, a target owner is configured, and its owner was
  changed to that one; in every other case the process ends without a change of owner.\<close>

theorem chown_only_guest_files:
  "(case vsf_privop_do_file_chown E fd w of
      (Inr u, w') \<Rightarrow> sess w' = sess w \<and>
        (let uid = answers E (trace w @ [Sys ''fstat'' [] [fd]]) (Sys ''st_uid'' [] [fd]);
             mode = answers E (trace w @ [Sys ''fstat'' [] [fd]]) (Sys ''st_mode'' [] [fd]);
             to_uid = anon_upload_chown_uid (sess w)
         in if uid = to_uid then trace w' = trace w @ [Sys ''fstat'' [] [fd]]
            else trace w' = trace w @ [Sys ''fstat'' [] [fd], Sys ''fchown'' [] [fd, to_uid, - 1]] \<and>
                 to_uid \<noteq> - 1 \<and> vsf_sysutil_statbuf_is_regfile (word_of_int mode) \<and>
                 uid \<in> {anon_ftp_uid (sess w), guest_user_uid (sess w)})
    | (Inl f, w') \<Rightarrow> sess w' = sess w \<and> (\<exists>m. f = Oops m) \<and>
        (\<forall>fd' a b. Sys ''fchown'' [] [fd', a, b] \<in> set (drop (length (trace w)) (trace w')) \<longrightarrow>
           f = Oops ''fchown'' \<and> fd' = fd \<and> a = anon_upload_chown_uid (sess w) \<and> b = - 1))"
  by (auto simp: vsf_privop_do_file_chown_def or_die_def act_defs die_def bug_def Let_def)

end
