(* ===== verification/Broker.thy ===== *)
theory Broker
  imports Privops
begin

text \<open>
  The two processes of a session. \<^verbatim>\<open>privsock.c\<close>: messages on the socket pair between them, bytes and
  passed descriptors in order, in the two directions \<open>up\<close> (child to parent) and \<open>down\<close>.
  \<^verbatim>\<open>postprivparent.c\<close>: the parent's answer to one request, on its own copy of the session.
  \<^verbatim>\<open>twoprocess.c\<close>: the requests of the child; the first read of a reply blocks the child, and the
  parent runs until it has handled the request. \<^verbatim>\<open>oneprocess.c\<close>: the same operations without a
  second process. A fault of the parent ends the session, as its death ends the child.
\<close>

section \<open>The socket pair\<close>

datatype side = Child | Parent

definition put_items :: "side \<Rightarrow> wire_item list \<Rightarrow> unit act" where
  "put_items side items = (\<lambda>w. (Inr (),
     case side of Child \<Rightarrow> w\<lparr>up := up w @ items\<rparr> | Parent \<Rightarrow> w\<lparr>down := down w @ items\<rparr>))"

definition sock_write :: "env \<Rightarrow> side \<Rightarrow> bytes \<Rightarrow> string \<Rightarrow> unit act" where
  "sock_write E side bs msg =
     bnd (ask E (Sys ''priv_sock_write'' [] [])) (\<lambda>r.
     if r < 0 then lift (die msg) else put_items side (map Byte bs))"

fun take_bytes :: "nat \<Rightarrow> wire_item list \<Rightarrow> (bytes \<times> wire_item list) option" where
  "take_bytes 0 items = Some ([], items)"
| "take_bytes (Suc n) (Byte c # items) = map_option (\<lambda>(bs, rest). (c # bs, rest)) (take_bytes n items)"
| "take_bytes (Suc n) _ = None"

text \<open>A read that cannot be satisfied ends with fewer bytes than asked for.\<close>

definition sock_read :: "side \<Rightarrow> nat \<Rightarrow> string \<Rightarrow> bytes act" where
  "sock_read side n msg = (\<lambda>w.
     case take_bytes n (case side of Child \<Rightarrow> down w | Parent \<Rightarrow> up w) of
       None \<Rightarrow> (die msg, w)
     | Some (bs, rest) \<Rightarrow> (Inr bs, case side of Child \<Rightarrow> w\<lparr>down := rest\<rparr> | Parent \<Rightarrow> w\<lparr>up := rest\<rparr>))"

definition priv_sock_send_cmd :: "env \<Rightarrow> side \<Rightarrow> nat \<Rightarrow> unit act" where
  "priv_sock_send_cmd E fd cmd = sock_write E fd [char_of cmd] ''priv_sock_send_cmd''"

definition priv_sock_send_int :: "env \<Rightarrow> side \<Rightarrow> int \<Rightarrow> unit act" where
  "priv_sock_send_int E fd the_int = sock_write E fd (enc32 (word_of_int the_int)) ''priv_sock_send_int''"

definition priv_sock_send_str :: "env \<Rightarrow> side \<Rightarrow> bytes \<Rightarrow> unit act" where
  "priv_sock_send_str E fd p_str =
     thn (priv_sock_send_int E fd (int (length p_str)))
     (doif (length p_str > 0)
       (bnd (ask E (Sys ''priv_sock_write'' [] [])) (\<lambda>r. doif (r \<ge> 0) (put_items fd (map Byte p_str)))))"

definition priv_sock_send_buf :: "env \<Rightarrow> side \<Rightarrow> bytes \<Rightarrow> unit act" where
  "priv_sock_send_buf E fd p_buf =
     thn (priv_sock_send_int E fd (int (length p_buf)))
     (doif (length p_buf > 0) (sock_write E fd p_buf ''priv_sock_send_buf''))"

definition priv_sock_send_result :: "env \<Rightarrow> side \<Rightarrow> nat \<Rightarrow> unit act" where
  "priv_sock_send_result E fd res = sock_write E fd [char_of res] ''priv_sock_send_result''"

definition priv_sock_send_fd :: "env \<Rightarrow> side \<Rightarrow> int \<Rightarrow> unit act" where
  "priv_sock_send_fd E fd send_fd =
     bnd (ask E (Sys ''priv_sock_write'' [] [])) (\<lambda>r.
     if r < 0 then lift (die ''sendmsg'') else put_items fd [Fd send_fd])"

definition priv_sock_get_cmd :: "side \<Rightarrow> nat act" where
  "priv_sock_get_cmd fd = bnd (sock_read fd 1 ''priv_sock_get_cmd'') (\<lambda>bs. ret (code (hd bs)))"

definition priv_sock_get_result :: "side \<Rightarrow> nat act" where
  "priv_sock_get_result fd = bnd (sock_read fd 1 ''priv_sock_get_result'') (\<lambda>bs. ret (code (hd bs)))"

definition priv_sock_get_int :: "side \<Rightarrow> int act" where
  "priv_sock_get_int fd = bnd (sock_read fd 4 ''priv_sock_get_int'') (\<lambda>bs. ret (sint (dec32 bs)))"

definition VSFTP_PRIVSOCK_MAXSTR :: nat where
  "VSFTP_PRIVSOCK_MAXSTR = 65536 * 2"

definition priv_sock_get_str :: "side \<Rightarrow> bytes act" where
  "priv_sock_get_str fd =
     bnd (priv_sock_get_int fd) (\<lambda>n.
     let len = unat (word_of_int n :: 32 word) in
     if len > VSFTP_PRIVSOCK_MAXSTR then lift (die ''priv_sock_get_str: too big'')
     else if len > 0 then sock_read fd len ''priv_sock_get_str: read error''
     else ret [])"

definition priv_sock_recv_buf :: "side \<Rightarrow> nat \<Rightarrow> bytes act" where
  "priv_sock_recv_buf fd len =
     bnd (priv_sock_get_int fd) (\<lambda>n.
     let recv_len = unat (word_of_int n :: 32 word) in
     if recv_len > len then lift (bug ''recv_len bigger than buffer'')
     else if recv_len > 0 then sock_read fd recv_len ''priv_sock_recv_buf''
     else ret [])"

text \<open>\<^verbatim>\<open>vsf_sysutil_recv_fd\<close> dies when no descriptor comes with the message.\<close>

definition priv_sock_recv_fd :: "side \<Rightarrow> int act" where
  "priv_sock_recv_fd fd = (\<lambda>w.
     case (case fd of Child \<Rightarrow> down w | Parent \<Rightarrow> up w) of
       Fd n # rest \<Rightarrow> (Inr n, case fd of Child \<Rightarrow> w\<lparr>down := rest\<rparr> | Parent \<Rightarrow> w\<lparr>up := rest\<rparr>)
     | [] \<Rightarrow> (die ''recvmsg'', w)
     | Byte c # rest \<Rightarrow> (die ''no passed fd'', w))"

section \<open>Requests\<close>

definition PRIV_SOCK_LOGIN :: nat where "PRIV_SOCK_LOGIN = 1"
definition PRIV_SOCK_CHOWN :: nat where "PRIV_SOCK_CHOWN = 2"
definition PRIV_SOCK_GET_DATA_SOCK :: nat where "PRIV_SOCK_GET_DATA_SOCK = 3"
definition PRIV_SOCK_PASV_CLEANUP :: nat where "PRIV_SOCK_PASV_CLEANUP = 10"
definition PRIV_SOCK_PASV_ACTIVE :: nat where "PRIV_SOCK_PASV_ACTIVE = 11"
definition PRIV_SOCK_PASV_LISTEN :: nat where "PRIV_SOCK_PASV_LISTEN = 12"
definition PRIV_SOCK_PASV_ACCEPT :: nat where "PRIV_SOCK_PASV_ACCEPT = 13"
definition PRIV_SOCK_RESULT_OK :: nat where "PRIV_SOCK_RESULT_OK = 1"
definition PRIV_SOCK_RESULT_BAD :: nat where "PRIV_SOCK_RESULT_BAD = 2"

lemmas priv_sock_codes = PRIV_SOCK_LOGIN_def PRIV_SOCK_CHOWN_def PRIV_SOCK_GET_DATA_SOCK_def
  PRIV_SOCK_PASV_CLEANUP_def PRIV_SOCK_PASV_ACTIVE_def PRIV_SOCK_PASV_LISTEN_def
  PRIV_SOCK_PASV_ACCEPT_def PRIV_SOCK_RESULT_OK_def PRIV_SOCK_RESULT_BAD_def

section \<open>The parent\<close>

definition cmd_process_chown :: "env \<Rightarrow> unit act" where
  "cmd_process_chown E =
     bnd (priv_sock_recv_fd Parent) (\<lambda>the_fd. steps
       [vsf_privop_do_file_chown E the_fd,
        vsf_sysutil_close E the_fd,
        priv_sock_send_result E Parent PRIV_SOCK_RESULT_OK])"

definition cmd_process_get_data_sock :: "env \<Rightarrow> unit act" where
  "cmd_process_get_data_sock E =
     bnd (priv_sock_get_int Parent) (\<lambda>n.
     bnd (vsf_privop_get_ftp_port_sock E (word_of_int n) False) (\<lambda>sock_fd.
     if sock_fd = - 1 then priv_sock_send_result E Parent PRIV_SOCK_RESULT_BAD
     else steps
       [priv_sock_send_result E Parent PRIV_SOCK_RESULT_OK,
        priv_sock_send_fd E Parent sock_fd,
        vsf_sysutil_close E sock_fd]))"

definition cmd_process_pasv_cleanup :: "env \<Rightarrow> unit act" where
  "cmd_process_pasv_cleanup E =
     thn (vsf_privop_pasv_cleanup E) (priv_sock_send_result E Parent PRIV_SOCK_RESULT_OK)"

definition cmd_process_pasv_active :: "env \<Rightarrow> unit act" where
  "cmd_process_pasv_active E = bnd vsf_privop_pasv_active (priv_sock_send_int E Parent)"

definition cmd_process_pasv_listen :: "env \<Rightarrow> unit act" where
  "cmd_process_pasv_listen E =
     bnd (vsf_privop_pasv_listen E) (\<lambda>port. priv_sock_send_int E Parent (uint port))"

definition cmd_process_pasv_accept :: "env \<Rightarrow> unit act" where
  "cmd_process_pasv_accept E =
     bnd (vsf_privop_accept_pasv E) (\<lambda>fd.
     if fd < 0 then steps
       [priv_sock_send_result E Parent PRIV_SOCK_RESULT_BAD,
        priv_sock_send_int E Parent fd]
     else steps
       [priv_sock_send_result E Parent PRIV_SOCK_RESULT_OK,
        priv_sock_send_fd E Parent fd,
        vsf_sysutil_close E fd])"

definition process_post_login_req :: "env \<Rightarrow> unit act" where
  "process_post_login_req E =
     bnd (priv_sock_get_cmd Parent) (\<lambda>cmd.
     if tb E ''chown_uploads'' \<and> cmd = PRIV_SOCK_CHOWN then cmd_process_chown E
     else if cmd = PRIV_SOCK_GET_DATA_SOCK then cmd_process_get_data_sock E
     else if cmd = PRIV_SOCK_PASV_CLEANUP then cmd_process_pasv_cleanup E
     else if cmd = PRIV_SOCK_PASV_ACTIVE then cmd_process_pasv_active E
     else if cmd = PRIV_SOCK_PASV_LISTEN then cmd_process_pasv_listen E
     else if cmd = PRIV_SOCK_PASV_ACCEPT then cmd_process_pasv_accept E
     else lift (die ''bad request in process_post_login_req''))"

section \<open>The child\<close>

text \<open>Running an action in the other process.\<close>

definition swap :: "world \<Rightarrow> world" where
  "swap w = w\<lparr>sess := parent w, parent := sess w\<rparr>"

definition on_parent :: "'a act \<Rightarrow> 'a act" where
  "on_parent m = (\<lambda>w. case m (swap w) of (r, w') \<Rightarrow> (r, swap w'))"

definition await_parent :: "env \<Rightarrow> unit act" where
  "await_parent E = on_parent (process_post_login_req E)"

definition port_of :: "sockaddr option \<Rightarrow> (16 word) res" where
  "port_of a = (case a of None \<Rightarrow> Inl Segv | Some s \<Rightarrow> vsf_sysutil_sockaddr_get_port s)"

definition vsf_two_process_get_priv_data_sock :: "env \<Rightarrow> int act" where
  "vsf_two_process_get_priv_data_sock E =
     bnd (gets p_port_sockaddr) (\<lambda>a.
     bnd (lift (port_of a)) (\<lambda>port.
     thn (priv_sock_send_cmd E Child PRIV_SOCK_GET_DATA_SOCK)
     (thn (priv_sock_send_int E Child (uint port))
     (thn (await_parent E)
     (bnd (priv_sock_get_result Child) (\<lambda>res.
      if res = PRIV_SOCK_RESULT_BAD then ret (- 1)
      else if res \<noteq> PRIV_SOCK_RESULT_OK then lift (die ''could not get privileged socket'')
      else priv_sock_recv_fd Child))))))"

definition vsf_two_process_pasv_cleanup :: "env \<Rightarrow> unit act" where
  "vsf_two_process_pasv_cleanup E =
     thn (priv_sock_send_cmd E Child PRIV_SOCK_PASV_CLEANUP)
     (thn (await_parent E)
     (bnd (priv_sock_get_result Child) (\<lambda>res.
      if res \<noteq> PRIV_SOCK_RESULT_OK then lift (die ''could not clean up socket'') else ret ())))"

definition vsf_two_process_pasv_active :: "env \<Rightarrow> int act" where
  "vsf_two_process_pasv_active E =
     thn (priv_sock_send_cmd E Child PRIV_SOCK_PASV_ACTIVE)
     (thn (await_parent E) (priv_sock_get_int Child))"

definition vsf_two_process_listen :: "env \<Rightarrow> (16 word) act" where
  "vsf_two_process_listen E =
     thn (priv_sock_send_cmd E Child PRIV_SOCK_PASV_LISTEN)
     (thn (await_parent E) (bnd (priv_sock_get_int Child) (\<lambda>n. ret (word_of_int n))))"

definition vsf_two_process_get_pasv_fd :: "env \<Rightarrow> int act" where
  "vsf_two_process_get_pasv_fd E =
     thn (priv_sock_send_cmd E Child PRIV_SOCK_PASV_ACCEPT)
     (thn (await_parent E)
     (bnd (priv_sock_get_result Child) (\<lambda>res.
      if res = PRIV_SOCK_RESULT_BAD then priv_sock_get_int Child
      else if res \<noteq> PRIV_SOCK_RESULT_OK then lift (die ''could not accept on listening socket'')
      else priv_sock_recv_fd Child)))"

definition vsf_two_process_chown_upload :: "env \<Rightarrow> int \<Rightarrow> unit act" where
  "vsf_two_process_chown_upload E fd =
     thn (priv_sock_send_cmd E Child PRIV_SOCK_CHOWN)
     (thn (priv_sock_send_fd E Child fd)
     (thn (await_parent E)
     (bnd (priv_sock_get_result Child) (\<lambda>res.
      if res \<noteq> PRIV_SOCK_RESULT_OK then lift (die ''unexpected failure in vsf_two_process_chown_upload'')
      else ret ()))))"

section \<open>One process\<close>

definition vsf_one_process_get_priv_data_sock :: "env \<Rightarrow> int act" where
  "vsf_one_process_get_priv_data_sock E =
     bnd (gets p_port_sockaddr) (\<lambda>a.
     bnd (lift (port_of a)) (\<lambda>port. vsf_privop_get_ftp_port_sock E port True))"

definition vsf_one_process_pasv_cleanup :: "env \<Rightarrow> unit act" where
  "vsf_one_process_pasv_cleanup E = vsf_privop_pasv_cleanup E"

definition vsf_one_process_pasv_active :: "env \<Rightarrow> int act" where
  "vsf_one_process_pasv_active E = vsf_privop_pasv_active"

definition vsf_one_process_listen :: "env \<Rightarrow> (16 word) act" where
  "vsf_one_process_listen E = vsf_privop_pasv_listen E"

definition vsf_one_process_get_pasv_fd :: "env \<Rightarrow> int act" where
  "vsf_one_process_get_pasv_fd E = vsf_privop_accept_pasv E"

definition vsf_one_process_chown_upload :: "env \<Rightarrow> int \<Rightarrow> unit act" where
  "vsf_one_process_chown_upload E fd = vsf_privop_do_file_chown E fd"

section \<open>Lemmas: the wires\<close>

definition idle :: "world \<Rightarrow> bool" where
  "idle w \<longleftrightarrow> up w = [] \<and> down w = []"

text \<open>Writing to the socket pair succeeds.\<close>

definition channel_ok :: "env \<Rightarrow> bool" where
  "channel_ok E \<longleftrightarrow> (\<forall>tr. 0 \<le> answers E tr (Sys ''priv_sock_write'' [] []))"

lemma keeps_result [keeps_intros]:
  "(\<And>a. keeps I (k a)) \<Longrightarrow> (\<And>f. keeps I (h f)) \<Longrightarrow> keeps I (case r of Inl f \<Rightarrow> h f | Inr a \<Rightarrow> k a)"
  by (cases r) simp_all

text \<open>What the privileged operations leave alone: every condition on the world beside the session they
  work on and the trace.\<close>

locale outside =
  fixes I :: "world \<Rightarrow> bool"
  assumes sess_free: "I (w\<lparr>sess := s\<rparr>) = I w" and trace_free: "I (w\<lparr>trace := t\<rparr>) = I w"
begin

lemma keeps_effects [keeps_intros]: "keeps I (upd f)" "keeps I (emit e)" "keeps I (sys E e)"
  by (simp_all add: keeps_def upd_def emit_def sys_def sess_free trace_free)

lemma keeps_sysutil [keeps_intros]:
  "keeps I (or_die E e m)" "keeps I (vsf_sysutil_close E fd)" "keeps I (vsf_sysutil_activate_reuseaddr E fd)"
  "keeps I (vsf_sysutil_get_ipv4_sock E)" "keeps I (vsf_sysutil_get_ipv6_sock E)"
  "keeps I (vsf_sysutil_get_ipsock E a)" "keeps I (vsf_sysutil_bind E fd a)" "keeps I (vsf_sysutil_listen E fd)"
  "keeps I (vsf_sysutil_connect_timeout E fd a n)" "keeps I (vsf_sysutil_get_random_byte E)"
  "keeps I (vsf_sysutil_get_error E)" "keeps I (vsf_sysutil_sleep ns)"
  "keeps I (vsf_sysutil_accept_timeout E fd n)"
  unfolding or_die_def vsf_sysutil_close_def vsf_sysutil_activate_reuseaddr_def vsf_sysutil_get_ipv4_sock_def
    vsf_sysutil_get_ipv6_sock_def vsf_sysutil_bind_def vsf_sysutil_listen_def
    vsf_sysutil_connect_timeout_def vsf_sysutil_get_random_byte_def vsf_sysutil_get_error_def
    vsf_sysutil_sleep_def vsf_sysutil_accept_timeout_def Let_def
  by (cases a; auto intro!: keeps_intros simp: or_die_def vsf_sysutil_get_ipv4_sock_def vsf_sysutil_get_ipv6_sock_def)+

lemma keeps_loops [keeps_intros]:
  "keeps I (bind_loop E s port n)" "keeps I (listen_on E l fd port)" "keeps I (pasv_listen_loop E n)"
proof -
  show l: "keeps I (listen_on E l fd port)" for l fd port
    unfolding listen_on_def by (intro keeps_intros)
  show "keeps I (bind_loop E s port n)"
    by (induction n) (auto intro!: keeps_intros)
  show "keeps I (pasv_listen_loop E n)"
    by (induction n) (auto intro!: keeps_intros l simp: Let_def)
qed

lemma keeps_privops [keeps_intros]:
  "keeps I (vsf_privop_get_ftp_port_sock E p b)" "keeps I (vsf_privop_pasv_cleanup E)"
  "keeps I vsf_privop_pasv_active" "keeps I (vsf_privop_pasv_listen E)"
  "keeps I (vsf_privop_accept_pasv E)" "keeps I (vsf_privop_do_file_chown E fd)"
  unfolding vsf_privop_get_ftp_port_sock_def vsf_privop_pasv_cleanup_def vsf_privop_pasv_active_def
    vsf_privop_pasv_listen_def vsf_privop_accept_pasv_def vsf_privop_do_file_chown_def Let_def
  by (intro keeps_intros)+

end

interpretation wires: outside idle
  by unfold_locales (simp_all add: idle_def)

interpretation beside: outside "\<lambda>w. R (parent w)" for R
  by unfold_locales simp_all

lemma swap_simps [simp]:
  "swap (swap w) = w" "idle (swap w) = idle w" "up (swap w) = up w" "down (swap w) = down w"
  "trace (swap w) = trace w" "sess (swap w) = parent w" "parent (swap w) = sess w"
  "swap (w\<lparr>up := u\<rparr>) = (swap w)\<lparr>up := u\<rparr>" "swap (w\<lparr>down := d\<rparr>) = (swap w)\<lparr>down := d\<rparr>"
  by (simp_all add: swap_def idle_def)

lemma idle_id: "idle w \<Longrightarrow> w\<lparr>up := []\<rparr> = w" "idle w \<Longrightarrow> w\<lparr>down := []\<rparr> = w"
  by (simp_all add: idle_def)

lemma idleD: "idle w \<Longrightarrow> up w = []" "idle w \<Longrightarrow> down w = []"
  by (simp_all add: idle_def)

lemma take_bytes_append [simp]: "take_bytes (length bs) (map Byte bs @ rest) = Some (bs, rest)"
  by (induction bs) simp_all

lemma take_enc32 [simp]: "take_bytes 4 (map Byte (enc32 v) @ rest) = Some (enc32 v, rest)"
  using take_bytes_append [of "enc32 v" rest] by (simp del: take_bytes_append)

lemma take_enc32_end [simp]: "take_bytes 4 (map Byte (enc32 v)) = Some (enc32 v, [])"
  using take_enc32 [of v "[]"] by simp

lemmas wire_defs = sock_write_def sock_read_def put_items_def priv_sock_send_cmd_def priv_sock_send_int_def
  priv_sock_send_result_def priv_sock_send_fd_def priv_sock_get_cmd_def priv_sock_get_result_def
  priv_sock_get_int_def priv_sock_recv_fd_def

lemma code_char_of [simp]: "n < 256 \<Longrightarrow> code (char_of n) = n"
  by (simp add: code_def)

lemma channel_sends:
  assumes "channel_ok E"
  shows "priv_sock_send_cmd E Child c w = (Inr (), w\<lparr>up := up w @ [Byte (char_of c)]\<rparr>)"
    and "priv_sock_send_int E Child n w = (Inr (), w\<lparr>up := up w @ map Byte (enc32 (word_of_int n))\<rparr>)"
    and "priv_sock_send_fd E Child fd w = (Inr (), w\<lparr>up := up w @ [Fd fd]\<rparr>)"
    and "priv_sock_send_result E Parent c w = (Inr (), w\<lparr>down := down w @ [Byte (char_of c)]\<rparr>)"
    and "priv_sock_send_int E Parent n w = (Inr (), w\<lparr>down := down w @ map Byte (enc32 (word_of_int n))\<rparr>)"
    and "priv_sock_send_fd E Parent fd w = (Inr (), w\<lparr>down := down w @ [Fd fd]\<rparr>)"
  using assms by (auto simp: wire_defs act_defs channel_ok_def linorder_not_less [symmetric])

lemma channel_gets:
  "c < 256 \<Longrightarrow> priv_sock_get_cmd Parent (w\<lparr>up := Byte (char_of c) # r\<rparr>) = (Inr c, w\<lparr>up := r\<rparr>)"
  "c < 256 \<Longrightarrow> priv_sock_get_result Child (w\<lparr>down := Byte (char_of c) # r\<rparr>) = (Inr c, w\<lparr>down := r\<rparr>)"
  "priv_sock_get_int Parent (w\<lparr>up := map Byte (enc32 v) @ r\<rparr>) = (Inr (sint v), w\<lparr>up := r\<rparr>)"
  "priv_sock_get_int Parent (w\<lparr>up := map Byte (enc32 v)\<rparr>) = (Inr (sint v), w\<lparr>up := []\<rparr>)"
  "priv_sock_get_int Child (w\<lparr>down := map Byte (enc32 v)\<rparr>) = (Inr (sint v), w\<lparr>down := []\<rparr>)"
  "priv_sock_recv_fd Parent (w\<lparr>up := Fd n # r\<rparr>) = (Inr n, w\<lparr>up := r\<rparr>)"
  "priv_sock_recv_fd Child (w\<lparr>down := Fd n # r\<rparr>) = (Inr n, w\<lparr>down := r\<rparr>)"
  by (simp_all add: wire_defs act_defs)

lemmas run_simps = channel_sends channel_gets bnd_def thn_def ret_def on_parent_def await_parent_def
  process_post_login_req_def priv_sock_codes idle_id idleD

text \<open>Two outcomes agree: the same result, and the same world unless the session has ended.\<close>

definition agrees :: "'a res \<times> world \<Rightarrow> 'a res \<times> world \<Rightarrow> bool" where
  "agrees x y \<longleftrightarrow> fst x = fst y \<and> (\<forall>a. fst x = Inr a \<longrightarrow> snd x = snd y)"

lemma privop_cases:
  assumes "keeps idle m" and "idle w"
  obtains (fault) f w1 where "m w = (Inl f, w1)" "idle w1" | (returns) a w1 where "m w = (Inr a, w1)" "idle w1"
proof -
  obtain r w1 where m: "m w = (r, w1)" by fastforce
  with assms have "idle w1" unfolding keeps_def by (metis snd_conv)
  with m show thesis using fault returns by (cases r) auto
qed

lemma two_cleanup:
  assumes "channel_ok E" and "idle w"
  shows "agrees (vsf_two_process_pasv_cleanup E w) (on_parent (vsf_privop_pasv_cleanup E) w)"
proof -
  have "keeps idle (vsf_privop_pasv_cleanup E)" "idle (swap w)" using assms(2) by (auto intro: keeps_intros)
  then show ?thesis
    by (cases rule: privop_cases)
      (use assms in \<open>simp_all add: agrees_def vsf_two_process_pasv_cleanup_def cmd_process_pasv_cleanup_def run_simps\<close>)
qed

lemma port_wire [simp]: "(scast (ucast port :: 32 word) :: 16 word) = port"
  by (rule bit_word_eqI) (auto simp: bit_simps)

lemma two_active:
  assumes "channel_ok E" and "idle w"
  shows "agrees (vsf_two_process_pasv_active E w) (on_parent vsf_privop_pasv_active w)"
  using assms by (simp add: agrees_def vsf_two_process_pasv_active_def cmd_process_pasv_active_def run_simps
      vsf_privop_pasv_active_def gets_def)

lemma two_listen:
  assumes "channel_ok E" and "idle w"
  shows "agrees (vsf_two_process_listen E w) (on_parent (vsf_privop_pasv_listen E) w)"
proof -
  have "keeps idle (vsf_privop_pasv_listen E)" "idle (swap w)" using assms(2) by (auto intro: keeps_intros)
  then show ?thesis
    by (cases rule: privop_cases)
      (use assms in \<open>simp_all add: agrees_def vsf_two_process_listen_def cmd_process_pasv_listen_def run_simps\<close>)
qed

lemma accept_negative: "vsf_privop_accept_pasv E w = (Inr fd, w') \<Longrightarrow> fd < 0 \<Longrightarrow> fd = - 1 \<or> fd = - 2"
  by (auto simp: vsf_privop_accept_pasv_def vsf_sysutil_accept_timeout_def vsf_sysutil_close_def or_die_def act_defs
      vsf_sysutil_retval_is_error_def die_def bug_def Let_def split: if_splits prod.splits)

lemma wp_ipsock:
  assumes "\<And>fd w'. 0 \<le> fd \<Longrightarrow> Q fd w'" and "\<And>f v. X f v"
  shows "wp (vsf_sysutil_get_ipsock E a) Q X w"
  using assms by (cases a) (simp_all add: vsf_sysutil_get_ipv4_sock_def vsf_sysutil_get_ipv6_sock_def wp_simps die_def bug_def)

lemma wp_skip: "(\<And>a v. Q a v) \<Longrightarrow> wp m Q (\<lambda>_ _. True) w"
  by (cases "m w"; cases "fst (m w)") (simp_all add: wp_def)

lemma port_sock_fd:
  assumes "vsf_privop_get_ftp_port_sock E p b w = (Inr fd, w')"
  shows "0 \<le> fd \<or> fd = - 1"
proof -
  have connected: "wp (bnd (vsf_sysutil_connect_timeout E s a n) (\<lambda>retval.
      if vsf_sysutil_retval_is_error retval then thn (vsf_sysutil_close E s) (ret (- 1)) else ret s))
      (\<lambda>fd w'. 0 \<le> fd \<or> fd = - 1) (\<lambda>_ _. True) v" if "0 \<le> s" for a s n v
    unfolding wp_bnd by (rule wp_skip) (use that in \<open>simp add: wp_simps wp_skip\<close>)
  note skips = wp_skip [where m = "vsf_sysutil_activate_reuseaddr E s" for s]
    wp_skip [where m = "bind_loop E s port n" for s port n]
  have "wp (vsf_privop_get_ftp_port_sock E p b) (\<lambda>fd w'. 0 \<le> fd \<or> fd = - 1) (\<lambda>_ _. True) w"
    unfolding vsf_privop_get_ftp_port_sock_def Let_def wp_bnd wp_thn wp_basic wp_if
    by (rule wp_ipsock) (auto simp: die_def bug_def wp_basic split: sum.split option.split intro!: skips connected)
  from wp_Inr [OF this assms] show ?thesis .
qed

text \<open>A descriptor handed to the child is closed in the parent.\<close>

definition handed_over :: "env \<Rightarrow> int act \<Rightarrow> int act" where
  "handed_over E m = bnd m (\<lambda>fd. thn (doif (0 \<le> fd) (vsf_sysutil_close E fd)) (ret fd))"

lemma close_wires:
  "vsf_sysutil_close E fd (w\<lparr>down := d\<rparr>) = map_prod id (\<lambda>w'. w'\<lparr>down := d\<rparr>) (vsf_sysutil_close E fd w)"
  by (simp add: vsf_sysutil_close_def or_die_def act_defs die_def bug_def)

lemma close_idle: "vsf_sysutil_close E fd w = (r, w') \<Longrightarrow> idle w \<Longrightarrow> idle w'"
  using wires.keeps_sysutil(2) [of E fd] unfolding keeps_def by (metis snd_conv)

lemma two_accept:
  assumes "channel_ok E" and "idle w"
  shows "agrees (vsf_two_process_get_pasv_fd E w) (on_parent (handed_over E (vsf_privop_accept_pasv E)) w)"
proof -
  have "keeps idle (vsf_privop_accept_pasv E)" "idle (swap w)" using assms(2) by (auto intro: keeps_intros)
  then show ?thesis
  proof (cases rule: privop_cases)
    case (fault f w1)
    then show ?thesis using assms
      by (simp add: agrees_def vsf_two_process_get_pasv_fd_def cmd_process_pasv_accept_def handed_over_def run_simps)
  next
    case (returns fd w1)
    obtain r w2 where c: "vsf_sysutil_close E fd w1 = (r, w2)" by fastforce
    show ?thesis
    proof (cases "fd < 0")
      case True
      with accept_negative [OF returns(1)] have "fd = - 1 \<or> fd = - 2" by simp
      then show ?thesis using assms returns
        by (elim disjE; simp add: agrees_def vsf_two_process_get_pasv_fd_def cmd_process_pasv_accept_def
            handed_over_def run_simps doif_def)
    next
      case False
      then show ?thesis using assms returns c close_idle [OF c returns(2)]
        by (cases r) (simp_all add: agrees_def vsf_two_process_get_pasv_fd_def cmd_process_pasv_accept_def
            handed_over_def run_simps close_wires doif_def)
    qed
  qed
qed

lemma two_data_sock:
  assumes "channel_ok E" and "idle w" and "port_of (p_port_sockaddr (sess w)) = Inr port"
  shows "agrees (vsf_two_process_get_priv_data_sock E w)
    (on_parent (handed_over E (vsf_privop_get_ftp_port_sock E port False)) w)"
proof -
  have "keeps idle (vsf_privop_get_ftp_port_sock E port False)" "idle (swap w)"
    using assms(2) by (auto intro: keeps_intros)
  then show ?thesis
  proof (cases rule: privop_cases)
    case (fault f w1)
    then show ?thesis using assms
      by (simp add: agrees_def vsf_two_process_get_priv_data_sock_def cmd_process_get_data_sock_def handed_over_def
          run_simps gets_def lift_def)
  next
    case (returns fd w1)
    obtain r w2 where c: "vsf_sysutil_close E fd w1 = (r, w2)" by fastforce
    show ?thesis
    proof (cases "fd = - 1")
      case True
      then show ?thesis using assms returns
        by (simp add: agrees_def vsf_two_process_get_priv_data_sock_def cmd_process_get_data_sock_def handed_over_def
            run_simps gets_def lift_def doif_def)
    next
      case False
      then show ?thesis using assms returns c port_sock_fd [OF returns(1)] close_idle [OF c returns(2)]
        by (cases r) (simp_all add: agrees_def vsf_two_process_get_priv_data_sock_def cmd_process_get_data_sock_def
            handed_over_def run_simps gets_def lift_def close_wires doif_def)
    qed
  qed
qed

lemma two_chown:
  assumes "channel_ok E" and "idle w" and "tb E ''chown_uploads''"
  shows "agrees (vsf_two_process_chown_upload E fd w)
    (on_parent (thn (vsf_privop_do_file_chown E fd) (vsf_sysutil_close E fd)) w)"
proof -
  have "keeps idle (thn (vsf_privop_do_file_chown E fd) (vsf_sysutil_close E fd))" "idle (swap w)"
    using assms(2) by (auto intro!: keeps_intros)
  then show ?thesis
    by (cases rule: privop_cases)
      (use assms in \<open>auto simp: agrees_def vsf_two_process_chown_upload_def cmd_process_chown_def run_simps
         split: sum.splits prod.splits\<close>)
qed

section \<open>Lemmas: how the operations fail\<close>

text \<open>The messages of the assertions that guard the state of a session, of its data connections, of its log
  entries and of the protocol between the two processes. A fault is external when it is none of these
  and not the recursion that runs when both data modes are active. Among the external faults are the
  messages on failed system calls, the use of settings that are null, the refusal of addresses that are
  neither IPv4 nor IPv6 (\<^verbatim>\<open>bad family\<close>) and the complaint about a configuration that serves HTTP without
  downloads.\<close>

definition assertion_messages :: "string list" where
  "assertion_messages =
     [''non null log_type in vsf_log_start_entry'', ''bad entry_type in vsf_log_do_log'',
      ''data descriptor still present in init_data_sock_params'',
      ''no data descriptor in vsf_ftpdataio_dispose_transfer_fd'',
      ''neither PORT nor PASV active in get_remote_transfer_fd'', ''zero str_len in str_netfd_write'',
      ''should not be reached'', ''listed fd is active?'', ''listed fd already active'', ''listed fd not active'',
      ''weird state in process_login_request'', ''recv_len bigger than buffer'',
      ''poor buffer accounting in str_netfd_alloc'', ''bytes_read > left in str_netfd_alloc'',
      ''bad request in process_post_login_req'', ''bad request'', ''priv_sock_get_str: too big'',
      ''unexpected failure in vsf_two_process_chown_upload'', ''bad state in vsf_one_process_login'']"

fun external :: "fault \<Rightarrow> bool" where
  "external (Oops m) \<longleftrightarrow> m \<notin> set assertion_messages"
| "external (Endless f) \<longleftrightarrow> f \<noteq> ''port_active'' \<and> f \<noteq> ''pasv_active''"
| "external (Exited n) \<longleftrightarrow> True"
| "external Segv \<longleftrightarrow> True"

lemma faults_or_die [faults_intros]: "F (Oops m) \<Longrightarrow> faults F (or_die E e m)"
  unfolding or_die_def by (intro faults_intros) (simp add: bug_fault)

lemma sockaddr_faults:
  "vsf_sysutil_sockaddr_clone a = Inl f \<Longrightarrow> external f"
  "vsf_sysutil_sockaddr_set_port a port = Inl f \<Longrightarrow> external f"
  by (cases a; auto simp: bug_fault assertion_messages_def)+

lemma external_sysutil [faults_intros]:
  "faults external (vsf_sysutil_close E fd)" "faults external (vsf_sysutil_activate_reuseaddr E fd)"
  "faults external (vsf_sysutil_get_ipv4_sock E)" "faults external (vsf_sysutil_get_ipv6_sock E)"
  "faults external (vsf_sysutil_get_ipsock E a)" "faults external (vsf_sysutil_bind E fd a)"
  "faults external (vsf_sysutil_listen E fd)" "faults external (vsf_sysutil_connect_timeout E fd a n)"
  "faults external (vsf_sysutil_get_random_byte E)" "faults external (vsf_sysutil_get_error E)"
  "faults external (vsf_sysutil_sleep ns)" "faults external (vsf_sysutil_accept_timeout E fd n)"
proof -
  show v4: "faults external (vsf_sysutil_get_ipv4_sock E)" and v6: "faults external (vsf_sysutil_get_ipv6_sock E)"
    unfolding vsf_sysutil_get_ipv4_sock_def vsf_sysutil_get_ipv6_sock_def
    by (intro faults_intros, simp add: bug_fault assertion_messages_def)+
  show "faults external (vsf_sysutil_get_ipsock E a)"
    using v4 v6 by (cases a) (auto intro!: faults_intros simp: bug_fault assertion_messages_def)
  show "faults external (vsf_sysutil_bind E fd a)" "faults external (vsf_sysutil_connect_timeout E fd a n)"
    unfolding vsf_sysutil_bind_def vsf_sysutil_connect_timeout_def
    by (auto intro!: faults_intros simp: bug_fault assertion_messages_def split: sum.split)
  show "faults external (vsf_sysutil_close E fd)" "faults external (vsf_sysutil_activate_reuseaddr E fd)"
    "faults external (vsf_sysutil_listen E fd)" "faults external (vsf_sysutil_get_random_byte E)"
    "faults external (vsf_sysutil_get_error E)" "faults external (vsf_sysutil_sleep ns)"
    "faults external (vsf_sysutil_accept_timeout E fd n)"
    unfolding vsf_sysutil_close_def vsf_sysutil_activate_reuseaddr_def vsf_sysutil_listen_def
      vsf_sysutil_get_random_byte_def vsf_sysutil_get_error_def vsf_sysutil_sleep_def
      vsf_sysutil_accept_timeout_def Let_def
    by (auto intro!: faults_intros simp: bug_fault assertion_messages_def)
qed

lemma external_loops [faults_intros]:
  "faults external (bind_loop E s port n)" "faults external (listen_on E l fd port)"
  "faults external (pasv_listen_loop E n)"
proof -
  show l: "faults external (listen_on E l fd port)" for l fd port
    unfolding listen_on_def by (auto intro!: faults_intros dest: sockaddr_faults)
  show "faults external (bind_loop E s port n)"
    by (induction n) (auto intro!: faults_intros dest: sockaddr_faults simp: bug_fault assertion_messages_def)
  show "faults external (pasv_listen_loop E n)"
    by (induction n) (auto intro!: faults_intros l simp: bug_fault assertion_messages_def Let_def)
qed

lemma external_chown [faults_intros]: "faults external (vsf_privop_do_file_chown E fd)"
  unfolding vsf_privop_do_file_chown_def by (auto intro!: faults_intros simp: bug_fault assertion_messages_def)

text \<open>The calls below the operations only talk to the system.\<close>

lemma talks_or_die [talks_intros]: "P e \<Longrightarrow> F (Oops m) \<Longrightarrow> talks P F (or_die E e m)"
  unfolding or_die_def by (intro talks_intros) (simp_all add: bug_fault)

lemma talks_sysutil [talks_intros]:
  "talks (\<lambda>_. True) external (vsf_sysutil_close E fd)" "talks (\<lambda>_. True) external (vsf_sysutil_activate_reuseaddr E fd)"
  "talks (\<lambda>_. True) external (vsf_sysutil_get_ipsock E a)" "talks (\<lambda>_. True) external (vsf_sysutil_connect_timeout E fd a n)"
  "talks (\<lambda>_. True) external (vsf_sysutil_bind E fd a)" "talks (\<lambda>_. True) external (vsf_sysutil_get_random_byte E)"
proof -
  have sock: "talks (\<lambda>_. True) external (vsf_sysutil_get_ipv4_sock E)" "talks (\<lambda>_. True) external (vsf_sysutil_get_ipv6_sock E)"
    unfolding vsf_sysutil_get_ipv4_sock_def vsf_sysutil_get_ipv6_sock_def
    by (intro talks_intros; simp add: bug_fault assertion_messages_def)+
  then show "talks (\<lambda>_. True) external (vsf_sysutil_get_ipsock E a)"
    by (cases a) (auto intro!: talks_lift simp: bug_fault assertion_messages_def)
  have addr: "talks (\<lambda>_. True) external (case vsf_sysutil_sockaddr_get_port a of
      Inl f \<Rightarrow> lift (die ''can only support ipv4 and ipv6 currently'') | Inr port \<Rightarrow> sys E (addr_event f ns a port))" for f ns
    by (auto intro!: talks_lift talks_emit simp: bug_fault assertion_messages_def split: sum.split)
  show "talks (\<lambda>_. True) external (vsf_sysutil_connect_timeout E fd a n)"
    "talks (\<lambda>_. True) external (vsf_sysutil_bind E fd a)"
    unfolding vsf_sysutil_connect_timeout_def vsf_sysutil_bind_def by (rule addr)+
  show "talks (\<lambda>_. True) external (vsf_sysutil_close E fd)" "talks (\<lambda>_. True) external (vsf_sysutil_activate_reuseaddr E fd)"
    unfolding vsf_sysutil_close_def vsf_sysutil_activate_reuseaddr_def
    by (rule talks_or_die; simp add: assertion_messages_def)+
  show "talks (\<lambda>_. True) external (vsf_sysutil_get_random_byte E)"
    unfolding vsf_sysutil_get_random_byte_def Let_def by (intro talks_intros) simp
qed

lemma talks_bind_loop [talks_intros]: "talks (\<lambda>_. True) external (bind_loop E s port n)"
  by (induction n) (auto intro!: talks_intros dest: sockaddr_faults
      simp: vsf_sysutil_get_error_def vsf_sysutil_sleep_def bug_fault assertion_messages_def)

lemma wp_talking: "talks (\<lambda>_. True) F m \<Longrightarrow> (\<And>a es. Q a (w\<lparr>trace := es\<rparr>)) \<Longrightarrow> wp m Q (\<lambda>f _. F f) w"
  by (rule wp_talks) simp_all

text \<open>Connecting to the client: the session changes at most in the port of the client's address.\<close>

lemma port_sock_wp:
  assumes "pasv_listen_fd (sess w) = - 1" and "b \<longrightarrow> p_port_sockaddr (sess w) \<noteq> None"
  shows "wp (vsf_privop_get_ftp_port_sock E p b)
    (\<lambda>fd w'. pasv_listen_fd (sess w') = - 1 \<and> (b \<longrightarrow> sess w' = sess w)) (\<lambda>f _. external f) w"
  using assms unfolding vsf_privop_get_ftp_port_sock_def Let_def wp_bnd wp_thn wp_basic wp_if
  by (auto simp: wp_simps bug_fault assertion_messages_def die_def bug_def
      intro!: wp_talking [OF talks_sysutil(3)] wp_talking [OF talks_sysutil(2)] wp_talking [OF talks_bind_loop]
        wp_talking [OF talks_sysutil(4)] wp_talking [OF talks_sysutil(1)]
      split: sum.split option.split dest: sockaddr_faults)

section \<open>The interface of the privileged operations\<close>

text \<open>What the command handlers rely on: \<open>lfd\<close> is the listening socket of the session, \<open>ok\<close> the states
  between requests, \<open>core\<close> the part of the session no operation changes.\<close>

locale passive_ops =
  fixes ok :: "world \<Rightarrow> bool" and lfd :: "world \<Rightarrow> int" and core :: "world \<Rightarrow> vsf_session"
    and pasv_cleanup :: "unit act" and pasv_active :: "int act" and listen :: "(16 word) act"
    and get_pasv_fd :: "int act"
  assumes active_law: "ok w \<Longrightarrow> pasv_active w = (Inr (if lfd w \<noteq> - 1 then 1 else 0), w)"
    and cleanup_law: "ok w \<Longrightarrow>
      wp pasv_cleanup (\<lambda>_ w'. ok w' \<and> lfd w' = - 1 \<and> core w' = core w) (\<lambda>f _. f = Oops ''close'') w"
    and listen_law: "ok w \<Longrightarrow> lfd w = - 1 \<Longrightarrow>
      wp listen (\<lambda>port w'. ok w' \<and> 0 \<le> lfd w' \<and> 1024 \<le> port \<and> core w' = core w) (\<lambda>f _. external f) w"
    and listen_twice: "ok w \<Longrightarrow> lfd w \<noteq> - 1 \<Longrightarrow> fst (listen w) = die ''listed fd already active''"
    and accept_law: "ok w \<Longrightarrow> lfd w \<noteq> - 1 \<Longrightarrow>
      wp get_pasv_fd (\<lambda>fd w'. - 2 \<le> fd \<and> ok w' \<and> lfd w' = lfd w \<and> core w' = core w) (\<lambda>f _. external f) w"
begin

text \<open>The sequence of the PASV command: a fresh listener, whatever was open before.\<close>

lemma fresh_listener:
  "ok w \<Longrightarrow> wp (thn pasv_cleanup listen)
     (\<lambda>port w'. ok w' \<and> 0 \<le> lfd w' \<and> 1024 \<le> port \<and> core w' = core w) (\<lambda>f _. external f) w"
  unfolding wp_thn
  by (rule wp_mono [OF cleanup_law]) (auto elim!: wp_mono [OF listen_law] simp: assertion_messages_def)

lemma listener_seen:
  "ok w \<Longrightarrow> wp (thn pasv_cleanup (thn listen pasv_active)) (\<lambda>r _. r = 1) (\<lambda>_ _. True) w"
  unfolding wp_thn
  by (rule wp_mono [OF cleanup_law], assumption, rule wp_mono [OF listen_law])
    (auto simp: wp_def active_law)

lemma cleaned_up:
  "ok w \<Longrightarrow> wp (thn pasv_cleanup pasv_active) (\<lambda>r _. r = 0) (\<lambda>f _. f = Oops ''close'') w"
  unfolding wp_thn
  by (rule wp_mono [OF cleanup_law]) (auto simp: wp_def active_law)

end

definition unlistened :: "vsf_session \<Rightarrow> vsf_session" where
  "unlistened s = s\<lparr>pasv_listen_fd := 0\<rparr>"

lemma cleanup_wp:
  "wp (vsf_privop_pasv_cleanup E) (\<lambda>_ w'. pasv_listen_fd (sess w') = - 1 \<and> unlistened (sess w') = unlistened (sess w))
     (\<lambda>f _. f = Oops ''close'') w"
  by (simp add: vsf_privop_pasv_cleanup_def vsf_sysutil_close_def wp_simps Let_def unlistened_def)

lemma wp_keeps: "keeps I m \<Longrightarrow> I w \<Longrightarrow> wp m Q X w \<Longrightarrow> wp m (\<lambda>a w'. Q a w' \<and> I w') X w"
  using keepsD [of I m w] by (cases "m w"; cases "fst (m w)") (auto simp: wp_def)

lemma listen_wp:
  assumes "pasv_listen_fd (sess w) = - 1"
  shows "wp (vsf_privop_pasv_listen E)
     (\<lambda>port w'. 0 \<le> pasv_listen_fd (sess w') \<and> 1024 \<le> port \<and> unlistened (sess w') = unlistened (sess w))
     (\<lambda>f _. external f) w"
  using assms unfolding vsf_privop_pasv_listen_def wp_bnd wp_basic wp_if
  by (auto simp: listening_def unlistened_def Let_def intro!: wp_faults [OF external_loops(3)]
      wp_mono [OF pasv_listen_loop_wp] intro: order_trans [OF port_range_ordered(2)])

lemma accept_wp:
  "pasv_listen_fd (sess w) \<noteq> - 1 \<Longrightarrow>
   wp (vsf_privop_accept_pasv E) (\<lambda>fd w'. - 2 \<le> fd \<and> sess w' = sess w) (\<lambda>f _. external f) w"
  by (auto simp: vsf_sysutil_retval_is_error_def vsf_privop_accept_pasv_def vsf_sysutil_accept_timeout_def vsf_sysutil_close_def wp_simps
      die_def bug_def Let_def assertion_messages_def)

lemma active_eq: "vsf_privop_pasv_active w = (Inr (if pasv_listen_fd (sess w) \<noteq> - 1 then 1 else 0), w)"
  by (simp add: vsf_privop_pasv_active_def act_defs)

lemma listen_twice_eq:
  "pasv_listen_fd (sess w) \<noteq> - 1 \<Longrightarrow> fst (vsf_privop_pasv_listen E w) = die ''listed fd already active''"
  by (simp add: vsf_privop_pasv_listen_def act_defs)

interpretation one: passive_ops "\<lambda>w. True" "\<lambda>w. pasv_listen_fd (sess w)" "\<lambda>w. unlistened (sess w)"
  "vsf_one_process_pasv_cleanup E" "vsf_one_process_pasv_active E" "vsf_one_process_listen E"
  "vsf_one_process_get_pasv_fd E" for E
proof unfold_locales
  show "wp (vsf_one_process_get_pasv_fd E) (\<lambda>fd w'. - 2 \<le> fd \<and> True \<and> pasv_listen_fd (sess w') = pasv_listen_fd (sess w) \<and>
      unlistened (sess w') = unlistened (sess w)) (\<lambda>f _. external f) w" if "pasv_listen_fd (sess w) \<noteq> - 1" for w
    unfolding vsf_one_process_get_pasv_fd_def by (rule wp_mono [OF accept_wp [OF that]]) simp_all
qed (simp_all add: vsf_one_process_pasv_cleanup_def vsf_one_process_pasv_active_def vsf_one_process_listen_def
      cleanup_wp listen_wp active_eq listen_twice_eq)

lemma wp_agrees:
  assumes "agrees (m2 w) (on_parent m w)" and "wp m Q X (swap w)"
  shows "wp m2 (\<lambda>a w'. Q a (swap w')) (\<lambda>f _. \<exists>v. X f v) w"
proof -
  obtain r v where "m (swap w) = (r, v)" by fastforce
  with assms show ?thesis
    by (cases r; cases "m2 w") (auto simp: wp_def agrees_def on_parent_def)
qed

text \<open>A request leaves the wires idle and the child's session alone.\<close>

lemma wp_two:
  assumes "agrees (m2 w) (on_parent m w)" and "keeps idle m" and "\<And>R. keeps (\<lambda>w. R (parent w)) m" and "idle w"
    and "wp m Q X (swap w)"
  shows "wp m2 (\<lambda>a w'. Q a (swap w') \<and> idle w' \<and> sess w' = sess w) (\<lambda>f _. \<exists>v. X f v) w"
proof -
  have "idle (swap w)" using assms(4) by simp
  from wp_keeps [OF assms(3) [of "\<lambda>s. s = sess w"] _ wp_keeps [OF assms(2) this assms(5)]]
  have "wp m (\<lambda>a w'. (Q a w' \<and> idle w') \<and> parent w' = sess w) X (swap w)" by simp
  from wp_agrees [of m2 w m, OF assms(1) this] show ?thesis by simp
qed

interpretation two: passive_ops "\<lambda>w. idle w \<and> channel_ok E" "\<lambda>w. pasv_listen_fd (parent w)" sess
  "vsf_two_process_pasv_cleanup E" "vsf_two_process_pasv_active E" "vsf_two_process_listen E"
  "vsf_two_process_get_pasv_fd E" for E
proof unfold_locales
  fix w assume "idle w \<and> channel_ok E"
  then have w: "channel_ok E" "idle w" by auto
  show "vsf_two_process_pasv_active E w = (Inr (if pasv_listen_fd (parent w) \<noteq> - 1 then 1 else 0), w)"
    using two_active [OF w] by (cases "vsf_two_process_pasv_active E w")
      (auto simp: agrees_def on_parent_def active_eq)
  show "wp (vsf_two_process_pasv_cleanup E)
      (\<lambda>_ w'. (idle w' \<and> channel_ok E) \<and> pasv_listen_fd (parent w') = - 1 \<and> sess w' = sess w) (\<lambda>f _. f = Oops ''close'') w"
    by (rule wp_mono [OF wp_two [of "vsf_two_process_pasv_cleanup E" w "vsf_privop_pasv_cleanup E",
          OF two_cleanup [OF w] wires.keeps_privops(2) beside.keeps_privops(2) w(2) cleanup_wp]])
      (auto intro: w)
  show "wp (vsf_two_process_listen E) (\<lambda>port w'. (idle w' \<and> channel_ok E) \<and> 0 \<le> pasv_listen_fd (parent w') \<and>
      1024 \<le> port \<and> sess w' = sess w) (\<lambda>f _. external f) w" if "pasv_listen_fd (parent w) = - 1"
    by (rule wp_mono [OF wp_two [of "vsf_two_process_listen E" w "vsf_privop_pasv_listen E",
          OF two_listen [OF w] wires.keeps_privops(4) beside.keeps_privops(4) w(2) listen_wp]])
      (auto intro: w simp: that)
  show "fst (vsf_two_process_listen E w) = die ''listed fd already active''" if "pasv_listen_fd (parent w) \<noteq> - 1"
    using two_listen [OF w] that listen_twice_eq [of "swap w" E]
    by (cases "vsf_privop_pasv_listen E (swap w)") (simp add: agrees_def on_parent_def)
  have accepts: "wp (handed_over E (vsf_privop_accept_pasv E)) (\<lambda>fd w'. - 2 \<le> fd \<and> sess w' = sess (swap w)) (\<lambda>f _. external f) (swap w)"
    if "pasv_listen_fd (parent w) \<noteq> - 1"
    unfolding handed_over_def wp_bnd using that
    by (auto intro!: wp_mono [OF accept_wp] simp: wp_simps vsf_sysutil_close_def Let_def assertion_messages_def)
  have quiet: "keeps I (handed_over E (vsf_privop_accept_pasv E))" if "outside I" for I
    unfolding handed_over_def
    by (intro keeps_intros outside.keeps_privops(5) [OF that] outside.keeps_sysutil(2) [OF that])
  show "wp (vsf_two_process_get_pasv_fd E) (\<lambda>fd w'. - 2 \<le> fd \<and> (idle w' \<and> channel_ok E) \<and>
      pasv_listen_fd (parent w') = pasv_listen_fd (parent w) \<and> sess w' = sess w) (\<lambda>f _. external f) w"
    if "pasv_listen_fd (parent w) \<noteq> - 1"
    by (rule wp_mono [OF wp_two [of "vsf_two_process_get_pasv_fd E" w, OF two_accept [OF w] quiet quiet w(2) accepts [OF that]]])
      (auto intro: w wires.outside_axioms beside.outside_axioms)
qed

section \<open>Properties\<close>

text \<open>C22: the two-process model does what the one-process model does. For a working socket pair with no
  message in flight, every request of the child has exactly the outcome of the operation itself run
  on the parent's session: the same result or the same fault, and on return the same worlds, with no
  message left over. The only differences are that descriptors handed to the child are closed in
  the parent and that the parent connects to the address of the control connection.\<close>

theorem broker_refines:
  assumes "channel_ok E" and "idle w"
  shows "agrees (vsf_two_process_pasv_cleanup E w) (on_parent (vsf_one_process_pasv_cleanup E) w) \<and>
    agrees (vsf_two_process_pasv_active E w) (on_parent (vsf_one_process_pasv_active E) w) \<and>
    agrees (vsf_two_process_listen E w) (on_parent (vsf_one_process_listen E) w) \<and>
    agrees (vsf_two_process_get_pasv_fd E w) (on_parent (handed_over E (vsf_one_process_get_pasv_fd E)) w) \<and>
    (\<forall>port. port_of (p_port_sockaddr (sess w)) = Inr port \<longrightarrow>
       agrees (vsf_two_process_get_priv_data_sock E w)
         (on_parent (handed_over E (vsf_privop_get_ftp_port_sock E port False)) w)) \<and>
    (tb E ''chown_uploads'' \<longrightarrow>
       agrees (vsf_two_process_chown_upload E fd w)
         (on_parent (thn (vsf_one_process_chown_upload E fd) (vsf_sysutil_close E fd)) w))"
  using two_cleanup [OF assms] two_active [OF assms] two_listen [OF assms] two_accept [OF assms]
    two_data_sock [OF assms] two_chown [OF assms]
  by (simp add: vsf_one_process_pasv_cleanup_def vsf_one_process_pasv_active_def vsf_one_process_listen_def
      vsf_one_process_get_pasv_fd_def vsf_one_process_chown_upload_def)

theorem broker_refines_witness:
  "agrees (vsf_two_process_listen bare_env (world_with blank_session []))
     (on_parent (vsf_one_process_listen bare_env) (world_with blank_session []))"
  using broker_refines [of bare_env "world_with blank_session []" 0]
  by (simp add: channel_ok_def idle_def world_with_def)

text \<open>A PASV request always ends with one fresh listener. In both process models, unless the
  process ends, closing the old listener and opening a new one returns an unreserved port and leaves
  a listener that the server sees as active, whether or not one was open before.\<close>

theorem fresh_listener_both_models:
  assumes "channel_ok E" and "idle w"
  shows "wp (thn (vsf_one_process_pasv_cleanup E) (thn (vsf_one_process_listen E) (vsf_one_process_pasv_active E)))
      (\<lambda>r _. r = 1) (\<lambda>_ _. True) w \<and>
    wp (thn (vsf_two_process_pasv_cleanup E) (thn (vsf_two_process_listen E) (vsf_two_process_pasv_active E)))
      (\<lambda>r _. r = 1) (\<lambda>_ _. True) w \<and>
    wp (thn (vsf_one_process_pasv_cleanup E) (vsf_one_process_listen E))
      (\<lambda>port w'. 0 \<le> pasv_listen_fd (sess w') \<and> 1024 \<le> port) (\<lambda>_ _. True) w \<and>
    wp (thn (vsf_two_process_pasv_cleanup E) (vsf_two_process_listen E))
      (\<lambda>port w'. idle w' \<and> 0 \<le> pasv_listen_fd (parent w') \<and> 1024 \<le> port) (\<lambda>_ _. True) w"
  using one.listener_seen [where E = E and w = w] two.listener_seen [where E = E and w = w]
    one.fresh_listener [where E = E and w = w] two.fresh_listener [where E = E and w = w]
    assms by (auto elim!: wp_mono)

theorem fresh_listener_both_models_witness:
  "wp (thn (vsf_two_process_pasv_cleanup bare_env) (vsf_two_process_listen bare_env))
     (\<lambda>port w'. idle w' \<and> 0 \<le> pasv_listen_fd (parent w') \<and> 1024 \<le> port) (\<lambda>_ _. True) (world_with blank_session [])"
  using fresh_listener_both_models [of bare_env "world_with blank_session []"]
  by (simp add: channel_ok_def idle_def world_with_def)

end
