(* ===== verification/Dataio.thy ===== *)
theory Dataio
  imports Broker Ascii
begin

text \<open>
  \<^verbatim>\<open>ftpdataio.c\<close> and the data half of \<^verbatim>\<open>readwrite.c\<close>: opening and closing the data connection, and the
  loops that send a file of the store and receive an upload. Bytes given to the data connection are
  \<open>Data\<close> events whose answer is what the write returned; bytes received are the fragments \<open>data_in\<close>
  of the world, one for each successful read, and the end of the list is the end of the stream.
  Signals are seen at the end of every read and write: the environment says whether the data alarm
  is pending. The i/o handler is installed exactly while \<open>data_fd\<close> is not -1, so its state is that of
  \<open>data_fd\<close>; the pause it makes to keep to a bandwidth limit is one event.
\<close>

record vsf_transfer_ret =
  retval :: int
  transferred :: int

definition VSFTP_DATA_BUFSIZE :: nat where "VSFTP_DATA_BUFSIZE = 65536"

section \<open>Timeouts\<close>

definition start_data_alarm :: "env \<Rightarrow> unit act" where
  "start_data_alarm E =
     (if tu E ''data_connection_timeout'' > 0
      then emit (Sys ''set_alarm'' [] [uint (tu E ''data_connection_timeout'')])
      else if tu E ''idle_session_timeout'' > 0 then emit (Sys ''set_alarm'' [] [0])
      else ret ())"

text \<open>The handler of the data alarm.\<close>

definition handle_sigalrm :: "env \<Rightarrow> unit act" where
  "handle_sigalrm E =
     bnd (gets data_progress) (\<lambda>progress.
     if \<not> progress then
       bnd (gets data_fd) (\<lambda>fd. steps
         [upd (data_timeout_update (\<lambda>_. True)),
          emit (Sys ''shutdown_failok'' [] [fd]),
          emit (Sys ''shutdown_read_failok'' [] [0]),
          or_die E (Sys ''activate_noblock'' [] [0]) ''fcntl''])
     else steps
       [upd (data_progress_update (\<lambda>_. False)),
        start_data_alarm E])"

definition handle_io :: "env \<Rightarrow> int \<Rightarrow> unit act" where
  "handle_io E n =
     (if n \<le> 0 then ret ()
      else thn (upd (data_progress_update (\<lambda>_. True)))
        (bnd (gets bw_rate_max) (\<lambda>m. doif (m \<noteq> 0) (emit (Sys ''bandwidth_pause'' [] [n])))))"

text \<open>\<^verbatim>\<open>vsf_sysutil_check_pending_actions\<close> after i/o on the data connection.\<close>

definition check_pending :: "env \<Rightarrow> int \<Rightarrow> unit act" where
  "check_pending E n =
     thn (handle_io E n)
     (bnd (ask E (Sys ''SIGALRM'' [] [])) (\<lambda>pending. doif (pending \<noteq> 0) (handle_sigalrm E)))"

section \<open>The data connection\<close>

definition init_data_sock_params :: "env \<Rightarrow> int \<Rightarrow> unit act" where
  "init_data_sock_params E sock_fd =
     bnd (gets data_fd) (\<lambda>fd.
     if fd \<noteq> - 1 then lift (bug ''data descriptor still present in init_data_sock_params'')
     else steps
       [upd (data_fd_update (\<lambda>_. sock_fd)),
        upd (data_progress_update (\<lambda>_. False)),
        or_die E (Sys ''keepalive'' [] [sock_fd]) ''setsockopt: keepalive'',
        emit (Sys ''iptos_throughput'' [] [sock_fd]),
        start_data_alarm E])"

definition close_data_ssl :: "env \<Rightarrow> bool act" where
  "close_data_ssl E =
     bnd (gets data_use_ssl) (\<lambda>ssl.
     if ssl then
       thn (start_data_alarm E) (bnd (sys E (Sys ''ssl_data_close'' [] [])) (\<lambda>r. ret (r = 1)))
     else ret True)"

definition linger_data :: "env \<Rightarrow> int \<Rightarrow> bool \<Rightarrow> unit act" where
  "linger_data E fd dispose_ret =
     bnd (gets (\<lambda>s. \<not> abor_received s \<and> \<not> data_timeout s)) (\<lambda>quiet.
     doif (quiet \<and> dispose_ret) (steps
       [start_data_alarm E,
        or_die E (Sys ''activate_linger'' [] [fd]) ''setsockopt: linger'']))"

text \<open>A close that fails, because it was interrupted while it lingered, is repeated without lingering.\<close>

definition close_data :: "env \<Rightarrow> int \<Rightarrow> unit act" where
  "close_data E fd =
     bnd (sys E (Sys ''close_failok'' [] [fd])) (\<lambda>r.
     doif (vsf_sysutil_retval_is_error r) (steps
       [emit (Sys ''deactivate_linger_failok'' [] [fd]),
        emit (Sys ''close_failok'' [] [fd])]))"

definition vsf_ftpdataio_dispose_transfer_fd :: "env \<Rightarrow> bool act" where
  "vsf_ftpdataio_dispose_transfer_fd E =
     bnd (gets data_fd) (\<lambda>fd.
     if fd = - 1 then lift (bug ''no data descriptor in vsf_ftpdataio_dispose_transfer_fd'')
     else
       bnd (close_data_ssl E) (\<lambda>dispose_ret.
       thn (steps
         [linger_data E fd dispose_ret,
          close_data E fd,
          upd (data_fd_update (\<lambda>_. - 1)),
          doif (tu E ''data_connection_timeout'' > 0) (emit (Sys ''set_alarm'' [] [0]))])
       (gets (\<lambda>s. dispose_ret \<and> \<not> abor_received s \<and> \<not> data_timeout s))))"

definition vsf_ftpdataio_get_pasv_fd :: "env \<Rightarrow> int act" where
  "vsf_ftpdataio_get_pasv_fd E =
     bnd (if tb E ''one_process_model'' then vsf_one_process_get_pasv_fd E
          else vsf_two_process_get_pasv_fd E) (\<lambda>remote_fd.
     if remote_fd = - 1 then
       thn (vsf_cmdio_write E 425 ''Failed to establish connection.'') (ret remote_fd)
     else if remote_fd = - 2 then
       thn (vsf_cmdio_write E 425 ''Security: Bad IP connecting.'') (ret (- 1))
     else thn (init_data_sock_params E remote_fd) (ret remote_fd))"

definition vsf_ftpdataio_get_port_fd :: "env \<Rightarrow> int act" where
  "vsf_ftpdataio_get_port_fd E =
     bnd (if tb E ''one_process_model'' \<or> tb E ''port_promiscuous''
          then vsf_one_process_get_priv_data_sock E
          else vsf_two_process_get_priv_data_sock E) (\<lambda>remote_fd.
     if vsf_sysutil_retval_is_error remote_fd then
       thn (vsf_cmdio_write E 425 ''Failed to establish connection.'') (ret (- 1))
     else thn (init_data_sock_params E remote_fd) (ret remote_fd))"

text \<open>The TLS handshake, in this process or in the slave, is one call with answer 1 for success.\<close>

definition vsf_ftpdataio_post_mark_connect :: "env \<Rightarrow> bool act" where
  "vsf_ftpdataio_post_mark_connect E =
     bnd (gets data_use_ssl) (\<lambda>ssl.
     if \<not> ssl then ret True
     else bnd (gets data_fd) (\<lambda>fd.
       bnd (sys E (Sys ''ssl_accept'' [] [fd])) (\<lambda>r.
       if r = 1 then ret True
       else if tb E ''require_ssl_reuse''
       then vsf_cmdio_write_exit E 522 ''SSL connection failed: session reuse required'' 1
       else thn (vsf_cmdio_write E 522 ''SSL connection failed'') (ret False))))"

section \<open>Sizes\<close>

definition get_chunk_size :: "env \<Rightarrow> nat" where
  "get_chunk_size E =
     (let t = unat (tu E ''trans_chunk_size'')
      in if t < VSFTP_DATA_BUFSIZE \<and> t > 0 then if t < 4096 then 4096 else t else VSFTP_DATA_BUFSIZE)"

definition get_cos_download_chunksize :: "env \<Rightarrow> nat" where
  "get_cos_download_chunksize E =
     (let bufsize = 64 * 1024 * 1024; t = unat (tu E ''cos_download_chunk_size'')
      in if t < bufsize \<and> t > 0 then if t < 65536 then 65536 else t else bufsize)"

section \<open>Sending a file\<close>

definition ftp_write_data :: "env \<Rightarrow> bytes \<Rightarrow> int act" where
  "ftp_write_data E p_buf = bnd (sys E (Data p_buf)) (\<lambda>n. thn (check_pending E n) (ret n))"

text \<open>The bytes to write for the bytes read, and whether they end in a CR.\<close>

definition to_network :: "bool \<Rightarrow> bytes \<Rightarrow> bool \<Rightarrow> (bytes \<times> bool) res" where
  "to_network ascii p_readbuf prev_cr =
     (if ascii then
        res_bind (vsf_ascii_bin_to_ascii p_readbuf (replicate (VSFTP_DATA_BUFSIZE * 2) NUL)
                    (length p_readbuf) prev_cr) (\<lambda>(p_asciibuf, r).
        Inr (take (b_stored r) p_asciibuf, b_last_was_cr r))
      else Inr (p_readbuf, prev_cr))"

lemma chunk_size_bounds: "4096 \<le> get_chunk_size E" "get_chunk_size E \<le> VSFTP_DATA_BUFSIZE"
  by (simp_all add: get_chunk_size_def VSFTP_DATA_BUFSIZE_def Let_def)

text \<open>The loop: \<open>dlbuf\<close> is what is left of the last download.\<close>

function send_loop :: "env \<Rightarrow> bytes \<Rightarrow> bool \<Rightarrow> int \<Rightarrow> bool \<Rightarrow> int \<Rightarrow> int \<Rightarrow> bytes \<Rightarrow> vsf_transfer_ret act" where
  "send_loop E path ascii fsize prev_cr sent offset dlbuf =
     (if dlbuf = [] then
        if offset \<ge> fsize then ret \<lparr>retval = 0, transferred = sent\<rparr>
        else bnd (cos_download_file E path (int (get_cos_download_chunksize E)) offset fsize) (\<lambda>(dlbuf_len, got).
          if dlbuf_len < 0 then ret \<lparr>retval = - 1, transferred = sent\<rparr>
          else if dlbuf_len = 0 then ret \<lparr>retval = 0, transferred = sent\<rparr>
          else send_loop E path ascii fsize prev_cr sent (offset + dlbuf_len) got)
      else
        bnd (lift (to_network ascii (take (get_chunk_size E) dlbuf) prev_cr)) (\<lambda>(p_writefrom_buf, prev_cr').
        bnd (ftp_write_data E p_writefrom_buf) (\<lambda>n.
        let sent' = (if vsf_sysutil_retval_is_error n then sent else sent + n) in
        if vsf_sysutil_retval_is_error n \<or> n \<noteq> int (length p_writefrom_buf)
        then ret \<lparr>retval = - 2, transferred = sent'\<rparr>
        else send_loop E path ascii fsize prev_cr' sent' offset (drop (get_chunk_size E) dlbuf))))"
  by pat_completeness auto
termination
proof (relation "measures [\<lambda>(E, path, a, fsize, cr, sent, offset, buf). nat (fsize - offset),
    \<lambda>(E, path, a, fsize, cr, sent, offset, buf). length buf]", goal_cases)
  case (3 E path ascii fsize prev_cr sent offset dlbuf)
  then show ?case using chunk_size_bounds(1) [of E] by (cases dlbuf) auto
qed auto

declare send_loop.simps [simp del]

definition do_file_send_rwloop :: "env \<Rightarrow> bool \<Rightarrow> int \<Rightarrow> int \<Rightarrow> vsf_transfer_ret act" where
  "do_file_send_rwloop E ascii offset fsize =
     bnd (gets ftp_arg_str) (\<lambda>path. send_loop E path ascii fsize False 0 offset [])"

section \<open>Receiving a file\<close>

definition ftp_read_data :: "env \<Rightarrow> bytes option \<Rightarrow> int act" where
  "ftp_read_data E got =
     (let n = (case got of None \<Rightarrow> - 1 | Some b \<Rightarrow> int (length b)) in
      bnd (gets data_fd) (\<lambda>fd.
      thn (emit (Sys ''ftp_read_data'' [] [fd, int (get_chunk_size E)]))
      (thn (check_pending E n) (ret n))))"

text \<open>The fragment stands behind one spare byte at the front of the buffer.\<close>

definition from_network :: "bool \<Rightarrow> bytes \<Rightarrow> bool \<Rightarrow> (bytes \<times> bool) res" where
  "from_network ascii got prev_cr =
     (if ascii then
        res_bind (vsf_ascii_ascii_to_bin (NUL # got @ replicate (VSFTP_DATA_BUFSIZE - length got) NUL)
                    (length got) prev_cr) (\<lambda>(p_recvbuf, r).
        Inr (take (stored r) (drop (ret_off r) p_recvbuf), last_was_cr r))
      else Inr (got, prev_cr))"

text \<open>The comparison with the largest upload, as it is written: a truth value against a size.\<close>

definition too_large :: "env \<Rightarrow> int \<Rightarrow> bool" where
  "too_large E amount =
     (let max_upload_file_size = uint (tu E ''max_upload_file_size'') * 1024
      in (if max_upload_file_size > 0 \<and> amount \<noteq> 0 then 1 else 0) > max_upload_file_size)"

text \<open>One fragment: the result that ends the transfer, or whether a CR is held back.\<close>

definition store_fragment ::
  "env \<Rightarrow> int \<Rightarrow> bool \<Rightarrow> int \<Rightarrow> bool \<Rightarrow> int \<Rightarrow> bytes \<Rightarrow> (vsf_transfer_ret + bool) act" where
  "store_fragment E file_fd ascii have_recv_len prev_cr amount got =
     (if too_large E (amount + have_recv_len) then ret (Inl \<lparr>retval = - 3, transferred = amount\<rparr>)
      else
        bnd (lift (from_network ascii got prev_cr)) (\<lambda>(p_writebuf, prev_cr').
        bnd (sys E (Sys ''write_loop'' [p_writebuf] [file_fd])) (\<lambda>n.
        if vsf_sysutil_retval_is_error n \<or> n \<noteq> int (length p_writebuf)
        then ret (Inl \<lparr>retval = - 1, transferred = amount\<rparr>)
        else ret (Inr prev_cr'))))"

text \<open>The loop over the fragments. After the end of the stream a CR that is held back is written as an
  empty fragment, which holds back nothing, and the next read ends the loop.\<close>

fun recv_loop :: "env \<Rightarrow> int \<Rightarrow> bool \<Rightarrow> int \<Rightarrow> bool \<Rightarrow> int \<Rightarrow> bytes option list \<Rightarrow> vsf_transfer_ret act" where
  "recv_loop E file_fd ascii have_recv_len prev_cr amount [] =
     thn (ftp_read_data E (Some []))
     (if \<not> prev_cr then ret \<lparr>retval = 0, transferred = amount\<rparr>
      else bnd (store_fragment E file_fd ascii have_recv_len prev_cr amount []) (\<lambda>r.
        case r of
          Inl done \<Rightarrow> ret done
        | Inr _ \<Rightarrow> thn (ftp_read_data E (Some [])) (ret \<lparr>retval = 0, transferred = amount\<rparr>)))"
| "recv_loop E file_fd ascii have_recv_len prev_cr amount (got # frags) =
     thn (ftp_read_data E got)
     (case got of
        None \<Rightarrow> ret \<lparr>retval = - 2, transferred = amount\<rparr>
      | Some b \<Rightarrow>
          if b = [] \<and> \<not> prev_cr then ret \<lparr>retval = 0, transferred = amount\<rparr>
          else
            bnd (store_fragment E file_fd ascii have_recv_len prev_cr (amount + int (length b)) b) (\<lambda>r.
            case r of
              Inl done \<Rightarrow> ret done
            | Inr prev_cr' \<Rightarrow>
                recv_loop E file_fd ascii have_recv_len prev_cr' (amount + int (length b)) frags))"

definition take_data :: "bytes option list act" where
  "take_data = (\<lambda>w. (Inr (data_in w), w\<lparr>data_in := []\<rparr>))"

definition do_file_recv :: "env \<Rightarrow> int \<Rightarrow> bool \<Rightarrow> int \<Rightarrow> vsf_transfer_ret act" where
  "do_file_recv E file_fd ascii have_recv_len =
     bnd take_data (recv_loop E file_fd ascii have_recv_len False 0)"

definition vsf_ftpdataio_transfer_file ::
  "env \<Rightarrow> int \<Rightarrow> bool \<Rightarrow> bool \<Rightarrow> int \<Rightarrow> int \<Rightarrow> vsf_transfer_ret act" where
  "vsf_ftpdataio_transfer_file E file_fd is_recv ascii have_recv_len fsize =
     (if \<not> is_recv then do_file_send_rwloop E ascii have_recv_len fsize
      else do_file_recv E file_fd ascii have_recv_len)"

section \<open>Lemmas\<close>

text \<open>The bytes that went over the data connection and into a file.\<close>

fun data_of :: "event \<Rightarrow> bytes" where
  "data_of (Data b) = b"
| "data_of _ = []"

definition sent_data :: "event list \<Rightarrow> bytes" where
  "sent_data es = concat (map data_of es)"

definition file_data :: "int \<Rightarrow> event \<Rightarrow> bytes" where
  "file_data fd e = (case e of Sys f [b] [n] \<Rightarrow> if f = ''write_loop'' \<and> n = fd then b else [] | _ \<Rightarrow> [])"

definition stored_data :: "int \<Rightarrow> event list \<Rightarrow> bytes" where
  "stored_data fd es = concat (map (file_data fd) es)"

text \<open>A trace that grew by events with these effects.\<close>

definition grew :: "(event list \<Rightarrow> bytes) \<Rightarrow> world \<Rightarrow> world \<Rightarrow> bytes \<Rightarrow> bool" where
  "grew f w w' bs \<longleftrightarrow> (\<exists>es. trace w' = trace w @ es \<and> f es = bs)"

lemma grew_refl: "f [] = [] \<Longrightarrow> trace w' = trace w \<Longrightarrow> grew f w w' []"
  by (simp add: grew_def)

lemma grew_trans:
  "grew f u v a \<Longrightarrow> grew f v w b \<Longrightarrow> (\<And>x y. f (x @ y) = f x @ f y) \<Longrightarrow> grew f u w (a @ b)"
  by (fastforce simp: grew_def)

lemma grew_one: "trace w' = trace w @ [e] \<Longrightarrow> f [e] = b \<Longrightarrow> grew f w w' b"
  by (auto simp: grew_def)

lemma effects_append [simp]:
  "sent_data (x @ y) = sent_data x @ sent_data y" "sent_data [] = []"
  "stored_data fd (x @ y) = stored_data fd x @ stored_data fd y" "stored_data fd [] = []"
  by (simp_all add: sent_data_def stored_data_def)

text \<open>Without a pending alarm, the check after i/o moves no data.\<close>

definition no_alarm :: "env \<Rightarrow> bool" where
  "no_alarm E \<longleftrightarrow> (\<forall>tr. answers E tr (Sys ''SIGALRM'' [] []) = 0)"

lemma check_pending_wp:
  assumes "no_alarm E" and "\<And>w'. grew sent_data w w' [] \<Longrightarrow> grew (stored_data fd) w w' [] \<Longrightarrow> Q () w'"
  shows "wp (check_pending E n) Q X w"
  using assms(1)
  by (auto simp: check_pending_def handle_io_def wp_simps no_alarm_def grew_def sent_data_def stored_data_def
      file_data_def intro!: assms(2))

lemma talks_silent:
  assumes "talks (store_event ops) F m" and "\<And>w'. grew sent_data w w' [] \<Longrightarrow> Q1 w'"
  shows "wp m (\<lambda>_ w'. Q1 w') (\<lambda>f _. F f) w"
proof (rule wp_talks [OF assms(1)])
  fix es assume "list_all (store_event ops) es"
  then have "sent_data es = []"
    by (induction es) (auto simp: sent_data_def elim: store_event.elims)
  then show "Q1 (w\<lparr>trace := trace w @ es\<rparr>)" by (intro assms(2)) (auto simp: grew_def)
qed

text \<open>The store path of the requested file, when \<^verbatim>\<open>getcwd\<close> gives \<open>cwd\<close>.\<close>

definition object_path :: "root_conf \<Rightarrow> bytes \<Rightarrow> bytes \<Rightarrow> bytes" where
  "object_path rc cwd path =
     (if path = [] \<or> hd path \<noteq> CHR ''/'' then str_session_getcwd rc (cstr cwd) @ ''/'' @ path else path)"

text \<open>What the store promises for one object: a request for bytes inside it, under the bucket and the path of the object,
  is answered with at least one and at most as many bytes as asked for, and these are the bytes at the offset. Answers may
  be short. Nothing is said of requests for other paths.\<close>

definition serves :: "env \<Rightarrow> root_conf \<Rightarrow> bytes \<Rightarrow> bytes \<Rightarrow> bytes \<Rightarrow> bool" where
  "serves E rc cwd path content \<longleftrightarrow> root_of E = Inr rc \<and> (\<forall>tr. texts E tr (Sys ''getcwd'' [] []) = cwd) \<and>
     (\<forall>tr len off. 0 < len \<and> 0 \<le> off \<and> off + len \<le> int (length content) \<longrightarrow>
        (let p = cstr (object_path rc cwd path);
             n = answers E tr (Sys ''FileDownload'' [cstr (cos_bucket rc), p] [len, off]);
             buff = texts E tr (Sys ''FileDownload'' [p] [len, off])
         in 0 < n \<and> n \<le> len \<and> take (nat n) buff = take (nat n) (drop (nat off) content)))"

text \<open>The client takes all bytes, as the loop of \<^verbatim>\<open>vsf_sysutil_write_loop\<close> does unless the connection fails.\<close>

definition takes_all :: "env \<Rightarrow> bool" where
  "takes_all E \<longleftrightarrow> (\<forall>tr b. answers E tr (Data b) = int (length b))"

definition as_sent :: "bool \<Rightarrow> bool \<Rightarrow> bytes \<Rightarrow> bytes" where
  "as_sent ascii prev_cr bs = (if ascii then lf_to_crlf (carry prev_cr) bs else bs)"

lemma to_network_eq:
  assumes "length bs \<le> VSFTP_DATA_BUFSIZE"
  shows "to_network ascii bs prev_cr = Inr (as_sent ascii prev_cr bs,
    if ascii then last (carry prev_cr # bs) = CR else prev_cr)"
  using bin_to_ascii_fragment [of bs "replicate (VSFTP_DATA_BUFSIZE * 2) NUL" "[]" prev_cr] assms
  by (simp add: to_network_def as_sent_def)

lemma as_sent_append:
  "as_sent ascii prev_cr (bs @ cs) = as_sent ascii prev_cr bs @
     as_sent ascii (if ascii then last (carry prev_cr # bs) = CR else prev_cr) cs"
  by (auto simp: as_sent_def lf_to_crlf_append carry_def intro!: lf_to_crlf_cong)

lemma wp_ret_eta: "wp (ret a) Q X = Q a"
  by (simp add: fun_eq_iff wp_simps)

lemma write_data_wp:
  assumes "takes_all E" and "no_alarm E" and "\<And>w'. grew sent_data w w' b \<Longrightarrow> Q (int (length b)) w'"
  shows "wp (ftp_write_data E b) Q X w"
proof -
  have "wp (check_pending E (int (length b))) (\<lambda>_. Q (int (length b))) X (w\<lparr>trace := trace w @ [Data b]\<rparr>)"
  proof (rule check_pending_wp [OF assms(2), where fd = 0])
    fix w' assume "grew sent_data (w\<lparr>trace := trace w @ [Data b]\<rparr>) w' []"
    then show "Q (int (length b)) w'"
      by (intro assms(3)) (auto simp: grew_def sent_data_def)
  qed
  then show ?thesis using assms(1) by (simp add: ftp_write_data_def takes_all_def wp_simps wp_ret_eta)
qed

lemma cos_path_wp:
  assumes "root_of E = Inr rc" and "\<forall>tr. texts E tr (Sys ''getcwd'' [] []) = cwd" and "Q (object_path rc cwd path) w"
  shows "wp (get_cos_path_from_disk_path E path) Q X w"
  using assms by (auto simp: get_cos_path_from_disk_path_def str_getcwd_def object_path_def wp_simps)

lemma received_exact:
  assumes "take (nat n) buff = take (nat n) rest" and "nat n \<le> length rest"
  shows "received n buff = take (nat n) rest"
proof -
  have "length (take (nat n) buff) = nat n" using assms by simp
  then have "nat n \<le> length buff" by simp
  then show ?thesis using assms(1) by (simp add: received_def)
qed

lemma download_wp:
  assumes "serves E rc cwd path content" and "0 < len" and "0 \<le> off" and "off + len \<le> int (length content)"
    and "\<And>w' n. grew sent_data w w' [] \<Longrightarrow> 0 < n \<Longrightarrow> n \<le> length (drop (nat off) content) \<Longrightarrow>
      Q (int n, take n (drop (nat off) content)) w'"
  shows "wp (download_tries E (object_path rc cwd path) len off (Suc k)) Q X w"
proof -
  let ?p = "cstr (object_path rc cwd path)" and ?rest = "drop (nat off) content"
  define n where "n = answers E (trace w) (Sys ''FileDownload'' [cstr (cos_bucket rc), ?p] [len, off])"
  have n: "0 < n" "n \<le> len" "take (nat n) (texts E (trace w) (Sys ''FileDownload'' [?p] [len, off])) = take (nat n) ?rest"
    and rc: "root_of E = Inr rc"
    using assms(1-4) unfolding serves_def Let_def n_def by blast+
  have le: "nat n \<le> length ?rest" using n(1,2) assms(3,4) by simp
  have "Q (n, take (nat n) ?rest) (w\<lparr>trace := trace w @ [Sys ''FileDownload'' [cstr (cos_bucket rc), ?p] [len, off]]\<rparr>)"
    using assms(5) [of "w\<lparr>trace := trace w @ [Sys ''FileDownload'' [cstr (cos_bucket rc), ?p] [len, off]]\<rparr>" "nat n"] n(1) le
    by (simp add: grew_def sent_data_def)
  then show ?thesis using n(1) rc received_exact [OF n(3) le]
    by (simp add: cos_request_def wp_simps n_def [symmetric])
qed

lemma cos_download_wp:
  assumes "serves E rc cwd path content" and "0 \<le> offset" and "offset < int (length content)"
    and "int (length content) < 2 ^ 63" and "0 < bufsize"
    and "\<And>w' n. grew sent_data w w' [] \<Longrightarrow> 0 < n \<Longrightarrow> n \<le> length (drop (nat offset) content) \<Longrightarrow>
      Q (int n, take n (drop (nat offset) content)) w'"
  shows "wp (cos_download_file E path bufsize offset (int (length content))) Q X w"
proof -
  let ?left = "int (length content) - offset"
  have left: "?left mod 2 ^ 64 = ?left" "0 < ?left" using assms(2-4) by simp_all
  have "wp (download_tries E (object_path rc cwd path) (if bufsize > ?left then ?left else bufsize) offset (Suc 1)) Q X w"
    by (rule download_wp [OF assms(1) _ assms(2)]) (use left(2) assms(5,6) in auto)
  moreover have "root_of E = Inr rc" "\<forall>tr. texts E tr (Sys ''getcwd'' [] []) = cwd"
    using assms(1) by (simp_all add: serves_def)
  ultimately show ?thesis
    unfolding cos_download_file_def Let_def wp_bnd left(1)
    by (intro cos_path_wp [where rc = rc and cwd = cwd]) (simp_all add: numeral_2_eq_2)
qed

text \<open>The conditions of a complete download.\<close>

definition good_download :: "env \<Rightarrow> bytes \<Rightarrow> bytes \<Rightarrow> bool" where
  "good_download E path content \<longleftrightarrow> (\<exists>rc cwd. serves E rc cwd path content) \<and> takes_all E \<and> no_alarm E \<and>
     int (length content) < 2 ^ 63"

lemma sent_then: "grew sent_data u v a \<Longrightarrow> grew sent_data v w b \<Longrightarrow> grew sent_data u w (a @ b)"
  by (rule grew_trans) simp_all

lemma cos_chunk_pos: "0 < get_cos_download_chunksize E"
  by (simp add: get_cos_download_chunksize_def Let_def)

lemma send_loop_wp:
  "good_download E path content \<Longrightarrow> 0 \<le> offset \<Longrightarrow> fsize = int (length content) \<Longrightarrow>
    wp (send_loop E path ascii fsize prev_cr sent offset dlbuf)
      (\<lambda>r w'. let out = as_sent ascii prev_cr (dlbuf @ drop (nat offset) content) in
         r = \<lparr>retval = 0, transferred = sent + int (length out)\<rparr> \<and> grew sent_data w w' out)
      (\<lambda>_ _. False) w"
proof (induction E path ascii fsize prev_cr sent offset dlbuf arbitrary: w rule: send_loop.induct)
  case (1 E path ascii fsize prev_cr sent offset dlbuf)
  obtain rc cwd where good: "serves E rc cwd path content" "takes_all E" "no_alarm E"
    "int (length content) < 2 ^ 63" using 1(3) by (auto simp: good_download_def)
  let ?Q = "\<lambda>cr n bs w r w'. let out = as_sent ascii cr bs in
    r = \<lparr>retval = 0, transferred = n + int (length out)\<rparr> \<and> grew sent_data w w' out"
  show ?case
  proof (cases "dlbuf = []")
    case empty: True
    show ?thesis
    proof (cases "offset \<ge> fsize")
      case True
      then show ?thesis using empty 1(5) by (simp add: send_loop.simps wp_simps as_sent_def grew_refl)
    next
      case more: False
      have "wp (send_loop E path ascii fsize prev_cr sent (offset + int n) (take n (drop (nat offset) content)))
          (?Q prev_cr sent (drop (nat offset) content) w) (\<lambda>_ _. False) w'"
        if "grew sent_data w w' []" "0 < n" "n \<le> length (drop (nat offset) content)" for w' n
      proof -
        have "nat (offset + int n) = n + nat offset" using 1(4) by simp
        then have "take n (drop (nat offset) content) @ drop (nat (offset + int n)) content = drop (nat offset) content"
          by (simp only: drop_drop [symmetric] append_take_drop_id)
        then have "wp (send_loop E path ascii fsize prev_cr sent (offset + int n) (take n (drop (nat offset) content)))
            (?Q prev_cr sent (drop (nat offset) content) w') (\<lambda>_ _. False) w'"
          using 1(1) [OF empty more, of "int n" "take n (drop (nat offset) content)" w'] that(2) 1(3-5) by simp
        then show ?thesis
          by (rule wp_mono) (auto simp: Let_def dest: sent_then [OF that(1)])
      qed
      then show ?thesis
        unfolding send_loop.simps [of E path ascii fsize prev_cr sent offset dlbuf] wp_bnd
        using empty more 1(5) cos_chunk_pos [of E]
        by (auto simp: wp_if wp_bnd intro!: cos_download_wp [OF good(1) 1(4) _ good(4)])
    qed
  next
    case False
    let ?now = "take (get_chunk_size E) dlbuf" and ?later = "drop (get_chunk_size E) dlbuf"
    let ?cr = "if ascii then last (carry prev_cr # ?now) = CR else prev_cr" and ?out = "as_sent ascii prev_cr ?now"
    have tn: "to_network ascii ?now prev_cr = Inr (?out, ?cr)"
      using chunk_size_bounds(2) [of E] by (intro to_network_eq) simp
    have split: "as_sent ascii prev_cr (dlbuf @ drop (nat offset) content) =
        ?out @ as_sent ascii ?cr (?later @ drop (nat offset) content)"
      using as_sent_append [of ascii prev_cr ?now "?later @ drop (nat offset) content"]
      by (simp only: append_assoc [symmetric] append_take_drop_id)
    have "wp (send_loop E path ascii fsize ?cr (sent + int (length ?out)) offset ?later)
        (?Q prev_cr sent (dlbuf @ drop (nat offset) content) w) (\<lambda>_ _. False) w'"
      if "grew sent_data w w' ?out" for w'
    proof -
      have "wp (send_loop E path ascii fsize ?cr (sent + int (length ?out)) offset ?later)
          (?Q ?cr (sent + int (length ?out)) (?later @ drop (nat offset) content) w') (\<lambda>_ _. False) w'"
        using 1(2) [OF False, of "sent + int (length ?out)" "int (length ?out)" ?out ?cr w'] 1(3-5)
        by (simp add: vsf_sysutil_retval_is_error_def)
      then show ?thesis
        by (rule wp_mono) (auto simp: Let_def split dest: sent_then [OF that])
    qed
    then show ?thesis
      unfolding send_loop.simps [of E path ascii fsize prev_cr sent offset dlbuf]
      using False good(2,3) by (auto simp: wp_simps tn Let_def vsf_sysutil_retval_is_error_def intro!: write_data_wp)
  qed
qed

section \<open>Lemmas: receiving\<close>

definition stores_all :: "env \<Rightarrow> int \<Rightarrow> bool" where
  "stores_all E fd \<longleftrightarrow> (\<forall>tr b. answers E tr (Sys ''write_loop'' [b] [fd]) = int (length b))"

lemma never_too_large: "\<not> too_large E n"
  by (simp add: too_large_def Let_def)

lemma from_network_eq:
  assumes "length b \<le> VSFTP_DATA_BUFSIZE"
  shows "from_network ascii b prev_cr =
    Inr (if ascii then (held prev_cr b @ fst (a2b b), snd (a2b b)) else (b, prev_cr))"
  using ascii_to_bin_fragment [of b "NUL # b @ replicate (VSFTP_DATA_BUFSIZE - length b) NUL" prev_cr] assms
  by (auto simp: from_network_def)

lemma read_data_wp:
  assumes "no_alarm E" and "\<And>n w'. grew (stored_data fd) w w' [] \<Longrightarrow> Q n w'"
  shows "wp (ftp_read_data E got) Q X w"
proof -
  have "wp (check_pending E n) (\<lambda>_. Q n) X (w\<lparr>trace := trace w @ [Sys ''ftp_read_data'' [] ns]\<rparr>)" for n ns
  proof (rule check_pending_wp [OF assms(1), where fd = fd])
    fix w' assume "grew (stored_data fd) (w\<lparr>trace := trace w @ [Sys ''ftp_read_data'' [] ns]\<rparr>) w' []"
    then show "Q n w'" by (intro assms(2)) (auto simp: grew_def stored_data_def file_data_def)
  qed
  then show ?thesis by (simp add: ftp_read_data_def Let_def wp_simps wp_ret_eta)
qed

lemma store_fragment_wp:
  assumes "stores_all E fd" and "length b \<le> VSFTP_DATA_BUFSIZE"
    and "\<And>w'. grew (stored_data fd) w w' (if ascii then held cr b @ fst (a2b b) else b) \<Longrightarrow>
      Q (Inr (if ascii then snd (a2b b) else cr)) w'"
  shows "wp (store_fragment E fd ascii have cr n b) Q X w"
proof -
  have one: "grew (stored_data fd) w (w\<lparr>trace := trace w @ [Sys ''write_loop'' [x] [fd]]\<rparr>) x" for x
    by (auto simp: grew_def stored_data_def file_data_def)
  show ?thesis
    using assms(1) one assms(3)
    by (auto simp: store_fragment_def never_too_large from_network_eq [OF assms(2)] wp_simps stores_all_def
        vsf_sysutil_retval_is_error_def split: if_splits)
qed

lemma stored_then: "grew (stored_data fd) u v a \<Longrightarrow> grew (stored_data fd) v w b \<Longrightarrow> grew (stored_data fd) u w (a @ b)"
  by (rule grew_trans) simp_all

lemma recv_loop_wp:
  assumes "stores_all E fd" and "no_alarm E"
  shows "\<forall>b \<in> set frags. b \<noteq> [] \<and> length b \<le> VSFTP_DATA_BUFSIZE \<Longrightarrow> \<not> ascii \<longrightarrow> \<not> cr \<Longrightarrow>
    wp (recv_loop E fd ascii have cr n (map Some frags))
      (\<lambda>r w'. r = \<lparr>retval = 0, transferred = n + int (length (concat frags))\<rparr> \<and>
         grew (stored_data fd) w w' (if ascii then a2b_stream cr frags else concat frags))
      (\<lambda>_ _. False) w"
proof (induction frags arbitrary: cr n w)
  case Nil
  have last: "wp (ftp_read_data E (Some [])) (\<lambda>_. wp (ret \<lparr>retval = 0, transferred = n\<rparr>)
      (\<lambda>r w'. r = \<lparr>retval = 0, transferred = n\<rparr> \<and> grew (stored_data fd) w w' out) (\<lambda>_ _. False)) (\<lambda>_ _. False) v"
    if "grew (stored_data fd) w v out" for v out
    by (rule read_data_wp [OF assms(2)]) (auto simp: wp_simps dest: stored_then [OF that])
  show ?case
    unfolding list.map recv_loop.simps wp_thn
  proof (rule read_data_wp [OF assms(2)])
    fix m v assume v: "grew (stored_data fd) w v []"
    show "wp (if \<not> cr then ret \<lparr>retval = 0, transferred = n\<rparr>
        else bnd (store_fragment E fd ascii have cr n []) (\<lambda>r. case r of Inl done \<Rightarrow> ret done
          | Inr _ \<Rightarrow> thn (ftp_read_data E (Some [])) (ret \<lparr>retval = 0, transferred = n\<rparr>)))
      (\<lambda>r w'. r = \<lparr>retval = 0, transferred = n + int (length (concat []))\<rparr> \<and>
         grew (stored_data fd) w w' (if ascii then a2b_stream cr [] else concat [])) (\<lambda>_ _. False) v"
    proof (cases cr)
      case True
      then show ?thesis using Nil(2) last
        by (auto simp: wp_bnd wp_thn dest: stored_then [OF v] intro!: store_fragment_wp [OF assms(1)])
    qed (use v in \<open>simp add: wp_simps held_def\<close>)
  qed
next
  case (Cons b frags)
  have b: "b \<noteq> []" "length b \<le> VSFTP_DATA_BUFSIZE" using Cons(2) by auto
  then have not_empty: "\<not> (b = [] \<and> \<not> cr)" by simp
  let ?cr = "if ascii then snd (a2b b) else cr" and ?n = "n + int (length b)"
  let ?out = "if ascii then held cr b @ fst (a2b b) else b"
  have step: "wp (recv_loop E fd ascii have ?cr ?n (map Some frags))
      (\<lambda>r w'. r = \<lparr>retval = 0, transferred = n + int (length (concat (b # frags)))\<rparr> \<and>
         grew (stored_data fd) w w' (if ascii then a2b_stream cr (b # frags) else concat (b # frags)))
      (\<lambda>_ _. False) v" if "grew (stored_data fd) w v ?out" for v
    by (rule wp_mono [OF Cons.IH]) (use Cons(2,3) in \<open>auto dest: stored_then [OF that] split: if_splits\<close>)
  show ?case
    unfolding list.map recv_loop.simps wp_thn option.case
  proof (rule read_data_wp [OF assms(2)])
    fix m v assume v: "grew (stored_data fd) w v []"
    show "wp (if b = [] \<and> \<not> cr then ret \<lparr>retval = 0, transferred = n\<rparr>
        else bnd (store_fragment E fd ascii have cr ?n b) (\<lambda>r. case r of Inl done \<Rightarrow> ret done
          | Inr cr' \<Rightarrow> recv_loop E fd ascii have cr' ?n (map Some frags)))
      (\<lambda>r w'. r = \<lparr>retval = 0, transferred = n + int (length (concat (b # frags)))\<rparr> \<and>
         grew (stored_data fd) w w' (if ascii then a2b_stream cr (b # frags) else concat (b # frags)))
      (\<lambda>_ _. False) v"
      unfolding if_not_P [OF not_empty] wp_bnd
    proof (rule store_fragment_wp [OF assms(1) b(2)])
      fix w' assume "grew (stored_data fd) v w' ?out"
      from stored_then [OF v this] have "grew (stored_data fd) w w' ?out" by simp
      from step [OF this] show "wp (case Inr ?cr of Inl done \<Rightarrow> ret done
          | Inr cr' \<Rightarrow> recv_loop E fd ascii have cr' ?n (map Some frags))
        (\<lambda>r w'. r = \<lparr>retval = 0, transferred = n + int (length (concat (b # frags)))\<rparr> \<and>
           grew (stored_data fd) w w' (if ascii then a2b_stream cr (b # frags) else concat (b # frags)))
        (\<lambda>_ _. False) w'" by (simp only: sum.case)
    qed
  qed
qed

section \<open>Properties\<close>

text \<open>C20: a download sends the file. Let the store serve the object that the argument of the session names
  under the configured bucket: a request inside the object returns at least one byte and possibly fewer
  than were asked for, and they are the object's bytes at the offset. Let further every write to the
  client succeed and no timeout strike. Then \<^verbatim>\<open>do_file_send_rwloop\<close> ends with success for every start
  offset, download size and chunk size, and the bytes on the data connection are exactly those of the
  object from the offset on, in ASCII mode with a CR before every LF that lacks one; the count it
  returns is the number of bytes sent. An answer of the store without any byte is excluded: the code
  takes it for the end of the file (\<open>download_cut_short\<close>).\<close>

theorem download_exact:
  assumes "good_download E (ftp_arg_str (sess w)) content" and "0 \<le> offset"
  defines "bytes \<equiv> drop (nat offset) content"
  shows "\<exists>w'. do_file_send_rwloop E ascii offset (int (length content)) w =
      (Inr \<lparr>retval = 0, transferred = int (length (if ascii then lf_to_crlf NUL bytes else bytes))\<rparr>, w') \<and>
    (\<exists>es. trace w' = trace w @ es \<and> sent_data es = (if ascii then lf_to_crlf NUL bytes else bytes))"
proof -
  have "wp (do_file_send_rwloop E ascii offset (int (length content)))
      (\<lambda>r w'. let out = as_sent ascii False bytes in
         r = \<lparr>retval = 0, transferred = int (length out)\<rparr> \<and> grew sent_data w w' out) (\<lambda>_ _. False) w"
    unfolding do_file_send_rwloop_def wp_simps bytes_def
    using send_loop_wp [OF assms(1,2) refl, of ascii False 0 "[]" w] by simp
  from wp_total [OF this] show ?thesis
    by (auto simp: Let_def as_sent_def carry_def grew_def split: if_splits)
qed

text \<open>A store with one file, which answers with two bytes at a time, and a client that takes everything.\<close>

definition one_file_env :: "bytes \<Rightarrow> env" where
  "one_file_env content = bare_env\<lparr>tun := \<lparr>tbool = (\<lambda>v. False), tuint = (\<lambda>v. 0), tstr = (\<lambda>v. Some ''x'')\<rparr>,
     answers := (\<lambda>tr e. case e of Data b \<Rightarrow> int (length b) | Out b \<Rightarrow> int (length b)
                  | Sys f bs ns \<Rightarrow> if f = ''write_loop'' then int (length (concat bs))
                      else if f = ''FileDownload'' then min 2 (hd ns) else 0),
     texts := (\<lambda>tr e. case e of Sys f bs [len, off] \<Rightarrow> take (nat len) (drop (nat off) content) | _ \<Rightarrow> ''/'')\<rparr>"

theorem download_exact_witness:
  "\<exists>w'. do_file_send_rwloop (one_file_env ''hello'') False 2 5 (world_with blank_session []) =
      (Inr \<lparr>retval = 0, transferred = 3\<rparr>, w') \<and> (\<exists>es. trace w' = trace (world_with blank_session []) @ es \<and> sent_data es = ''llo'')"
proof -
  have "serves (one_file_env ''hello'') \<lparr>user_home_dir = ''x'', cos_appid = ''x'', cos_bucket = ''x''\<rparr> ''/'' path ''hello''" for path
    by (auto simp: one_file_env_def root_of_def serves_def min_def)
  then have "good_download (one_file_env ''hello'') (ftp_arg_str (sess (world_with blank_session []))) ''hello''"
    by (auto simp: good_download_def one_file_env_def takes_all_def no_alarm_def)
  from download_exact [OF this, of 2 False] show ?thesis
    by (simp add: numeral_2_eq_2)
qed

text \<open>C21: an upload within the size limit stores what was sent. When the stream, with the bytes that were
  there before, is not larger than \<^verbatim>\<open>max_upload_file_size\<close> (or there is no limit), the writes to the file
  succeed, no timeout strikes and the stream arrives in any fragments that fit in the buffer, then
  \<^verbatim>\<open>do_file_recv\<close> ends with success, returns the number of bytes received, and the bytes it wrote to the
  file are exactly the stream, in ASCII mode with every CR LF turned into LF and every other CR kept,
  also where fragments split a pair. For larger streams the intended result is a refusal, which the code
  never gives (\<open>upload_limit_ignored\<close>).\<close>

theorem upload_exact:
  assumes "stores_all E fd" and "no_alarm E" and "data_in w = map Some frags"
    and "\<forall>b \<in> set frags. b \<noteq> [] \<and> length b \<le> VSFTP_DATA_BUFSIZE"
    and "tu E ''max_upload_file_size'' = 0 \<or>
      have_recv_len + int (length (concat frags)) \<le> uint (tu E ''max_upload_file_size'') * 1024"
  shows "\<exists>w'. do_file_recv E fd ascii have_recv_len w =
      (Inr \<lparr>retval = 0, transferred = int (length (concat frags))\<rparr>, w') \<and>
    (\<exists>es. trace w' = trace w @ es \<and>
       stored_data fd es = (if ascii then crlf_to_lf (concat frags) else concat frags))"
proof -
  have stream: "a2b_stream False frags = crlf_to_lf (concat frags)"
    using assms(4) by (subst a2b_stream_eq) (simp_all add: held_def)
  have "wp (do_file_recv E fd ascii have_recv_len)
      (\<lambda>r w'. r = \<lparr>retval = 0, transferred = 0 + int (length (concat frags))\<rparr> \<and>
         grew (stored_data fd) w w' (if ascii then a2b_stream False frags else concat frags)) (\<lambda>_ _. False) w"
    using recv_loop_wp [OF assms(1,2,4), of ascii False have_recv_len 0 "w\<lparr>data_in := []\<rparr>"]
    by (simp add: do_file_recv_def wp_bnd take_data_def wp_def [of "\<lambda>w. (Inr (data_in w), w\<lparr>data_in := []\<rparr>)"]
        assms(3) grew_def cong: if_cong)
  from wp_total [OF this] show ?thesis by (auto simp: grew_def stream)
qed

theorem upload_exact_witness:
  "\<exists>w'. do_file_recv (one_file_env []) 7 True 0 ((world_with blank_session [])\<lparr>data_in := map Some [[CHR ''a'', CR], [LF]]\<rparr>) =
      (Inr \<lparr>retval = 0, transferred = 3\<rparr>, w') \<and>
    (\<exists>es. trace w' = trace ((world_with blank_session [])\<lparr>data_in := map Some [[CHR ''a'', CR], [LF]]\<rparr>) @ es \<and>
       stored_data 7 es = [CHR ''a'', LF])"
proof -
  have "stores_all (one_file_env []) 7" "no_alarm (one_file_env [])"
    by (simp_all add: stores_all_def no_alarm_def one_file_env_def)
  moreover have "tu (one_file_env []) ''max_upload_file_size'' = 0" by (simp add: one_file_env_def)
  moreover have "crlf_to_lf (concat [[CHR ''a'', CR], [LF]]) = [CHR ''a'', LF]" by code_simp
  ultimately show ?thesis
    using upload_exact [of "one_file_env []" 7 "(world_with blank_session [])\<lparr>data_in := map Some [[CHR ''a'', CR], [LF]]\<rparr>"
        "[[CHR ''a'', CR], [LF]]" 0 True]
    by (simp add: VSFTP_DATA_BUFSIZE_def)
qed

text \<open>The limit on the size of an upload is never applied, and a download of which the store returns
  no more bytes ends with success before the end of the file.\<close>

lemma fragment_result:
  "wp (store_fragment E fd ascii have cr n b) (\<lambda>r _. \<forall>d. r = Inl d \<longrightarrow> retval d \<noteq> - 3) (\<lambda>_ _. True) w"
  by (auto simp: store_fragment_def never_too_large wp_simps split: sum.split)

lemma recv_loop_result:
  "wp (recv_loop E fd ascii have cr n frags) (\<lambda>r _. retval r \<noteq> - 3) (\<lambda>_ _. True) w"
proof (induction frags arbitrary: cr n w)
  case Nil
  have "wp (bnd (store_fragment E fd ascii have cr n []) (\<lambda>r. case r of Inl done \<Rightarrow> ret done
      | Inr _ \<Rightarrow> thn (ftp_read_data E (Some [])) (ret \<lparr>retval = 0, transferred = n\<rparr>)))
    (\<lambda>r _. retval r \<noteq> - 3) (\<lambda>_ _. True) v" for v
    unfolding wp_bnd by (rule wp_mono [OF fragment_result]) (auto simp: wp_simps intro: wp_skip split: sum.split)
  note frag = this
  show ?case unfolding recv_loop.simps wp_thn by (rule wp_skip) (use frag in \<open>cases cr; simp add: wp_simps\<close>)
next
  case (Cons got frags)
  have "wp (bnd (store_fragment E fd ascii have cr m b) (\<lambda>r. case r of Inl done \<Rightarrow> ret done
      | Inr cr' \<Rightarrow> recv_loop E fd ascii have cr' m frags)) (\<lambda>r _. retval r \<noteq> - 3) (\<lambda>_ _. True) v" for v m b
    unfolding wp_bnd by (rule wp_mono [OF fragment_result]) (auto simp: wp_simps Cons split: sum.split)
  note frag = this
  show ?case
    unfolding recv_loop.simps wp_thn by (rule wp_skip) (use frag in \<open>auto simp: wp_basic split: option.split\<close>)
qed

lemma upload_limit_ignored:
  assumes "do_file_recv E fd ascii have_recv_len w = (Inr r, w')"
  shows "retval r \<noteq> - 3"
proof -
  have "wp (do_file_recv E fd ascii have_recv_len) (\<lambda>r _. retval r \<noteq> - 3) (\<lambda>_ _. True) w"
    unfolding do_file_recv_def wp_bnd by (rule wp_skip) (rule recv_loop_result)
  from wp_Inr [OF this assms] show ?thesis .
qed

lemma download_cut_short:
  "offset < fsize \<Longrightarrow>
   cos_download_file E path (int (get_cos_download_chunksize E)) offset fsize w = (Inr (0, []), w') \<Longrightarrow>
   send_loop E path ascii fsize cr sent offset [] w = (Inr \<lparr>retval = 0, transferred = sent\<rparr>, w')"
  by (simp add: send_loop.simps [of E path ascii fsize cr sent offset "[]"] act_defs)

end
