(* ===== verification/Ls.thy ===== *)
theory Ls
  imports Dataio StrList
begin

text \<open>
  Directory listings: \<^verbatim>\<open>cos_get_list\<close> of \<^verbatim>\<open>cosswitch.cpp\<close>, the listing half of \<^verbatim>\<open>ls.c\<close> and the
  functions of \<^verbatim>\<open>ftpdataio.c\<close> that write a listing. The pages the store answers a listing with are a
  finite list given by the environment; a request behind its end fails. A string list is its
  contents, pairs of a line and its sort key (\<open>StrList\<close> shows that the array behaves so).
\<close>

section \<open>The listing of the store\<close>

text \<open>The entries of one page that pass the filter, and whether the largest count was reached.\<close>

fun take_infos :: "bytes option \<Rightarrow> nat \<Rightarrow> file_info list \<Rightarrow> file_info list \<Rightarrow> file_info list \<times> bool" where
  "take_infos filt max_count flist [] = (flist, False)"
| "take_infos filt max_count flist (info # rest) =
     (if (case filt of None \<Rightarrow> False | Some f \<Rightarrow> \<not> fst (vsf_filename_passes_filter (file_name info) f 0))
      then take_infos filt max_count flist rest
      else let flist' = flist @ [info] in
           if max_count > 0 \<and> length flist' \<ge> max_count then (flist', True)
           else take_infos filt max_count flist' rest)"

function get_list_loop ::
  "env \<Rightarrow> bytes \<Rightarrow> bytes option \<Rightarrow> file_info list \<Rightarrow> nat \<Rightarrow> bytes \<Rightarrow> list_page option list \<Rightarrow> file_info list act" where
  "get_list_loop E p filt flist try_times context resps =
     (if try_times = 0 then ret flist
      else bnd (cos_request E ''FolderList'' [p, context] [1000]) (\<lambda>_.
        case resps of
          Some page # rest \<Rightarrow>
            let (flist', full) = take_infos filt (unat (tu E ''list_max_count'')) flist (infos page) in
            if full \<or> listover page then ret flist'
            else get_list_loop E p filt flist' try_times (next_context page) rest
        | None # rest \<Rightarrow>
            thn (log_response E kVSFLogEntryDebug) (get_list_loop E p filt flist (try_times - 1) context rest)
        | [] \<Rightarrow>
            thn (log_response E kVSFLogEntryDebug) (get_list_loop E p filt flist (try_times - 1) context [])))"
  by pat_completeness auto
termination
  by (relation "measure (\<lambda>(E, p, filt, l, n, c, resps). n + length resps)") auto

declare get_list_loop.simps [simp del]

definition cos_get_list :: "env \<Rightarrow> bytes \<Rightarrow> bytes option \<Rightarrow> file_info list act" where
  "cos_get_list E path filt =
     bnd (get_cos_path_from_disk_path E path) (\<lambda>p. (\<lambda>w.
     get_list_loop E (with_slash p) filt [] 2 [] (pages E (trace w) (Sys ''FolderList'' [with_slash p] [])) w))"

section \<open>Lines\<close>

definition time_get_date :: "env \<Rightarrow> int \<Rightarrow> bool \<Rightarrow> int \<Rightarrow> bytes act" where
  "time_get_date E t use_localtime curr_time =
     (let p_date_format = (if t > curr_time \<or> curr_time - t > 60 * 60 * 24 * 182 then ''%b %d  %Y'' else ''%b %d %H:%M'')
      in bnd (ask_text E (Sys ''strftime'' [p_date_format] [t, if use_localtime then 1 else 0])) (\<lambda>date.
         if date = [] then lift (die ''strftime'') else ret (cstr (take 63 date))))"

definition build_dir_line :: "env \<Rightarrow> bytes \<Rightarrow> file_info \<Rightarrow> int \<Rightarrow> bytes act" where
  "build_dir_line E p_filename_str p_stat curr_time =
     bnd (time_get_date E (mtime p_stat) (tb E ''use_localtime'') curr_time) (\<lambda>date.
     ret ((if info_type p_stat = 1 then ''-'' else ''d'') @ ''---------'' @ '' '' @
          v_lpad (vsf_sysutil_ulong_to_str 1) 4 @ '' '' @
          v_rpad ''ftp'' 8 @ '' '' @
          v_rpad ''ftp'' 8 @ '' '' @
          v_lpad (vsf_sysutil_filesize_t_to_str (file_size p_stat)) 8 @ '' '' @
          date @ '' '' @ p_filename_str @ [CR, LF]))"

definition list_line :: "env \<Rightarrow> bool \<Rightarrow> bytes \<Rightarrow> bytes \<Rightarrow> file_info \<Rightarrow> int \<Rightarrow> bytes act" where
  "list_line E is_verbose name path info curr_time =
     (if is_verbose then build_dir_line E name info curr_time else ret (path @ [CR, LF]))"

text \<open>The key of the time order: the number padded with zeros to 30 places.\<close>

definition time_key :: "int \<Rightarrow> bytes" where
  "time_key t = (let d = vsf_sysutil_ulong_to_str (nat (abs t));
                     sign = (if t < 0 then ''-'' else [])
                 in sign @ replicate (30 - length sign - length d) CHR ''0'' @ d)"

definition compare_lines :: "bool \<Rightarrow> bytes \<times> bytes \<Rightarrow> bytes \<times> bytes \<Rightarrow> int" where
  "compare_lines reverse x y =
     (let key = (\<lambda>(l, k). if k \<noteq> [] then k else l)
      in if reverse then str_strcmp (key y) (key x) else str_strcmp (key x) (key y))"

fun dir_lines :: "env \<Rightarrow> bool \<Rightarrow> bool \<Rightarrow> bytes \<Rightarrow> int \<Rightarrow> file_info list \<Rightarrow> (bytes \<times> bytes) list act" where
  "dir_lines E is_verbose t_option base curr_time [] = ret []"
| "dir_lines E is_verbose t_option base curr_time (info # rest) =
     bnd (list_line E is_verbose (file_name info) (base @ file_name info) info curr_time) (\<lambda>l.
     bnd (dir_lines E is_verbose t_option base curr_time rest) (\<lambda>ls.
     ret ((l, if t_option then time_key (mtime info) else file_name info) # ls)))"

definition normalised_base :: "bytes \<Rightarrow> bytes" where
  "normalised_base base =
     (if base = ''.'' \<or> base = [] then [] else if last base \<noteq> CHR ''/'' then base @ ''/'' else base)"

definition vsf_ls_populate_dir_list ::
  "env \<Rightarrow> bytes \<Rightarrow> bytes \<Rightarrow> bytes \<Rightarrow> bool \<Rightarrow> bool \<Rightarrow> (bytes \<times> bytes) list act" where
  "vsf_ls_populate_dir_list E p_base_dir_str p_option_str p_filter_str verbose is_stat =
     (let t_option = found (str_locate_char p_option_str CHR ''t'');
          r0 = found (str_locate_char p_option_str CHR ''r'');
          r_option = (if t_option then \<not> r0 else r0);
          is_verbose = verbose \<or> found (str_locate_char p_option_str CHR ''l'');
          base = normalised_base p_base_dir_str;
          full_filename = base @ p_filter_str
      in
      bnd (if is_verbose then ask E time_sec else ret 0) (\<lambda>curr_time.
      if is_stat then
        bnd (cos_stat_file E full_filename) (\<lambda>(r1, info1).
        bnd (if r1 = 0 then ret (r1, info1) else cos_stat_dir E full_filename) (\<lambda>(r, info).
        if r = 0 then bnd (list_line E is_verbose full_filename full_filename info curr_time) (\<lambda>l.
          ret [(l, full_filename)])
        else ret []))
      else
        bnd (if p_filter_str \<noteq> [] then cos_stat_file E full_filename else ret (- 1, no_info)) (\<lambda>(r, info).
        if r = 0 then bnd (list_line E is_verbose full_filename full_filename info curr_time) (\<lambda>l.
          ret [(l, full_filename)])
        else if p_filter_str \<noteq> [] \<and> str_all_normal_char p_filter_str then ret []
        else
          bnd (cos_get_list E base (if p_filter_str \<noteq> [] then Some p_filter_str else None)) (\<lambda>flist.
          bnd (dir_lines E is_verbose t_option base curr_time flist) (\<lambda>ls.
          ret (qsort_fn E (compare_lines r_option) ls))))))"

section \<open>Writing a listing\<close>

definition VSFTP_DIR_BUFSIZE :: nat where "VSFTP_DIR_BUFSIZE = 16384"

fun write_dir_loop :: "env \<Rightarrow> EVSFRWTarget \<Rightarrow> bytes \<Rightarrow> bytes list \<Rightarrow> bool act" where
  "write_dir_loop E target buf_str [] = ret False"
| "write_dir_loop E target buf_str (l # ls) =
     (let buf' = buf_str @ l in
      if ls = [] \<or> length buf' + length (hd ls) > VSFTP_DIR_BUFSIZE then
        bnd (ftp_write_str E buf' target) (\<lambda>writeret.
        if writeret \<noteq> 0 then ret True else write_dir_loop E target [] ls)
      else write_dir_loop E target buf' ls)"

definition write_dir_list :: "env \<Rightarrow> EVSFRWTarget \<Rightarrow> bytes list \<Rightarrow> bool act" where
  "write_dir_list E target p_dir_list = write_dir_loop E target [] p_dir_list"

text \<open>Without recursion into subdirectories, which is disabled, the subdirectory list is empty.\<close>

definition vsf_ftpdataio_transfer_dir ::
  "env \<Rightarrow> bool \<Rightarrow> bytes \<Rightarrow> bytes \<Rightarrow> bytes \<Rightarrow> bool \<Rightarrow> int act" where
  "vsf_ftpdataio_transfer_dir E is_control p_base_dir_str p_option_str p_filter_str is_verbose =
     (let target = (if is_control then kVSFRWControl else kVSFRWData) in
      bnd (vsf_ls_populate_dir_list E p_base_dir_str p_option_str p_filter_str is_verbose is_control) (\<lambda>dir_list.
      bnd (write_dir_list E target (map fst dir_list)) (\<lambda>failed. ret (if \<not> failed then 0 else - 1))))"

section \<open>Lemmas\<close>

lemma write_str_wp:
  assumes "takes_all E" and "b \<noteq> []" and "Q 0 (w\<lparr>trace := trace w @ [Data b]\<rparr>)"
  shows "wp (ftp_write_str E b kVSFRWData) Q X w"
  using assms by (simp add: ftp_write_str_def str_netfd_write_def takes_all_def wp_simps vsf_sysutil_retval_is_error_def)

text \<open>The pieces in which a listing is written.\<close>

fun coalesced :: "bytes \<Rightarrow> bytes list \<Rightarrow> bytes list" where
  "coalesced buf [] = []"
| "coalesced buf (l # ls) =
     (if ls = [] \<or> length (buf @ l) + length (hd ls) > VSFTP_DIR_BUFSIZE
      then (buf @ l) # coalesced [] ls else coalesced (buf @ l) ls)"

lemma write_dir_loop_wp:
  assumes "takes_all E"
  shows "\<forall>l \<in> set ls. l \<noteq> [] \<Longrightarrow>
    wp (write_dir_loop E kVSFRWData buf ls)
      (\<lambda>r w'. \<not> r \<and> w' = w\<lparr>trace := trace w @ map Data (coalesced buf ls)\<rparr>) (\<lambda>_ _. False) w"
proof (induction ls arbitrary: buf w)
  case (Cons l ls)
  let ?b = "buf @ l" and ?v = "w\<lparr>trace := trace w @ [Data (buf @ l)]\<rparr>"
  have "wp (ftp_write_str E ?b kVSFRWData) (\<lambda>r. wp (if r \<noteq> 0 then ret True else write_dir_loop E kVSFRWData [] ls)
      (\<lambda>r w'. \<not> r \<and> w' = w\<lparr>trace := trace w @ map Data (?b # coalesced [] ls)\<rparr>) (\<lambda>_ _. False)) (\<lambda>_ _. False) w"
    using Cons(1) [of "[]" ?v] Cons(2) by (intro write_str_wp [OF assms]) auto
  then show ?case using Cons(1) [of ?b w] Cons(2) by (simp add: Let_def wp_bnd)
qed (simp add: wp_simps)

lemma coalesced_concat: "concat (coalesced buf ls) = (if ls = [] then [] else buf @ concat ls)"
  by (induction buf ls rule: coalesced.induct) auto

lemma coalesced_sizes:
  "(ls \<noteq> [] \<longrightarrow> buf = [] \<or> length buf + length (hd ls) \<le> VSFTP_DIR_BUFSIZE) \<Longrightarrow>
   b \<in> set (coalesced buf ls) \<Longrightarrow> length b \<le> VSFTP_DIR_BUFSIZE \<or> b \<in> set ls"
  by (induction buf ls rule: coalesced.induct) (auto split: if_splits)

lemma take_infos_prefix:
  "\<exists>more. fst (take_infos filt n flist is) = flist @ more \<and> set more \<subseteq> set is \<and>
     (\<forall>f. filt = Some f \<longrightarrow> (\<forall>i \<in> set more. fst (vsf_filename_passes_filter (file_name i) f 0))) \<and>
     (0 < n \<and> length flist < n \<longrightarrow> length (flist @ more) \<le> n \<and> (\<not> snd (take_infos filt n flist is) \<longrightarrow> length (flist @ more) < n))"
proof (induction "is" arbitrary: flist)
  case (Cons i "is")
  consider (skip) f where "filt = Some f" "\<not> fst (vsf_filename_passes_filter (file_name i) f 0)"
    | (take) "\<forall>f. filt = Some f \<longrightarrow> fst (vsf_filename_passes_filter (file_name i) f 0)" by blast
  then show ?case
  proof cases
    case skip
    then show ?thesis using Cons [of flist] by (auto simp del: append.simps)
  next
    case take
    obtain more where "fst (take_infos filt n (flist @ [i]) is) = (flist @ [i]) @ more" "set more \<subseteq> set is"
      "\<forall>f. filt = Some f \<longrightarrow> (\<forall>i \<in> set more. fst (vsf_filename_passes_filter (file_name i) f 0))"
      "0 < n \<and> length (flist @ [i]) < n \<longrightarrow> length ((flist @ [i]) @ more) \<le> n \<and>
         (\<not> snd (take_infos filt n (flist @ [i]) is) \<longrightarrow> length ((flist @ [i]) @ more) < n)"
      using Cons [of "flist @ [i]"] by blast
    then show ?thesis using take
      by (cases "n > 0 \<and> length (flist @ [i]) \<ge> n"; intro exI [where x = "i # (if n > 0 \<and> length (flist @ [i]) \<ge> n then [] else more)"])
        (auto simp: Let_def split: option.splits)
  qed
qed simp

text \<open>A listing holds only entries the store listed and the filter passes, at most the configured count.\<close>

definition listed :: "bytes option \<Rightarrow> nat \<Rightarrow> file_info set \<Rightarrow> file_info list \<Rightarrow> bool" where
  "listed filt n S r \<longleftrightarrow> set r \<subseteq> S \<and> (0 < n \<longrightarrow> length r \<le> n) \<and>
     (\<forall>f. filt = Some f \<longrightarrow> (\<forall>i \<in> set r. fst (vsf_filename_passes_filter (file_name i) f 0)))"

definition page_infos :: "list_page option list \<Rightarrow> file_info set" where
  "page_infos resps = \<Union> ((\<lambda>p. case p of None \<Rightarrow> {} | Some q \<Rightarrow> set (infos q)) ` set resps)"

lemma listed_step:
  assumes "listed filt n S flist" and "0 < n \<longrightarrow> length flist < n" and "take_infos filt n flist is = (r, full)"
  shows "listed filt n (S \<union> set is) r" and "\<not> full \<Longrightarrow> 0 < n \<longrightarrow> length r < n"
  using take_infos_prefix [of filt n flist "is"] assms by (auto simp: listed_def; blast)+

lemma get_list_wp:
  "listed filt (unat (tu E ''list_max_count'')) S flist \<Longrightarrow>
   0 < unat (tu E ''list_max_count'') \<longrightarrow> length flist < unat (tu E ''list_max_count'') \<Longrightarrow>
   wp (get_list_loop E p filt flist n ctx resps)
     (\<lambda>r w'. listed filt (unat (tu E ''list_max_count'')) (S \<union> page_infos resps) r) (\<lambda>f _. f = Segv) w"
proof (induction E p filt flist n ctx resps arbitrary: S w rule: get_list_loop.induct)
  case (1 E p filt flist n ctx resps)
  let ?m = "unat (tu E ''list_max_count'')"
  have mono: "listed filt ?m T r \<Longrightarrow> T \<subseteq> U \<Longrightarrow> listed filt ?m U r" for T U r by (auto simp: listed_def)
  show ?case
  proof (cases "n = 0")
    case True
    then show ?thesis using mono [OF 1(4)] by (simp add: get_list_loop.simps wp_simps)
  next
    case False
    have log: "wp (thn (log_response E kVSFLogEntryDebug) m) Q (\<lambda>f _. f = Segv) v"
      if "\<And>v. wp m Q (\<lambda>f _. f = Segv) v" for m :: "file_info list act" and Q v
      unfolding wp_thn
      by (rule wp_talks [OF talks_response [where ops = "{}" and F = "\<lambda>f. f = Segv"]]) (simp_all add: that)
    have "wp (case resps of
          Some page # rest \<Rightarrow> let (flist', full) = take_infos filt ?m flist (infos page) in
            if full \<or> listover page then ret flist'
            else get_list_loop E p filt flist' n (next_context page) rest
        | None # rest \<Rightarrow> thn (log_response E kVSFLogEntryDebug) (get_list_loop E p filt flist (n - 1) ctx rest)
        | [] \<Rightarrow> thn (log_response E kVSFLogEntryDebug) (get_list_loop E p filt flist (n - 1) ctx []))
      (\<lambda>r w'. listed filt ?m (S \<union> page_infos resps) r) (\<lambda>f _. f = Segv) v" for v
    proof (cases resps)
      case Nil
      show ?thesis unfolding Nil list.case by (rule log) (use 1(1) [OF False Nil 1(4,5)] in simp)
    next
      case (Cons a rest)
      show ?thesis
      proof (cases a)
        case None
        then have "page_infos resps = page_infos rest" using Cons by (simp add: page_infos_def)
        then show ?thesis unfolding Cons list.case None option.case
          by (intro log) (use 1(2) [OF False Cons None 1(4,5)] Cons None in simp)
      next
        case (Some page)
        obtain flist' full where t: "take_infos filt ?m flist (infos page) = (flist', full)" by fastforce
        have S: "S \<union> page_infos resps = S \<union> set (infos page) \<union> page_infos rest"
          using Cons Some by (auto simp: page_infos_def)
        note step = listed_step [OF 1(4,5) t]
        show ?thesis
        proof (cases "full \<or> listover page")
          case True
          then show ?thesis unfolding Cons Some S [unfolded Cons Some] list.case option.case t Let_def prod.case
            using mono [OF step(1), of "S \<union> set (infos page) \<union> page_infos rest"] by (auto simp: wp_simps)
        next
          case more: False
          then show ?thesis unfolding Cons Some S [unfolded Cons Some] list.case option.case t Let_def prod.case
            using 1(3) [OF False Cons Some refl t [symmetric] more step(1)] step(2) by auto
        qed
      qed
    qed
    then show ?thesis using False
      by (simp add: get_list_loop.simps [of E p filt flist n] cos_request_def wp_simps split: sum.split)
        (auto dest: root_fault)
  qed
qed

section \<open>Properties\<close>

text \<open>C25: a listing arrives complete. When the client takes what is written, \<^verbatim>\<open>write_dir_list\<close> ends
  without an error, what it puts on the data connection is exactly the lines in their order, and
  the lines are put together to pieces that never exceed the buffer unless a piece is one line
  that is longer.\<close>

theorem listing_written:
  assumes "takes_all E" and "\<forall>l \<in> set lines. l \<noteq> []"
  shows "\<exists>bs. write_dir_list E kVSFRWData lines w = (Inr False, w\<lparr>trace := trace w @ map Data bs\<rparr>) \<and>
    concat bs = concat lines \<and> (\<forall>b \<in> set bs. length b \<le> VSFTP_DIR_BUFSIZE \<or> b \<in> set lines)"
proof -
  obtain r w' where "write_dir_list E kVSFRWData lines w = (Inr r, w')" "\<not> r"
    "w' = w\<lparr>trace := trace w @ map Data (coalesced [] lines)\<rparr>"
    using wp_total [OF write_dir_loop_wp [OF assms, of "[]" w]] by (auto simp: write_dir_list_def)
  then show ?thesis
    using coalesced_concat [of "[]" lines] coalesced_sizes [of lines "[]"]
    by (intro exI [where x = "coalesced [] lines"]) auto
qed

theorem listing_written_witness:
  "\<exists>bs. write_dir_list (one_file_env []) kVSFRWData [''a'', ''b''] (world_with blank_session []) =
      (Inr False, (world_with blank_session [])\<lparr>trace := map Data bs\<rparr>) \<and> concat bs = ''ab''"
proof -
  have "takes_all (one_file_env [])" by (simp add: takes_all_def one_file_env_def)
  from listing_written [OF this, of "[''a'', ''b'']" "world_with blank_session []"]
  obtain bs where "write_dir_list (one_file_env []) kVSFRWData [''a'', ''b''] (world_with blank_session []) =
      (Inr False, (world_with blank_session [])\<lparr>trace := trace (world_with blank_session []) @ map Data bs\<rparr>)"
    "concat bs = concat [''a'', ''b'']" by auto
  moreover have "trace (world_with blank_session []) = []" by (simp add: world_with_def)
  ultimately show ?thesis by (intro exI [where x = bs]) simp
qed

end
