(* ===== verification/Replies.thy ===== *)
theory Replies
  imports Ls
begin

text \<open>
  The small command handlers: directory messages and banners (\<^verbatim>\<open>banner.c\<close>, with the file reader of
  \<^verbatim>\<open>filestr.c\<close>), the list of features (\<^verbatim>\<open>features.c\<close>), options (\<^verbatim>\<open>opts.c\<close>) and the commands of
  \<^verbatim>\<open>ssl.c\<close> that set the protection of the connections. The handshake itself is one call.
\<close>

section \<open>Reply codes\<close>

abbreviation "FTP_DATACONN \<equiv> 150 :: nat"
abbreviation "FTP_NOOPOK \<equiv> 200 :: nat"
abbreviation "FTP_TYPEOK \<equiv> 200 :: nat"
abbreviation "FTP_PORTOK \<equiv> 200 :: nat"
abbreviation "FTP_EPRTOK \<equiv> 200 :: nat"
abbreviation "FTP_EPSVALLOK \<equiv> 200 :: nat"
abbreviation "FTP_STRUOK \<equiv> 200 :: nat"
abbreviation "FTP_MODEOK \<equiv> 200 :: nat"
abbreviation "FTP_PBSZOK \<equiv> 200 :: nat"
abbreviation "FTP_PROTOK \<equiv> 200 :: nat"
abbreviation "FTP_OPTSOK \<equiv> 200 :: nat"
abbreviation "FTP_ALLOOK \<equiv> 202 :: nat"
abbreviation "FTP_FEAT \<equiv> 211 :: nat"
abbreviation "FTP_STATOK \<equiv> 211 :: nat"
abbreviation "FTP_SIZEOK \<equiv> 213 :: nat"
abbreviation "FTP_STATFILE_OK \<equiv> 213 :: nat"
abbreviation "FTP_HELP \<equiv> 214 :: nat"
abbreviation "FTP_SYSTOK \<equiv> 215 :: nat"
abbreviation "FTP_GREET \<equiv> 220 :: nat"
abbreviation "FTP_GOODBYE \<equiv> 221 :: nat"
abbreviation "FTP_ABOR_NOCONN \<equiv> 225 :: nat"
abbreviation "FTP_TRANSFEROK \<equiv> 226 :: nat"
abbreviation "FTP_ABOROK \<equiv> 226 :: nat"
abbreviation "FTP_PASVOK \<equiv> 227 :: nat"
abbreviation "FTP_EPSVOK \<equiv> 229 :: nat"
abbreviation "FTP_LOGINOK \<equiv> 230 :: nat"
abbreviation "FTP_AUTHOK \<equiv> 234 :: nat"
abbreviation "FTP_CWDOK \<equiv> 250 :: nat"
abbreviation "FTP_RMDIROK \<equiv> 250 :: nat"
abbreviation "FTP_DELEOK \<equiv> 250 :: nat"
abbreviation "FTP_PWDOK \<equiv> 257 :: nat"
abbreviation "FTP_MKDIROK \<equiv> 257 :: nat"
abbreviation "FTP_GIVEPWORD \<equiv> 331 :: nat"
abbreviation "FTP_RESTOK \<equiv> 350 :: nat"
abbreviation "FTP_DATA_TIMEOUT \<equiv> 421 :: nat"
abbreviation "FTP_BADSENDCONN \<equiv> 425 :: nat"
abbreviation "FTP_BADSENDNET \<equiv> 426 :: nat"
abbreviation "FTP_BADFILEBUSY \<equiv> 450 :: nat"
abbreviation "FTP_BADSENDFILE \<equiv> 451 :: nat"
abbreviation "FTP_BADCMD \<equiv> 500 :: nat"
abbreviation "FTP_BADOPTS \<equiv> 501 :: nat"
abbreviation "FTP_COMMANDNOTIMPL \<equiv> 502 :: nat"
abbreviation "FTP_NEEDUSER \<equiv> 503 :: nat"
abbreviation "FTP_BADPBSZ \<equiv> 503 :: nat"
abbreviation "FTP_BADPROT \<equiv> 503 :: nat"
abbreviation "FTP_BADSTRU \<equiv> 504 :: nat"
abbreviation "FTP_BADMODE \<equiv> 504 :: nat"
abbreviation "FTP_BADAUTH \<equiv> 504 :: nat"
abbreviation "FTP_NOSUCHPROT \<equiv> 504 :: nat"
abbreviation "FTP_NEEDENCRYPT \<equiv> 522 :: nat"
abbreviation "FTP_EPSVBAD \<equiv> 522 :: nat"
abbreviation "FTP_LOGINERR \<equiv> 530 :: nat"
abbreviation "FTP_NOHANDLEPROT \<equiv> 536 :: nat"
abbreviation "FTP_FILEFAIL \<equiv> 550 :: nat"
abbreviation "FTP_NOPERM \<equiv> 550 :: nat"
abbreviation "FTP_UPLOADFAIL \<equiv> 553 :: nat"

section \<open>Files\<close>

text \<open>The size and the type of an open file are queries made when \<^verbatim>\<open>fstat\<close> fills the buffer.\<close>

definition vsf_sysutil_fstat :: "env \<Rightarrow> int \<Rightarrow> (int \<times> int) act" where
  "vsf_sysutil_fstat E fd =
     thn (or_die E (Sys ''fstat'' [] [fd]) ''fstat'')
     (bnd (ask E (Sys ''st_mode'' [] [fd])) (\<lambda>st_mode.
      bnd (ask E (Sys ''st_size'' [] [fd])) (\<lambda>st_size. ret (st_mode, st_size))))"

definition vsf_sysutil_statbuf_get_size :: "int \<Rightarrow> int res" where
  "vsf_sysutil_statbuf_get_size st_size =
     (if st_size < 0 then die ''invalid inode size in vsf_sysutil_statbuf_get_size'' else Inr st_size)"

text \<open>The contents and the return value. The bytes \<^verbatim>\<open>vsf_sysutil_read_loop\<close> delivers are a text of the
  environment, its return value their number or an error.\<close>

definition str_fileread :: "env \<Rightarrow> bytes \<Rightarrow> nat \<Rightarrow> (bytes \<times> int) act" where
  "str_fileread E p_filename maxsize =
     bnd (sys E (Sys ''open'' [cstr p_filename] [])) (\<lambda>fd.
     if vsf_sysutil_retval_is_error fd then ret ([], fd)
     else
       bnd (vsf_sysutil_fstat E fd) (\<lambda>(st_mode, st_size).
        bnd (if \<not> vsf_sysutil_statbuf_is_regfile (word_of_int st_mode) then ret ([], 0)
             else
               bnd (lift (vsf_sysutil_statbuf_get_size st_size)) (\<lambda>n.
               let amount = (if n > int maxsize then int maxsize else n);
                   e = Sys ''read_loop'' [] [fd, amount]
               in bnd (ask_text E e) (\<lambda>b. bnd (sys E e) (\<lambda>r.
                  if vsf_sysutil_retval_is_error r then ret ([], r)
                  else if r \<noteq> amount then lift (die ''read size mismatch'')
                  else ret (take (nat amount) b, r))))) (\<lambda>res.
        thn (vsf_sysutil_close E fd) (ret res))))"

section \<open>Banners\<close>

definition VSFTP_MAX_VISIT_REMEMBER :: nat where "VSFTP_MAX_VISIT_REMEMBER = 100"
definition VSFTP_MAX_MSGFILE_SIZE :: nat where "VSFTP_MAX_MSGFILE_SIZE = 4000"

function banner_loop :: "env \<Rightarrow> bytes \<Rightarrow> nat \<Rightarrow> nat \<Rightarrow> unit act" where
  "banner_loop E p_str ftpcode str_pos =
     (case str_getline p_str str_pos of
        Inl f \<Rightarrow> raise f
      | Inr (False, _, _) \<Rightarrow> ret ()
      | Inr (True, msg_line_str, pos') \<Rightarrow>
          thn (vsf_cmdio_write_str_hyphen E ftpcode msg_line_str) (banner_loop E p_str ftpcode pos'))"
  by pat_completeness auto
termination
  by (relation "measure (\<lambda>(E, v, c, p). length v - p)") (auto dest!: str_getline_progress)

declare banner_loop.simps [simp del]

definition vsf_banner_write :: "env \<Rightarrow> bytes \<Rightarrow> nat \<Rightarrow> unit act" where
  "vsf_banner_write E p_str ftpcode = banner_loop E p_str ftpcode 0"

definition vsf_banner_dir_changed :: "env \<Rightarrow> nat \<Rightarrow> unit act" where
  "vsf_banner_dir_changed E ftpcode =
     doif (tb E ''dirmessage_enable'')
       (bnd (str_getcwd E) (\<lambda>dir_str.
        bnd (gets p_visited_dir_list) (\<lambda>visited.
        doif (dir_str \<notin> set visited) (steps
          [doif (length visited < VSFTP_MAX_VISIT_REMEMBER) (upd (p_visited_dir_list_update (\<lambda>l. l @ [dir_str]))),
           bnd (case ts E ''message_file'' of None \<Rightarrow> ret ([], 0)
                | Some f \<Rightarrow> str_fileread E f VSFTP_MAX_MSGFILE_SIZE) (\<lambda>(msg_file_str, _).
           vsf_banner_write E msg_file_str ftpcode)]))))"

section \<open>Features and options\<close>

definition handle_feat :: "env \<Rightarrow> unit act" where
  "handle_feat E = steps
     [vsf_cmdio_write_hyphen E FTP_FEAT ''Features:'',
      doif (tb E ''ssl_enable'') (steps
        [doif (tb E ''sslv2'' \<or> tb E ''sslv3'') (vsf_cmdio_write_raw E ('' AUTH SSL'' @ [CR, LF])),
         doif (tb E ''tlsv1'') (vsf_cmdio_write_raw E ('' AUTH TLS'' @ [CR, LF]))]),
      doif (tb E ''port_enable'') (vsf_cmdio_write_raw E ('' EPRT'' @ [CR, LF])),
      doif (tb E ''pasv_enable'') (vsf_cmdio_write_raw E ('' EPSV'' @ [CR, LF])),
      doif (tb E ''pasv_enable'') (vsf_cmdio_write_raw E ('' PASV'' @ [CR, LF])),
      doif (tb E ''ssl_enable'') (steps
        [vsf_cmdio_write_raw E ('' PBSZ'' @ [CR, LF]),
         vsf_cmdio_write_raw E ('' PROT'' @ [CR, LF])]),
      vsf_cmdio_write_raw E ('' SIZE'' @ [CR, LF]),
      vsf_cmdio_write_raw E ('' TVFS'' @ [CR, LF]),
      vsf_cmdio_write_raw E ('' UTF8'' @ [CR, LF]),
      vsf_cmdio_write E FTP_FEAT ''End'']"

definition upper_arg :: "bytes act" where
  "upper_arg = thn (upd (ftp_arg_str_update v_upper)) (gets ftp_arg_str)"

definition handle_opts :: "env \<Rightarrow> unit act" where
  "handle_opts E =
     bnd upper_arg (\<lambda>arg.
     if arg = ''UTF8 ON'' then vsf_cmdio_write E FTP_OPTSOK ''Always in UTF8 mode.''
     else vsf_cmdio_write E FTP_BADOPTS ''Option not understood.'')"

section \<open>Protection of the connections\<close>

definition ssl_control_handshake :: "env \<Rightarrow> unit act" where
  "ssl_control_handshake E =
     bnd (sys E (Sys ''ssl_session_init'' [] [])) (\<lambda>r.
     if r = 0 then
       bnd (ask_text E (Sys ''get_ssl_error'' [] [])) (\<lambda>err.
       thn (vsf_cmdio_write_str E 421 (''Negotiation failed: '' @ cstr err)) (vsf_sysutil_exit 1))
     else upd (control_use_ssl_update (\<lambda>_. True)))"

definition handle_auth :: "env \<Rightarrow> unit act" where
  "handle_auth E =
     bnd upper_arg (\<lambda>arg.
     if arg = ''TLS'' \<or> arg = ''TLS-C'' \<or> arg = ''SSL'' \<or> arg = ''TLS-P'' then steps
       [vsf_cmdio_write E FTP_AUTHOK ''Proceed with negotiation.'',
        ssl_control_handshake E,
        doif (arg = ''SSL'' \<or> arg = ''TLS-P'') (upd (data_use_ssl_update (\<lambda>_. True)))]
     else vsf_cmdio_write E FTP_BADAUTH ''Unknown AUTH type.'')"

definition handle_pbsz :: "env \<Rightarrow> unit act" where
  "handle_pbsz E =
     bnd (gets control_use_ssl) (\<lambda>ssl.
     if \<not> ssl then vsf_cmdio_write E FTP_BADPBSZ ''PBSZ needs a secure connection.''
     else vsf_cmdio_write E FTP_PBSZOK ''PBSZ set to 0.'')"

definition handle_prot :: "env \<Rightarrow> unit act" where
  "handle_prot E =
     bnd upper_arg (\<lambda>arg.
     bnd (gets control_use_ssl) (\<lambda>ssl.
     if \<not> ssl then vsf_cmdio_write E FTP_BADPROT ''PROT needs a secure connection.''
     else if arg = ''C'' then
       steps [upd (data_use_ssl_update (\<lambda>_. False)), vsf_cmdio_write E FTP_PROTOK ''PROT now Clear.'']
     else if arg = ''P'' then
       steps [upd (data_use_ssl_update (\<lambda>_. True)), vsf_cmdio_write E FTP_PROTOK ''PROT now Private.'']
     else if arg = ''S'' \<or> arg = ''E'' then vsf_cmdio_write E FTP_NOHANDLEPROT ''PROT not supported.''
     else vsf_cmdio_write E FTP_NOSUCHPROT ''PROT not recognized.''))"

end
