(* ===== verification/Postlogin.thy ===== *)
theory Postlogin
  imports Replies IpAddr
begin

text \<open>
  \<^verbatim>\<open>postlogin.c\<close>: the handlers of the commands of a logged-in session, their dispatch and the command
  loop. A handler is an action on the session; the working directory, local files and the object
  store are outside. The handlers the source disables (renaming, appending, unique names, SITE and
  MDTM) are left out, as are the flags of \<^verbatim>\<open>handle_upload_common\<close> that only they set.
\<close>

section \<open>Local files\<close>

definition str_chdir :: "env \<Rightarrow> bytes \<Rightarrow> int act" where
  "str_chdir E p_str = sys E (Sys ''chdir'' [cstr p_str] [])"

definition str_mkdir :: "env \<Rightarrow> bytes \<Rightarrow> int \<Rightarrow> int act" where
  "str_mkdir E p_str mode = sys E (Sys ''mkdir'' [cstr p_str] [mode])"

definition str_rmdir :: "env \<Rightarrow> bytes \<Rightarrow> int act" where
  "str_rmdir E p_str = sys E (Sys ''rmdir'' [cstr p_str] [])"

definition str_unlink :: "env \<Rightarrow> bytes \<Rightarrow> int act" where
  "str_unlink E p_str = sys E (Sys ''unlink'' [cstr p_str] [])"

definition str_create :: "env \<Rightarrow> bytes \<Rightarrow> int act" where
  "str_create E p_str = sys E (Sys ''create'' [cstr p_str] [uint (tu E ''file_open_mode'')])"

definition str_create_exclusive :: "env \<Rightarrow> bytes \<Rightarrow> int act" where
  "str_create_exclusive E p_str = sys E (Sys ''create_exclusive'' [cstr p_str] [uint (tu E ''file_open_mode'')])"

definition vsf_sysutil_lseek_to :: "env \<Rightarrow> int \<Rightarrow> int \<Rightarrow> unit act" where
  "vsf_sysutil_lseek_to E fd seek_pos =
     (if seek_pos < 0 then lift (die ''negative seek_pos in vsf_sysutil_lseek_to'')
      else bnd (sys E (Sys ''lseek'' [] [fd, seek_pos])) (\<lambda>r. if r < 0 then lift (die ''lseek'') else ret ()))"

text \<open>The directory above is made first. A name without a slash that does not exist is its own
  directory: the recursion then exhausts the stack.\<close>

function str_mkdirs :: "env \<Rightarrow> bytes \<Rightarrow> int \<Rightarrow> int act" where
  "str_mkdirs E p_dir_str mode =
     (if p_dir_str = [] then ret 0
      else
        let d = (if last p_dir_str = CHR ''/'' then butlast p_dir_str else p_dir_str);
            dir_str = fst (v_split_char_reverse d CHR ''/'')
        in bnd (ask E (Sys ''access'' [cstr dir_str] [])) (\<lambda>there.
           bnd (if there = 0 then ret 0
                else if length dir_str < length p_dir_str then str_mkdirs E dir_str mode
                else raise (Endless ''str_mkdirs'')) (\<lambda>r.
           if r = 0 then str_mkdir E p_dir_str mode else ret r)))"
  by pat_completeness auto
termination
  by (relation "measure (\<lambda>(E, p, m). length p)") auto

declare str_mkdirs.simps [simp del]

section \<open>Paths\<close>

definition resolve_tilde :: "env \<Rightarrow> bytes \<Rightarrow> bytes act" where
  "resolve_tilde E p_str =
     (if p_str \<noteq> [] \<and> hd p_str = CHR ''~'' then
        if length p_str = 1 \<or> p_str ! 1 = CHR ''/'' then
          bnd (gets home_str) (\<lambda>home. ret (home @ snd (v_split_char p_str CHR ''~'')))
        else if tb E ''tilde_user_enable'' then
          let (s_user_str, s_rhs_str) = v_split_char (snd (v_split_char p_str CHR ''~'')) CHR ''/'' in
          bnd (ask E (Sys ''getpwnam'' [cstr s_user_str] [])) (\<lambda>p_user.
          if p_user = 0 then ret p_str
          else bnd (ask_text E (Sys ''getpwnam'' [cstr s_user_str] [])) (\<lambda>home.
            ret (cstr home @ (if s_rhs_str \<noteq> [] then ''/'' @ s_rhs_str else []))))
        else ret p_str
      else ret p_str)"

text \<open>The argument of the command with its tilde resolved.\<close>

definition tilde_arg :: "env \<Rightarrow> bytes act" where
  "tilde_arg E =
     bnd (gets ftp_arg_str) (\<lambda>a. bnd (resolve_tilde E a) (\<lambda>arg.
     thn (upd (ftp_arg_str_update (\<lambda>_. arg))) (ret arg)))"

definition session_path :: "env \<Rightarrow> bytes \<Rightarrow> bytes act" where
  "session_path E p_str =
     (if p_str = [] \<or> hd p_str \<noteq> CHR ''/'' then bnd (str_getcwd E) (\<lambda>cwd. ret (cwd_prefix cwd @ p_str))
      else bnd (lift (root_of E)) (\<lambda>rc. ret (get_user_root_dir rc @ p_str)))"

definition access_ok :: "env \<Rightarrow> bytes \<Rightarrow> bool act" where
  "access_ok E p_filename_str =
     bnd (lift (root_of E)) (\<lambda>rc. bnd (str_getcwd E) (\<lambda>cwd.
     ret (vsf_access_session_check_file rc (ts E ''deny_file'') cwd p_filename_str)))"

definition denied :: "env \<Rightarrow> unit act" where
  "denied E = vsf_cmdio_write E FTP_NOPERM ''Permission denied.''"

text \<open>The pending log entry of a command on a path.\<close>

definition log_path :: "env \<Rightarrow> EVSFLogEntryType \<Rightarrow> bytes \<Rightarrow> unit act" where
  "log_path E what arg =
     thn (vsf_log_start_entry E what)
     (bnd (session_path E arg) (\<lambda>p. upd (log_str_update (\<lambda>_. p))))"

section \<open>Directories\<close>

abbreviation QUOTE :: char where "QUOTE \<equiv> CHR 0x22"

text \<open>A path in quotes, with the quotes in it doubled.\<close>

definition quoted :: "bytes \<Rightarrow> bytes" where
  "quoted path = [QUOTE] @ v_replace_text path [QUOTE] [QUOTE, QUOTE] @ [QUOTE]"

definition handle_pwd :: "env \<Rightarrow> unit act" where
  "handle_pwd E =
     bnd (str_getcwd E) (\<lambda>cwd. bnd (lift (root_of E)) (\<lambda>rc.
     let dir = str_session_getcwd rc cwd
     in vsf_cmdio_write_str E FTP_PWDOK (quoted (if dir = [] then ''/'' else dir) @ '' is the current directory'')))"

text \<open>The local directory that mirrors a directory of the store is entered, and made when it is not there.\<close>

definition enter_dir :: "env \<Rightarrow> bytes \<Rightarrow> int act" where
  "enter_dir E arg =
     bnd (session_path E arg) (\<lambda>disk_path.
     bnd (str_chdir E disk_path) (\<lambda>r.
     if r \<noteq> 0 then
       bnd (str_mkdirs E disk_path 511) (\<lambda>m. if m = 0 then str_chdir E disk_path else ret m)
     else ret r))"

definition handle_cwd :: "env \<Rightarrow> unit act" where
  "handle_cwd E =
     bnd (tilde_arg E) (\<lambda>arg.
     bnd (access_ok E arg) (\<lambda>ok.
     if \<not> ok then denied E
     else
       bnd (cos_isdir E arg) (\<lambda>r.
       bnd (if r = 0 then enter_dir E arg else ret r) (\<lambda>entered.
       if entered = 0 then steps
         [vsf_banner_dir_changed E FTP_CWDOK,
          vsf_cmdio_write E FTP_CWDOK ''Directory successfully changed.'']
       else vsf_cmdio_write E FTP_FILEFAIL ''Failed to change directory.''))))"

definition handle_cdup :: "env \<Rightarrow> unit act" where
  "handle_cdup E = thn (upd (ftp_arg_str_update (\<lambda>_. ''..''))) (handle_cwd E)"

definition handle_mkd :: "env \<Rightarrow> unit act" where
  "handle_mkd E =
     bnd (tilde_arg E) (\<lambda>arg.
     thn (log_path E kVSFLogEntryMkdir arg)
     (bnd (access_ok E arg) (\<lambda>ok.
      if \<not> ok then denied E
      else
        bnd (cos_mkdir E arg) (\<lambda>r.
        thn (doif (r = 0 \<or> r = - 178)
              (bnd (session_path E arg) (\<lambda>p. bnd (str_mkdir E p 511) (\<lambda>_. ret ()))))
        (if r \<noteq> 0 then
           if r = - 178 then vsf_cmdio_write E FTP_FILEFAIL ''Directory already exists''
           else vsf_cmdio_write E FTP_FILEFAIL ''Create directory operation failed.''
         else steps
           [vsf_log_do_log E True,
            vsf_cmdio_write_str E FTP_MKDIROK (quoted arg @ '' created'')])))))"

definition handle_rmd :: "env \<Rightarrow> unit act" where
  "handle_rmd E =
     bnd (tilde_arg E) (\<lambda>arg.
     thn (log_path E kVSFLogEntryRmdir arg)
     (bnd (access_ok E arg) (\<lambda>ok.
      if \<not> ok then denied E
      else
        bnd (cos_dir_isempty E arg) (\<lambda>e.
        if e = 1 then vsf_cmdio_write E FTP_FILEFAIL ''Remove directory operation failed (not empty).''
        else if e \<noteq> 0 then vsf_cmdio_write E FTP_FILEFAIL ''Remove directory operation failed.''
        else
          bnd (cos_rmdir E arg) (\<lambda>r.
          if r = 1 then vsf_cmdio_write E FTP_FILEFAIL ''Remove directory operation failed (not exist).''
          else
            thn (doif (r = 0) (bnd (session_path E arg) (\<lambda>p. bnd (str_rmdir E p) (\<lambda>_. ret ()))))
            (if r \<noteq> 0 then vsf_cmdio_write E FTP_FILEFAIL ''Remove directory operation failed.''
             else steps
               [vsf_log_do_log E True,
                vsf_cmdio_write E FTP_RMDIROK ''Remove directory operation successful.'']))))))"

definition handle_dele :: "env \<Rightarrow> unit act" where
  "handle_dele E =
     bnd (tilde_arg E) (\<lambda>arg.
     thn (log_path E kVSFLogEntryDelete arg)
     (bnd (access_ok E arg) (\<lambda>ok.
      if \<not> ok then denied E
      else
        bnd (cos_unlink E arg) (\<lambda>r.
        if r = 1 then vsf_cmdio_write E FTP_FILEFAIL ''Delete operation failed (not exist).''
        else if r \<noteq> 0 then vsf_cmdio_write E FTP_FILEFAIL ''Delete operation failed.''
        else steps
          [vsf_log_do_log E True,
           vsf_cmdio_write E FTP_DELEOK ''Delete operation successful.'']))))"

definition handle_size :: "env \<Rightarrow> unit act" where
  "handle_size E =
     bnd (tilde_arg E) (\<lambda>arg.
     bnd (access_ok E arg) (\<lambda>ok.
     if \<not> ok then denied E
     else
       bnd (cos_stat_file E arg) (\<lambda>(r, info).
       if r \<noteq> 0 then vsf_cmdio_write E FTP_FILEFAIL ''Could not get file size.''
       else vsf_cmdio_write_str E FTP_SIZEOK (vsf_sysutil_filesize_t_to_str (file_size info)))))"

section \<open>The data connection\<close>

text \<open>\<^verbatim>\<open>port_active\<close> and \<^verbatim>\<open>pasv_active\<close> call each other when both modes are active, until the stack is
  exhausted.\<close>

definition listener_active :: "env \<Rightarrow> int act" where
  "listener_active E =
     (if tb E ''one_process_model'' then vsf_one_process_pasv_active E else vsf_two_process_pasv_active E)"

definition pasv_active :: "env \<Rightarrow> bool act" where
  "pasv_active E =
     bnd (listener_active E) (\<lambda>r.
     if r = 0 then ret False
     else bnd (gets p_port_sockaddr) (\<lambda>p. if p \<noteq> None then raise (Endless ''pasv_active'') else ret True))"

definition port_active :: "env \<Rightarrow> bool act" where
  "port_active E =
     bnd (gets p_port_sockaddr) (\<lambda>p.
     if p = None then ret False
     else bnd (listener_active E) (\<lambda>r. if r \<noteq> 0 then raise (Endless ''port_active'') else ret True))"

definition port_cleanup :: "unit act" where
  "port_cleanup = upd (p_port_sockaddr_update (\<lambda>_. None))"

definition pasv_cleanup :: "env \<Rightarrow> unit act" where
  "pasv_cleanup E =
     (if tb E ''one_process_model'' then vsf_one_process_pasv_cleanup E else vsf_two_process_pasv_cleanup E)"

definition start_listening :: "env \<Rightarrow> (16 word) act" where
  "start_listening E =
     (if tb E ''one_process_model'' then vsf_one_process_listen E else vsf_two_process_listen E)"

definition vsf_sysutil_inet_ntop :: "env \<Rightarrow> sockaddr \<Rightarrow> bytes act" where
  "vsf_sysutil_inet_ntop E a =
     (case a of
        Sockaddr_in raw port \<Rightarrow> ret (vsf_sysutil_inet_ntoa raw)
      | Sockaddr_in6 raw port scope \<Rightarrow> bnd (ask_text E (Sys ''inet_ntop'' [raw] [])) (\<lambda>t. ret (cstr t))
      | Sockaddr_other f \<Rightarrow> lift (die ''can only support ipv4 and ipv6 currently''))"

text \<open>The address a PASV reply names.\<close>

definition pasv_address :: "env \<Rightarrow> sockaddr act" where
  "pasv_address E =
     (case ts E ''pasv_address'' of
        Some t \<Rightarrow>
          bnd (ask E (Sys ''inet_aton'' [cstr t] [])) (\<lambda>r.
          if r = 0 then lift (die ''invalid pasv_address'')
          else bnd (ask_text E (Sys ''inet_aton'' [cstr t] [])) (\<lambda>raw. ret (Sockaddr_in raw 0)))
      | None \<Rightarrow> bnd (gets p_local_addr) (\<lambda>l. lift (vsf_sysutil_sockaddr_clone l)))"

definition pasv_host :: "env \<Rightarrow> bool \<Rightarrow> sockaddr \<Rightarrow> bytes act" where
  "pasv_host E is_ipv6 a =
     (if \<not> is_ipv6 then vsf_sysutil_inet_ntop E a
      else case vsf_sysutil_sockaddr_ipv6_v4 a of
        Some p_v4addr \<Rightarrow> ret (vsf_sysutil_inet_ntoa p_v4addr)
      | None \<Rightarrow> ret ''0,0,0,0'')"

definition pasv_reply :: "bytes \<Rightarrow> 16 word \<Rightarrow> bytes" where
  "pasv_reply host the_port =
     v_replace_char (''Entering Passive Mode ('' @ host) CHR ''.'' CHR '','' @
     '','' @ vsf_sysutil_ulong_to_str (unat (drop_bit 8 the_port)) @
     '','' @ vsf_sysutil_ulong_to_str (unat (the_port AND 255)) @ '').''"

text \<open>The argument of EPSV: whether to go on.\<close>

definition epsv_arg :: "env \<Rightarrow> bool \<Rightarrow> bool act" where
  "epsv_arg E is_ipv6 =
     bnd (gets ftp_arg_str) (\<lambda>given.
     if given = [] then ret True
     else
       bnd upper_arg (\<lambda>arg.
       if arg = ''ALL'' then
         thn (steps [upd (epsv_all_update (\<lambda>_. True)), vsf_cmdio_write E FTP_EPSVALLOK ''EPSV ALL ok.'']) (ret False)
       else
         let argval = vsf_sysutil_atoi arg in
         if argval < 1 \<or> argval > 2 \<or> (\<not> is_ipv6 \<and> argval = 2) then
           thn (vsf_cmdio_write E FTP_EPSVBAD ''Bad network protocol.'') (ret False)
         else ret True))"

definition handle_pasv :: "env \<Rightarrow> bool \<Rightarrow> unit act" where
  "handle_pasv E is_epsv =
     bnd (gets (\<lambda>s. vsf_sysutil_sockaddr_is_ipv6 (p_local_addr s))) (\<lambda>is_ipv6.
     bnd (if is_epsv then epsv_arg E is_ipv6 else ret True) (\<lambda>go_on.
     doif go_on
       (thn (steps [pasv_cleanup E, port_cleanup])
       (bnd (start_listening E) (\<lambda>the_port.
        if is_epsv then
          vsf_cmdio_write_str E FTP_EPSVOK
            (''Entering Extended Passive Mode (|||'' @ vsf_sysutil_ulong_to_str (unat the_port) @ ''|)'')
        else
          bnd (pasv_address E) (\<lambda>a.
          bnd (pasv_host E is_ipv6 a) (\<lambda>host.
          vsf_cmdio_write_str E FTP_PASVOK (pasv_reply host the_port))))))))"

text \<open>The end of PORT and EPRT: the target is the family of the control connection with the given
  address and port; unless the server is promiscuous it must be the client's own address and an
  unreserved port.\<close>

definition set_port_target :: "env \<Rightarrow> bool \<Rightarrow> bytes \<Rightarrow> 16 word \<Rightarrow> bytes \<Rightarrow> bytes \<Rightarrow> unit act" where
  "set_port_target E v6 raw the_port illegal accepted =
     bnd (gets p_local_addr) (\<lambda>l.
     bnd (lift (vsf_sysutil_sockaddr_clone l)) (\<lambda>a0.
     bnd (lift (if v6 then vsf_sysutil_sockaddr_set_ipv6addr a0 raw
                else vsf_sysutil_sockaddr_set_ipv4addr a0 raw)) (\<lambda>a1.
     bnd (lift (vsf_sysutil_sockaddr_set_port a1 the_port)) (\<lambda>a.
     thn (upd (p_port_sockaddr_update (\<lambda>_. Some a)))
     (bnd (gets p_remote_addr) (\<lambda>r.
      if \<not> tb E ''port_promiscuous'' \<and>
         (\<not> vsf_sysutil_sockaddr_addr_equal r a \<or> vsf_sysutil_is_port_reserved the_port)
      then steps [vsf_cmdio_write E FTP_BADCMD illegal, port_cleanup]
      else vsf_cmdio_write E FTP_PORTOK accepted))))))"

definition handle_port :: "env \<Rightarrow> unit act" where
  "handle_port E =
     thn (steps [pasv_cleanup E, port_cleanup])
     (bnd (gets ftp_arg_str) (\<lambda>arg.
      case vsf_sysutil_parse_uchar_string_sep arg CHR '','' 6 of
        None \<Rightarrow> vsf_cmdio_write E FTP_BADCMD ''Illegal PORT command.''
      | Some vals \<Rightarrow>
          set_port_target E False vals (word_of_nat (code (vals ! 4) * 256 + code (vals ! 5)))
            ''Illegal PORT command.'' ''PORT command successful. Consider using PASV.''))"

text \<open>The parts of an EPRT argument: the protocol, the address with its port, or what is wrong.\<close>

definition eprt_parts :: "bool \<Rightarrow> bytes \<Rightarrow> bytes + bool \<times> bytes \<times> int" where
  "eprt_parts is_ipv6 arg =
     (let bad = ''Bad EPRT command.''; (before, p1) = v_split_char arg CHR ''|'' in
      if before \<noteq> [] then Inl bad
      else
        let (proto_str, p2) = v_split_char p1 CHR ''|''; proto = str_atoi proto_str in
        if proto < 1 \<or> proto > 2 \<or> (\<not> is_ipv6 \<and> proto = 2) then Inl ''Bad EPRT protocol.''
        else
          let (addr, p3) = v_split_char p2 CHR ''|'' in
          case (if proto = 2 then vsf_sysutil_parse_ipv6 (fst (v_split_char addr CHR ''%''))
                else vsf_sysutil_parse_ipv4 addr) of
            None \<Rightarrow> Inl bad
          | Some raw \<Rightarrow>
              let (port_str, behind) = v_split_char p3 CHR ''|'' in
              if behind \<noteq> [] \<or> port_str = [] then Inl bad
              else
                let port = str_atoi port_str in
                if port < 0 \<or> port > 65535 then Inl bad else Inr (proto = 2, raw, port))"

definition handle_eprt :: "env \<Rightarrow> unit act" where
  "handle_eprt E =
     thn (steps [port_cleanup, pasv_cleanup E])
     (bnd (gets (\<lambda>s. eprt_parts (vsf_sysutil_sockaddr_is_ipv6 (p_local_addr s)) (ftp_arg_str s))) (\<lambda>parts.
      case parts of
        Inl msg \<Rightarrow> vsf_cmdio_write E FTP_BADCMD msg
      | Inr (v6, raw, port) \<Rightarrow>
          set_port_target E v6 raw (word_of_int port)
            ''Illegal EPRT command.'' ''EPRT command successful. Consider using EPSV.''))"

definition data_transfer_checks_ok :: "env \<Rightarrow> bool act" where
  "data_transfer_checks_ok E =
     bnd (pasv_active E) (\<lambda>pasv.
     bnd (if pasv then ret True else port_active E) (\<lambda>active.
     if \<not> active then thn (vsf_cmdio_write E FTP_BADSENDCONN ''Use PORT or PASV first.'') (ret False)
     else
       bnd (gets (\<lambda>s. (data_use_ssl s, is_anonymous s))) (\<lambda>(ssl, anon).
       if tb E ''ssl_enable'' \<and> \<not> ssl \<and>
          ((tb E ''force_local_data_ssl'' \<and> \<not> anon) \<or> (tb E ''force_anon_data_ssl'' \<and> anon))
       then thn (vsf_cmdio_write E FTP_NEEDENCRYPT ''Data connections must be encrypted.'') (ret False)
       else ret True)))"

definition get_remote_transfer_fd :: "env \<Rightarrow> bytes \<Rightarrow> int act" where
  "get_remote_transfer_fd E p_status_msg =
     bnd (pasv_active E) (\<lambda>pasv.
     bnd (if pasv then ret True else port_active E) (\<lambda>active.
     if \<not> active then lift (bug ''neither PORT nor PASV active in get_remote_transfer_fd'')
     else
       thn (upd (abor_received_update (\<lambda>_. False)))
       (bnd (pasv_active E) (\<lambda>pasv'.
        bnd (if pasv' then vsf_ftpdataio_get_pasv_fd E else vsf_ftpdataio_get_port_fd E) (\<lambda>remote_fd.
        if vsf_sysutil_retval_is_error remote_fd then ret remote_fd
        else
          thn (vsf_cmdio_write E FTP_DATACONN p_status_msg)
          (bnd (vsf_ftpdataio_post_mark_connect E) (\<lambda>connected.
           if \<not> connected then bnd (vsf_ftpdataio_dispose_transfer_fd E) (\<lambda>_. ret (- 1))
           else ret remote_fd)))))))"

definition check_abor :: "env \<Rightarrow> unit act" where
  "check_abor E =
     bnd (gets abor_received) (\<lambda>received.
     doif received
       (steps [upd (abor_received_update (\<lambda>_. False)), vsf_cmdio_write E FTP_ABOROK ''ABOR successful.'']))"

definition transfer_cleanup :: "env \<Rightarrow> unit act" where
  "transfer_cleanup E = steps [port_cleanup, pasv_cleanup E]"

section \<open>Transfers\<close>

text \<open>What a transfer returned, after its connection was closed.\<close>

definition closing :: "bool \<Rightarrow> int \<Rightarrow> int \<Rightarrow> int" where
  "closing disposed failure r = (if \<not> disposed \<and> r = 0 then failure else r)"

definition unless_timeout :: "env \<Rightarrow> bytes \<Rightarrow> unit act" where
  "unless_timeout E msg =
     bnd (gets data_timeout) (\<lambda>timeout. doif (\<not> timeout) (vsf_cmdio_write E FTP_BADSENDNET msg))"

definition retr_mark :: "bool \<Rightarrow> bytes \<Rightarrow> int \<Rightarrow> bytes" where
  "retr_mark ascii arg fsize =
     ''Opening '' @ (if ascii then ''ASCII'' else ''BINARY'') @ '' mode data connection for '' @ arg @
     '' ('' @ vsf_sysutil_filesize_t_to_str fsize @ '' bytes).''"

definition retr_reply :: "env \<Rightarrow> int \<Rightarrow> unit act" where
  "retr_reply E r =
     (if r = - 1 then vsf_cmdio_write E FTP_BADSENDFILE ''Failure reading local file.''
      else if r = - 2 then unless_timeout E ''Failure writing network stream.''
      else vsf_cmdio_write E FTP_TRANSFEROK ''Transfer complete.'')"

definition send_file :: "env \<Rightarrow> bool \<Rightarrow> bool \<Rightarrow> int \<Rightarrow> bytes \<Rightarrow> int \<Rightarrow> unit act" where
  "send_file E http ascii offset arg fsize =
     bnd (if http then ret 0 else get_remote_transfer_fd E (retr_mark ascii arg fsize)) (\<lambda>remote_fd.
     if vsf_sysutil_retval_is_error remote_fd then transfer_cleanup E
     else
       bnd (vsf_ftpdataio_transfer_file E 0 False ascii offset fsize) (\<lambda>t.
       bnd (if http then ret True else vsf_ftpdataio_dispose_transfer_fd E) (\<lambda>disposed.
       let r = closing disposed (- 2) (retval t) in
       thn (steps
         [upd (transfer_size_update (\<lambda>_. transferred t)),
          doif (r = 0) (vsf_log_do_log E True)])
       (if http then ret ()
        else steps [retr_reply E r, check_abor E, transfer_cleanup E]))))"

definition handle_retr :: "env \<Rightarrow> bool \<Rightarrow> unit act" where
  "handle_retr E http =
     bnd (gets restart_pos) (\<lambda>offset.
     thn (upd (restart_pos_update (\<lambda>_. 0)))
     (bnd (if http then ret True else data_transfer_checks_ok E) (\<lambda>go_on.
      doif go_on
        (bnd (gets is_ascii) (\<lambda>ascii.
         if ascii \<and> offset \<noteq> 0 then
           vsf_cmdio_write E FTP_FILEFAIL ''No support for resume of ASCII transfer.''
         else
           bnd (tilde_arg E) (\<lambda>arg.
           thn (log_path E kVSFLogEntryDownload arg)
           (bnd (access_ok E arg) (\<lambda>ok.
            if \<not> ok then denied E
            else
              bnd (cos_stat_file E arg) (\<lambda>(r, info).
              if r \<noteq> 0 then vsf_cmdio_write E FTP_FILEFAIL ''Failed to open file.''
              else send_file E http (tb E ''ascii_download_enable'' \<and> ascii) offset arg (file_size info))))))))))"

text \<open>The options and the rest of the argument of a listing.\<close>

definition split_options :: "bytes \<Rightarrow> bytes \<times> bytes" where
  "split_options arg =
     (if arg \<noteq> [] \<and> hd arg = CHR ''-'' then v_split_char (drop 1 arg) CHR '' '' else ([], arg))"

text \<open>The directory and the filter a listing is about; \<open>None\<close> when access is refused.\<close>

definition dir_target :: "env \<Rightarrow> bool \<Rightarrow> bytes \<Rightarrow> (bytes \<times> bytes) option act" where
  "dir_target E stat_cmd given =
     (if given = [] then ret (Some (''.'', []))
      else
        bnd (resolve_tilde E given) (\<lambda>filt.
        bnd (access_ok E filt) (\<lambda>ok.
        if \<not> ok then ret None
        else
          bnd (if stat_cmd then ret False else bnd (cos_isdir E filt) (\<lambda>r. ret (r = 0))) (\<lambda>is_dir.
          ret (Some (if is_dir then (filt, [])
                     else if found (str_locate_char filt CHR ''/'') then
                       (let (dir, name) = v_split_char_reverse filt CHR ''/''
                        in (if dir = [] then ''/'' else dir, name))
                     else (''.'', filt)))))))"

definition dir_reply :: "env \<Rightarrow> bool \<Rightarrow> int \<Rightarrow> unit act" where
  "dir_reply E stat_cmd r =
     (if stat_cmd then vsf_cmdio_write E FTP_STATFILE_OK ''End of status''
      else if r \<noteq> 0 then unless_timeout E ''Failure writing network stream.''
      else vsf_cmdio_write E FTP_TRANSFEROK ''Directory send OK.'')"

definition send_listing :: "env \<Rightarrow> bool \<Rightarrow> bool \<Rightarrow> bytes \<Rightarrow> bytes \<times> bytes \<Rightarrow> unit act" where
  "send_listing E full_details stat_cmd options target =
     bnd (if stat_cmd then thn (vsf_cmdio_write_hyphen E FTP_STATFILE_OK ''Status follows:'') (ret 0)
          else get_remote_transfer_fd E ''Here comes the directory listing.'') (\<lambda>remote_fd.
     if vsf_sysutil_retval_is_error remote_fd then transfer_cleanup E
     else
       bnd (vsf_ftpdataio_transfer_dir E stat_cmd (fst target) (if stat_cmd then options @ ''a'' else options)
              (snd target) full_details) (\<lambda>t.
       bnd (if stat_cmd then ret True else vsf_ftpdataio_dispose_transfer_fd E) (\<lambda>disposed.
       steps [dir_reply E stat_cmd (closing disposed (- 1) t), check_abor E,
              doif (\<not> stat_cmd) (transfer_cleanup E)])))"

definition handle_dir_common :: "env \<Rightarrow> bool \<Rightarrow> bool \<Rightarrow> unit act" where
  "handle_dir_common E full_details stat_cmd =
     bnd (if stat_cmd then ret True else data_transfer_checks_ok E) (\<lambda>go_on.
     doif go_on
       (bnd (gets (\<lambda>s. split_options (ftp_arg_str s))) (\<lambda>(options, given).
        bnd (dir_target E stat_cmd given) (\<lambda>target.
        case target of
          None \<Rightarrow> denied E
        | Some t \<Rightarrow> send_listing E full_details stat_cmd options t))))"

definition handle_list :: "env \<Rightarrow> unit act" where
  "handle_list E = handle_dir_common E True False"

definition handle_nlst :: "env \<Rightarrow> unit act" where
  "handle_nlst E = handle_dir_common E False False"

definition handle_stat_file :: "env \<Rightarrow> unit act" where
  "handle_stat_file E = handle_dir_common E True True"

text \<open>Uploads. The file is received into a local file, which is then sent to the store.\<close>

definition finish_upload :: "env \<Rightarrow> int \<Rightarrow> bytes \<Rightarrow> bool \<Rightarrow> bool \<Rightarrow> unit act" where
  "finish_upload E new_file_fd p_filename success pasv_cleaned = steps
     [port_cleanup,
      doif (\<not> pasv_cleaned) (pasv_cleanup E),
      doif (tb E ''delete_failed_uploads'' \<and> \<not> success) (bnd (str_unlink E p_filename) (\<lambda>_. ret ())),
      vsf_sysutil_close E new_file_fd]"

text \<open>The reply to an upload, and whether the file reached the store.\<close>

definition upload_result :: "env \<Rightarrow> int \<Rightarrow> bytes \<Rightarrow> bool act" where
  "upload_result E r p_filename =
     (if r = - 1 then
        thn (vsf_cmdio_write E FTP_BADSENDFILE ''Failure writing to local file.'') (ret False)
      else if r = - 2 then thn (unless_timeout E ''Failure reading network stream.'') (ret False)
      else if r = - 3 then
        thn (vsf_cmdio_write E FTP_BADSENDFILE (''The max allow file size is: '' @
               vsf_sysutil_ulong_to_str (unat (tu E ''max_upload_file_size'') div 1024) @ '' MB''))
        (bnd (str_unlink E p_filename) (\<lambda>_. ret False))
      else if r = 0 then
        thn (steps
          [port_cleanup,
           vsf_log_line E kVSFLogEntryDebug (p_filename @ ''  Receive success.'')])
        (bnd (gets ftp_arg_str) (\<lambda>arg.
         bnd (cos_upload_file E p_filename arg) (\<lambda>u.
         if u \<noteq> 0 then
           thn (vsf_cmdio_write E FTP_BADSENDFILE ''Failure transfer file to cos.'') (ret False)
         else
           thn (steps [vsf_log_do_log E True, vsf_cmdio_write E FTP_TRANSFEROK ''Transfer complete.''])
           (bnd (str_unlink E p_filename) (\<lambda>_. ret True)))))
      else ret False)"

definition receive_upload :: "env \<Rightarrow> int \<Rightarrow> bytes \<Rightarrow> int \<Rightarrow> unit act" where
  "receive_upload E new_file_fd p_filename have_recv_len =
     bnd (get_remote_transfer_fd E ''Ok to send data.'') (\<lambda>remote_fd.
     if vsf_sysutil_retval_is_error remote_fd then finish_upload E new_file_fd p_filename False False
     else
       thn (pasv_cleanup E)
       (bnd (gets is_ascii) (\<lambda>ascii.
        bnd (vsf_ftpdataio_transfer_file E new_file_fd True (tb E ''ascii_upload_enable'' \<and> ascii)
               have_recv_len 0) (\<lambda>t.
        bnd (vsf_ftpdataio_dispose_transfer_fd E) (\<lambda>disposed.
        thn (upd (transfer_size_update (\<lambda>_. transferred t)))
        (bnd (upload_result E (closing disposed (- 2) (retval t)) p_filename) (\<lambda>success.
         thn (check_abor E) (finish_upload E new_file_fd p_filename success True))))))))"

definition chown_upload :: "env \<Rightarrow> int \<Rightarrow> unit act" where
  "chown_upload E fd =
     bnd (gets is_anonymous) (\<lambda>anon.
     doif (anon \<and> tb E ''chown_uploads'') (steps
       [or_die E (Sys ''fchmod'' [] [fd, uint (tu E ''chown_upload_mode'' AND 511)]) ''fchmod'',
        if tb E ''one_process_model'' then vsf_one_process_chown_upload E fd
        else vsf_two_process_chown_upload E fd]))"

text \<open>Where the new data goes: whether the offset lies inside the file.\<close>

definition seek_upload :: "env \<Rightarrow> int \<Rightarrow> bool \<Rightarrow> int \<Rightarrow> int \<Rightarrow> bool act" where
  "seek_upload E fd do_truncate offset st_size =
     thn (doif do_truncate (steps
       [or_die E (Sys ''ftruncate'' [] [fd]) ''ftruncate'', vsf_sysutil_lseek_to E fd 0]))
     (if offset = 0 then ret True
      else
        bnd (lift (vsf_sysutil_statbuf_get_size st_size)) (\<lambda>file_len.
        if file_len < offset then ret False
        else thn (vsf_sysutil_lseek_to E fd offset) (ret True)))"

definition store_upload :: "env \<Rightarrow> int \<Rightarrow> bytes \<Rightarrow> bool \<Rightarrow> int \<Rightarrow> unit act" where
  "store_upload E fd p_filename do_truncate offset =
     bnd (vsf_sysutil_fstat E fd) (\<lambda>(st_mode, st_size).
     thn (steps
       [doif (vsf_sysutil_statbuf_is_regfile (word_of_int st_mode))
          (or_die E (Sys ''deactivate_noblock'' [] [fd]) ''fcntl''),
        chown_upload E fd])
     (bnd (if tb E ''lock_upload_files'' then sys E (Sys ''flock'' [] [fd]) else ret 0) (\<lambda>locked.
      if locked \<noteq> 0 then
        thn (vsf_cmdio_write E FTP_BADFILEBUSY ''File is locked, Try later.'')
          (finish_upload E fd p_filename True False)
      else
        bnd (seek_upload E fd do_truncate offset st_size) (\<lambda>in_bounds.
        if \<not> in_bounds then
          thn (vsf_cmdio_write E FTP_BADSENDFILE ''Offset is out of bounds. Try again'')
          (bnd (cos_unlink E p_filename) (\<lambda>_. finish_upload E fd p_filename False False))
        else receive_upload E fd p_filename offset))))"

definition handle_upload_common :: "env \<Rightarrow> unit act" where
  "handle_upload_common E =
     bnd (gets restart_pos) (\<lambda>offset.
     thn (upd (restart_pos_update (\<lambda>_. 0)))
     (bnd (data_transfer_checks_ok E) (\<lambda>go_on.
      doif go_on
        (bnd (tilde_arg E) (\<lambda>arg.
         bnd (session_path E arg) (\<lambda>p_filename.
         thn (log_path E kVSFLogEntryUpload arg)
         (bnd (access_ok E p_filename) (\<lambda>ok.
          if \<not> ok then denied E
          else
            bnd (gets is_anonymous) (\<lambda>anon.
            let exclusive = anon \<and> \<not> tb E ''anon_other_write_enable'' in
            bnd (if exclusive then str_create_exclusive E p_filename else str_create E p_filename) (\<lambda>new_file_fd.
            if vsf_sysutil_retval_is_error new_file_fd then
              vsf_cmdio_write E FTP_UPLOADFAIL ''Could not create file.''
            else store_upload E new_file_fd p_filename (\<not> exclusive \<and> offset = 0) offset))))))))))"

definition handle_stor :: "env \<Rightarrow> unit act" where
  "handle_stor E = handle_upload_common E"

section \<open>Other commands\<close>

definition handle_type :: "env \<Rightarrow> unit act" where
  "handle_type E =
     bnd upper_arg (\<lambda>arg.
     if arg = ''I'' \<or> arg = ''L8'' \<or> arg = ''L 8'' then steps
       [upd (is_ascii_update (\<lambda>_. False)), vsf_cmdio_write E FTP_TYPEOK ''Switching to Binary mode.'']
     else if arg = ''A'' \<or> arg = ''A N'' then steps
       [upd (is_ascii_update (\<lambda>_. True)), vsf_cmdio_write E FTP_TYPEOK ''Switching to ASCII mode.'']
     else vsf_cmdio_write E FTP_BADCMD ''Unrecognised TYPE command.'')"

definition handle_rest :: "env \<Rightarrow> unit act" where
  "handle_rest E =
     bnd (gets ftp_arg_str) (\<lambda>arg.
     let n = str_a_to_filesize_t arg; val = (if n < 0 then 0 else n) in steps
       [upd (restart_pos_update (\<lambda>_. val)),
        vsf_cmdio_write_str E FTP_RESTOK
          (''Restart position accepted ('' @ vsf_sysutil_filesize_t_to_str val @ '').'')])"

definition handle_stru :: "env \<Rightarrow> unit act" where
  "handle_stru E =
     bnd upper_arg (\<lambda>arg.
     if arg = ''F'' then vsf_cmdio_write E FTP_STRUOK ''Structure set to F.''
     else vsf_cmdio_write E FTP_BADSTRU ''Bad STRU command.'')"

definition handle_mode :: "env \<Rightarrow> unit act" where
  "handle_mode E =
     bnd upper_arg (\<lambda>arg.
     if arg = ''S'' then vsf_cmdio_write E FTP_MODEOK ''Mode set to S.''
     else vsf_cmdio_write E FTP_BADMODE ''Bad MODE command.'')"

definition raw_line :: "env \<Rightarrow> bytes \<Rightarrow> unit act" where
  "raw_line E t = vsf_cmdio_write_raw E (t @ [CR, LF])"

definition handle_help :: "env \<Rightarrow> unit act" where
  "handle_help E = steps
     [vsf_cmdio_write_hyphen E FTP_HELP ''The following commands are recognized.'',
      raw_line E '' ABOR ACCT ALLO APPE CDUP CWD  DELE EPRT EPSV FEAT HELP LIST MDTM MKD'',
      raw_line E '' MODE NLST NOOP OPTS PASS PASV PORT PWD  QUIT REIN REST RETR RMD  RNFR'',
      raw_line E '' RNTO SITE SIZE SMNT STAT STOR STOU STRU SYST TYPE USER XCUP XCWD XMKD'',
      raw_line E '' XPWD XRMD'',
      vsf_cmdio_write E FTP_HELP ''Help OK.'']"

definition handle_stat :: "env \<Rightarrow> unit act" where
  "handle_stat E =
     bnd (gets id) (\<lambda>s. steps
       [vsf_cmdio_write_hyphen E FTP_STATOK ''FTP server status:'',
        vsf_cmdio_write_raw E ''     Connected to '',
        vsf_cmdio_write_raw E (remote_ip_str s),
        raw_line E [],
        vsf_cmdio_write_raw E ''     Logged in as '',
        vsf_cmdio_write_raw E (user_str s),
        raw_line E [],
        vsf_cmdio_write_raw E ''     TYPE: '',
        raw_line E (if is_ascii s then ''ASCII'' else ''BINARY''),
        if bw_rate_max s = 0 then raw_line E ''     No session bandwidth limit''
        else steps
          [vsf_cmdio_write_raw E ''     Session bandwidth limit in byte/s is '',
           vsf_cmdio_write_raw E (vsf_sysutil_ulong_to_str (unat (bw_rate_max s))),
           raw_line E []],
        if tu E ''idle_session_timeout'' = 0 then raw_line E ''     No session timeout''
        else steps
          [vsf_cmdio_write_raw E ''     Session timeout in seconds is '',
           vsf_cmdio_write_raw E (vsf_sysutil_ulong_to_str (unat (tu E ''idle_session_timeout''))),
           raw_line E []],
        raw_line E (if control_use_ssl s then ''     Control connection is encrypted''
                    else ''     Control connection is plain text''),
        raw_line E (if data_use_ssl s then ''     Data connections will be encrypted''
                    else ''     Data connections will be plain text''),
        doif (num_clients s > 0) (steps
          [vsf_cmdio_write_raw E ''     At session startup, client count was '',
           vsf_cmdio_write_raw E (vsf_sysutil_ulong_to_str (unat (num_clients s))),
           raw_line E []]),
        raw_line E ''     vsFTPd 3.0.3 - secure, fast, stable'',
        vsf_cmdio_write E FTP_STATOK ''End of status''])"

definition handle_logged_in_user :: "env \<Rightarrow> unit act" where
  "handle_logged_in_user E =
     bnd (gets (\<lambda>s. (is_anonymous s, user_str s = ftp_arg_str s))) (\<lambda>(anon, same).
     if anon then vsf_cmdio_write E FTP_LOGINERR (''Can'' @ [CHR 0x27] @ ''t change from guest user.'')
     else if same then vsf_cmdio_write E FTP_GIVEPWORD ''Any password will do.''
     else vsf_cmdio_write E FTP_LOGINERR (''Can'' @ [CHR 0x27] @ ''t change to another user.''))"

definition handle_logged_in_pass :: "env \<Rightarrow> unit act" where
  "handle_logged_in_pass E = vsf_cmdio_write E FTP_LOGINOK ''Already logged in.''"

section \<open>The command loop\<close>

text \<open>Whether a command stands in a list of commands separated by commas; an empty entry ends the list.\<close>

function listed_command :: "bytes \<Rightarrow> bytes \<Rightarrow> bool" where
  "listed_command s_src_str cmd =
     (let (entry, s_rhs_str) = v_split_char s_src_str CHR '','' in
      if entry = [] then False
      else if entry = cmd then True
      else listed_command s_rhs_str cmd)"
  by pat_completeness auto
termination
proof (relation "measure (\<lambda>(l, c). length l)", simp, clarsimp)
  fix l e r :: bytes assume "(e, r) = v_split_char l CHR '',''" and "e \<noteq> []"
  then show "length r < length l"
    using v_split_char_length(1) [of "CHR '',''" l] by (cases e) (auto dest: sym)
qed

declare listed_command.simps [simp del]

definition command_allowed :: "env \<Rightarrow> bytes \<Rightarrow> bool" where
  "command_allowed E cmd \<longleftrightarrow>
     (case ts E ''cmds_allowed'' of None \<Rightarrow> True | Some l \<Rightarrow> listed_command (cstr l) cmd) \<and>
     (case ts E ''cmds_denied'' of None \<Rightarrow> True | Some l \<Rightarrow> \<not> listed_command (cstr l) cmd)"

definition may_read :: "vsf_session \<Rightarrow> bool" where
  "may_read s \<longleftrightarrow> permissions s AND Global_READ \<noteq> 0"

text \<open>Writing needs the option, the permission, and for anonymous users the option of the command.\<close>

definition may_write :: "env \<Rightarrow> string \<Rightarrow> vsf_session \<Rightarrow> bool" where
  "may_write E anon_option s \<longleftrightarrow>
     tb E ''write_enable'' \<and> (tb E anon_option \<or> \<not> is_anonymous s) \<and> permissions s AND Global_WRITE \<noteq> 0"

definition not_implemented :: "env \<Rightarrow> unit act" where
  "not_implemented E =
     bnd (gets ftp_cmd_str) (\<lambda>cmd. vsf_cmdio_write E FTP_COMMANDNOTIMPL (cmd @ '' not implemented.''))"

definition guarded_commands :: "bytes list" where
  "guarded_commands =
     [''PASV'', ''PORT'', ''STOR'', ''MKD'', ''XMKD'', ''RMD'', ''XRMD'', ''DELE'', ''RNFR'', ''RNTO'', ''SITE'',
      ''APPE'', ''EPSV'', ''EPRT'', ''RETR'', ''LIST'', ''NLST'', ''STOU'', ''ALLO'', ''REIN'', ''ACCT'', ''SMNT'',
      ''FEAT'', ''OPTS'', ''STAT'', ''PBSZ'', ''PROT'']"

definition abor_telnet :: bytes where
  "abor_telnet = [CHR 0xFF, CHR 0xF4, CHR 0xFF, CHR 0xF2] @ ''ABOR''"

text \<open>The chain of tests of the loop on a command, from the session when it was read.\<close>

definition dispatch :: "env \<Rightarrow> vsf_session \<Rightarrow> unit act" where
  "dispatch E s =
     (let cmd = ftp_cmd_str s; arg = ftp_arg_str s; other_write = may_write E ''anon_other_write_enable'' s in
      if \<not> command_allowed E cmd then denied E
      else if cmd = ''QUIT'' then vsf_cmdio_write_exit E FTP_GOODBYE ''Goodbye.'' 0
      else if cmd = ''PWD'' \<or> cmd = ''XPWD'' then handle_pwd E
      else if cmd = ''CWD'' \<or> cmd = ''XCWD'' then handle_cwd E
      else if cmd = ''CDUP'' \<or> cmd = ''XCUP'' then handle_cdup E
      else if tb E ''pasv_enable'' \<and> \<not> epsv_all s \<and> (cmd = ''PASV'' \<or> cmd = ''P@SW'') then handle_pasv E False
      else if tb E ''pasv_enable'' \<and> cmd = ''EPSV'' then handle_pasv E True
      else if tb E ''download_enable'' \<and> may_read s \<and> cmd = ''RETR'' then handle_retr E False
      else if cmd = ''NOOP'' then vsf_cmdio_write E FTP_NOOPOK ''NOOP ok.''
      else if cmd = ''SYST'' then vsf_cmdio_write E FTP_SYSTOK ''UNIX Type: L8''
      else if cmd = ''HELP'' then handle_help E
      else if tb E ''dirlist_enable'' \<and> may_read s \<and> cmd = ''LIST'' then handle_list E
      else if cmd = ''TYPE'' then handle_type E
      else if tb E ''port_enable'' \<and> \<not> epsv_all s \<and> cmd = ''PORT'' then handle_port E
      else if may_write E ''anon_upload_enable'' s \<and> cmd = ''STOR'' then handle_stor E
      else if may_write E ''anon_mkdir_write_enable'' s \<and> (cmd = ''MKD'' \<or> cmd = ''XMKD'') then handle_mkd E
      else if other_write \<and> (cmd = ''RMD'' \<or> cmd = ''XRMD'') then handle_rmd E
      else if other_write \<and> cmd = ''DELE'' then handle_dele E
      else if cmd = ''REST'' then handle_rest E
      else if other_write \<and> cmd = ''RNFR'' then not_implemented E
      else if other_write \<and> cmd = ''RNTO'' then not_implemented E
      else if tb E ''dirlist_enable'' \<and> may_read s \<and> cmd = ''NLST'' then handle_nlst E
      else if may_read s \<and> cmd = ''SIZE'' then handle_size E
      else if \<not> is_anonymous s \<and> cmd = ''SITE'' then not_implemented E
      else if cmd = ''ABOR'' \<or> cmd = abor_telnet then vsf_cmdio_write E FTP_ABOR_NOCONN ''No transfer to ABOR.''
      else if other_write \<and> cmd = ''APPE'' then not_implemented E
      else if cmd = ''MDTM'' then not_implemented E
      else if tb E ''port_enable'' \<and> cmd = ''EPRT'' then handle_eprt E
      else if cmd = ''STRU'' then handle_stru E
      else if cmd = ''MODE'' then handle_mode E
      else if may_write E ''anon_upload_enable'' s \<and> cmd = ''STOU'' then not_implemented E
      else if cmd = ''ALLO'' then vsf_cmdio_write E FTP_ALLOOK ''ALLO command ignored.''
      else if cmd = ''REIN'' \<or> cmd = ''ACCT'' \<or> cmd = ''SMNT'' then not_implemented E
      else if cmd = ''FEAT'' then handle_feat E
      else if cmd = ''OPTS'' then handle_opts E
      else if cmd = ''STAT'' \<and> arg = [] then handle_stat E
      else if tb E ''dirlist_enable'' \<and> may_read s \<and> cmd = ''STAT'' then handle_stat_file E
      else if tb E ''ssl_enable'' \<and> cmd = ''PBSZ'' then handle_pbsz E
      else if tb E ''ssl_enable'' \<and> cmd = ''PROT'' then handle_prot E
      else if cmd = ''USER'' then handle_logged_in_user E
      else if cmd = ''PASS'' then handle_logged_in_pass E
      else if cmd \<in> set guarded_commands then denied E
      else if cmd = [] \<and> arg = [] then ret ()
      else if cmd \<in> {''GET'', ''POST'', ''HEAD'', ''OPTIONS'', ''CONNECT''} then
        vsf_cmdio_write_exit E FTP_BADCMD ''HTTP protocol commands not allowed.'' 1
      else vsf_cmdio_write E FTP_BADCMD ''Unknown command.'')"

definition read_command :: "env \<Rightarrow> unit act" where
  "read_command E = steps
     [doif (tb E ''setproctitle_enable'') (emit (Sys ''setproctitle'' [''IDLE''] [])),
      bnd (vsf_cmdio_get_cmd_and_arg E True) (\<lambda>(cmd, arg).
      upd (\<lambda>s. s\<lparr>ftp_cmd_str := cmd, ftp_arg_str := arg\<rparr>)),
      cos_conv_gbk_2_utf E,
      doif (tb E ''setproctitle_enable'')
        (bnd (gets (\<lambda>s. if ftp_arg_str s \<noteq> [] then ftp_cmd_str s @ '' '' @ ftp_arg_str s else ftp_cmd_str s)) (\<lambda>t.
         emit (Sys ''setproctitle'' [v_replace_unprintable t CHR ''?''] [])))]"

definition after_command :: "env \<Rightarrow> unit act" where
  "after_command E = steps
     [bnd vsf_log_entry_pending (\<lambda>pending. doif pending (vsf_log_do_log E False)),
      bnd (gets data_timeout) (\<lambda>timeout.
      doif timeout (vsf_cmdio_write_exit E FTP_DATA_TIMEOUT ''Data timeout. Reconnect. Sorry.'' 1))]"

text \<open>One turn of the loop, and what comes before the loop.\<close>

definition serve_command :: "env \<Rightarrow> unit act" where
  "serve_command E = steps [read_command E, bnd (gets id) (dispatch E), after_command E]"

section \<open>HTTP and the start of the session\<close>

text \<open>The lines of an HTTP request up to the empty one: every line that is read shortens what the client
  has sent, and the process exits at the end of it.\<close>

function http_headers :: "env \<Rightarrow> unit act" where
  "http_headers E w =
     (case vsf_cmdio_get_cmd_and_arg E True w of
        (Inl f, w') \<Rightarrow> (Inl f, w')
      | (Inr (cmd, arg), w') \<Rightarrow>
          (let w'' = w'\<lparr>sess := (sess w')\<lparr>ftp_cmd_str := cmd, ftp_arg_str := arg\<rparr>\<rparr>
           in if cmd \<noteq> [] \<or> arg \<noteq> [] then http_headers E w'' else (Inr (), w'')))"
  by pat_completeness auto
termination
  by (relation "measure (\<lambda>(E, w). length (incoming w))") (auto dest!: get_cmd_consumes [OF sym])

declare http_headers.simps [simp del]

definition http_type :: "env \<Rightarrow> unit act" where
  "http_type E =
     bnd (gets http_get_arg) (\<lambda>request.
     let path = fst (v_split_char request CHR '' ''); (stem, suffix) = v_split_char path CHR ''.'' in
     thn (upd (\<lambda>s. s\<lparr>http_get_arg := stem, ftp_cmd_str := v_upper suffix, ftp_arg_str := path\<rparr>))
     (raw_line E (if v_upper suffix = ''HTML'' \<or> v_upper suffix = ''HTM'' then ''Content-Type: text/html''
                  else ''Content-Type: dunno'')))"

definition handle_http :: "env \<Rightarrow> unit act" where
  "handle_http E =
     (if \<not> tb E ''download_enable'' then lift (bug ''HTTP needs download - fix your config'')
      else
        thn (steps
          [http_headers E,
           raw_line E ''HTTP/1.1 200 OK'',
           raw_line E ''Server: vsftpd'',
           raw_line E ''Connection: close'',
           raw_line E ''X-Frame-Options: SAMEORIGIN'',
           raw_line E ''X-Content-Type-Options: nosniff'',
           http_type E,
           raw_line E [],
           upd (is_ascii_update (\<lambda>_. False)),
           upd (restart_pos_update (\<lambda>_. 0)),
           handle_retr E True,
           bnd vsf_log_entry_pending (\<lambda>pending. doif pending (vsf_log_do_log E False))])
        (vsf_sysutil_exit 0))"

definition set_umask :: "32 word \<Rightarrow> unit act" where
  "set_umask m = emit (Sys ''umask'' [] [uint (m AND 511)])"

definition start_session :: "env \<Rightarrow> unit act" where
  "start_session E = steps
     [emit (Sys ''cos_env_init'' [] []),
      bnd (str_getcwd E) (\<lambda>cwd. upd (home_str_update (\<lambda>_. cwd))),
      bnd (gets is_anonymous) (\<lambda>anon.
      if anon then steps
        [set_umask (tu E ''anon_umask''), upd (bw_rate_max_update (\<lambda>_. tu E ''anon_max_rate''))]
      else steps
        [set_umask (tu E ''local_umask''), upd (bw_rate_max_update (\<lambda>_. tu E ''local_max_rate''))]),
      bnd (gets is_http) (\<lambda>http.
      doif http (thn (handle_http E) (lift (bug ''should not be reached'')))),
      bnd (gets control_use_ssl) (\<lambda>ssl.
      doif (tb E ''async_abor_enable'' \<and> \<not> ssl) (steps
        [emit (Sys ''vsf_sysutil_install_sighandler'' [''handle_sigurg''] [0]),
         or_die E (Sys ''activate_sigurg'' [] [0]) ''fcntl''])),
      vsf_banner_dir_changed E FTP_LOGINOK,
      vsf_cmdio_write E FTP_LOGINOK ''Login successful.'']"

end
