(* ===== verification/Login.thy ===== *)
theory Login
  imports Postlogin Parseconf
begin

text \<open>
  The login half of the two process models: \<^verbatim>\<open>vsf_two_process_login\<close> and \<^verbatim>\<open>process_login_req\<close> of
  \<^verbatim>\<open>twoprocess.c\<close> with \<^verbatim>\<open>vsf_secutil_change_credentials\<close> of \<^verbatim>\<open>secutil.c\<close>, and \<^verbatim>\<open>vsf_one_process_login\<close> of
  \<^verbatim>\<open>oneprocess.c\<close>. In the two-process model the parent forks when a login succeeds: the child that asked
  ends (or relays the encrypted connection), and the session goes on in the new child, with the
  parent's copy of the session, a fresh socket pair and the settings of the user's own
  configuration file. A login therefore returns the environment the session goes on in, or \<open>None\<close>
  when it was refused. The copy of the session is what the fork duplicates.
\<close>

section \<open>Settings of a user\<close>

definition VSFTP_CONF_FILE_MAX :: nat where "VSFTP_CONF_FILE_MAX = 100000"

definition kVSFSysUtilErrNOENT :: int where "kVSFSysUtilErrNOENT = 8"

text \<open>Whether a configuration file belongs to the user the process runs as, and is a file.\<close>

definition config_owner_ok :: "env \<Rightarrow> bytes \<Rightarrow> bool act" where
  "config_owner_ok E f =
     bnd (ask E (Sys ''stat'' [f] [])) (\<lambda>retval.
     bnd (ask E (Sys ''stat_uid'' [f] [])) (\<lambda>uid.
     bnd (ask E (Sys ''getuid'' [] [])) (\<lambda>me.
     bnd (ask E (Sys ''stat_mode'' [f] [])) (\<lambda>mode.
     ret (\<not> (vsf_sysutil_retval_is_error retval \<or> uid \<noteq> me \<or>
              \<not> vsf_sysutil_statbuf_is_regfile (word_of_int mode)))))))"

definition load_config :: "env \<Rightarrow> bytes \<Rightarrow> env act" where
  "load_config E f =
     bnd (str_fileread E f VSFTP_CONF_FILE_MAX) (\<lambda>(config_file, retval).
     bnd (config_owner_ok E f) (\<lambda>ok.
     bnd (lift (vsf_parseconf_load_file
            (\<lambda>_. if vsf_sysutil_retval_is_error retval then None else Some config_file) (\<lambda>_. ok)
            (Some f) True (None, tun E))) (\<lambda>(_, T). ret (E\<lparr>tun := T\<rparr>))))"

definition handle_per_user_config :: "env \<Rightarrow> bytes \<Rightarrow> env act" where
  "handle_per_user_config E p_user_str =
     (case ts E ''user_config_dir'' of
        None \<Rightarrow> ret E
      | Some dir \<Rightarrow>
          if found (str_locate_char p_user_str CHR ''/'') then ret E
          else
            let filename = cstr (cstr dir @ ''/'' @ p_user_str) in
            bnd (sys E (Sys ''stat'' [filename] [])) (\<lambda>retval.
            if \<not> vsf_sysutil_retval_is_error retval then load_config E filename
            else
              bnd (vsf_sysutil_get_error E) (\<lambda>err.
              if err \<noteq> kVSFSysUtilErrNOENT then lift (die ''error opening per-user config file'')
              else ret E)))"

section \<open>The directory of a session\<close>

text \<open>The user, the second directory, the capabilities and the options are not used.\<close>

definition vsf_secutil_change_credentials ::
  "env \<Rightarrow> bytes \<Rightarrow> bytes option \<Rightarrow> bytes \<Rightarrow> nat \<Rightarrow> string list \<Rightarrow> unit act" where
  "vsf_secutil_change_credentials E p_user_str p_dir_str p_ext_dir_str caps options =
     (case p_dir_str of
        None \<Rightarrow> raise Segv
      | Some dir \<Rightarrow>
          thn (bnd (ask E (Sys ''access'' [cstr dir] [])) (\<lambda>there.
               doif (there \<noteq> 0)
                 (bnd (str_mkdirs E dir 493) (\<lambda>i_res.
                  if i_res \<noteq> 0 then lift (die2 ''vsftpd: create work dir error'' (Some (cstr dir))) else ret ()))))
          (bnd (str_chdir E dir) (\<lambda>retval.
           if retval \<noteq> 0 then lift (die2 ''cannot change directory:'' (Some (cstr dir))) else ret ())))"

text \<open>The directory of the user and the second directory.\<close>

definition calculate_chdir_dir :: "env \<Rightarrow> bool \<Rightarrow> bytes \<Rightarrow> bytes \<Rightarrow> bytes \<times> bytes" where
  "calculate_chdir_dir E anon_login p_orig_user_str p_user_root =
     (let substitute = (\<lambda>dir. case ts E ''user_sub_token'' of
            None \<Rightarrow> dir | Some token \<Rightarrow> v_replace_text dir token (cstr p_orig_user_str))
      in (substitute p_user_root,
          case ts E ''local_root'' of
            None \<Rightarrow> []
          | Some root \<Rightarrow> if \<not> anon_login then substitute (cstr root) else []))"

section \<open>The new child\<close>

text \<open>A new process, in a network of its own if \<open>newnet\<close>. Without a child the parent fails when it waits for
  the first command.\<close>

definition fork_child :: "env \<Rightarrow> bool \<Rightarrow> unit act" where
  "fork_child E newnet =
     (if newnet then
        bnd (sys E (Sys ''fork_newnet'' [] [])) (\<lambda>newpid. if newpid < 0 then lift (die ''priv_sock_get_cmd'') else ret ())
      else
        bnd (sys E (Sys ''fork'' [] [])) (\<lambda>newpid. if newpid < 0 then lift (die ''fork'') else ret ()))"

text \<open>What a new child does before it serves commands: the session of the child.\<close>

definition post_login_child :: "env \<Rightarrow> bytes \<Rightarrow> bool \<Rightarrow> bool \<Rightarrow> vsf_session act" where
  "post_login_child E p_user_str do_chroot was_anon =
     (let guest = tb E ''guest_enable'' \<and> \<not> was_anon;
          user = (if guest then (case ts E ''guest_username'' of None \<Rightarrow> [] | Some u \<Rightarrow> cstr u) else p_user_str);
          unprivileged = guest \<and> \<not> tb E ''virtual_use_local_privs'';
          anon = was_anon \<or> unprivileged;
          options = [''USE_GROUPS'', ''NO_PROCS''] @ (if do_chroot \<or> unprivileged then [''CHROOT''] else []) @
            (if \<not> anon then [''CHANGE_EUID''] else []) @
            (if \<not> was_anon \<and> tb E ''allow_writeable_chroot'' then [''ALLOW_WRITEABLE_ROOT''] else [])
      in bnd (lift (root_of E)) (\<lambda>rc.
         let (userdir, chroot) = calculate_chdir_dir E was_anon p_user_str (get_user_root_dir rc) in
         thn (steps
           [emit (Sys ''vsf_set_die_if_parent_dies'' [] []),
            vsf_secutil_change_credentials E user (Some userdir) chroot 0 options,
            emit (Sys ''seccomp_sandbox_postlogin'' [] [])])
         (gets (\<lambda>s. s\<lparr>is_guest := is_guest s \<or> guest, is_anonymous := anon\<rparr>))))"

text \<open>The parent after an accepted login: the settings and the session of the new child.\<close>

definition common_do_login :: "env \<Rightarrow> bytes \<Rightarrow> bool \<Rightarrow> bool \<Rightarrow> (env \<times> vsf_session) act" where
  "common_do_login E p_user_str do_chroot anon =
     thn (steps
       [emit (Sys ''vsf_sysutil_install_null_sighandler'' [] []),
        priv_sock_send_result E Parent PRIV_SOCK_RESULT_OK,
        bnd (gets control_use_ssl) (\<lambda>ssl.
        if \<not> ssl then emit (Sys ''vsf_sysutil_wait'' [] []) else upd (ssl_slave_active_update (\<lambda>_. True)))])
     (bnd (handle_per_user_config E p_user_str) (\<lambda>E'.
      thn (steps
        [upd (is_anonymous_update (\<lambda>_. anon)),
         emit (Sys ''priv_sock_close'' [] []),
         or_die E' (Sys ''socketpair'' [] []) ''socketpair'',
         emit (Sys ''vsf_sysutil_install_sighandler'' [''handle_sigchld''] [1]),
         fork_child E' (tb E' ''isolate_network'' \<and> \<not> tb E' ''port_promiscuous'')])
      (bnd (post_login_child E' p_user_str do_chroot anon) (\<lambda>s. ret (E', s)))))"

section \<open>Requests to log in\<close>

text \<open>Whether a local user is confined: the list holds the exceptions.\<close>

definition confined :: "env \<Rightarrow> bytes \<Rightarrow> bool act" where
  "confined E user =
     (if tb E ''chroot_list_enable'' then
        bnd (case ts E ''chroot_list_file'' of
               None \<Rightarrow> ret ([], - 1) | Some f \<Rightarrow> str_fileread E f VSFTP_CONF_FILE_MAX) (\<lambda>(chroot_list_file, retval).
        if vsf_sysutil_retval_is_error retval then
          lift (die2 ''could not read chroot() list file:'' (ts E ''chroot_list_file''))
        else
          bnd (lift (str_contains_line chroot_list_file user)) (\<lambda>listed.
          ret (if listed then \<not> tb E ''chroot_local_user'' else tb E ''chroot_local_user'')))
      else ret (tb E ''chroot_local_user''))"

definition process_login_req :: "env \<Rightarrow> (env \<times> vsf_session) option act" where
  "process_login_req E =
     bnd (priv_sock_get_cmd Parent) (\<lambda>cmd.
     if cmd \<noteq> PRIV_SOCK_LOGIN then lift (die ''bad request'')
     else
       bnd (priv_sock_get_str Parent) (\<lambda>user.
       bnd (priv_sock_get_str Parent) (\<lambda>password_str.
       bnd (priv_sock_get_int Parent) (\<lambda>control_ssl.
       bnd (priv_sock_get_int Parent) (\<lambda>data_ssl.
       thn (upd (\<lambda>s. s\<lparr>user_str := user, control_use_ssl := tb E ''ssl_enable'' \<and> control_ssl \<noteq> 0,
                     data_use_ssl := tb E ''ssl_enable'' \<and> data_ssl \<noteq> 0\<rparr>))
       (bnd (vsf_privop_do_login E password_str) (\<lambda>e_login_result.
        case e_login_result of
          kVSFLoginFail \<Rightarrow> thn (priv_sock_send_result E Parent PRIV_SOCK_RESULT_BAD) (ret None)
        | kVSFLoginAnon \<Rightarrow>
            let name = (case ts E ''ftp_username'' of None \<Rightarrow> [] | Some u \<Rightarrow> cstr u) in
            thn (upd (user_str_update (\<lambda>_. name)))
            (bnd (common_do_login E name True True) (\<lambda>r. ret (Some r)))
        | kVSFLoginReal \<Rightarrow>
            bnd (gets user_str) (\<lambda>name.
            bnd (confined E name) (\<lambda>do_chroot.
            bnd (common_do_login E name do_chroot False) (\<lambda>r. ret (Some r))))
        | kVSFLoginNull \<Rightarrow> lift (bug ''weird state in process_login_request''))))))))"

text \<open>The new child takes the place of the old one.\<close>

definition take_over :: "vsf_session \<Rightarrow> unit act" where
  "take_over s = (\<lambda>w. (Inr (), w\<lparr>sess := s, up := [], down := []\<rparr>))"

definition vsf_two_process_login :: "env \<Rightarrow> bytes \<Rightarrow> env option act" where
  "vsf_two_process_login E p_pass_str =
     bnd (gets (\<lambda>s. (user_str s, control_use_ssl s, data_use_ssl s))) (\<lambda>(user, control_ssl, data_ssl).
     thn (steps
       [priv_sock_send_cmd E Child PRIV_SOCK_LOGIN,
        priv_sock_send_str E Child user,
        priv_sock_send_str E Child p_pass_str,
        priv_sock_send_int E Child (if control_ssl then 1 else 0),
        priv_sock_send_int E Child (if data_ssl then 1 else 0)])
     (bnd (on_parent (process_login_req E)) (\<lambda>login.
      bnd (priv_sock_get_result Child) (\<lambda>result.
      if result = PRIV_SOCK_RESULT_OK then
        (case login of
           None \<Rightarrow> vsf_sysutil_exit 0
         | Some (E', s) \<Rightarrow> thn (take_over s) (ret (Some E')))
      else if result = PRIV_SOCK_RESULT_BAD then ret None
      else lift (die ''priv_sock_get_result'')))))"

definition vsf_one_process_login :: "env \<Rightarrow> bytes \<Rightarrow> env option act" where
  "vsf_one_process_login E p_pass_str =
     bnd (vsf_privop_do_login E p_pass_str) (\<lambda>login_result.
     case login_result of
       kVSFLoginFail \<Rightarrow> ret None
     | kVSFLoginAnon \<Rightarrow> thn (upd (is_anonymous_update (\<lambda>_. True))) (ret (Some E))
     | _ \<Rightarrow> lift (bug ''bad state in vsf_one_process_login''))"

end
