(* ===== verification/Prelogin.thy ===== *)
theory Prelogin
  imports Login
begin

text \<open>
  \<^verbatim>\<open>prelogin.c\<close>: the connection before a user is logged in, and the start of the process that serves it
  (\<^verbatim>\<open>vsf_two_process_start\<close> and \<^verbatim>\<open>one_process_start\<close>). The command loop ends when a login succeeds; its
  value is the environment the session goes on in.
\<close>

section \<open>Limits and greeting\<close>

text \<open>A refused connection: the log line, the reply and the exit.\<close>

definition refuse :: "env \<Rightarrow> bytes \<Rightarrow> bytes \<Rightarrow> unit act" where
  "refuse E log_text reply =
     thn (vsf_log_line E kVSFLogEntryConnection log_text) (vsf_cmdio_write_exit E 421 reply 1)"

definition check_limits :: "env \<Rightarrow> unit act" where
  "check_limits E =
     bnd (gets id) (\<lambda>s. steps
       [doif (tu E ''max_clients'' > 0 \<and> num_clients s > tu E ''max_clients'')
          (refuse E ''Connection refused: too many sessions.''
             ''There are too many connected users, please try later.''),
        doif (tu E ''max_per_ip'' > 0 \<and> num_this_ip s > tu E ''max_per_ip'')
          (refuse E ''Connection refused: too many sessions for this address.''
             ''There are too many connections from your internet address.''),
        doif (\<not> tcp_wrapper_ok s)
          (refuse E ''Connection refused: tcp_wrappers denial.'' ''Service not available.''),
        vsf_log_line E kVSFLogEntryConnection []])"

definition emit_greeting :: "env \<Rightarrow> unit act" where
  "emit_greeting E =
     bnd (gets banner_str) (\<lambda>banner.
     if banner \<noteq> [] then steps
       [vsf_banner_write E banner FTP_GREET,
        upd (banner_str_update (\<lambda>_. [])),
        vsf_cmdio_write E FTP_GREET []]
     else
       case ts E ''ftpd_banner'' of
         None \<Rightarrow> vsf_cmdio_write E FTP_GREET ''(vsFTPd 3.0.3)''
       | Some t \<Rightarrow> vsf_cmdio_write E FTP_GREET t)"

section \<open>Names and passwords\<close>

definition check_login_delay :: "env \<Rightarrow> unit act" where
  "check_login_delay E =
     doif (tu E ''delay_failed_login'' \<noteq> 0) (vsf_sysutil_sleep [uint (tu E ''delay_failed_login'')])"

definition check_login_fails :: "env \<Rightarrow> unit act" where
  "check_login_fails E =
     thn (upd (login_fails_update (\<lambda>n. n + 1)))
     (bnd (gets login_fails) (\<lambda>n.
      doif (n \<ge> tu E ''max_login_fails'')
        (thn (emit (Sys ''vsf_sysutil_shutdown_failok'' [] [0])) (vsf_sysutil_exit 1))))"

definition handle_pass_command :: "env \<Rightarrow> env option act" where
  "handle_pass_command E =
     bnd (gets (\<lambda>s. (user_str s, ftp_arg_str s))) (\<lambda>(user, pass).
     if user = [] then thn (vsf_cmdio_write E FTP_NEEDUSER ''Login with USER first.'') (ret None)
     else
       bnd (if tb E ''one_process_model'' then vsf_one_process_login E pass else vsf_two_process_login E pass) (\<lambda>login.
       case login of
         Some E' \<Rightarrow> ret (Some E')
       | None \<Rightarrow>
           thn (steps
             [vsf_cmdio_write E FTP_LOGINERR ''Login incorrect.'',
              check_login_fails E,
              upd (user_str_update (\<lambda>_. []))])
           (ret None)))"

text \<open>A name that is refused: the reply, and the name is forgotten.\<close>

definition refuse_user :: "env \<Rightarrow> bytes \<Rightarrow> unit act" where
  "refuse_user E reply = steps [vsf_cmdio_write E FTP_LOGINERR reply, upd (user_str_update (\<lambda>_. []))]"

text \<open>Whether the list of users refuses a name.\<close>

definition userlist_refuses :: "env \<Rightarrow> bytes \<Rightarrow> bool act" where
  "userlist_refuses E user =
     (if tb E ''userlist_enable'' then
        bnd (gets userlist_str) (\<lambda>users.
        bnd (lift (str_contains_line users user)) (\<lambda>located.
        ret ((located \<and> tb E ''userlist_deny'') \<or> (\<not> located \<and> \<not> tb E ''userlist_deny''))))
      else ret False)"

definition handle_user_command :: "env \<Rightarrow> env option act" where
  "handle_user_command E =
     thn (upd (\<lambda>s. s\<lparr>user_str := ftp_arg_str s, ftp_arg_str := v_upper (ftp_arg_str s)\<rparr>))
     (bnd (gets (\<lambda>s. (user_str s, ftp_arg_str s, control_use_ssl s))) (\<lambda>(user, upper, ssl).
      let is_anon = (upper = ''FTP'' \<or> upper = ''ANONYMOUS'') in
      if \<not> tb E ''local_enable'' \<and> \<not> is_anon then
        thn (refuse_user E ''This FTP server is anonymous only.'') (ret None)
      else if is_anon \<and> ssl \<and> \<not> tb E ''allow_anon_ssl'' \<and> \<not> tb E ''force_anon_logins_ssl'' then
        thn (refuse_user E ''Anonymous sessions may not use encryption.'') (ret None)
      else if tb E ''ssl_enable'' \<and> \<not> is_anon \<and> \<not> ssl \<and> tb E ''force_local_logins_ssl'' then
        vsf_cmdio_write_exit E FTP_LOGINERR ''Non-anonymous sessions must use encryption.'' 1
      else if tb E ''ssl_enable'' \<and> is_anon \<and> \<not> ssl \<and> tb E ''force_anon_logins_ssl'' then
        vsf_cmdio_write_exit E FTP_LOGINERR ''Anonymous sessions must use encryption.'' 1
      else
        bnd (userlist_refuses E user) (\<lambda>refused.
        if refused then
          thn (steps
            [check_login_delay E,
             vsf_cmdio_write E FTP_LOGINERR ''Permission denied.'',
             check_login_fails E,
             upd (user_str_update (\<lambda>_. []))])
          (ret None)
        else if is_anon \<and> tb E ''no_anon_password'' then
          thn (upd (ftp_arg_str_update (\<lambda>_. ''<no password>''))) (handle_pass_command E)
        else thn (vsf_cmdio_write E FTP_GIVEPWORD ''Please specify the password.'') (ret None))))"

definition handle_get :: "env \<Rightarrow> env option act" where
  "handle_get E =
     thn (upd (\<lambda>s. s\<lparr>user_str := ''FTP'', is_http := True, http_get_arg := ftp_arg_str s, ftp_arg_str := ''<http>''\<rparr>))
     (handle_pass_command E)"

section \<open>The loop\<close>

definition prelogin_dispatch :: "env \<Rightarrow> vsf_session \<Rightarrow> env option act" where
  "prelogin_dispatch E s =
     (let cmd = ftp_cmd_str s; go_on = (\<lambda>m. thn m (ret None)) in
      if tb E ''ftp_enable'' then
        if cmd = ''USER'' then handle_user_command E
        else if cmd = ''PASS'' then handle_pass_command E
        else if cmd = ''QUIT'' then vsf_cmdio_write_exit E FTP_GOODBYE ''Goodbye.'' 0
        else if cmd = ''FEAT'' then go_on (handle_feat E)
        else if cmd = ''OPTS'' then go_on (handle_opts E)
        else if tb E ''ssl_enable'' \<and> cmd = ''AUTH'' \<and> \<not> control_use_ssl s then go_on (handle_auth E)
        else if tb E ''ssl_enable'' \<and> cmd = ''PBSZ'' then go_on (handle_pbsz E)
        else if tb E ''ssl_enable'' \<and> cmd = ''PROT'' then go_on (handle_prot E)
        else if cmd = [] \<and> ftp_arg_str s = [] then ret None
        else go_on (vsf_cmdio_write E FTP_LOGINERR ''Please login with USER and PASS.'')
      else if tb E ''http_enable'' then
        bnd (if cmd = ''GET'' then handle_get E
             else thn (vsf_cmdio_write E FTP_LOGINERR ''Bad HTTP verb.'') (ret None)) (\<lambda>login.
        case login of Some E' \<Rightarrow> ret (Some E') | None \<Rightarrow> vsf_sysutil_exit 0)
      else ret None)"

definition prelogin_command :: "env \<Rightarrow> env option act" where
  "prelogin_command E =
     bnd (vsf_cmdio_get_cmd_and_arg E True) (\<lambda>(cmd, arg).
     thn (upd (\<lambda>s. s\<lparr>ftp_cmd_str := cmd, ftp_arg_str := arg\<rparr>))
     (bnd (gets id) (prelogin_dispatch E)))"

definition greet :: "env \<Rightarrow> unit act" where
  "greet E = steps
     [doif (tb E ''setproctitle_enable'') (emit (Sys ''setproctitle'' [''not logged in''] [])),
      vsf_cmdio_set_alarm E,
      check_limits E,
      doif (tb E ''ssl_enable'' \<and> tb E ''implicit_ssl'') (ssl_control_handshake E),
      doif (tb E ''ftp_enable'') (emit_greeting E)]"

section \<open>The start of the process\<close>

text \<open>The user list of the unprivileged child, and its privileges: \<^verbatim>\<open>drop_all_privs\<close> returns at once.\<close>

definition read_userlist :: "env \<Rightarrow> unit act" where
  "read_userlist E =
     doif (tb E ''local_enable'' \<and> tb E ''userlist_enable'')
       (bnd (case ts E ''userlist_file'' of
               None \<Rightarrow> ret ([], - 1) | Some f \<Rightarrow> str_fileread E f VSFTP_CONF_FILE_MAX) (\<lambda>(users, retval).
        thn (upd (userlist_str_update (\<lambda>_. users)))
        (if vsf_sysutil_retval_is_error retval then
           lift (die2 ''cannot read user list file:'' (ts E ''userlist_file''))
         else ret ())))"

definition drop_all_privs :: "unit act" where
  "drop_all_privs = ret ()"

text \<open>Both processes have their copy of the session after the fork, and nothing is in the socket pair.\<close>

definition part_ways :: "unit act" where
  "part_ways = (\<lambda>w. (Inr (), w\<lparr>parent := sess w, up := [], down := []\<rparr>))"

text \<open>The two-process model up to the first command; the parent waits for login requests.\<close>

definition vsf_two_process_start :: "env \<Rightarrow> unit act" where
  "vsf_two_process_start E = steps
     [emit (Sys ''vsf_sysutil_install_sighandler'' [''handle_sigterm''] [1]),
      emit (Sys ''vsf_set_term_if_parent_dies'' [] []),
      or_die E (Sys ''socketpair'' [] []) ''socketpair'',
      doif (tb E ''ssl_enable'') (or_die E (Sys ''socketpair'' [] []) ''socketpair''),
      emit (Sys ''vsf_sysutil_install_sighandler'' [''handle_sigchld''] [1]),
      fork_child E (tb E ''isolate_network''),
      part_ways,
      emit (Sys ''vsf_set_die_if_parent_dies'' [] []),
      read_userlist E,
      drop_all_privs,
      emit (Sys ''seccomp_sandbox_prelogin'' [] []),
      greet E]"

text \<open>The one-process model. The directory given to \<^verbatim>\<open>vsf_secutil_change_credentials\<close> is a null pointer.\<close>

definition one_process_start :: "env \<Rightarrow> unit act" where
  "one_process_start E =
     (let caps = (if tb E ''chown_uploads'' then 1 else 0) + (if tb E ''connect_from_port_20'' then 2 else 0);
          user_name = (case ts E ''ftp_username'' of None \<Rightarrow> [] | Some u \<Rightarrow> cstr u);
          chdir_str = (case ts E ''anon_root'' of None \<Rightarrow> [] | Some d \<Rightarrow> cstr d)
      in steps
        [if tb E ''run_as_launching_user'' then
           doif (chdir_str \<noteq> []) (bnd (str_chdir E chdir_str) (\<lambda>_. ret ()))
         else vsf_secutil_change_credentials E user_name None chdir_str caps [''CHROOT'', ''USE_GROUPS'', ''NO_PROCS''],
         doif (tb E ''ptrace_sandbox'') (emit (Sys ''ptrace_sandbox_attach_point'' [] [])),
         emit (Sys ''seccomp_sandbox_postlogin'' [] []),
         greet E])"

definition vsf_one_process_start :: "env \<Rightarrow> unit act" where
  "vsf_one_process_start E = steps
     [doif (tb E ''ptrace_sandbox'')
        (bnd (ask E (Sys ''ptrace_sandbox_alloc'' [] [])) (\<lambda>p_sandbox.
         if p_sandbox = 0 then lift (die ''could not allocate sandbox (only works for 32-bit builds)'')
         else steps
           [emit (Sys ''policy_setup'' [] []),
            bnd (sys E (Sys ''ptrace_sandbox_launch_process'' [] [])) (\<lambda>pid.
            if pid \<le> 0 then lift (die ''could not launch sandboxed child'') else ret ())])),
      one_process_start E]"

definition start_connection :: "env \<Rightarrow> unit act" where
  "start_connection E = (if tb E ''one_process_model'' then vsf_one_process_start E else vsf_two_process_start E)"

text \<open>One turn of a connection: a command before the login, with the start of the session when it logs
  the user in, or a command of the session. The phase is the environment of the session, if any.\<close>

definition turn :: "env \<Rightarrow> env option \<Rightarrow> env option act" where
  "turn E phase =
     (case phase of
        None \<Rightarrow>
          bnd (prelogin_command E) (\<lambda>login.
          case login of
            None \<Rightarrow> ret None
          | Some E' \<Rightarrow> thn (start_session E') (ret (Some E')))
      | Some E' \<Rightarrow> thn (serve_command E') (ret (Some E')))"

text \<open>The states between two commands of a connection, from the start of its process on.\<close>

inductive connects :: "env \<Rightarrow> world \<Rightarrow> env option \<Rightarrow> world \<Rightarrow> bool" for E w0 where
  started: "start_connection E w0 = (Inr (), w) \<Longrightarrow> connects E w0 None w"
| turned: "connects E w0 phase w \<Longrightarrow> turn E phase w = (Inr phase', w') \<Longrightarrow> connects E w0 phase' w'"

end
