(* ===== verification/Start.thy ===== *)
theory Start
  imports Prelogin
begin

text \<open>
  \<^verbatim>\<open>main.c\<close>: the settings from the command line and the configuration files, the checks on them, the
  set-up of the session and the start of one of the process models; and \<^verbatim>\<open>ssl_init\<close> of \<^verbatim>\<open>ssl.c\<close>. The
  listener of the standalone mode is in \<open>Standalone\<close>: its child goes on in \<^verbatim>\<open>main\<close> with the two counts
  that \<^verbatim>\<open>vsf_standalone_main\<close> returns, which are a parameter here.
\<close>

section \<open>Settings\<close>

definition VSFTP_DEFAULT_CONFIG :: bytes where "VSFTP_DEFAULT_CONFIG = ''/etc/vsftpd.conf''"

definition load_setting :: "env \<Rightarrow> bytes \<Rightarrow> env act" where
  "load_setting E p_setting =
     bnd (lift (vsf_parseconf_load_setting p_setting True (tun E))) (\<lambda>T. ret (E\<lparr>tun := T\<rparr>))"

text \<open>The text written without a line end before the exit.\<close>

definition vsf_exit :: "bytes \<Rightarrow> 'a act" where
  "vsf_exit p_text = thn (emit (Out (cstr p_text))) (vsf_sysutil_exit 0)"

text \<open>The loop over the arguments: the settings, and whether a file was loaded.\<close>

fun parse_args :: "env \<Rightarrow> bytes list \<Rightarrow> bool \<Rightarrow> (env \<times> bool) act" where
  "parse_args E [] config_loaded = ret (E, config_loaded)"
| "parse_args E (p_arg # args) config_loaded =
     (if take 1 (cstr p_arg) \<noteq> ''-'' then
        bnd (load_config E (cstr p_arg)) (\<lambda>E'. parse_args E' args True)
      else if take 1 (drop 1 (cstr p_arg)) = ''v'' then vsf_exit (''vsftpd: version 3.0.3'' @ [LF])
      else if take 1 (drop 1 (cstr p_arg)) = ''o'' then
        bnd (load_setting E (drop 2 (cstr p_arg))) (\<lambda>E'. parse_args E' args config_loaded)
      else lift (die2 ''unrecognise option: '' (Some p_arg)))"

definition default_config :: "env \<Rightarrow> bool \<Rightarrow> env act" where
  "default_config E config_loaded =
     (if config_loaded then ret E
      else
        bnd (sys E (Sys ''stat'' [VSFTP_DEFAULT_CONFIG] [])) (\<lambda>retval.
        if \<not> vsf_sysutil_retval_is_error retval then load_config E VSFTP_DEFAULT_CONFIG else ret E))"

definition vsf_sysutil_dns_resolve :: "env \<Rightarrow> bytes \<Rightarrow> sockaddr act" where
  "vsf_sysutil_dns_resolve E p_name =
     bnd (ask_text E (Sys ''gethostbyname'' [cstr p_name] [])) (\<lambda>raw.
     bnd (sys E (Sys ''gethostbyname'' [cstr p_name] [])) (\<lambda>hent.
     if hent = 0 then lift (die2 ''cannot resolve host:'' (Some (cstr p_name)))
     else if \<not> wf_addr (peer_of raw) then lift (die ''gethostbyname(): neither IPv4 nor IPv6'')
     else ret (peer_of raw)))"

definition set_string :: "env \<Rightarrow> string \<Rightarrow> bytes option \<Rightarrow> env" where
  "set_string E v x = E\<lparr>tun := (tun E)\<lparr>tstr := (tstr (tun E))(v := x)\<rparr>\<rparr>"

definition resolve_pasv_address :: "env \<Rightarrow> env act" where
  "resolve_pasv_address E =
     (case ts E ''pasv_address'' of
        Some a \<Rightarrow>
          if tb E ''pasv_addr_resolve'' then
            bnd (vsf_sysutil_dns_resolve E a) (\<lambda>addr.
            bnd (vsf_sysutil_inet_ntop E addr) (\<lambda>t. ret (set_string E ''pasv_address'' (Some t))))
          else ret E
      | None \<Rightarrow> ret E)"

definition startup_settings :: "env \<Rightarrow> bytes list \<Rightarrow> env act" where
  "startup_settings E argv =
     (case argv of
        [] \<Rightarrow> lift (die ''vsftpd: missing argv[0]'')
      | _ # args \<Rightarrow>
          bnd (parse_args (E\<lparr>tun := tunables_load_defaults\<rparr>) args False) (\<lambda>(E1, config_loaded).
          bnd (default_config E1 config_loaded) resolve_pasv_address))"

section \<open>The context of OpenSSL\<close>

text \<open>Calls that return one on success.\<close>

definition one_or_die :: "env \<Rightarrow> event \<Rightarrow> bytes \<Rightarrow> unit act" where
  "one_or_die E e m = bnd (sys E e) (\<lambda>r. if r \<noteq> 1 then lift (die m) else ret ())"

definition ssl_certificate :: "env \<Rightarrow> bytes option \<Rightarrow> bytes option \<Rightarrow> bytes \<Rightarrow> unit act" where
  "ssl_certificate E cert_file key_file kind =
     (case cert_file of
        None \<Rightarrow> ret ()
      | Some cert \<Rightarrow>
          let p_key = (case key_file of None \<Rightarrow> cert | Some k \<Rightarrow> k) in steps
          [one_or_die E (Sys ''SSL_CTX_use_certificate_chain_file'' [cert] []) (''SSL: cannot load '' @ kind @ '' certificate''),
           one_or_die E (Sys ''SSL_CTX_use_PrivateKey_file'' [p_key] []) (''SSL: cannot load '' @ kind @ '' private key'')])"

definition ssl_verification :: "env \<Rightarrow> unit act" where
  "ssl_verification E =
     doif (tb E ''ssl_request_cert'' \<or> tb E ''require_cert'') (steps
       [emit (Sys ''SSL_CTX_set_verify'' []
          [(if tb E ''ssl_request_cert'' then 1 else 0) + (if tb E ''require_cert'' then 2 else 0)]),
        (case ts E ''ca_certs_file'' of
           None \<Rightarrow> ret ()
         | Some f \<Rightarrow> steps
             [bnd (sys E (Sys ''SSL_CTX_load_verify_locations'' [f] [])) (\<lambda>r.
              if r = 0 then lift (die ''SSL: could not load verify file'') else ret ()),
              bnd (sys E (Sys ''SSL_load_client_CA_file'' [f] [])) (\<lambda>p_names.
              if p_names = 0 then lift (die ''SSL: could not load client certs file'')
              else emit (Sys ''SSL_CTX_set_client_CA_list'' [] [p_names]))])])"

text \<open>The options are the disabled protocols. \<open>inited\<close> is \<^verbatim>\<open>ssl_inited\<close>.\<close>

definition ssl_init :: "env \<Rightarrow> bool \<Rightarrow> unit act" where
  "ssl_init E inited =
     doif (\<not> inited)
       (thn (emit (Sys ''SSL_library_init'' [] []))
       (bnd (sys E (Sys ''SSL_CTX_new'' [] [])) (\<lambda>p_ctx.
        if p_ctx = 0 then lift (die ''SSL: could not allocate SSL context'')
        else steps
          [emit (Sys ''SSL_CTX_set_options''
             (filter (\<lambda>v. \<not> tb E v) [''sslv2'', ''sslv3'', ''tlsv1'']) []),
           ssl_certificate E (ts E ''rsa_cert_file'') (ts E ''rsa_private_key_file'') ''RSA'',
           ssl_certificate E (ts E ''dsa_cert_file'') (ts E ''dsa_private_key_file'') ''DSA'',
           (case ts E ''ssl_ciphers'' of
              None \<Rightarrow> ret ()
            | Some c \<Rightarrow> one_or_die E (Sys ''SSL_CTX_set_cipher_list'' [c] []) ''SSL: could not set cipher list''),
           one_or_die E (Sys ''RAND_status'' [] []) ''SSL: RNG is not seeded'',
           bnd (sys E (Sys ''EC_KEY_new_by_curve_name'' [] [])) (\<lambda>key.
           if key = 0 then lift (die ''SSL: failed to get curve p256'')
           else emit (Sys ''SSL_CTX_set_tmp_ecdh'' [] [key])),
           ssl_verification E,
           emit (Sys ''SSL_CTX_set_session_id_context'' [''vsftpd''] []),
           doif (tb E ''require_ssl_reuse'') (emit (Sys ''SSL_CTX_set_timeout'' [] [2147483647]))])))"

section \<open>Checks\<close>

definition vsf_sysutil_statbuf_is_socket :: "32 word \<Rightarrow> bool" where
  "vsf_sysutil_statbuf_is_socket mode \<longleftrightarrow> mode AND 0xF000 = 0xC000"

definition do_sanity_checks :: "env \<Rightarrow> unit act" where
  "do_sanity_checks E = steps
     [or_die E (Sys ''fstat'' [] [0]) ''fstat'',
      bnd (ask E (Sys ''fstat_mode'' [] [0])) (\<lambda>mode.
      if \<not> vsf_sysutil_statbuf_is_socket (word_of_int mode) then
        lift (die ''vsftpd: not configured for standalone, must be started from inetd'') else ret ()),
      doif (tb E ''one_process_model'') (steps
        [if tb E ''local_enable'' then lift (die (''vsftpd: security: '' @ [CHR 0x27] @ ''one_process_model'' @ [CHR 0x27] @ '' is anonymous only'')) else ret (),
         bnd (ask E (Sys ''vsf_sysdep_has_capabilities_as_non_root'' [] [])) (\<lambda>has.
         if has = 0 then lift (die (''vsftpd: security: '' @ [CHR 0x27] @ ''one_process_model'' @ [CHR 0x27] @ '' needs a better OS'')) else ret ())]),
      if \<not> tb E ''local_enable'' \<and> \<not> tb E ''anonymous_enable'' then
        lift (die ''vsftpd: both local and anonymous access disabled!'') else ret (),
      if \<not> tb E ''ftp_enable'' \<and> \<not> tb E ''http_enable'' then
        lift (die ''vsftpd: both FTP and HTTP disabled!'') else ret (),
      if tb E ''http_enable'' \<and> \<not> tb E ''one_process_model'' then
        lift (die (''vsftpd: HTTP needs '' @ [CHR 0x27] @ ''one_process_model'' @ [CHR 0x27] @ '' for now'')) else ret ()]"

section \<open>The session\<close>

definition initial_session :: vsf_session where
  "initial_session = \<lparr>p_local_addr = Sockaddr_other 0, p_remote_addr = Sockaddr_other 0,
     idle_timeout = False, data_timeout = False, pasv_listen_fd = - 1, p_port_sockaddr = None,
     data_fd = - 1, data_progress = False, bw_rate_max = 0, is_anonymous = True, is_guest = False,
     user_str = [], anon_pass_str = [], restart_pos = 0, is_ascii = True, abor_received = False,
     epsv_all = False, is_http = False, http_get_arg = [], p_visited_dir_list = [],
     anon_ftp_uid = - 1, guest_user_uid = - 1, anon_upload_chown_uid = - 1, banned_email_str = [],
     email_passwords_str = [], userlist_str = [], banner_str = [], tcp_wrapper_ok = True,
     xferlog_fd = - 1, vsftpd_log_fd = - 1, remote_ip_str = [], log_type = None,
     log_start_sec = 0, log_start_usec = 0, log_str = [], transfer_size = 0, ftp_cmd_str = [],
     ftp_arg_str = [], num_clients = 0, num_this_ip = 0, home_str = [], control_use_ssl = False,
     data_use_ssl = False, ssl_slave_active = False, login_fails = 0, permissions = 0\<rparr>"

text \<open>An address of the control connection: \<^verbatim>\<open>getpeername\<close> or \<^verbatim>\<open>getsockname\<close>.\<close>

definition control_addr :: "env \<Rightarrow> string \<Rightarrow> sockaddr act" where
  "control_addr E call =
     bnd (ask_text E (Sys call [] [0])) (\<lambda>raw.
     bnd (sys E (Sys call [] [0])) (\<lambda>retval.
     if retval \<noteq> 0 then lift (die call)
     else if \<not> wf_addr (peer_of raw) then lift (die ''can only support ipv4 and ipv6 currently'')
     else ret (peer_of raw)))"

definition account_uid :: "env \<Rightarrow> bytes option \<Rightarrow> bytes \<Rightarrow> int act" where
  "account_uid E name msg =
     (case name of
        None \<Rightarrow> lift (die2 msg name)
      | Some n \<Rightarrow>
          bnd (ask E (Sys ''getpwnam'' [cstr n] [])) (\<lambda>p_user.
          if p_user = 0 then lift (die2 msg name) else ask E (Sys ''pw_uid'' [cstr n] [])))"

definition session_init :: "env \<Rightarrow> unit act" where
  "session_init E =
     (let cannot_locate = (\<lambda>v. ''vsftpd: cannot locate user specified in '' @ [CHR 0x27] @ v @ [CHR 0x27] @ '':'') in steps
     [bnd (control_addr E ''getpeername'') (\<lambda>a. upd (p_remote_addr_update (\<lambda>_. a))),
      bnd (control_addr E ''getsockname'') (\<lambda>a. upd (p_local_addr_update (\<lambda>_. a))),
      doif (tb E ''anonymous_enable'')
        (bnd (account_uid E (ts E ''ftp_username'') (cannot_locate ''ftp_username''))
           (\<lambda>uid. upd (anon_ftp_uid_update (\<lambda>_. uid)))),
      doif (tb E ''guest_enable'')
        (bnd (account_uid E (ts E ''guest_username'') (cannot_locate ''guest_username''))
           (\<lambda>uid. upd (guest_user_uid_update (\<lambda>_. uid)))),
      doif (tb E ''chown_uploads'')
        (bnd (account_uid E (ts E ''chown_username'') (cannot_locate ''chown_username''))
           (\<lambda>uid. upd (anon_upload_chown_uid_update (\<lambda>_. uid))))])"

definition env_init :: "unit act" where
  "env_init = steps
     [emit (Sys ''vsf_sysutil_make_session_leader'' [] []),
      emit (Sys ''umask'' [] [63]),
      emit (Sys ''tzset'' [] []),
      emit (Sys ''vsf_sysutil_install_null_sighandler'' [''SIGPIPE''] [])]"

text \<open>Files that are read before the process may lose access to them.\<close>

definition read_list :: "env \<Rightarrow> bytes option \<Rightarrow> bytes \<Rightarrow> (bytes \<Rightarrow> vsf_session \<Rightarrow> vsf_session) \<Rightarrow> unit act" where
  "read_list E file msg store =
     bnd (case file of None \<Rightarrow> ret ([], - 1) | Some f \<Rightarrow> str_fileread E f VSFTP_CONF_FILE_MAX) (\<lambda>(content, retval).
     thn (upd (store content))
     (if vsf_sysutil_retval_is_error retval then lift (die2 msg file) else ret ()))"

definition vsf_cmdio_sock_setup :: "unit act" where
  "vsf_cmdio_sock_setup = steps
     [emit (Sys ''vsf_sysutil_activate_keepalive'' [] [0]),
      emit (Sys ''vsf_sysutil_set_nodelay'' [] [0]),
      emit (Sys ''vsf_sysutil_activate_oobinline'' [] [0])]"

section \<open>The start\<close>

text \<open>The start of the process. \<open>launch\<close>: the counts of the listener, in standalone mode.\<close>

definition launch_session :: "env \<Rightarrow> bytes list \<Rightarrow> 32 word \<times> 32 word \<Rightarrow> unit act" where
  "launch_session E argv launch = steps
     [doif (\<not> tb E ''run_as_launching_user'')
        (bnd (ask E (Sys ''getuid'' [] [])) (\<lambda>uid.
         if uid \<noteq> 0 then lift (die ''vsftpd: must be started as root (see run_as_launching_user option)'') else ret ())),
      doif (tb E ''setproctitle_enable'') (emit (Sys ''vsf_sysutil_setproctitle_init'' argv [])),
      doif (tb E ''ssl_enable'') (ssl_init E False),
      doif (tb E ''listen'' \<or> tb E ''listen_ipv6'')
        (upd (\<lambda>s. s\<lparr>num_clients := fst launch, num_this_ip := snd launch\<rparr>)),
      doif (tb E ''tcp_wrappers'')
        (bnd (ask E (Sys ''vsf_tcp_wrapper_ok'' [] [0])) (\<lambda>ok. upd (tcp_wrapper_ok_update (\<lambda>_. ok \<noteq> 0))))]"

text \<open>The configuration file that the listener or \<^verbatim>\<open>inetd\<close> names in the environment.\<close>

definition environment_config :: "env \<Rightarrow> env act" where
  "environment_config E =
     bnd (ask E (Sys ''getenv'' [''VSFTPD_LOAD_CONF''] [])) (\<lambda>p_load_conf.
     if p_load_conf = 0 then ret E
     else bnd (ask_text E (Sys ''getenv'' [''VSFTPD_LOAD_CONF''] [])) (\<lambda>f. load_config E (cstr f)))"

text \<open>The session and the files it needs. \<open>inited\<close>: OpenSSL was set up before.\<close>

definition prepare_session :: "env \<Rightarrow> bool \<Rightarrow> unit act" where
  "prepare_session E inited = steps
     [do_sanity_checks E,
      session_init E,
      env_init,
      vsf_log_init E,
      bnd (gets p_remote_addr) (\<lambda>a. bnd (vsf_sysutil_inet_ntop E a) (\<lambda>ip. upd (remote_ip_str_update (\<lambda>_. cstr ip)))),
      vsf_cmdio_sock_setup,
      doif (tb E ''setproctitle_enable'')
        (bnd (gets remote_ip_str) (\<lambda>ip. steps
           [emit (Sys ''vsf_sysutil_set_proctitle_prefix'' [ip] []), emit (Sys ''setproctitle'' [''connected''] [])])),
      doif (tb E ''ssl_enable'') (steps [ssl_init E inited, emit (Sys ''ssl_add_entropy'' [] [])]),
      doif (tb E ''deny_email_enable'')
        (read_list E (ts E ''banned_email_file'') ''cannot read anon e-mail list file:''
           (\<lambda>c. banned_email_str_update (\<lambda>_. c))),
      doif (ts E ''banner_file'' \<noteq> None)
        (read_list E (ts E ''banner_file'') ''cannot read banner file:'' (\<lambda>c. banner_str_update (\<lambda>_. c))),
      doif (tb E ''secure_email_list_enable'')
        (read_list E (ts E ''email_password_file'') ''cannot read email passwords file:''
           (\<lambda>c. email_passwords_str_update (\<lambda>_. c)))]"

definition unprivileged_settings :: "env \<Rightarrow> env act" where
  "unprivileged_settings E =
     (if tb E ''run_as_launching_user'' then
        bnd (ask E (Sys ''getuid'' [] [])) (\<lambda>uid.
        ret (if uid \<noteq> 0 then
               E\<lparr>tun := (tun E)\<lparr>tbool := (tbool (tun E))(''connect_from_port_20'' := False, ''chown_uploads'' := False)\<rparr>\<rparr>
             else E))
      else ret E)"

text \<open>\<^verbatim>\<open>main\<close> up to the start of the process model, and up to the first command. \<^verbatim>\<open>ssl_init\<close> has been called when
  the first settings enable it.\<close>

definition main_settings :: "env \<Rightarrow> bytes list \<Rightarrow> 32 word \<times> 32 word \<Rightarrow> env act" where
  "main_settings E argv launch =
     thn (upd (\<lambda>_. initial_session))
     (bnd (startup_settings E argv) (\<lambda>E1.
      thn (launch_session E1 argv launch)
      (bnd (environment_config E1) (\<lambda>E2.
       thn (prepare_session E2 (tb E1 ''ssl_enable'')) (unprivileged_settings E2)))))"

definition main_start :: "env \<Rightarrow> bytes list \<Rightarrow> 32 word \<times> 32 word \<Rightarrow> env act" where
  "main_start E argv launch = bnd (main_settings E argv launch) (\<lambda>E3. thn (start_connection E3) (ret E3))"

end
