(* ===== verification/Session.thy ===== *)
theory Session
  imports Postlogin
begin

text \<open>
  The state of a session between and during commands: which data mode is active, whether a data
  connection is open, whether a log entry is pending. Each handler of \<open>Postlogin\<close> is shown to keep
  this state and to fail only for reasons that come from outside, so the assertions of the server
  cannot be reached by any sequence of commands.
\<close>

section \<open>The passive operations of the session\<close>

definition lfd :: "env \<Rightarrow> world \<Rightarrow> int" where
  "lfd E w = pasv_listen_fd (if tb E ''one_process_model'' then sess w else parent w)"

definition wired :: "env \<Rightarrow> world \<Rightarrow> bool" where
  "wired E w \<longleftrightarrow> tb E ''one_process_model'' \<or> idle w \<and> channel_ok E"

definition core :: "env \<Rightarrow> world \<Rightarrow> vsf_session" where
  "core E w = (if tb E ''one_process_model'' then unlistened (sess w) else sess w)"

interpretation modes: passive_ops "wired E" "lfd E" "core E" "pasv_cleanup E" "listener_active E" "start_listening E"
  "if tb E ''one_process_model'' then vsf_one_process_get_pasv_fd E else vsf_two_process_get_pasv_fd E" for E
proof (cases "tb E ''one_process_model''")
  case True
  then have "wired E = (\<lambda>w. True)" "lfd E = (\<lambda>w. pasv_listen_fd (sess w))" "core E = (\<lambda>w. unlistened (sess w))"
    by (simp_all add: fun_eq_iff wired_def lfd_def core_def)
  with True show "passive_ops (wired E) (lfd E) (core E) (pasv_cleanup E) (listener_active E) (start_listening E)
      (if tb E ''one_process_model'' then vsf_one_process_get_pasv_fd E else vsf_two_process_get_pasv_fd E)"
    using one.passive_ops_axioms by (simp add: pasv_cleanup_def listener_active_def start_listening_def)
next
  case False
  then have "wired E = (\<lambda>w. idle w \<and> channel_ok E)" "lfd E = (\<lambda>w. pasv_listen_fd (parent w))" "core E = sess"
    by (simp_all add: fun_eq_iff wired_def lfd_def core_def)
  with False show "passive_ops (wired E) (lfd E) (core E) (pasv_cleanup E) (listener_active E) (start_listening E)
      (if tb E ''one_process_model'' then vsf_one_process_get_pasv_fd E else vsf_two_process_get_pasv_fd E)"
    using two.passive_ops_axioms by (simp add: pasv_cleanup_def listener_active_def start_listening_def)
qed

section \<open>The state\<close>

text \<open>The target of active mode: the client's own address and an unreserved port.\<close>

definition target_ok :: "env \<Rightarrow> vsf_session \<Rightarrow> bool" where
  "target_ok E s \<longleftrightarrow> tb E ''port_promiscuous'' \<or>
     (case p_port_sockaddr s of None \<Rightarrow> True
      | Some a \<Rightarrow> vsf_sysutil_sockaddr_addr_equal (p_remote_addr s) a \<and>
          (\<exists>port. vsf_sysutil_sockaddr_get_port a = Inr port \<and> \<not> vsf_sysutil_is_port_reserved port))"

definition named :: "vsf_session \<Rightarrow> bool" where
  "named s \<longleftrightarrow> cstr (user_str s) \<noteq> [] \<and> cstr (remote_ip_str s) \<noteq> []"

text \<open>\<open>state E (opn, pend, act) w\<close>: at most one data mode is active, and one is if \<open>act\<close> holds; a data
  connection is open or not; a log entry is pending or not.\<close>

fun state :: "env \<Rightarrow> bool \<times> bool \<times> bool \<Rightarrow> world \<Rightarrow> bool" where
  "state E (opn, pend, act) w \<longleftrightarrow> wired E w \<and> (lfd E w = - 1 \<or> p_port_sockaddr (sess w) = None) \<and>
     (act \<longrightarrow> lfd E w \<noteq> - 1 \<or> p_port_sockaddr (sess w) \<noteq> None) \<and>
     (data_fd (sess w) = - 1 \<longleftrightarrow> \<not> opn) \<and> (log_type (sess w) = None \<longleftrightarrow> \<not> pend) \<and>
     log_type (sess w) \<noteq> Some kVSFLogEntryNull \<and> target_ok E (sess w) \<and> named (sess w) \<and>
     (tb E ''one_process_model'' \<or> pasv_listen_fd (sess w) = - 1)"

declare state.simps [simp del]

definition rested :: "env \<Rightarrow> world \<Rightarrow> bool" where
  "rested E w \<longleftrightarrow> (\<exists>pend. state E (False, pend, False) w)"

lemma state_trace [simp]:
  "state E k (w\<lparr>trace := t\<rparr>) = state E k w" "state E k (w\<lparr>trace := t, sess := s\<rparr>) = state E k (w\<lparr>sess := s\<rparr>)"
  by (cases k, simp add: state.simps wired_def idle_def lfd_def)+

lemma state_upd [simp]:
  "state E k (w\<lparr>sess := ftp_arg_str_update a (sess w)\<rparr>) = state E k w"
  "state E k (w\<lparr>sess := restart_pos_update n (sess w)\<rparr>) = state E k w"
  "state E k (w\<lparr>sess := log_str_update a (sess w)\<rparr>) = state E k w"
  "state E k (w\<lparr>sess := epsv_all_update b (sess w)\<rparr>) = state E k w"
  "state E k (w\<lparr>sess := abor_received_update b (sess w)\<rparr>) = state E k w"
  "state E k (w\<lparr>sess := transfer_size_update n (sess w)\<rparr>) = state E k w"
  "state E k (w\<lparr>sess := is_ascii_update b (sess w)\<rparr>) = state E k w"
  "state E k (w\<lparr>sess := data_use_ssl_update b (sess w)\<rparr>) = state E k w"
  "state E k (w\<lparr>sess := data_timeout_update b (sess w)\<rparr>) = state E k w"
  "state E k (w\<lparr>sess := data_progress_update b (sess w)\<rparr>) = state E k w"
  "state E k (w\<lparr>sess := idle_timeout_update b (sess w)\<rparr>) = state E k w"
  "state E k (w\<lparr>sess := p_visited_dir_list_update l (sess w)\<rparr>) = state E k w"
  "state E k (w\<lparr>sess := home_str_update a (sess w)\<rparr>) = state E k w"
  "state E k (w\<lparr>sess := bw_rate_max_update r (sess w)\<rparr>) = state E k w"
  "state E k (w\<lparr>sess := (sess w)\<lparr>ftp_cmd_str := c, ftp_arg_str := g\<rparr>\<rparr>) = state E k w"
  "state E k (w\<lparr>data_in := d\<rparr>) = state E k w"
  "state E k (w\<lparr>sched := sc, incoming := i\<rparr>) = state E k w"
  by (cases k; simp add: state.simps wired_def idle_def lfd_def target_ok_def named_def split: option.split)+

named_theorems wp_rules

lemma wp_state_talks:
  assumes "talks P external m" and "state E k w" and "\<And>a w'. state E k w' \<Longrightarrow> Q a w'"
  shows "wp m Q (\<lambda>f _. external f) w"
  using assms by (auto intro: wp_talks)

declare assertion_messages_def [simp]

section \<open>Steps that keep the state\<close>

lemma reply_rules [wp_rules]:
  assumes "state E k w" and "\<And>a w'. state E k w' \<Longrightarrow> Q a w'"
  shows "wp (vsf_cmdio_write E status s) Q (\<lambda>f _. external f) w"
    and "wp (vsf_cmdio_write_hyphen E status s) Q (\<lambda>f _. external f) w"
    and "wp (vsf_cmdio_write_str E status s) Q (\<lambda>f _. external f) w"
    and "wp (vsf_cmdio_write_str_hyphen E status s) Q (\<lambda>f _. external f) w"
    and "cstr s \<noteq> [] \<Longrightarrow> wp (vsf_cmdio_write_raw E s) Q (\<lambda>f _. external f) w"
    and "s = [] \<or> hd s \<noteq> NUL \<Longrightarrow> wp (raw_line E s) Q (\<lambda>f _. external f) w"
    and "wp (denied E) Q (\<lambda>f _. external f) w"
proof -
  note rule = wp_state_talks [OF _ assms]
  show "wp (vsf_cmdio_write E status s) Q (\<lambda>f _. external f) w"
    "wp (vsf_cmdio_write_hyphen E status s) Q (\<lambda>f _. external f) w"
    "wp (vsf_cmdio_write_str E status s) Q (\<lambda>f _. external f) w"
    "wp (vsf_cmdio_write_str_hyphen E status s) Q (\<lambda>f _. external f) w"
    "wp (denied E) Q (\<lambda>f _. external f) w"
    unfolding denied_def by (auto intro!: rule talks_reply)
  show "wp (vsf_cmdio_write_raw E s) Q (\<lambda>f _. external f) w" if "cstr s \<noteq> []"
    by (rule rule, rule talks_raw, rule that) simp
  show "wp (raw_line E s) Q (\<lambda>f _. external f) w" if "s = [] \<or> hd s \<noteq> NUL"
    unfolding raw_line_def by (rule rule, rule talks_raw) (use that in \<open>cases s; simp add: cstr_def\<close>)+
qed

lemma exit_rule [wp_rules]: "wp (vsf_cmdio_write_exit E status s n) Q (\<lambda>f _. external f) w"
  unfolding vsf_cmdio_write_exit_def wp_thn
  by (rule wp_talks [where P = is_cmdio and F = external]) (auto intro!: talks_intros simp: wp_simps)

lemma talks_postlogin [talks_intros]:
  assumes "F Segv"
  shows "talks P F (session_path E p)" and "talks P F (access_ok E p)" and "talks P F (resolve_tilde E p)"
  unfolding session_path_def access_ok_def resolve_tilde_def Let_def
  by (auto intro!: talks_intros assms split: prod.split)

lemma talks_mkdirs: "F (Endless ''str_mkdirs'') \<Longrightarrow> talks (\<lambda>_. True) F (str_mkdirs E p mode)"
proof (induction E p mode rule: str_mkdirs.induct)
  case (1 E p mode)
  then show ?case
    by (subst str_mkdirs.simps) (auto simp: str_mkdir_def Let_def intro!: talks_intros)
qed

lemma path_rules [wp_rules]:
  assumes "state E k w" and "\<And>a w'. state E k w' \<Longrightarrow> Q a w'"
  shows "wp (session_path E p) Q (\<lambda>f _. external f) w"
    and "wp (resolve_tilde E p) Q (\<lambda>f _. external f) w"
    and "wp (str_getcwd E) Q (\<lambda>f _. external f) w"
    and "wp (lift (root_of E)) Q' (\<lambda>f _. external f) w = (\<forall>rc. root_of E = Inr rc \<longrightarrow> Q' rc w)"
  using assms by (auto intro!: wp_state_talks intro: talks_intros simp: wp_simps split: sum.splits dest: root_fault)

lemma access_rule [wp_rules]:
  "state E k w \<Longrightarrow> (\<And>a w'. state E k w' \<Longrightarrow> Q a w') \<Longrightarrow> wp (access_ok E p) Q (\<lambda>f _. external f) w"
  by (rule wp_state_talks) (auto intro: talks_intros)

lemma tilde_rule [wp_rules]:
  assumes "state E k w" and "\<And>a w'. state E k w' \<Longrightarrow> Q a w'"
  shows "wp (tilde_arg E) Q (\<lambda>f _. external f) w"
  unfolding tilde_arg_def wp_simps by (rule path_rules(2) [OF assms(1)]) (simp add: assms(2))

lemma cos_rules [wp_rules]:
  assumes "state E k w"
  shows "(\<And>a w'. state E k w' \<Longrightarrow> Q a w') \<Longrightarrow> wp (cos_stat_file E p) Q (\<lambda>f _. external f) w"
    and "(\<And>a w'. state E k w' \<Longrightarrow> Q2 a w') \<Longrightarrow> wp (cos_isdir E p) Q2 (\<lambda>f _. external f) w"
    and "(\<And>a w'. state E k w' \<Longrightarrow> Q2 a w') \<Longrightarrow> wp (cos_dir_isempty E p) Q2 (\<lambda>f _. external f) w"
    and "(\<And>a w'. state E k w' \<Longrightarrow> Q2 a w') \<Longrightarrow> wp (cos_mkdir E p) Q2 (\<lambda>f _. external f) w"
    and "(\<And>a w'. state E k w' \<Longrightarrow> Q2 a w') \<Longrightarrow> wp (cos_rmdir E p) Q2 (\<lambda>f _. external f) w"
    and "(\<And>a w'. state E k w' \<Longrightarrow> Q2 a w') \<Longrightarrow> wp (cos_unlink E p) Q2 (\<lambda>f _. external f) w"
    and "(\<And>a w'. state E k w' \<Longrightarrow> Q2 a w') \<Longrightarrow> wp (cos_upload_file E src p) Q2 (\<lambda>f _. external f) w"
    and "(\<And>a w'. state E k w' \<Longrightarrow> Q3 a w') \<Longrightarrow> wp (cos_stat_dir E p) Q3 (\<lambda>f _. external f) w"
    and "(\<And>a w'. state E k w' \<Longrightarrow> Q4 a w') \<Longrightarrow> wp (cos_download_file E p l off fs) Q4 (\<lambda>f _. external f) w"
  using assms by (auto intro!: wp_state_talks talks_cos [where ops = UNIV])

lemma file_rules [wp_rules]:
  assumes "state E k w" and "\<And>a w'. state E k w' \<Longrightarrow> Q a w'"
  shows "wp (str_chdir E p) Q (\<lambda>f _. external f) w" and "wp (str_mkdir E p mode) Q (\<lambda>f _. external f) w"
    and "wp (str_rmdir E p) Q (\<lambda>f _. external f) w" and "wp (str_unlink E p) Q (\<lambda>f _. external f) w"
    and "wp (str_create E p) Q (\<lambda>f _. external f) w" and "wp (str_create_exclusive E p) Q (\<lambda>f _. external f) w"
    and "wp (str_mkdirs E p mode) Q (\<lambda>f _. external f) w"
  using assms
  by (auto simp: str_chdir_def str_mkdir_def str_rmdir_def str_unlink_def str_create_def str_create_exclusive_def wp_simps
      intro!: wp_state_talks [OF talks_mkdirs])

section \<open>Log entries\<close>

lemma log_line_rule [wp_rules]:
  "what \<noteq> kVSFLogEntryNull \<Longrightarrow> state E k w \<Longrightarrow> (\<And>a w'. state E k w' \<Longrightarrow> Q a w') \<Longrightarrow>
   wp (vsf_log_line E what l) Q (\<lambda>f _. external f) w"
  by (rule wp_state_talks) (auto intro: talks_log_line)

lemma start_entry_rule [wp_rules]:
  assumes "state E (opn, False, act) w" and "what \<noteq> kVSFLogEntryNull"
    and "\<And>a w'. state E (opn, True, act) w' \<Longrightarrow> Q a w'"
  shows "wp (vsf_log_start_entry E what) Q (\<lambda>f _. external f) w"
  using assms(1,2) by (auto simp: vsf_log_start_entry_def wp_simps state.simps wired_def idle_def lfd_def target_ok_def
      named_def split: option.splits intro!: assms(3))

lemma do_log_rule [wp_rules]:
  assumes "state E (opn, True, act) w" and "\<And>a w'. state E (opn, False, act) w' \<Longrightarrow> Q a w'"
  shows "wp (vsf_log_do_log E b) Q (\<lambda>f _. external f) w"
proof -
  obtain what where what: "log_type (sess w) = Some what" "what \<noteq> kVSFLogEntryNull"
    using assms(1) by (auto simp: state.simps)
  have "talks is_log external (vsf_log_common E b what (log_str (sess w)))" using what by (rule_tac talks_log_common)
  then show ?thesis using assms(1) what
    by (auto simp: vsf_log_do_log_def wp_simps state.simps wired_def idle_def lfd_def target_ok_def
      named_def split: option.splits intro!: assms(2) elim!: wp_talks)
qed

lemma log_path_rule [wp_rules]:
  assumes "state E (opn, False, act) w" and "what \<noteq> kVSFLogEntryNull"
    and "\<And>a w'. state E (opn, True, act) w' \<Longrightarrow> Q a w'"
  shows "wp (log_path E what arg) Q (\<lambda>f _. external f) w"
  using assms(1,2) by (auto simp: log_path_def wp_simps intro!: start_entry_rule path_rules(1) assms(3))

section \<open>Data modes\<close>

lemma unlistened_fields:
  "p_port_sockaddr (unlistened s) = p_port_sockaddr s" "data_fd (unlistened s) = data_fd s"
  "log_type (unlistened s) = log_type s" "target_ok E (unlistened s) = target_ok E s" "named (unlistened s) = named s"
  by (simp_all add: unlistened_def target_ok_def named_def split: option.split)

lemma core_fields:
  assumes "core E w' = core E w"
  shows "p_port_sockaddr (sess w') = p_port_sockaddr (sess w)" "data_fd (sess w') = data_fd (sess w)"
    "log_type (sess w') = log_type (sess w)" "target_ok E (sess w') = target_ok E (sess w)"
    "named (sess w') = named (sess w)"
    "tb E ''one_process_model'' \<or> pasv_listen_fd (sess w') = pasv_listen_fd (sess w)"
  using assms by (cases "tb E ''one_process_model''"; simp add: core_def; metis unlistened_fields)+

lemma state_core:
  assumes "state E (opn, pend, act) w" and "wired E w'" and "core E w' = core E w"
    and "lfd E w' = - 1 \<or> p_port_sockaddr (sess w) = None"
    and "act' \<longrightarrow> lfd E w' \<noteq> - 1 \<or> p_port_sockaddr (sess w) \<noteq> None"
  shows "state E (opn, pend, act') w'"
  using assms(1,2,4,5) core_fields [OF assms(3)] by (simp add: state.simps) metis

lemma state_active: "state E (opn, pend, act) w \<Longrightarrow> wired E w"
  "state E (opn, pend, act) w \<Longrightarrow> state E (opn, pend, False) w"
  "state E (opn, pend, act) w \<Longrightarrow> lfd E w = - 1 \<or> p_port_sockaddr (sess w) = None"
  "state E (opn, pend, True) w \<Longrightarrow> lfd E w = - 1 \<Longrightarrow> p_port_sockaddr (sess w) \<noteq> None"
  by (auto simp: state.simps)

lemma state_port_cleanup [simp]:
  "state E (opn, pend, act) w \<Longrightarrow> state E (opn, pend, False) (w\<lparr>sess := (sess w)\<lparr>p_port_sockaddr := None\<rparr>\<rparr>)"
  "lfd E (w\<lparr>sess := (sess w)\<lparr>p_port_sockaddr := p\<rparr>\<rparr>) = lfd E w"
  by (auto simp: state.simps wired_def idle_def lfd_def target_ok_def named_def)

lemma pasv_cleanup_rule [wp_rules]:
  assumes "state E (opn, pend, act) w"
    and "\<And>a w'. state E (opn, pend, False) w' \<Longrightarrow> lfd E w' = - 1 \<Longrightarrow>
      p_port_sockaddr (sess w') = p_port_sockaddr (sess w) \<Longrightarrow> Q a w'"
  shows "wp (pasv_cleanup E) Q (\<lambda>f _. external f) w"
  by (rule wp_mono [OF modes.cleanup_law [OF state_active(1) [OF assms(1)]]])
    (auto intro!: assms(2) state_core [OF assms(1)] dest: core_fields)

lemma start_listening_rule [wp_rules]:
  assumes "state E (opn, pend, act) w" and "lfd E w = - 1" and "p_port_sockaddr (sess w) = None"
    and "\<And>port w'. state E (opn, pend, True) w' \<Longrightarrow> Q port w'"
  shows "wp (start_listening E) Q (\<lambda>f _. external f) w"
  by (rule wp_mono [OF modes.listen_law [OF state_active(1) [OF assms(1)] assms(2)]])
    (auto intro!: assms(4) state_core [OF assms(1)] simp: assms(3))

lemma active_eqs:
  assumes "state E (opn, pend, act) w"
  shows "pasv_active E w = (Inr (lfd E w \<noteq> - 1), w)"
    and "port_active E w = (Inr (p_port_sockaddr (sess w) \<noteq> None), w)"
  using state_active(1,3) [OF assms]
  by (auto simp: pasv_active_def port_active_def bnd_def gets_def ret_def modes.active_law)

lemma wp_active:
  assumes "state E (opn, pend, act) w"
  shows "wp (bnd (pasv_active E) (\<lambda>pasv. bnd (if pasv then ret True else port_active E) k)) Q X w =
    wp (k (lfd E w \<noteq> - 1 \<or> p_port_sockaddr (sess w) \<noteq> None)) Q X w"
  using active_eqs [OF assms] by (auto simp: wp_def bnd_def ret_def)

lemma checks_rule [wp_rules]:
  assumes "state E (opn, pend, act) w" and "state E (opn, pend, True) w \<Longrightarrow> Q True w"
    and "\<And>w'. state E (opn, pend, act) w' \<Longrightarrow> Q False w'"
  shows "wp (data_transfer_checks_ok E) Q (\<lambda>f _. external f) w"
proof -
  have "lfd E w \<noteq> - 1 \<or> p_port_sockaddr (sess w) \<noteq> None \<Longrightarrow> Q True w"
    using assms(1,2) by (simp add: state.simps)
  then show ?thesis unfolding data_transfer_checks_ok_def wp_active [OF assms(1)] using assms(1)
    by (auto simp: wp_simps intro!: reply_rules assms(3))
qed

section \<open>The data connection\<close>

lemma data_steps_talk [talks_intros]: "talks (\<lambda>_. True) F (start_data_alarm E)"
  unfolding start_data_alarm_def by (intro talks_intros) simp_all

lemma alarm_rule [wp_rules]:
  "state E k w \<Longrightarrow> (\<And>a w'. state E k w' \<Longrightarrow> Q a w') \<Longrightarrow> wp (start_data_alarm E) Q (\<lambda>f _. external f) w"
  by (rule wp_state_talks [OF data_steps_talk])

lemma state_data_fd:
  "state E (opn, pend, act) w \<Longrightarrow> state E (fd \<noteq> - 1, pend, act) (w\<lparr>sess := (sess w)\<lparr>data_fd := fd\<rparr>\<rparr>)"
  by (auto simp: state.simps wired_def idle_def lfd_def target_ok_def named_def split: option.splits)

lemma init_rule [wp_rules]:
  assumes "state E (False, pend, act) w" and "fd \<noteq> - 1" and "\<And>a w'. state E (True, pend, act) w' \<Longrightarrow> Q a w'"
  shows "wp (init_data_sock_params E fd) Q (\<lambda>f _. external f) w"
proof -
  have "data_fd (sess w) = - 1" using assms(1) by (simp add: state.simps)
  moreover have "state E (True, pend, act) (w\<lparr>sess := (sess w)\<lparr>data_fd := fd\<rparr>\<rparr>)"
    using state_data_fd [OF assms(1), of fd] assms(2) by simp
  then have "state E (True, pend, act) (w\<lparr>sess := (sess w)\<lparr>data_fd := fd, data_progress := False\<rparr>\<rparr>)"
    using state_upd(10) [where w = "w\<lparr>sess := (sess w)\<lparr>data_fd := fd\<rparr>\<rparr>"] by simp
  ultimately show ?thesis
    by (auto simp: init_data_sock_params_def wp_simps Let_def intro!: alarm_rule assms(3))
qed

lemma sigalrm_rule [wp_rules]:
  assumes "state E k w" and "\<And>a w'. state E k w' \<Longrightarrow> Q a w'"
  shows "wp (handle_sigalrm E) Q (\<lambda>f _. external f) w"
  using assms(1) by (auto simp: handle_sigalrm_def wp_simps Let_def intro!: alarm_rule assms(2))

lemma pending_rule [wp_rules]:
  assumes "state E k w" and "\<And>a w'. state E k w' \<Longrightarrow> Q a w'"
  shows "wp (check_pending E n) Q (\<lambda>f _. external f) w"
  using assms(1) by (auto simp: check_pending_def handle_io_def wp_simps intro!: sigalrm_rule assms(2))

lemma talks_close [talks_intros]:
  "talks (\<lambda>_. True) external (close_data_ssl E)" "talks (\<lambda>_. True) external (linger_data E fd b)"
  "talks (\<lambda>_. True) external (close_data E fd)"
  unfolding close_data_ssl_def linger_data_def close_data_def by (intro talks_intros; simp)+

lemma dispose_rule [wp_rules]:
  assumes "state E (True, pend, act) w" and "\<And>a w'. state E (False, pend, act) w' \<Longrightarrow> Q a w'"
  shows "wp (vsf_ftpdataio_dispose_transfer_fd E) Q (\<lambda>f _. external f) w"
proof -
  have closed: "state E (False, pend, act) (v\<lparr>sess := (sess v)\<lparr>data_fd := - 1\<rparr>\<rparr>)" if "state E (True, pend, act) v" for v
    using state_data_fd [OF that, of "- 1"] by simp
  have "data_fd (sess w) \<noteq> - 1" using assms(1) by (simp add: state.simps)
  then show ?thesis using assms(1)
    by (auto simp: vsf_ftpdataio_dispose_transfer_fd_def wp_simps intro!: talks_close [THEN wp_state_talks] assms(2) closed)
qed

lemma accept_rule:
  assumes "state E (False, pend, act) w" and "lfd E w \<noteq> - 1"
    and "\<And>fd w'. - 2 \<le> fd \<Longrightarrow> state E (False, pend, act) w' \<Longrightarrow> Q fd w'"
  shows "wp (if tb E ''one_process_model'' then vsf_one_process_get_pasv_fd E else vsf_two_process_get_pasv_fd E) Q
    (\<lambda>f _. external f) w"
  using state_active(3) [OF assms(1)] assms(2)
  by (intro wp_mono [OF modes.accept_law [OF state_active(1) [OF assms(1)] assms(2)]])
    (auto intro!: assms(3) state_core [OF assms(1)])

lemma port_of_set: "p_port_sockaddr s = Some a \<Longrightarrow> port_of (p_port_sockaddr s) = Inl f \<Longrightarrow> external f"
  by (cases a) (auto simp: port_of_def bug_fault)

text \<open>Connecting to the client in both models.\<close>

lemma connect_wp:
  assumes "state E (opn, pend, act) w" and "lfd E w = - 1" and "p_port_sockaddr (sess w) = Some a"
  shows "wp (if tb E ''one_process_model'' \<or> tb E ''port_promiscuous'' then vsf_one_process_get_priv_data_sock E
      else vsf_two_process_get_priv_data_sock E)
    (\<lambda>fd w'. wired E w' \<and> lfd E w' = - 1 \<and> core E w' = core E w) (\<lambda>f _. external f) w"
proof (cases "port_of (p_port_sockaddr (sess w))")
  case (Inl f)
  then show ?thesis using port_of_set [OF assms(3) Inl]
    by (simp add: vsf_one_process_get_priv_data_sock_def vsf_two_process_get_priv_data_sock_def wp_simps)
next
  case (Inr port)
  have wired: "wired E w" using assms(1) by (rule state_active)
  show ?thesis
  proof (cases "tb E ''one_process_model'' \<or> tb E ''port_promiscuous''")
    case True
    let ?m = "vsf_privop_get_ftp_port_sock E port True"
    have fd: "pasv_listen_fd (sess w) = - 1" using assms(1,2) by (auto simp: state.simps lfd_def)
    have "wp ?m (\<lambda>fd w'. sess w' = sess w) (\<lambda>f _. external f) w"
      by (rule wp_mono [OF port_sock_wp [OF fd, where b = True]]) (auto simp: assms(3))
    from wp_keeps [OF beside.keeps_privops(1) [where R = "\<lambda>p. p = parent w"] refl this]
    have s: "wp ?m (\<lambda>fd w'. sess w' = sess w \<and> parent w' = parent w) (\<lambda>f _. external f) w" .
    have "wp ?m (\<lambda>fd w'. wired E w' \<and> lfd E w' = - 1 \<and> core E w' = core E w) (\<lambda>f _. external f) w"
    proof (cases "tb E ''one_process_model''")
      case True
      with assms(2) show ?thesis
        by (intro wp_mono [OF s]) (auto simp: wired_def lfd_def core_def)
    next
      case False
      with wired have i: "idle w" "channel_ok E" by (simp_all add: wired_def)
      from wp_keeps [OF wires.keeps_privops(1) i(1) s] show ?thesis
        by (rule wp_mono) (use False assms(2) i(2) in \<open>auto simp: wired_def lfd_def core_def\<close>)
    qed
    with True Inr show ?thesis by (simp add: vsf_one_process_get_priv_data_sock_def wp_simps)
  next
    case False
    with wired have i: "channel_ok E" "idle w" by (simp_all add: wired_def)
    let ?m = "handed_over E (vsf_privop_get_ftp_port_sock E port False)"
    have m: "wp ?m (\<lambda>fd w'. pasv_listen_fd (sess w') = - 1) (\<lambda>f _. external f) (swap w)"
      unfolding handed_over_def wp_bnd using assms(2) False
      by (intro wp_mono [OF port_sock_wp [where b = False]]) (auto simp: lfd_def wp_simps vsf_sysutil_close_def Let_def)
    have quiet: "keeps I ?m" if "outside I" for I
      unfolding handed_over_def
      by (intro keeps_intros outside.keeps_privops(1) [OF that] outside.keeps_sysutil(2) [OF that])
    from wp_two [of "vsf_two_process_get_priv_data_sock E" w ?m, OF two_data_sock [OF i Inr] quiet quiet i(2) m]
    show ?thesis using False i(1)
      by (auto simp: wired_def lfd_def core_def wires.outside_axioms beside.outside_axioms elim!: wp_mono)
  qed
qed

lemma connect_rule:
  assumes "state E (opn, pend, True) w" and "lfd E w = - 1" and "\<And>fd w'. state E (opn, pend, True) w' \<Longrightarrow> Q fd w'"
  shows "wp (if tb E ''one_process_model'' \<or> tb E ''port_promiscuous'' then vsf_one_process_get_priv_data_sock E
      else vsf_two_process_get_priv_data_sock E) Q (\<lambda>f _. external f) w"
proof -
  obtain a where a: "p_port_sockaddr (sess w) = Some a" using state_active(4) [OF assms(1,2)] by auto
  show ?thesis
    by (rule wp_mono [OF connect_wp [OF assms(1,2) a]]) (auto intro!: assms(3) state_core [OF assms(1)] simp: a)
qed

text \<open>The data connection of a transfer: open exactly when the result is not an error.\<close>

definition opened :: "env \<Rightarrow> bool \<Rightarrow> int \<Rightarrow> world \<Rightarrow> bool" where
  "opened E pend fd w \<longleftrightarrow> state E (\<not> vsf_sysutil_retval_is_error fd, pend, True) w"

lemma get_fd_rules:
  assumes "state E (False, pend, True) w"
  shows "lfd E w \<noteq> - 1 \<Longrightarrow> wp (vsf_ftpdataio_get_pasv_fd E) (opened E pend) (\<lambda>f _. external f) w"
    and "lfd E w = - 1 \<Longrightarrow> wp (vsf_ftpdataio_get_port_fd E) (opened E pend) (\<lambda>f _. external f) w"
proof -
  note result = opened_def vsf_sysutil_retval_is_error_def wp_simps
  show "wp (vsf_ftpdataio_get_pasv_fd E) (opened E pend) (\<lambda>f _. external f) w" if "lfd E w \<noteq> - 1"
    unfolding vsf_ftpdataio_get_pasv_fd_def wp_bnd
    by (rule accept_rule [OF assms that]) (auto simp: result intro!: reply_rules init_rule)
  show "wp (vsf_ftpdataio_get_port_fd E) (opened E pend) (\<lambda>f _. external f) w" if "lfd E w = - 1"
    unfolding vsf_ftpdataio_get_port_fd_def wp_bnd
    by (rule connect_rule [OF assms that]) (auto simp: result intro!: reply_rules init_rule)
qed

lemma mark_rule [wp_rules]:
  assumes "state E k w" and "\<And>a w'. state E k w' \<Longrightarrow> Q a w'"
  shows "wp (vsf_ftpdataio_post_mark_connect E) Q (\<lambda>f _. external f) w"
  using assms(1) by (auto simp: vsf_ftpdataio_post_mark_connect_def wp_simps intro!: reply_rules exit_rule assms(2))

lemma remote_fd_wp:
  assumes "state E (False, pend, True) w"
  shows "wp (get_remote_transfer_fd E msg) (opened E pend) (\<lambda>f _. external f) w"
proof -
  let ?w = "w\<lparr>sess := (sess w)\<lparr>abor_received := False\<rparr>\<rparr>"
  have s: "state E (False, pend, True) ?w" using assms by simp
  have "wp (bnd (if lfd E ?w \<noteq> - 1 then vsf_ftpdataio_get_pasv_fd E else vsf_ftpdataio_get_port_fd E) (\<lambda>remote_fd.
        if vsf_sysutil_retval_is_error remote_fd then ret remote_fd
        else thn (vsf_cmdio_write E FTP_DATACONN msg) (bnd (vsf_ftpdataio_post_mark_connect E) (\<lambda>connected.
          if \<not> connected then bnd (vsf_ftpdataio_dispose_transfer_fd E) (\<lambda>_. ret (- 1)) else ret remote_fd))))
      (opened E pend) (\<lambda>f _. external f) ?w"
    unfolding wp_bnd wp_thn wp_if
    by (auto intro!: wp_mono [OF get_fd_rules(1) [OF s]] wp_mono [OF get_fd_rules(2) [OF s]]
        simp: opened_def wp_simps vsf_sysutil_retval_is_error_def intro!: reply_rules mark_rule dispose_rule)
  then have "wp (bnd (pasv_active E) (\<lambda>pasv'.
      bnd (if pasv' then vsf_ftpdataio_get_pasv_fd E else vsf_ftpdataio_get_port_fd E) (\<lambda>remote_fd.
        if vsf_sysutil_retval_is_error remote_fd then ret remote_fd
        else thn (vsf_cmdio_write E FTP_DATACONN msg) (bnd (vsf_ftpdataio_post_mark_connect E) (\<lambda>connected.
          if \<not> connected then bnd (vsf_ftpdataio_dispose_transfer_fd E) (\<lambda>_. ret (- 1)) else ret remote_fd)))))
      (opened E pend) (\<lambda>f _. external f) ?w"
    using active_eqs(1) [OF s] by (simp add: wp_def bnd_def)
  moreover have "lfd E w \<noteq> - 1 \<or> p_port_sockaddr (sess w) \<noteq> None" using assms by (simp add: state.simps)
  ultimately show ?thesis
    unfolding get_remote_transfer_fd_def wp_active [OF assms] by (simp add: wp_thn wp_basic)
qed

lemma remote_fd_rule [wp_rules]:
  assumes "state E (False, pend, True) w"
    and "\<And>fd w'. vsf_sysutil_retval_is_error fd \<Longrightarrow> state E (False, pend, True) w' \<Longrightarrow> Q fd w'"
    and "\<And>fd w'. \<not> vsf_sysutil_retval_is_error fd \<Longrightarrow> state E (True, pend, True) w' \<Longrightarrow> Q fd w'"
  shows "wp (get_remote_transfer_fd E msg) Q (\<lambda>f _. external f) w"
proof (rule wp_mono [OF remote_fd_wp [OF assms(1)]])
  show "Q fd w'" if "opened E pend fd w'" for fd w'
    using that assms(2,3) by (cases "vsf_sysutil_retval_is_error fd") (auto simp: opened_def)
qed

section \<open>Transfers\<close>

definition memory_fault :: "'a res \<Rightarrow> bool" where
  "memory_fault r \<longleftrightarrow> (\<forall>f. r = Inl f \<longrightarrow> f = Segv)"

lemma memory_fault_rules:
  "memory_fault (Inr a)" "memory_fault (get_byte p i)" "memory_fault (put_byte p i c)"
  "memory_fault m \<Longrightarrow> (\<And>a. memory_fault (k a)) \<Longrightarrow> memory_fault (res_bind m k)"
  "(b \<Longrightarrow> memory_fault r) \<Longrightarrow> (\<not> b \<Longrightarrow> memory_fault r') \<Longrightarrow> memory_fault (if b then r else r')"
  "(\<And>x y. memory_fault (g x y)) \<Longrightarrow> memory_fault (case p' of (x, y) \<Rightarrow> g x y)"
  by (auto simp: memory_fault_def get_byte_def put_byte_def res_simps split: if_splits prod.splits)

lemma ascii_loop_faults:
  shows "memory_fault (ascii_to_bin_loop b n i out wr cr)" and "memory_fault (bin_to_ascii_loop pin pout n i wr l cr)"
proof -
  show "memory_fault (ascii_to_bin_loop b n i out wr cr)"
  proof (induction b n i out wr cr rule: ascii_to_bin_loop.induct)
    case (1 b n i out wr cr)
    show ?case by (subst ascii_to_bin_loop.simps) (intro memory_fault_rules 1; assumption)
  qed
  show "memory_fault (bin_to_ascii_loop pin pout n i wr l cr)"
  proof (induction pin pout n i wr l cr rule: bin_to_ascii_loop.induct)
    case (1 pin pout n i wr l cr)
    show ?case by (subst bin_to_ascii_loop.simps) (intro memory_fault_rules 1; assumption)
  qed
qed

lemma ascii_faults: "memory_fault (vsf_ascii_ascii_to_bin b n cr)" "memory_fault (vsf_ascii_bin_to_ascii pin pout n cr)"
  unfolding vsf_ascii_ascii_to_bin_def vsf_ascii_bin_to_ascii_def Let_def
  by (intro memory_fault_rules ascii_loop_faults)+

lemma network_faults: "to_network ascii b cr = Inl f \<Longrightarrow> external f" "from_network ascii b cr = Inl f \<Longrightarrow> external f"
proof -
  have "memory_fault (to_network ascii b cr)" "memory_fault (from_network ascii b cr)"
    unfolding to_network_def from_network_def by (intro memory_fault_rules ascii_faults)+
  then show "to_network ascii b cr = Inl f \<Longrightarrow> external f" "from_network ascii b cr = Inl f \<Longrightarrow> external f"
    by (auto simp: memory_fault_def)
qed

lemma write_data_rule [wp_rules]:
  assumes "state E k w" and "\<And>a w'. state E k w' \<Longrightarrow> Q a w'"
  shows "wp (ftp_write_data E b) Q (\<lambda>f _. external f) w"
  using assms(1) by (auto simp: ftp_write_data_def wp_simps intro!: pending_rule assms(2))

lemma read_data_rule [wp_rules]:
  assumes "state E k w" and "\<And>a w'. state E k w' \<Longrightarrow> Q a w'"
  shows "wp (ftp_read_data E got) Q (\<lambda>f _. external f) w"
  using assms(1) by (auto simp: ftp_read_data_def wp_simps Let_def intro!: pending_rule assms(2))

lemma send_loop_state:
  "state E k w \<Longrightarrow> wp (send_loop E path ascii fsize cr sent off buf) (\<lambda>_. state E k) (\<lambda>f _. external f) w"
proof (induction E path ascii fsize cr sent off buf arbitrary: w rule: send_loop.induct)
  case (1 E path ascii fsize cr sent off buf)
  then show ?case
    by (subst send_loop.simps)
      (auto simp: wp_simps Let_def intro!: cos_rules(9) write_data_rule dest: network_faults split: sum.split)
qed

lemma store_fragment_rule:
  assumes "state E k w" and "\<And>a w'. state E k w' \<Longrightarrow> Q a w'"
  shows "wp (store_fragment E fd ascii have cr n got) Q (\<lambda>f _. external f) w"
  using assms(1) by (auto simp: store_fragment_def wp_simps dest: network_faults intro!: assms(2) split: sum.split)

lemma recv_loop_state:
  "state E k w \<Longrightarrow> wp (recv_loop E fd ascii have cr n frags) (\<lambda>_. state E k) (\<lambda>f _. external f) w"
proof (induction frags arbitrary: cr n w)
  case Nil
  then show ?case by (auto simp: wp_simps intro!: read_data_rule store_fragment_rule split: sum.split)
next
  case (Cons got frags)
  then show ?case
    by (auto simp: wp_simps intro!: read_data_rule store_fragment_rule split: sum.split option.split)
qed

lemma transfer_rule [wp_rules]:
  assumes "state E k w" and "\<And>a w'. state E k w' \<Longrightarrow> Q a w'"
  shows "wp (vsf_ftpdataio_transfer_file E fd rcv ascii have fsize) Q (\<lambda>f _. external f) w"
  using assms(1)
  by (auto simp: vsf_ftpdataio_transfer_file_def do_file_send_rwloop_def do_file_recv_def take_data_def wp_simps
      wp_def [of "\<lambda>w. (Inr (data_in w), w\<lparr>data_in := []\<rparr>)"]
      intro!: wp_mono [OF send_loop_state] wp_mono [OF recv_loop_state] assms(2))

section \<open>Listings\<close>

text \<open>What is relied on of the C library's \<^verbatim>\<open>qsort\<close> here: it adds nothing.\<close>

definition sorts :: "env \<Rightarrow> bool" where
  "sorts E \<longleftrightarrow> (\<forall>cmp xs. set (qsort_fn E cmp xs) \<subseteq> set xs)"

lemma talks_on_trace: "(\<And>t. talks P F (m t)) \<Longrightarrow> talks P F (\<lambda>w. m (trace w) w)"
  by (auto simp: talks_def)

lemma talks_any: "talks P F m \<Longrightarrow> talks (\<lambda>_. True) F m"
  by (erule talks_mono) simp_all

lemma talks_get_list: "F Segv \<Longrightarrow> talks (store_event UNIV) F (get_list_loop E p filt l n ctx resps)"
proof (induction E p filt l n ctx resps rule: get_list_loop.induct)
  case (1 E p filt l n ctx resps)
  show ?case
    by (subst get_list_loop.simps)
      (auto intro!: talks_intros 1 simp del: One_nat_def split: list.split option.split prod.split)
qed

lemma talks_listing [talks_intros]:
  shows "talks (\<lambda>_. True) external (cos_get_list E p filt)"
    and "talks (\<lambda>_. True) external (list_line E vb name path info now)"
    and "talks (\<lambda>_. True) external (dir_lines E vb t base now infs)"
proof -
  show "talks (\<lambda>_. True) external (cos_get_list E p filt)"
    unfolding cos_get_list_def
    by (rule talks_bnd, rule talks_cos_path, simp,
        rule talks_on_trace [where m = "\<lambda>t. get_list_loop E q filt [] 2 [] (pages E t e)" for q e],
        rule talks_get_list [THEN talks_any], simp)
  show line: "talks (\<lambda>_. True) external (list_line E vb name path info now)" for name path info
    unfolding list_line_def build_dir_line_def time_get_date_def Let_def
    by (auto intro!: talks_intros simp: bug_fault)
  show "talks (\<lambda>_. True) external (dir_lines E vb t base now infs)"
    by (induction infs) (auto intro!: talks_intros line)
qed

lemma talks_populate: "talks (\<lambda>_. True) external (vsf_ls_populate_dir_list E base opt filt vb st)"
  unfolding vsf_ls_populate_dir_list_def Let_def
  by (auto intro!: talks_intros talks_cos [where ops = UNIV, THEN talks_any] split: prod.split)

text \<open>\<open>yields P m\<close>: what the action returns satisfies \<open>P\<close>.\<close>

definition yields :: "('a \<Rightarrow> bool) \<Rightarrow> 'a act \<Rightarrow> bool" where
  "yields P m \<longleftrightarrow> (\<forall>w a w'. m w = (Inr a, w') \<longrightarrow> P a)"

lemma yields_rules:
  "P a \<Longrightarrow> yields P (ret a)"
  "(\<And>x. yields P (h x)) \<Longrightarrow> yields P (bnd m h)"
  "(b \<Longrightarrow> yields P u) \<Longrightarrow> (\<not> b \<Longrightarrow> yields P v) \<Longrightarrow> yields P (if b then u else v)"
  "(\<And>x y. yields P (g x y)) \<Longrightarrow> yields P (case p of (x, y) \<Rightarrow> g x y)"
  by (auto simp: yields_def ret_def bnd_def split: prod.splits sum.splits)

lemma yields_bnd: "yields R m \<Longrightarrow> (\<And>x. R x \<Longrightarrow> yields P (h x)) \<Longrightarrow> yields P (bnd m h)"
  by (fastforce simp: yields_def bnd_def split: prod.splits sum.splits)

lemma yields_wp: "yields P m \<Longrightarrow> wp m Q X w \<Longrightarrow> wp m (\<lambda>a w'. Q a w' \<and> P a) X w"
  by (cases "m w"; cases "fst (m w)") (auto simp: yields_def wp_def)

lemma list_line_nonempty: "yields (\<lambda>l. l \<noteq> []) (list_line E vb name path info now)"
  unfolding list_line_def build_dir_line_def by (intro yields_rules) simp_all

lemma dir_lines_nonempty: "yields (\<lambda>ls. \<forall>l \<in> set ls. fst l \<noteq> []) (dir_lines E vb t base now infs)"
proof (induction infs)
  case (Cons info infs)
  show ?case unfolding dir_lines.simps
    by (rule yields_bnd [OF list_line_nonempty], rule yields_bnd [OF Cons.IH]) (auto intro!: yields_rules)
qed (simp add: yields_rules)

lemma populate_nonempty:
  assumes "sorts E"
  shows "yields (\<lambda>ls. \<forall>l \<in> set ls. fst l \<noteq> []) (vsf_ls_populate_dir_list E base opt filt vb st)"
proof -
  have one: "yields (\<lambda>ls. \<forall>l \<in> set ls. fst l \<noteq> []) (bnd (list_line E v name path info now) (\<lambda>l. ret [(l, key)]))"
    for v name path info now key
    by (rule yields_bnd [OF list_line_nonempty]) (simp add: yields_rules)
  have many: "yields (\<lambda>ls. \<forall>l \<in> set ls. fst l \<noteq> []) (bnd (dir_lines E v t b now infs) (\<lambda>ls. ret (qsort_fn E cmp ls)))"
    for v t b now infs cmp
    by (rule yields_bnd [OF dir_lines_nonempty]) (use assms in \<open>auto simp: sorts_def intro!: yields_rules(1)\<close>)
  show ?thesis unfolding vsf_ls_populate_dir_list_def Let_def
    by (intro yields_rules(2) [where m = "if _ then ask E _ else _"] yields_rules(3)
        yields_rules(2) [where m = "cos_stat_file _ _"] yields_rules(2) [where m = "if _ then ret _ else _"]
        yields_rules(2) [where m = "if _ then cos_stat_file _ _ else _"] yields_rules(2) [where m = "cos_get_list _ _ _"]
        yields_rules(4) one many)
      (simp_all add: yields_rules)
qed

lemma talks_write_str: "b \<noteq> [] \<Longrightarrow> talks (\<lambda>_. True) external (ftp_write_str E b target)"
  unfolding ftp_write_str_def str_netfd_write_def by (intro talks_intros) simp_all

lemma write_dir_state:
  "\<forall>l \<in> set ls. l \<noteq> [] \<Longrightarrow> state E k w \<Longrightarrow> wp (write_dir_loop E target buf ls) (\<lambda>_. state E k) (\<lambda>f _. external f) w"
proof (induction ls arbitrary: buf w)
  case (Cons l ls)
  then show ?case by (auto simp: wp_simps Let_def intro!: wp_state_talks [OF talks_write_str])
qed (simp add: wp_simps)

lemma transfer_dir_rule:
  assumes "sorts E" and "state E k w" and "\<And>a w'. state E k w' \<Longrightarrow> Q a w'"
  shows "wp (vsf_ftpdataio_transfer_dir E control base opt filt vb) Q (\<lambda>f _. external f) w"
  unfolding vsf_ftpdataio_transfer_dir_def write_dir_list_def Let_def wp_bnd
  by (rule wp_mono [OF yields_wp [OF populate_nonempty [OF assms(1)]
          wp_state_talks [where Q = "\<lambda>_. state E k", OF talks_populate assms(2)]]])
    (force simp: wp_basic intro!: wp_mono [OF write_dir_state] assms(3))+

section \<open>Small replies\<close>

lemma talks_banner: "talks is_cmdio external (vsf_banner_write E v c)"
proof -
  have "p \<le> length v \<Longrightarrow> talks is_cmdio external (banner_loop E v c p)" for p
  proof (induction E v c p rule: banner_loop.induct)
    case (1 E v c p)
    show ?case
    proof (cases "str_getline v p")
      case (Inl f)
      with 1(2) show ?thesis by (simp add: str_getline_def bug_def Let_def split: if_splits)
    next
      case (Inr r)
      obtain more line p' where r: "r = (more, line, p')" by (cases r)
      then have "more \<Longrightarrow> p' \<le> length v" using Inr str_getline_progress [of v p line p'] by simp
      then show ?thesis using 1(1) [OF Inr] Inr r
        by (subst banner_loop.simps) (auto intro!: talks_intros split: bool.split)
    qed
  qed
  then show ?thesis by (simp add: vsf_banner_write_def)
qed

lemma talks_fileread: "talks (\<lambda>_. True) external (str_fileread E f n)"
  unfolding str_fileread_def vsf_sysutil_fstat_def vsf_sysutil_statbuf_get_size_def Let_def
  by (auto intro!: talks_intros simp: bug_fault split: if_splits)

lemma banner_write_rule [wp_rules]:
  "state E k w \<Longrightarrow> (\<And>a w'. state E k w' \<Longrightarrow> Q a w') \<Longrightarrow> wp (vsf_banner_write E msg c) Q (\<lambda>f _. external f) w"
  by (rule wp_state_talks [OF talks_banner])

lemma dir_changed_rule [wp_rules]:
  assumes "state E k w" and "\<And>a w'. state E k w' \<Longrightarrow> Q a w'"
  shows "wp (vsf_banner_dir_changed E c) Q (\<lambda>f _. external f) w"
  using assms(1)
  by (auto simp: vsf_banner_dir_changed_def wp_simps split: option.split
      intro!: path_rules(3) wp_state_talks [OF talks_fileread] banner_write_rule assms(2))

section \<open>Handlers\<close>

lemma restedI: "state E (False, pend, act) w \<Longrightarrow> rested E w"
  using state_active(2) rested_def by blast

lemma upper_rule [wp_rules]:
  assumes "state E k w" and "\<And>a w'. state E k w' \<Longrightarrow> Q a w'"
  shows "wp upper_arg Q X w"
  using assms by (simp add: upper_arg_def wp_simps)

lemma root_external: "root_of E = Inl f \<Longrightarrow> external f"
  by (auto dest!: root_fault)

lemma simple_handlers:
  assumes "state E (False, False, False) w"
  shows "wp (handle_type E) (\<lambda>_. rested E) (\<lambda>f _. external f) w"
    and "wp (handle_rest E) (\<lambda>_. rested E) (\<lambda>f _. external f) w"
    and "wp (handle_stru E) (\<lambda>_. rested E) (\<lambda>f _. external f) w"
    and "wp (handle_mode E) (\<lambda>_. rested E) (\<lambda>f _. external f) w"
    and "wp (handle_opts E) (\<lambda>_. rested E) (\<lambda>f _. external f) w"
    and "wp (handle_help E) (\<lambda>_. rested E) (\<lambda>f _. external f) w"
    and "wp (handle_pbsz E) (\<lambda>_. rested E) (\<lambda>f _. external f) w"
    and "wp (handle_logged_in_user E) (\<lambda>_. rested E) (\<lambda>f _. external f) w"
    and "wp (handle_logged_in_pass E) (\<lambda>_. rested E) (\<lambda>f _. external f) w"
    and "wp (not_implemented E) (\<lambda>_. rested E) (\<lambda>f _. external f) w"
  using assms
  by (auto simp: handle_type_def handle_rest_def handle_stru_def handle_mode_def handle_opts_def handle_help_def
      handle_pbsz_def handle_logged_in_user_def handle_logged_in_pass_def not_implemented_def
      wp_simps Let_def intro!: upper_rule reply_rules restedI)

lemma prot_handler:
  assumes "state E (False, False, False) w"
  shows "wp (handle_prot E) (\<lambda>_. rested E) (\<lambda>f _. external f) w"
  using assms by (auto simp: handle_prot_def wp_simps intro!: upper_rule reply_rules restedI)

lemma path_handlers:
  assumes "state E (False, False, False) w"
  shows "wp (handle_pwd E) (\<lambda>_. rested E) (\<lambda>f _. external f) w"
    and "wp (handle_cwd E) (\<lambda>_. rested E) (\<lambda>f _. external f) w"
    and "wp (handle_mkd E) (\<lambda>_. rested E) (\<lambda>f _. external f) w"
    and "wp (handle_rmd E) (\<lambda>_. rested E) (\<lambda>f _. external f) w"
    and "wp (handle_dele E) (\<lambda>_. rested E) (\<lambda>f _. external f) w"
    and "wp (handle_size E) (\<lambda>_. rested E) (\<lambda>f _. external f) w"
proof -
  show "wp (handle_pwd E) (\<lambda>_. rested E) (\<lambda>f _. external f) w"
    using assms by (auto simp: handle_pwd_def wp_simps Let_def split: sum.split dest: root_external
        intro!: path_rules(3) reply_rules restedI)
  show "wp (handle_cwd E) (\<lambda>_. rested E) (\<lambda>f _. external f) w"
    using assms by (auto simp: handle_cwd_def enter_dir_def wp_simps
        intro!: tilde_rule access_rule reply_rules cos_rules path_rules file_rules dir_changed_rule restedI)
  show "wp (handle_mkd E) (\<lambda>_. rested E) (\<lambda>f _. external f) w"
    using assms by (auto simp: handle_mkd_def wp_simps
        intro!: tilde_rule access_rule log_path_rule do_log_rule reply_rules cos_rules path_rules file_rules restedI)
  show "wp (handle_rmd E) (\<lambda>_. rested E) (\<lambda>f _. external f) w"
    using assms by (auto simp: handle_rmd_def wp_simps
        intro!: tilde_rule access_rule log_path_rule do_log_rule reply_rules cos_rules path_rules file_rules restedI)
  show "wp (handle_dele E) (\<lambda>_. rested E) (\<lambda>f _. external f) w"
    using assms by (auto simp: handle_dele_def wp_simps
        intro!: tilde_rule access_rule log_path_rule do_log_rule reply_rules cos_rules restedI)
  show "wp (handle_size E) (\<lambda>_. rested E) (\<lambda>f _. external f) w"
    using assms by (auto simp: handle_size_def wp_simps intro!: tilde_rule access_rule reply_rules cos_rules restedI)
qed

lemma talks_raw_lines:
  "cstr t \<noteq> [] \<Longrightarrow> talks is_cmdio external (vsf_cmdio_write_raw E t)"
  "t = [] \<or> hd t \<noteq> NUL \<Longrightarrow> talks is_cmdio external (raw_line E t)"
  "c \<noteq> NUL \<Longrightarrow> talks is_cmdio external (vsf_cmdio_write_raw E (c # t))"
  by (auto simp: raw_line_def cstr_def intro!: talks_raw split: list.split) (cases t; simp)

lemma talks_replies:
  "talks is_cmdio external (vsf_cmdio_write E status t)" "talks is_cmdio external (vsf_cmdio_write_hyphen E status t)"
  "talks is_cmdio external (vsf_cmdio_write_str E status t)"
  by (auto intro!: talks_reply)

lemma talks_rested:
  "state E (False, pend, act) w \<Longrightarrow> talks is_cmdio external m \<Longrightarrow> wp m (\<lambda>_. rested E) (\<lambda>f _. external f) w"
  by (erule wp_state_talks [rotated]) (auto intro: restedI)

lemma cstr_digits: "cstr (vsf_sysutil_ulong_to_str n) \<noteq> []"
  by (cases "digits_of 10 n"; simp add: vsf_sysutil_ulong_to_str_def cstr_def)
    (metis digits_of_no_NUL digits_of_not_Nil list.set_intros(1) one_less_numeral_iff order_refl semiring_norm(76))

lemma stat_handler:
  assumes "state E (False, False, False) w"
  shows "wp (handle_stat E) (\<lambda>_. rested E) (\<lambda>f _. external f) w"
proof -
  have "cstr (user_str (sess w)) \<noteq> []" "cstr (remote_ip_str (sess w)) \<noteq> []"
    using assms by (auto simp: state.simps named_def)
  then show ?thesis unfolding handle_stat_def wp_bnd wp_basic id_def
    by (rule_tac talks_rested [OF assms])
      (intro talks_steps talks_if talks_replies talks_raw_lines cstr_digits; simp)
qed

lemma feat_handler:
  assumes "state E (False, False, False) w"
  shows "wp (handle_feat E) (\<lambda>_. rested E) (\<lambda>f _. external f) w"
  unfolding handle_feat_def
  by (rule talks_rested [OF assms]) (intro talks_steps talks_if talks_replies talks_raw_lines; simp add: cstr_def)

lemma epsv_arg_rule:
  assumes "state E k w" and "\<And>a w'. state E k w' \<Longrightarrow> Q a w'"
  shows "wp (epsv_arg E v6) Q (\<lambda>f _. external f) w"
  using assms by (auto simp: epsv_arg_def wp_simps Let_def intro!: upper_rule reply_rules)

lemma talks_pasv_address: "talks (\<lambda>_. True) external (pasv_address E)" "talks (\<lambda>_. True) external (pasv_host E v6 a)"
  unfolding pasv_address_def pasv_host_def vsf_sysutil_inet_ntop_def
  by (auto intro!: talks_intros simp: bug_fault dest: sockaddr_faults split: sockaddr.split)

text \<open>Both modes are left before one is entered.\<close>

lemma leave_modes_rule:
  assumes "state E (opn, pend, act) w"
    and "\<And>w'. state E (opn, pend, False) w' \<Longrightarrow> lfd E w' = - 1 \<Longrightarrow> p_port_sockaddr (sess w') = None \<Longrightarrow> Q () w'"
  shows "wp (steps [pasv_cleanup E, port_cleanup]) Q (\<lambda>f _. external f) w"
    and "wp (steps [port_cleanup, pasv_cleanup E]) Q (\<lambda>f _. external f) w"
    and "wp (transfer_cleanup E) Q (\<lambda>f _. external f) w"
proof -
  show "wp (steps [pasv_cleanup E, port_cleanup]) Q (\<lambda>f _. external f) w"
    unfolding wp_simps port_cleanup_def
    by (rule pasv_cleanup_rule [OF assms(1)]) (rule assms(2), auto intro: state_port_cleanup(1))
  show port: "wp (steps [port_cleanup, pasv_cleanup E]) Q (\<lambda>f _. external f) w"
    unfolding wp_simps port_cleanup_def
    by (rule pasv_cleanup_rule [OF state_port_cleanup(1) [OF assms(1)]]) (rule assms(2), auto)
  then show "wp (transfer_cleanup E) Q (\<lambda>f _. external f) w" by (simp only: transfer_cleanup_def)
qed

end
