(* ===== verification/Service.thy ===== *)
theory Service
  imports Session
begin

text \<open>
  The handlers of the commands that move data, the dispatch of a command and the loop: every turn of
  the loop keeps the state of \<open>Session\<close> and reaches no assertion.
\<close>

section \<open>Choosing a data mode\<close>

lemma pasv_handler:
  assumes "state E (False, False, False) w"
  shows "wp (handle_pasv E epsv) (\<lambda>_. rested E) (\<lambda>f _. external f) w"
  using assms unfolding handle_pasv_def wp_bnd wp_basic wp_doif wp_thn
  by (auto simp: wp_basic wp_bnd wp_if simp del: steps.simps
        intro!: epsv_arg_rule leave_modes_rule start_listening_rule reply_rules restedI
          talks_pasv_address [THEN wp_state_talks])

lemma set_addr_faults:
  "vsf_sysutil_sockaddr_set_ipv4addr a raw = Inl f \<Longrightarrow> external f"
  "vsf_sysutil_sockaddr_set_ipv6addr a raw = Inl f \<Longrightarrow> external f"
  by (cases a; auto simp: bug_fault raw_bytes_def res_simps split: if_splits)+

lemma port_set: "vsf_sysutil_sockaddr_set_port a port = Inr b \<Longrightarrow> vsf_sysutil_sockaddr_get_port b = Inr port"
  by (cases a) (auto simp: bug_def)

lemma state_target:
  assumes "state E (opn, pend, act) w" and "lfd E w = - 1"
    and "tb E ''port_promiscuous'' \<or> vsf_sysutil_sockaddr_addr_equal (p_remote_addr (sess w)) a \<and>
      (\<exists>port. vsf_sysutil_sockaddr_get_port a = Inr port \<and> \<not> vsf_sysutil_is_port_reserved port)"
  shows "state E (opn, pend, True) (w\<lparr>sess := (sess w)\<lparr>p_port_sockaddr := Some a\<rparr>\<rparr>)"
  using assms by (auto simp: state.simps wired_def idle_def lfd_def target_ok_def named_def)

lemma target_rule:
  assumes "state E (False, pend, act) w" and "lfd E w = - 1"
  shows "wp (set_port_target E v6 raw port bad good) (\<lambda>_. rested E) (\<lambda>f _. external f) w"
proof -
  have refused: "wp (steps [vsf_cmdio_write E FTP_BADCMD bad, port_cleanup]) (\<lambda>_. rested E) (\<lambda>f _. external f)
      (w\<lparr>sess := (sess w)\<lparr>p_port_sockaddr := Some a\<rparr>\<rparr>)" for a
    using state_port_cleanup(1) [OF assms(1)]
    by (auto simp: wp_simps port_cleanup_def intro!: wp_talks [OF talks_replies(1)] restedI)
  have accepted: "wp (vsf_cmdio_write E FTP_PORTOK good) (\<lambda>_. rested E) (\<lambda>f _. external f)
      (w\<lparr>sess := (sess w)\<lparr>p_port_sockaddr := Some a\<rparr>\<rparr>)"
    if "vsf_sysutil_sockaddr_set_port b port = Inr a" and "\<not> tb E ''port_promiscuous'' \<longrightarrow>
      vsf_sysutil_sockaddr_addr_equal (p_remote_addr (sess w)) a \<and> \<not> vsf_sysutil_is_port_reserved port" for a b
    using that port_set [OF that(1)]
    by (intro reply_rules(1) [OF state_target [OF assms]]) (auto intro: restedI)
  show ?thesis unfolding set_port_target_def
    by (cases v6; auto simp: wp_basic wp_bnd wp_thn wp_if simp del: steps.simps split: sum.split
        intro!: refused intro: accepted dest: sockaddr_faults set_addr_faults)
qed

lemma port_handlers:
  assumes "state E (False, False, False) w"
  shows "wp (handle_port E) (\<lambda>_. rested E) (\<lambda>f _. external f) w"
    and "wp (handle_eprt E) (\<lambda>_. rested E) (\<lambda>f _. external f) w"
  using assms unfolding handle_port_def handle_eprt_def wp_thn wp_bnd wp_basic
  by (auto simp: wp_basic wp_bnd simp del: steps.simps split: option.split sum.split
      intro!: leave_modes_rule reply_rules restedI target_rule)

section \<open>Transfers\<close>

lemma abor_rule:
  assumes "state E k w" and "\<And>a w'. state E k w' \<Longrightarrow> Q a w'"
  shows "wp (check_abor E) Q (\<lambda>f _. external f) w"
  using assms by (auto simp: check_abor_def wp_simps intro!: reply_rules)

lemma timeout_rule:
  assumes "state E k w" and "\<And>a w'. state E k w' \<Longrightarrow> Q a w'"
  shows "wp (unless_timeout E msg) Q (\<lambda>f _. external f) w" and "wp (retr_reply E r) Q (\<lambda>f _. external f) w"
    and "wp (dir_reply E b r) Q (\<lambda>f _. external f) w"
  using assms by (auto simp: unless_timeout_def retr_reply_def dir_reply_def wp_simps intro!: reply_rules)

lemma send_rule:
  assumes "state E (False, True, True) w"
  shows "wp (send_file E False ascii offset arg fsize) (\<lambda>_. rested E) (\<lambda>f _. external f) w"
  using assms unfolding send_file_def
  by (auto simp: wp_simps Let_def simp del: steps.simps
      intro!: remote_fd_rule leave_modes_rule transfer_rule dispose_rule do_log_rule timeout_rule abor_rule restedI)

lemma retr_handler:
  assumes "state E (False, False, False) w"
  shows "wp (handle_retr E False) (\<lambda>_. rested E) (\<lambda>f _. external f) w"
  using assms unfolding handle_retr_def
  by (auto simp: wp_basic wp_bnd wp_thn wp_if wp_doif
      intro!: checks_rule reply_rules tilde_rule log_path_rule access_rule cos_rules(1) send_rule restedI)

lemma dir_target_rule:
  assumes "state E k w" and "\<And>a w'. state E k w' \<Longrightarrow> Q a w'"
  shows "wp (dir_target E b given) Q (\<lambda>f _. external f) w"
  using assms unfolding dir_target_def by (auto simp: wp_simps intro!: path_rules access_rule cos_rules(2))

lemma listing_rule:
  assumes "sorts E" and "state E (False, False, act) w" and "\<not> stat_cmd \<Longrightarrow> act"
  shows "wp (send_listing E full stat_cmd opts target) (\<lambda>_. rested E) (\<lambda>f _. external f) w"
proof (cases stat_cmd)
  case True
  with assms(1,2) show ?thesis unfolding send_listing_def
    by (auto simp: wp_simps vsf_sysutil_retval_is_error_def
        intro!: reply_rules transfer_dir_rule timeout_rule abor_rule restedI)
next
  case False
  with assms show ?thesis unfolding send_listing_def
    by (auto simp: wp_basic wp_bnd wp_thn wp_if wp_doif wp_steps simp del: steps.simps
      intro!: remote_fd_rule leave_modes_rule transfer_dir_rule dispose_rule timeout_rule abor_rule restedI)
qed

lemma dir_handlers:
  assumes "sorts E" and "state E (False, False, False) w"
  shows "wp (handle_list E) (\<lambda>_. rested E) (\<lambda>f _. external f) w"
    and "wp (handle_nlst E) (\<lambda>_. rested E) (\<lambda>f _. external f) w"
    and "wp (handle_stat_file E) (\<lambda>_. rested E) (\<lambda>f _. external f) w"
  using assms unfolding handle_list_def handle_nlst_def handle_stat_file_def handle_dir_common_def
  by (auto simp: wp_basic wp_bnd wp_doif split: option.split prod.split
      intro!: checks_rule dir_target_rule reply_rules listing_rule restedI)

section \<open>Uploads\<close>

lemma talks_files [talks_intros]:
  "talks (\<lambda>_. True) external (vsf_sysutil_lseek_to E fd n)" "talks (\<lambda>_. True) external (vsf_sysutil_fstat E fd)"
  "talks (\<lambda>_. True) external (vsf_privop_do_file_chown E fd)" "talks (\<lambda>_. True) external (str_unlink E p)"
  "talks (\<lambda>_. True) external (seek_upload E fd trunc offset n)"
proof -
  show seek: "talks (\<lambda>_. True) external (vsf_sysutil_lseek_to E fd n)" for n
    unfolding vsf_sysutil_lseek_to_def by (auto intro!: talks_intros simp: bug_fault)
  show "talks (\<lambda>_. True) external (vsf_sysutil_fstat E fd)"
    unfolding vsf_sysutil_fstat_def by (intro talks_intros) simp_all
  show "talks (\<lambda>_. True) external (vsf_privop_do_file_chown E fd)"
    unfolding vsf_privop_do_file_chown_def by (auto intro!: talks_intros simp: bug_fault)
  show "talks (\<lambda>_. True) external (str_unlink E p)"
    unfolding str_unlink_def by (intro talks_intros) simp
  show "talks (\<lambda>_. True) external (seek_upload E fd trunc offset n)"
    unfolding seek_upload_def
    by (auto intro!: talks_intros seek simp: vsf_sysutil_statbuf_get_size_def bug_fault split: if_splits)
qed

lemma or_die_rule:
  assumes "external (Oops m)" and "state E k w" and "\<And>a w'. state E k w' \<Longrightarrow> Q a w'"
  shows "wp (or_die E e m) Q (\<lambda>f _. external f) w"
  by (rule wp_state_talks [where P = "\<lambda>_. True", OF talks_or_die]) (use assms in auto)

lemma state_same:
  "state E k v \<Longrightarrow> idle w \<Longrightarrow> sess w = sess v \<Longrightarrow> parent w = parent v \<Longrightarrow> state E k w"
  by (cases k) (auto simp: state.simps wired_def lfd_def)

lemma chown_rule:
  assumes "state E k w" and "\<And>a w'. state E k w' \<Longrightarrow> Q a w'"
  shows "wp (chown_upload E fd) Q (\<lambda>f _. external f) w"
proof -
  have one: "wp (vsf_one_process_chown_upload E fd) Q' (\<lambda>f _. external f) v"
    if "state E k v" "\<And>a w'. state E k w' \<Longrightarrow> Q' a w'" for v Q'
    unfolding vsf_one_process_chown_upload_def by (rule talks_files(3) [THEN wp_state_talks]) (use that in auto)
  have two: "wp (vsf_two_process_chown_upload E fd) Q' (\<lambda>f _. external f) v"
    if v: "state E k v" "\<And>a w'. state E k w' \<Longrightarrow> Q' a w'" "tb E ''chown_uploads''" "\<not> tb E ''one_process_model''" for v Q'
  proof -
    let ?m = "thn (vsf_privop_do_file_chown E fd) (vsf_sysutil_close E fd)"
    have "wired E v" using v(1) by (cases k) (auto dest: state_active(1))
    then have i: "channel_ok E" "idle v" using v(4) by (simp_all add: wired_def)
    have "talks (\<lambda>_. True) external ?m" by (intro talks_intros)
    then have m: "wp ?m (\<lambda>_ w'. sess w' = parent v) (\<lambda>f _. external f) (swap v)"
      by (rule wp_talking) (simp add: swap_def)
    have quiet: "keeps I ?m" if "outside I" for I
      by (intro keeps_intros outside.keeps_privops(6) [OF that] outside.keeps_sysutil(2) [OF that])
    from wp_two [of "vsf_two_process_chown_upload E fd" v ?m, OF two_chown [OF i v(3)] quiet quiet i(2) m]
    have "wp (vsf_two_process_chown_upload E fd) (\<lambda>_ w'. parent w' = parent v \<and> idle w' \<and> sess w' = sess v)
        (\<lambda>f _. external f) v"
      by (auto simp: wires.outside_axioms beside.outside_axioms elim!: wp_mono)
    then show ?thesis by (auto elim!: wp_mono intro!: v(2) state_same [OF v(1)])
  qed
  show ?thesis using assms(1) unfolding chown_upload_def
    by (auto simp: wp_bnd wp_basic wp_doif wp_steps simp del: steps.simps intro!: or_die_rule one two assms(2))
qed

lemma finish_rule:
  assumes "state E (False, pend, act) w"
  shows "wp (finish_upload E fd p ok cleaned) (\<lambda>_. rested E) (\<lambda>f _. external f) w"
proof -
  have tail: "wp (steps [doif (tb E ''delete_failed_uploads'' \<and> \<not> ok) (bnd (str_unlink E p) (\<lambda>_. ret ())),
      vsf_sysutil_close E fd]) (\<lambda>_. rested E) (\<lambda>f _. external f) v" if "state E (False, pend, False) v" for v
    by (rule wp_state_talks [where P = "\<lambda>_. True", OF _ that restedI]) (intro talks_intros)
  show ?thesis
    unfolding finish_upload_def port_cleanup_def wp_steps(2) [of "upd _"] wp_steps(2) [of "doif (\<not> cleaned) _"] wp_basic
    using state_port_cleanup(1) [OF assms]
    by (auto simp: wp_doif simp del: steps.simps intro!: pasv_cleanup_rule tail)
qed

lemma upload_result_rule:
  assumes "state E (False, True, act) w"
  shows "wp (upload_result E r p) (\<lambda>_. rested E) (\<lambda>f _. external f) w"
proof (cases "r = 0")
  case True
  then show ?thesis unfolding upload_result_def
    by (auto simp: wp_basic wp_bnd wp_thn wp_steps wp_if port_cleanup_def simp del: steps.simps
        intro!: log_line_rule [OF _ state_port_cleanup(1) [OF assms]] reply_rules file_rules cos_rules do_log_rule restedI)
next
  case False
  with assms show ?thesis unfolding upload_result_def
    by (auto simp: wp_simps intro!: reply_rules timeout_rule file_rules restedI)
qed

lemma receive_rule:
  assumes "state E (False, True, True) w"
  shows "wp (receive_upload E fd p offset) (\<lambda>_. rested E) (\<lambda>f _. external f) w"
proof -
  have tail: "wp (thn (check_abor E) (finish_upload E fd p ok True)) (\<lambda>_. rested E) (\<lambda>f _. external f) v"
    if "rested E v" for ok v
    using that by (auto simp: rested_def wp_thn intro!: abor_rule finish_rule)
  show ?thesis using assms unfolding receive_upload_def wp_bnd wp_thn
    by (auto simp: wp_basic wp_bnd wp_thn wp_if intro!: remote_fd_rule finish_rule pasv_cleanup_rule transfer_rule dispose_rule
        wp_mono [OF upload_result_rule] tail [unfolded wp_thn])
qed

lemma store_rule:
  assumes "state E (False, True, True) w"
  shows "wp (store_upload E fd p trunc offset) (\<lambda>_. rested E) (\<lambda>f _. external f) w"
proof -
  have head: "wp (steps [doif b (or_die E (Sys ''deactivate_noblock'' [] [fd]) ''fcntl''), chown_upload E fd]) Q
      (\<lambda>f _. external f) v"
    if "state E (False, True, True) v" "\<And>a v'. state E (False, True, True) v' \<Longrightarrow> Q a v'" for b v Q
    using that by (auto simp: wp_steps wp_doif simp del: steps.simps
        intro!: or_die_rule chown_rule)
  show ?thesis unfolding store_upload_def wp_bnd
    by (rule wp_state_talks [OF talks_files(2) assms])
     (auto simp: wp_basic wp_bnd wp_thn wp_if simp del: steps.simps
       intro!: head reply_rules talks_files(5) [THEN wp_state_talks] finish_rule cos_rules receive_rule)
qed

lemma stor_handler:
  assumes "state E (False, False, False) w"
  shows "wp (handle_stor E) (\<lambda>_. rested E) (\<lambda>f _. external f) w"
proof -
  have tail: "wp (if b then str_create_exclusive E p else str_create E p)
      (\<lambda>fd. wp (if vsf_sysutil_retval_is_error fd then vsf_cmdio_write E FTP_UPLOADFAIL ''Could not create file.''
        else store_upload E fd p c n) (\<lambda>_. rested E) (\<lambda>f _. external f)) (\<lambda>f _. external f) v"
    if "state E (False, True, True) v" for v b c n p
    using that by (cases b) (auto simp: wp_if intro!: file_rules(5,6) reply_rules store_rule restedI)
  have body: "wp (bnd (access_ok E p) (\<lambda>ok. if \<not> ok then denied E
      else bnd (gets is_anonymous) (\<lambda>anon. bnd (if anon \<and> c then str_create_exclusive E p else str_create E p) (\<lambda>fd.
        if vsf_sysutil_retval_is_error fd then vsf_cmdio_write E FTP_UPLOADFAIL ''Could not create file.''
        else store_upload E fd p (\<not> (anon \<and> c) \<and> n = 0) n)))) (\<lambda>_. rested E) (\<lambda>f _. external f) v"
    if "state E (False, True, True) v" for v c n p
    unfolding wp_bnd
    by (rule access_rule [OF that], subst wp_if, unfold wp_bnd wp_basic)
      (simp only: tail split: if_split, blast intro: reply_rules restedI)
  show ?thesis using assms unfolding handle_stor_def handle_upload_common_def Let_def wp_bnd wp_basic wp_thn wp_doif
    by (auto simp: wp_thn wp_bnd simp del: if_split intro!: checks_rule tilde_rule path_rules(1) log_path_rule body [unfolded wp_bnd] restedI)
qed

section \<open>The command loop\<close>

lemma visible_le: "0 < left \<Longrightarrow> visible k left inc \<le> left"
  by (cases inc) (simp_all add: visible_def)

lemma netfd_faults:
  "length buf + left = maxlen \<Longrightarrow> netfd_loop tm maxlen buf left sc inc = Inl f \<Longrightarrow> external f"
proof (induction left arbitrary: buf sc inc rule: less_induct)
  case (less left)
  have fits: "\<not> left < visible k left inc" if "0 < left" for k using visible_le [OF that] by (simp add: not_less)
  have step: "external f" if "netfd_loop tm (length buf + left) (buf @ take (visible k left inc) inc)
      (left - visible k left inc) ss i = Inl f" "0 < visible k left inc" "0 < left" for k ss i
  proof (rule less.IH [OF _ _ that(1) [unfolded less.prems(1)]])
    have "visible k left inc \<le> length inc" by (cases inc) (simp_all add: visible_def)
    then show "length (buf @ take (visible k left inc) inc) + (left - visible k left inc) = maxlen"
      using less.prems(1) visible_le [OF that(3)] by simp
  qed (use that in simp)
  from less.prems show ?case
    by (subst (asm) netfd_loop.simps)
      (auto simp: bug_fault Let_def fits intro: step split: if_splits prod.splits list.splits peek_result.splits)
qed

lemma getline_rule:
  assumes "state E k w" and "\<And>a w'. state E k w' \<Longrightarrow> Q a w'"
  shows "wp (control_getline E) Q (\<lambda>f _. external f) w"
proof -
  have line: "wp next_line (\<lambda>_. state E k) (\<lambda>f _. external f) w"
    using assms(1) netfd_faults [of "[]"]
    by (auto simp: wp_def next_line_def str_netfd_alloc_def split: sum.split prod.split)
  show ?thesis unfolding control_getline_def ftp_getline_def wp_bnd
    by (rule wp_mono [OF line])
      (auto simp: wp_simps handle_alarm_timeout_def intro!: exit_rule assms(2))
qed

lemma get_cmd_rule:
  assumes "state E k w" and "\<And>a w'. state E k w' \<Longrightarrow> Q a w'"
  shows "wp (vsf_cmdio_get_cmd_and_arg E b) Q (\<lambda>f _. external f) w"
  using assms(1) unfolding vsf_cmdio_get_cmd_and_arg_def vsf_cmdio_set_alarm_def
  by (auto simp: wp_simps case_prod_unfold Let_def split: option.split intro!: getline_rule exit_rule log_line_rule assms(2))

lemma conv_rule:
  assumes "state E k w" and "\<And>a w'. state E k w' \<Longrightarrow> Q a w'"
  shows "wp (cos_conv_gbk_2_utf E) Q (\<lambda>f _. external f) w"
proof -
  have "\<exists>b. IsUtf8 p = Inr b" for p
    using utf8_loop_total [of "cstr p" 0 0 0] by (auto simp: IsUtf8_def Let_def)
  then have utf8: "IsUtf8 p \<noteq> Inl f" for p f by (metis sum.distinct(1))
  show ?thesis using assms unfolding cos_conv_gbk_2_utf_def
    by (auto simp: wp_simps utf8 split: sum.split intro!: log_line_rule)
qed

lemma read_rule:
  assumes "state E k w" and "\<And>a w'. state E k w' \<Longrightarrow> Q a w'"
  shows "wp (read_command E) Q (\<lambda>f _. external f) w"
  using assms unfolding read_command_def
  by (auto simp: wp_simps split: prod.split intro!: get_cmd_rule conv_rule)

lemma after_rule:
  assumes "rested E w" and "\<And>a w'. state E (False, False, False) w' \<Longrightarrow> Q a w'"
  shows "wp (after_command E) Q (\<lambda>f _. external f) w"
proof -
  obtain pend where s: "state E (False, pend, False) w" using assms(1) by (auto simp: rested_def)
  then have "pend \<longleftrightarrow> log_type (sess w) \<noteq> None" by (auto simp: state.simps)
  with s show ?thesis unfolding after_command_def vsf_log_entry_pending_def
    by (cases pend) (auto simp: wp_simps intro!: do_log_rule exit_rule assms(2))
qed

lemma wp_ifI:
  "(b \<Longrightarrow> wp m Q X w) \<Longrightarrow> (\<not> b \<Longrightarrow> wp n Q X w) \<Longrightarrow> wp (if b then m else n) Q X w"
  by simp

lemma dispatch_rule:
  assumes "sorts E" and "state E (False, False, False) w"
  shows "wp (dispatch E s) (\<lambda>_. rested E) (\<lambda>f _. external f) w"
proof -
  note s = assms(2)
  have cdup: "wp (handle_cdup E) (\<lambda>_. rested E) (\<lambda>f _. external f) w"
    unfolding handle_cdup_def wp_thn wp_basic by (rule path_handlers(2)) (simp add: s)
  have say: "wp (vsf_cmdio_write E c t) (\<lambda>_. rested E) (\<lambda>f _. external f) w"
    "wp (denied E) (\<lambda>_. rested E) (\<lambda>f _. external f) w" "wp (ret ()) (\<lambda>_. rested E) (\<lambda>f _. external f) w" for c t
    using s by (auto simp: wp_basic intro!: reply_rules restedI)
  show ?thesis unfolding dispatch_def Let_def
    by (intro wp_ifI cdup say exit_rule simple_handlers [OF s] prot_handler [OF s] path_handlers [OF s]
        stat_handler [OF s] feat_handler [OF s] pasv_handler [OF s] port_handlers [OF s] retr_handler [OF s]
        dir_handlers [OF assms] stor_handler [OF s])
qed

lemma serve_rule:
  assumes "sorts E" and "state E (False, False, False) w"
  shows "wp (serve_command E) (\<lambda>_. state E (False, False, False)) (\<lambda>f _. external f) w"
  unfolding serve_command_def wp_steps wp_bnd wp_basic
  by (rule read_rule [OF assms(2)], rule wp_mono [OF dispatch_rule [OF assms(1)]], assumption)
    (auto simp: wp_basic intro!: after_rule)

text \<open>A request over HTTP ends the process.\<close>

lemma state_http [simp]:
  "state E k (w\<lparr>sess := (sess w)\<lparr>http_get_arg := a, ftp_cmd_str := b, ftp_arg_str := c\<rparr>\<rparr>) = state E k w"
  "state E k (w\<lparr>sess := (sess w)\<lparr>is_ascii := x, restart_pos := n\<rparr>\<rparr>) = state E k w"
  by (cases k; simp add: state.simps wired_def idle_def lfd_def target_ok_def named_def split: option.split)+

lemma headers_rule:
  "state E k w \<Longrightarrow> wp (http_headers E) (\<lambda>_. state E k) (\<lambda>f _. external f) w"
proof (induction E w rule: http_headers.induct)
  case (1 E w)
  have cmd: "wp (vsf_cmdio_get_cmd_and_arg E True) (\<lambda>_. state E k) (\<lambda>f _. external f) w"
    by (rule get_cmd_rule [OF 1(2)])
  have step: "wp (http_headers E) (\<lambda>_. state E k) (\<lambda>f _. external f) (v\<lparr>sess := (sess v)\<lparr>ftp_cmd_str := c, ftp_arg_str := g\<rparr>\<rparr>)"
    if "vsf_cmdio_get_cmd_and_arg E True w = (Inr (c, g), v)" "state E k v" "c \<noteq> [] \<or> g \<noteq> []" for v c g
    by (rule 1(1) [OF that(1) [symmetric] refl refl refl that(3)]) (simp add: that(2))
  show ?case using cmd
    by (subst wp_def, subst http_headers.simps)
      (auto simp: wp_def [of "vsf_cmdio_get_cmd_and_arg E True"] Let_def split: prod.splits sum.splits
        dest!: step [unfolded wp_def])
qed

lemma http_type_rule:
  assumes "state E k w" and "\<And>a w'. state E k w' \<Longrightarrow> Q a w'"
  shows "wp (http_type E) Q (\<lambda>f _. external f) w"
proof -
  have "state E k (w\<lparr>sess := (sess w)\<lparr>http_get_arg := a, ftp_cmd_str := b, ftp_arg_str := c\<rparr>\<rparr>)" for a b c
    using assms(1) by simp
  then show ?thesis
    unfolding http_type_def Let_def wp_bnd wp_basic case_prod_unfold wp_thn by (rule reply_rules(6)) (auto intro: assms(2))
qed

lemma http_retr_rule:
  assumes "state E (False, False, False) w"
  shows "wp (handle_retr E True) (\<lambda>_. rested E) (\<lambda>f _. external f) w"
proof -
  have "wp (send_file E True ascii offset arg fsize) (\<lambda>_. rested E) (\<lambda>f _. external f) v"
    if "state E (False, True, False) v" for ascii offset arg fsize v
    using that unfolding send_file_def
    by (auto simp: wp_simps Let_def closing_def vsf_sysutil_retval_is_error_def intro!: transfer_rule do_log_rule restedI)
  then show ?thesis using assms unfolding handle_retr_def
    by (auto simp: wp_basic wp_bnd wp_thn wp_if wp_doif
        intro!: reply_rules tilde_rule log_path_rule access_rule cos_rules(1) restedI)
qed

lemma http_rule:
  assumes "state E (False, False, False) w"
  shows "wp (handle_http E) Q (\<lambda>f _. external f) w"
proof -
  have close: "wp (bnd vsf_log_entry_pending (\<lambda>pending. doif pending (vsf_log_do_log E False)))
      (\<lambda>_ _. True) (\<lambda>f _. external f) v" if v: "rested E v" for v
  proof -
    obtain pend where s: "state E (False, pend, False) v" using v by (auto simp: rested_def)
    then have "pend \<longleftrightarrow> log_type (sess v) \<noteq> None" by (auto simp: state.simps)
    with s show ?thesis unfolding vsf_log_entry_pending_def
      by (cases pend) (auto simp: wp_bnd wp_doif wp_basic intro: do_log_rule)
  qed
  have retr: "wp (steps [upd (is_ascii_update (\<lambda>_. False)), upd (restart_pos_update (\<lambda>_. 0)), handle_retr E True,
      bnd vsf_log_entry_pending (\<lambda>pending. doif pending (vsf_log_do_log E False))])
      (\<lambda>_ _. True) (\<lambda>f _. external f) v" if "state E (False, False, False) v" for v
    unfolding wp_steps(2) wp_basic
    by (rule wp_mono [OF http_retr_rule]) (use that state_upd in \<open>auto intro!: wp_mono [OF close] simp: wp_basic\<close>)
  have head: "wp (steps [http_headers E, raw_line E ''HTTP/1.1 200 OK'', raw_line E ''Server: vsftpd'',
      raw_line E ''Connection: close'', raw_line E ''X-Frame-Options: SAMEORIGIN'',
      raw_line E ''X-Content-Type-Options: nosniff'', http_type E, raw_line E [],
      upd (is_ascii_update (\<lambda>_. False)), upd (restart_pos_update (\<lambda>_. 0)), handle_retr E True,
      bnd vsf_log_entry_pending (\<lambda>pending. doif pending (vsf_log_do_log E False))])
      (\<lambda>_ _. True) (\<lambda>f _. external f) w"
    unfolding wp_steps(2) [where m = "raw_line _ _"] wp_steps(2) [where m = "http_headers _"] wp_steps(2) [where m = "http_type _"]
    by (rule wp_mono [OF headers_rule [OF assms]]) (auto intro!: reply_rules(6) http_type_rule retr simp del: steps.simps)
  show ?thesis unfolding handle_http_def
    by (auto simp: wp_if wp_thn wp_basic bug_def simp del: steps.simps intro!: wp_mono [OF head])
qed

lemma start_rule:
  assumes "state E (False, False, False) w"
  shows "wp (start_session E) (\<lambda>_. state E (False, False, False)) (\<lambda>f _. external f) w"
proof -
  let ?sigurg = "bnd (gets control_use_ssl) (\<lambda>ssl. doif (tb E ''async_abor_enable'' \<and> \<not> ssl) (steps
        [emit (Sys ''vsf_sysutil_install_sighandler'' [''handle_sigurg''] [0]),
         or_die E (Sys ''activate_sigurg'' [] [0]) ''fcntl'']))"
  have sigurg: "wp ?sigurg Q (\<lambda>f _. external f) v"
    if "state E k v" "\<And>a v'. state E k v' \<Longrightarrow> Q a v'" for v k Q
    by (rule wp_state_talks [where P = "\<lambda>_. True", OF _ that]) (intro talks_intros; simp)
  have home: "wp (bnd (str_getcwd E) (\<lambda>cwd. upd (home_str_update (\<lambda>_. cwd)))) Q (\<lambda>f _. external f) v"
    if "state E k v" "\<And>a v'. state E k v' \<Longrightarrow> Q a v'" for v k Q
    using that by (auto simp: wp_simps intro!: path_rules(3))
  have rates: "wp (bnd (gets is_anonymous) (\<lambda>anon.
      if anon then steps [set_umask m, upd (bw_rate_max_update (\<lambda>_. r))]
      else steps [set_umask m', upd (bw_rate_max_update (\<lambda>_. r'))])) Q (\<lambda>f _. external f) v"
    if "state E k v" "\<And>a v'. state E k v' \<Longrightarrow> Q a v'" for v k m r m' r' Q
  proof -
    have "state E k (v\<lparr>trace := tr, sess := (sess v)\<lparr>bw_rate_max := x\<rparr>\<rparr>)" for tr x
      using that(1) by (simp only: state_trace state_upd)
    then show ?thesis using that by (auto simp: wp_simps set_umask_def)
  qed
  have http: "wp (bnd (gets is_http) (\<lambda>http. doif http (thn (handle_http E) (lift (bug ''should not be reached'')))))
      Q (\<lambda>f _. external f) v" if "state E (False, False, False) v" "\<And>a v'. state E (False, False, False) v' \<Longrightarrow> Q a v'" for v Q
    using that by (auto simp: wp_bnd wp_basic wp_doif wp_thn intro!: http_rule)
  show ?thesis unfolding start_session_def wp_steps(2) wp_basic
    by (rule home [where k = "(False, False, False)"], simp add: assms, rule rates, assumption, rule http, assumption,
        rule sigurg, assumption,
        rule dir_changed_rule, assumption, rule reply_rules(1), assumption) (simp add: wp_basic)
qed

end
