(* ===== verification/Admission.thy ===== *)
theory Admission
  imports Service Prelogin
begin

text \<open>
  Which logins succeed: the parent admits a name and a password only when the table of accounts lists
  them or when they are those of an anonymous user and such users are allowed; and what the fork after
  a login does to the session.
\<close>

section \<open>Faults of the readers\<close>

lemma getline_fault: "str_getline v p = Inl f \<Longrightarrow> external f"
  by (auto simp: str_getline_def bug_fault Let_def split: if_splits)

lemma contains_line_fault: "str_contains_line v l = Inl f \<Longrightarrow> external f"
proof -
  have "contains_line_loop v l p = Inl f \<Longrightarrow> external f" for p
  proof (induction v l p rule: contains_line_loop.induct)
    case (1 v l p)
    from 1(2) show ?case
      by (subst (asm) contains_line_loop.simps)
        (auto dest: getline_fault 1(1) split: sum.splits bool.splits if_splits prod.splits)
  qed
  then show "str_contains_line v l = Inl f \<Longrightarrow> external f" by (simp add: str_contains_line_def)
qed

lemma setting_fault: "vsf_parseconf_load_setting l b T = Inl f \<Longrightarrow> external f"
  by (auto simp: vsf_parseconf_load_setting_def load_bool_def die2_def bug_fault Let_def
      split: prod.splits option.splits if_splits)

lemma load_lines_fault: "load_lines v p b T = Inl f \<Longrightarrow> external f"
proof (induction v p b T rule: load_lines.induct)
  case (1 v p b T)
  from 1(3) show ?case
    by (subst (asm) load_lines.simps)
      (auto dest: getline_fault setting_fault 1(1,2) split: sum.splits bool.splits if_splits prod.splits)
qed

lemma load_file_fault: "vsf_parseconf_load_file rd ok p b st = Inl f \<Longrightarrow> external f"
  by (auto simp: vsf_parseconf_load_file_def die2_def bug_fault Let_def res_bind_Inl_iff dest: load_lines_fault
      split: prod.splits option.splits if_splits sum.splits)

lemma talks_user_config: "talks (\<lambda>_. True) external (handle_per_user_config E u)"
  unfolding handle_per_user_config_def load_config_def config_owner_ok_def vsf_sysutil_get_error_def Let_def
  by (auto intro!: talks_intros talks_fileread simp: bug_fault dest: load_file_fault split: prod.split)

section \<open>Who is admitted\<close>

text \<open>What a session brings to its login.\<close>

definition quiet :: "vsf_session \<Rightarrow> bool" where
  "quiet s \<longleftrightarrow> pasv_listen_fd s = - 1 \<and> p_port_sockaddr s = None \<and> data_fd s = - 1 \<and> log_type s = None \<and>
     cstr (remote_ip_str s) \<noteq> []"

definition anonymous_name :: "bytes \<Rightarrow> bool" where
  "anonymous_name user \<longleftrightarrow> v_upper user = ''FTP'' \<or> v_upper user = ''ANONYMOUS''"

text \<open>A name and a password that the parent accepts, with the session that results.\<close>

definition as_anonymous :: "env \<Rightarrow> bytes \<Rightarrow> vsf_session \<Rightarrow> bool" where
  "as_anonymous E user s \<longleftrightarrow> tb E ''anonymous_enable'' \<and> anonymous_name user \<and>
     user_str s = (case ts E ''ftp_username'' of None \<Rightarrow> [] | Some u \<Rightarrow> cstr u)"

definition as_user :: "env \<Rightarrow> bytes \<Rightarrow> bytes \<Rightarrow> vsf_session \<Rightarrow> bool" where
  "as_user E user pass s \<longleftrightarrow> tb E ''local_enable'' \<and> \<not> (tb E ''anonymous_enable'' \<and> anonymous_name user) \<and>
     cos_handle_login (ts E ''login_users'') user pass = Some (permissions s) \<and> user_str s = user"

definition admitted :: "env \<Rightarrow> bytes \<Rightarrow> bytes \<Rightarrow> vsf_session \<Rightarrow> bool" where
  "admitted E user pass s \<longleftrightarrow> acceptable user pass \<and> (as_anonymous E user s \<or> as_user E user pass s)"

definition verdict :: "env \<Rightarrow> bytes \<Rightarrow> bytes \<Rightarrow> EVSFPrivopLoginResult \<Rightarrow> vsf_session \<Rightarrow> bool" where
  "verdict E user pass r s \<longleftrightarrow> (case r of
       kVSFLoginNull \<Rightarrow> False
     | kVSFLoginFail \<Rightarrow> True
     | kVSFLoginAnon \<Rightarrow> acceptable user pass \<and> as_anonymous E user s
     | kVSFLoginReal \<Rightarrow> acceptable user pass \<and> as_user E user pass s)"

text \<open>The fields a login leaves alone.\<close>

definition kept :: "vsf_session \<Rightarrow> vsf_session \<Rightarrow> bool" where
  "kept s t \<longleftrightarrow> quiet t \<and> control_use_ssl t = control_use_ssl s \<and> login_fails t = login_fails s"

lemma username_rule:
  "(\<And>v. sess v = (sess w)\<lparr>user_str := u\<rparr> \<Longrightarrow> Q () v) \<Longrightarrow> wp (setup_username_globals E u) Q X w"
  by (rule wp_setup_username)

lemma handle_login_rule:
  assumes "quiet (sess w)"
  shows "wp (handle_login E user pass) (\<lambda>r v. verdict E user pass r (sess v) \<and> kept (sess w) (sess v))
    (\<lambda>f _. external f) w"
proof -
  note defs = verdict_def as_anonymous_def as_user_def kept_def quiet_def anonymous_name_def
  have "wp (handle_local_login E user pass) (\<lambda>r v. verdict E user pass r (sess v) \<and> kept (sess w) (sess v))
      (\<lambda>f _. external f) w"
    if "acceptable user pass" "tb E ''local_enable''" "\<not> (tb E ''anonymous_enable'' \<and> anonymous_name user)"
    using assms that by (auto simp: handle_local_login_def wp_simps defs split: option.split intro!: username_rule)
  moreover have "wp (handle_anonymous_login E pass) (\<lambda>r v. verdict E user pass r (sess v) \<and> kept (sess w) (sess v))
      (\<lambda>f _. external f) w" if "acceptable user pass" "tb E ''anonymous_enable''" "anonymous_name user"
    using assms that
    by (auto simp: handle_anonymous_login_def wp_simps defs Let_def dest: contains_line_fault
        split: sum.split intro!: username_rule)
  moreover have "wp (ret kVSFLoginFail) (\<lambda>r v. verdict E user pass r (sess v) \<and> kept (sess w) (sess v)) (\<lambda>f _. external f) w"
    using assms by (simp add: wp_basic defs)
  ultimately show ?thesis
    by (auto simp: handle_login_def wp_simps Let_def bug_def die_def anonymous_name_def)
qed

lemma do_login_rule:
  assumes "quiet (sess w)"
  shows "wp (vsf_privop_do_login E pass)
    (\<lambda>r v. verdict E (user_str (sess w)) pass r (sess v) \<and> kept (sess w) (sess v)) (\<lambda>f _. external f) w"
  unfolding vsf_privop_do_login_def wp_bnd wp_basic wp_thn
  by (rule wp_mono [OF handle_login_rule [OF assms]], rule log_login_wp)
    (auto simp: verdict_def as_anonymous_def as_user_def kept_def quiet_def wp_basic split: EVSFPrivopLoginResult.split)

section \<open>The fork after a login\<close>

lemma wp_send_result:
  "channel_ok E \<Longrightarrow> wp (priv_sock_send_result E Parent c) Q X w = Q () (w\<lparr>down := down w @ [Byte (char_of c)]\<rparr>)"
  by (simp add: wp_def channel_sends)

lemma yields_config: "yields (\<lambda>E'. \<exists>T. E' = E\<lparr>tun := T\<rparr>) (handle_per_user_config E u)"
proof -
  have same: "\<exists>T. E = E\<lparr>tun := T\<rparr>" by (rule exI [of _ "tun E"]) simp
  have load: "yields (\<lambda>E'. \<exists>T. E' = E\<lparr>tun := T\<rparr>) (load_config E f)" for f
    unfolding load_config_def by (intro yields_rules(2) yields_rules(4) yields_rules(1)) blast
  have raised: "yields P (lift (die m))" for P :: "env \<Rightarrow> bool" and m
    by (simp add: yields_def lift_def die_def bug_def)
  show ?thesis unfolding handle_per_user_config_def Let_def
    by (auto split: option.split intro!: yields_rules(1-3) load raised same)
qed

lemma talks_credentials: "talks (\<lambda>_. True) external (vsf_secutil_change_credentials E u d x c os)"
  unfolding vsf_secutil_change_credentials_def str_chdir_def die2_def
  by (auto intro!: talks_intros talks_mkdirs simp: bug_fault)

lemma talks_fork: "talks (\<lambda>_. True) external (fork_child E b)"
  unfolding fork_child_def by (auto intro!: talks_intros simp: bug_fault)

lemma child_rule:
  assumes "\<And>g a es. Q ((sess w)\<lparr>is_guest := g, is_anonymous := a\<rparr>) (w\<lparr>trace := es\<rparr>)"
  shows "wp (post_login_child E u c anon) Q (\<lambda>f _. external f) w"
proof (cases "root_of E")
  case (Inl f)
  then show ?thesis using root_external [OF Inl] by (simp add: post_login_child_def Let_def wp_basic wp_bnd)
next
  case (Inr rc)
  then show ?thesis unfolding post_login_child_def Let_def case_prod_unfold wp_bnd wp_basic Inr sum.case wp_thn wp_steps
    by (intro wp_talking [OF talks_credentials]) (simp, rule assms)
qed

lemma common_login_rule:
  assumes "channel_ok E"
    and "\<And>T s v x y g a. sess v = (sess w)\<lparr>ssl_slave_active := x, is_anonymous := y\<rparr> \<Longrightarrow>
      s = (sess v)\<lparr>is_guest := g, is_anonymous := a\<rparr> \<Longrightarrow> parent v = parent w \<Longrightarrow> up v = up w \<Longrightarrow>
      down v = down w @ [Byte (char_of PRIV_SOCK_RESULT_OK)] \<Longrightarrow> Q (E\<lparr>tun := T\<rparr>, s) v"
  shows "wp (common_do_login E u c anon) Q (\<lambda>f _. external f) w"
proof -
  have tail: "wp (thn (steps [upd (is_anonymous_update (\<lambda>_. anon)), emit (Sys ''priv_sock_close'' [] []),
        or_die E' (Sys ''socketpair'' [] []) ''socketpair'',
        emit (Sys ''vsf_sysutil_install_sighandler'' [''handle_sigchld''] [1]),
        fork_child E' (tb E' ''isolate_network'' \<and> \<not> tb E' ''port_promiscuous'')])
      (bnd (post_login_child E' u c anon) (\<lambda>s. ret (E', s)))) Q (\<lambda>f _. external f) v"
    if "E' = E\<lparr>tun := T\<rparr>" "sess v = (sess w)\<lparr>ssl_slave_active := x\<rparr>" "parent v = parent w" "up v = up w"
      "down v = down w @ [Byte (char_of PRIV_SOCK_RESULT_OK)]" for E' T v x
    unfolding wp_thn wp_steps wp_basic wp_bnd
    by (intro wp_talking [OF talks_or_die] wp_talking [OF talks_fork] child_rule)
      (use that in \<open>auto simp: wp_basic intro!: assms(2)\<close>)
  have config: "wp (handle_per_user_config E u) (\<lambda>E' v'. (\<exists>T. E' = E\<lparr>tun := T\<rparr>) \<and> (\<exists>es. v' = v\<lparr>trace := es\<rparr>))
      (\<lambda>f _. external f) v" for v
    by (rule wp_mono [OF yields_wp [OF yields_config wp_talking [OF talks_user_config, where Q = "\<lambda>_ v'. \<exists>es. v' = v\<lparr>trace := es\<rparr>"]]]) auto
  let ?sent = "\<lambda>v. (\<exists>x. sess v = (sess w)\<lparr>ssl_slave_active := x\<rparr>) \<and> parent v = parent w \<and> up v = up w \<and>
    down v = down w @ [Byte (char_of PRIV_SOCK_RESULT_OK)]"
  have own: "\<exists>x. sess w = (sess w)\<lparr>ssl_slave_active := x\<rparr>" by (rule exI [of _ "ssl_slave_active (sess w)"]) simp
  have head: "wp (steps [emit (Sys ''vsf_sysutil_install_null_sighandler'' [] []),
      priv_sock_send_result E Parent PRIV_SOCK_RESULT_OK,
      bnd (gets control_use_ssl) (\<lambda>ssl.
        if \<not> ssl then emit (Sys ''vsf_sysutil_wait'' [] []) else upd (ssl_slave_active_update (\<lambda>_. True)))])
      (\<lambda>_. ?sent) (\<lambda>f _. external f) w"
    using assms(1) own by (auto simp: wp_steps wp_basic wp_send_result wp_bnd wp_if simp del: steps.simps)
  show ?thesis unfolding common_do_login_def wp_thn [of "steps _" "bnd _ _"] wp_bnd [of "handle_per_user_config _ _"]
    by (rule wp_mono [OF head], rule wp_mono [OF config]) (auto intro!: tail [unfolded wp_thn] simp: wp_thn simp del: steps.simps)
qed

end
