(* ===== verification/Entry.thy ===== *)
theory Entry
  imports Admission
begin

text \<open>
  From the start of a process to its session: a successful login puts the session into the state of
  \<open>Session\<close>, so that the properties of the command loop hold from the first byte of a connection on.
\<close>

section \<open>The login request\<close>

definition login_request :: "bytes \<Rightarrow> bytes \<Rightarrow> bool \<Rightarrow> bool \<Rightarrow> wire_item list" where
  "login_request user pass c d =
     Byte (char_of PRIV_SOCK_LOGIN) # map Byte (enc32 (word_of_nat (length user))) @ map Byte user @
     map Byte (enc32 (word_of_nat (length pass))) @ map Byte pass @
     map Byte (enc32 (word_of_int (if c then 1 else 0))) @ map Byte (enc32 (word_of_int (if d then 1 else 0)))"

lemma send_str:
  "channel_ok E \<Longrightarrow> priv_sock_send_str E Child p w =
     (Inr (), w\<lparr>up := up w @ map Byte (enc32 (word_of_nat (length p))) @ map Byte p\<rparr>)"
  by (auto simp: priv_sock_send_str_def channel_sends thn_def bnd_def doif_def ask_def put_items_def channel_ok_def ret_def
      linorder_not_le [symmetric])

lemma get_str:
  assumes "length p \<le> VSFTP_PRIVSOCK_MAXSTR"
  shows "priv_sock_get_str Parent (w\<lparr>up := map Byte (enc32 (word_of_nat (length p))) @ map Byte p @ r\<rparr>) =
    (Inr p, w\<lparr>up := r\<rparr>)"
proof -
  have n: "unat (word_of_nat (length p) :: 32 word) = length p"
    using assms by (simp add: VSFTP_PRIVSOCK_MAXSTR_def unat_of_nat)
  show ?thesis using assms
    by (cases "p = []") (simp_all add: priv_sock_get_str_def channel_gets bnd_def Let_def n sock_read_def ret_def)
qed

lemma login_sent:
  assumes "channel_ok E" and "idle w"
  shows "steps [priv_sock_send_cmd E Child PRIV_SOCK_LOGIN, priv_sock_send_str E Child user,
      priv_sock_send_str E Child pass, priv_sock_send_int E Child (if c then 1 else 0),
      priv_sock_send_int E Child (if d then 1 else 0)] w = (Inr (), w\<lparr>up := login_request user pass c d\<rparr>)"
  using assms by (simp add: send_str channel_sends bnd_def ret_def login_request_def idle_def)

text \<open>The outcome of a request: the message that goes back, and the new session.\<close>

definition login_outcome :: "env \<Rightarrow> bytes \<Rightarrow> bytes \<Rightarrow> bool \<Rightarrow> (env \<times> vsf_session) option \<Rightarrow> world \<Rightarrow> bool" where
  "login_outcome E user pass c r v \<longleftrightarrow> quiet (sess v) \<and> up v = [] \<and>
     (case r of
        None \<Rightarrow> down v = [Byte (char_of PRIV_SOCK_RESULT_BAD)]
      | Some (E', s) \<Rightarrow> down v = [Byte (char_of PRIV_SOCK_RESULT_OK)] \<and> (\<exists>T. E' = E\<lparr>tun := T\<rparr>) \<and>
          admitted E user pass s \<and> quiet s \<and> control_use_ssl s = (tb E ''ssl_enable'' \<and> c))"

lemma request_read:
  assumes "length user \<le> VSFTP_PRIVSOCK_MAXSTR" and "length pass \<le> VSFTP_PRIVSOCK_MAXSTR"
  shows "wp (process_login_req E) Q X (w\<lparr>up := login_request user pass c d\<rparr>) =
    wp (bnd (vsf_privop_do_login E pass) (\<lambda>e_login_result.
        case e_login_result of
          kVSFLoginFail \<Rightarrow> thn (priv_sock_send_result E Parent PRIV_SOCK_RESULT_BAD) (ret None)
        | kVSFLoginAnon \<Rightarrow>
            let name = (case ts E ''ftp_username'' of None \<Rightarrow> [] | Some u \<Rightarrow> cstr u) in
            thn (upd (user_str_update (\<lambda>_. name)))
            (bnd (common_do_login E name True True) (\<lambda>r. ret (Some r)))
        | kVSFLoginReal \<Rightarrow>
            bnd (gets user_str) (\<lambda>name.
            bnd (confined E name) (\<lambda>do_chroot.
            bnd (common_do_login E name do_chroot False) (\<lambda>r. ret (Some r))))
        | kVSFLoginNull \<Rightarrow> lift (bug ''weird state in process_login_request''))) Q X
      (w\<lparr>up := [], sess := (sess w)\<lparr>user_str := user, control_use_ssl := tb E ''ssl_enable'' \<and> c,
         data_use_ssl := tb E ''ssl_enable'' \<and> d\<rparr>\<rparr>)"
proof -
  have flag: "(sint (word_of_int (if b then 1 else 0) :: 32 word) \<noteq> 0) = b" for b by simp
  show ?thesis
    by (simp only: wp_def process_login_req_def bnd_def login_request_def)
      (simp add: channel_gets get_str assms PRIV_SOCK_LOGIN_def thn_def bnd_def upd_def flag)
qed

lemma confined_rule:
  assumes "\<And>b es. Q b (w\<lparr>trace := es\<rparr>)"
  shows "wp (confined E u) Q (\<lambda>f _. external f) w"
proof -
  have "talks (\<lambda>_. True) external (confined E u)"
    unfolding confined_def die2_def
    by (auto intro!: talks_intros talks_fileread simp: bug_fault dest: contains_line_fault split: option.split)
  then show ?thesis by (rule wp_talking) (rule assms)
qed

context outside
begin

lemma keeps_talking: "talks P F m \<Longrightarrow> keeps I m"
  by (rule keeps_wp) (auto intro!: wp_talks [of P F m] simp: trace_free)

lemma keeps_logging: "keeps I (vsf_log_start_entry E what)" "keeps I (vsf_log_do_log E ok)"
proof -
  have line: "talks (\<lambda>_. True) (\<lambda>_. True) (vsf_log_do_log_vsftpd_format E b what l)" for b what l
    unfolding vsf_log_do_log_vsftpd_format_def by (cases "entry_name what") (auto intro!: talks_intros)
  have "talks (\<lambda>_. True) (\<lambda>_. True) (vsf_log_common E b what l)" for b what l
    unfolding vsf_log_common_def by (auto intro!: talks_intros line talks_mono [OF talks_log_file])
  then have "keeps I (vsf_log_common E b what l)" for b what l by (rule keeps_talking)
  then show "keeps I (vsf_log_start_entry E what)" "keeps I (vsf_log_do_log E ok)"
    unfolding vsf_log_start_entry_def vsf_log_do_log_def Let_def by (auto intro!: keeps_intros)
qed

lemma keeps_login: "keeps I (vsf_privop_do_login E pass)"
  unfolding vsf_privop_do_login_def handle_login_def handle_anonymous_login_def handle_local_login_def
    setup_username_globals_def log_login_def Let_def
  by (auto intro!: keeps_intros keeps_logging)

end

lemma login_rule:
  assumes "quiet (sess w)" and "idle w"
  shows "wp (vsf_privop_do_login E pass)
    (\<lambda>r v. verdict E (user_str (sess w)) pass r (sess v) \<and> kept (sess w) (sess v) \<and> idle v \<and> parent v = parent w)
    (\<lambda>f _. external f) w"
  using wp_keeps [OF beside.keeps_login [where R = "\<lambda>p. p = parent w"] refl
      wp_keeps [OF wires.keeps_login assms(2) do_login_rule [OF assms(1)]]]
  by (auto elim: wp_mono)

lemma request_rule:
  assumes "channel_ok E" and "idle w" and "quiet (sess w)"
    and "length user \<le> VSFTP_PRIVSOCK_MAXSTR" and "length pass \<le> VSFTP_PRIVSOCK_MAXSTR"
  shows "wp (process_login_req E) (\<lambda>r v. login_outcome E user pass c r v \<and> parent v = parent w) (\<lambda>f _. external f)
    (w\<lparr>up := login_request user pass c d\<rparr>)"
proof -
  let ?s = "(sess w)\<lparr>user_str := user, control_use_ssl := tb E ''ssl_enable'' \<and> c, data_use_ssl := tb E ''ssl_enable'' \<and> d\<rparr>"
  let ?w = "w\<lparr>up := [], sess := ?s\<rparr>" and ?Q = "\<lambda>r v. login_outcome E user pass c r v \<and> parent v = parent w"
  have w: "quiet (sess ?w)" "idle ?w" using assms(2,3) by (simp_all add: quiet_def idle_def)
  have common: "wp (bnd (common_do_login E u b a) (\<lambda>r. ret (Some r))) ?Q (\<lambda>f _. external f) v"
    if "admitted E user pass (sess v)" "quiet (sess v)" "control_use_ssl (sess v) = (tb E ''ssl_enable'' \<and> c)"
      "idle v" "parent v = parent w" for u b a v
    unfolding wp_bnd using that
    by (intro common_login_rule [OF assms(1)])
      (auto simp: wp_basic login_outcome_def idle_def quiet_def admitted_def as_user_def as_anonymous_def)
  have "wp (case r of
          kVSFLoginFail \<Rightarrow> thn (priv_sock_send_result E Parent PRIV_SOCK_RESULT_BAD) (ret None)
        | kVSFLoginAnon \<Rightarrow>
            let name = (case ts E ''ftp_username'' of None \<Rightarrow> [] | Some u \<Rightarrow> cstr u) in
            thn (upd (user_str_update (\<lambda>_. name)))
            (bnd (common_do_login E name True True) (\<lambda>r. ret (Some r)))
        | kVSFLoginReal \<Rightarrow>
            bnd (gets user_str) (\<lambda>name.
            bnd (confined E name) (\<lambda>do_chroot.
            bnd (common_do_login E name do_chroot False) (\<lambda>r. ret (Some r))))
        | kVSFLoginNull \<Rightarrow> lift (bug ''weird state in process_login_request'')) ?Q (\<lambda>f _. external f) v"
    if v: "verdict E user pass r (sess v)" "kept ?s (sess v)" "idle v" "parent v = parent w" for r v
  proof (cases r)
    case kVSFLoginReal
    show ?thesis unfolding kVSFLoginReal EVSFPrivopLoginResult.case wp_bnd [of "gets _"] wp_bnd [of "confined _ _"] wp_basic
      by (rule confined_rule, rule common)
        (use v kVSFLoginReal in \<open>simp_all add: verdict_def admitted_def kept_def idle_def\<close>)
  next
    case kVSFLoginAnon
    show ?thesis unfolding kVSFLoginAnon EVSFPrivopLoginResult.case Let_def wp_thn [of "upd _"] wp_basic
      by (rule common)
        (use v kVSFLoginAnon in \<open>simp_all add: verdict_def admitted_def as_anonymous_def kept_def quiet_def idle_def\<close>)
  qed (use v assms(1) in \<open>auto simp: verdict_def kept_def idle_def wp_thn wp_basic wp_send_result login_outcome_def\<close>)
  then show ?thesis unfolding request_read [OF assms(4,5)] wp_bnd [of "vsf_privop_do_login _ _"]
    by (intro wp_mono [OF login_rule [OF w]]) auto
qed

section \<open>Logging in\<close>

text \<open>What both processes of a connection keep until the user is logged in.\<close>

definition waiting :: "env \<Rightarrow> world \<Rightarrow> bool" where
  "waiting E w \<longleftrightarrow> wired E w \<and> quiet (sess w) \<and> (tb E ''one_process_model'' \<or> quiet (parent w))"

text \<open>A login that succeeded: who it is, and the state the session starts in.\<close>

definition entered :: "env \<Rightarrow> bytes \<Rightarrow> bytes \<Rightarrow> bool \<Rightarrow> env \<Rightarrow> world \<Rightarrow> bool" where
  "entered E user pass ssl E' w \<longleftrightarrow> (\<exists>T. E' = E\<lparr>tun := T\<rparr>) \<and> admitted E user pass (sess w) \<and>
     quiet (sess w) \<and> (tb E ''one_process_model'' \<and> E' = E \<or> quiet (parent w) \<and> idle w \<and> channel_ok E) \<and>
     (control_use_ssl (sess w) \<longrightarrow> ssl) \<and> (ssl \<and> tb E ''ssl_enable'' \<longrightarrow> control_use_ssl (sess w))"

lemma wp_on_parent: "wp (on_parent m) Q X w = wp m (\<lambda>a v. Q a (swap v)) (\<lambda>f v. X f (swap v)) (swap w)"
  by (simp add: wp_def on_parent_def split: prod.split sum.split)

lemma wp_get_result:
  assumes "c = PRIV_SOCK_RESULT_OK \<or> c = PRIV_SOCK_RESULT_BAD" and "down w = [Byte (char_of c)]"
  shows "wp (priv_sock_get_result Child) Q X w = Q c (w\<lparr>down := []\<rparr>)"
proof -
  have "w\<lparr>down := down w\<rparr> = w" by simp
  then have "w\<lparr>down := [Byte (char_of c)]\<rparr> = w" unfolding assms(2) .
  moreover have "c < 256" using assms(1) by (auto simp: priv_sock_codes)
  ultimately show ?thesis using channel_gets(2) [where c = c and w = w and r = "[]"] by (simp add: wp_def)
qed

lemma wp_take_over: "wp (take_over s) Q X w = Q () (w\<lparr>sess := s, up := [], down := []\<rparr>)"
  by (simp add: wp_def take_over_def)

lemma two_login_rule:
  assumes "channel_ok E" and "idle w" and "quiet (sess w)" and "quiet (parent w)"
    and "length (user_str (sess w)) \<le> VSFTP_PRIVSOCK_MAXSTR" and "length pass \<le> VSFTP_PRIVSOCK_MAXSTR"
  shows "wp (vsf_two_process_login E pass)
    (\<lambda>r v. case r of None \<Rightarrow> sess v = sess w \<and> quiet (parent v) \<and> idle v
       | Some E' \<Rightarrow> entered E (user_str (sess w)) pass (control_use_ssl (sess w)) E' v)
    (\<lambda>f _. external f) w"
proof -
  let ?u = "user_str (sess w)" and ?c = "control_use_ssl (sess w)" and ?d = "data_use_ssl (sess w)"
  have sent: "wp (steps [priv_sock_send_cmd E Child PRIV_SOCK_LOGIN, priv_sock_send_str E Child ?u,
      priv_sock_send_str E Child pass, priv_sock_send_int E Child (if ?c then 1 else 0),
      priv_sock_send_int E Child (if ?d then 1 else 0)]) Q X w = Q () (w\<lparr>up := login_request ?u pass ?c ?d\<rparr>)" for Q X
    using login_sent [OF assms(1,2)] by (simp add: wp_def)
  have p: "idle (swap w)" "quiet (sess (swap w))" using assms(2,4) by simp_all
  have asked: "wp (on_parent (process_login_req E)) (\<lambda>r v. login_outcome E ?u pass ?c r (swap v) \<and> sess v = sess w)
      (\<lambda>f _. external f) (w\<lparr>up := login_request ?u pass ?c ?d\<rparr>)"
    unfolding wp_on_parent using request_rule [OF assms(1) p assms(5,6)] by (auto elim!: wp_mono)
  show ?thesis unfolding vsf_two_process_login_def wp_bnd [of "gets _"] wp_basic case_prod_conv wp_thn sent wp_bnd
  proof (rule wp_mono [OF asked], goal_cases)
    case (1 r v)
    then show ?case using assms(1)
      by (cases r) (auto simp: login_outcome_def wp_get_result [OF disjI1 [OF refl]] wp_get_result [OF disjI2 [OF refl]]
          wp_basic PRIV_SOCK_RESULT_OK_def PRIV_SOCK_RESULT_BAD_def wp_take_over wp_thn entered_def idle_def)
  qed
qed

text \<open>One assertion depends on the configuration: the one-process model has no code for local users.\<close>

definition excused :: "env \<Rightarrow> fault \<Rightarrow> bool" where
  "excused E f \<longleftrightarrow> external f \<or>
     tb E ''one_process_model'' \<and> tb E ''local_enable'' \<and> f = Oops ''bad state in vsf_one_process_login''"

lemma excused_assertions:
  "excused E f \<Longrightarrow> f \<noteq> Endless ''port_active'' \<and> f \<noteq> Endless ''pasv_active'' \<and>
    (\<forall>m \<in> set assertion_messages. f = Oops m \<longrightarrow>
       m = ''bad state in vsf_one_process_login'' \<and> tb E ''one_process_model'' \<and> tb E ''local_enable'')"
  by (cases f) (auto simp: excused_def simp del: assertion_messages_def)

lemma excusing: "wp m Q (\<lambda>f _. external f) w \<Longrightarrow> wp m Q (\<lambda>f _. excused E f) w"
  by (erule wp_mono) (simp_all add: excused_def)

lemma one_login_rule:
  assumes "tb E ''one_process_model''" and "quiet (sess w)"
  shows "wp (vsf_one_process_login E pass)
    (\<lambda>r v. case r of None \<Rightarrow> kept (sess w) (sess v)
       | Some E' \<Rightarrow> entered E (user_str (sess w)) pass (control_use_ssl (sess w)) E' v)
    (\<lambda>f _. excused E f) w"
proof -
  have same: "\<exists>T. E = E\<lparr>tun := T\<rparr>" by (rule exI [of _ "tun E"]) simp
  show ?thesis unfolding vsf_one_process_login_def wp_bnd
    by (rule wp_mono [OF do_login_rule [OF assms(2)]])
      (auto simp: excused_def verdict_def as_user_def wp_simps bug_def kept_def entered_def admitted_def as_anonymous_def quiet_def assms(1) same
        split: EVSFPrivopLoginResult.splits)
qed

section \<open>Reading a command\<close>

text \<open>What reading changes: the stream, the trace and the mark of the alarm.\<close>

definition only_read :: "world \<Rightarrow> world \<Rightarrow> bool" where
  "only_read w v \<longleftrightarrow> parent v = parent w \<and> up v = up w \<and> down v = down w \<and>
     (\<exists>x. sess v = (sess w)\<lparr>idle_timeout := x\<rparr>)"

lemma only_read_refl: "only_read w (w\<lparr>trace := es\<rparr>)" "only_read w (w\<lparr>sched := sc, incoming := i\<rparr>)"
  by (auto simp: only_read_def intro: exI [of _ "idle_timeout (sess w)"])

lemma only_timeout [simp]:
  "\<exists>y. (s :: vsf_session)\<lparr>idle_timeout := x\<rparr> = s\<lparr>idle_timeout := y\<rparr>" by blast

lemma only_read_trace [simp]: "only_read w (v\<lparr>trace := es\<rparr>) = only_read w v"
  by (simp add: only_read_def)

lemma netfd_length:
  "netfd_loop tm maxlen buf left sc inc = Inr (r, l, sc', inc') \<Longrightarrow> length l \<le> maxlen"
proof (induction left arbitrary: maxlen buf sc inc rule: less_induct)
  case (less left)
  have step: "length l \<le> m"
    if "netfd_loop tm m b (left - n) ss i = Inr (r, l, sc', inc')" "0 < n" "left \<noteq> 0" for m b n ss i
    by (rule less.IH [OF _ that(1)]) (use that in simp)
  have some: "length (takeWhile P (buf @ take (visible k left inc) inc)) \<le> length buf + left" if "left \<noteq> 0" for P k
  proof -
    have "visible k left inc \<le> left" using that by (auto simp: visible_def max_def min_def)
    then have "length (buf @ take (visible k left inc) inc) \<le> length buf + left" by simp
    then show ?thesis using length_takeWhile_le le_trans by blast
  qed
  from less.prems show ?case
    by (subst (asm) netfd_loop.simps)
      (auto simp: bug_def Let_def intro: step some split: if_splits prod.splits list.splits peek_result.splits)
qed

lemma strip_cr_length: "length (strip_cr l) \<le> length l"
  by (induction l) auto

lemma split_command_length: "length (snd (split_command l)) \<le> length l"
  using v_split_text_shorter [of l "[CHR '' '', NUL]"]
  by (cases "snd (v_split_text l [CHR '' '', NUL]) = []")
    (auto simp: split_command_def v_split_char_def Let_def split: prod.split)

lemma getline_reads:
  "wp (control_getline E) (\<lambda>l v. only_read w v \<and> (\<forall>t. l = Some t \<longrightarrow> length t \<le> VSFTP_MAX_COMMAND_LINE))
    (\<lambda>f _. external f) w"
proof -
  have line: "wp next_line (\<lambda>(r, l, _) v. only_read w v \<and> length l \<le> VSFTP_MAX_COMMAND_LINE) (\<lambda>f _. external f) w"
    by (auto simp: wp_def next_line_def str_netfd_alloc_def only_read_refl dest: netfd_faults [rotated] netfd_length split: sum.split prod.split)
  have strip: "length (strip_cr (rev (v_replace_char l NUL LF))) \<le> n" if "length l \<le> n" for l n
    using strip_cr_length [of "rev (v_replace_char l NUL LF)"] that by (simp add: v_replace_char_def)
  show ?thesis unfolding control_getline_def ftp_getline_def wp_bnd
    by (rule wp_mono [OF line])
      (auto simp: wp_simps handle_alarm_timeout_def only_read_def strip intro!: exit_rule)
qed

lemma get_cmd_reads:
  "wp (vsf_cmdio_get_cmd_and_arg E b) (\<lambda>(c, g) v. only_read w v \<and> length g \<le> VSFTP_MAX_COMMAND_LINE) (\<lambda>f _. external f) w"
proof -
  have alarm: "talks (\<lambda>_. True) external (doif b (vsf_cmdio_set_alarm E))"
    unfolding vsf_cmdio_set_alarm_def by (intro talks_intros; simp)
  have logged: "talks (\<lambda>_. True) external (doif c (vsf_log_line E kVSFLogEntryFTPInput t))" for c t
    by (rule talks_any [where P = is_log]) (intro talks_intros, simp)
  show ?thesis unfolding vsf_cmdio_get_cmd_and_arg_def wp_thn wp_bnd
    by (rule wp_talking [OF alarm], rule wp_mono [OF getline_reads])
      (auto simp: wp_basic wp_thn wp_if Let_def case_prod_unfold only_read_def split: option.split
        intro!: exit_rule wp_talking [OF logged] intro: le_trans [OF split_command_length])
qed

section \<open>The states before a login\<close>

text \<open>A login that must be encrypted.\<close>

definition forced :: "env \<Rightarrow> bytes \<Rightarrow> bool" where
  "forced E user \<longleftrightarrow> tb E ''ssl_enable'' \<and>
     (if anonymous_name user then tb E ''force_anon_logins_ssl'' \<and> tb E ''ftp_enable'' else tb E ''force_local_logins_ssl'')"

definition prelogin :: "env \<Rightarrow> world \<Rightarrow> bool" where
  "prelogin E w \<longleftrightarrow> waiting E w \<and> length (user_str (sess w)) \<le> VSFTP_MAX_COMMAND_LINE \<and>
     (login_fails (sess w) < tu E ''max_login_fails'' \<or> login_fails (sess w) = 0) \<and>
     (user_str (sess w) \<noteq> [] \<and> forced E (user_str (sess w)) \<longrightarrow> control_use_ssl (sess w))"

text \<open>The outcome of a command: the connection still waits, or a user that may log in has done so.\<close>

definition arrived :: "env \<Rightarrow> env option \<Rightarrow> world \<Rightarrow> bool" where
  "arrived E r w \<longleftrightarrow> (case r of None \<Rightarrow> prelogin E w
     | Some E' \<Rightarrow> \<exists>user pass ssl. entered E user pass ssl E' w \<and> (forced E user \<longrightarrow> control_use_ssl (sess w)))"

lemma prelogin_simps [simp]:
  "prelogin E (w\<lparr>trace := es\<rparr>) = prelogin E w"
  "prelogin E (w\<lparr>sess := ftp_arg_str_update g (sess w)\<rparr>) = prelogin E w"
  "prelogin E (w\<lparr>sess := (sess w)\<lparr>ftp_cmd_str := c, ftp_arg_str := a\<rparr>\<rparr>) = prelogin E w"
  "prelogin E (w\<lparr>sess := data_use_ssl_update b (sess w)\<rparr>) = prelogin E w"
  "prelogin E (w\<lparr>sess := userlist_str_update h (sess w)\<rparr>) = prelogin E w"
  "prelogin E (w\<lparr>sess := banner_str_update h (sess w)\<rparr>) = prelogin E w"
  "prelogin E (w\<lparr>trace := es, sess := s\<rparr>) = prelogin E (w\<lparr>sess := s\<rparr>)"
  by (simp_all add: prelogin_def waiting_def wired_def idle_def quiet_def)

lemma prelogin_forgets:
  "prelogin E w \<Longrightarrow> prelogin E (w\<lparr>sess := (sess w)\<lparr>user_str := []\<rparr>\<rparr>)"
  "prelogin E w \<Longrightarrow> prelogin E (w\<lparr>sess := (sess w)\<lparr>control_use_ssl := True\<rparr>\<rparr>)"
  by (simp_all add: prelogin_def waiting_def wired_def idle_def quiet_def)

lemma prelogin_talks:
  assumes "talks P external m" and "prelogin E w" and "\<And>a v. prelogin E v \<Longrightarrow> Q a v"
  shows "wp m Q (\<lambda>f _. external f) w"
  by (rule wp_talking [OF talks_any [OF assms(1)]]) (simp add: assms(2,3))

lemma only_read_prelogin: "prelogin E w \<Longrightarrow> only_read w v \<Longrightarrow> prelogin E v"
  unfolding only_read_def by (elim exE conjE) (simp add: prelogin_def waiting_def wired_def idle_def quiet_def)

lemma fails_rule:
  assumes "login_fails (sess w) + 1 < tu E ''max_login_fails'' \<Longrightarrow> Q () (w\<lparr>sess := login_fails_update (\<lambda>n. n + 1) (sess w)\<rparr>)"
  shows "wp (check_login_fails E) Q (\<lambda>f _. external f) w"
  unfolding check_login_fails_def by (auto simp: wp_simps vsf_sysutil_exit_def not_le intro!: assms)

text \<open>What follows a name that was refused.\<close>

definition unnamed :: "world \<Rightarrow> world" where
  "unnamed w = w\<lparr>sess := (sess w)\<lparr>user_str := []\<rparr>\<rparr>"

lemma unnamed_simps [simp]:
  "prelogin E (unnamed (w\<lparr>trace := es\<rparr>)) = prelogin E (unnamed w)"
  "user_str (sess (unnamed w)) = []" "login_fails (sess (unnamed w)) = login_fails (sess w)"
  by (simp_all add: unnamed_def prelogin_def waiting_def wired_def idle_def quiet_def)

lemma unnamed_fails:
  "prelogin E (unnamed w) \<Longrightarrow> login_fails (sess w) + 1 < tu E ''max_login_fails'' \<Longrightarrow>
    prelogin E (unnamed (w\<lparr>sess := login_fails_update (\<lambda>n. n + 1) (sess w)\<rparr>))"
  by (simp add: unnamed_def prelogin_def waiting_def wired_def idle_def quiet_def)

lemma failed_rule:
  assumes "prelogin E (unnamed w)" and "\<And>v. prelogin E v \<Longrightarrow> Q None v"
  shows "wp (thn (steps [vsf_cmdio_write E FTP_LOGINERR t, check_login_fails E, upd (user_str_update (\<lambda>_. []))])
      (ret None)) Q (\<lambda>f _. external f) w"
  unfolding wp_thn wp_steps wp_basic
  by (rule wp_talking [OF talks_any [OF talks_replies(1)]], rule fails_rule)
    (use assms unnamed_fails [of E "w\<lparr>trace := _\<rparr>"] in \<open>simp add: unnamed_def\<close>)

lemma pass_rule:
  assumes "prelogin E w" and "length (ftp_arg_str (sess w)) \<le> VSFTP_MAX_COMMAND_LINE"
  shows "wp (handle_pass_command E) (\<lambda>r v. case r of None \<Rightarrow> prelogin E v
     | Some E' \<Rightarrow> entered E (user_str (sess w)) (ftp_arg_str (sess w)) (control_use_ssl (sess w)) E' v \<and>
         user_str (sess w) \<noteq> []) (\<lambda>f _. excused E f) w"
    (is "wp _ ?Q _ _")
proof -
  let ?p = "ftp_arg_str (sess w)"
  let ?enter = "\<lambda>E' v. entered E (user_str (sess w)) ?p (control_use_ssl (sess w)) E' v"
  have w: "length (user_str (sess w)) \<le> VSFTP_PRIVSOCK_MAXSTR" "length ?p \<le> VSFTP_PRIVSOCK_MAXSTR"
      "quiet (sess w)" "tb E ''one_process_model'' \<or> channel_ok E \<and> idle w \<and> quiet (parent w)"
    using assms by (auto simp: prelogin_def waiting_def wired_def VSFTP_PRIVSOCK_MAXSTR_def VSFTP_MAX_COMMAND_LINE_def)
  have one: "prelogin E (unnamed v)" if "tb E ''one_process_model''" "kept (sess w) (sess v)" for v
    using that assms(1) by (simp add: prelogin_def waiting_def wired_def quiet_def kept_def unnamed_def)
  have two: "prelogin E (unnamed v)" if "\<not> tb E ''one_process_model''" "sess v = sess w" "quiet (parent v)" "idle v" for v
    using that assms(1) w(4) by (simp add: prelogin_def waiting_def wired_def idle_def quiet_def unnamed_def)
  have login: "wp (if tb E ''one_process_model'' then vsf_one_process_login E ?p else vsf_two_process_login E ?p)
      (\<lambda>r v. case r of None \<Rightarrow> prelogin E (unnamed v) | Some E' \<Rightarrow> ?enter E' v) (\<lambda>f _. excused E f) w"
  proof (cases "tb E ''one_process_model''")
    case True
    then show ?thesis
      using one by (auto intro!: wp_mono [OF one_login_rule [OF True w(3), of ?p]] split: option.splits)
  next
    case False
    with w have "channel_ok E" "idle w" "quiet (parent w)" by simp_all
    with False show ?thesis
      using two by (auto intro!: wp_mono [OF two_login_rule [OF _ _ w(3) _ w(1,2), THEN excusing]] split: option.splits)
  qed
  have "wp (bnd (if tb E ''one_process_model'' then vsf_one_process_login E ?p else vsf_two_process_login E ?p) (\<lambda>login.
       case login of
         Some E' \<Rightarrow> ret (Some E')
       | None \<Rightarrow>
           thn (steps
             [vsf_cmdio_write E FTP_LOGINERR ''Login incorrect.'',
              check_login_fails E,
              upd (user_str_update (\<lambda>_. []))])
           (ret None))) ?Q (\<lambda>f _. excused E f) w" if "user_str (sess w) \<noteq> []"
    unfolding wp_bnd
    by (rule wp_mono [OF login]) (auto simp: wp_basic that simp del: steps.simps intro!: excusing [OF failed_rule] split: option.splits)
  moreover have "wp (thn (vsf_cmdio_write E FTP_NEEDUSER ''Login with USER first.'') (ret None)) ?Q (\<lambda>f _. excused E f) w"
    unfolding wp_thn by (rule excusing, rule prelogin_talks [OF talks_replies(1) assms(1)]) (simp add: wp_basic)
  ultimately show ?thesis unfolding handle_pass_command_def wp_bnd [of "gets _"] wp_basic case_prod_conv
    by (cases "user_str (sess w) = []") (simp_all only: simp_thms if_True if_False not_False_eq_True)
qed

lemma entered_forced:
  "prelogin E w \<Longrightarrow> user_str (sess w) \<noteq> [] \<Longrightarrow> entered E (user_str (sess w)) pass (control_use_ssl (sess w)) E' v \<Longrightarrow>
    forced E (user_str (sess w)) \<Longrightarrow> control_use_ssl (sess v)"
  unfolding prelogin_def entered_def forced_def by blast

lemma pass_arrives:
  assumes "prelogin E w" and "length (ftp_arg_str (sess w)) \<le> VSFTP_MAX_COMMAND_LINE"
  shows "wp (handle_pass_command E) (arrived E) (\<lambda>f _. excused E f) w"
proof (rule wp_mono [OF pass_rule [OF assms]], goal_cases)
  case (1 r v)
  then show ?case using entered_forced [OF assms(1)] by (cases r) (simp add: arrived_def, force simp: arrived_def)
qed simp

lemma get_arrives:
  assumes "prelogin E w" and "\<not> tb E ''ftp_enable''"
  shows "wp (handle_get E) (arrived E) (\<lambda>f _. excused E f) w"
proof -
  let ?s = "(sess w)\<lparr>user_str := ''FTP'', is_http := True, http_get_arg := ftp_arg_str (sess w), ftp_arg_str := ''<http>''\<rparr>"
  have "anonymous_name ''FTP''" unfolding anonymous_name_def by code_simp
  then have "prelogin E (w\<lparr>sess := ?s\<rparr>)"
    using assms by (simp add: prelogin_def waiting_def wired_def idle_def quiet_def forced_def VSFTP_MAX_COMMAND_LINE_def)
  then show ?thesis unfolding handle_get_def wp_thn wp_basic
    by (intro pass_arrives) (simp_all add: VSFTP_MAX_COMMAND_LINE_def)
qed

lemma refuse_rule:
  assumes "prelogin E (unnamed w)"
  shows "wp (thn (refuse_user E t) (ret None)) (arrived E) (\<lambda>f _. external f) w"
  unfolding refuse_user_def wp_thn wp_steps wp_basic
  by (rule wp_talking [OF talks_any [OF talks_replies(1)]]) (use assms in \<open>simp add: arrived_def unnamed_def\<close>)

lemma userlist_rule:
  assumes "\<And>b. Q b w"
  shows "wp (userlist_refuses E u) Q (\<lambda>f _. external f) w"
  using assms by (auto simp: userlist_refuses_def wp_simps dest: contains_line_fault split: sum.split)

lemma named_rule:
  assumes "prelogin E (unnamed w)" and "forced E (user_str (sess w)) \<Longrightarrow> control_use_ssl (sess w)"
    and "length (user_str (sess w)) \<le> VSFTP_MAX_COMMAND_LINE"
  shows "prelogin E w"
  using assms by (simp add: prelogin_def unnamed_def waiting_def wired_def idle_def quiet_def)

lemma delay_rule:
  assumes "prelogin E (unnamed w)"
  shows "wp (thn (steps [check_login_delay E, vsf_cmdio_write E FTP_LOGINERR t, check_login_fails E,
      upd (user_str_update (\<lambda>_. []))]) (ret None)) (arrived E) (\<lambda>f _. external f) w"
proof -
  have "talks (\<lambda>_. True) external (check_login_delay E)"
    unfolding check_login_delay_def vsf_sysutil_sleep_def by (intro talks_intros; simp)
  then show ?thesis using failed_rule [of E _ "arrived E" t] assms unfolding wp_thn wp_steps(2)
    by (elim wp_talking) (simp add: arrived_def del: steps.simps)
qed

lemma excused_userlist: "(\<And>b. Q b w) \<Longrightarrow> wp (userlist_refuses E u) Q (\<lambda>f _. excused E f) w"
  by (rule excusing [OF userlist_rule])

lemma user_arrives:
  assumes "prelogin E w" and "length (ftp_arg_str (sess w)) \<le> VSFTP_MAX_COMMAND_LINE"
  shows "wp (handle_user_command E) (arrived E) (\<lambda>f _. excused E f) w"
proof -
  define v where "v = w\<lparr>sess := (sess w)\<lparr>user_str := ftp_arg_str (sess w), ftp_arg_str := v_upper (ftp_arg_str (sess w))\<rparr>\<rparr>"
  have v: "prelogin E (unnamed v)" "ftp_arg_str (sess v) = v_upper (user_str (sess v))"
      "length (user_str (sess v)) \<le> VSFTP_MAX_COMMAND_LINE" "length (v_upper (user_str (sess v))) \<le> VSFTP_MAX_COMMAND_LINE"
    using assms by (simp_all add: v_def unnamed_def prelogin_def waiting_def wired_def idle_def quiet_def v_upper_def)
  have anon: "(v_upper u = ''FTP'' \<or> v_upper u = ''ANONYMOUS'') = anonymous_name u" for u by (simp add: anonymous_name_def)
  have last: "wp (bnd (userlist_refuses E (user_str (sess v))) (\<lambda>refused.
        if refused then
          thn (steps [check_login_delay E, vsf_cmdio_write E FTP_LOGINERR ''Permission denied.'', check_login_fails E,
             upd (user_str_update (\<lambda>_. []))]) (ret None)
        else if anonymous_name (user_str (sess v)) \<and> tb E ''no_anon_password'' then
          thn (upd (ftp_arg_str_update (\<lambda>_. ''<no password>''))) (handle_pass_command E)
        else thn (vsf_cmdio_write E FTP_GIVEPWORD ''Please specify the password.'') (ret None)))
      (arrived E) (\<lambda>f _. excused E f) v"
    if "forced E (user_str (sess v)) \<Longrightarrow> control_use_ssl (sess v)"
  proof -
    have p: "prelogin E v" using v(1) that v(3) by (rule named_rule)
    have "wp (thn (upd (ftp_arg_str_update (\<lambda>_. ''<no password>''))) (handle_pass_command E)) (arrived E) (\<lambda>f _. excused E f) v"
      unfolding wp_thn wp_basic by (rule pass_arrives) (simp_all add: p VSFTP_MAX_COMMAND_LINE_def)
    moreover have "wp (thn (vsf_cmdio_write E FTP_GIVEPWORD t) (ret None)) (arrived E) (\<lambda>f _. excused E f) v" for t
      unfolding wp_thn by (rule excusing, rule prelogin_talks [OF talks_replies(1) p]) (simp add: wp_basic arrived_def)
    ultimately show ?thesis using excusing [OF delay_rule [OF v(1)]] unfolding wp_bnd
      by (intro excused_userlist) (simp del: steps.simps)
  qed
  show ?thesis
    unfolding handle_user_command_def wp_thn [of "upd _" "bnd _ _"] wp_basic v_def [symmetric] wp_bnd [of "gets _"]
      case_prod_conv v(2) Let_def anon wp_if
    by (intro if_bool_eq_conj [THEN iffD2] conjI impI excusing [OF refuse_rule [OF v(1)]] excusing [OF exit_rule] last) (auto simp: forced_def split: if_splits)
qed

section \<open>The loop before a login\<close>

lemma upper_prelogin: "(\<And>a v. prelogin E v \<Longrightarrow> Q a v) \<Longrightarrow> prelogin E w \<Longrightarrow> wp upper_arg Q X w"
  by (simp add: upper_arg_def wp_simps)

lemma reply_prelogin: "(\<And>a v. prelogin E v \<Longrightarrow> Q a v) \<Longrightarrow> prelogin E w \<Longrightarrow>
    wp (vsf_cmdio_write E c t) Q (\<lambda>f _. external f) w"
  by (rule prelogin_talks [OF talks_replies(1)])

lemma handshake_rule:
  assumes "prelogin E w" and "\<And>v. prelogin E v \<Longrightarrow> Q () v"
  shows "wp (ssl_control_handshake E) Q (\<lambda>f _. external f) w"
  unfolding ssl_control_handshake_def wp_bnd wp_basic wp_if wp_thn
  using assms(1) by (auto simp: wp_basic vsf_sysutil_exit_def intro!: prelogin_talks [OF talks_replies(3)] assms(2) prelogin_forgets(2))

lemma small_handlers:
  assumes "prelogin E w"
  shows "wp (handle_feat E) (\<lambda>_. prelogin E) (\<lambda>f _. external f) w"
    and "wp (handle_opts E) (\<lambda>_. prelogin E) (\<lambda>f _. external f) w"
    and "wp (handle_auth E) (\<lambda>_. prelogin E) (\<lambda>f _. external f) w"
    and "wp (handle_pbsz E) (\<lambda>_. prelogin E) (\<lambda>f _. external f) w"
    and "wp (handle_prot E) (\<lambda>_. prelogin E) (\<lambda>f _. external f) w"
proof -
  have "talks is_cmdio external (handle_feat E)" unfolding handle_feat_def
    by (intro talks_steps talks_if talks_replies talks_raw_lines; simp add: cstr_def)
  then show "wp (handle_feat E) (\<lambda>_. prelogin E) (\<lambda>f _. external f) w" using assms by (rule prelogin_talks)
  show "wp (handle_opts E) (\<lambda>_. prelogin E) (\<lambda>f _. external f) w"
    unfolding handle_opts_def wp_bnd using assms by (auto simp: wp_basic wp_if intro!: upper_prelogin reply_prelogin)
  show "wp (handle_auth E) (\<lambda>_. prelogin E) (\<lambda>f _. external f) w"
    unfolding handle_auth_def wp_bnd using assms
    by (auto simp: wp_simps intro!: upper_prelogin reply_prelogin handshake_rule)
  show "wp (handle_pbsz E) (\<lambda>_. prelogin E) (\<lambda>f _. external f) w"
    unfolding handle_pbsz_def wp_bnd using assms by (auto simp: wp_basic intro!: reply_prelogin)
  show "wp (handle_prot E) (\<lambda>_. prelogin E) (\<lambda>f _. external f) w"
    unfolding handle_prot_def wp_bnd using assms by (auto simp: wp_simps intro!: upper_prelogin reply_prelogin)
qed

lemma go_on_rule:
  "wp m (\<lambda>_. prelogin E) (\<lambda>f _. external f) w \<Longrightarrow> wp (thn m (ret None)) (arrived E) (\<lambda>f _. excused E f) w"
  unfolding wp_thn by (erule wp_mono) (simp_all add: wp_basic arrived_def excused_def)

lemma dispatch_arrives:
  assumes "prelogin E w" and "length (ftp_arg_str (sess w)) \<le> VSFTP_MAX_COMMAND_LINE"
  shows "wp (prelogin_dispatch E (sess w)) (arrived E) (\<lambda>f _. excused E f) w"
proof -
  note small = small_handlers [OF assms(1), THEN go_on_rule]
  have reply: "wp (thn (vsf_cmdio_write E c t) (ret None)) (arrived E) (\<lambda>f _. excused E f) w" for c t
    using reply_prelogin [of E "\<lambda>_. prelogin E", OF _ assms(1)] by (rule_tac go_on_rule) simp
  have stop: "wp (case r of Some E' \<Rightarrow> ret (Some E') | None \<Rightarrow> vsf_sysutil_exit 0) (arrived E) (\<lambda>f _. excused E f) v"
    if "arrived E r v" for r v
    using that by (cases r) (simp_all add: wp_basic vsf_sysutil_exit_def excused_def)
  have none: "wp (ret None) (arrived E) (\<lambda>f _. excused E f) w" using assms(1) by (simp add: wp_basic arrived_def)
  show ?thesis unfolding prelogin_dispatch_def Let_def wp_if wp_bnd
    by (intro if_bool_eq_conj [THEN iffD2] conjI impI small reply excusing [OF exit_rule] none user_arrives [OF assms] pass_arrives [OF assms]
        wp_mono [OF get_arrives [OF assms(1)]] wp_mono [OF reply] stop) simp_all
qed

lemma command_arrives:
  assumes "prelogin E w"
  shows "wp (prelogin_command E) (arrived E) (\<lambda>f _. excused E f) w"
  unfolding prelogin_command_def wp_bnd
proof (rule wp_mono [OF get_cmd_reads [THEN excusing]], goal_cases)
  case (1 cg v)
  let ?v = "v\<lparr>sess := (sess v)\<lparr>ftp_cmd_str := fst cg, ftp_arg_str := snd cg\<rparr>\<rparr>"
  from 1 have "prelogin E ?v" using only_read_prelogin [OF assms] by auto
  with 1 dispatch_arrives [of E ?v] show ?case
    by (auto simp: wp_thn wp_bnd wp_basic case_prod_unfold)
qed simp

section \<open>The start of a connection\<close>

lemma log_prelogin: "(\<And>a v. prelogin E v \<Longrightarrow> Q a v) \<Longrightarrow> prelogin E w \<Longrightarrow> what \<noteq> kVSFLogEntryNull \<Longrightarrow>
    wp (vsf_log_line E what t) Q (\<lambda>f _. external f) w"
  by (rule prelogin_talks [OF talks_log_line])

lemma limits_rule:
  assumes "prelogin E w" and "\<And>a v. prelogin E v \<Longrightarrow> Q a v"
  shows "wp (check_limits E) Q (\<lambda>f _. external f) w"
  unfolding check_limits_def refuse_def using assms
  by (auto simp: wp_simps id_def intro!: log_prelogin exit_rule)

lemma greeting_rule:
  assumes "prelogin E w" and "\<And>a v. prelogin E v \<Longrightarrow> Q a v"
  shows "wp (emit_greeting E) Q (\<lambda>f _. external f) w"
proof -
  have banner: "wp (vsf_banner_write E b c) R (\<lambda>f _. external f) v" if "prelogin E v" "\<And>a u. prelogin E u \<Longrightarrow> R a u" for v b c R
    by (rule prelogin_talks [OF _ that]) (auto intro!: talks_banner)
  show ?thesis unfolding emit_greeting_def using assms
    by (auto simp: wp_simps split: option.split intro!: reply_prelogin banner)
qed

lemma greet_rule:
  assumes "prelogin E w"
  shows "wp (greet E) (\<lambda>_. prelogin E) (\<lambda>f _. external f) w"
  unfolding greet_def vsf_cmdio_set_alarm_def using assms
  by (auto simp: wp_simps intro!: limits_rule greeting_rule handshake_rule)

lemma userlist_file_rule:
  assumes "prelogin E w" and "\<And>a v. prelogin E v \<Longrightarrow> Q a v"
  shows "wp (read_userlist E) Q (\<lambda>f _. external f) w"
proof -
  let ?read = "case ts E ''userlist_file'' of None \<Rightarrow> ret ([], - 1) | Some f \<Rightarrow> str_fileread E f VSFTP_CONF_FILE_MAX"
  have "talks (\<lambda>_. True) external ?read"
    by (auto split: option.split intro!: talks_intros talks_fileread)
  then show ?thesis unfolding read_userlist_def wp_doif wp_bnd using assms
    by (auto elim!: prelogin_talks simp: wp_simps die2_def bug_def die_def)
qed

text \<open>The world a connection starts in: the session of a new process, as \<^verbatim>\<open>main\<close> sets it up.\<close>

definition fresh :: "env \<Rightarrow> world \<Rightarrow> bool" where
  "fresh E w \<longleftrightarrow> quiet (sess w) \<and> user_str (sess w) = [] \<and> login_fails (sess w) = 0 \<and>
     (tb E ''one_process_model'' \<or> channel_ok E)"

lemma fresh_simps [simp]: "fresh E (w\<lparr>trace := es\<rparr>) = fresh E w"
  by (simp add: fresh_def)

lemma fresh_prelogin:
  "fresh E w \<Longrightarrow> tb E ''one_process_model'' \<Longrightarrow> prelogin E w"
  "fresh E w \<Longrightarrow> wp part_ways (\<lambda>_. prelogin E) (\<lambda>f _. external f) w"
  by (auto simp: fresh_def prelogin_def waiting_def wired_def idle_def part_ways_def wp_def)

lemma start_connection_rule:
  assumes "fresh E w"
  shows "wp (start_connection E) (\<lambda>_. prelogin E) (\<lambda>f _. external f) w"
proof -
  have start: "talks (\<lambda>_. True) external (if a then doif b (bnd (str_chdir E d) (\<lambda>_. ret ()))
      else vsf_secutil_change_credentials E u None x c os)" for a b d u x c os
    unfolding str_chdir_def by (auto intro!: talks_intros talks_credentials)
  have sandbox: "talks (\<lambda>_. True) external (doif (tb E ''ptrace_sandbox'')
        (bnd (ask E (Sys ''ptrace_sandbox_alloc'' [] [])) (\<lambda>p_sandbox.
         if p_sandbox = 0 then lift (die ''could not allocate sandbox (only works for 32-bit builds)'')
         else steps
           [emit (Sys ''policy_setup'' [] []),
            bnd (sys E (Sys ''ptrace_sandbox_launch_process'' [] [])) (\<lambda>pid.
            if pid \<le> 0 then lift (die ''could not launch sandboxed child'') else ret ())])))"
    by (intro talks_intros) (simp_all add: bug_fault)
  have pair: "talks (\<lambda>_. True) external (or_die E (Sys ''socketpair'' [] []) ''socketpair'')"
    by (intro talks_intros; simp)
  have pairs: "talks (\<lambda>_. True) external (doif b (or_die E (Sys ''socketpair'' [] []) ''socketpair''))" for b
    by (intro talks_intros; simp)
  have served: "wp (steps [read_userlist E, drop_all_privs,
      emit (Sys ''seccomp_sandbox_prelogin'' [] []), greet E]) (\<lambda>_. prelogin E) (\<lambda>f _. external f) v" if "prelogin E v" for v
    unfolding drop_all_privs_def wp_steps wp_basic using that by (auto intro!: userlist_file_rule greet_rule)
  have "wp (vsf_two_process_start E) (\<lambda>_. prelogin E) (\<lambda>f _. external f) w"
    unfolding vsf_two_process_start_def wp_steps(2) [of "emit _"] wp_steps(2) [of "or_die _ _ _"] wp_steps(2) [of "doif _ _"]
      wp_steps(2) [of "fork_child _ _"] wp_steps(2) [of part_ways] wp_basic
    by (rule wp_talking [OF pair], rule wp_talking [OF pairs], rule wp_talking [OF talks_fork],
        rule wp_mono [OF fresh_prelogin(2) [of E]]) (simp_all add: assms served del: steps.simps)
  moreover have "wp (one_process_start E) (\<lambda>_. prelogin E) (\<lambda>f _. external f) v" if "prelogin E v" for v
    unfolding one_process_start_def Let_def wp_steps
    by (rule prelogin_talks [OF start that]) (auto simp: wp_doif wp_basic intro!: greet_rule)
  then have "wp (vsf_one_process_start E) (\<lambda>_. prelogin E) (\<lambda>f _. external f) w" if "tb E ''one_process_model''"
    unfolding vsf_one_process_start_def wp_steps
    by (rule_tac prelogin_talks [OF sandbox fresh_prelogin(1) [OF assms that]]) (simp add: wp_basic)
  ultimately show ?thesis by (simp add: start_connection_def)
qed

section \<open>The states of a connection\<close>

definition anonymous_account :: "env \<Rightarrow> bool" where
  "anonymous_account E \<longleftrightarrow> tb E ''anonymous_enable'' \<longrightarrow> (\<exists>u. ts E ''ftp_username'' = Some u \<and> cstr u \<noteq> [])"

lemma acceptable_named: "acceptable user pass \<Longrightarrow> cstr user \<noteq> []"
  by (cases user) (auto simp: acceptable_def cstr_def vsf_sysutil_isalnum_def code_def)

lemma entered_state:
  assumes "arrived E (Some E') w" and "anonymous_account E"
  shows "(\<exists>T. E' = E\<lparr>tun := T\<rparr>) \<and> state E' (False, False, False) w"
proof -
  from assms(1) obtain user pass where e: "admitted E user pass (sess w)" "quiet (sess w)" "\<exists>T. E' = E\<lparr>tun := T\<rparr>"
      "tb E ''one_process_model'' \<and> E' = E \<or> quiet (parent w) \<and> idle w \<and> channel_ok E"
    by (auto simp: arrived_def entered_def)
  have "named (sess w)" using e(1,2) assms(2)
    by (auto simp: named_def quiet_def admitted_def as_anonymous_def as_user_def anonymous_account_def dest: acceptable_named)
  moreover have "channel_ok E' = channel_ok E" using e(3) by (auto simp: channel_ok_def)
  moreover have "lfd E' w = - 1" "wired E' w" using e(2,4) calculation(2) by (auto simp: lfd_def quiet_def wired_def)
  ultimately show ?thesis using e(2,3) by (simp add: state.simps quiet_def target_ok_def)
qed

definition settled :: "env \<Rightarrow> env option \<Rightarrow> world \<Rightarrow> bool" where
  "settled E phase w \<longleftrightarrow> (case phase of None \<Rightarrow> prelogin E w
     | Some E' \<Rightarrow> (\<exists>T. E' = E\<lparr>tun := T\<rparr>) \<and> state E' (False, False, False) w)"

lemma sorts_tun: "sorts (E\<lparr>tun := T\<rparr>) = sorts E"
  by (simp add: sorts_def)

lemma turn_rule:
  assumes "settled E phase w" and "sorts E" and "anonymous_account E"
  shows "wp (turn E phase) (settled E) (\<lambda>f _. excused E f) w"
proof (cases phase)
  case None
  then have "prelogin E w" using assms(1) by (simp add: settled_def)
  moreover have "wp (thn (start_session E') (ret (Some E'))) (settled E) (\<lambda>f _. excused E f) v"
    if "arrived E (Some E') v" for E' v
    unfolding wp_thn using entered_state [OF that assms(3)]
    by (auto intro!: wp_mono [OF start_rule [THEN excusing]] simp: wp_basic settled_def)
  ultimately show ?thesis unfolding None turn_def option.case wp_bnd
    by (rule_tac wp_mono [OF command_arrives])
      (auto split: option.split simp: wp_basic settled_def arrived_def)
next
  case (Some E')
  with assms have "sorts E'" "state E' (False, False, False) w" "\<exists>T. E' = E\<lparr>tun := T\<rparr>"
    by (auto simp: settled_def sorts_tun)
  then show ?thesis unfolding Some turn_def option.case wp_thn
    by (intro wp_mono [OF serve_rule [THEN excusing]]) (auto simp: wp_basic settled_def)
qed

lemma connects_settled:
  assumes "connects E w0 phase w" and "fresh E w0" and "sorts E" and "anonymous_account E"
  shows "settled E phase w"
  using assms(1)
proof induction
  case (started w)
  with start_connection_rule [OF assms(2)] show ?case by (simp add: wp_def settled_def)
next
  case (turned phase w phase' w')
  with turn_rule [OF turned(3) assms(3,4)] show ?case by (simp add: wp_def)
qed

section \<open>A guest\<close>

text \<open>An anonymous connection to a server of the one-process model, for the witnesses.\<close>

definition guest_env :: env where
  "guest_env = plain_env\<lparr>tun := \<lparr>tbool = (\<lambda>v. v \<in> {''one_process_model'', ''run_as_launching_user'', ''ftp_enable'',
     ''anonymous_enable''}), tuint = (\<lambda>v. 0), tstr = (\<lambda>v. if v = ''ftp_username'' then Some ''ftp'' else None)\<rparr>\<rparr>"

lemma guest_env_simps [simp]:
  "tb guest_env v = (v \<in> {''one_process_model'', ''run_as_launching_user'', ''ftp_enable'', ''anonymous_enable''})"
  "tu guest_env v = 0" "ts guest_env v = (if v = ''ftp_username'' then Some ''ftp'' else None)"
  "answers guest_env = obliging" "texts guest_env = (\<lambda>tr e. ''/'')"
  by (simp_all add: guest_env_def plain_env_def)

definition guest_world :: world where
  "guest_world = world_with blank_session (''USER ftp'' @ [CR, LF] @ ''PASS x'' @ [CR, LF])"

text \<open>After the name.\<close>

definition guest_named :: "event list \<Rightarrow> world" where
  "guest_named tr = guest_world\<lparr>sess := blank_session\<lparr>ftp_cmd_str := ''USER'', ftp_arg_str := ''FTP'', user_str := ''ftp''\<rparr>,
     trace := tr, sched := [], incoming := ''PASS x'' @ [CR, LF]\<rparr>"

lemmas reply_defs = vsf_cmdio_write_def ftp_write_text_common_def ftp_write_str_common_def ftp_write_str_def
  str_netfd_write_def vsf_sysutil_retval_is_error_def

lemmas read_defs = vsf_cmdio_get_cmd_and_arg_def vsf_cmdio_set_alarm_def control_getline_def ftp_getline_def next_line_def

lemmas guest_defs = act_defs guest_world_def world_with_def blank_session_def guest_named_def

lemma guest_starts: "\<exists>tr. start_connection guest_env guest_world = (Inr (), guest_world\<lparr>trace := tr\<rparr>)"
  by (simp add: start_connection_def vsf_one_process_start_def one_process_start_def greet_def check_limits_def emit_greeting_def vsf_cmdio_set_alarm_def
      vsf_log_line_def vsf_log_common_def reply_defs reply_bytes_not_Nil guest_defs)

lemma guest_reads:
  "vsf_cmdio_get_cmd_and_arg guest_env True (guest_world\<lparr>trace := tr\<rparr>) =
    (Inr (''USER'', ''ftp''), guest_world\<lparr>trace := tr, sched := [], incoming := ''PASS x'' @ [CR, LF]\<rparr>)"
  "vsf_cmdio_get_cmd_and_arg guest_env True (guest_named tr) = (Inr (''PASS'', ''x''), (guest_named tr)\<lparr>incoming := []\<rparr>)"
proof -
  have "split_command ''USER ftp'' = (''USER'', ''ftp'')" by code_simp
  moreover have "str_netfd_alloc LF VSFTP_MAX_COMMAND_LINE [Sees 2] (''USER ftp'' @ [CR, LF] @ ''PASS x'' @ [CR, LF]) =
      Inr (8, ''USER ftp'' @ [CR], [], ''PASS x'' @ [CR, LF])"
    by code_simp
  moreover have "rev (strip_cr (rev (v_replace_char (''USER ftp'' @ [CR]) NUL LF))) = ''USER ftp''" by code_simp
  ultimately show "vsf_cmdio_get_cmd_and_arg guest_env True (guest_world\<lparr>trace := tr\<rparr>) =
      (Inr (''USER'', ''ftp''), guest_world\<lparr>trace := tr, sched := [], incoming := ''PASS x'' @ [CR, LF]\<rparr>)"
    by (simp add: read_defs guest_defs)
  have "split_command ''PASS x'' = (''PASS'', ''x'')" by code_simp
  moreover have "str_netfd_alloc LF VSFTP_MAX_COMMAND_LINE [] (''PASS x'' @ [CR, LF]) = Inr (8, ''PASS x'' @ [CR], [], [])"
    by code_simp
  moreover have "rev (strip_cr (rev (v_replace_char (''PASS x'' @ [CR]) NUL LF))) = ''PASS x''" by code_simp
  ultimately show "vsf_cmdio_get_cmd_and_arg guest_env True (guest_named tr) =
      (Inr (''PASS'', ''x''), (guest_named tr)\<lparr>incoming := []\<rparr>)"
    by (simp add: read_defs guest_defs)
qed

lemma guest_names: "\<exists>tr'. prelogin_command guest_env (guest_world\<lparr>trace := tr\<rparr>) = (Inr None, guest_named tr')"
proof -
  have "prelogin_command guest_env (guest_world\<lparr>trace := tr\<rparr>) =
      handle_user_command guest_env (guest_world\<lparr>trace := tr, sched := [], incoming := ''PASS x'' @ [CR, LF],
        sess := (sess guest_world)\<lparr>ftp_cmd_str := ''USER'', ftp_arg_str := ''ftp''\<rparr>\<rparr>)"
    by (simp add: prelogin_command_def bnd_def thn_def guest_reads upd_def gets_def prelogin_dispatch_def)
  moreover have "v_upper ''ftp'' = ''FTP''" by code_simp
  ultimately show ?thesis
    by (simp add: handle_user_command_def userlist_refuses_def Let_def reply_defs reply_bytes_not_Nil guest_defs)
qed

lemma guest_passes:
  "\<exists>w. handle_pass_command guest_env ((guest_named tr)\<lparr>sess := (sess (guest_named tr))\<lparr>ftp_arg_str := ''x''\<rparr>\<rparr>) =
     (Inr (Some guest_env), w)"
  "\<exists>w. prelogin_command guest_env (guest_named tr) = (Inr (Some guest_env), w) \<and> \<not> is_http (sess w) \<and> \<not> control_use_ssl (sess w)"
proof -
  have names: "v_upper ''ftp'' = ''FTP''" "acceptable ''ftp'' ''x''" by code_simp+
  note login_defs = handle_pass_command_def vsf_one_process_login_def vsf_privop_do_login_def handle_login_def names
    handle_anonymous_login_def setup_username_globals_def log_login_def vsf_log_start_entry_def vsf_log_do_log_def
    vsf_log_common_def Let_def guest_defs
  show "\<exists>w. handle_pass_command guest_env ((guest_named tr)\<lparr>sess := (sess (guest_named tr))\<lparr>ftp_arg_str := ''x''\<rparr>\<rparr>) =
      (Inr (Some guest_env), w)"
    by (simp add: login_defs)
  have "prelogin_command guest_env (guest_named tr) =
      handle_pass_command guest_env ((guest_named tr)\<lparr>incoming := [],
        sess := (sess (guest_named tr))\<lparr>ftp_cmd_str := ''PASS'', ftp_arg_str := ''x''\<rparr>\<rparr>)"
    by (simp add: prelogin_command_def bnd_def thn_def guest_reads upd_def gets_def prelogin_dispatch_def)
  then show "\<exists>w. prelogin_command guest_env (guest_named tr) = (Inr (Some guest_env), w) \<and> \<not> is_http (sess w) \<and>
      \<not> control_use_ssl (sess w)"
    by (simp add: login_defs)
qed

lemma guest_greeted: "\<not> is_http (sess w) \<Longrightarrow> \<not> control_use_ssl (sess w) \<Longrightarrow> \<exists>w'. start_session guest_env w = (Inr (), w')"
  by (auto simp: start_session_def act_defs str_getcwd_def set_umask_def vsf_banner_dir_changed_def reply_defs
      vsf_log_line_def reply_bytes_not_Nil)

lemma guest_waits: "\<exists>tr. connects guest_env guest_world None (guest_named tr)"
proof -
  obtain tr where "start_connection guest_env guest_world = (Inr (), guest_world\<lparr>trace := tr\<rparr>)"
    using guest_starts by blast
  then have "connects guest_env guest_world None (guest_world\<lparr>trace := tr\<rparr>)" by (rule connects.started)
  moreover obtain tr' where "prelogin_command guest_env (guest_world\<lparr>trace := tr\<rparr>) = (Inr None, guest_named tr')"
    using guest_names by blast
  ultimately show ?thesis using connects.turned by (fastforce simp: turn_def bnd_def ret_def)
qed

lemma guest_connects: "\<exists>w. connects guest_env guest_world (Some guest_env) w"
proof -
  obtain tr where c: "connects guest_env guest_world None (guest_named tr)" using guest_waits by blast
  obtain w where w: "prelogin_command guest_env (guest_named tr) = (Inr (Some guest_env), w)"
      "\<not> is_http (sess w)" "\<not> control_use_ssl (sess w)"
    using guest_passes(2) by blast
  obtain v where "start_session guest_env w = (Inr (), v)" using guest_greeted [OF w(2,3)] by blast
  with w(1) have "turn guest_env None (guest_named tr) = (Inr (Some guest_env), v)"
    by (simp add: turn_def bnd_def thn_def ret_def)
  with c show ?thesis by (blast intro: connects.turned)
qed

lemma guest_fresh: "fresh guest_env guest_world" "sorts guest_env" "anonymous_account guest_env"
  by (simp_all add: fresh_def quiet_def guest_world_def world_with_def blank_session_def cstr_def
      sorts_def anonymous_account_def guest_env_def plain_env_def)

text \<open>The exception to the encryption of local logins: with anonymous logins off, \<^verbatim>\<open>ftp\<close> can only be the name
  of a local account, but \<^verbatim>\<open>USER ftp\<close> over a connection in the clear is asked for its password although
  local logins must be encrypted.\<close>

lemma account_named_ftp:
  assumes "\<not> tb E ''anonymous_enable''" and "tb E ''ssl_enable''" and "tb E ''force_local_logins_ssl''"
    and "\<not> tb E ''force_anon_logins_ssl''" and "\<not> tb E ''no_anon_password''" and "\<not> tb E ''userlist_enable''"
    and "ftp_arg_str (sess w) = ''ftp''" and "\<not> control_use_ssl (sess w)"
  shows "handle_user_command E w = thn (vsf_cmdio_write E FTP_GIVEPWORD ''Please specify the password.'') (ret None)
    (w\<lparr>sess := (sess w)\<lparr>user_str := ''ftp'', ftp_arg_str := ''FTP''\<rparr>\<rparr>)"
proof -
  have "v_upper ''ftp'' = ''FTP''" by code_simp
  then show ?thesis using assms
    by (simp add: handle_user_command_def userlist_refuses_def Let_def thn_def bnd_def upd_def gets_def ret_def)
qed

section \<open>Properties\<close>

text \<open>C1: the state of a connection between two commands, from the start of its process through the login
  to any later command, whatever the client sends and whatever the system and the store answer, in
  both process models: active and passive mode are never on together; unless the server is
  promiscuous, the target of active mode is the client's own address and an unreserved port; no
  data connection is left open and no log entry is left pending. The settings are those of the
  server except for what the user's own configuration file changed.\<close>

theorem connection_invariant:
  assumes "connects E w0 (Some E') w" and "fresh E w0" and "sorts E" and "anonymous_account E"
  shows "(lfd E' w = - 1 \<or> p_port_sockaddr (sess w) = None) \<and>
    (tb E' ''port_promiscuous'' \<or> (\<forall>a. p_port_sockaddr (sess w) = Some a \<longrightarrow>
       vsf_sysutil_sockaddr_addr_equal (p_remote_addr (sess w)) a \<and>
       (\<exists>port. vsf_sysutil_sockaddr_get_port a = Inr port \<and> \<not> vsf_sysutil_is_port_reserved port))) \<and>
    data_fd (sess w) = - 1 \<and> log_type (sess w) = None \<and> (\<exists>T. E' = E\<lparr>tun := T\<rparr>)"
  using connects_settled [OF assms]
  by (auto simp: settled_def state.simps target_ok_def)

theorem connection_invariant_witness:
  "\<exists>w. connects guest_env guest_world (Some guest_env) w \<and> data_fd (sess w) = - 1 \<and> log_type (sess w) = None"
  using guest_connects connection_invariant [OF _ guest_fresh] by blast

text \<open>C2: the assertions no client reaches. Whenever the start of a connection, or a command after any
  history before or after the login, ends the process, the reason is none of the assertions in
  \<open>assertion_messages\<close>: those on log entries, data descriptors, data modes, listening sockets, empty
  writes, the buffer of the line reader and the messages between the two processes; and it is not the
  endless mutual recursion of \<^verbatim>\<open>port_active\<close> and \<^verbatim>\<open>pasv_active\<close>. The one exception is the assertion of
  \<^verbatim>\<open>vsf_one_process_login\<close>, which needs the one-process model with local logins enabled, a configuration
  that the checks of \<^verbatim>\<open>main\<close> refuse. Not among these messages, and not excluded, are the deaths on failed system
  calls, on addresses of a foreign family (\<^verbatim>\<open>bad family\<close>) and on bad settings, the use of null settings
  (among them the directory that \<^verbatim>\<open>one_process_start\<close> does not name), and the complaint
  \<^verbatim>\<open>HTTP needs download\<close> of a server for HTTP that may not send files.\<close>

theorem connection_assertions:
  assumes "connects E w0 phase w" and "fresh E w0" and "sorts E" and "anonymous_account E"
  shows "\<forall>f w'. start_connection E w0 = (Inl f, w') \<or> turn E phase w = (Inl f, w') \<longrightarrow>
    f \<noteq> Endless ''port_active'' \<and> f \<noteq> Endless ''pasv_active'' \<and>
    (\<forall>m \<in> set assertion_messages. f = Oops m \<longrightarrow>
       m = ''bad state in vsf_one_process_login'' \<and> tb E ''one_process_model'' \<and> tb E ''local_enable'')"
proof -
  have "excused E f" if "start_connection E w0 = (Inl f, w') \<or> turn E phase w = (Inl f, w')" for f w'
    using excusing [OF start_connection_rule [OF assms(2)]] turn_rule [OF connects_settled [OF assms] assms(3,4)] that
    by (auto simp: wp_def)
  then show ?thesis using excused_assertions by blast
qed

theorem connection_assertions_witness:
  "\<exists>w. connects guest_env guest_world (Some guest_env) w \<and>
     (\<forall>w'. turn guest_env (Some guest_env) w \<noteq> (Inl (Endless ''port_active''), w'))"
  using guest_connects connection_assertions [OF _ guest_fresh] by blast

text \<open>C4: before the login a connection has no data connection, no listening socket and no target of
  active mode; it is closed when the number of failed logins reaches the limit; and over a connection
  that is not encrypted, it holds a name other than \<^verbatim>\<open>ftp\<close> and \<^verbatim>\<open>anonymous\<close> only if \<^verbatim>\<open>force_local_logins_ssl\<close>
  is off, and one of these two names only if \<^verbatim>\<open>force_anon_logins_ssl\<close> is off or the server speaks HTTP
  instead of FTP. The name alone decides which of the settings counts, whether or not anonymous logins
  are enabled: an account of the name \<^verbatim>\<open>ftp\<close> is not held to \<^verbatim>\<open>force_local_logins_ssl\<close>
  (\<open>account_named_ftp\<close>).\<close>

theorem before_login:
  assumes "connects E w0 None w" and "fresh E w0" and "sorts E" and "anonymous_account E"
  shows "data_fd (sess w) = - 1 \<and> pasv_listen_fd (sess w) = - 1 \<and> p_port_sockaddr (sess w) = None \<and>
    (login_fails (sess w) = 0 \<or> login_fails (sess w) < tu E ''max_login_fails'') \<and>
    (user_str (sess w) = [] \<or> control_use_ssl (sess w) \<or> \<not> tb E ''ssl_enable'' \<or>
     (if anonymous_name (user_str (sess w)) then \<not> tb E ''force_anon_logins_ssl'' \<or> \<not> tb E ''ftp_enable''
      else \<not> tb E ''force_local_logins_ssl''))"
  using connects_settled [OF assms]
  by (auto simp: settled_def prelogin_def waiting_def quiet_def forced_def)

theorem before_login_witness:
  "\<exists>tr. connects guest_env guest_world None (guest_world\<lparr>trace := tr\<rparr>) \<and>
     data_fd (sess (guest_world\<lparr>trace := tr\<rparr>)) = - 1"
  using guest_starts before_login [OF connects.started guest_fresh] connects.started by blast

text \<open>C3: a login is authenticated. When \<^verbatim>\<open>PASS\<close> logs a user in, in either process model and after any
  history, then the name the connection holds and the password are acceptable, and it is one of two
  logins. Either the name is that of an anonymous user and such users are allowed; then, if anonymous
  logins must be encrypted and the server speaks FTP, the connection is. Or local logins are enabled,
  the table of accounts lists exactly this name with this password, and the session has this name and
  the permissions of that entry; then, if local logins must be encrypted, the connection is, with one
  exception that is not intended: an account named \<^verbatim>\<open>ftp\<close> or \<^verbatim>\<open>anonymous\<close> of a server without anonymous
  logins, which may log in unencrypted (\<open>account_named_ftp\<close>).\<close>

theorem login_authenticated:
  assumes "connects E w0 None w" and "fresh E w0" and "sorts E" and "anonymous_account E"
    and "length pass \<le> VSFTP_MAX_COMMAND_LINE"
    and "handle_pass_command E (w\<lparr>sess := (sess w)\<lparr>ftp_arg_str := pass\<rparr>\<rparr>) = (Inr (Some E'), w')"
  shows "acceptable (user_str (sess w)) pass \<and>
    (tb E ''anonymous_enable'' \<and> anonymous_name (user_str (sess w)) \<and>
       (tb E ''ssl_enable'' \<and> tb E ''force_anon_logins_ssl'' \<and> tb E ''ftp_enable'' \<longrightarrow> control_use_ssl (sess w')) \<or>
     tb E ''local_enable'' \<and>
       cos_handle_login (ts E ''login_users'') (user_str (sess w)) pass = Some (permissions (sess w')) \<and>
       user_str (sess w') = user_str (sess w) \<and>
       (tb E ''ssl_enable'' \<and> tb E ''force_local_logins_ssl'' \<longrightarrow>
          control_use_ssl (sess w') \<or> anonymous_name (user_str (sess w)) \<and> \<not> tb E ''anonymous_enable''))"
proof -
  let ?v = "w\<lparr>sess := (sess w)\<lparr>ftp_arg_str := pass\<rparr>\<rparr>"
  have v: "prelogin E ?v"
    using connects_settled [OF assms(1-4)] by (simp add: settled_def)
  have e: "entered E (user_str (sess w)) pass (control_use_ssl (sess w)) E' w'" "user_str (sess w) \<noteq> []"
    using pass_rule [OF v] assms(5,6) by (simp_all add: wp_def)
  have "forced E (user_str (sess w)) \<longrightarrow> control_use_ssl (sess w')"
    using entered_forced [OF v, of pass E' w'] e by simp
  with e(1) show ?thesis unfolding entered_def admitted_def as_anonymous_def as_user_def forced_def by (auto split: if_splits)
qed

theorem login_authenticated_witness:
  "\<exists>tr. connects guest_env guest_world None (guest_named tr) \<and>
     acceptable (user_str (sess (guest_named tr))) ''x'' \<and>
     (tb guest_env ''anonymous_enable'' \<and> anonymous_name (user_str (sess (guest_named tr))) \<or>
      ts guest_env ''login_users'' \<noteq> None)"
proof -
  obtain tr where c: "connects guest_env guest_world None (guest_named tr)" using guest_waits by blast
  obtain w where "handle_pass_command guest_env ((guest_named tr)\<lparr>sess := (sess (guest_named tr))\<lparr>ftp_arg_str := ''x''\<rparr>\<rparr>) =
      (Inr (Some guest_env), w)"
    using guest_passes(1) by blast
  from login_authenticated [OF c guest_fresh _ this] c show ?thesis
    by (intro exI [of _ tr]) (auto simp: VSFTP_MAX_COMMAND_LINE_def cos_handle_login_def)
qed

end
