(* ===== verification/Launch.thy ===== *)
theory Launch
  imports Start Entry
begin

text \<open>
  From \<^verbatim>\<open>main\<close> to the start of a connection: the session that \<^verbatim>\<open>main\<close> sets up is fresh, and the settings have
  passed the checks.
\<close>

section \<open>Settings\<close>

definition same_env :: "env \<Rightarrow> env \<Rightarrow> bool" where
  "same_env E E' \<longleftrightarrow> E'\<lparr>tun := tun E\<rparr> = E"

lemma same_env_refl [simp]: "same_env E E" "same_env E (E\<lparr>tun := T\<rparr>)"
  by (simp_all add: same_env_def)

lemma same_env_trans: "same_env E E1 \<Longrightarrow> same_env E1 E2 \<Longrightarrow> same_env E E2"
  unfolding same_env_def by (metis env.update_convs(1) env.surjective)

lemma same_envD: "same_env E E' \<Longrightarrow> answers E' = answers E" "same_env E E' \<Longrightarrow> texts E' = texts E"
  "same_env E E' \<Longrightarrow> qsort_fn E' = qsort_fn E" "same_env E E' \<Longrightarrow> \<exists>T. E' = E\<lparr>tun := T\<rparr>"
  unfolding same_env_def by (metis env.select_convs env.surjective env.update_convs(1))+

lemma yields_fault: "yields P (lift (die m))" "yields P (lift (die2 m n))" "yields P (vsf_exit t)"
  by (simp_all add: yields_def lift_def die_def die2_def bug_def vsf_exit_def thn_def bnd_def emit_def vsf_sysutil_exit_def raise_def)

lemma yields_mono: "yields P m \<Longrightarrow> (\<And>a. P a \<Longrightarrow> Q a) \<Longrightarrow> yields Q m"
  by (auto simp: yields_def)

lemma load_config_env: "yields (same_env E) (load_config E f)"
  unfolding load_config_def by (intro yields_rules(2) yields_rules(4) yields_rules(1)) simp

lemma parse_args_env: "yields (\<lambda>r. same_env E (fst r)) (parse_args E args b)"
proof (induction args arbitrary: E b)
  case Nil
  then show ?case by (auto intro!: yields_rules)
next
  case (Cons p args)
  have load: "yields (same_env E) (load_setting E s)" for s
    unfolding load_setting_def by (intro yields_rules) simp
  have rest: "yields (\<lambda>r. same_env E (fst r)) (bnd m (\<lambda>E'. parse_args E' args c))" if "yields (same_env E) m" for m c
    by (rule yields_bnd [OF that], rule yields_mono [OF Cons]) (rule same_env_trans)
  show ?case unfolding parse_args.simps by (auto intro!: yields_rules(3) rest load load_config_env yields_fault)
qed

lemma settings_env: "yields (same_env E) (startup_settings E argv)"
proof -
  have resolve: "yields (same_env E1) (resolve_pasv_address E1)" for E1
    unfolding resolve_pasv_address_def set_string_def
    by (auto split: option.split intro!: yields_rules(1-3))
  have default: "yields (same_env E1) (default_config E1 b)" for E1 b
    unfolding default_config_def by (auto intro!: yields_rules(1-3) load_config_env)
  have "yields (same_env E) (bnd (default_config E1 b) resolve_pasv_address)" if "same_env E E1" for E1 b
    by (rule yields_bnd [OF default], rule yields_mono [OF resolve]) (blast intro: same_env_trans [OF that] same_env_trans)
  then have "yields (same_env E) (bnd (default_config E1 b) resolve_pasv_address)"
    if "same_env (E\<lparr>tun := tunables_load_defaults\<rparr>) E1" for E1 b
    using same_env_trans [OF same_env_refl(2) that] by blast
  then show ?thesis unfolding startup_settings_def
    by (cases argv) (auto intro!: yields_fault yields_bnd [OF parse_args_env])
qed

section \<open>The session\<close>

definition newborn :: "vsf_session \<Rightarrow> bool" where
  "newborn s \<longleftrightarrow> pasv_listen_fd s = - 1 \<and> p_port_sockaddr s = None \<and> data_fd s = - 1 \<and> log_type s = None \<and>
     user_str s = [] \<and> login_fails s = 0"

lemma newborn_simps [simp]:
  "newborn (num_clients_update a s) = newborn s" "newborn (num_this_ip_update a s) = newborn s"
  "newborn (tcp_wrapper_ok_update b s) = newborn s"
  "newborn (p_remote_addr_update c s) = newborn s" "newborn (p_local_addr_update c s) = newborn s"
  "newborn (anon_ftp_uid_update d s) = newborn s" "newborn (guest_user_uid_update d s) = newborn s"
  "newborn (anon_upload_chown_uid_update d s) = newborn s" "newborn (xferlog_fd_update d s) = newborn s"
  "newborn (vsftpd_log_fd_update d s) = newborn s" "newborn (remote_ip_str_update h s) = newborn s"
  "newborn (banned_email_str_update h s) = newborn s" "newborn (banner_str_update h s) = newborn s"
  "newborn (email_passwords_str_update h s) = newborn s"
  by (simp_all add: newborn_def)

lemma keeps_newborn:
  "keeps (on_sess newborn) (emit e)" "keeps (on_sess newborn) (sys E e)" "keeps (on_sess newborn) (or_die E e m)"
  "keeps (on_sess newborn) (vsf_sysutil_close E fd)"
proof -
  show "keeps (on_sess newborn) (emit e)" and sys: "keeps (on_sess newborn) (sys E e)" for E e
    by (simp_all add: keeps_def emit_def sys_def)
  show "keeps (on_sess newborn) (or_die E e m)" "keeps (on_sess newborn) (vsf_sysutil_close E fd)"
    unfolding or_die_def vsf_sysutil_close_def by (auto intro!: keeps_intros sys)
qed

lemma keeps_load:
  "keeps (on_sess newborn) (load_config E f)" "keeps (on_sess newborn) (startup_settings E argv)"
proof -
  have read: "keeps (on_sess newborn) (str_fileread E f n)" for E f n
    unfolding str_fileread_def vsf_sysutil_fstat_def vsf_sysutil_statbuf_get_size_def Let_def
    by (intro keeps_intros keeps_newborn)
  show load: "keeps (on_sess newborn) (load_config E f)" for E f
    unfolding load_config_def config_owner_ok_def by (intro keeps_intros read)
  have args: "keeps (on_sess newborn) (parse_args E args b)" for E args b
    by (induction args arbitrary: E b) (auto simp: load_setting_def vsf_exit_def intro!: keeps_intros keeps_newborn load)
  show "keeps (on_sess newborn) (startup_settings E argv)"
    unfolding startup_settings_def default_config_def resolve_pasv_address_def vsf_sysutil_dns_resolve_def vsf_sysutil_inet_ntop_def
    by (cases argv) (auto split: option.split sockaddr.split intro!: keeps_intros keeps_newborn load args)
qed

lemma keeps_ssl_init: "keeps (on_sess newborn) (ssl_init E b)"
proof -
  have one: "keeps (on_sess newborn) (one_or_die E e m)" for e m
    unfolding one_or_die_def by (intro keeps_intros keeps_newborn)
  then have "keeps (on_sess newborn) (ssl_certificate E c k n)" for c k n
    unfolding ssl_certificate_def Let_def by (intro keeps_intros)
  moreover have "keeps (on_sess newborn) (ssl_verification E)"
    unfolding ssl_verification_def by (intro keeps_intros keeps_newborn)
  ultimately show ?thesis unfolding ssl_init_def by (intro keeps_intros keeps_newborn one)
qed

lemma keeps_launch: "keeps (on_sess newborn) (launch_session E argv launch)" "keeps (on_sess newborn) (environment_config E)"
proof -
  have "newborn s \<Longrightarrow> newborn (s\<lparr>num_clients := a, num_this_ip := b\<rparr>)" for s a b by (simp add: newborn_def)
  then show "keeps (on_sess newborn) (launch_session E argv launch)"
    unfolding launch_session_def by (intro keeps_intros keeps_newborn keeps_ssl_init) simp_all
  show "keeps (on_sess newborn) (environment_config E)"
    unfolding environment_config_def by (intro keeps_intros keeps_load)
qed

lemma environment_config_env: "yields (same_env E) (environment_config E)"
  unfolding environment_config_def by (auto intro!: yields_rules(1-3) load_config_env)

section \<open>The checks\<close>

text \<open>What the checks establish of the settings.\<close>

definition sane :: "env \<Rightarrow> bool" where
  "sane E \<longleftrightarrow> (tb E ''one_process_model'' \<longrightarrow> \<not> tb E ''local_enable'') \<and>
     (tb E ''local_enable'' \<or> tb E ''anonymous_enable'') \<and> (tb E ''ftp_enable'' \<or> tb E ''http_enable'') \<and>
     (tb E ''http_enable'' \<longrightarrow> tb E ''one_process_model'')"

lemma sanity_rule:
  "(\<And>v. sane E \<Longrightarrow> sess v = sess w \<Longrightarrow> Q () v) \<Longrightarrow> wp (do_sanity_checks E) Q (\<lambda>_ _. True) w"
  by (auto simp: do_sanity_checks_def or_die_def wp_simps sane_def die_def bug_def)

text \<open>The system knows no account without a name, and prints every address.\<close>

definition named_accounts :: "env \<Rightarrow> bool" where
  "named_accounts E \<longleftrightarrow> (\<forall>tr. answers E tr (Sys ''getpwnam'' [[]] []) = 0)"

definition prints_addresses :: "env \<Rightarrow> bool" where
  "prints_addresses E \<longleftrightarrow> (\<forall>tr raw. cstr (texts E tr (Sys ''inet_ntop'' [raw] [])) \<noteq> [])"

lemma first_session_rule:
  assumes "newborn (sess w)" and "named_accounts E"
    and "\<And>v. newborn (sess v) \<Longrightarrow> anonymous_account E \<Longrightarrow> wf_addr (p_remote_addr (sess v)) \<Longrightarrow> Q () v"
  shows "wp (session_init E) Q (\<lambda>_ _. True) w"
proof -
  have addr: "wp (control_addr E call) R (\<lambda>_ _. True) v"
    if "\<And>a u. wf_addr a \<Longrightarrow> sess u = sess v \<Longrightarrow> R a u" for call v R
    using that by (auto simp: control_addr_def wp_simps die_def bug_def)
  have uid: "wp (account_uid E name m) R (\<lambda>_ _. True) v"
    if "\<And>a n. name = Some n \<Longrightarrow> cstr n \<noteq> [] \<Longrightarrow> R a v" for name m v R
  proof -
    have "cstr n \<noteq> []" if "answers E (trace v) (Sys ''getpwnam'' [cstr n] []) \<noteq> 0" for n
      using that assms(2) by (auto simp: named_accounts_def)
    then show ?thesis using that by (auto simp: account_uid_def wp_simps die2_def die_def bug_def split: option.split)
  qed
  show ?thesis using assms unfolding session_init_def Let_def
    by (auto simp: wp_steps wp_bnd wp_doif wp_basic anonymous_account_def simp del: steps.simps intro!: addr uid assms(3))
qed

text \<open>A session with the address of its client.\<close>

definition known :: "vsf_session \<Rightarrow> bool" where
  "known s \<longleftrightarrow> newborn s \<and> cstr (remote_ip_str s) \<noteq> []"

lemma cstr_head: "c \<noteq> NUL \<Longrightarrow> cstr (c # t) \<noteq> []"
  by (simp add: cstr_def)

lemma ntoa_nonempty: "raw \<noteq> [] \<Longrightarrow> cstr (vsf_sysutil_inet_ntoa raw) \<noteq> []"
proof -
  assume "raw \<noteq> []"
  then obtain n ns where "map code raw = n # ns" by (cases raw) auto
  moreover obtain c t where "digits_of 10 n = c # t" "c \<noteq> NUL"
    using digits_of_not_Nil [of 10 n] digits_of_no_NUL [of 10 n] by (cases "digits_of 10 n") auto
  ultimately show ?thesis unfolding vsf_sysutil_inet_ntoa_def by (cases ns) (auto simp: cstr_head)
qed

lemma address_rule:
  assumes "newborn (sess w)" and "wf_addr (p_remote_addr (sess w))" and "prints_addresses E"
    and "\<And>v. known (sess v) \<Longrightarrow> Q () v"
  shows "wp (bnd (gets p_remote_addr) (\<lambda>a. bnd (vsf_sysutil_inet_ntop E a) (\<lambda>ip. upd (remote_ip_str_update (\<lambda>_. cstr ip)))))
    Q (\<lambda>_ _. True) w"
proof -
  have "wp (vsf_sysutil_inet_ntop E a) (\<lambda>ip v. cstr ip \<noteq> [] \<and> v = w) (\<lambda>_ _. True) w" if "wf_addr a" for a
    using that assms(3)
    by (cases a) (auto simp: vsf_sysutil_inet_ntop_def wp_simps prints_addresses_def intro!: ntoa_nonempty)
  from this [OF assms(2)] show ?thesis unfolding wp_bnd wp_basic
    by (rule wp_mono) (use assms(1,4) in \<open>auto simp: wp_basic known_def newborn_def\<close>)
qed

lemma keeps_known:
  "keeps (on_sess known) (emit e)" "keeps (on_sess known) (sys E e)" "keeps (on_sess known) (ssl_init E b)"
  "keeps (on_sess known) (str_fileread E f n)"
proof -
  show e: "keeps (on_sess known) (emit e)" and sys: "keeps (on_sess known) (sys E e)" for E e
    by (simp_all add: keeps_def emit_def sys_def)
  have one: "keeps (on_sess known) (one_or_die E e m)" for e m
    unfolding one_or_die_def by (intro keeps_intros sys)
  then have "keeps (on_sess known) (ssl_certificate E c k n)" for c k n
    unfolding ssl_certificate_def Let_def by (intro keeps_intros)
  moreover have "keeps (on_sess known) (ssl_verification E)"
    unfolding ssl_verification_def by (intro keeps_intros sys e)
  ultimately show "keeps (on_sess known) (ssl_init E b)" unfolding ssl_init_def by (intro keeps_intros sys e one)
  show "keeps (on_sess known) (str_fileread E f n)"
    unfolding str_fileread_def vsf_sysutil_fstat_def vsf_sysutil_statbuf_get_size_def vsf_sysutil_close_def or_die_def Let_def
    by (intro keeps_intros sys)
qed

lemma keeps_read_list: "(\<And>c s. known s \<Longrightarrow> known (store c s)) \<Longrightarrow> keeps (on_sess known) (read_list E file m store)"
  unfolding read_list_def by (intro keeps_intros keeps_known) simp

lemma log_init_keeps: "keeps (on_sess (\<lambda>s. newborn s \<and> wf_addr (p_remote_addr s))) (vsf_log_init E)"
proof -
  let ?I = "on_sess (\<lambda>s. newborn s \<and> wf_addr (p_remote_addr s))"
  have "keeps ?I (emit e)" "keeps ?I (sys E e)" for e by (simp_all add: keeps_def emit_def sys_def)
  then show ?thesis unfolding vsf_log_init_def open_log_def by (intro keeps_intros) simp_all
qed

lemma prepare_rule:
  assumes "newborn (sess w)" and "named_accounts E" and "prints_addresses E"
  shows "wp (prepare_session E b) (\<lambda>_ v. known (sess v) \<and> anonymous_account E \<and> sane E) (\<lambda>_ _. True) w"
proof -
  let ?files = "[vsf_cmdio_sock_setup,
      doif (tb E ''setproctitle_enable'')
        (bnd (gets remote_ip_str) (\<lambda>ip. steps
           [emit (Sys ''vsf_sysutil_set_proctitle_prefix'' [ip] []), emit (Sys ''setproctitle'' [''connected''] [])])),
      doif (tb E ''ssl_enable'') (steps [ssl_init E b, emit (Sys ''ssl_add_entropy'' [] [])]),
      doif (tb E ''deny_email_enable'')
        (read_list E (ts E ''banned_email_file'') ''cannot read anon e-mail list file:''
           (\<lambda>c. banned_email_str_update (\<lambda>_. c))),
      doif (ts E ''banner_file'' \<noteq> None)
        (read_list E (ts E ''banner_file'') ''cannot read banner file:'' (\<lambda>c. banner_str_update (\<lambda>_. c))),
      doif (tb E ''secure_email_list_enable'')
        (read_list E (ts E ''email_password_file'') ''cannot read email passwords file:''
           (\<lambda>c. email_passwords_str_update (\<lambda>_. c)))]"
  have "keeps (on_sess known) (steps ?files)"
    unfolding vsf_cmdio_sock_setup_def by (intro keeps_intros keeps_known keeps_read_list) (simp_all add: known_def)
  then have files: "wp (steps ?files) (\<lambda>_. on_sess known) (\<lambda>_ _. True) v" if "on_sess known v" for v
    by (rule wp_mono [OF keepsD]) (use that in auto)
  have log: "wp (vsf_log_init E) (\<lambda>_. on_sess (\<lambda>s. newborn s \<and> wf_addr (p_remote_addr s))) (\<lambda>_ _. True) v"
    if "newborn (sess v)" "wf_addr (p_remote_addr (sess v))" for v
    by (rule wp_mono [OF keepsD [OF log_init_keeps]]) (use that in auto)
  have start: "wp env_init (\<lambda>_ u. sess u = sess v) (\<lambda>_ _. True) v" for v by (simp add: env_init_def wp_simps)
  show ?thesis unfolding prepare_session_def wp_steps(2) [of "do_sanity_checks E"] wp_steps(2) [of "session_init E"]
      wp_steps(2) [of env_init] wp_steps(2) [of "vsf_log_init E"] wp_steps(2) [of "bnd (gets p_remote_addr) _"]
    by (rule sanity_rule, rule first_session_rule [OF _ assms(2)], simp add: assms(1), rule wp_mono [OF start],
        rule wp_mono [OF log], simp, simp, rule address_rule, simp, simp, rule assms(3), rule wp_mono [OF files]) simp_all
qed

lemma unprivileged_rule:
  assumes "\<And>E'. same_env E E' \<Longrightarrow> (\<And>v. v \<noteq> ''connect_from_port_20'' \<Longrightarrow> v \<noteq> ''chown_uploads'' \<Longrightarrow> tb E' v = tb E v) \<Longrightarrow>
      ts E' = ts E \<Longrightarrow> Q E' w"
  shows "wp (unprivileged_settings E) Q (\<lambda>_ _. True) w"
  unfolding unprivileged_settings_def by (auto simp: wp_simps intro!: assms)

lemma main_rule:
  assumes "channel_ok E" and "named_accounts E" and "prints_addresses E"
  shows "wp (main_settings E argv launch)
    (\<lambda>E' v. fresh E' v \<and> anonymous_account E' \<and> sane E' \<and> same_env E E') (\<lambda>_ _. True) w"
proof -
  have born: "newborn initial_session" by (simp add: newborn_def initial_session_def)
  have settings: "wp (startup_settings E argv) (\<lambda>E1 v. newborn (sess v) \<and> same_env E E1) (\<lambda>_ _. True) v"
    if "newborn (sess v)" for v
    by (rule yields_wp [OF settings_env], rule wp_mono [OF keepsD [OF keeps_load(2)]]) (use that in auto)
  have launched: "wp (launch_session E1 argv launch) (\<lambda>_. on_sess newborn) (\<lambda>_ _. True) v"
    if "newborn (sess v)" for E1 v
    by (rule wp_mono [OF keepsD [OF keeps_launch(1)]]) (use that in auto)
  have config: "wp (environment_config E1) (\<lambda>E2 v. newborn (sess v) \<and> same_env E E2) (\<lambda>_ _. True) v"
    if "newborn (sess v)" "same_env E E1" for E1 v
    by (rule wp_mono [OF yields_wp [OF environment_config_env keepsD [OF keeps_launch(2)]]])
      (use that in \<open>auto intro: same_env_trans\<close>)
  have prepared: "wp (prepare_session E2 b) (\<lambda>_ v. known (sess v) \<and> anonymous_account E2 \<and> sane E2) (\<lambda>_ _. True) v"
    if "newborn (sess v)" "same_env E E2" for E2 b v
    using assms that by (intro prepare_rule) (simp_all add: named_accounts_def prints_addresses_def same_envD)
  have last: "wp (unprivileged_settings E2) (\<lambda>E' v. fresh E' v \<and> anonymous_account E' \<and> sane E' \<and> same_env E E') (\<lambda>_ _. True) v"
    if "known (sess v)" "anonymous_account E2" "sane E2" "same_env E E2" for E2 v
  proof (rule unprivileged_rule, goal_cases)
    case (1 E')
    then have "same_env E E'" using that(4) by (blast intro: same_env_trans)
    then have "channel_ok E'" using assms(1) same_envD(1) by (simp add: channel_ok_def)
    with 1 that \<open>same_env E E'\<close> show ?case
      by (simp add: fresh_def quiet_def known_def newborn_def anonymous_account_def sane_def)
  qed
  show ?thesis unfolding main_settings_def wp_thn wp_bnd wp_basic
    by (rule wp_mono [OF settings], simp add: born, rule wp_mono [OF launched], simp, rule wp_mono [OF config], simp, simp,
        rule wp_mono [OF prepared]) (auto intro!: last)
qed

section \<open>Properties\<close>

text \<open>A server with the default settings, started by root from \<^verbatim>\<open>inetd\<close>.\<close>

definition root_env :: env where
  "root_env = plain_env\<lparr>answers := (\<lambda>tr e. case e of
       Sys f bs ns \<Rightarrow> if f = ''stat'' then - 1 else if f = ''fstat_mode'' then 49152
         else if f = ''getpwnam'' then (if bs = [[]] then 0 else 1) else 0
     | _ \<Rightarrow> 0), texts := (\<lambda>tr e. ''wxyz'')\<rparr>"

lemma root_env_simps:
  "answers root_env tr (Sys f bs ns) = (if f = ''stat'' then - 1 else if f = ''fstat_mode'' then 49152
     else if f = ''getpwnam'' then (if bs = [[]] then 0 else 1) else 0)"
  "texts root_env tr e = ''wxyz''"
  by (simp_all add: root_env_def)

lemma root_default: "\<exists>w'. main_settings root_env [''vsftpd''] (0, 0) (world_with blank_session []) = (Inr (root_env\<lparr>tun := tunables_load_defaults\<rparr>), w')"
proof -
  have names: "tbool tunables_load_defaults ''anonymous_enable''" "tbool tunables_load_defaults ''ftp_enable''"
    "\<not> tbool tunables_load_defaults ''run_as_launching_user''" "\<not> tbool tunables_load_defaults ''setproctitle_enable''"
    "\<not> tbool tunables_load_defaults ''ssl_enable''"  "\<not> tbool tunables_load_defaults ''tcp_wrappers''"
    "\<not> tbool tunables_load_defaults ''one_process_model''" "\<not> tbool tunables_load_defaults ''http_enable''"
    "\<not> tbool tunables_load_defaults ''guest_enable''" "\<not> tbool tunables_load_defaults ''chown_uploads''"
    "\<not> tbool tunables_load_defaults ''syslog_enable''" "\<not> tbool tunables_load_defaults ''xferlog_enable''"
    "\<not> tbool tunables_load_defaults ''dual_log_enable''" "\<not> tbool tunables_load_defaults ''deny_email_enable''"
    "\<not> tbool tunables_load_defaults ''secure_email_list_enable''"
    "tstr tunables_load_defaults ''pasv_address'' = None" "tstr tunables_load_defaults ''ftp_username'' = Some ''ftp''"
    "tstr tunables_load_defaults ''banner_file'' = None"
    by code_simp+
  show ?thesis
    by (simp add: main_settings_def startup_settings_def default_config_def resolve_pasv_address_def launch_session_def
      environment_config_def prepare_session_def do_sanity_checks_def session_init_def control_addr_def account_uid_def
      env_init_def vsf_log_init_def vsf_cmdio_sock_setup_def unprivileged_settings_def or_die_def vsf_sysutil_inet_ntop_def
      vsf_sysutil_retval_is_error_def peer_of_def vsf_sysutil_statbuf_is_socket_def
      Let_def act_defs names root_env_simps)
qed

lemma root_env_ok: "channel_ok root_env" "named_accounts root_env" "prints_addresses root_env"
  by (simp_all add: channel_ok_def named_accounts_def prints_addresses_def root_env_simps cstr_def)

text \<open>C5: what \<^verbatim>\<open>main\<close> hands to the process model, whatever the arguments, the configuration files and the
  environment hold. The session is new: no data connection, listener, target, pending log entry or
  name, no failed login, and the client's address is known. The settings have passed the checks:
  the one-process model has no local users, HTTP is served only in that model, some kind of user and
  some protocol is enabled, and an enabled anonymous user has an account. Only the settings differ
  from the environment \<^verbatim>\<open>main\<close> was called in.\<close>

theorem main_starts:
  assumes "main_settings E argv launch w = (Inr E', w')"
    and "channel_ok E" and "named_accounts E" and "prints_addresses E"
  shows "fresh E' w' \<and> (tb E' ''one_process_model'' \<longrightarrow> \<not> tb E' ''local_enable'') \<and>
    (tb E' ''http_enable'' \<longrightarrow> tb E' ''one_process_model'') \<and> (tb E' ''local_enable'' \<or> tb E' ''anonymous_enable'') \<and>
    (tb E' ''ftp_enable'' \<or> tb E' ''http_enable'') \<and>
    (tb E' ''anonymous_enable'' \<longrightarrow> (\<exists>u. ts E' ''ftp_username'' = Some u \<and> cstr u \<noteq> [])) \<and> (\<exists>T. E' = E\<lparr>tun := T\<rparr>)"
  using main_rule [OF assms(2-4), of argv launch w] assms(1) same_envD(4) [of E E']
  by (simp add: wp_def anonymous_account_def sane_def)

theorem main_starts_witness:
  "\<exists>w'. main_settings root_env [''vsftpd''] (0, 0) (world_with blank_session []) =
       (Inr (root_env\<lparr>tun := tunables_load_defaults\<rparr>), w') \<and> fresh (root_env\<lparr>tun := tunables_load_defaults\<rparr>) w'"
  using root_default main_starts [OF _ root_env_ok] by blast

end
