(* ===== verification/Seccomp.thy ===== *)
theory Seccomp
  imports Logging
begin

text \<open>
  \<^verbatim>\<open>seccompsandbox.c\<close>: the tables of permitted system calls before and after the login and in the broker, and
  the compiler from a table to a filter program of the kernel. The code is for x86-64 and is compiled
  when \<^verbatim>\<open>CLOSE_THIS\<close> is defined; without it the four entry points are empty. The machine that runs filter
  programs is not part of the sources: the locale \<open>bpf_machine\<close> states what is documented of the four
  instructions used.
\<close>

section \<open>Constants of the platform\<close>

text \<open>System call numbers of x86-64.\<close>

abbreviation (input) NR_read :: int where "NR_read \<equiv> 0"
abbreviation (input) NR_write :: int where "NR_write \<equiv> 1"
abbreviation (input) NR_open :: int where "NR_open \<equiv> 2"
abbreviation (input) NR_close :: int where "NR_close \<equiv> 3"
abbreviation (input) NR_stat :: int where "NR_stat \<equiv> 4"
abbreviation (input) NR_fstat :: int where "NR_fstat \<equiv> 5"
abbreviation (input) NR_lstat :: int where "NR_lstat \<equiv> 6"
abbreviation (input) NR_lseek :: int where "NR_lseek \<equiv> 8"
abbreviation (input) NR_mmap :: int where "NR_mmap \<equiv> 9"
abbreviation (input) NR_mprotect :: int where "NR_mprotect \<equiv> 10"
abbreviation (input) NR_munmap :: int where "NR_munmap \<equiv> 11"
abbreviation (input) NR_brk :: int where "NR_brk \<equiv> 12"
abbreviation (input) NR_rt_sigaction :: int where "NR_rt_sigaction \<equiv> 13"
abbreviation (input) NR_rt_sigreturn :: int where "NR_rt_sigreturn \<equiv> 15"
abbreviation (input) NR_select :: int where "NR_select \<equiv> 23"
abbreviation (input) NR_mremap :: int where "NR_mremap \<equiv> 25"
abbreviation (input) NR_nanosleep :: int where "NR_nanosleep \<equiv> 35"
abbreviation (input) NR_alarm :: int where "NR_alarm \<equiv> 37"
abbreviation (input) NR_getpid :: int where "NR_getpid \<equiv> 39"
abbreviation (input) NR_sendfile :: int where "NR_sendfile \<equiv> 40"
abbreviation (input) NR_socket :: int where "NR_socket \<equiv> 41"
abbreviation (input) NR_connect :: int where "NR_connect \<equiv> 42"
abbreviation (input) NR_accept :: int where "NR_accept \<equiv> 43"
abbreviation (input) NR_sendto :: int where "NR_sendto \<equiv> 44"
abbreviation (input) NR_recvfrom :: int where "NR_recvfrom \<equiv> 45"
abbreviation (input) NR_sendmsg :: int where "NR_sendmsg \<equiv> 46"
abbreviation (input) NR_recvmsg :: int where "NR_recvmsg \<equiv> 47"
abbreviation (input) NR_shutdown :: int where "NR_shutdown \<equiv> 48"
abbreviation (input) NR_bind :: int where "NR_bind \<equiv> 49"
abbreviation (input) NR_listen :: int where "NR_listen \<equiv> 50"
abbreviation (input) NR_setsockopt :: int where "NR_setsockopt \<equiv> 54"
abbreviation (input) NR_getsockopt :: int where "NR_getsockopt \<equiv> 55"
abbreviation (input) NR_fcntl :: int where "NR_fcntl \<equiv> 72"
abbreviation (input) NR_ftruncate :: int where "NR_ftruncate \<equiv> 77"
abbreviation (input) NR_getdents :: int where "NR_getdents \<equiv> 78"
abbreviation (input) NR_getcwd :: int where "NR_getcwd \<equiv> 79"
abbreviation (input) NR_chdir :: int where "NR_chdir \<equiv> 80"
abbreviation (input) NR_rename :: int where "NR_rename \<equiv> 82"
abbreviation (input) NR_mkdir :: int where "NR_mkdir \<equiv> 83"
abbreviation (input) NR_rmdir :: int where "NR_rmdir \<equiv> 84"
abbreviation (input) NR_unlink :: int where "NR_unlink \<equiv> 87"
abbreviation (input) NR_readlink :: int where "NR_readlink \<equiv> 89"
abbreviation (input) NR_chmod :: int where "NR_chmod \<equiv> 90"
abbreviation (input) NR_fchmod :: int where "NR_fchmod \<equiv> 91"
abbreviation (input) NR_fchown :: int where "NR_fchown \<equiv> 93"
abbreviation (input) NR_umask :: int where "NR_umask \<equiv> 95"
abbreviation (input) NR_gettimeofday :: int where "NR_gettimeofday \<equiv> 96"
abbreviation (input) NR_utime :: int where "NR_utime \<equiv> 132"
abbreviation (input) NR_restart_syscall :: int where "NR_restart_syscall \<equiv> 219"
abbreviation (input) NR_exit_group :: int where "NR_exit_group \<equiv> 231"
abbreviation (input) NR_utimes :: int where "NR_utimes \<equiv> 235"
abbreviation (input) NR_openat :: int where "NR_openat \<equiv> 257"

text \<open>Arguments and flags.\<close>

abbreviation (input) PF_INET :: int where "PF_INET \<equiv> 2"
abbreviation (input) PF_INET6 :: int where "PF_INET6 \<equiv> 10"
abbreviation (input) SOCK_STREAM :: int where "SOCK_STREAM \<equiv> 1"
abbreviation (input) IPPROTO_IP :: int where "IPPROTO_IP \<equiv> 0"
abbreviation (input) IPPROTO_TCP :: int where "IPPROTO_TCP \<equiv> 6"
abbreviation (input) SOL_SOCKET :: int where "SOL_SOCKET \<equiv> 1"
abbreviation (input) SO_REUSEADDR :: int where "SO_REUSEADDR \<equiv> 2"
abbreviation (input) SO_ERROR :: int where "SO_ERROR \<equiv> 4"
abbreviation (input) SO_KEEPALIVE :: int where "SO_KEEPALIVE \<equiv> 9"
abbreviation (input) SO_LINGER :: int where "SO_LINGER \<equiv> 13"
abbreviation (input) IP_TOS :: int where "IP_TOS \<equiv> 1"
abbreviation (input) TCP_NODELAY :: int where "TCP_NODELAY \<equiv> 1"
abbreviation (input) F_GETFL :: int where "F_GETFL \<equiv> 3"
abbreviation (input) F_SETFL :: int where "F_SETFL \<equiv> 4"
abbreviation (input) F_SETLK :: int where "F_SETLK \<equiv> 6"
abbreviation (input) F_SETLKW :: int where "F_SETLKW \<equiv> 7"
abbreviation (input) F_SETOWN :: int where "F_SETOWN \<equiv> 8"
abbreviation (input) O_RDWR :: int where "O_RDWR \<equiv> 2"
abbreviation (input) O_ACCMODE :: int where "O_ACCMODE \<equiv> 3"
abbreviation (input) O_NONBLOCK :: int where "O_NONBLOCK \<equiv> 2048"
abbreviation (input) PROT_READ :: int where "PROT_READ \<equiv> 1"
abbreviation (input) PROT_READ_WRITE :: int where "PROT_READ_WRITE \<equiv> 3"
abbreviation (input) MAP_SHARED :: int where "MAP_SHARED \<equiv> 1"
abbreviation (input) MAP_PRIVATE_ANON :: int where "MAP_PRIVATE_ANON \<equiv> 34"
abbreviation (input) MSG_PEEK :: int where "MSG_PEEK \<equiv> 2"
abbreviation (input) EACCES :: int where "EACCES \<equiv> 13"
abbreviation (input) ENOSYS :: int where "ENOSYS \<equiv> 38"

text \<open>\<^verbatim>\<open>O_CREAT\<close>, \<^verbatim>\<open>O_EXCL\<close>, \<^verbatim>\<open>O_APPEND\<close>, \<^verbatim>\<open>O_NONBLOCK\<close>, \<^verbatim>\<open>O_DIRECTORY\<close>, \<^verbatim>\<open>O_CLOEXEC\<close>, \<^verbatim>\<open>O_LARGEFILE\<close>.\<close>

definition kOpenFlags :: int where
  "kOpenFlags = 64 + 128 + 1024 + 2048 + 65536 + 524288 + 32768"

section \<open>The table\<close>

definition kMaxSyscalls :: nat where "kMaxSyscalls = 100"

text \<open>One index of the parallel arrays. An argument 0 is not validated; above 100 it is a mask.\<close>

record rule =
  s_syscall :: int
  s_errno :: int
  s_arg_1 :: int
  s_val_1 :: int
  s_arg_2 :: int
  s_val_2 :: int
  s_arg_3 :: int
  s_val_3 :: int

record sandbox =
  s_rules :: "rule list"
  s_1_arg_validations :: nat
  s_2_arg_validations :: nat
  s_3_arg_validations :: nat

definition empty_sandbox :: sandbox where
  "empty_sandbox = \<lparr>s_rules = [], s_1_arg_validations = 0, s_2_arg_validations = 0, s_3_arg_validations = 0\<rparr>"

definition plain_rule :: "int \<Rightarrow> rule" where
  "plain_rule nr = \<lparr>s_syscall = nr, s_errno = 0, s_arg_1 = 0, s_val_1 = 0, s_arg_2 = 0, s_val_2 = 0, s_arg_3 = 0, s_val_3 = 0\<rparr>"

text \<open>The checks all operations begin with, and the new entry.\<close>

definition add_rule :: "int \<Rightarrow> rule \<Rightarrow> sandbox \<Rightarrow> sandbox res" where
  "add_rule nr r S =
     (if length (s_rules S) \<ge> kMaxSyscalls then bug ''out of syscall space''
      else if nr < 0 then bug ''negative syscall''
      else Inr (S\<lparr>s_rules := s_rules S @ [r]\<rparr>))"

definition bad_arg :: "int \<Rightarrow> bool" where
  "bad_arg arg \<longleftrightarrow> arg < 1 \<or> arg > 6"

definition allow_nr :: "int \<Rightarrow> sandbox \<Rightarrow> sandbox res" where
  "allow_nr nr = add_rule nr (plain_rule nr)"

definition reject_nr :: "int \<Rightarrow> int \<Rightarrow> sandbox \<Rightarrow> sandbox res" where
  "reject_nr nr errcode S =
     res_bind (add_rule nr ((plain_rule nr)\<lparr>s_errno := errcode\<rparr>) S) (\<lambda>S'.
     if errcode < 0 \<or> errcode > 255 then bug ''bad errcode'' else Inr S')"

definition allow_nr_1_arg_match :: "int \<Rightarrow> int \<Rightarrow> int \<Rightarrow> sandbox \<Rightarrow> sandbox res" where
  "allow_nr_1_arg_match nr arg val S =
     res_bind (add_rule nr ((plain_rule nr)\<lparr>s_arg_1 := arg, s_val_1 := val\<rparr>) S) (\<lambda>S'.
     if bad_arg arg then bug ''arg out of range''
     else Inr (S'\<lparr>s_1_arg_validations := s_1_arg_validations S' + 1\<rparr>))"

definition allow_nr_1_arg_mask :: "int \<Rightarrow> int \<Rightarrow> int \<Rightarrow> sandbox \<Rightarrow> sandbox res" where
  "allow_nr_1_arg_mask nr arg val S =
     res_bind (add_rule nr ((plain_rule nr)\<lparr>s_arg_1 := 100 + arg, s_val_1 := val\<rparr>) S) (\<lambda>S'.
     if bad_arg arg then bug ''arg out of range''
     else Inr (S'\<lparr>s_1_arg_validations := s_1_arg_validations S' + 1\<rparr>))"

definition allow_nr_2_arg_match :: "int \<Rightarrow> int \<Rightarrow> int \<Rightarrow> int \<Rightarrow> int \<Rightarrow> sandbox \<Rightarrow> sandbox res" where
  "allow_nr_2_arg_match nr arg1 val1 arg2 val2 S =
     res_bind (add_rule nr
       ((plain_rule nr)\<lparr>s_arg_1 := arg1, s_val_1 := val1, s_arg_2 := arg2, s_val_2 := val2\<rparr>) S) (\<lambda>S'.
     if bad_arg arg1 then bug ''arg1 out of range''
     else if bad_arg arg2 then bug ''arg2 out of range''
     else Inr (S'\<lparr>s_2_arg_validations := s_2_arg_validations S' + 1\<rparr>))"

definition allow_nr_2_arg_mask_match :: "int \<Rightarrow> int \<Rightarrow> int \<Rightarrow> int \<Rightarrow> int \<Rightarrow> sandbox \<Rightarrow> sandbox res" where
  "allow_nr_2_arg_mask_match nr arg1 val1 arg2 val2 S =
     res_bind (add_rule nr
       ((plain_rule nr)\<lparr>s_arg_1 := 100 + arg1, s_val_1 := val1, s_arg_2 := arg2, s_val_2 := val2\<rparr>) S) (\<lambda>S'.
     if bad_arg arg1 then bug ''arg1 out of range''
     else if bad_arg arg2 then bug ''arg2 out of range''
     else Inr (S'\<lparr>s_2_arg_validations := s_2_arg_validations S' + 1\<rparr>))"

definition allow_nr_3_arg_match :: "int \<Rightarrow> int \<Rightarrow> int \<Rightarrow> int \<Rightarrow> int \<Rightarrow> int \<Rightarrow> int \<Rightarrow> sandbox \<Rightarrow> sandbox res" where
  "allow_nr_3_arg_match nr arg1 val1 arg2 val2 arg3 val3 S =
     res_bind (add_rule nr
       ((plain_rule nr)\<lparr>s_arg_1 := arg1, s_val_1 := val1, s_arg_2 := arg2, s_val_2 := val2,
          s_arg_3 := arg3, s_val_3 := val3\<rparr>) S) (\<lambda>S'.
     if bad_arg arg1 then bug ''arg1 out of range''
     else if bad_arg arg2 then bug ''arg2 out of range''
     else if bad_arg arg3 then bug ''arg3 out of range''
     else Inr (S'\<lparr>s_3_arg_validations := s_3_arg_validations S' + 1\<rparr>))"

section \<open>The policies\<close>

text \<open>Operations in order; the second form under a condition.\<close>

primrec apply_rules :: "(sandbox \<Rightarrow> sandbox res) list \<Rightarrow> sandbox \<Rightarrow> sandbox res" where
  "apply_rules [] S = Inr S"
| "apply_rules (f # fs) S = res_bind (f S) (apply_rules fs)"

definition only_if :: "bool \<Rightarrow> (sandbox \<Rightarrow> sandbox res) list \<Rightarrow> sandbox \<Rightarrow> sandbox res" where
  "only_if b fs = (if b then apply_rules fs else Inr)"

definition seccomp_sandbox_setup_data_connections :: "env \<Rightarrow> sandbox \<Rightarrow> sandbox res" where
  "seccomp_sandbox_setup_data_connections E = apply_rules
     [allow_nr_3_arg_match NR_socket 1 PF_INET 2 SOCK_STREAM 3 IPPROTO_TCP,
      allow_nr_3_arg_match NR_socket 1 PF_INET6 2 SOCK_STREAM 3 IPPROTO_TCP,
      allow_nr NR_bind,
      allow_nr NR_select,
      only_if (tb E ''port_enable'')
        [allow_nr NR_connect,
         allow_nr_2_arg_match NR_getsockopt 2 SOL_SOCKET 3 SO_ERROR,
         allow_nr_2_arg_match NR_setsockopt 2 SOL_SOCKET 3 SO_REUSEADDR,
         allow_nr_1_arg_match NR_fcntl 2 F_GETFL,
         allow_nr_2_arg_match NR_fcntl 2 F_SETFL 3 (O_RDWR + O_NONBLOCK),
         allow_nr_2_arg_match NR_fcntl 2 F_SETFL 3 O_RDWR],
      only_if (tb E ''pasv_enable'') [allow_nr NR_listen, allow_nr NR_accept]]"

definition seccomp_sandbox_setup_cos :: "sandbox \<Rightarrow> sandbox res" where
  "seccomp_sandbox_setup_cos = apply_rules
     [allow_nr_3_arg_match NR_socket 1 PF_INET 2 SOCK_STREAM 3 IPPROTO_TCP,
      allow_nr_3_arg_match NR_socket 1 PF_INET6 2 SOCK_STREAM 3 IPPROTO_TCP,
      allow_nr NR_bind,
      allow_nr NR_select,
      allow_nr NR_listen,
      allow_nr NR_accept,
      allow_nr NR_connect,
      allow_nr_2_arg_match NR_getsockopt 2 SOL_SOCKET 3 SO_ERROR,
      allow_nr_2_arg_match NR_setsockopt 2 SOL_SOCKET 3 SO_REUSEADDR,
      allow_nr_1_arg_match NR_fcntl 2 F_GETFL,
      allow_nr_2_arg_match NR_fcntl 2 F_SETFL 3 (O_RDWR + O_NONBLOCK),
      allow_nr_2_arg_match NR_fcntl 2 F_SETFL 3 O_RDWR,
      allow_nr NR_mkdir]"

definition seccomp_sandbox_setup_base :: "sandbox \<Rightarrow> sandbox res" where
  "seccomp_sandbox_setup_base = apply_rules
     [allow_nr NR_read,
      allow_nr NR_write,
      allow_nr_2_arg_match NR_mmap 3 PROT_READ_WRITE 4 MAP_PRIVATE_ANON,
      allow_nr_1_arg_mask NR_mprotect 3 PROT_READ,
      allow_nr NR_munmap,
      allow_nr NR_brk,
      reject_nr NR_mremap ENOSYS,
      allow_nr NR_gettimeofday,
      allow_nr NR_rt_sigreturn,
      allow_nr NR_restart_syscall,
      allow_nr NR_close,
      allow_nr NR_exit_group]"

definition seccomp_sandbox_init :: "sandbox \<Rightarrow> sandbox res" where
  "seccomp_sandbox_init S = (if s_rules S \<noteq> [] then bug ''bad state in seccomp_sandbox_init'' else Inr S)"

definition seccomp_sandbox_setup_prelogin :: "env \<Rightarrow> sandbox \<Rightarrow> sandbox res" where
  "seccomp_sandbox_setup_prelogin E = apply_rules
     [seccomp_sandbox_setup_base,
      allow_nr_1_arg_match NR_recvfrom 4 MSG_PEEK,
      allow_nr NR_nanosleep,
      allow_nr NR_getpid,
      allow_nr NR_shutdown,
      allow_nr_1_arg_match NR_fcntl 2 F_GETFL,
      allow_nr_2_arg_mask_match NR_fcntl 3 (kOpenFlags + O_ACCMODE) 2 F_SETFL,
      only_if (tu E ''idle_session_timeout'' > 0) [allow_nr NR_rt_sigaction, allow_nr NR_alarm],
      only_if (tb E ''xferlog_enable'' \<or> tb E ''dual_log_enable'')
        [allow_nr_1_arg_match NR_fcntl 2 F_SETLKW, allow_nr_1_arg_match NR_fcntl 2 F_SETLK],
      only_if (tb E ''ssl_enable'')
        [allow_nr_1_arg_match NR_recvmsg 3 0, allow_nr_2_arg_match NR_setsockopt 2 IPPROTO_TCP 3 TCP_NODELAY],
      only_if (tb E ''syslog_enable'') [reject_nr NR_socket EACCES]]"

text \<open>\<open>pid\<close> is the process number.\<close>

definition seccomp_sandbox_setup_postlogin :: "env \<Rightarrow> bool \<Rightarrow> int \<Rightarrow> sandbox \<Rightarrow> sandbox res" where
  "seccomp_sandbox_setup_postlogin E is_anon pid =
     (let open_flag = kOpenFlags + (if tb E ''write_enable'' then O_ACCMODE else 0) in apply_rules
     [allow_nr NR_lstat,
      seccomp_sandbox_setup_prelogin E,
      only_if (tb E ''xferlog_enable'' \<or> tb E ''dual_log_enable'' \<or> tb E ''lock_upload_files'')
        [allow_nr_1_arg_match NR_fcntl 2 F_SETLKW, allow_nr_1_arg_match NR_fcntl 2 F_SETLK],
      only_if (tb E ''async_abor_enable'') [allow_nr_2_arg_match NR_fcntl 2 F_SETOWN 3 pid],
      allow_nr_2_arg_match NR_setsockopt 2 SOL_SOCKET 3 SO_KEEPALIVE,
      allow_nr_2_arg_match NR_setsockopt 2 SOL_SOCKET 3 SO_LINGER,
      allow_nr_2_arg_match NR_setsockopt 2 IPPROTO_IP 3 IP_TOS,
      allow_nr NR_fstat,
      allow_nr NR_lseek,
      allow_nr_1_arg_mask NR_open 2 open_flag,
      allow_nr_1_arg_mask NR_openat 3 open_flag,
      allow_nr NR_stat,
      allow_nr NR_readlink,
      allow_nr NR_getcwd,
      allow_nr NR_chdir,
      allow_nr NR_getdents,
      allow_nr NR_umask,
      only_if (tb E ''use_sendfile'') [allow_nr NR_sendfile],
      only_if (tu E ''idle_session_timeout'' > 0 \<or> tu E ''data_connection_timeout'' > 0 \<or> tb E ''async_abor_enable'')
        [allow_nr NR_rt_sigaction],
      only_if (tu E ''idle_session_timeout'' > 0 \<or> tu E ''data_connection_timeout'' > 0) [allow_nr NR_alarm],
      if tb E ''one_process_model'' then apply_rules
        [seccomp_sandbox_setup_data_connections E,
         only_if (is_anon \<and> tb E ''chown_uploads'') [allow_nr NR_fchmod, allow_nr NR_fchown]]
      else apply_rules
        [allow_nr_1_arg_match NR_recvmsg 3 0,
         only_if (is_anon \<and> tb E ''chown_uploads'' \<or> tb E ''ssl_enable'') [allow_nr_1_arg_match NR_sendmsg 3 0]],
      only_if (tb E ''syslog_enable'') [allow_nr_1_arg_match NR_sendto 6 0],
      only_if (tb E ''text_userdb_names'')
        [reject_nr NR_socket EACCES, allow_nr_2_arg_match NR_mmap 3 PROT_READ 4 MAP_SHARED],
      only_if (tb E ''write_enable'')
        [only_if (\<not> is_anon \<or> tb E ''anon_mkdir_write_enable'') [allow_nr NR_mkdir],
         only_if (\<not> is_anon \<or> tb E ''anon_other_write_enable'' \<or> tb E ''delete_failed_uploads'') [allow_nr NR_unlink],
         only_if (\<not> is_anon \<or> tb E ''anon_other_write_enable'')
           [allow_nr NR_rmdir, allow_nr NR_rename, allow_nr NR_ftruncate,
            only_if (tb E ''mdtm_write'') [allow_nr NR_utime, allow_nr NR_utimes]],
         only_if (\<not> is_anon \<and> tb E ''chmod_enable'') [allow_nr NR_chmod]],
      seccomp_sandbox_setup_cos])"

definition seccomp_sandbox_setup_postlogin_broker :: "env \<Rightarrow> sandbox \<Rightarrow> sandbox res" where
  "seccomp_sandbox_setup_postlogin_broker E = apply_rules
     [seccomp_sandbox_setup_base,
      seccomp_sandbox_setup_data_connections E,
      allow_nr_1_arg_match NR_sendmsg 3 0]"

section \<open>The filter program\<close>

record sock_filter =
  code_of :: "16 word"
  jt :: "8 word"
  jf :: "8 word"
  k :: "32 word"

abbreviation (input) BPF_LD_W_ABS :: "16 word" where "BPF_LD_W_ABS \<equiv> 0x20"
abbreviation (input) BPF_JMP_JEQ_K :: "16 word" where "BPF_JMP_JEQ_K \<equiv> 0x15"
abbreviation (input) BPF_JMP_JSET_K :: "16 word" where "BPF_JMP_JSET_K \<equiv> 0x45"
abbreviation (input) BPF_RET_K :: "16 word" where "BPF_RET_K \<equiv> 0x06"

definition AUDIT_ARCH_X86_64 :: "32 word" where "AUDIT_ARCH_X86_64 = 0xc000003e"
definition SECCOMP_RET_KILL :: "32 word" where "SECCOMP_RET_KILL = 0"
definition SECCOMP_RET_ALLOW :: "32 word" where "SECCOMP_RET_ALLOW = 0x7fff0000"
definition SECCOMP_RET_ERRNO :: "32 word" where "SECCOMP_RET_ERRNO = 0x00050000"

definition insn :: "16 word \<Rightarrow> nat \<Rightarrow> nat \<Rightarrow> 32 word \<Rightarrow> sock_filter" where
  "insn c t f x = \<lparr>code_of = c, jt = word_of_nat t, jf = word_of_nat f, k = x\<rparr>"

definition load :: "int \<Rightarrow> sock_filter" where
  "load offset = insn BPF_LD_W_ABS 0 0 (word_of_int offset)"

definition arg_offset :: "int \<Rightarrow> int" where
  "arg_offset arg = 16 + (arg - 1) * 8"

definition block_size :: "rule \<Rightarrow> nat" where
  "block_size r = (if s_arg_3 r \<noteq> 0 then 8 else if s_arg_2 r \<noteq> 0 then 6 else if s_arg_1 r \<noteq> 0 then 4 else 1)"

definition verdict_of :: "rule \<Rightarrow> 32 word" where
  "verdict_of r = (if s_errno r = 0 then SECCOMP_RET_ALLOW else SECCOMP_RET_ERRNO + word_of_int (s_errno r))"

text \<open>The instructions of one entry.\<close>

definition first_arg :: "rule \<Rightarrow> sock_filter list" where
  "first_arg r =
     (if s_arg_1 r = 0 then []
      else if s_arg_1 r > 100 then
        [load (arg_offset (s_arg_1 r - 100)), insn BPF_JMP_JSET_K 1 0 (NOT (word_of_int (s_val_1 r)))]
      else [load (arg_offset (s_arg_1 r)), insn BPF_JMP_JEQ_K 0 1 (word_of_int (s_val_1 r))])"

definition filter_block :: "rule \<Rightarrow> sock_filter list" where
  "filter_block r =
     [insn BPF_JMP_JEQ_K 0 (block_size r) (word_of_int (s_syscall r))] @
     (if s_arg_3 r \<noteq> 0
      then [load (arg_offset (s_arg_3 r)), insn BPF_JMP_JEQ_K 0 5 (word_of_int (s_val_3 r))] else []) @
     (if s_arg_2 r \<noteq> 0
      then [load (arg_offset (s_arg_2 r)), insn BPF_JMP_JEQ_K 0 3 (word_of_int (s_val_2 r))] else []) @
     first_arg r @
     [insn BPF_RET_K 0 0 (verdict_of r)] @
     (if s_arg_1 r \<noteq> 0 then [load 0] else [])"

definition filter_program :: "sandbox \<Rightarrow> sock_filter list" where
  "filter_program S =
     [load 4, insn BPF_JMP_JEQ_K 1 0 AUDIT_ARCH_X86_64, insn BPF_RET_K 0 0 SECCOMP_RET_KILL, load 0] @
     concat (map filter_block (s_rules S)) @ [insn BPF_RET_K 0 0 SECCOMP_RET_KILL]"

text \<open>The size of the array the program is written to.\<close>

definition filter_len :: "sandbox \<Rightarrow> nat" where
  "filter_len S = length (s_rules S) * 2 + s_1_arg_validations S * 3 + s_2_arg_validations S * 5 +
     s_3_arg_validations S * 7 + 5"

text \<open>The program that is installed, if any: \<^verbatim>\<open>prctl\<close> may report that the kernel is too old (22 is
  \<^verbatim>\<open>EINVAL\<close>).\<close>

definition seccomp_sandbox_lockdown :: "env \<Rightarrow> sandbox \<Rightarrow> sock_filter list option act" where
  "seccomp_sandbox_lockdown E S =
     bnd (sys E (Sys ''prctl'' [''PR_SET_NO_NEW_PRIVS''] [])) (\<lambda>r.
     if r \<noteq> 0 then
       bnd (ask E (Sys ''errno'' [] [])) (\<lambda>errno.
       if errno = 22 then ret None else lift (die ''prctl PR_SET_NO_NEW_PRIVS''))
     else if \<not> tb E ''seccomp_sandbox'' then ret None
     else
       bnd (sys E (Sys ''prctl'' [''PR_SET_SECCOMP''] [])) (\<lambda>r.
       if r \<noteq> 0 then
         bnd (ask E (Sys ''errno'' [] [])) (\<lambda>errno.
         if errno = 22 then ret None else lift (die ''prctl PR_SET_SECCOMP failed''))
       else ret (Some (filter_program S))))"

section \<open>What a table means\<close>

text \<open>The low word of an argument of a call.\<close>

definition arg_word :: "(32 word \<Rightarrow> 32 word) \<Rightarrow> int \<Rightarrow> 32 word" where
  "arg_word d arg = d (word_of_int (arg_offset arg))"

definition rule_matches :: "(32 word \<Rightarrow> 32 word) \<Rightarrow> rule \<Rightarrow> bool" where
  "rule_matches d r \<longleftrightarrow> d 0 = word_of_int (s_syscall r) \<and>
     (s_arg_3 r = 0 \<or> arg_word d (s_arg_3 r) = word_of_int (s_val_3 r)) \<and>
     (s_arg_2 r = 0 \<or> arg_word d (s_arg_2 r) = word_of_int (s_val_2 r)) \<and>
     (s_arg_1 r = 0 \<or>
      (if s_arg_1 r > 100 then arg_word d (s_arg_1 r - 100) AND NOT (word_of_int (s_val_1 r)) = 0
       else arg_word d (s_arg_1 r) = word_of_int (s_val_1 r)))"

text \<open>The first entry that matches decides; a call that no entry matches is fatal.\<close>

fun decide :: "rule list \<Rightarrow> (32 word \<Rightarrow> 32 word) \<Rightarrow> 32 word" where
  "decide [] d = SECCOMP_RET_KILL"
| "decide (r # rs) d = (if rule_matches d r then verdict_of r else decide rs d)"

definition policy :: "sandbox \<Rightarrow> (32 word \<Rightarrow> 32 word) \<Rightarrow> 32 word" where
  "policy S d = (if d 4 \<noteq> AUDIT_ARCH_X86_64 then SECCOMP_RET_KILL else decide (s_rules S) d)"

text \<open>Entries as the operations write them: arguments are used in order.\<close>

definition wf_rule :: "rule \<Rightarrow> bool" where
  "wf_rule r \<longleftrightarrow> (s_arg_3 r \<noteq> 0 \<longrightarrow> s_arg_2 r \<noteq> 0) \<and> (s_arg_2 r \<noteq> 0 \<longrightarrow> s_arg_1 r \<noteq> 0)"

section \<open>The machine\<close>

text \<open>A state of the machine is a position in a program and the accumulator; \<open>d\<close> gives the 32-bit words of
  the description of a call by their offset. \<open>exec p pc a d\<close> is the answer of the program.\<close>

locale bpf_machine =
  fixes exec :: "sock_filter list \<Rightarrow> nat \<Rightarrow> 32 word \<Rightarrow> (32 word \<Rightarrow> 32 word) \<Rightarrow> 32 word"
  assumes exec_load: "pc < length p \<Longrightarrow> code_of (p ! pc) = BPF_LD_W_ABS \<Longrightarrow> exec p pc a d = exec p (pc + 1) (d (k (p ! pc))) d"
    and exec_jeq: "pc < length p \<Longrightarrow> code_of (p ! pc) = BPF_JMP_JEQ_K \<Longrightarrow>
      exec p pc a d = exec p (pc + 1 + unat (if a = k (p ! pc) then jt (p ! pc) else jf (p ! pc))) a d"
    and exec_jset: "pc < length p \<Longrightarrow> code_of (p ! pc) = BPF_JMP_JSET_K \<Longrightarrow>
      exec p pc a d = exec p (pc + 1 + unat (if a AND k (p ! pc) \<noteq> 0 then jt (p ! pc) else jf (p ! pc))) a d"
    and exec_ret: "pc < length p \<Longrightarrow> code_of (p ! pc) = BPF_RET_K \<Longrightarrow> exec p pc a d = k (p ! pc)"
begin

text \<open>Instructions inside a program.\<close>

lemma step:
  assumes "i < length b"
  shows "b ! i = insn BPF_LD_W_ABS t f x \<Longrightarrow> exec (q @ b @ r) (length q + i) a d = exec (q @ b @ r) (length q + (i + 1)) (d x) d"
    and "b ! i = insn BPF_JMP_JEQ_K t f x \<Longrightarrow> exec (q @ b @ r) (length q + i) a d =
      exec (q @ b @ r) (length q + (i + 1 + unat (word_of_nat (if a = x then t else f) :: 8 word))) a d"
    and "b ! i = insn BPF_JMP_JSET_K t f x \<Longrightarrow> exec (q @ b @ r) (length q + i) a d =
      exec (q @ b @ r) (length q + (i + 1 + unat (word_of_nat (if a AND x \<noteq> 0 then t else f) :: 8 word))) a d"
    and "b ! i = insn BPF_RET_K t f x \<Longrightarrow> exec (q @ b @ r) (length q + i) a d = x"
proof -
  have at: "(q @ b @ r) ! (length q + i) = b ! i" "length q + i < length (q @ b @ r)"
    using assms by (simp_all add: nth_append)
  show "b ! i = insn BPF_LD_W_ABS t f x \<Longrightarrow> exec (q @ b @ r) (length q + i) a d = exec (q @ b @ r) (length q + (i + 1)) (d x) d"
    using exec_load [OF at(2)] at(1) by (simp add: insn_def)
  show "b ! i = insn BPF_JMP_JEQ_K t f x \<Longrightarrow> exec (q @ b @ r) (length q + i) a d =
      exec (q @ b @ r) (length q + (i + 1 + unat (word_of_nat (if a = x then t else f) :: 8 word))) a d"
    using exec_jeq [OF at(2)] at(1) by (simp add: insn_def add.assoc)
  show "b ! i = insn BPF_JMP_JSET_K t f x \<Longrightarrow> exec (q @ b @ r) (length q + i) a d =
      exec (q @ b @ r) (length q + (i + 1 + unat (word_of_nat (if a AND x \<noteq> 0 then t else f) :: 8 word))) a d"
    using exec_jset [OF at(2)] at(1) by (simp add: insn_def add.assoc)
  show "b ! i = insn BPF_RET_K t f x \<Longrightarrow> exec (q @ b @ r) (length q + i) a d = x"
    using exec_ret [OF at(2)] at(1) by (simp add: insn_def)
qed

lemma block_exec:
  assumes "wf_rule r"
  shows "exec (q @ filter_block r @ ps) (length q) (d 0) d =
    (if rule_matches d r then verdict_of r
     else exec (q @ filter_block r @ ps) (length q + length (filter_block r)) (d 0) d)"
proof -
  let ?b = "filter_block r"
  define X where "X i a = exec (q @ ?b @ ps) (length q + i) a d" for i a
  have ld: "X i a = X (i + 1) (d x)" if "i < length ?b" "?b ! i = insn BPF_LD_W_ABS 0 0 x" for i a x
    unfolding X_def by (rule step(1) [OF that])
  have jeq: "X i a = X (i + 1 + unat (word_of_nat (if a = x then t else f) :: 8 word)) a"
    if "i < length ?b" "?b ! i = insn BPF_JMP_JEQ_K t f x" for i a x t f
    unfolding X_def by (rule step(2) [OF that])
  have jset: "X i a = X (i + 1 + unat (word_of_nat (if a AND x \<noteq> 0 then t else f) :: 8 word)) a"
    if "i < length ?b" "?b ! i = insn BPF_JMP_JSET_K t f x" for i a x t f
    unfolding X_def by (rule step(3) [OF that])
  have rt: "X i a = x" if "i < length ?b" "?b ! i = insn BPF_RET_K 0 0 x" for i a x
    unfolding X_def by (rule step(4) [OF that])
  note defs = filter_block_def first_arg_def load_def block_size_def
  let ?ok = "if s_arg_1 r > 100 then arg_word d (s_arg_1 r - 100) AND NOT (word_of_int (s_val_1 r)) = 0
    else arg_word d (s_arg_1 r) = word_of_int (s_val_1 r)"
  have tail: "X i a = (if ?ok then verdict_of r else X (i + 4) (d 0))"
    if "s_arg_1 r \<noteq> 0" and n: "length ?b = i + 4"
      and b: "?b ! i = hd (first_arg r)" "?b ! (i + 1) = last (first_arg r)" "?b ! (i + 2) = insn BPF_RET_K 0 0 (verdict_of r)"
        "?b ! (i + 3) = load 0" for i a
  proof -
    have ret: "X (i + 2) c = verdict_of r" "X (i + 3) c = X (i + 4) (d 0)" for c
      using rt [of "i + 2" "verdict_of r" c] ld [of "i + 3" 0 c] n b by (simp_all add: load_def add.commute)
    show ?thesis
    proof (cases "s_arg_1 r > 100")
      case True
      then have "first_arg r = [load (arg_offset (s_arg_1 r - 100)), insn BPF_JMP_JSET_K 1 0 (NOT (word_of_int (s_val_1 r)))]"
        by (simp add: first_arg_def)
      with True show ?thesis using ld [of i _ a] jset [of "i + 1" 1 0 _ "arg_word d (s_arg_1 r - 100)"] n b ret
        by (simp add: load_def arg_word_def add.assoc numeral_3_eq_3)
    next
      case False
      then have "first_arg r = [load (arg_offset (s_arg_1 r)), insn BPF_JMP_JEQ_K 0 1 (word_of_int (s_val_1 r))]"
        using that(1) by (simp add: first_arg_def)
      with False show ?thesis using ld [of i _ a] jeq [of "i + 1" 0 1 _ "arg_word d (s_arg_1 r)"] n b ret
        by (simp add: load_def arg_word_def add.assoc numeral_3_eq_3)
    qed
  qed
  have pair: "\<exists>x y. first_arg r = [x, y]" if "s_arg_1 r \<noteq> 0" using that by (simp add: first_arg_def)
  consider (plain) "s_arg_1 r = 0" "s_arg_2 r = 0" "s_arg_3 r = 0" | (one) "s_arg_1 r \<noteq> 0" "s_arg_2 r = 0" "s_arg_3 r = 0"
    | (two) "s_arg_1 r \<noteq> 0" "s_arg_2 r \<noteq> 0" "s_arg_3 r = 0" | (three) "s_arg_1 r \<noteq> 0" "s_arg_2 r \<noteq> 0" "s_arg_3 r \<noteq> 0"
    using assms by (auto simp: wf_rule_def)
  then have "X 0 (d 0) = (if rule_matches d r then verdict_of r else X (length ?b) (d 0))"
  proof cases
    case plain
    then have b: "?b = [insn BPF_JMP_JEQ_K 0 1 (word_of_int (s_syscall r)), insn BPF_RET_K 0 0 (verdict_of r)]"
      by (simp add: defs)
    have "X 0 (d 0) = (if d 0 = word_of_int (s_syscall r) then X 1 (d 0) else X (length ?b) (d 0))"
      using jeq [of 0 0 1 _ "d 0"] b by (simp add: numeral_2_eq_2)
    moreover have "X 1 (d 0) = verdict_of r" using rt [of 1 _ "d 0"] b by simp
    ultimately show ?thesis using plain by (simp only: rule_matches_def simp_thms split: if_split)
  next
    case one
    obtain x y where xy: "first_arg r = [x, y]" using pair one(1) by blast
    with one have b: "?b = [insn BPF_JMP_JEQ_K 0 4 (word_of_int (s_syscall r)), x, y, insn BPF_RET_K 0 0 (verdict_of r), load 0]"
      by (simp add: filter_block_def block_size_def)
    have l: "length ?b = 5" using b by simp
    have "X 0 (d 0) = (if d 0 = word_of_int (s_syscall r) then X 1 (d 0) else X (length ?b) (d 0))"
      unfolding l using jeq [of 0 0 4 _ "d 0"] b by simp
    moreover have "X 1 (d 0) = (if ?ok then verdict_of r else X (length ?b) (d 0))"
      unfolding l using tail [of 1 "d 0"] one(1) b xy l by simp
    ultimately show ?thesis using one by (simp only: rule_matches_def simp_thms split: if_split) blast
  next
    case two
    obtain x y where xy: "first_arg r = [x, y]" using pair two(1) by blast
    with two have b: "?b = [insn BPF_JMP_JEQ_K 0 6 (word_of_int (s_syscall r)), load (arg_offset (s_arg_2 r)),
        insn BPF_JMP_JEQ_K 0 3 (word_of_int (s_val_2 r)), x, y, insn BPF_RET_K 0 0 (verdict_of r), load 0]"
      by (simp add: filter_block_def block_size_def)
    have l: "length ?b = 7" using b by simp
    let ?w = "arg_word d (s_arg_2 r)"
    have "X 0 (d 0) = (if d 0 = word_of_int (s_syscall r) then X 1 (d 0) else X (length ?b) (d 0))"
      unfolding l using jeq [of 0 0 6 _ "d 0"] b by simp
    moreover have "X 1 (d 0) = X 2 ?w" unfolding l using ld [of 1 _ "d 0"] b by (simp add: load_def arg_word_def numeral_2_eq_2)
    moreover have "X 6 ?w = X (length ?b) (d 0)" unfolding l using ld [of 6 0 ?w] b by (simp add: load_def)
    then have "X 2 ?w = (if ?w = word_of_int (s_val_2 r) then X 3 ?w else X (length ?b) (d 0))"
      unfolding l using jeq [of 2 0 3 _ ?w] b by simp
    moreover have "X 3 ?w = (if ?ok then verdict_of r else X (length ?b) (d 0))"
      unfolding l using tail [of 3 ?w] two(1) b xy l by simp
    ultimately show ?thesis using two by (simp only: rule_matches_def simp_thms split: if_split) blast
  next
    case three
    obtain x y where xy: "first_arg r = [x, y]" using pair three(1) by blast
    with three have b: "?b = [insn BPF_JMP_JEQ_K 0 8 (word_of_int (s_syscall r)), load (arg_offset (s_arg_3 r)),
        insn BPF_JMP_JEQ_K 0 5 (word_of_int (s_val_3 r)), load (arg_offset (s_arg_2 r)),
        insn BPF_JMP_JEQ_K 0 3 (word_of_int (s_val_2 r)), x, y, insn BPF_RET_K 0 0 (verdict_of r), load 0]"
      by (simp add: filter_block_def block_size_def)
    have l: "length ?b = 9" using b by simp
    let ?w = "arg_word d (s_arg_2 r)" and ?v = "arg_word d (s_arg_3 r)"
    have "X 0 (d 0) = (if d 0 = word_of_int (s_syscall r) then X 1 (d 0) else X (length ?b) (d 0))"
      unfolding l using jeq [of 0 0 8 _ "d 0"] b by simp
    moreover have "X 1 (d 0) = X 2 ?v" unfolding l using ld [of 1 _ "d 0"] b by (simp add: load_def arg_word_def numeral_2_eq_2)
    moreover have fin: "X 8 c = X (length ?b) (d 0)" for c unfolding l using ld [of 8 0 c] b by (simp add: load_def)
    then have "X 2 ?v = (if ?v = word_of_int (s_val_3 r) then X 3 ?v else X (length ?b) (d 0))"
      unfolding l using jeq [of 2 0 5 _ ?v] b by simp
    moreover have "X 3 ?v = X 4 ?w" unfolding l using ld [of 3 _ ?v] b by (simp add: load_def arg_word_def)
    moreover have "X 4 ?w = (if ?w = word_of_int (s_val_2 r) then X 5 ?w else X (length ?b) (d 0))"
      unfolding l using jeq [of 4 0 3 _ ?w] b fin [unfolded l] by simp
    moreover have "X 5 ?w = (if ?ok then verdict_of r else X (length ?b) (d 0))"
      unfolding l using tail [of 5 ?w] three(1) b xy l by simp
    ultimately show ?thesis using three by (simp only: rule_matches_def simp_thms split: if_split) blast
  qed
  then show ?thesis by (simp add: X_def)
qed

lemma rules_exec:
  "\<forall>r \<in> set rs. wf_rule r \<Longrightarrow>
    exec (q @ concat (map filter_block rs) @ [insn BPF_RET_K 0 0 SECCOMP_RET_KILL]) (length q) (d 0) d = decide rs d"
proof (induction rs arbitrary: q)
  case Nil
  then show ?case using step(4) [of 0 "[insn BPF_RET_K 0 0 SECCOMP_RET_KILL]" 0 0 _ q "[]" "d 0" d] by simp
next
  case (Cons r rs)
  let ?rest = "concat (map filter_block rs) @ [insn BPF_RET_K 0 0 SECCOMP_RET_KILL]"
  have "exec (q @ filter_block r @ ?rest) (length q + length (filter_block r)) (d 0) d = decide rs d"
    using Cons.IH [of "q @ filter_block r"] Cons.prems by simp
  then show ?case using block_exec [of r q ?rest d] Cons.prems by simp
qed

lemma program_exec:
  assumes "\<forall>r \<in> set (s_rules S). wf_rule r"
  shows "exec (filter_program S) 0 a d = policy S d"
proof -
  let ?b = "[load 4, insn BPF_JMP_JEQ_K 1 0 AUDIT_ARCH_X86_64, insn BPF_RET_K 0 0 SECCOMP_RET_KILL, load 0]"
  let ?rest = "concat (map filter_block (s_rules S)) @ [insn BPF_RET_K 0 0 SECCOMP_RET_KILL]"
  have p: "filter_program S = [] @ ?b @ ?rest" by (simp add: filter_program_def)
  have "exec ([] @ ?b @ ?rest) 0 a d = exec ([] @ ?b @ ?rest) 1 (d 4) d"
    using step(1) [of 0 ?b 0 0 4 "[]" ?rest a d] by (simp add: load_def)
  also have "\<dots> = exec ([] @ ?b @ ?rest) (if d 4 = AUDIT_ARCH_X86_64 then 3 else 2) (d 4) d"
    using step(2) [of 1 ?b 1 0 AUDIT_ARCH_X86_64 "[]" ?rest "d 4" d] by (simp add: numeral_2_eq_2 numeral_3_eq_3)
  also have "\<dots> = policy S d"
  proof (cases "d 4 = AUDIT_ARCH_X86_64")
    case True
    have "exec ([] @ ?b @ ?rest) 3 (d 4) d = exec ([] @ ?b @ ?rest) 4 (d 0) d"
      using step(1) [of 3 ?b 0 0 0 "[]" ?rest "d 4" d] by (simp add: load_def)
    also have "\<dots> = decide (s_rules S) d" using rules_exec [OF assms, of ?b d] by (simp add: eval_nat_numeral)
    finally show ?thesis using True by (simp only: if_True policy_def) simp
  next
    case False
    then show ?thesis using step(4) [of 2 ?b 0 0 SECCOMP_RET_KILL "[]" ?rest "d 4" d] by (simp add: policy_def eval_nat_numeral)
  qed
  finally show ?thesis unfolding p .
qed

end

text \<open>The documented instructions, executable: jumps only go forward.\<close>

function bpf_run :: "sock_filter list \<Rightarrow> nat \<Rightarrow> 32 word \<Rightarrow> (32 word \<Rightarrow> 32 word) \<Rightarrow> 32 word" where
  "bpf_run p pc a d =
     (if pc \<ge> length p then SECCOMP_RET_KILL
      else let i = p ! pc in
        if code_of i = BPF_LD_W_ABS then bpf_run p (pc + 1) (d (k i)) d
        else if code_of i = BPF_JMP_JEQ_K then bpf_run p (pc + 1 + unat (if a = k i then jt i else jf i)) a d
        else if code_of i = BPF_JMP_JSET_K then bpf_run p (pc + 1 + unat (if a AND k i \<noteq> 0 then jt i else jf i)) a d
        else k i)"
  by pat_completeness auto
termination
  by (relation "measure (\<lambda>(p, pc, a, d). length p - pc)") auto

declare bpf_run.simps [simp del]

interpretation kernel: bpf_machine bpf_run
  by unfold_locales (subst bpf_run.simps, simp add: Let_def)+

end
