(* ===== verification/Sandbox.thy ===== *)
theory Sandbox
  imports Seccomp
begin

text \<open>
  The policies of \<^verbatim>\<open>seccompsandbox.c\<close>: every operation keeps the table in order, the three policies fit into it, the
  compiled filters decide as the tables do, and what they let through is what the settings permit.
\<close>

section \<open>The operations keep the table in order\<close>

text \<open>The entries are well-formed and the counters agree with the program.\<close>

definition wf_sandbox :: "sandbox \<Rightarrow> bool" where
  "wf_sandbox S \<longleftrightarrow> (\<forall>r \<in> set (s_rules S). wf_rule r) \<and>
     length (concat (map filter_block (s_rules S))) + 5 = filter_len S"

text \<open>\<open>adds P n f\<close>: the operation appends at most \<open>n\<close> entries, all with \<open>P\<close>, if there is space.\<close>

definition adds :: "(rule \<Rightarrow> bool) \<Rightarrow> nat \<Rightarrow> (sandbox \<Rightarrow> sandbox res) \<Rightarrow> bool" where
  "adds P n f \<longleftrightarrow> (\<forall>S. wf_sandbox S \<longrightarrow> length (s_rules S) + n \<le> kMaxSyscalls \<longrightarrow>
     (\<exists>rs S'. f S = Inr S' \<and> s_rules S' = s_rules S @ rs \<and> length rs \<le> n \<and> list_all P rs \<and> wf_sandbox S'))"

lemma block_length:
  "wf_rule r \<Longrightarrow> length (filter_block r) = block_size r + 1"
  by (auto simp: filter_block_def first_arg_def block_size_def wf_rule_def)

lemma adds_one:
  assumes "\<And>S. length (s_rules S) < kMaxSyscalls \<Longrightarrow>
      f S = Inr (S\<lparr>s_rules := s_rules S @ [r], s_1_arg_validations := s_1_arg_validations S + a,
        s_2_arg_validations := s_2_arg_validations S + b, s_3_arg_validations := s_3_arg_validations S + c\<rparr>)"
    and "wf_rule r" and "block_size r + 1 = 2 + 3 * a + 5 * b + 7 * c" and "P r"
  shows "adds P 1 f"
  unfolding adds_def
proof (intro allI impI)
  fix S assume S: "wf_sandbox S" "length (s_rules S) + 1 \<le> kMaxSyscalls"
  then have "f S = Inr (S\<lparr>s_rules := s_rules S @ [r], s_1_arg_validations := s_1_arg_validations S + a,
      s_2_arg_validations := s_2_arg_validations S + b, s_3_arg_validations := s_3_arg_validations S + c\<rparr>)"
    using assms(1) by simp
  with S(1) assms(2-4) show "\<exists>rs S'. f S = Inr S' \<and> s_rules S' = s_rules S @ rs \<and> length rs \<le> 1 \<and> list_all P rs \<and> wf_sandbox S'"
    by (intro exI [of _ "[r]"]) (simp add: wf_sandbox_def block_length filter_len_def)
qed

named_theorems adds_intros

lemma adds_rules [adds_intros]:
  "nr \<ge> 0 \<Longrightarrow> P (plain_rule nr) \<Longrightarrow> adds P 1 (allow_nr nr)"
  "nr \<ge> 0 \<Longrightarrow> 0 \<le> e \<Longrightarrow> e \<le> 255 \<Longrightarrow> P ((plain_rule nr)\<lparr>s_errno := e\<rparr>) \<Longrightarrow> adds P 1 (reject_nr nr e)"
  "nr \<ge> 0 \<Longrightarrow> \<not> bad_arg i \<Longrightarrow> P ((plain_rule nr)\<lparr>s_arg_1 := i, s_val_1 := v\<rparr>) \<Longrightarrow> adds P 1 (allow_nr_1_arg_match nr i v)"
  "nr \<ge> 0 \<Longrightarrow> \<not> bad_arg i \<Longrightarrow> P ((plain_rule nr)\<lparr>s_arg_1 := 100 + i, s_val_1 := v\<rparr>) \<Longrightarrow> adds P 1 (allow_nr_1_arg_mask nr i v)"
  "nr \<ge> 0 \<Longrightarrow> \<not> bad_arg i \<Longrightarrow> \<not> bad_arg j \<Longrightarrow>
    P ((plain_rule nr)\<lparr>s_arg_1 := i, s_val_1 := v, s_arg_2 := j, s_val_2 := u\<rparr>) \<Longrightarrow> adds P 1 (allow_nr_2_arg_match nr i v j u)"
  "nr \<ge> 0 \<Longrightarrow> \<not> bad_arg i \<Longrightarrow> \<not> bad_arg j \<Longrightarrow>
    P ((plain_rule nr)\<lparr>s_arg_1 := 100 + i, s_val_1 := v, s_arg_2 := j, s_val_2 := u\<rparr>) \<Longrightarrow>
    adds P 1 (allow_nr_2_arg_mask_match nr i v j u)"
  "nr \<ge> 0 \<Longrightarrow> \<not> bad_arg i \<Longrightarrow> \<not> bad_arg j \<Longrightarrow> \<not> bad_arg l \<Longrightarrow>
    P ((plain_rule nr)\<lparr>s_arg_1 := i, s_val_1 := v, s_arg_2 := j, s_val_2 := u, s_arg_3 := l, s_val_3 := x\<rparr>) \<Longrightarrow>
    adds P 1 (allow_nr_3_arg_match nr i v j u l x)"
proof -
  note defs = allow_nr_def reject_nr_def allow_nr_1_arg_match_def allow_nr_1_arg_mask_def allow_nr_2_arg_match_def
    allow_nr_2_arg_mask_match_def allow_nr_3_arg_match_def add_rule_def plain_rule_def wf_rule_def block_size_def bad_arg_def
  show "nr \<ge> 0 \<Longrightarrow> P (plain_rule nr) \<Longrightarrow> adds P 1 (allow_nr nr)"
    by (rule adds_one [where a = 0 and b = 0 and c = 0]) (auto simp: defs)
  show "nr \<ge> 0 \<Longrightarrow> 0 \<le> e \<Longrightarrow> e \<le> 255 \<Longrightarrow> P ((plain_rule nr)\<lparr>s_errno := e\<rparr>) \<Longrightarrow> adds P 1 (reject_nr nr e)"
    by (rule adds_one [where a = 0 and b = 0 and c = 0]) (auto simp: defs)
  show "nr \<ge> 0 \<Longrightarrow> \<not> bad_arg i \<Longrightarrow> P ((plain_rule nr)\<lparr>s_arg_1 := i, s_val_1 := v\<rparr>) \<Longrightarrow> adds P 1 (allow_nr_1_arg_match nr i v)"
    by (rule adds_one [where a = 1 and b = 0 and c = 0]) (auto simp: defs)
  show "nr \<ge> 0 \<Longrightarrow> \<not> bad_arg i \<Longrightarrow> P ((plain_rule nr)\<lparr>s_arg_1 := 100 + i, s_val_1 := v\<rparr>) \<Longrightarrow> adds P 1 (allow_nr_1_arg_mask nr i v)"
    by (rule adds_one [where a = 1 and b = 0 and c = 0]) (auto simp: defs)
  show "nr \<ge> 0 \<Longrightarrow> \<not> bad_arg i \<Longrightarrow> \<not> bad_arg j \<Longrightarrow>
    P ((plain_rule nr)\<lparr>s_arg_1 := i, s_val_1 := v, s_arg_2 := j, s_val_2 := u\<rparr>) \<Longrightarrow> adds P 1 (allow_nr_2_arg_match nr i v j u)"
    by (rule adds_one [where a = 0 and b = 1 and c = 0]) (auto simp: defs)
  show "nr \<ge> 0 \<Longrightarrow> \<not> bad_arg i \<Longrightarrow> \<not> bad_arg j \<Longrightarrow>
    P ((plain_rule nr)\<lparr>s_arg_1 := 100 + i, s_val_1 := v, s_arg_2 := j, s_val_2 := u\<rparr>) \<Longrightarrow>
    adds P 1 (allow_nr_2_arg_mask_match nr i v j u)"
    by (rule adds_one [where a = 0 and b = 1 and c = 0]) (auto simp: defs)
  show "nr \<ge> 0 \<Longrightarrow> \<not> bad_arg i \<Longrightarrow> \<not> bad_arg j \<Longrightarrow> \<not> bad_arg l \<Longrightarrow>
    P ((plain_rule nr)\<lparr>s_arg_1 := i, s_val_1 := v, s_arg_2 := j, s_val_2 := u, s_arg_3 := l, s_val_3 := x\<rparr>) \<Longrightarrow>
    adds P 1 (allow_nr_3_arg_match nr i v j u l x)"
    by (rule adds_one [where a = 0 and b = 0 and c = 1]) (auto simp: defs)
qed

lemma adds_Nil [adds_intros]: "adds P 0 (apply_rules [])"
  by (simp add: adds_def)

lemma adds_Cons [adds_intros]:
  assumes "adds P m f" and "adds P n (apply_rules fs)"
  shows "adds P (m + n) (apply_rules (f # fs))"
  unfolding adds_def
proof (intro allI impI)
  fix S assume S: "wf_sandbox S" "length (s_rules S) + (m + n) \<le> kMaxSyscalls"
  then obtain rs S1 where 1: "f S = Inr S1" "s_rules S1 = s_rules S @ rs" "length rs \<le> m" "list_all P rs" "wf_sandbox S1"
    using assms(1) by (fastforce simp: adds_def)
  then obtain rs' S2 where "apply_rules fs S1 = Inr S2" "s_rules S2 = s_rules S1 @ rs'" "length rs' \<le> n" "list_all P rs'" "wf_sandbox S2"
    using assms(2) S(2) by (fastforce simp: adds_def)
  with 1 show "\<exists>rs S'. apply_rules (f # fs) S = Inr S' \<and> s_rules S' = s_rules S @ rs \<and> length rs \<le> m + n \<and> list_all P rs \<and> wf_sandbox S'"
    by (intro exI [of _ "rs @ rs'"]) simp
qed

lemma adds_less: "adds P m f \<Longrightarrow> m \<le> n \<Longrightarrow> adds P n f"
  unfolding adds_def by (meson add_le_cancel_left le_trans)

lemma adds_only_if [adds_intros]: "(b \<Longrightarrow> adds P n (apply_rules fs)) \<Longrightarrow> adds P n (only_if b fs)"
  by (cases b) (auto simp: only_if_def adds_def)

lemma adds_if [adds_intros]: "(b \<Longrightarrow> adds P m f) \<Longrightarrow> (\<not> b \<Longrightarrow> adds P n g) \<Longrightarrow> adds P (max m n) (if b then f else g)"
  by (auto intro: adds_less)

lemma plain_rule_simps [simp]:
  "s_syscall (plain_rule nr) = nr" "s_errno (plain_rule nr) = 0" "s_arg_1 (plain_rule nr) = 0"
  "s_arg_2 (plain_rule nr) = 0" "s_arg_3 (plain_rule nr) = 0"
  by (simp_all add: plain_rule_def)

lemma wf_empty: "wf_sandbox empty_sandbox" "s_rules empty_sandbox = []"
  by (simp_all add: wf_sandbox_def empty_sandbox_def filter_len_def)

lemma adds_setup:
  assumes "adds P n f" and "n \<le> kMaxSyscalls"
  shows "\<exists>S. f empty_sandbox = Inr S \<and> wf_sandbox S \<and> list_all P (s_rules S)"
  using assms wf_empty by (fastforce simp: adds_def)

text \<open>The entries each policy appends.\<close>

definition prelogin_calls :: "int list" where
  "prelogin_calls = [0, 1, 3, 9, 10, 11, 12, 13, 15, 25, 35, 37, 39, 45, 47, 48, 54, 72, 96, 219, 231]"

definition prelogin_entry :: "rule \<Rightarrow> bool" where
  "prelogin_entry r \<longleftrightarrow> s_syscall r \<in> set prelogin_calls \<or> r = (plain_rule NR_socket)\<lparr>s_errno := EACCES\<rparr>"

lemma adds_prelogin:
  "adds prelogin_entry 25 (seccomp_sandbox_setup_prelogin E)"
  unfolding seccomp_sandbox_setup_prelogin_def seccomp_sandbox_setup_base_def
  by (rule adds_less, (rule adds_intros | simp add: bad_arg_def prelogin_entry_def prelogin_calls_def)+)

definition postlogin_calls :: "int list" where
  "postlogin_calls = prelogin_calls @ [2, 4, 5, 6, 8, 23, 40, 41, 42, 43, 44, 46, 49, 50, 55, 77, 78, 79, 80, 82, 83, 84, 87,
     89, 90, 91, 93, 95, 132, 235, 257]"

definition tcp_socket :: "rule \<Rightarrow> bool" where
  "tcp_socket r \<longleftrightarrow> s_arg_1 r = 1 \<and> s_val_1 r \<in> {PF_INET, PF_INET6} \<and> s_arg_2 r = 2 \<and> s_val_2 r = SOCK_STREAM \<and>
     s_arg_3 r = 3 \<and> s_val_3 r = IPPROTO_TCP"

definition postlogin_entry :: "env \<Rightarrow> bool \<Rightarrow> rule \<Rightarrow> bool" where
  "postlogin_entry E is_anon r \<longleftrightarrow> s_syscall r \<in> set postlogin_calls \<and>
     (s_syscall r \<in> {NR_rmdir, NR_rename, NR_ftruncate, NR_utime, NR_utimes} \<longrightarrow>
        tb E ''write_enable'' \<and> (is_anon \<longrightarrow> tb E ''anon_other_write_enable'')) \<and>
     (s_syscall r = NR_unlink \<longrightarrow> tb E ''write_enable'' \<and>
        (is_anon \<longrightarrow> tb E ''anon_other_write_enable'' \<or> tb E ''delete_failed_uploads'')) \<and>
     (s_syscall r = NR_chmod \<longrightarrow> tb E ''write_enable'' \<and> \<not> is_anon \<and> tb E ''chmod_enable'') \<and>
     (s_syscall r \<in> {NR_fchmod, NR_fchown} \<longrightarrow> tb E ''one_process_model'' \<and> is_anon \<and> tb E ''chown_uploads'') \<and>
     (s_syscall r = NR_open \<longrightarrow> s_arg_1 r = 102 \<and> s_val_1 r = kOpenFlags + (if tb E ''write_enable'' then O_ACCMODE else 0)) \<and>
     (s_syscall r = NR_openat \<longrightarrow> s_arg_1 r = 103 \<and> s_val_1 r = kOpenFlags + (if tb E ''write_enable'' then O_ACCMODE else 0)) \<and>
     (s_syscall r = NR_socket \<longrightarrow> s_errno r = EACCES \<or> tcp_socket r)"

lemma adds_mono: "adds P n f \<Longrightarrow> (\<And>r. P r \<Longrightarrow> Q r) \<Longrightarrow> adds Q n f"
  unfolding adds_def by (meson list.pred_mono_strong)

lemma adds_prelogin_part: "adds (postlogin_entry E is_anon) 25 (seccomp_sandbox_setup_prelogin E)"
  by (rule adds_mono [OF adds_prelogin])
    (auto simp: prelogin_entry_def postlogin_entry_def postlogin_calls_def prelogin_calls_def)

lemmas postlogin_defs = postlogin_entry_def postlogin_calls_def prelogin_calls_def tcp_socket_def

lemma adds_connections:
  "adds (postlogin_entry E is_anon) 12 (seccomp_sandbox_setup_data_connections E)"
  "adds (postlogin_entry E is_anon) 13 seccomp_sandbox_setup_cos"
  unfolding seccomp_sandbox_setup_data_connections_def seccomp_sandbox_setup_cos_def
  by (rule adds_less, (rule adds_intros | simp add: bad_arg_def postlogin_defs)+)+

lemma adds_postlogin: "adds (postlogin_entry E is_anon) 100 (seccomp_sandbox_setup_postlogin E is_anon pid)"
  unfolding seccomp_sandbox_setup_postlogin_def Let_def
  by (rule adds_less, (rule adds_intros adds_prelogin_part adds_connections | simp add: bad_arg_def postlogin_defs)+)

lemma adds_broker: "adds (postlogin_entry E False) 100 (seccomp_sandbox_setup_postlogin_broker E)"
  unfolding seccomp_sandbox_setup_postlogin_broker_def seccomp_sandbox_setup_base_def
  by (rule adds_less, (rule adds_intros adds_connections | simp add: bad_arg_def postlogin_defs)+)

section \<open>What the filters do\<close>

text \<open>C6: the compiler of \<^verbatim>\<open>seccomp_sandbox_lockdown\<close> is exact. Each of the three policies can be set up from the empty
  table (none runs out of space), the array the program is written to is filled exactly, and a kernel
  that follows the documented meaning of the four instructions gives for every system call the
  verdict of the first entry of the table that matches it, and kills the process when none does or
  when the call is of another architecture.\<close>

theorem filter_exact:
  assumes "bpf_machine exec"
    and "setup \<in> {seccomp_sandbox_setup_prelogin E, seccomp_sandbox_setup_postlogin E is_anon pid, seccomp_sandbox_setup_postlogin_broker E}"
  shows "\<exists>S. setup empty_sandbox = Inr S \<and> length (filter_program S) = filter_len S \<and>
    (\<forall>a d. exec (filter_program S) 0 a d = policy S d)"
proof -
  have "\<exists>P n. adds P n setup \<and> n \<le> kMaxSyscalls"
    using assms(2) adds_less [OF adds_prelogin [of E], of 100] adds_postlogin [of E is_anon pid] adds_broker [of E]
    by (elim insertE emptyE) (auto simp: kMaxSyscalls_def)
  then obtain S where "setup empty_sandbox = Inr S" "wf_sandbox S" using adds_setup by blast
  then show ?thesis
    using bpf_machine.program_exec [OF assms(1)] by (auto simp: wf_sandbox_def filter_program_def)
qed

lemma decide_entry: "decide rs d \<noteq> SECCOMP_RET_KILL \<Longrightarrow> \<exists>r \<in> set rs. rule_matches d r \<and> decide rs d = verdict_of r"
  by (induction rs) (auto split: if_splits)

lemma policy_entry:
  assumes "policy S d = SECCOMP_RET_ALLOW" and "list_all P (s_rules S)"
  shows "d 4 = AUDIT_ARCH_X86_64 \<and> (\<exists>r. P r \<and> rule_matches d r \<and> verdict_of r = SECCOMP_RET_ALLOW)"
proof -
  have "SECCOMP_RET_ALLOW \<noteq> SECCOMP_RET_KILL" by (simp add: SECCOMP_RET_ALLOW_def SECCOMP_RET_KILL_def)
  with assms(1) have a: "d 4 = AUDIT_ARCH_X86_64" and b: "decide (s_rules S) d = SECCOMP_RET_ALLOW"
    by (auto simp: policy_def split: if_splits)
  obtain r where "r \<in> set (s_rules S)" "rule_matches d r" "verdict_of r = SECCOMP_RET_ALLOW"
    using decide_entry [of "s_rules S" d] b \<open>SECCOMP_RET_ALLOW \<noteq> SECCOMP_RET_KILL\<close> by auto
  with a assms(2) show ?thesis by (auto simp: list_all_iff)
qed

lemma refused_socket: "s_errno r = EACCES \<Longrightarrow> verdict_of r \<noteq> SECCOMP_RET_ALLOW"
  by (simp add: verdict_of_def SECCOMP_RET_ALLOW_def SECCOMP_RET_ERRNO_def)

lemma call_number: "rule_matches d r \<Longrightarrow> s_syscall r \<in> set postlogin_calls \<Longrightarrow> uint (d 0) = s_syscall r"
  by (auto simp: rule_matches_def postlogin_calls_def prelogin_calls_def)

theorem filter_exact_witness:
  "\<exists>S. seccomp_sandbox_setup_postlogin_broker plain_env empty_sandbox = Inr S \<and> length (filter_program S) = filter_len S \<and>
     (\<forall>a d. bpf_run (filter_program S) 0 a d = policy S d)"
  using filter_exact [OF kernel.bpf_machine_axioms, of "seccomp_sandbox_setup_postlogin_broker plain_env" plain_env False 1] by simp

text \<open>A call without arguments.\<close>

definition simple_call :: "32 word \<Rightarrow> 32 word \<Rightarrow> 32 word" where
  "simple_call nr = (\<lambda>x. if x = 4 then AUDIT_ARCH_X86_64 else if x = 0 then nr else 0)"

lemmas setup_defs = seccomp_sandbox_setup_prelogin_def seccomp_sandbox_setup_postlogin_def seccomp_sandbox_setup_base_def
  seccomp_sandbox_setup_cos_def only_if_def allow_nr_def reject_nr_def allow_nr_1_arg_match_def allow_nr_1_arg_mask_def
  allow_nr_2_arg_match_def allow_nr_2_arg_mask_match_def allow_nr_3_arg_match_def add_rule_def bad_arg_def

lemma bare_env_off: "\<not> tb bare_env x" "tu bare_env x = 0"
  by (simp_all add: bare_env_def)

text \<open>Before the login the process may make only the system calls of a short list. It can open no file and no
  socket, create no process and start no program.\<close>

theorem prelogin_policy:
  "\<exists>S. seccomp_sandbox_setup_prelogin E empty_sandbox = Inr S \<and>
     (\<forall>d. policy S d = SECCOMP_RET_ALLOW \<longrightarrow> d 4 = AUDIT_ARCH_X86_64 \<and> uint (d 0) \<in> set prelogin_calls)"
proof -
  obtain S where S: "seccomp_sandbox_setup_prelogin E empty_sandbox = Inr S" "list_all prelogin_entry (s_rules S)"
    using adds_setup [OF adds_prelogin, of E] by (auto simp: kMaxSyscalls_def)
  have "d 4 = AUDIT_ARCH_X86_64 \<and> uint (d 0) \<in> set prelogin_calls" if ok: "policy S d = SECCOMP_RET_ALLOW" for d
  proof -
    obtain r where r: "d 4 = AUDIT_ARCH_X86_64" "prelogin_entry r" "rule_matches d r" "verdict_of r = SECCOMP_RET_ALLOW"
      using policy_entry [OF ok S(2)] by blast
    then have "s_syscall r \<in> set prelogin_calls" using refused_socket [of r] by (auto simp: prelogin_entry_def)
    then show ?thesis using r(1) call_number [OF r(3)] by (simp add: postlogin_calls_def)
  qed
  with S(1) show ?thesis by blast
qed

theorem prelogin_policy_witness:
  "\<exists>S. seccomp_sandbox_setup_prelogin bare_env empty_sandbox = Inr S \<and>
     policy S (simple_call 231) = SECCOMP_RET_ALLOW \<and> policy S (simple_call 59) \<noteq> SECCOMP_RET_ALLOW"
proof -
  obtain S where S: "seccomp_sandbox_setup_prelogin bare_env empty_sandbox = Inr S"
    "policy S (simple_call 59) = SECCOMP_RET_ALLOW \<longrightarrow> uint (simple_call 59 0) \<in> set prelogin_calls"
    using prelogin_policy [of bare_env] by blast
  have "policy S (simple_call 231) = SECCOMP_RET_ALLOW"
    using S(1) by (auto simp: setup_defs bare_env_off kMaxSyscalls_def empty_sandbox_def policy_def rule_matches_def
      simple_call_def verdict_of_def)
  with S show ?thesis by (auto simp: simple_call_def prelogin_calls_def)
qed

text \<open>What the settings permit a session to ask of the kernel. There is no condition on \<^verbatim>\<open>mkdir\<close>, which the policy
  always permits (directories are made on \<^verbatim>\<open>CWD\<close>), and the flags that create a file are among those of every opening.\<close>

definition permitted :: "env \<Rightarrow> bool \<Rightarrow> (32 word \<Rightarrow> 32 word) \<Rightarrow> bool" where
  "permitted E is_anon d =
     (let nr = uint (d 0); write = tb E ''write_enable'';
          flags = word_of_int (kOpenFlags + (if write then O_ACCMODE else 0)) in
      nr \<in> set postlogin_calls \<and>
      (nr \<in> {NR_rmdir, NR_rename, NR_ftruncate, NR_utime, NR_utimes} \<longrightarrow>
         write \<and> (is_anon \<longrightarrow> tb E ''anon_other_write_enable'')) \<and>
      (nr = NR_unlink \<longrightarrow> write \<and> (is_anon \<longrightarrow> tb E ''anon_other_write_enable'' \<or> tb E ''delete_failed_uploads'')) \<and>
      (nr = NR_chmod \<longrightarrow> write \<and> \<not> is_anon \<and> tb E ''chmod_enable'') \<and>
      (nr \<in> {NR_fchmod, NR_fchown} \<longrightarrow> tb E ''one_process_model'' \<and> is_anon \<and> tb E ''chown_uploads'') \<and>
      (nr = NR_open \<longrightarrow> arg_word d 2 AND NOT flags = 0) \<and>
      (nr = NR_openat \<longrightarrow> arg_word d 3 AND NOT flags = 0) \<and>
      (nr = NR_socket \<longrightarrow> arg_word d 1 \<in> {2, 10} \<and> arg_word d 2 = 1 \<and> arg_word d 3 = 6))"

lemma matched_args:
  assumes "rule_matches d r"
  shows "s_arg_1 r = 102 \<Longrightarrow> arg_word d 2 AND NOT (word_of_int (s_val_1 r)) = 0"
    and "s_arg_1 r = 103 \<Longrightarrow> arg_word d 3 AND NOT (word_of_int (s_val_1 r)) = 0"
    and "tcp_socket r \<Longrightarrow> arg_word d 1 \<in> {2, 10} \<and> arg_word d 2 = 1 \<and> arg_word d 3 = 6"
  using assms by (auto simp: rule_matches_def tcp_socket_def)

lemma entry_permits:
  assumes "postlogin_entry E is_anon r" and "rule_matches d r" and "s_errno r \<noteq> EACCES"
  shows "permitted E is_anon d"
proof -
  have nr: "uint (d 0) = s_syscall r" using call_number [OF assms(2)] assms(1) by (simp add: postlogin_entry_def)
  show ?thesis
    unfolding permitted_def Let_def nr using assms(1,3) unfolding postlogin_entry_def
    by (elim conjE, intro conjI) (simp, simp, simp, simp, simp, metis matched_args(1) [OF assms(2)],
      metis matched_args(2) [OF assms(2)], metis matched_args(3) [OF assms(2)])
qed

text \<open>C7: what the process may do after the login follows the settings. Removing directories, renaming,
  truncating and setting times are permitted only with \<^verbatim>\<open>write_enable\<close> and, for the anonymous user,
  \<^verbatim>\<open>anon_other_write_enable\<close>; unlinking likewise, or for failed uploads; changing modes by name only for
  local users with \<^verbatim>\<open>chmod_enable\<close>, and mode and owner of open files only for uploads of the anonymous
  user in the one-process model. Files are opened only with the flags of a fixed set, without
  \<^verbatim>\<open>write_enable\<close> only for reading. Sockets are TCP sockets. No process is created, no program started, no
  identity changed. What \<^verbatim>\<open>write_enable\<close> does not control is making directories and creating empty files
  by an opening for reading: both are always permitted (\<open>creation_unrestricted\<close>).\<close>

theorem postlogin_policy:
  "\<exists>S. seccomp_sandbox_setup_postlogin E is_anon pid empty_sandbox = Inr S \<and>
     (\<forall>d. policy S d = SECCOMP_RET_ALLOW \<longrightarrow> d 4 = AUDIT_ARCH_X86_64 \<and> permitted E is_anon d)"
proof -
  obtain S where S: "seccomp_sandbox_setup_postlogin E is_anon pid empty_sandbox = Inr S" "list_all (postlogin_entry E is_anon) (s_rules S)"
    using adds_setup [OF adds_postlogin, of E is_anon pid] by (auto simp: kMaxSyscalls_def)
  have "d 4 = AUDIT_ARCH_X86_64 \<and> permitted E is_anon d" if "policy S d = SECCOMP_RET_ALLOW" for d
    using policy_entry [OF that S(2)] entry_permits refused_socket by blast
  with S(1) show ?thesis by blast
qed

theorem postlogin_policy_witness:
  "\<exists>S. seccomp_sandbox_setup_postlogin bare_env True 7 empty_sandbox = Inr S \<and>
     policy S (simple_call 2) = SECCOMP_RET_ALLOW \<and> permitted bare_env True (simple_call 2) \<and>
     policy S (simple_call 87) \<noteq> SECCOMP_RET_ALLOW"
proof -
  obtain S where S: "seccomp_sandbox_setup_postlogin bare_env True 7 empty_sandbox = Inr S"
    "\<And>d. policy S d = SECCOMP_RET_ALLOW \<Longrightarrow> permitted bare_env True d"
    using postlogin_policy [of bare_env True 7] by blast
  have "policy S (simple_call 2) = SECCOMP_RET_ALLOW"
    using S(1) by (auto simp: setup_defs bare_env_off kMaxSyscalls_def empty_sandbox_def policy_def rule_matches_def
      simple_call_def verdict_of_def arg_word_def arg_offset_def)
  moreover have "\<not> permitted bare_env True (simple_call 87)"
    by (simp add: permitted_def simple_call_def bare_env_off)
  ultimately show ?thesis using S by blast
qed

text \<open>A session that may not write still makes directories and creates files.\<close>

lemma creation_unrestricted:
  "\<exists>S. seccomp_sandbox_setup_postlogin bare_env True 7 empty_sandbox = Inr S \<and> \<not> tb bare_env ''write_enable'' \<and>
     policy S (simple_call 83) = SECCOMP_RET_ALLOW \<and>
     policy S ((simple_call 2)(word_of_int (arg_offset 2) := 0xC0)) = SECCOMP_RET_ALLOW"
proof -
  obtain S where S: "seccomp_sandbox_setup_postlogin bare_env True 7 empty_sandbox = Inr S"
    using adds_setup [OF adds_postlogin, of bare_env True 7] by (auto simp: kMaxSyscalls_def)
  then have "policy S (simple_call 83) = SECCOMP_RET_ALLOW"
    by (auto simp: setup_defs bare_env_off kMaxSyscalls_def empty_sandbox_def policy_def rule_matches_def
      simple_call_def verdict_of_def arg_word_def arg_offset_def)
  moreover have "policy S ((simple_call 2)(word_of_int (arg_offset 2) := 0xC0)) = SECCOMP_RET_ALLOW"
    using S by (auto simp: setup_defs bare_env_off kMaxSyscalls_def empty_sandbox_def policy_def rule_matches_def
      simple_call_def verdict_of_def arg_word_def arg_offset_def kOpenFlags_def)
  ultimately show ?thesis using S by (auto simp: bare_env_off)
qed

section \<open>Sockets and the system log\<close>

text \<open>Tables only grow, so a call that an entry decides stays decided.\<close>

definition extends :: "(sandbox \<Rightarrow> sandbox res) \<Rightarrow> bool" where
  "extends f \<longleftrightarrow> (\<forall>S S'. f S = Inr S' \<longrightarrow> (\<exists>rs. s_rules S' = s_rules S @ rs))"

named_theorems extends_intros

lemma extends_ops [extends_intros]:
  "extends (allow_nr nr)" "extends (reject_nr nr e)" "extends (allow_nr_1_arg_match nr i v)" "extends (allow_nr_1_arg_mask nr i v)"
  "extends (allow_nr_2_arg_match nr i v j u)" "extends (allow_nr_2_arg_mask_match nr i v j u)"
  "extends (allow_nr_3_arg_match nr i v j u l x)"
  by (auto simp: extends_def setup_defs bug_def split: if_splits)

lemma extends_rules [extends_intros]:
  "extends (apply_rules [])"
  "extends f \<Longrightarrow> extends (apply_rules fs) \<Longrightarrow> extends (apply_rules (f # fs))"
  "extends (apply_rules fs) \<Longrightarrow> extends (only_if b fs)"
  "extends f \<Longrightarrow> extends g \<Longrightarrow> extends (if b then f else g)"
  by (fastforce simp: extends_def only_if_def res_simps)+

lemma applied_last: "apply_rules fs S = Inr S' \<Longrightarrow> fs \<noteq> [] \<Longrightarrow> \<exists>T. last fs T = Inr S'"
  by (induction fs arbitrary: S) (auto simp: res_simps)

lemma decide_append: "\<exists>r \<in> set rs. rule_matches d r \<Longrightarrow> decide (rs @ xs) d = decide rs d"
  by (induction rs) auto

lemma decide_entry_in: "\<exists>r \<in> set rs. rule_matches d r \<Longrightarrow> \<exists>r \<in> set rs. rule_matches d r \<and> decide rs d = verdict_of r"
  by (induction rs) auto

lemma decide_all: "r \<in> set rs \<Longrightarrow> rule_matches d r \<Longrightarrow> (\<And>q. q \<in> set rs \<Longrightarrow> rule_matches d q \<Longrightarrow> q = r) \<Longrightarrow> decide rs d = verdict_of r"
  using decide_entry_in [of rs d] by blast

text \<open>With \<^verbatim>\<open>syslog_enable\<close> the entry that refuses sockets comes before those that allow TCP sockets for data
  connections and the store: every attempt to make a socket after the login fails with \<^verbatim>\<open>EACCES\<close>.\<close>

lemma syslog_refuses_sockets:
  assumes "tb E ''syslog_enable''" and "seccomp_sandbox_setup_postlogin E is_anon pid empty_sandbox = Inr S"
    and "d 4 = AUDIT_ARCH_X86_64" and "uint (d 0) = NR_socket"
  shows "policy S d = SECCOMP_RET_ERRNO + 13"
proof -
  let ?r = "(plain_rule NR_socket)\<lparr>s_errno := EACCES\<rparr>"
  have d0: "d 0 = 41" using assms(4) by (metis uint_word_of_int_eq word_of_int_uint word_of_int_numeral)
  define T where "T = empty_sandbox\<lparr>s_rules := [plain_rule NR_lstat]\<rparr>"
  have T: "allow_nr NR_lstat empty_sandbox = Inr T"
    by (simp add: T_def allow_nr_def add_rule_def kMaxSyscalls_def wf_empty)
  have "wf_sandbox T" by (simp add: T_def wf_sandbox_def empty_sandbox_def filter_len_def block_length wf_rule_def block_size_def)
  then obtain rs U where U: "seccomp_sandbox_setup_prelogin E T = Inr U" "s_rules U = s_rules T @ rs" "list_all prelogin_entry rs"
    using adds_prelogin [of E] by (fastforce simp: adds_def T_def kMaxSyscalls_def)
  have "\<exists>V. reject_nr NR_socket EACCES V = Inr U"
    using applied_last [OF U(1) [unfolded seccomp_sandbox_setup_prelogin_def]] assms(1) by (simp add: only_if_def res_simps)
  then have "?r \<in> set (s_rules U)" by (auto simp: setup_defs bug_def split: if_splits)
  moreover have "rule_matches d ?r" by (simp add: rule_matches_def d0)
  moreover have "q = ?r" if "q \<in> set (s_rules U)" "rule_matches d q" for q
    using that U(2,3) by (auto simp: T_def list_all_iff prelogin_entry_def prelogin_calls_def rule_matches_def d0)
  ultimately have v: "decide (s_rules U) d = verdict_of ?r" and m: "\<exists>r \<in> set (s_rules U). rule_matches d r"
    using decide_all by blast+
  have "\<exists>fs. seccomp_sandbox_setup_postlogin E is_anon pid = apply_rules (allow_nr NR_lstat # seccomp_sandbox_setup_prelogin E # fs) \<and>
      extends (apply_rules fs)"
    unfolding seccomp_sandbox_setup_postlogin_def Let_def seccomp_sandbox_setup_cos_def seccomp_sandbox_setup_data_connections_def
    by (rule exI, rule conjI, rule refl, (rule extends_intros)+)
  then obtain fs where fs: "seccomp_sandbox_setup_postlogin E is_anon pid =
      apply_rules (allow_nr NR_lstat # seccomp_sandbox_setup_prelogin E # fs)" "extends (apply_rules fs)" by blast
  obtain xs where "s_rules S = s_rules U @ xs"
    using fs assms(2) T U(1) by (auto simp: extends_def)
  then show ?thesis using v decide_append [OF m] assms(3) by (simp add: policy_def verdict_of_def)
qed

end
