(* ===== verification/Ptrace.thy ===== *)
theory Ptrace
  imports World "HOL-Library.While_Combinator"
begin

text \<open>
  \<^verbatim>\<open>ptracesandbox.c\<close> and \<^verbatim>\<open>ftppolicy.c\<close>: a supervisor that stops a process at each of its system calls, looks at
  the registers and at the memory of the process, and continues or kills it. The code is for Linux on
  i386; elsewhere the operations are empty and no sandbox can be allocated. In the one-process model
  \<^verbatim>\<open>vsf_one_process_start\<close> runs the session in it when the setting \<^verbatim>\<open>ptrace_sandbox\<close> is on; the model of that
  function names the calls as events. The kernel is a parameter that answers every call from the calls made so far.
\<close>

unbundle bit_operations_syntax

section \<open>Calls to the kernel\<close>

record regs =
  ebx :: "32 word"
  ecx :: "32 word"
  edx :: "32 word"
  esi :: "32 word"
  edi :: "32 word"
  ebp :: "32 word"
  orig_eax :: "32 word"
  eip :: "32 word"
  xcs :: "32 word"

definition zero_regs :: regs where
  "zero_regs = \<lparr>ebx = 0, ecx = 0, edx = 0, esi = 0, edi = 0, ebp = 0, orig_eax = 0, eip = 0, xcs = 0\<rparr>"

datatype call =
    Malloc | Free | Sigaction | Getpid | Fork | Prctl | Run_child
  | Close_fd int | Write_zero int
  | Kill int int
  | Waitpid int int
  | Traceme
  | Setoptions int int
  | Pt_syscall int int
  | Pt_kill int
  | Getregs int
  | Setregs int regs
  | Peekdata int "32 word"
  | Warn string

text \<open>The answers, from the calls made so far, the latest first: the result and \<^verbatim>\<open>errno\<close> of a call, the status \<^verbatim>\<open>waitpid\<close> stores, the registers and the memory of the process.\<close>

record kernel =
  k_ret :: "call list \<Rightarrow> call \<Rightarrow> int"
  k_errno :: "call list \<Rightarrow> call \<Rightarrow> int"
  k_status :: "call list \<Rightarrow> int"
  k_regs :: "call list \<Rightarrow> regs"
  k_peek :: "call list \<Rightarrow> 32 word \<Rightarrow> 32 word"

type_synonym 'a pt = "call list \<Rightarrow> 'a res \<times> call list"

definition pt_ret :: "'a \<Rightarrow> 'a pt" where
  "pt_ret a = (\<lambda>h. (Inr a, h))"

definition pt_fault :: "fault \<Rightarrow> 'a pt" where
  "pt_fault f = (\<lambda>h. (Inl f, h))"

definition pt_bnd :: "'a pt \<Rightarrow> ('a \<Rightarrow> 'b pt) \<Rightarrow> 'b pt" where
  "pt_bnd m k = (\<lambda>h. case m h of (Inl f, h') \<Rightarrow> (Inl f, h') | (Inr a, h') \<Rightarrow> k a h')"

text \<open>A call whose result and \<^verbatim>\<open>errno\<close> are read, one whose result is dropped, and a message on standard error.\<close>

definition pt_call :: "kernel \<Rightarrow> call \<Rightarrow> (int \<times> int) pt" where
  "pt_call K c = (\<lambda>h. (Inr (k_ret K h c, k_errno K h c), c # h))"

definition pt_do :: "call \<Rightarrow> unit pt" where
  "pt_do c = (\<lambda>h. (Inr (), c # h))"

definition warnx :: "string \<Rightarrow> unit pt" where
  "warnx m = pt_do (Warn m)"

definition pt_getregs :: "kernel \<Rightarrow> int \<Rightarrow> (int \<times> int \<times> regs) pt" where
  "pt_getregs K p = (\<lambda>h. (Inr (k_ret K h (Getregs p), k_errno K h (Getregs p), k_regs K h), Getregs p # h))"

text \<open>\<^verbatim>\<open>errno\<close> is cleared before this call.\<close>

definition pt_peek :: "kernel \<Rightarrow> int \<Rightarrow> 32 word \<Rightarrow> (32 word \<times> int) pt" where
  "pt_peek K p a = (\<lambda>h. (Inr (k_peek K h a, k_errno K h (Peekdata p a)), Peekdata p a # h))"

abbreviation (input) EINTR :: int where "EINTR \<equiv> 4"
abbreviation (input) ESRCH :: int where "ESRCH \<equiv> 3"
abbreviation (input) ECHILD :: int where "ECHILD \<equiv> 10"
abbreviation (input) SIGKILL :: int where "SIGKILL \<equiv> 9"
abbreviation (input) SIGCHLD :: int where "SIGCHLD \<equiv> 17"
abbreviation (input) SIGCONT :: int where "SIGCONT \<equiv> 18"
abbreviation (input) SIGSTOP :: int where "SIGSTOP \<equiv> 19"

text \<open>A call repeated while it is interrupted: its result, \<^verbatim>\<open>errno\<close> and stored status.\<close>

definition pt_retry :: "kernel \<Rightarrow> call \<Rightarrow> (int \<times> int \<times> int) pt" where
  "pt_retry K c = (\<lambda>h.
     case while_option (\<lambda>h. k_ret K h c = - 1 \<and> k_errno K h c = EINTR) (\<lambda>h. c # h) h of
       None \<Rightarrow> (Inl (Endless ''EINTR''), h)
     | Some g \<Rightarrow> (Inr (k_ret K g c, k_errno K g c, k_status K g), c # g))"

section \<open>The sandbox\<close>

text \<open>The functions the code stores as validators of system calls and of socket calls.\<close>

datatype validator = Validate_mmap2 | Validate_open_default | Validate_open_readonly | Validate_fcntl | Validate_socketcall
datatype socket_check = Socket_validator | Connect_validator | Getsockopt_validator | Setsockopt_validator

abbreviation (input) MAX_SYSCALL :: int where "MAX_SYSCALL \<equiv> 300"
abbreviation (input) NPROTO :: nat where "NPROTO \<equiv> 46"

text \<open>Tables of flags by number. The argument of a validator is the session, or null.\<close>

record pt_sandbox =
  read_event_fd :: int
  write_event_fd :: int
  pid :: int
  is_allowed :: "int \<Rightarrow> bool"
  validator :: "int \<Rightarrow> validator option"
  is_exit :: bool
  pt_regs :: regs
  is_socketcall_allowed :: "nat \<Rightarrow> bool"
  socketcall_validator :: "nat \<Rightarrow> socket_check option"
  socketcall_validator_arg :: "nat \<Rightarrow> vsf_session option"

definition new_sandbox :: pt_sandbox where
  "new_sandbox = \<lparr>read_event_fd = - 1, write_event_fd = - 1, pid = - 1, is_allowed = (\<lambda>_. False), validator = (\<lambda>_. None),
     is_exit = False, pt_regs = zero_regs, is_socketcall_allowed = (\<lambda>_. False),
     socketcall_validator = (\<lambda>_. None), socketcall_validator_arg = (\<lambda>_. None)\<rparr>"

text \<open>Errors.\<close>

abbreviation (input) PTRACE_SANDBOX_ERR_DEAD :: int where "PTRACE_SANDBOX_ERR_DEAD \<equiv> - 1"
abbreviation (input) PTRACE_SANDBOX_ERR_PTRACE :: int where "PTRACE_SANDBOX_ERR_PTRACE \<equiv> - 2"
abbreviation (input) PTRACE_SANDBOX_ERR_WAITPID :: int where "PTRACE_SANDBOX_ERR_WAITPID \<equiv> - 3"
abbreviation (input) PTRACE_SANDBOX_ERR_WAIT_STATUS :: int where "PTRACE_SANDBOX_ERR_WAIT_STATUS \<equiv> - 4"
abbreviation (input) PTRACE_SANDBOX_ERR_POLICY_SYSCALL :: int where "PTRACE_SANDBOX_ERR_POLICY_SYSCALL \<equiv> - 5"
abbreviation (input) PTRACE_SANDBOX_ERR_BAD_SYSCALL :: int where "PTRACE_SANDBOX_ERR_BAD_SYSCALL \<equiv> - 6"
abbreviation (input) PTRACE_SANDBOX_ERR_POLICY_ARGS :: int where "PTRACE_SANDBOX_ERR_POLICY_ARGS \<equiv> - 7"
abbreviation (input) PTRACE_SANDBOX_ERR_API_ABUSE_STOPIT :: int where "PTRACE_SANDBOX_ERR_API_ABUSE_STOPIT \<equiv> - 8"

text \<open>The macros on a status of \<^verbatim>\<open>waitpid\<close>.\<close>

definition WIFEXITED :: "int \<Rightarrow> bool" where "WIFEXITED s \<longleftrightarrow> s mod 128 = 0"
definition WIFSIGNALED :: "int \<Rightarrow> bool" where "WIFSIGNALED s \<longleftrightarrow> s mod 128 \<noteq> 0 \<and> s mod 128 \<noteq> 127"
definition WIFSTOPPED :: "int \<Rightarrow> bool" where "WIFSTOPPED s \<longleftrightarrow> s mod 256 = 127"
definition WSTOPSIG :: "int \<Rightarrow> int" where "WSTOPSIG s = s div 256 mod 256"

section \<open>Life of a sandbox\<close>

text \<open>The handler of \<^verbatim>\<open>SIGCHLD\<close>; nothing gives \<^verbatim>\<open>s_sigchld_fd\<close> another value than its first.\<close>

definition pt_handle_sigchld :: "kernel \<Rightarrow> int \<Rightarrow> int \<Rightarrow> unit pt" where
  "pt_handle_sigchld K s_sigchld_fd sig =
     (if sig \<noteq> SIGCHLD then pt_fault (Exited 1)
      else if s_sigchld_fd \<noteq> - 1 then
        pt_bnd (pt_retry K (Write_zero s_sigchld_fd)) (\<lambda>(r, e, s). if r \<noteq> 1 then pt_fault (Exited 2) else pt_ret ())
      else pt_ret ())"

definition ptrace_sandbox_free :: "pt_sandbox \<Rightarrow> unit pt" where
  "ptrace_sandbox_free S =
     pt_bnd (if pid S \<noteq> - 1 then
       pt_bnd (warnx ''bug: pid active in ptrace_sandbox_free'') (\<lambda>_. pt_do (Kill (pid S) SIGKILL)) else pt_ret ()) (\<lambda>_.
     pt_bnd (if read_event_fd S \<noteq> - 1 then
       pt_bnd (pt_do (Close_fd (read_event_fd S))) (\<lambda>_. pt_do (Close_fd (write_event_fd S))) else pt_ret ()) (\<lambda>_.
     pt_do Free))"

text \<open>\<^verbatim>\<open>malloc\<close> answers 0 for a null pointer.\<close>

definition ptrace_sandbox_alloc :: "kernel \<Rightarrow> pt_sandbox option pt" where
  "ptrace_sandbox_alloc K =
     pt_bnd (pt_call K Malloc) (\<lambda>(p, _). if p = 0 then pt_ret None else
     pt_bnd (pt_call K Sigaction) (\<lambda>(r, _).
     if r \<noteq> 0 then pt_bnd (ptrace_sandbox_free new_sandbox) (\<lambda>_. pt_ret None)
     else pt_ret (Some new_sandbox)))"

definition ptrace_sandbox_attach_point :: "kernel \<Rightarrow> unit pt" where
  "ptrace_sandbox_attach_point K =
     pt_bnd (pt_call K Getpid) (\<lambda>(p, _).
     if p \<le> 1 then pt_bnd (warnx ''weird pid'') (\<lambda>_. pt_fault (Exited 1))
     else pt_bnd (pt_call K Traceme) (\<lambda>(r, _).
     if r \<noteq> 0 then pt_bnd (warnx ''PTRACE_TRACEME failed'') (\<lambda>_. pt_fault (Exited 2))
     else pt_bnd (pt_call K (Kill p SIGSTOP)) (\<lambda>(r, _).
     if r \<noteq> 0 then pt_bnd (warnx ''kill SIGSTOP failed'') (\<lambda>_. pt_fault (Exited 3))
     else pt_ret ())))"

definition sanitize_child :: "kernel \<Rightarrow> unit pt" where
  "sanitize_child K = pt_bnd (pt_call K Prctl) (\<lambda>(r, _). if r \<noteq> 0 then pt_fault (Exited 3) else pt_ret ())"

definition launch_kill_out :: "string \<Rightarrow> pt_sandbox \<Rightarrow> (int \<times> pt_sandbox) pt" where
  "launch_kill_out m S = pt_bnd (warnx m) (\<lambda>_. pt_bnd (pt_do (Kill (pid S) SIGKILL)) (\<lambda>_. pt_ret (- 1, S\<lparr>pid := - 1\<rparr>)))"

text \<open>15 is \<^verbatim>\<open>PTRACE_O_TRACESYSGOOD\<close> with the three options for new processes. The child runs the
  function it is given (\<open>Run_child\<close>) and exits.\<close>

definition ptrace_sandbox_launch_process :: "kernel \<Rightarrow> pt_sandbox \<Rightarrow> (int \<times> pt_sandbox) pt" where
  "ptrace_sandbox_launch_process K S =
     (if pid S \<noteq> - 1 then pt_bnd (warnx ''bug: process already active'') (\<lambda>_. pt_ret (- 1, S))
      else pt_bnd (pt_call K Fork) (\<lambda>(r, _).
      if r < 0 then pt_ret (- 1, S)
      else if r = 0 then pt_bnd (sanitize_child K) (\<lambda>_. pt_bnd (pt_do Run_child) (\<lambda>_. pt_fault (Exited 0)))
      else let S' = S\<lparr>pid := r\<rparr> in
        pt_bnd (pt_retry K (Waitpid r 0)) (\<lambda>(q, _, status).
        if q = - 1 then launch_kill_out ''waitpid failed'' S'
        else if q \<noteq> r then launch_kill_out ''unknown pid'' S'
        else if \<not> WIFSTOPPED status then launch_kill_out ''not stopped status'' S'
        else if WSTOPSIG status \<noteq> SIGSTOP then launch_kill_out ''not SIGSTOP status'' S'
        else pt_bnd (pt_call K (Setoptions r 15)) (\<lambda>(z, _).
          if z \<noteq> 0 then launch_kill_out ''PTRACE_SETOPTIONS failure'' S' else pt_ret (r, S')))))"

definition ptrace_sandbox_continue_process :: "kernel \<Rightarrow> pt_sandbox \<Rightarrow> int \<Rightarrow> int pt" where
  "ptrace_sandbox_continue_process K S sig =
     pt_bnd (pt_call K (Pt_syscall (pid S) sig)) (\<lambda>(r, e).
     if r \<noteq> 0 then pt_bnd (warnx ''PTRACE_SYSCALL failure'')
       (\<lambda>_. pt_ret (if e = ESRCH then PTRACE_SANDBOX_ERR_DEAD else PTRACE_SANDBOX_ERR_PTRACE))
     else pt_ret 0)"

text \<open>1 is \<^verbatim>\<open>WNOHANG\<close>. The process and the status.\<close>

definition ptrace_sandbox_get_event :: "kernel \<Rightarrow> pt_sandbox \<Rightarrow> bool \<Rightarrow> (int \<times> int) pt" where
  "ptrace_sandbox_get_event K S block =
     pt_bnd (pt_retry K (Waitpid (pid S) (if block then 0 else 1))) (\<lambda>(p, e, status).
     if p = - 1 then pt_bnd (warnx ''waitpid failure'')
       (\<lambda>_. pt_ret (if e = ECHILD then PTRACE_SANDBOX_ERR_DEAD else PTRACE_SANDBOX_ERR_WAITPID, status))
     else pt_ret (p, status))"

definition ptrace_sandbox_get_event_fd :: "pt_sandbox \<Rightarrow> int pt" where
  "ptrace_sandbox_get_event_fd S = pt_ret (- 1)"

text \<open>252 is \<^verbatim>\<open>__NR_exit_group\<close>.\<close>

definition ptrace_sandbox_kill_processes :: "kernel \<Rightarrow> pt_sandbox \<Rightarrow> pt_sandbox pt" where
  "ptrace_sandbox_kill_processes K S =
     (if pid S = - 1 then pt_ret S
      else let p = pid S; S' = S\<lparr>pid := - 1\<rparr> in
        pt_bnd (pt_getregs K p) (\<lambda>(r, _, rg).
        if r \<noteq> 0 then pt_bnd (warnx ''PTRACE_GETREGS failure'') (\<lambda>_. pt_bnd (pt_do (Kill p SIGKILL)) (\<lambda>_. pt_ret S'))
        else
          pt_bnd (pt_call K (Setregs p (rg\<lparr>orig_eax := 252, eip := - 1\<rparr>))) (\<lambda>(r, _).
          pt_bnd (if r \<noteq> 0 then warnx ''PTRACE_SETREGS failure'' else pt_ret ()) (\<lambda>_.
          pt_bnd (pt_call K (Pt_kill p)) (\<lambda>(r, _).
          pt_bnd (if r \<noteq> 0 then warnx ''PTRACE_KILL failure'' else pt_ret ()) (\<lambda>_.
          pt_bnd (pt_do (Kill p SIGKILL)) (\<lambda>_.
          pt_bnd (pt_do (Waitpid p 0)) (\<lambda>_. pt_ret S'))))))))"

section \<open>Arguments of a system call\<close>

definition ptrace_sandbox_get_arg :: "pt_sandbox \<Rightarrow> int \<Rightarrow> int + 32 word" where
  "ptrace_sandbox_get_arg S arg =
     (let p_regs = pt_regs S in
      if orig_eax p_regs = 0 then Inl PTRACE_SANDBOX_ERR_API_ABUSE_STOPIT
      else if arg < 0 \<or> arg > 5 then Inl PTRACE_SANDBOX_ERR_API_ABUSE_STOPIT
      else Inr (if arg = 0 then ebx p_regs else if arg = 1 then ecx p_regs else if arg = 2 then edx p_regs
        else if arg = 3 then esi p_regs else if arg = 4 then edi p_regs else ebp p_regs))"

definition peek_failed :: "32 word \<times> int \<Rightarrow> bool" where
  "peek_failed = (\<lambda>(v, e). v = - 1 \<and> e \<noteq> 0)"

definition peek_error :: "int \<Rightarrow> (int \<times> bytes) pt" where
  "peek_error e = pt_bnd (warnx ''PTRACE_GETREGS failure'')
     (\<lambda>_. pt_ret (if e = ESRCH then PTRACE_SANDBOX_ERR_DEAD else PTRACE_SANDBOX_ERR_PTRACE, []))"

text \<open>The result and the bytes copied. A rest of fewer than four bytes is copied and \<^verbatim>\<open>len\<close> wraps around below
  zero: the loop goes on, and unless the next read fails it writes outside the buffer.\<close>

fun ptrace_sandbox_get_buf :: "kernel \<Rightarrow> pt_sandbox \<Rightarrow> 32 word \<Rightarrow> nat \<Rightarrow> (int \<times> bytes) pt" where
  "ptrace_sandbox_get_buf K S ptr len =
     (if len = 0 then pt_ret (0, [])
      else pt_bnd (pt_peek K (pid S) ptr) (\<lambda>p.
        if peek_failed p then peek_error (snd p)
        else if len \<ge> 4 then
          pt_bnd (ptrace_sandbox_get_buf K S (ptr + 4) (len - 4)) (\<lambda>(r, bs). pt_ret (r, enc32 (fst p) @ bs))
        else pt_bnd (pt_peek K (pid S) (ptr + 4)) (\<lambda>q.
          if peek_failed q then peek_error (snd q) else pt_fault Segv)))"

declare ptrace_sandbox_get_buf.simps [simp del]

definition ptrace_sandbox_get_long :: "kernel \<Rightarrow> pt_sandbox \<Rightarrow> 32 word \<Rightarrow> (int + 32 word) pt" where
  "ptrace_sandbox_get_long K S ptr =
     pt_bnd (ptrace_sandbox_get_buf K S ptr 4) (\<lambda>(r, bs). pt_ret (if r \<noteq> 0 then Inl r else Inr (dec32 bs)))"

definition ptrace_sandbox_get_socketcall_arg :: "kernel \<Rightarrow> pt_sandbox \<Rightarrow> int \<Rightarrow> (int + 32 word) pt" where
  "ptrace_sandbox_get_socketcall_arg K S arg =
     (if orig_eax (pt_regs S) = 0 then pt_ret (Inl PTRACE_SANDBOX_ERR_API_ABUSE_STOPIT)
      else if arg < 0 \<or> arg > 2 then pt_ret (Inl PTRACE_SANDBOX_ERR_API_ABUSE_STOPIT)
      else case ptrace_sandbox_get_arg S 1 of
        Inl r \<Rightarrow> pt_ret (Inl r)
      | Inr ptr \<Rightarrow> ptrace_sandbox_get_long K S (ptr + of_int (arg * 4)))"

text \<open>An argument, or the return of its error.\<close>

fun pt_arg :: "int + 32 word \<Rightarrow> (32 word \<Rightarrow> int pt) \<Rightarrow> int pt" where
  "pt_arg (Inl r) k = pt_ret r"
| "pt_arg (Inr v) k = k v"


section \<open>The checks of \<^verbatim>\<open>ftppolicy.c\<close> on socket calls\<close>

abbreviation (input) PT_AF_INET :: "32 word" where "PT_AF_INET \<equiv> 2"
abbreviation (input) PT_AF_INET6 :: "32 word" where "PT_AF_INET6 \<equiv> 10"

definition expected_family :: "vsf_session \<Rightarrow> 32 word" where
  "expected_family s = (if vsf_sysutil_sockaddr_is_ipv6 (p_local_addr s) then PT_AF_INET6 else PT_AF_INET)"

text \<open>1 is \<^verbatim>\<open>SOCK_STREAM\<close>.\<close>

definition socket_validator :: "kernel \<Rightarrow> pt_sandbox \<Rightarrow> vsf_session \<Rightarrow> int pt" where
  "socket_validator K S p_sess =
     pt_bnd (ptrace_sandbox_get_socketcall_arg K S 0) (\<lambda>a1. pt_arg a1 (\<lambda>arg1.
     pt_bnd (ptrace_sandbox_get_socketcall_arg K S 1) (\<lambda>a2. pt_arg a2 (\<lambda>arg2.
     pt_ret (if arg1 \<noteq> expected_family p_sess \<or> arg2 \<noteq> 1 then - 1 else 0)))))"

text \<open>The fields of \<^verbatim>\<open>struct sockaddr_in\<close> (16 bytes) and \<^verbatim>\<open>struct sockaddr_in6\<close> (28 bytes).\<close>

definition sa_family :: "bytes \<Rightarrow> nat" where
  "sa_family b = code (b ! 0) + 256 * code (b ! 1)"

definition raw_sockaddr :: "bool \<Rightarrow> bytes \<Rightarrow> sockaddr res" where
  "raw_sockaddr six b =
     (if six then vsf_sysutil_sockaddr_set_ipv6addr vsf_sysutil_sockaddr_alloc_ipv6 (take 16 (drop 8 b))
      else vsf_sysutil_sockaddr_set_ipv4addr vsf_sysutil_sockaddr_alloc_ipv4 (take 4 (drop 4 b)))"

definition pt_lift :: "'a res \<Rightarrow> 'a pt" where
  "pt_lift r = (\<lambda>h. (r, h))"

definition connect_validator :: "kernel \<Rightarrow> pt_sandbox \<Rightarrow> vsf_session \<Rightarrow> int pt" where
  "connect_validator K S p_sess =
     (let six = vsf_sysutil_sockaddr_is_ipv6 (p_local_addr p_sess); expected_len = (if six then 28 else 16) in
      pt_bnd (ptrace_sandbox_get_socketcall_arg K S 1) (\<lambda>a2. pt_arg a2 (\<lambda>arg2.
      pt_bnd (ptrace_sandbox_get_socketcall_arg K S 2) (\<lambda>a3. pt_arg a3 (\<lambda>arg3.
      if arg3 \<noteq> of_nat expected_len then pt_ret (- 1)
      else pt_bnd (ptrace_sandbox_get_buf K S arg2 expected_len) (\<lambda>(r, p_buf).
        if r \<noteq> 0 then pt_ret (- 2)
        else if sa_family p_buf \<noteq> unat (expected_family p_sess) then pt_ret (- 3)
        else pt_bnd (pt_lift (raw_sockaddr six p_buf)) (\<lambda>p_sockptr.
          pt_ret (if \<not> vsf_sysutil_sockaddr_addr_equal (p_remote_addr p_sess) p_sockptr then - 4 else 0))))))))"

text \<open>\<^verbatim>\<open>SOL_SOCKET\<close> is 1 and \<^verbatim>\<open>SO_ERROR\<close> 4.\<close>

definition getsockopt_validator :: "kernel \<Rightarrow> pt_sandbox \<Rightarrow> int pt" where
  "getsockopt_validator K S =
     pt_bnd (ptrace_sandbox_get_socketcall_arg K S 1) (\<lambda>a2. pt_arg a2 (\<lambda>arg2.
     pt_bnd (ptrace_sandbox_get_socketcall_arg K S 2) (\<lambda>a3. pt_arg a3 (\<lambda>arg3.
     pt_ret (if arg2 \<noteq> 1 \<or> arg3 \<noteq> 4 then - 1 else 0)))))"

text \<open>\<^verbatim>\<open>SO_KEEPALIVE\<close> 9, \<^verbatim>\<open>SO_REUSEADDR\<close> 2, \<^verbatim>\<open>SO_OOBINLINE\<close> 10, \<^verbatim>\<open>SO_LINGER\<close> 13; \<^verbatim>\<open>IPPROTO_TCP\<close> 6 with \<^verbatim>\<open>TCP_NODELAY\<close> 1,
  \<^verbatim>\<open>IPPROTO_IP\<close> 0 with \<^verbatim>\<open>IP_TOS\<close> 1.\<close>

definition setsockopt_validator :: "kernel \<Rightarrow> pt_sandbox \<Rightarrow> int pt" where
  "setsockopt_validator K S =
     pt_bnd (ptrace_sandbox_get_socketcall_arg K S 1) (\<lambda>a2. pt_arg a2 (\<lambda>arg2.
     pt_bnd (ptrace_sandbox_get_socketcall_arg K S 2) (\<lambda>a3. pt_arg a3 (\<lambda>arg3.
     pt_ret
       (if arg2 = 1 then if arg3 \<noteq> 9 \<and> arg3 \<noteq> 2 \<and> arg3 \<noteq> 10 \<and> arg3 \<noteq> 13 then - 1 else 0
        else if arg2 = 6 then if arg3 \<noteq> 1 then - 2 else 0
        else if arg2 = 0 then if arg3 \<noteq> 1 then - 3 else 0
        else - 4)))))"

text \<open>The call through the stored pointer. The first two read the session they are given.\<close>

fun run_socket_check :: "kernel \<Rightarrow> pt_sandbox \<Rightarrow> socket_check \<Rightarrow> vsf_session option \<Rightarrow> int pt" where
  "run_socket_check K S Socket_validator (Some s) = socket_validator K S s"
| "run_socket_check K S Connect_validator (Some s) = connect_validator K S s"
| "run_socket_check K S Getsockopt_validator _ = getsockopt_validator K S"
| "run_socket_check K S Setsockopt_validator _ = setsockopt_validator K S"
| "run_socket_check K S _ None = pt_fault Segv"

section \<open>The checks on system calls\<close>

abbreviation (input) PT_MAP_SHARED :: "32 word" where "PT_MAP_SHARED \<equiv> 1"
abbreviation (input) PT_O_ACCMODE :: "32 word" where "PT_O_ACCMODE \<equiv> 3"
abbreviation (input) PT_O_ASYNC :: "32 word" where "PT_O_ASYNC \<equiv> 0x2000"
abbreviation (input) PT_O_DIRECT :: "32 word" where "PT_O_DIRECT \<equiv> 0x4000"
abbreviation (input) PT_O_SYNC :: "32 word" where "PT_O_SYNC \<equiv> 0x101000"

definition validate_mmap2 :: "pt_sandbox \<Rightarrow> int pt" where
  "validate_mmap2 S = pt_arg (ptrace_sandbox_get_arg S 3) (\<lambda>arg4. pt_ret (if arg4 AND PT_MAP_SHARED \<noteq> 0 then - 1 else 0))"

definition validate_open_default :: "pt_sandbox \<Rightarrow> int pt" where
  "validate_open_default S = pt_arg (ptrace_sandbox_get_arg S 1)
     (\<lambda>arg2. pt_ret (if arg2 AND (PT_O_ASYNC OR PT_O_DIRECT OR PT_O_SYNC) \<noteq> 0 then - 1 else 0))"

definition validate_open_readonly :: "pt_sandbox \<Rightarrow> int pt" where
  "validate_open_readonly S =
     pt_bnd (validate_open_default S) (\<lambda>r. if r \<noteq> 0 then pt_ret r
     else pt_arg (ptrace_sandbox_get_arg S 1) (\<lambda>arg2. pt_ret (if arg2 AND PT_O_ACCMODE \<noteq> 0 then - 1 else 0)))"

text \<open>\<^verbatim>\<open>F_GETFL\<close> 3, \<^verbatim>\<open>F_SETFL\<close> 4, \<^verbatim>\<open>F_SETOWN\<close> 8, \<^verbatim>\<open>F_SETLK\<close> 6, \<^verbatim>\<open>F_SETLKW\<close> 7, their 64-bit forms 13 and 14,
  \<^verbatim>\<open>F_SETFD\<close> 2, \<^verbatim>\<open>F_GETFD\<close> 1.\<close>

definition validate_fcntl :: "pt_sandbox \<Rightarrow> int pt" where
  "validate_fcntl S =
     pt_arg (ptrace_sandbox_get_arg S 1) (\<lambda>arg2.
     pt_arg (ptrace_sandbox_get_arg S 2) (\<lambda>arg3.
     if arg2 \<notin> set [3, 4, 8, 6, 7, 13, 14, 2, 1] then pt_bnd (warnx ''fcntl not permitted'') (\<lambda>_. pt_ret (- 1))
     else if arg2 = 4 \<and> arg3 AND (PT_O_ASYNC OR PT_O_DIRECT) \<noteq> 0 then pt_ret (- 2)
     else if arg2 = 8 \<and> sint arg3 \<noteq> pid S then pt_ret (- 3)
     else pt_ret 0))"

definition validate_socketcall :: "kernel \<Rightarrow> pt_sandbox \<Rightarrow> int pt" where
  "validate_socketcall K S =
     pt_arg (ptrace_sandbox_get_arg S 0) (\<lambda>arg1.
     let n = unat arg1 in
     if n < 1 \<or> n \<ge> NPROTO then pt_ret (- 1)
     else if \<not> is_socketcall_allowed S n then pt_bnd (warnx ''socketcall not permitted'') (\<lambda>_. pt_ret (- 2))
     else case socketcall_validator S n of
       None \<Rightarrow> pt_ret 0
     | Some p_val \<Rightarrow> pt_bnd (run_socket_check K S p_val (socketcall_validator_arg S n)) (\<lambda>r.
         if r \<noteq> 0 then pt_bnd (warnx ''socketcall validate fail'') (\<lambda>_. pt_ret (- 3)) else pt_ret 0))"

fun run_validator :: "kernel \<Rightarrow> pt_sandbox \<Rightarrow> validator \<Rightarrow> int pt" where
  "run_validator K S Validate_mmap2 = validate_mmap2 S"
| "run_validator K S Validate_open_default = validate_open_default S"
| "run_validator K S Validate_open_readonly = validate_open_readonly S"
| "run_validator K S Validate_fcntl = validate_fcntl S"
| "run_validator K S Validate_socketcall = validate_socketcall K S"

text \<open>The decision on a system call whose registers have been read.\<close>

definition judge :: "kernel \<Rightarrow> pt_sandbox \<Rightarrow> int pt" where
  "judge K S =
     (let cs = xcs (pt_regs S); call = sint (orig_eax (pt_regs S)) in
      if cs \<noteq> 0x73 \<and> cs \<noteq> 0x23 then pt_bnd (warnx ''bad CS'') (\<lambda>_. pt_ret PTRACE_SANDBOX_ERR_BAD_SYSCALL)
      else if call < 0 \<or> call \<ge> MAX_SYSCALL then
        pt_bnd (warnx ''syscall out of bounds'') (\<lambda>_. pt_ret PTRACE_SANDBOX_ERR_BAD_SYSCALL)
      else if \<not> is_allowed S call then
        pt_bnd (warnx ''syscall not permitted'') (\<lambda>_. pt_ret PTRACE_SANDBOX_ERR_POLICY_SYSCALL)
      else case validator S call of
        None \<Rightarrow> pt_ret 0
      | Some p_validate \<Rightarrow> pt_bnd (run_validator K S p_validate) (\<lambda>r.
          if r \<noteq> 0 then pt_bnd (warnx ''syscall validate failed'') (\<lambda>_. pt_ret PTRACE_SANDBOX_ERR_POLICY_ARGS)
          else pt_ret 0))"

definition get_action :: "kernel \<Rightarrow> pt_sandbox \<Rightarrow> (int \<times> pt_sandbox) pt" where
  "get_action K S =
     pt_bnd (pt_getregs K (pid S)) (\<lambda>(r, e, rg).
     if r \<noteq> 0 then pt_bnd (warnx ''PTRACE_GETREGS failure'')
       (\<lambda>_. pt_ret (if e = ESRCH then PTRACE_SANDBOX_ERR_DEAD else PTRACE_SANDBOX_ERR_PTRACE, S))
     else pt_bnd (judge K (S\<lparr>pt_regs := rg\<rparr>)) (\<lambda>a. pt_ret (a, S\<lparr>pt_regs := zero_regs\<rparr>)))"

section \<open>The supervisor\<close>

definition ptrace_sandbox_handle_event :: "kernel \<Rightarrow> pt_sandbox \<Rightarrow> int \<Rightarrow> (int \<times> pt_sandbox) pt" where
  "ptrace_sandbox_handle_event K S status =
     (if WIFEXITED status \<or> WIFSIGNALED status then pt_ret (1, S\<lparr>pid := - 1\<rparr>)
      else if \<not> WIFSTOPPED status then
        pt_bnd (warnx ''weird status'') (\<lambda>_. pt_ret (PTRACE_SANDBOX_ERR_WAIT_STATUS, S))
      else let sig = WSTOPSIG status in
        if sig \<ge> 0 \<and> sig < 0x80 then
          pt_bnd (ptrace_sandbox_continue_process K S (if sig = SIGSTOP \<or> sig = SIGCONT then SIGKILL else sig))
            (\<lambda>r. pt_ret (r, S))
        else if sig div 128 mod 2 = 0 then
          pt_bnd (warnx ''weird status'') (\<lambda>_. pt_ret (PTRACE_SANDBOX_ERR_WAIT_STATUS, S))
        else if is_exit S then
          pt_bnd (ptrace_sandbox_continue_process K S 0) (\<lambda>r. pt_ret (r, S\<lparr>is_exit := False\<rparr>))
        else pt_bnd (get_action K (S\<lparr>is_exit := True\<rparr>)) (\<lambda>(action, S').
          if action \<noteq> 0 then pt_ret (action, S')
          else pt_bnd (ptrace_sandbox_continue_process K S' 0) (\<lambda>r. pt_ret (r, S'))))"

definition kill_out :: "kernel \<Rightarrow> pt_sandbox \<Rightarrow> (pt_sandbox + int \<times> pt_sandbox) pt" where
  "kill_out K S = pt_bnd (ptrace_sandbox_kill_processes K S) (\<lambda>S'. pt_ret (Inr (- 1, S')))"

text \<open>One turn of the loop: on to the next (\<open>Inl\<close>), or the return value.\<close>

definition run_turn :: "kernel \<Rightarrow> pt_sandbox \<Rightarrow> (pt_sandbox + int \<times> pt_sandbox) pt" where
  "run_turn K S =
     pt_bnd (ptrace_sandbox_get_event K S True) (\<lambda>(r, status).
     if r \<le> 0 then kill_out K S
     else pt_bnd (ptrace_sandbox_handle_event K S status) (\<lambda>(r, S').
       if r < 0 then pt_bnd (warnx ''couldn't handle sandbox event'') (\<lambda>_. kill_out K S')
       else if r = 1 then pt_ret (Inr (0, S'))
       else pt_ret (Inl S')))"

fun goes_on :: "(pt_sandbox + int \<times> pt_sandbox) res \<times> call list \<Rightarrow> bool" where
  "goes_on (Inr (Inl S), h) = True"
| "goes_on _ = False"

fun turn_again :: "kernel \<Rightarrow> (pt_sandbox + int \<times> pt_sandbox) res \<times> call list \<Rightarrow> (pt_sandbox + int \<times> pt_sandbox) res \<times> call list" where
  "turn_again K (Inr (Inl S), h) = run_turn K S h"
| "turn_again K x = x"

fun run_result :: "(pt_sandbox + int \<times> pt_sandbox) res \<times> call list \<Rightarrow> (int \<times> pt_sandbox) res \<times> call list" where
  "run_result (Inr (Inr x), h) = (Inr x, h)"
| "run_result (Inl f, h) = (Inl f, h)"
| "run_result (Inr (Inl S), h) = (Inr (0, S), h)"

definition ptrace_sandbox_run_processes :: "kernel \<Rightarrow> pt_sandbox \<Rightarrow> (int \<times> pt_sandbox) pt" where
  "ptrace_sandbox_run_processes K S =
     pt_bnd (ptrace_sandbox_continue_process K S 0) (\<lambda>r.
     if r \<noteq> 0 then (\<lambda>h. run_result (kill_out K S h))
     else (\<lambda>h. case while_option goes_on (turn_again K) (Inr (Inl S), h) of
         None \<Rightarrow> (Inl (Endless ''ptrace_sandbox_run_processes''), h)
       | Some x \<Rightarrow> run_result x))"


section \<open>Which system calls run\<close>

text \<open>What \<^verbatim>\<open>ptrace(2)\<close> documents of a traced process: the stops at a system call come in pairs, before the call
  and after it; a process that is continued or killed when it is stopped before a call runs that call with the
  registers it then has. \<open>seen\<close> computes from the calls of the supervisor where the process is, and with which
  registers, after which calls of the supervisor, system calls have run.\<close>

datatype place = Outside | Entry | Inside

record sight =
  place :: place
  changed :: "regs option"
  ran :: "(call list \<times> regs) list"

definition syscall_stop :: "int \<Rightarrow> bool" where
  "syscall_stop s \<longleftrightarrow> WIFSTOPPED s \<and> WSTOPSIG s \<ge> 128"

definition resumed :: "kernel \<Rightarrow> call list \<Rightarrow> sight \<Rightarrow> sight" where
  "resumed K h v =
     (if place v = Entry
      then v\<lparr>place := Inside, ran := ran v @ [(h, case changed v of None \<Rightarrow> k_regs K h | Some r \<Rightarrow> r)]\<rparr> else v)"

fun look :: "kernel \<Rightarrow> call list \<Rightarrow> call \<Rightarrow> sight \<Rightarrow> sight" where
  "look K h (Waitpid p o') v =
     (if k_ret K h (Waitpid p o') > 0 \<and> syscall_stop (k_status K h)
      then case place v of Outside \<Rightarrow> v\<lparr>place := Entry, changed := None\<rparr> | Entry \<Rightarrow> v | Inside \<Rightarrow> v\<lparr>place := Outside\<rparr>
      else v)"
| "look K h (Setregs p r) v = (if k_ret K h (Setregs p r) = 0 then v\<lparr>changed := Some r\<rparr> else v)"
| "look K h (Pt_syscall p s) v = (if k_ret K h (Pt_syscall p s) = 0 then resumed K h v else v)"
| "look K h (Pt_kill p) v = resumed K h v"
| "look K h (Kill p s) v = resumed K h v"
| "look K h _ v = v"

primrec seen :: "kernel \<Rightarrow> call list \<Rightarrow> sight" where
  "seen K [] = \<lparr>place = Outside, changed = None, ran = []\<rparr>"
| "seen K (c # h) = look K h c (seen K h)"

text \<open>What is relied on of the kernel: reading a stopped process leaves it as it is, and the registers of a
  process stopped before a system call can be read and set.\<close>

fun quiet :: "call \<Rightarrow> bool" where
  "quiet (Getregs p) = True"
| "quiet (Peekdata p a) = True"
| "quiet (Warn m) = True"
| "quiet _ = False"

definition steady :: "kernel \<Rightarrow> bool" where
  "steady K \<longleftrightarrow> (\<forall>h c. quiet c \<longrightarrow> k_regs K (c # h) = k_regs K h \<and> k_peek K (c # h) = k_peek K h)"

definition regs_open :: "kernel \<Rightarrow> bool" where
  "regs_open K \<longleftrightarrow> (\<forall>h p r. place (seen K h) = Entry \<longrightarrow> k_ret K h (Getregs p) = 0 \<and> k_ret K h (Setregs p r) = 0)"

definition still :: "kernel \<Rightarrow> call list \<Rightarrow> call list \<Rightarrow> bool" where
  "still K h h' \<longleftrightarrow> k_regs K h' = k_regs K h \<and> k_peek K h' = k_peek K h \<and> seen K h' = seen K h"

lemma still_refl [simp]: "still K h h"
  by (simp add: still_def)

lemma still_trans: "still K h h' \<Longrightarrow> still K h' h'' \<Longrightarrow> still K h h''"
  by (simp add: still_def)

lemma still_quiet: "steady K \<Longrightarrow> quiet c \<Longrightarrow> still K h g \<Longrightarrow> still K h (c # g)"
  by (cases c) (auto simp: still_def steady_def)

section \<open>Reasoning about the supervisor\<close>

definition pt_wp :: "'a pt \<Rightarrow> ('a \<Rightarrow> call list \<Rightarrow> bool) \<Rightarrow> (fault \<Rightarrow> bool) \<Rightarrow> call list \<Rightarrow> bool" where
  "pt_wp m Q F h = (case m h of (Inl f, h') \<Rightarrow> F f | (Inr a, h') \<Rightarrow> Q a h')"

named_theorems pt_simps

lemma pt_wp_basic [pt_simps]:
  "pt_wp (pt_ret x) Q1 F = Q1 x"
  "pt_wp (pt_fault f) Q2 F h = F f"
  "pt_wp (pt_call K c) Q3 F h = Q3 (k_ret K h c, k_errno K h c) (c # h)"
  "pt_wp (pt_do c) Q4 F h = Q4 () (c # h)"
  "pt_wp (warnx m) Q5 F h = Q5 () (Warn m # h)"
  "pt_wp (pt_getregs K p) Q6 F h = Q6 (k_ret K h (Getregs p), k_errno K h (Getregs p), k_regs K h) (Getregs p # h)"
  "pt_wp (pt_peek K p a) Q7 F h = Q7 (k_peek K h a, k_errno K h (Peekdata p a)) (Peekdata p a # h)"
  "pt_wp (pt_lift r) Q8 F h = (case r of Inl f \<Rightarrow> F f | Inr y \<Rightarrow> Q8 y h)"
  by (auto simp: pt_wp_def pt_ret_def pt_fault_def pt_call_def pt_do_def warnx_def pt_getregs_def pt_peek_def pt_lift_def
      fun_eq_iff split: sum.split)

lemma pt_wp_bnd [pt_simps]: "pt_wp (pt_bnd m k) Q F = pt_wp m (\<lambda>a. pt_wp (k a) Q F) F"
  by (auto simp: pt_wp_def pt_bnd_def fun_eq_iff split: prod.splits sum.splits)

lemma pt_bnd_ret [simp]: "pt_bnd (pt_ret a) k = k a"
  by (simp add: pt_bnd_def pt_ret_def)

lemma pt_wp_if [pt_simps]: "pt_wp (if b then m else n) Q F = (if b then pt_wp m Q F else pt_wp n Q F)"
  by simp

lemma pt_wp_mono:
  "pt_wp m Q F h \<Longrightarrow> (\<And>a h'. Q a h' \<Longrightarrow> Q' a h') \<Longrightarrow> (\<And>f. F f \<Longrightarrow> F' f) \<Longrightarrow> pt_wp m Q' F' h"
  by (auto simp: pt_wp_def split: prod.splits sum.splits)

lemma pt_wpD: "pt_wp m Q F h \<Longrightarrow> m h = (Inr a, h') \<Longrightarrow> Q a h'"
  by (simp add: pt_wp_def)

text \<open>Reading memory: the bytes from an address on, and that no read fails.\<close>

definition mem_bytes :: "(32 word \<Rightarrow> 32 word) \<Rightarrow> 32 word \<Rightarrow> nat \<Rightarrow> bytes" where
  "mem_bytes m a n = concat (map (\<lambda>i. enc32 (m (a + 4 * of_nat i))) [0 ..< n div 4])"

definition readable :: "kernel \<Rightarrow> bool" where
  "readable K \<longleftrightarrow> (\<forall>h p a. k_errno K h (Peekdata p a) = 0)"

lemma mem_bytes_0 [simp]: "mem_bytes m a 0 = []"
  by (simp add: mem_bytes_def)

lemma mem_bytes_4: "4 \<le> n \<Longrightarrow> mem_bytes m a n = enc32 (m a) @ mem_bytes m (a + 4) (n - 4)"
proof -
  assume "4 \<le> n"
  then have "n div 4 = Suc ((n - 4) div 4)" by (metis div_add_self2 le_add_diff_inverse2 add.commute Suc_eq_plus1 zero_neq_numeral)
  then have "[0 ..< n div 4] = 0 # map Suc [0 ..< (n - 4) div 4]" by (simp only: upt_conv_Cons map_Suc_upt zero_less_Suc)
  then show ?thesis by (simp add: mem_bytes_def o_def algebra_simps)
qed

lemma get_buf_rule:
  assumes "steady K" and "4 dvd len" and "still K h g"
    and "\<And>r bs g'. still K h g' \<Longrightarrow> (r = 0 \<Longrightarrow> bs = mem_bytes (k_peek K h) ptr len) \<Longrightarrow> (readable K \<Longrightarrow> r = 0) \<Longrightarrow> Q (r, bs) g'"
  shows "pt_wp (ptrace_sandbox_get_buf K S ptr len) Q F g"
  using assms(2,3,4)
proof (induction len arbitrary: ptr g Q rule: less_induct)
  case (less len)
  have q: "still K h (c # g)" if "quiet c" for c by (rule still_quiet [OF assms(1) that less.prems(2)])
  have peek: "k_peek K g = k_peek K h" using less.prems(2) by (simp add: still_def)
  show ?case
  proof (cases "len = 0")
    case True
    then show ?thesis using less.prems(2,3) by (simp add: ptrace_sandbox_get_buf.simps pt_simps)
  next
    case False
    with less.prems(1) have len: "4 \<le> len" by (auto elim: dvdE)
    have fail: "Q (z, []) (Warn m # Peekdata p ptr # g)" if "z \<noteq> 0" "k_errno K g (Peekdata p ptr) \<noteq> 0" for z p m
      using less.prems(3) [OF still_quiet [OF assms(1) _ q], of "Warn m" "Peekdata p ptr" z] that by (auto simp: readable_def)
    have "pt_wp (ptrace_sandbox_get_buf K S (ptr + 4) (len - 4)) (\<lambda>(r, bs). Q (r, enc32 (k_peek K h ptr) @ bs)) F (Peekdata (pid S) ptr # g)"
      using less.prems(1) False len
      by (intro less.IH q) (auto intro!: less.prems(3) simp: mem_bytes_4 [OF len] dvd_minus_self)
    then show ?thesis using False len
      by (subst ptrace_sandbox_get_buf.simps)
        (auto simp: pt_simps peek_failed_def peek_error_def readable_def peek case_prod_unfold intro!: fail)
  qed
qed


section \<open>What the checks accept\<close>

text \<open>A check decides a condition: it leaves the process as it is, does not fault, and returns 0 only under the
  condition, and always under it when no read of memory fails.\<close>

definition decides :: "kernel \<Rightarrow> call list \<Rightarrow> bool \<Rightarrow> int pt \<Rightarrow> bool" where
  "decides K h P m \<longleftrightarrow> (\<forall>g. still K h g \<longrightarrow>
     pt_wp m (\<lambda>r g'. still K h g' \<and> (r = 0 \<longrightarrow> P) \<and> (readable K \<longrightarrow> P \<longrightarrow> r = 0)) (\<lambda>_. False) g)"

named_theorems decides_intros

lemma decides_ret [decides_intros]: "(r = 0 \<longleftrightarrow> P) \<Longrightarrow> decides K h P (pt_ret r)"
  by (simp add: decides_def pt_simps)

lemma decides_if [decides_intros]:
  "(b \<Longrightarrow> decides K h P m) \<Longrightarrow> (\<not> b \<Longrightarrow> decides K h P n) \<Longrightarrow> decides K h P (if b then m else n)"
  by simp

lemma decides_warn [decides_intros]:
  "steady K \<Longrightarrow> r \<noteq> 0 \<Longrightarrow> \<not> P \<Longrightarrow> decides K h P (pt_bnd (warnx t) (\<lambda>_. pt_ret r))"
  by (simp add: decides_def pt_simps still_quiet)

text \<open>A check that answers through another one.\<close>

lemma decides_bnd:
  assumes "decides K h P m" and "P \<Longrightarrow> decides K h Q (k 0)" and "\<And>r. r \<noteq> 0 \<Longrightarrow> decides K h False (k r)" and "Q \<Longrightarrow> P"
  shows "decides K h Q (pt_bnd m k)"
  unfolding decides_def pt_simps
proof (intro allI impI)
  fix g assume g: "still K h g"
  show "pt_wp m (\<lambda>a. pt_wp (k a) (\<lambda>r g'. still K h g' \<and> (r = 0 \<longrightarrow> Q) \<and> (readable K \<longrightarrow> Q \<longrightarrow> r = 0)) (\<lambda>_. False)) (\<lambda>_. False) g"
  proof (rule pt_wp_mono [OF assms(1) [unfolded decides_def, rule_format, OF g]])
    fix r :: int and g' assume r: "still K h g' \<and> (r = 0 \<longrightarrow> P) \<and> (readable K \<longrightarrow> P \<longrightarrow> r = 0)"
    show "pt_wp (k r) (\<lambda>r g'. still K h g' \<and> (r = 0 \<longrightarrow> Q) \<and> (readable K \<longrightarrow> Q \<longrightarrow> r = 0)) (\<lambda>_. False) g'"
    proof (cases "r = 0")
      case True
      then show ?thesis using r assms(2) by (simp add: decides_def)
    next
      case False
      then show ?thesis using r assms(4) by (auto intro!: pt_wp_mono [OF assms(3) [unfolded decides_def, rule_format, OF False]])
    qed
  qed simp
qed

lemma get_long_rule:
  assumes "steady K" and "still K h g"
    and "\<And>v g'. still K h g' \<Longrightarrow> (\<And>r. v = Inl r \<Longrightarrow> r \<noteq> 0 \<and> \<not> readable K) \<Longrightarrow> (\<And>x. v = Inr x \<Longrightarrow> x = k_peek K h ptr) \<Longrightarrow> Q v g'"
  shows "pt_wp (ptrace_sandbox_get_long K S ptr) Q F g"
  unfolding ptrace_sandbox_get_long_def pt_simps
  by (rule get_buf_rule [OF assms(1) _ assms(2)]) (auto intro!: assms(3) simp: pt_simps mem_bytes_4)

lemma decides_arg:
  assumes "steady K" and "orig_eax (pt_regs S) \<noteq> 0" and "0 \<le> n" and "n \<le> 2"
    and "decides K h P (k (k_peek K h (ecx (pt_regs S) + of_int (n * 4))))"
  shows "decides K h P (pt_bnd (ptrace_sandbox_get_socketcall_arg K S n) (\<lambda>a. pt_arg a k))"
  unfolding decides_def pt_simps
proof (intro allI impI)
  fix g assume g: "still K h g"
  let ?Q = "\<lambda>r g'. still K h g' \<and> (r = 0 \<longrightarrow> P) \<and> (readable K \<longrightarrow> P \<longrightarrow> r = 0)"
  have "ptrace_sandbox_get_socketcall_arg K S n = ptrace_sandbox_get_long K S (ecx (pt_regs S) + of_int (n * 4))"
    using assms(2-4) by (simp add: ptrace_sandbox_get_socketcall_arg_def ptrace_sandbox_get_arg_def Let_def)
  moreover have "pt_wp (pt_arg v k) ?Q (\<lambda>_. False) g'"
    if "still K h g'" "\<And>r. v = Inl r \<Longrightarrow> r \<noteq> 0 \<and> \<not> readable K" "\<And>x. v = Inr x \<Longrightarrow> x = k_peek K h (ecx (pt_regs S) + of_int (n * 4))"
    for v g'
    using that assms(5) by (cases v) (auto simp: pt_simps decides_def)
  ultimately show "pt_wp (ptrace_sandbox_get_socketcall_arg K S n) (\<lambda>a. pt_wp (pt_arg a k) ?Q (\<lambda>_. False)) (\<lambda>_. False) g"
    by (auto intro!: get_long_rule [OF assms(1) g])
qed

lemma decides_buf:
  assumes "steady K" and "4 dvd n" and "decides K h P (k (0, mem_bytes (k_peek K h) ptr n))"
    and "z \<noteq> 0" and "\<And>r bs. r \<noteq> 0 \<Longrightarrow> k (r, bs) = pt_ret z"
  shows "decides K h P (pt_bnd (ptrace_sandbox_get_buf K S ptr n) k)"
  unfolding decides_def pt_simps
proof (intro allI impI get_buf_rule [OF assms(1,2)])
  fix r :: int and bs g'
  assume "still K h g'" and "r = 0 \<Longrightarrow> bs = mem_bytes (k_peek K h) ptr n" and "readable K \<Longrightarrow> r = 0"
  then show "pt_wp (k (r, bs)) (\<lambda>r g'. still K h g' \<and> (r = 0 \<longrightarrow> P) \<and> (readable K \<longrightarrow> P \<longrightarrow> r = 0)) (\<lambda>_. False) g'"
    using assms(3,4) assms(5) [of r bs] by (cases "r = 0") (auto simp: decides_def pt_simps)
qed simp


text \<open>The conditions, as functions of the memory and the registers of the process.\<close>

definition to_client :: "vsf_session \<Rightarrow> (32 word \<Rightarrow> 32 word) \<Rightarrow> regs \<Rightarrow> bool" where
  "to_client s m r =
     (let six = vsf_sysutil_sockaddr_is_ipv6 (p_local_addr s); len = (if six then 28 else 16);
          b = mem_bytes m (m (ecx r + 4)) len
      in m (ecx r + 8) = of_nat len \<and> sa_family b = unat (expected_family s) \<and>
        vsf_sysutil_sockaddr_addr_equal (p_remote_addr s)
          (if six then Sockaddr_in6 (take 16 (drop 8 b)) 0 0 else Sockaddr_in (take 4 (drop 4 b)) 0))"

fun socket_meets :: "(32 word \<Rightarrow> 32 word) \<Rightarrow> regs \<Rightarrow> socket_check \<Rightarrow> vsf_session option \<Rightarrow> bool" where
  "socket_meets m r Socket_validator a = (m (ecx r) = expected_family (the a) \<and> m (ecx r + 4) = 1)"
| "socket_meets m r Connect_validator a = to_client (the a) m r"
| "socket_meets m r Getsockopt_validator a = (m (ecx r + 4) = 1 \<and> m (ecx r + 8) = 4)"
| "socket_meets m r Setsockopt_validator a =
     ((m (ecx r + 4), m (ecx r + 8)) \<in> {(1, 9), (1, 2), (1, 10), (1, 13), (6, 1), (0, 1)})"

fun meets :: "pt_sandbox \<Rightarrow> (32 word \<Rightarrow> 32 word) \<Rightarrow> regs \<Rightarrow> validator \<Rightarrow> bool" where
  "meets S m r Validate_mmap2 = (esi r AND PT_MAP_SHARED = 0)"
| "meets S m r Validate_open_default = (ecx r AND (PT_O_ASYNC OR PT_O_DIRECT OR PT_O_SYNC) = 0)"
| "meets S m r Validate_open_readonly =
     (ecx r AND (PT_O_ASYNC OR PT_O_DIRECT OR PT_O_SYNC) = 0 \<and> ecx r AND PT_O_ACCMODE = 0)"
| "meets S m r Validate_fcntl =
     (ecx r \<in> {1, 2, 3, 4, 6, 7, 8, 13, 14} \<and>
      (ecx r = 4 \<longrightarrow> edx r AND (PT_O_ASYNC OR PT_O_DIRECT) = 0) \<and> (ecx r = 8 \<longrightarrow> sint (edx r) = pid S))"
| "meets S m r Validate_socketcall =
     (let n = unat (ebx r) in
      1 \<le> n \<and> n < NPROTO \<and> is_socketcall_allowed S n \<and>
      (case socketcall_validator S n of None \<Rightarrow> True | Some c \<Rightarrow> socket_meets m r c (socketcall_validator_arg S n)))"

definition lawful :: "pt_sandbox \<Rightarrow> (32 word \<Rightarrow> 32 word) \<Rightarrow> regs \<Rightarrow> bool" where
  "lawful S m r \<longleftrightarrow>
     (xcs r = 0x73 \<or> xcs r = 0x23) \<and> 0 \<le> sint (orig_eax r) \<and> sint (orig_eax r) < MAX_SYSCALL \<and>
     is_allowed S (sint (orig_eax r)) \<and>
     (case validator S (sint (orig_eax r)) of None \<Rightarrow> True | Some v \<Rightarrow> meets S m r v)"

text \<open>Sandboxes as they are built: a check on addresses has its session, and call 0 is not validated.\<close>

definition armed :: "pt_sandbox \<Rightarrow> bool" where
  "armed S \<longleftrightarrow> validator S 0 = None \<and>
     (\<forall>n c. socketcall_validator S n = Some c \<longrightarrow> c = Socket_validator \<or> c = Connect_validator \<longrightarrow> socketcall_validator_arg S n \<noteq> None)"

lemma raw_sockaddr_mem:
  "length b = 28 \<Longrightarrow> raw_sockaddr True b = Inr (Sockaddr_in6 (take 16 (drop 8 b)) 0 0)"
  "length b = 16 \<Longrightarrow> raw_sockaddr False b = Inr (Sockaddr_in (take 4 (drop 4 b)) 0)"
  by (simp_all add: raw_sockaddr_def vsf_sysutil_sockaddr_alloc_ipv4_def vsf_sysutil_sockaddr_alloc_ipv6_def raw_bytes_def)

lemma length_mem_bytes [simp]: "length (mem_bytes m a n) = n div 4 * 4"
  by (simp add: mem_bytes_def length_concat o_def sum_list_triv)

lemma decides_lift: "r = Inr a \<Longrightarrow> decides K h P (k a) \<Longrightarrow> decides K h P (pt_bnd (pt_lift r) k)"
  by (simp add: decides_def pt_simps)

lemma decides_connect:
  assumes "steady K" and "orig_eax (pt_regs S) \<noteq> 0"
  shows "decides K h (to_client s (k_peek K h) (pt_regs S)) (connect_validator K S s)"
proof -
  let ?six = "vsf_sysutil_sockaddr_is_ipv6 (p_local_addr s)" and ?m = "k_peek K h" and ?r = "pt_regs S"
  let ?len = "if ?six then 28 else 16 :: nat" and ?P = "to_client s (k_peek K h) (pt_regs S)"
  define b where "b = mem_bytes ?m (?m (ecx ?r + 4)) ?len"
  define A where "A = (if ?six then Sockaddr_in6 (take 16 (drop 8 b)) 0 0 else Sockaddr_in (take 4 (drop 4 b)) 0)"
  have P: "?P \<longleftrightarrow> ?m (ecx ?r + 8) = of_nat ?len \<and> sa_family b = unat (expected_family s) \<and>
      vsf_sysutil_sockaddr_addr_equal (p_remote_addr s) A"
    unfolding to_client_def Let_def b_def A_def by (rule refl)
  have "raw_sockaddr ?six b = Inr A" by (cases ?six) (simp_all add: b_def A_def raw_sockaddr_mem)
  then have "decides K h ?P (pt_bnd (ptrace_sandbox_get_buf K S (?m (ecx ?r + 4)) ?len) (\<lambda>(r, p_buf).
        if r \<noteq> 0 then pt_ret (- 2)
        else if sa_family p_buf \<noteq> unat (expected_family s) then pt_ret (- 3)
        else pt_bnd (pt_lift (raw_sockaddr ?six p_buf)) (\<lambda>p_sockptr.
          pt_ret (if \<not> vsf_sysutil_sockaddr_addr_equal (p_remote_addr s) p_sockptr then - 4 else 0))))"
    if "?m (ecx ?r + 8) = of_nat ?len"
    using that P by (intro decides_buf [OF assms(1), where z = "- 2"]) (auto simp: b_def [symmetric] intro!: decides_intros decides_lift)
  then show ?thesis unfolding connect_validator_def Let_def using P
    by (intro decides_arg [OF assms] decides_if decides_ret) simp_all
qed

lemma decides_socket_check:
  assumes "steady K" and "orig_eax (pt_regs S) \<noteq> 0"
    and "c = Socket_validator \<or> c = Connect_validator \<Longrightarrow> a \<noteq> None"
  shows "decides K h (socket_meets (k_peek K h) (pt_regs S) c a) (run_socket_check K S c a)"
proof (cases c)
  case Socket_validator
  with assms(3) obtain s where "a = Some s" by auto
  with Socket_validator show ?thesis
    by (simp add: socket_validator_def) (rule decides_arg [OF assms(1,2)]; simp; rule decides_arg [OF assms(1,2)]; simp add: decides_ret)
next
  case Connect_validator
  with assms(3) obtain s where "a = Some s" by auto
  with Connect_validator show ?thesis by (simp add: decides_connect [OF assms(1,2)])
next
  case Getsockopt_validator
  then show ?thesis
    by (simp add: getsockopt_validator_def) (rule decides_arg [OF assms(1,2)]; simp; rule decides_arg [OF assms(1,2)]; simp add: decides_ret)
next
  case Setsockopt_validator
  then show ?thesis
    by (simp add: setsockopt_validator_def) (rule decides_arg [OF assms(1,2)]; simp; rule decides_arg [OF assms(1,2)]; simp add: decides_ret)
qed


lemma get_arg_nonzero:
  "orig_eax (pt_regs S) \<noteq> 0 \<Longrightarrow> ptrace_sandbox_get_arg S 0 = Inr (ebx (pt_regs S)) \<and> ptrace_sandbox_get_arg S 1 = Inr (ecx (pt_regs S)) \<and>
    ptrace_sandbox_get_arg S 2 = Inr (edx (pt_regs S)) \<and> ptrace_sandbox_get_arg S 3 = Inr (esi (pt_regs S))"
  by (simp add: ptrace_sandbox_get_arg_def Let_def)

lemma decides_validator:
  assumes "steady K" and "orig_eax (pt_regs S) \<noteq> 0" and "armed S"
  shows "decides K h (meets S (k_peek K h) (pt_regs S) v) (run_validator K S v)"
proof (cases v)
  case Validate_open_readonly
  then show ?thesis using get_arg_nonzero [OF assms(2)]
    by (auto simp: validate_open_readonly_def validate_open_default_def intro!: decides_intros)
next
  case Validate_socketcall
  let ?n = "unat (ebx (pt_regs S))"
  have "decides K h (socket_meets (k_peek K h) (pt_regs S) c (socketcall_validator_arg S ?n))
      (run_socket_check K S c (socketcall_validator_arg S ?n))" if "socketcall_validator S ?n = Some c" for c
    using that assms(3) by (intro decides_socket_check [OF assms(1,2)]) (auto simp: armed_def)
  then show ?thesis using Validate_socketcall get_arg_nonzero [OF assms(2)]
    by (auto simp: validate_socketcall_def Let_def split: option.split intro!: decides_intros decides_bnd assms(1))
qed (use get_arg_nonzero [OF assms(2)] in \<open>auto simp: validate_mmap2_def validate_open_default_def validate_fcntl_def
    intro!: decides_intros assms(1)\<close>)

lemma decides_judge:
  assumes "steady K" and "armed S"
  shows "decides K h (lawful S (k_peek K h) (pt_regs S)) (judge K S)"
proof -
  have "orig_eax (pt_regs S) \<noteq> 0" if "validator S (sint (orig_eax (pt_regs S))) = Some v" for v
    using that assms(2) by (auto simp: armed_def)
  then show ?thesis
    by (auto simp: judge_def lawful_def Let_def split: option.split
        intro!: decides_intros decides_bnd decides_validator assms)
qed

section \<open>The loop\<close>

text \<open>All system calls that have run were lawful, or the call that ends the process.\<close>

definition calls_confined :: "kernel \<Rightarrow> pt_sandbox \<Rightarrow> call list \<Rightarrow> bool" where
  "calls_confined K S h \<longleftrightarrow> list_all (\<lambda>(g, r). lawful S (k_peek K g) r \<or> orig_eax r = 252) (ran (seen K h))"

text \<open>The states of the sandbox during a run: two fields change.\<close>

definition stage :: "pt_sandbox \<Rightarrow> bool \<Rightarrow> regs \<Rightarrow> pt_sandbox" where
  "stage S e g = S\<lparr>is_exit := e, pt_regs := g\<rparr>"

definition at_head :: "kernel \<Rightarrow> pt_sandbox \<Rightarrow> pt_sandbox \<Rightarrow> call list \<Rightarrow> bool" where
  "at_head K S0 S h \<longleftrightarrow> (\<exists>e g. S = stage S0 e g \<and> place (seen K h) = (if e then Inside else Outside)) \<and> calls_confined K S0 h"

lemma at_headI: "place (seen K h) = (if e then Inside else Outside) \<Longrightarrow> calls_confined K S0 h \<Longrightarrow> at_head K S0 (stage S0 e g) h"
  by (auto simp: at_head_def)

lemma stage_simps [simp]:
  "pid (stage S e g) = pid S" "is_exit (stage S e g) = e" "pt_regs (stage S e g) = g"
  "stage S e g\<lparr>is_exit := e'\<rparr> = stage S e' g" "stage S e g\<lparr>pt_regs := g'\<rparr> = stage S e g'"
  "armed (stage S e g) = armed S"
  by (simp_all add: stage_def armed_def)

lemma lawful_stage [simp]: "lawful (stage S e g) m r = lawful S m r"
proof -
  have "meets (stage S e g) m r v = meets S m r v" for v by (cases v) (simp_all add: stage_def Let_def split: option.split)
  then show ?thesis by (simp add: lawful_def stage_def split: option.split)
qed

lemma still_confined: "still K h g \<Longrightarrow> calls_confined K S h \<Longrightarrow> calls_confined K S g"
  by (simp add: still_def calls_confined_def)

text \<open>Killing the process at the entry of a call replaces the call.\<close>

definition replaced :: "kernel \<Rightarrow> pt_sandbox \<Rightarrow> call list \<Rightarrow> bool" where
  "replaced K S h \<longleftrightarrow> calls_confined K S h \<and> (place (seen K h) = Entry \<longrightarrow> (\<exists>r. changed (seen K h) = Some r \<and> orig_eax r = 252))"

lemma replaced_steps:
  "replaced K S h \<Longrightarrow> replaced K S (Warn m # h)"
  "replaced K S h \<Longrightarrow> replaced K S (Getregs p # h)"
  "replaced K S h \<Longrightarrow> orig_eax r = 252 \<Longrightarrow> replaced K S (Setregs p r # h)"
  "replaced K S h \<Longrightarrow> replaced K S (Pt_kill p # h)"
  "replaced K S h \<Longrightarrow> replaced K S (Kill p sig # h)"
  "replaced K S h \<Longrightarrow> calls_confined K S (Waitpid p z # h)"
  "replaced K S h \<Longrightarrow> calls_confined K S (Kill p sig # h)"
  by (auto simp: replaced_def calls_confined_def resumed_def split: place.split)

lemma kill_rule:
  assumes "regs_open K" and "calls_confined K S0 h" and "pid S \<noteq> - 1"
    and "\<And>S' h'. pid S' = - 1 \<Longrightarrow> Kill (pid S) SIGKILL \<in> set h' \<Longrightarrow> calls_confined K S0 h' \<Longrightarrow> Q (Inr (- 1, S')) h'"
  shows "pt_wp (kill_out K S) Q F h"
proof (cases "replaced K S0 h")
  case True
  then show ?thesis using assms(3)
    by (auto simp: kill_out_def ptrace_sandbox_kill_processes_def Let_def pt_simps intro!: assms(4) replaced_steps)
next
  case False
  let ?p = "pid S" and ?r = "k_regs K h\<lparr>orig_eax := 252, eip := - 1\<rparr>"
  from False assms(2) have e: "place (seen K h) = Entry" by (simp add: replaced_def)
  with assms(1) have r: "k_ret K h (Getregs ?p) = 0" "k_ret K (Getregs ?p # h) (Setregs ?p ?r) = 0" by (simp_all add: regs_open_def)
  then have "replaced K S0 (Setregs ?p ?r # Getregs ?p # h)" using assms(2) by (simp add: replaced_def calls_confined_def)
  then show ?thesis using assms(3) r
    by (auto simp: kill_out_def ptrace_sandbox_kill_processes_def Let_def pt_simps intro!: assms(4) replaced_steps)
qed


text \<open>A process that ends: from some number of calls of \<^verbatim>\<open>waitpid\<close> on, the next one reports its end or fails.\<close>

fun is_wait :: "call \<Rightarrow> bool" where
  "is_wait (Waitpid p z) = True"
| "is_wait _ = False"

definition waits :: "call list \<Rightarrow> nat" where
  "waits h = length (filter is_wait h)"

lemma waits_simps [simp]:
  "waits [] = 0" "waits (c # h) = (if is_wait c then Suc (waits h) else waits h)" "waits (g @ h) = waits g + waits h"
  by (simp_all add: waits_def)

definition over :: "kernel \<Rightarrow> int \<Rightarrow> call list \<Rightarrow> bool" where
  "over K p h =
     (let r = k_ret K h (Waitpid p 0) in
      if r > 0 then WIFEXITED (k_status K h) \<or> WIFSIGNALED (k_status K h)
      else \<not> (r = - 1 \<and> k_errno K h (Waitpid p 0) = EINTR))"

definition over_after :: "kernel \<Rightarrow> int \<Rightarrow> nat \<Rightarrow> bool" where
  "over_after K p n \<longleftrightarrow> (\<forall>h. n \<le> waits h \<longrightarrow> over K p h)"

lemma retry_ends:
  assumes "over_after K p n"
  shows "pt_retry K (Waitpid p 0) h \<noteq> (Inl (Endless ''EINTR''), h')"
proof -
  let ?b = "\<lambda>h. k_ret K h (Waitpid p 0) = - 1 \<and> k_errno K h (Waitpid p 0) = EINTR" and ?c = "\<lambda>h. Waitpid p 0 # h"
  have "waits g < n" if "?b g" for g
  proof (rule ccontr)
    assume "\<not> waits g < n"
    with assms have "over K p g" by (simp add: over_after_def)
    with that show False by (simp add: over_def)
  qed
  then have "\<exists>g. while_option ?b ?c h = Some g"
    by (intro measure_while_option_Some [where P = "\<lambda>_. True" and f = "\<lambda>h. n - waits h"]) (auto simp: diff_less_mono2)
  then show ?thesis by (auto simp: pt_retry_def)
qed

lemma retry_rule:
  assumes "\<forall>n. \<not> over_after K p n \<Longrightarrow> F (Endless ''EINTR'')"
    and "\<And>g. seen K g = seen K h \<Longrightarrow> Q (k_ret K g (Waitpid p 0), k_errno K g (Waitpid p 0), k_status K g) (Waitpid p 0 # g)"
  shows "pt_wp (pt_retry K (Waitpid p 0)) Q F h"
proof -
  let ?b = "\<lambda>h. k_ret K h (Waitpid p 0) = - 1 \<and> k_errno K h (Waitpid p 0) = EINTR" and ?c = "\<lambda>h. Waitpid p 0 # h"
  have "seen K g = seen K h" if "while_option ?b ?c h = Some g" for g
    by (rule while_option_rule [OF _ that, where P = "\<lambda>g. seen K g = seen K h"]) simp_all
  moreover have "F (Endless ''EINTR'')" if "while_option ?b ?c h = None"
    using that assms(1) retry_ends [of K p _ h] by (force simp: pt_retry_def)
  ultimately show ?thesis using assms(2) by (auto simp: pt_retry_def pt_wp_def split: option.split)
qed

lemma continue_rule:
  assumes "k_ret K h (Pt_syscall (pid S) sig) = 0 \<Longrightarrow> Q 0 (Pt_syscall (pid S) sig # h)"
    and "\<And>z g. seen K g = seen K h \<Longrightarrow> z < 0 \<Longrightarrow> Q z g"
  shows "pt_wp (ptrace_sandbox_continue_process K S sig) Q F h"
  using assms(1) by (auto simp: ptrace_sandbox_continue_process_def pt_simps intro!: assms(2))

lemma pt_wp_conj: "pt_wp m Q F h \<Longrightarrow> pt_wp m Q' F' h \<Longrightarrow> pt_wp m (\<lambda>a g. Q a g \<and> Q' a g) F h"
  by (auto simp: pt_wp_def split: prod.splits sum.splits)

lemma pt_wp_True: "(\<And>a g. Q a g) \<Longrightarrow> pt_wp m Q (\<lambda>_. True) h"
  by (auto simp: pt_wp_def split: prod.splits sum.splits)

lemma judge_le_0: "pt_wp (judge K S) (\<lambda>r _. r \<le> 0) (\<lambda>_. True) h"
  by (auto simp: judge_def Let_def pt_simps split: option.split intro!: pt_wp_True)

text \<open>At the entry of a call: it is judged, and runs with the registers judged or not at all.\<close>

lemma action_rule:
  assumes "steady K" and "regs_open K" and "armed S0" and "S = stage S0 True g" and "calls_confined K S0 h"
    and "place (seen K h) = Entry" and "changed (seen K h) = None"
    and "\<And>h' g. calls_confined K S0 h' \<Longrightarrow> place (seen K h') = Inside \<Longrightarrow> Q (0, stage S0 True g) h'"
    and "\<And>z h' g. z < 0 \<Longrightarrow> calls_confined K S0 h' \<Longrightarrow> Q (z, stage S0 True g) h'"
  shows "pt_wp (pt_bnd (get_action K S) (\<lambda>(action, S').
      if action \<noteq> 0 then pt_ret (action, S')
      else pt_bnd (ptrace_sandbox_continue_process K S' 0) (\<lambda>r. pt_ret (r, S')))) Q F h"
proof -
  let ?h = "Getregs (pid S0) # h" and ?S = "stage S0 True (k_regs K h)" and ?P = "lawful S0 (k_peek K h) (k_regs K h)"
  have st: "still K h ?h" by (rule still_quiet [OF assms(1)]) simp_all
  have judged: "pt_wp (judge K ?S) (\<lambda>r g'. still K h g' \<and> r \<le> 0 \<and> (r = 0 \<longrightarrow> ?P)) (\<lambda>_. False) ?h"
    by (rule pt_wp_mono [OF pt_wp_conj [OF decides_judge [OF assms(1), of ?S h, unfolded decides_def, rule_format, OF _ st] judge_le_0]])
      (simp_all add: assms(3))
  have run: "pt_wp (ptrace_sandbox_continue_process K (stage S0 True zero_regs) 0) (\<lambda>r. Q (r, stage S0 True zero_regs)) F h'"
    if h': "still K h h'" and P: ?P for h'
  proof (rule continue_rule)
    assume "k_ret K h' (Pt_syscall (pid (stage S0 True zero_regs)) 0) = 0"
    then show "Q (0, stage S0 True zero_regs) (Pt_syscall (pid (stage S0 True zero_regs)) 0 # h')"
      using h' P assms(5-7) by (intro assms(8)) (auto simp: still_def calls_confined_def resumed_def)
  next
    show "Q (z, stage S0 True zero_regs) g'" if "seen K g' = seen K h'" "z < 0" for z g'
      using that h' assms(5) by (intro assms(9)) (auto simp: still_def calls_confined_def)
  qed
  have refused: "Q (z, stage S0 True zero_regs) h'" if "still K h h'" "z < 0" for z h'
    by (intro assms(9) that still_confined [OF that(1) assms(5)])
  show ?thesis
    using assms(2,6) unfolding get_action_def assms(4) regs_open_def
    by (auto simp: pt_simps intro!: pt_wp_mono [OF judged] run refused)
qed


lemma stop_signal: "0 \<le> WSTOPSIG s" "WSTOPSIG s < 256" "\<not> WSTOPSIG s < 128 \<Longrightarrow> WSTOPSIG s div 128 mod 2 = 1"
proof -
  show r: "0 \<le> WSTOPSIG s" "WSTOPSIG s < 256" by (simp_all add: WSTOPSIG_def)
  show "WSTOPSIG s div 128 mod 2 = 1" if "\<not> WSTOPSIG s < 128" using r that by (simp add: div_pos_geq)
qed

lemma resumed_idle [simp]: "place v \<noteq> Entry \<Longrightarrow> resumed K h v = v"
  by (simp add: resumed_def)

text \<open>Where a stop has brought the process, and what the handler of the event leaves.\<close>

definition stopped :: "kernel \<Rightarrow> bool \<Rightarrow> int \<Rightarrow> call list \<Rightarrow> bool" where
  "stopped K e status h \<longleftrightarrow>
     (if syscall_stop status then if e then place (seen K h) = Outside else place (seen K h) = Entry \<and> changed (seen K h) = None
      else place (seen K h) = (if e then Inside else Outside))"

lemma event_rule:
  assumes "steady K" and "regs_open K" and "armed S0" and "calls_confined K S0 h" and "stopped K e status h"
    and "WIFEXITED status \<or> WIFSIGNALED status \<Longrightarrow> Q (1, stage S0 e g\<lparr>pid := - 1\<rparr>) h"
    and "\<And>S' h'. at_head K S0 S' h' \<Longrightarrow> Q (0, S') h'"
    and "\<And>z h' e g. z < 0 \<Longrightarrow> calls_confined K S0 h' \<Longrightarrow> Q (z, stage S0 e g) h'"
  shows "pt_wp (ptrace_sandbox_handle_event K (stage S0 e g) status) Q F h"
proof (cases "syscall_stop status")
  case False
  then have p: "place (seen K h) = (if e then Inside else Outside)" using assms(5) by (simp add: stopped_def)
  have go: "pt_wp (ptrace_sandbox_continue_process K (stage S0 e g) sig) (\<lambda>r. Q (r, stage S0 e g)) F h" for sig
    using p assms(4)
    by (intro continue_rule) (auto intro!: assms(7,8) at_headI simp: calls_confined_def)
  have "Q (- 4, stage S0 e g) (Warn m # h)" for m using assms(4) by (intro assms(8)) (simp_all add: calls_confined_def)
  then show ?thesis using False go assms(6) stop_signal(1,3) [of status]
    by (simp add: ptrace_sandbox_handle_event_def Let_def pt_simps syscall_stop_def not_less) blast
next
  case True
  then have st: "WIFSTOPPED status" "WSTOPSIG status \<ge> 128" "\<not> WIFEXITED status" "\<not> WIFSIGNALED status"
    using mod_mod_cancel [of 128 256 status] by (auto simp: syscall_stop_def WIFSTOPPED_def WIFEXITED_def WIFSIGNALED_def)
  show ?thesis
  proof (cases e)
    case e: True
    then have p: "place (seen K h) = Outside" using assms(5) True by (simp add: stopped_def)
    have "pt_wp (ptrace_sandbox_continue_process K (stage S0 e g) 0) (\<lambda>r. Q (r, stage S0 False g)) F h"
      using p assms(4) by (intro continue_rule) (auto intro!: assms(7,8) at_headI simp: calls_confined_def)
    then show ?thesis using st e stop_signal(3) [of status] by (simp add: ptrace_sandbox_handle_event_def Let_def pt_simps)
  next
    case e: False
    then have p: "place (seen K h) = Entry" "changed (seen K h) = None" using assms(5) True by (simp_all add: stopped_def)
    have "pt_wp (pt_bnd (get_action K (stage S0 True g)) (\<lambda>(action, S').
        if action \<noteq> 0 then pt_ret (action, S')
        else pt_bnd (ptrace_sandbox_continue_process K S' 0) (\<lambda>r. pt_ret (r, S')))) Q F h"
      by (rule action_rule [OF assms(1-3) refl assms(4) p]) (auto intro!: assms(7,8) at_headI)
    then show ?thesis using st e stop_signal(3) [of status] by (simp add: ptrace_sandbox_handle_event_def Let_def)
  qed
qed

text \<open>The result of a turn.\<close>

fun ended :: "kernel \<Rightarrow> int \<Rightarrow> call list \<Rightarrow> bool" where
  "ended K p (c # h) = (c = Waitpid p 0 \<and> k_ret K h c > 0 \<and> (WIFEXITED (k_status K h) \<or> WIFSIGNALED (k_status K h)))"
| "ended K p [] = False"

fun turned :: "kernel \<Rightarrow> pt_sandbox \<Rightarrow> pt_sandbox + int \<times> pt_sandbox \<Rightarrow> call list \<Rightarrow> bool" where
  "turned K S0 (Inl S) h = at_head K S0 S h"
| "turned K S0 (Inr (r, S)) h = (calls_confined K S0 h \<and> pid S = - 1 \<and> (r = 0 \<and> ended K (pid S0) h \<or> r = - 1 \<and> Kill (pid S0) SIGKILL \<in> set h))"

lemma run_turn_rule:
  assumes "steady K" and "regs_open K" and "armed S0" and "pid S0 \<noteq> - 1" and "at_head K S0 S h"
  shows "pt_wp (run_turn K S) (turned K S0) (\<lambda>f. f = Endless ''EINTR'' \<and> (\<forall>n. \<not> over_after K (pid S0) n)) h"
proof -
  obtain e g where S: "S = stage S0 e g" and p: "place (seen K h) = (if e then Inside else Outside)" and c: "calls_confined K S0 h"
    using assms(5) by (auto simp: at_head_def)
  let ?c = "Waitpid (pid S0) 0" and ?F = "\<lambda>f. f = Endless ''EINTR'' \<and> (\<forall>n. \<not> over_after K (pid S0) n)"
  have kill: "pt_wp (kill_out K (stage S0 e' g')) (turned K S0) ?F h'" if "calls_confined K S0 h'" for e' g' h'
    using that assms(4) by (intro kill_rule [OF assms(2)]) simp_all
  have waited: "calls_confined K S0 (?c # h1)" "stopped K e (k_status K h1) (?c # h1)" if "seen K h1 = seen K h" "k_ret K h1 ?c > 0" for h1
    using that c p by (auto simp: calls_confined_def stopped_def split: place.split)
  have failed: "calls_confined K S0 (?c # h1)" "calls_confined K S0 (Warn m # ?c # h1)" if "seen K h1 = seen K h" "\<not> k_ret K h1 ?c > 0" for h1 m
    using that c by (simp_all add: calls_confined_def)
  have handle: "pt_wp (ptrace_sandbox_handle_event K (stage S0 e g) (k_status K h1)) (\<lambda>(r, S').
      pt_wp (if r < 0 then pt_bnd (warnx m) (\<lambda>_. kill_out K S')
        else if r = 1 then pt_ret (Inr (0, S')) else pt_ret (Inl S')) (turned K S0) ?F) ?F (?c # h1)"
    if "seen K h1 = seen K h" "k_ret K h1 ?c > 0" for h1 m
    using that waited(1) [OF that]
    by (intro event_rule [OF assms(1-3) waited [OF that]]) (auto simp: pt_simps calls_confined_def intro!: kill)
  show ?thesis unfolding run_turn_def ptrace_sandbox_get_event_def S pt_wp_bnd stage_simps if_True
    using failed handle
    by (intro retry_rule) (auto simp: pt_wp_basic pt_wp_if pt_wp_bnd case_prod_unfold not_less intro!: kill)
qed


section \<open>Runs\<close>

text \<open>The states in which the supervisor waits for the next event of a process it has started from \<open>S\<close>.\<close>

inductive supervises :: "kernel \<Rightarrow> pt_sandbox \<Rightarrow> call list \<Rightarrow> pt_sandbox \<Rightarrow> call list \<Rightarrow> bool" for K S h0 where
  starts: "ptrace_sandbox_continue_process K S 0 h0 = (Inr 0, h) \<Longrightarrow> supervises K S h0 S h"
| turns: "supervises K S h0 S1 h1 \<Longrightarrow> run_turn K S1 h1 = (Inr (Inl S2), h2) \<Longrightarrow> supervises K S h0 S2 h2"

text \<open>A sandbox as a launch leaves it.\<close>

definition launched :: "kernel \<Rightarrow> pt_sandbox \<Rightarrow> call list \<Rightarrow> bool" where
  "launched K S h \<longleftrightarrow> pid S \<noteq> - 1 \<and> \<not> is_exit S \<and> place (seen K h) = Outside \<and> ran (seen K h) = []"

lemma first_head:
  assumes "launched K S h"
  shows "pt_wp (ptrace_sandbox_continue_process K S 0) (\<lambda>r h'. if r = 0 then at_head K S S h' else calls_confined K S h') (\<lambda>_. False) h"
proof -
  have "S = stage S False (pt_regs S)" using assms by (simp add: launched_def stage_def)
  then have "at_head K S S h'" if "seen K h' = seen K h" for h'
    using assms that at_headI [of K h' False S "pt_regs S"] by (simp add: launched_def calls_confined_def)
  then show ?thesis using assms
    by (intro continue_rule) (auto simp: launched_def calls_confined_def)
qed

lemma supervises_head:
  assumes "steady K" and "regs_open K" and "armed S" and "launched K S h0" and "supervises K S h0 S1 h1"
  shows "at_head K S S1 h1"
  using assms(5)
proof induction
  case (starts h)
  from pt_wpD [OF first_head [OF assms(4)] starts] show ?case by simp
next
  case (turns S1 h1 S2 h2)
  from assms(4) have "pid S \<noteq> - 1" by (simp add: launched_def)
  from pt_wpD [OF run_turn_rule [OF assms(1-3) this turns.IH] turns.hyps(2)] show ?case by simp
qed

lemma run_rule:
  assumes "steady K" and "regs_open K" and "armed S" and "launched K S h0"
    and "ptrace_sandbox_run_processes K S h0 = (Inr x, h)"
  shows "turned K S (Inr x) h"
proof -
  have p: "pid S \<noteq> - 1" using assms(4) by (simp add: launched_def)
  have loop: "turned K S (Inr x) h" if w: "while_option goes_on (turn_again K) (Inr (Inl S), h1) = Some y"
    and y: "run_result y = (Inr x, h)" and head: "at_head K S S h1" for y h1
  proof -
    let ?P = "\<lambda>y. case y of (Inl f, h) \<Rightarrow> True | (Inr z, h) \<Rightarrow> turned K S z h"
    have "?P y"
    proof (rule while_option_rule [OF _ w, where P = ?P])
      fix z assume z: "?P z" "goes_on z"
      then obtain S1 h2 where z': "z = (Inr (Inl S1), h2)" by (cases z rule: goes_on.cases) auto
      then show "?P (turn_again K z)" using run_turn_rule [OF assms(1-3) p, of S1 h2] z(1) by (auto simp: pt_wp_def split: prod.splits sum.splits)
    qed (simp add: head)
    moreover have "\<not> goes_on y" using while_option_stop [OF w] .
    ultimately show ?thesis using y by (cases y rule: run_result.cases) auto
  qed
  have kill: "turned K S (Inr x) h" if c: "calls_confined K S h1" and r: "run_result (kill_out K S h1) = (Inr x, h)" for h1
  proof -
    have "pt_wp (kill_out K S) (\<lambda>z g. (\<exists>y. z = Inr y) \<and> turned K S z g) (\<lambda>_. False) h1"
      by (rule kill_rule [OF assms(2) c p]) simp
    then show ?thesis using r by (auto simp: pt_wp_def split: prod.splits sum.splits)
  qed
  obtain r h1 where "ptrace_sandbox_continue_process K S 0 h0 = (Inr r, h1)" and "if r = 0 then at_head K S S h1 else calls_confined K S h1"
    using first_head [OF assms(4)] by (auto simp: pt_wp_def split: prod.splits sum.splits)
  then show ?thesis using assms(5) loop kill
    by (auto simp: ptrace_sandbox_run_processes_def pt_bnd_def split: if_splits option.splits)
qed


text \<open>The supervisor's history only grows.\<close>

definition grows :: "'a pt \<Rightarrow> bool" where
  "grows m \<longleftrightarrow> (\<forall>h. \<exists>es. snd (m h) = es @ h)"

named_theorems grows_intros

lemma grows_basic [grows_intros]:
  "grows (pt_ret x)" "grows (pt_fault f)" "grows (pt_call K c)" "grows (pt_do c)" "grows (warnx m)" "grows (pt_getregs K p)"
  "grows (pt_peek K p a)" "grows (pt_lift r)"
  by (simp_all add: grows_def pt_ret_def pt_fault_def pt_call_def pt_do_def warnx_def pt_getregs_def pt_peek_def pt_lift_def)

lemma grows_bnd [grows_intros]:
  assumes "grows m" and "\<And>a. grows (k a)"
  shows "grows (pt_bnd m k)"
  unfolding grows_def
proof
  fix h
  obtain es where es: "snd (m h) = es @ h" using assms(1) by (auto simp: grows_def)
  show "\<exists>es. snd (pt_bnd m k h) = es @ h"
  proof (cases "fst (m h)")
    case (Inl f)
    then show ?thesis using es by (auto simp: pt_bnd_def split: prod.splits)
  next
    case (Inr a)
    obtain es' where "snd (k a (es @ h)) = es' @ es @ h" using assms(2) by (auto simp: grows_def)
    then show ?thesis using es Inr by (auto simp: pt_bnd_def split: prod.splits)
  qed
qed

lemma grows_cases [grows_intros]:
  "grows m \<Longrightarrow> grows n \<Longrightarrow> grows (if b then m else n)"
  "grows m \<Longrightarrow> (\<And>x. grows (k x)) \<Longrightarrow> grows (case z of None \<Rightarrow> m | Some x \<Rightarrow> k x)"
  "(\<And>x y. grows (l x y)) \<Longrightarrow> grows (case p of (x, y) \<Rightarrow> l x y)"
  "(\<And>v. grows (q v)) \<Longrightarrow> grows (pt_arg a q)"
  by (simp_all split: option.split prod.split) (cases a, simp_all add: grows_basic)

lemma grows_retry [grows_intros]: "grows (pt_retry K c)"
proof -
  have "\<exists>es. g = es @ h" if "while_option b (\<lambda>h. c # h) h = Some g" for b g h
    by (rule while_option_rule [OF _ that, where P = "\<lambda>g. \<exists>es. g = es @ h"]) (auto intro: exI [of _ "_ # _"])
  then show ?thesis by (fastforce simp: grows_def pt_retry_def split: option.split)
qed

lemma grows_get_buf [grows_intros]: "grows (ptrace_sandbox_get_buf K S ptr len)"
proof (induction len arbitrary: ptr rule: less_induct)
  case (less len)
  then show ?case by (subst ptrace_sandbox_get_buf.simps) (auto simp: peek_error_def intro!: grows_intros)
qed

lemma grows_arg [grows_intros]: "grows (ptrace_sandbox_get_socketcall_arg K S n)"
  by (auto simp: ptrace_sandbox_get_socketcall_arg_def ptrace_sandbox_get_long_def split: sum.split intro!: grows_intros)

lemma grows_judge [grows_intros]: "grows (judge K S)"
proof -
  have "grows (run_socket_check K S c a)" for c a
    by (cases c; cases a) (simp_all add: socket_validator_def connect_validator_def getsockopt_validator_def
        setsockopt_validator_def Let_def grows_intros)
  then have "grows (run_validator K S v)" for v
    by (cases v) (simp_all add: validate_mmap2_def validate_open_readonly_def validate_open_default_def validate_fcntl_def
        validate_socketcall_def Let_def grows_intros)
  then show ?thesis by (simp add: judge_def Let_def grows_intros)
qed

lemma grows_handle: "grows (ptrace_sandbox_handle_event K S status)"
  by (simp add: ptrace_sandbox_handle_event_def get_action_def ptrace_sandbox_continue_process_def Let_def grows_intros)


lemma pt_retry_result:
  assumes "pt_retry K (Waitpid p 0) h = (Inr (r, e, status), h')"
  shows "\<exists>g. h' = Waitpid p 0 # g \<and> waits h \<le> waits g \<and> r = k_ret K g (Waitpid p 0) \<and> status = k_status K g \<and>
    \<not> (r = - 1 \<and> k_errno K g (Waitpid p 0) = EINTR)"
proof -
  let ?b = "\<lambda>h. k_ret K h (Waitpid p 0) = - 1 \<and> k_errno K h (Waitpid p 0) = EINTR"
  obtain g where w: "while_option ?b (\<lambda>h. Waitpid p 0 # h) h = Some g"
    and h': "h' = Waitpid p 0 # g" "r = k_ret K g (Waitpid p 0)" "status = k_status K g"
    using assms by (auto simp: pt_retry_def split: option.splits)
  have "waits h \<le> waits g" by (rule while_option_rule [OF _ w, where P = "\<lambda>g. waits h \<le> waits g"]) simp_all
  then show ?thesis using while_option_stop [OF w] h' by blast
qed

text \<open>A turn after which the loop goes on has seen an event, and not the last.\<close>

lemma turn_progress:
  assumes "run_turn K S h = (Inr (Inl S'), h')" and "over_after K (pid S) n"
  shows "waits h < n \<and> waits h < waits h'"
proof -
  obtain r e status h1 where w: "pt_retry K (Waitpid (pid S) 0) h = (Inr (r, e, status), h1)"
    using assms(1) by (auto simp: run_turn_def ptrace_sandbox_get_event_def pt_bnd_def split: prod.splits sum.splits)
  obtain g where g: "h1 = Waitpid (pid S) 0 # g" "waits h \<le> waits g" "r = k_ret K g (Waitpid (pid S) 0)" "status = k_status K g"
    using pt_retry_result [OF w] by blast
  have "r > 0"
  proof (rule ccontr)
    assume "\<not> r > 0"
    with assms(1) w show False
      by (auto simp: run_turn_def ptrace_sandbox_get_event_def kill_out_def pt_bnd_def pt_ret_def warnx_def pt_do_def
          split: prod.splits sum.splits if_splits)
  qed
  with assms(1) w obtain z S1 h2 where ev: "ptrace_sandbox_handle_event K S status h1 = (Inr (z, S1), h2)"
    and z: "\<not> z < 0" "z \<noteq> 1" "h' = h2"
    by (auto simp: run_turn_def ptrace_sandbox_get_event_def kill_out_def pt_bnd_def pt_ret_def warnx_def pt_do_def
        split: prod.splits sum.splits if_splits)
  have "\<not> over K (pid S) g"
    using ev z \<open>r > 0\<close> g(3,4) by (auto simp: over_def Let_def ptrace_sandbox_handle_event_def pt_ret_def)
  then have "waits g < n" using assms(2) by (auto simp: over_after_def not_le [symmetric])
  moreover obtain es where "h2 = es @ h1" using grows_handle ev by (metis grows_def snd_conv)
  ultimately show ?thesis using g(1,2) z by simp
qed

lemma run_ends:
  assumes "steady K" and "regs_open K" and "armed S" and "launched K S h0" and "over_after K (pid S) n"
  shows "\<exists>x h. ptrace_sandbox_run_processes K S h0 = (Inr x, h)"
proof -
  have p: "pid S \<noteq> - 1" using assms(4) by (simp add: launched_def)
  let ?P = "\<lambda>y. case y of (Inl f, h) \<Rightarrow> False | (Inr z, h) \<Rightarrow> turned K S z h"
  let ?f = "\<lambda>y. case y of (Inr (Inl S'), h) \<Rightarrow> Suc (n - waits h) | _ \<Rightarrow> 0"
  have step: "?P (turn_again K y) \<and> ?f (turn_again K y) < ?f y" if P: "?P y" and on: "goes_on y" for y
  proof -
    obtain S1 h1 where y: "y = (Inr (Inl S1), h1)" using on by (cases y rule: goes_on.cases) auto
    then have head: "at_head K S S1 h1" using P by simp
    then have pid: "pid S1 = pid S" by (auto simp: at_head_def)
    have "?P (run_turn K S1 h1)"
      using run_turn_rule [OF assms(1-3) p head] assms(5) by (auto simp: pt_wp_def split: prod.splits sum.splits)
    moreover have "?f (run_turn K S1 h1) < Suc (n - waits h1)"
      using turn_progress [of K S1 h1 _ _ n] assms(5) pid by (fastforce split: prod.splits sum.splits)
    ultimately show ?thesis by (simp add: y)
  qed
  have loop: "\<exists>y. while_option goes_on (turn_again K) (Inr (Inl S), h1) = Some y \<and> ?P y" if head: "at_head K S S h1" for h1
  proof -
    have start: "?P (Inr (Inl S), h1)" using head by simp
    obtain y where y: "while_option goes_on (turn_again K) (Inr (Inl S), h1) = Some y"
      using measure_while_option_Some [of ?P goes_on "turn_again K" ?f, OF step start] by blast
    moreover have "?P y" by (rule while_option_rule [OF step [THEN conjunct1] y start])
    ultimately show ?thesis by (intro exI conjI)
  qed
  have kill: "\<exists>x h. run_result (kill_out K S h1) = (Inr x, h)" if "calls_confined K S h1" for h1
  proof -
    have "pt_wp (kill_out K S) (\<lambda>z g. (\<exists>y. z = Inr y)) (\<lambda>_. False) h1" by (rule kill_rule [OF assms(2) that p]) simp
    then show ?thesis by (auto simp: pt_wp_def split: prod.splits sum.splits)
  qed
  have fin: "\<exists>x h. run_result y = (Inr x, h)" if "?P y" for y using that by (cases y rule: run_result.cases) auto
  obtain r h1 where c: "ptrace_sandbox_continue_process K S 0 h0 = (Inr r, h1)"
    and head: "if r = 0 then at_head K S S h1 else calls_confined K S h1"
    using first_head [OF assms(4)] by (auto simp: pt_wp_def split: prod.splits sum.splits)
  show ?thesis
  proof (cases "r = 0")
    case True
    with head have "at_head K S S h1" by simp
    from loop [OF this] obtain y where "while_option goes_on (turn_again K) (Inr (Inl S), h1) = Some y" "?P y" by (elim exE conjE)
    with c True have "ptrace_sandbox_run_processes K S h0 = run_result y" by (simp add: ptrace_sandbox_run_processes_def pt_bnd_def)
    with fin [OF \<open>?P y\<close>] show ?thesis by simp
  next
    case False
    with c have "ptrace_sandbox_run_processes K S h0 = run_result (kill_out K S h1)"
      by (simp add: ptrace_sandbox_run_processes_def pt_bnd_def)
    with kill head False show ?thesis by simp
  qed
qed


section \<open>The start of a run\<close>

lemma alloc_result: "ptrace_sandbox_alloc K [] = (Inr (Some S), h) \<Longrightarrow> S = new_sandbox \<and> place (seen K h) = Outside \<and> ran (seen K h) = []"
  by (auto simp: ptrace_sandbox_alloc_def ptrace_sandbox_free_def pt_bnd_def pt_call_def pt_do_def pt_ret_def split: if_splits prod.splits sum.splits)

lemma launch_rule:
  assumes "\<not> is_exit S" and "place (seen K h) = Outside" and "ran (seen K h) = []"
  shows "pt_wp (ptrace_sandbox_launch_process K S) (\<lambda>(p, S') h'. p \<noteq> - 1 \<longrightarrow> S' = S\<lparr>pid := p\<rparr> \<and> launched K S' h') (\<lambda>_. True) h"
  using assms
  by (auto simp: ptrace_sandbox_launch_process_def sanitize_child_def launch_kill_out_def Let_def pt_simps launched_def syscall_stop_def
      intro!: retry_rule)

end
