(* ===== verification/Policy.thy ===== *)
theory Policy
  imports Ptrace
begin

text \<open>
  The policy edits of \<^verbatim>\<open>ptracesandbox.c\<close> and \<^verbatim>\<open>policy_setup\<close> of \<^verbatim>\<open>ftppolicy.c\<close>, which builds the policy of a session
  from the settings, and what a process under this policy can do.
\<close>

section \<open>Policy edits\<close>

text \<open>System call numbers of i386, and the numbers of the calls behind \<^verbatim>\<open>socketcall\<close>.\<close>

abbreviation (input) I386_exit :: int where "I386_exit \<equiv> 1"
abbreviation (input) I386_read :: int where "I386_read \<equiv> 3"
abbreviation (input) I386_write :: int where "I386_write \<equiv> 4"
abbreviation (input) I386_open :: int where "I386_open \<equiv> 5"
abbreviation (input) I386_close :: int where "I386_close \<equiv> 6"
abbreviation (input) I386_unlink :: int where "I386_unlink \<equiv> 10"
abbreviation (input) I386_chdir :: int where "I386_chdir \<equiv> 12"
abbreviation (input) I386_time :: int where "I386_time \<equiv> 13"
abbreviation (input) I386_chmod :: int where "I386_chmod \<equiv> 15"
abbreviation (input) I386_lseek :: int where "I386_lseek \<equiv> 19"
abbreviation (input) I386_alarm :: int where "I386_alarm \<equiv> 27"
abbreviation (input) I386_utime :: int where "I386_utime \<equiv> 30"
abbreviation (input) I386_rename :: int where "I386_rename \<equiv> 38"
abbreviation (input) I386_mkdir :: int where "I386_mkdir \<equiv> 39"
abbreviation (input) I386_rmdir :: int where "I386_rmdir \<equiv> 40"
abbreviation (input) I386_brk :: int where "I386_brk \<equiv> 45"
abbreviation (input) I386_fcntl :: int where "I386_fcntl \<equiv> 55"
abbreviation (input) I386_umask :: int where "I386_umask \<equiv> 60"
abbreviation (input) I386_sigaction :: int where "I386_sigaction \<equiv> 67"
abbreviation (input) I386_gettimeofday :: int where "I386_gettimeofday \<equiv> 78"
abbreviation (input) I386_select :: int where "I386_select \<equiv> 82"
abbreviation (input) I386_readlink :: int where "I386_readlink \<equiv> 85"
abbreviation (input) I386_ftruncate :: int where "I386_ftruncate \<equiv> 93"
abbreviation (input) I386_fchmod :: int where "I386_fchmod \<equiv> 94"
abbreviation (input) I386_fchown :: int where "I386_fchown \<equiv> 95"
abbreviation (input) I386_socketcall :: int where "I386_socketcall \<equiv> 102"
abbreviation (input) I386_stat :: int where "I386_stat \<equiv> 106"
abbreviation (input) I386_lstat :: int where "I386_lstat \<equiv> 107"
abbreviation (input) I386_fstat :: int where "I386_fstat \<equiv> 108"
abbreviation (input) I386_sigreturn :: int where "I386_sigreturn \<equiv> 119"
abbreviation (input) I386_mprotect :: int where "I386_mprotect \<equiv> 125"
abbreviation (input) I386_llseek :: int where "I386_llseek \<equiv> 140"
abbreviation (input) I386_getdents :: int where "I386_getdents \<equiv> 141"
abbreviation (input) I386_newselect :: int where "I386_newselect \<equiv> 142"
abbreviation (input) I386_nanosleep :: int where "I386_nanosleep \<equiv> 162"
abbreviation (input) I386_mremap :: int where "I386_mremap \<equiv> 163"
abbreviation (input) I386_rt_sigaction :: int where "I386_rt_sigaction \<equiv> 174"
abbreviation (input) I386_getcwd :: int where "I386_getcwd \<equiv> 183"
abbreviation (input) I386_sendfile :: int where "I386_sendfile \<equiv> 187"
abbreviation (input) I386_mmap2 :: int where "I386_mmap2 \<equiv> 192"
abbreviation (input) I386_ftruncate64 :: int where "I386_ftruncate64 \<equiv> 194"
abbreviation (input) I386_stat64 :: int where "I386_stat64 \<equiv> 195"
abbreviation (input) I386_lstat64 :: int where "I386_lstat64 \<equiv> 196"
abbreviation (input) I386_fstat64 :: int where "I386_fstat64 \<equiv> 197"
abbreviation (input) I386_fchown32 :: int where "I386_fchown32 \<equiv> 207"
abbreviation (input) I386_getdents64 :: int where "I386_getdents64 \<equiv> 220"
abbreviation (input) I386_fcntl64 :: int where "I386_fcntl64 \<equiv> 221"
abbreviation (input) I386_sendfile64 :: int where "I386_sendfile64 \<equiv> 239"
abbreviation (input) I386_exit_group :: int where "I386_exit_group \<equiv> 252"
abbreviation (input) I386_utimes :: int where "I386_utimes \<equiv> 271"
abbreviation (input) SYS_SOCKET :: nat where "SYS_SOCKET \<equiv> 1"
abbreviation (input) SYS_BIND :: nat where "SYS_BIND \<equiv> 2"
abbreviation (input) SYS_CONNECT :: nat where "SYS_CONNECT \<equiv> 3"
abbreviation (input) SYS_LISTEN :: nat where "SYS_LISTEN \<equiv> 4"
abbreviation (input) SYS_ACCEPT :: nat where "SYS_ACCEPT \<equiv> 5"
abbreviation (input) SYS_RECV :: nat where "SYS_RECV \<equiv> 10"
abbreviation (input) SYS_SHUTDOWN :: nat where "SYS_SHUTDOWN \<equiv> 13"
abbreviation (input) SYS_SETSOCKOPT :: nat where "SYS_SETSOCKOPT \<equiv> 14"
abbreviation (input) SYS_GETSOCKOPT :: nat where "SYS_GETSOCKOPT \<equiv> 15"

definition allow :: "int \<Rightarrow> pt_sandbox \<Rightarrow> pt_sandbox" where
  "allow nr S = S\<lparr>is_allowed := (is_allowed S)(nr := True)\<rparr>"

definition validate_with :: "int \<Rightarrow> validator \<Rightarrow> pt_sandbox \<Rightarrow> pt_sandbox" where
  "validate_with nr v S = S\<lparr>validator := (validator S)(nr := Some v)\<rparr>"

definition allow_socketcall :: "nat \<Rightarrow> pt_sandbox \<Rightarrow> pt_sandbox" where
  "allow_socketcall n S = S\<lparr>is_socketcall_allowed := (is_socketcall_allowed S)(n := True)\<rparr>"

definition check_socketcall :: "nat \<Rightarrow> socket_check \<Rightarrow> vsf_session option \<Rightarrow> pt_sandbox \<Rightarrow> pt_sandbox" where
  "check_socketcall n val p_arg S =
     S\<lparr>socketcall_validator := (socketcall_validator S)(n := Some val),
       socketcall_validator_arg := (socketcall_validator_arg S)(n := p_arg)\<rparr>"

definition install_socketcall :: "pt_sandbox \<Rightarrow> pt_sandbox" where
  "install_socketcall S = validate_with I386_socketcall Validate_socketcall (allow I386_socketcall S)"

definition ptrace_sandbox_permit_exit :: "pt_sandbox \<Rightarrow> pt_sandbox" where
  "ptrace_sandbox_permit_exit S = allow I386_exit_group (allow I386_exit S)"

definition ptrace_sandbox_permit_read :: "pt_sandbox \<Rightarrow> pt_sandbox" where
  "ptrace_sandbox_permit_read S = allow I386_read S"

definition ptrace_sandbox_permit_write :: "pt_sandbox \<Rightarrow> pt_sandbox" where
  "ptrace_sandbox_permit_write S = allow I386_write S"

definition ptrace_sandbox_permit_sigaction :: "pt_sandbox \<Rightarrow> pt_sandbox" where
  "ptrace_sandbox_permit_sigaction S = allow I386_rt_sigaction (allow I386_sigaction S)"

definition ptrace_sandbox_permit_alarm :: "pt_sandbox \<Rightarrow> pt_sandbox" where
  "ptrace_sandbox_permit_alarm S = allow I386_alarm S"

definition ptrace_sandbox_permit_query_time :: "pt_sandbox \<Rightarrow> pt_sandbox" where
  "ptrace_sandbox_permit_query_time S = allow I386_time (allow I386_gettimeofday S)"

definition ptrace_sandbox_permit_mmap :: "pt_sandbox \<Rightarrow> pt_sandbox" where
  "ptrace_sandbox_permit_mmap S = validate_with I386_mmap2 Validate_mmap2 (allow I386_mmap2 S)"

definition ptrace_sandbox_permit_mprotect :: "pt_sandbox \<Rightarrow> pt_sandbox" where
  "ptrace_sandbox_permit_mprotect S = allow I386_mprotect S"

definition ptrace_sandbox_permit_file_stats :: "pt_sandbox \<Rightarrow> pt_sandbox" where
  "ptrace_sandbox_permit_file_stats S = allow I386_lstat64 (allow I386_lstat (allow I386_stat64 (allow I386_stat S)))"

definition ptrace_sandbox_permit_fd_stats :: "pt_sandbox \<Rightarrow> pt_sandbox" where
  "ptrace_sandbox_permit_fd_stats S = allow I386_fstat64 (allow I386_fstat S)"

definition ptrace_sandbox_permit_getcwd :: "pt_sandbox \<Rightarrow> pt_sandbox" where
  "ptrace_sandbox_permit_getcwd S = allow I386_getcwd S"

definition ptrace_sandbox_permit_chdir :: "pt_sandbox \<Rightarrow> pt_sandbox" where
  "ptrace_sandbox_permit_chdir S = allow I386_chdir S"

definition ptrace_sandbox_permit_umask :: "pt_sandbox \<Rightarrow> pt_sandbox" where
  "ptrace_sandbox_permit_umask S = allow I386_umask S"

definition ptrace_sandbox_permit_open :: "bool \<Rightarrow> pt_sandbox \<Rightarrow> pt_sandbox" where
  "ptrace_sandbox_permit_open writeable S =
     (if writeable then validate_with I386_open Validate_open_default (allow I386_open S)
      else validate_with I386_open Validate_open_readonly (allow I386_open S))"

definition ptrace_sandbox_permit_close :: "pt_sandbox \<Rightarrow> pt_sandbox" where
  "ptrace_sandbox_permit_close S = allow I386_close S"

definition ptrace_sandbox_permit_getdents :: "pt_sandbox \<Rightarrow> pt_sandbox" where
  "ptrace_sandbox_permit_getdents S = allow I386_getdents64 (allow I386_getdents S)"

definition ptrace_sandbox_permit_fcntl :: "pt_sandbox \<Rightarrow> pt_sandbox" where
  "ptrace_sandbox_permit_fcntl S = validate_with I386_fcntl64 Validate_fcntl (allow I386_fcntl64 (validate_with I386_fcntl Validate_fcntl (allow I386_fcntl S)))"

definition ptrace_sandbox_permit_sendfile :: "pt_sandbox \<Rightarrow> pt_sandbox" where
  "ptrace_sandbox_permit_sendfile S = allow I386_sendfile64 (allow I386_sendfile S)"

definition ptrace_sandbox_permit_seek :: "pt_sandbox \<Rightarrow> pt_sandbox" where
  "ptrace_sandbox_permit_seek S = allow I386_llseek (allow I386_lseek S)"

definition ptrace_sandbox_permit_select :: "pt_sandbox \<Rightarrow> pt_sandbox" where
  "ptrace_sandbox_permit_select S = allow I386_newselect (allow I386_select S)"

definition ptrace_sandbox_permit_unlink :: "pt_sandbox \<Rightarrow> pt_sandbox" where
  "ptrace_sandbox_permit_unlink S = allow I386_unlink S"

definition ptrace_sandbox_permit_mkdir :: "pt_sandbox \<Rightarrow> pt_sandbox" where
  "ptrace_sandbox_permit_mkdir S = allow I386_mkdir S"

definition ptrace_sandbox_permit_rmdir :: "pt_sandbox \<Rightarrow> pt_sandbox" where
  "ptrace_sandbox_permit_rmdir S = allow I386_rmdir S"

definition ptrace_sandbox_permit_rename :: "pt_sandbox \<Rightarrow> pt_sandbox" where
  "ptrace_sandbox_permit_rename S = allow I386_rename S"

definition ptrace_sandbox_permit_utime :: "pt_sandbox \<Rightarrow> pt_sandbox" where
  "ptrace_sandbox_permit_utime S = allow I386_utimes (allow I386_utime S)"

definition ptrace_sandbox_permit_sigreturn :: "pt_sandbox \<Rightarrow> pt_sandbox" where
  "ptrace_sandbox_permit_sigreturn S = allow I386_sigreturn S"

definition ptrace_sandbox_permit_recv :: "pt_sandbox \<Rightarrow> pt_sandbox" where
  "ptrace_sandbox_permit_recv S = allow_socketcall SYS_RECV (install_socketcall S)"

definition ptrace_sandbox_permit_readlink :: "pt_sandbox \<Rightarrow> pt_sandbox" where
  "ptrace_sandbox_permit_readlink S = allow I386_readlink S"

definition ptrace_sandbox_permit_brk :: "pt_sandbox \<Rightarrow> pt_sandbox" where
  "ptrace_sandbox_permit_brk S = allow I386_brk S"

definition ptrace_sandbox_permit_sleep :: "pt_sandbox \<Rightarrow> pt_sandbox" where
  "ptrace_sandbox_permit_sleep S = allow I386_nanosleep S"

definition ptrace_sandbox_permit_fchmod :: "pt_sandbox \<Rightarrow> pt_sandbox" where
  "ptrace_sandbox_permit_fchmod S = allow I386_fchmod S"

definition ptrace_sandbox_permit_chmod :: "pt_sandbox \<Rightarrow> pt_sandbox" where
  "ptrace_sandbox_permit_chmod S = allow I386_chmod S"

definition ptrace_sandbox_permit_fchown :: "pt_sandbox \<Rightarrow> pt_sandbox" where
  "ptrace_sandbox_permit_fchown S = allow I386_fchown32 (allow I386_fchown S)"

definition ptrace_sandbox_permit_mremap :: "pt_sandbox \<Rightarrow> pt_sandbox" where
  "ptrace_sandbox_permit_mremap S = allow I386_mremap S"

definition ptrace_sandbox_permit_ftruncate :: "pt_sandbox \<Rightarrow> pt_sandbox" where
  "ptrace_sandbox_permit_ftruncate S = allow I386_ftruncate64 (allow I386_ftruncate S)"

definition ptrace_sandbox_permit_socket :: "pt_sandbox \<Rightarrow> pt_sandbox" where
  "ptrace_sandbox_permit_socket S = allow_socketcall SYS_SOCKET (install_socketcall S)"

definition ptrace_sandbox_set_socket_validator :: "socket_check \<Rightarrow> vsf_session option \<Rightarrow> pt_sandbox \<Rightarrow> pt_sandbox" where
  "ptrace_sandbox_set_socket_validator val p_arg S = check_socketcall SYS_SOCKET val p_arg S"

definition ptrace_sandbox_permit_bind :: "pt_sandbox \<Rightarrow> pt_sandbox" where
  "ptrace_sandbox_permit_bind S = allow_socketcall SYS_BIND (install_socketcall S)"

definition ptrace_sandbox_set_bind_validator :: "socket_check \<Rightarrow> vsf_session option \<Rightarrow> pt_sandbox \<Rightarrow> pt_sandbox" where
  "ptrace_sandbox_set_bind_validator val p_arg S = check_socketcall SYS_BIND val p_arg S"

definition ptrace_sandbox_permit_connect :: "pt_sandbox \<Rightarrow> pt_sandbox" where
  "ptrace_sandbox_permit_connect S = allow_socketcall SYS_CONNECT (install_socketcall S)"

definition ptrace_sandbox_set_connect_validator :: "socket_check \<Rightarrow> vsf_session option \<Rightarrow> pt_sandbox \<Rightarrow> pt_sandbox" where
  "ptrace_sandbox_set_connect_validator val p_arg S = check_socketcall SYS_CONNECT val p_arg S"

definition ptrace_sandbox_permit_listen :: "pt_sandbox \<Rightarrow> pt_sandbox" where
  "ptrace_sandbox_permit_listen S = allow_socketcall SYS_LISTEN (install_socketcall S)"

definition ptrace_sandbox_permit_accept :: "pt_sandbox \<Rightarrow> pt_sandbox" where
  "ptrace_sandbox_permit_accept S = allow_socketcall SYS_ACCEPT (install_socketcall S)"

definition ptrace_sandbox_permit_setsockopt :: "pt_sandbox \<Rightarrow> pt_sandbox" where
  "ptrace_sandbox_permit_setsockopt S = allow_socketcall SYS_SETSOCKOPT (install_socketcall S)"

definition ptrace_sandbox_set_setsockopt_validator :: "socket_check \<Rightarrow> vsf_session option \<Rightarrow> pt_sandbox \<Rightarrow> pt_sandbox" where
  "ptrace_sandbox_set_setsockopt_validator val p_arg S = check_socketcall SYS_SETSOCKOPT val p_arg S"

definition ptrace_sandbox_permit_getsockopt :: "pt_sandbox \<Rightarrow> pt_sandbox" where
  "ptrace_sandbox_permit_getsockopt S = allow_socketcall SYS_GETSOCKOPT (install_socketcall S)"

definition ptrace_sandbox_set_getsockopt_validator :: "socket_check \<Rightarrow> vsf_session option \<Rightarrow> pt_sandbox \<Rightarrow> pt_sandbox" where
  "ptrace_sandbox_set_getsockopt_validator val p_arg S = check_socketcall SYS_GETSOCKOPT val p_arg S"

definition ptrace_sandbox_permit_shutdown :: "pt_sandbox \<Rightarrow> pt_sandbox" where
  "ptrace_sandbox_permit_shutdown S = allow_socketcall SYS_SHUTDOWN (install_socketcall S)"

lemmas permit_defs = ptrace_sandbox_permit_exit_def ptrace_sandbox_permit_read_def ptrace_sandbox_permit_write_def
  ptrace_sandbox_permit_sigaction_def ptrace_sandbox_permit_alarm_def ptrace_sandbox_permit_query_time_def
  ptrace_sandbox_permit_mmap_def ptrace_sandbox_permit_mprotect_def ptrace_sandbox_permit_file_stats_def
  ptrace_sandbox_permit_fd_stats_def ptrace_sandbox_permit_getcwd_def ptrace_sandbox_permit_chdir_def
  ptrace_sandbox_permit_umask_def ptrace_sandbox_permit_open_def ptrace_sandbox_permit_close_def
  ptrace_sandbox_permit_getdents_def ptrace_sandbox_permit_fcntl_def ptrace_sandbox_permit_sendfile_def
  ptrace_sandbox_permit_seek_def ptrace_sandbox_permit_select_def ptrace_sandbox_permit_unlink_def
  ptrace_sandbox_permit_mkdir_def ptrace_sandbox_permit_rmdir_def ptrace_sandbox_permit_rename_def
  ptrace_sandbox_permit_utime_def ptrace_sandbox_permit_sigreturn_def ptrace_sandbox_permit_recv_def
  ptrace_sandbox_permit_readlink_def ptrace_sandbox_permit_brk_def ptrace_sandbox_permit_sleep_def
  ptrace_sandbox_permit_fchmod_def ptrace_sandbox_permit_chmod_def ptrace_sandbox_permit_fchown_def
  ptrace_sandbox_permit_mremap_def ptrace_sandbox_permit_ftruncate_def ptrace_sandbox_permit_socket_def
  ptrace_sandbox_set_socket_validator_def ptrace_sandbox_permit_bind_def ptrace_sandbox_set_bind_validator_def
  ptrace_sandbox_permit_connect_def ptrace_sandbox_set_connect_validator_def ptrace_sandbox_permit_listen_def
  ptrace_sandbox_permit_accept_def ptrace_sandbox_permit_setsockopt_def ptrace_sandbox_set_setsockopt_validator_def
  ptrace_sandbox_permit_getsockopt_def ptrace_sandbox_set_getsockopt_validator_def ptrace_sandbox_permit_shutdown_def
  install_socketcall_def

section \<open>The policy of a session\<close>

primrec apply_all :: "(pt_sandbox \<Rightarrow> pt_sandbox) list \<Rightarrow> pt_sandbox \<Rightarrow> pt_sandbox" where
  "apply_all [] S = S"
| "apply_all (f # fs) S = apply_all fs (f S)"

text \<open>The edits in their order, each under the conditions the code tests.\<close>

definition policy_edits :: "env \<Rightarrow> vsf_session \<Rightarrow> (pt_sandbox \<Rightarrow> pt_sandbox) list" where
  "policy_edits E s =
     (let is_anon = is_anonymous s; on = (\<lambda>b fs. if b then fs else []) in
      [ptrace_sandbox_permit_exit,
       ptrace_sandbox_permit_mmap,
       ptrace_sandbox_permit_mprotect,
       ptrace_sandbox_permit_brk,
       ptrace_sandbox_permit_read,
       ptrace_sandbox_permit_write,
       ptrace_sandbox_permit_recv,
       ptrace_sandbox_permit_query_time,
       ptrace_sandbox_permit_open False,
       ptrace_sandbox_permit_close,
       ptrace_sandbox_permit_file_stats,
       ptrace_sandbox_permit_readlink,
       ptrace_sandbox_permit_getcwd,
       ptrace_sandbox_permit_chdir,
       ptrace_sandbox_permit_getdents,
       ptrace_sandbox_permit_fd_stats,
       ptrace_sandbox_permit_seek,
       ptrace_sandbox_permit_shutdown,
       ptrace_sandbox_permit_fcntl,
       ptrace_sandbox_permit_setsockopt,
       ptrace_sandbox_set_setsockopt_validator Setsockopt_validator None,
       ptrace_sandbox_permit_umask,
       ptrace_sandbox_permit_select,
       ptrace_sandbox_permit_sigreturn,
       ptrace_sandbox_permit_sleep,
       ptrace_sandbox_permit_sendfile] @
      on (tb E ''text_userdb_names'') [ptrace_sandbox_permit_mremap] @
      on (tb E ''async_abor_enable'' \<or> tu E ''idle_session_timeout'' > 0 \<or> tu E ''data_connection_timeout'' > 0)
        [ptrace_sandbox_permit_sigaction] @
      on (tu E ''idle_session_timeout'' > 0 \<or> tu E ''data_connection_timeout'' > 0) [ptrace_sandbox_permit_alarm] @
      [ptrace_sandbox_permit_socket,
       ptrace_sandbox_set_socket_validator Socket_validator (Some s),
       ptrace_sandbox_permit_bind,
       ptrace_sandbox_set_bind_validator Connect_validator (Some s)] @
      on (tb E ''port_enable'')
        [ptrace_sandbox_permit_connect,
         ptrace_sandbox_set_connect_validator Connect_validator (Some s),
         ptrace_sandbox_permit_getsockopt,
         ptrace_sandbox_set_getsockopt_validator Getsockopt_validator None] @
      on (tb E ''pasv_enable'') [ptrace_sandbox_permit_listen, ptrace_sandbox_permit_accept] @
      on (tb E ''write_enable'')
        (on (\<not> is_anon \<or> tb E ''anon_upload_enable'') [ptrace_sandbox_permit_open True] @
         on (\<not> is_anon \<or> tb E ''anon_mkdir_write_enable'') [ptrace_sandbox_permit_mkdir] @
         on (\<not> is_anon \<or> tb E ''anon_other_write_enable'')
           ([ptrace_sandbox_permit_unlink, ptrace_sandbox_permit_rmdir, ptrace_sandbox_permit_rename,
             ptrace_sandbox_permit_ftruncate] @
            on (tb E ''mdtm_write'') [ptrace_sandbox_permit_utime]) @
         on (\<not> is_anon \<and> tb E ''chmod_enable'') [ptrace_sandbox_permit_chmod] @
         on (is_anon \<and> tb E ''chown_uploads'') [ptrace_sandbox_permit_fchmod, ptrace_sandbox_permit_fchown]))"

definition policy_setup :: "env \<Rightarrow> vsf_session \<Rightarrow> pt_sandbox \<Rightarrow> pt_sandbox" where
  "policy_setup E s = apply_all (policy_edits E s)"


section \<open>What the policy permits\<close>

text \<open>Every edit only adds permissions.\<close>

definition additive :: "(pt_sandbox \<Rightarrow> pt_sandbox) \<Rightarrow> bool" where
  "additive f \<longleftrightarrow> (\<forall>S k n. is_allowed (f S) k = (is_allowed S k \<or> is_allowed (f new_sandbox) k) \<and>
     is_socketcall_allowed (f S) n = (is_socketcall_allowed S n \<or> is_socketcall_allowed (f new_sandbox) n))"

lemma edit_simps [simp]:
  "is_allowed (allow n S) k = (k = n \<or> is_allowed S k)" "is_allowed (validate_with n v S) = is_allowed S"
  "is_allowed (allow_socketcall j S) = is_allowed S" "is_allowed (check_socketcall j c a S) = is_allowed S"
  "is_socketcall_allowed (allow n S) = is_socketcall_allowed S" "is_socketcall_allowed (validate_with n v S) = is_socketcall_allowed S"
  "is_socketcall_allowed (allow_socketcall j S) i = (i = j \<or> is_socketcall_allowed S i)"
  "is_socketcall_allowed (check_socketcall j c a S) = is_socketcall_allowed S"
  "validator (allow n S) = validator S" "validator (validate_with n v S) k = (if k = n then Some v else validator S k)"
  "validator (allow_socketcall j S) = validator S" "validator (check_socketcall j c a S) = validator S"
  "socketcall_validator (allow n S) = socketcall_validator S" "socketcall_validator (validate_with n v S) = socketcall_validator S"
  "socketcall_validator (allow_socketcall j S) = socketcall_validator S"
  "socketcall_validator (check_socketcall j c a S) i = (if i = j then Some c else socketcall_validator S i)"
  "socketcall_validator_arg (allow n S) = socketcall_validator_arg S" "socketcall_validator_arg (validate_with n v S) = socketcall_validator_arg S"
  "socketcall_validator_arg (allow_socketcall j S) = socketcall_validator_arg S"
  "socketcall_validator_arg (check_socketcall j c a S) i = (if i = j then a else socketcall_validator_arg S i)"
  by (auto simp: allow_def validate_with_def allow_socketcall_def check_socketcall_def)

lemma new_sandbox_simps [simp]:
  "is_allowed new_sandbox k = False" "is_socketcall_allowed new_sandbox n = False" "validator new_sandbox k = None"
  "socketcall_validator new_sandbox n = None" "socketcall_validator_arg new_sandbox n = None" "is_exit new_sandbox = False" "pid new_sandbox = - 1"
  by (simp_all add: new_sandbox_def)

lemma apply_all_append [simp]: "apply_all (fs @ gs) S = apply_all gs (apply_all fs S)"
  by (induction fs arbitrary: S) simp_all

lemma additiveD:
  "additive f \<Longrightarrow> is_allowed (f S) k \<longleftrightarrow> is_allowed S k \<or> is_allowed (f new_sandbox) k"
  "additive f \<Longrightarrow> is_socketcall_allowed (f S) n \<longleftrightarrow> is_socketcall_allowed S n \<or> is_socketcall_allowed (f new_sandbox) n"
  unfolding additive_def by blast+

lemma apply_all_allowed:
  assumes "list_all additive fs"
  shows "is_allowed (apply_all fs S) k \<longleftrightarrow> is_allowed S k \<or> list_ex (\<lambda>f. is_allowed (f new_sandbox) k) fs"
    and "is_socketcall_allowed (apply_all fs S) n \<longleftrightarrow> is_socketcall_allowed S n \<or> list_ex (\<lambda>f. is_socketcall_allowed (f new_sandbox) n) fs"
  using assms
proof (induction fs arbitrary: S)
  case (Cons f fs)
  { case 1 then show ?case using Cons.IH(1) [of "f S"] additiveD(1) [of f S k] by simp }
  { case 2 then show ?case using Cons.IH(2) [of "f S"] additiveD(2) [of f S n] by simp }
qed simp_all

lemma additive_edits [simp]:
  "additive ptrace_sandbox_permit_exit" "additive ptrace_sandbox_permit_read" "additive ptrace_sandbox_permit_write"
  "additive ptrace_sandbox_permit_sigaction" "additive ptrace_sandbox_permit_alarm"
  "additive ptrace_sandbox_permit_query_time" "additive ptrace_sandbox_permit_mmap"
  "additive ptrace_sandbox_permit_mprotect" "additive ptrace_sandbox_permit_file_stats"
  "additive ptrace_sandbox_permit_fd_stats" "additive ptrace_sandbox_permit_getcwd"
  "additive ptrace_sandbox_permit_chdir" "additive ptrace_sandbox_permit_umask"
  "additive (ptrace_sandbox_permit_open w)" "additive ptrace_sandbox_permit_close"
  "additive ptrace_sandbox_permit_getdents" "additive ptrace_sandbox_permit_fcntl"
  "additive ptrace_sandbox_permit_sendfile" "additive ptrace_sandbox_permit_seek"
  "additive ptrace_sandbox_permit_select" "additive ptrace_sandbox_permit_unlink"
  "additive ptrace_sandbox_permit_mkdir" "additive ptrace_sandbox_permit_rmdir" "additive ptrace_sandbox_permit_rename"
  "additive ptrace_sandbox_permit_utime" "additive ptrace_sandbox_permit_sigreturn"
  "additive ptrace_sandbox_permit_recv" "additive ptrace_sandbox_permit_readlink" "additive ptrace_sandbox_permit_brk"
  "additive ptrace_sandbox_permit_sleep" "additive ptrace_sandbox_permit_fchmod" "additive ptrace_sandbox_permit_chmod"
  "additive ptrace_sandbox_permit_fchown" "additive ptrace_sandbox_permit_mremap"
  "additive ptrace_sandbox_permit_ftruncate" "additive ptrace_sandbox_permit_socket"
  "additive (ptrace_sandbox_set_socket_validator v a)" "additive ptrace_sandbox_permit_bind"
  "additive (ptrace_sandbox_set_bind_validator v a)" "additive ptrace_sandbox_permit_connect"
  "additive (ptrace_sandbox_set_connect_validator v a)" "additive ptrace_sandbox_permit_listen"
  "additive ptrace_sandbox_permit_accept" "additive ptrace_sandbox_permit_setsockopt"
  "additive (ptrace_sandbox_set_setsockopt_validator v a)" "additive ptrace_sandbox_permit_getsockopt"
  "additive (ptrace_sandbox_set_getsockopt_validator v a)" "additive ptrace_sandbox_permit_shutdown"
  by (auto simp: additive_def permit_defs)

lemma list_ex_if [simp]: "list_ex P (if b then fs else []) \<longleftrightarrow> b \<and> list_ex P fs"
  and list_all_if [simp]: "list_all P (if b then fs else []) \<longleftrightarrow> (b \<longrightarrow> list_all P fs)"
  by simp_all

lemmas allowed_simps = list_ex_append list_ex_Nil_iff list_ex_Cons_iff list_ex_if new_sandbox_simps permit_defs edit_simps simp_thms

lemma policy_allowed:
  "is_allowed (policy_setup E s new_sandbox) k \<Longrightarrow>
     k \<in> {1, 3, 4, 5, 6, 12, 13, 19, 45, 55, 60, 78, 82, 85, 102, 106, 107, 108, 119, 125, 140, 141, 142, 162, 183, 187, 192,
       195, 196, 197, 220, 221, 239, 252} \<or>
     tb E ''text_userdb_names'' \<and> k = I386_mremap \<or>
     (tb E ''async_abor_enable'' \<or> tu E ''idle_session_timeout'' > 0 \<or> tu E ''data_connection_timeout'' > 0) \<and>
       (k = I386_sigaction \<or> k = I386_rt_sigaction) \<or>
     (tu E ''idle_session_timeout'' > 0 \<or> tu E ''data_connection_timeout'' > 0) \<and> k = I386_alarm \<or>
     tb E ''write_enable'' \<and>
       ((\<not> is_anonymous s \<or> tb E ''anon_mkdir_write_enable'') \<and> k = I386_mkdir \<or>
        (\<not> is_anonymous s \<or> tb E ''anon_other_write_enable'') \<and>
          (k \<in> {I386_unlink, I386_rmdir, I386_rename, I386_ftruncate, I386_ftruncate64} \<or>
           tb E ''mdtm_write'' \<and> (k = I386_utime \<or> k = I386_utimes)) \<or>
        \<not> is_anonymous s \<and> tb E ''chmod_enable'' \<and> k = I386_chmod \<or>
        is_anonymous s \<and> tb E ''chown_uploads'' \<and> k \<in> {I386_fchmod, I386_fchown, I386_fchown32})"
  unfolding policy_setup_def policy_edits_def Let_def
  by (subst (asm) apply_all_allowed, simp add: permit_defs del: apply_all_append apply_all.simps, simp only: allowed_simps)
    (elim disjE conjE; simp)


lemma policy_socketcalls:
  "is_socketcall_allowed (policy_setup E s new_sandbox) n \<Longrightarrow>
     n \<in> {SYS_SOCKET, SYS_BIND, SYS_RECV, SYS_SHUTDOWN, SYS_SETSOCKOPT} \<or>
     tb E ''port_enable'' \<and> (n = SYS_CONNECT \<or> n = SYS_GETSOCKOPT) \<or>
     tb E ''pasv_enable'' \<and> (n = SYS_LISTEN \<or> n = SYS_ACCEPT)"
  unfolding policy_setup_def policy_edits_def Let_def
  by (subst (asm) apply_all_allowed, simp add: permit_defs del: apply_all_append apply_all.simps, simp only: allowed_simps)
    (elim disjE conjE; simp)

text \<open>The last edit that sets a field counts.\<close>

fun later :: "'a option \<Rightarrow> 'a option \<Rightarrow> 'a option" where
  "later None d = d"
| "later (Some v) d = Some v"

definition socket_rule :: "nat \<Rightarrow> pt_sandbox \<Rightarrow> (socket_check \<times> vsf_session option) option" where
  "socket_rule n S = map_option (\<lambda>c. (c, socketcall_validator_arg S n)) (socketcall_validator S n)"

definition overriding :: "(pt_sandbox \<Rightarrow> 'a option) \<Rightarrow> (pt_sandbox \<Rightarrow> pt_sandbox) \<Rightarrow> bool" where
  "overriding sel f \<longleftrightarrow> (\<forall>S. sel (f S) = later (sel (f new_sandbox)) (sel S))"

lemma overridingD: "overriding sel f \<Longrightarrow> sel (f S) = later (sel (f new_sandbox)) (sel S)"
  unfolding overriding_def by blast

lemma apply_all_later:
  assumes "list_all (overriding sel) fs"
  shows "sel (apply_all fs S) = fold (\<lambda>f. later (sel (f new_sandbox))) fs (sel S)"
  using assms
proof (induction fs arbitrary: S)
  case (Cons f fs)
  then show ?case using overridingD [of sel f S] by simp
qed simp

lemma fold_if: "fold g (if b then fs else []) a = (if b then fold g fs a else a)"
  by simp

lemma socket_rule_simps [simp]:
  "socket_rule n (allow k S) = socket_rule n S" "socket_rule n (validate_with k v S) = socket_rule n S"
  "socket_rule n (allow_socketcall j S) = socket_rule n S" "socket_rule n new_sandbox = None"
  "socket_rule n (check_socketcall j c a S) = (if n = j then Some (c, a) else socket_rule n S)"
  by (simp_all add: socket_rule_def)

lemma overriding_edits [simp]:
  "overriding (\<lambda>S. validator S k) ptrace_sandbox_permit_exit"
  "overriding (\<lambda>S. validator S k) ptrace_sandbox_permit_read"
  "overriding (\<lambda>S. validator S k) ptrace_sandbox_permit_write"
  "overriding (\<lambda>S. validator S k) ptrace_sandbox_permit_sigaction"
  "overriding (\<lambda>S. validator S k) ptrace_sandbox_permit_alarm"
  "overriding (\<lambda>S. validator S k) ptrace_sandbox_permit_query_time"
  "overriding (\<lambda>S. validator S k) ptrace_sandbox_permit_mmap"
  "overriding (\<lambda>S. validator S k) ptrace_sandbox_permit_mprotect"
  "overriding (\<lambda>S. validator S k) ptrace_sandbox_permit_file_stats"
  "overriding (\<lambda>S. validator S k) ptrace_sandbox_permit_fd_stats"
  "overriding (\<lambda>S. validator S k) ptrace_sandbox_permit_getcwd"
  "overriding (\<lambda>S. validator S k) ptrace_sandbox_permit_chdir"
  "overriding (\<lambda>S. validator S k) ptrace_sandbox_permit_umask"
  "overriding (\<lambda>S. validator S k) (ptrace_sandbox_permit_open w)"
  "overriding (\<lambda>S. validator S k) ptrace_sandbox_permit_close"
  "overriding (\<lambda>S. validator S k) ptrace_sandbox_permit_getdents"
  "overriding (\<lambda>S. validator S k) ptrace_sandbox_permit_fcntl"
  "overriding (\<lambda>S. validator S k) ptrace_sandbox_permit_sendfile"
  "overriding (\<lambda>S. validator S k) ptrace_sandbox_permit_seek"
  "overriding (\<lambda>S. validator S k) ptrace_sandbox_permit_select"
  "overriding (\<lambda>S. validator S k) ptrace_sandbox_permit_unlink"
  "overriding (\<lambda>S. validator S k) ptrace_sandbox_permit_mkdir"
  "overriding (\<lambda>S. validator S k) ptrace_sandbox_permit_rmdir"
  "overriding (\<lambda>S. validator S k) ptrace_sandbox_permit_rename"
  "overriding (\<lambda>S. validator S k) ptrace_sandbox_permit_utime"
  "overriding (\<lambda>S. validator S k) ptrace_sandbox_permit_sigreturn"
  "overriding (\<lambda>S. validator S k) ptrace_sandbox_permit_recv"
  "overriding (\<lambda>S. validator S k) ptrace_sandbox_permit_readlink"
  "overriding (\<lambda>S. validator S k) ptrace_sandbox_permit_brk"
  "overriding (\<lambda>S. validator S k) ptrace_sandbox_permit_sleep"
  "overriding (\<lambda>S. validator S k) ptrace_sandbox_permit_fchmod"
  "overriding (\<lambda>S. validator S k) ptrace_sandbox_permit_chmod"
  "overriding (\<lambda>S. validator S k) ptrace_sandbox_permit_fchown"
  "overriding (\<lambda>S. validator S k) ptrace_sandbox_permit_mremap"
  "overriding (\<lambda>S. validator S k) ptrace_sandbox_permit_ftruncate"
  "overriding (\<lambda>S. validator S k) ptrace_sandbox_permit_socket"
  "overriding (\<lambda>S. validator S k) (ptrace_sandbox_set_socket_validator v a)"
  "overriding (\<lambda>S. validator S k) ptrace_sandbox_permit_bind"
  "overriding (\<lambda>S. validator S k) (ptrace_sandbox_set_bind_validator v a)"
  "overriding (\<lambda>S. validator S k) ptrace_sandbox_permit_connect"
  "overriding (\<lambda>S. validator S k) (ptrace_sandbox_set_connect_validator v a)"
  "overriding (\<lambda>S. validator S k) ptrace_sandbox_permit_listen"
  "overriding (\<lambda>S. validator S k) ptrace_sandbox_permit_accept"
  "overriding (\<lambda>S. validator S k) ptrace_sandbox_permit_setsockopt"
  "overriding (\<lambda>S. validator S k) (ptrace_sandbox_set_setsockopt_validator v a)"
  "overriding (\<lambda>S. validator S k) ptrace_sandbox_permit_getsockopt"
  "overriding (\<lambda>S. validator S k) (ptrace_sandbox_set_getsockopt_validator v a)"
  "overriding (\<lambda>S. validator S k) ptrace_sandbox_permit_shutdown"
  "overriding (socket_rule n) ptrace_sandbox_permit_exit" "overriding (socket_rule n) ptrace_sandbox_permit_read"
  "overriding (socket_rule n) ptrace_sandbox_permit_write" "overriding (socket_rule n) ptrace_sandbox_permit_sigaction"
  "overriding (socket_rule n) ptrace_sandbox_permit_alarm"
  "overriding (socket_rule n) ptrace_sandbox_permit_query_time" "overriding (socket_rule n) ptrace_sandbox_permit_mmap"
  "overriding (socket_rule n) ptrace_sandbox_permit_mprotect"
  "overriding (socket_rule n) ptrace_sandbox_permit_file_stats"
  "overriding (socket_rule n) ptrace_sandbox_permit_fd_stats" "overriding (socket_rule n) ptrace_sandbox_permit_getcwd"
  "overriding (socket_rule n) ptrace_sandbox_permit_chdir" "overriding (socket_rule n) ptrace_sandbox_permit_umask"
  "overriding (socket_rule n) (ptrace_sandbox_permit_open w)" "overriding (socket_rule n) ptrace_sandbox_permit_close"
  "overriding (socket_rule n) ptrace_sandbox_permit_getdents" "overriding (socket_rule n) ptrace_sandbox_permit_fcntl"
  "overriding (socket_rule n) ptrace_sandbox_permit_sendfile" "overriding (socket_rule n) ptrace_sandbox_permit_seek"
  "overriding (socket_rule n) ptrace_sandbox_permit_select" "overriding (socket_rule n) ptrace_sandbox_permit_unlink"
  "overriding (socket_rule n) ptrace_sandbox_permit_mkdir" "overriding (socket_rule n) ptrace_sandbox_permit_rmdir"
  "overriding (socket_rule n) ptrace_sandbox_permit_rename" "overriding (socket_rule n) ptrace_sandbox_permit_utime"
  "overriding (socket_rule n) ptrace_sandbox_permit_sigreturn" "overriding (socket_rule n) ptrace_sandbox_permit_recv"
  "overriding (socket_rule n) ptrace_sandbox_permit_readlink" "overriding (socket_rule n) ptrace_sandbox_permit_brk"
  "overriding (socket_rule n) ptrace_sandbox_permit_sleep" "overriding (socket_rule n) ptrace_sandbox_permit_fchmod"
  "overriding (socket_rule n) ptrace_sandbox_permit_chmod" "overriding (socket_rule n) ptrace_sandbox_permit_fchown"
  "overriding (socket_rule n) ptrace_sandbox_permit_mremap"
  "overriding (socket_rule n) ptrace_sandbox_permit_ftruncate"
  "overriding (socket_rule n) ptrace_sandbox_permit_socket"
  "overriding (socket_rule n) (ptrace_sandbox_set_socket_validator v a)"
  "overriding (socket_rule n) ptrace_sandbox_permit_bind"
  "overriding (socket_rule n) (ptrace_sandbox_set_bind_validator v a)"
  "overriding (socket_rule n) ptrace_sandbox_permit_connect"
  "overriding (socket_rule n) (ptrace_sandbox_set_connect_validator v a)"
  "overriding (socket_rule n) ptrace_sandbox_permit_listen" "overriding (socket_rule n) ptrace_sandbox_permit_accept"
  "overriding (socket_rule n) ptrace_sandbox_permit_setsockopt"
  "overriding (socket_rule n) (ptrace_sandbox_set_setsockopt_validator v a)"
  "overriding (socket_rule n) ptrace_sandbox_permit_getsockopt"
  "overriding (socket_rule n) (ptrace_sandbox_set_getsockopt_validator v a)"
  "overriding (socket_rule n) ptrace_sandbox_permit_shutdown"
  by (simp_all add: overriding_def permit_defs)

lemma policy_fields:
  "validator (policy_setup E s S) k = fold (\<lambda>f. later (validator (f new_sandbox) k)) (policy_edits E s) (validator S k)"
  "socket_rule n (policy_setup E s S) = fold (\<lambda>f. later (socket_rule n (f new_sandbox))) (policy_edits E s) (socket_rule n S)"
proof -
  have "list_all (overriding (\<lambda>S. validator S k)) (policy_edits E s)" "list_all (overriding (socket_rule n)) (policy_edits E s)"
    by (simp_all add: policy_edits_def Let_def)
  from this [THEN apply_all_later] show
    "validator (policy_setup E s S) k = fold (\<lambda>f. later (validator (f new_sandbox) k)) (policy_edits E s) (validator S k)"
    "socket_rule n (policy_setup E s S) = fold (\<lambda>f. later (socket_rule n (f new_sandbox))) (policy_edits E s) (socket_rule n S)"
    by (simp_all add: policy_setup_def)
qed

lemma policy_validators:
  "validator (policy_setup E s new_sandbox) I386_mmap2 = Some Validate_mmap2"
  "validator (policy_setup E s new_sandbox) I386_open =
     Some (if tb E ''write_enable'' \<and> (\<not> is_anonymous s \<or> tb E ''anon_upload_enable'') then Validate_open_default else Validate_open_readonly)"
  "validator (policy_setup E s new_sandbox) I386_fcntl = Some Validate_fcntl"
  "validator (policy_setup E s new_sandbox) I386_fcntl64 = Some Validate_fcntl"
  "validator (policy_setup E s new_sandbox) I386_socketcall = Some Validate_socketcall"
  "validator (policy_setup E s new_sandbox) 0 = None"
  unfolding policy_fields policy_edits_def Let_def by (simp_all add: fold_if permit_defs cong: if_cong del: if_split, simp_all?)


lemma policy_socket_rules:
  "socket_rule SYS_SOCKET (policy_setup E s new_sandbox) = Some (Socket_validator, Some s)"
  "socket_rule SYS_BIND (policy_setup E s new_sandbox) = Some (Connect_validator, Some s)"
  "socket_rule SYS_SETSOCKOPT (policy_setup E s new_sandbox) = Some (Setsockopt_validator, None)"
  "tb E ''port_enable'' \<Longrightarrow> socket_rule SYS_CONNECT (policy_setup E s new_sandbox) = Some (Connect_validator, Some s)"
  "tb E ''port_enable'' \<Longrightarrow> socket_rule SYS_GETSOCKOPT (policy_setup E s new_sandbox) = Some (Getsockopt_validator, None)"
  unfolding policy_fields policy_edits_def Let_def by (simp_all add: fold_if permit_defs cong: if_cong del: if_split)

fun rule_armed :: "(socket_check \<times> vsf_session option) option \<Rightarrow> bool" where
  "rule_armed (Some (Socket_validator, None)) = False"
| "rule_armed (Some (Connect_validator, None)) = False"
| "rule_armed _ = True"

lemma fold_armed: "list_all (\<lambda>f. rule_armed (h f)) fs \<Longrightarrow> rule_armed a \<Longrightarrow> rule_armed (fold (\<lambda>f. later (h f)) fs a)"
proof (induction fs arbitrary: a)
  case (Cons f fs)
  then show ?case by (cases "h f") simp_all
qed simp

lemma policy_armed: "armed (policy_setup E s new_sandbox\<lparr>pid := p\<rparr>)"
proof -
  let ?P = "policy_setup E s new_sandbox"
  have "rule_armed (socket_rule n ?P)" for n
    unfolding policy_fields by (rule fold_armed) (simp_all add: policy_edits_def Let_def permit_defs)
  then have "socketcall_validator_arg ?P n \<noteq> None"
    if "socketcall_validator ?P n = Some c" "c = Socket_validator \<or> c = Connect_validator" for n c
    using that by (metis option.simps(9) rule_armed.simps(1,2) socket_rule_def)
  then show ?thesis by (auto simp: armed_def policy_validators)
qed

section \<open>What a sandboxed session can do\<close>

text \<open>The calls a session may make: \<open>m\<close> is its memory, \<open>r\<close> its registers, \<open>p\<close> the number of its process.\<close>

definition socket_conforms :: "env \<Rightarrow> vsf_session \<Rightarrow> (32 word \<Rightarrow> 32 word) \<Rightarrow> regs \<Rightarrow> bool" where
  "socket_conforms E s m r =
     (let n = unat (ebx r) in
      n = SYS_RECV \<or> n = SYS_SHUTDOWN \<or>
      n = SYS_SETSOCKOPT \<and> (m (ecx r + 4), m (ecx r + 8)) \<in> {(1, 9), (1, 2), (1, 10), (1, 13), (6, 1), (0, 1)} \<or>
      n = SYS_SOCKET \<and> m (ecx r) = expected_family s \<and> m (ecx r + 4) = 1 \<or>
      n = SYS_BIND \<and> to_client s m r \<or>
      tb E ''port_enable'' \<and> (n = SYS_CONNECT \<and> to_client s m r \<or> n = SYS_GETSOCKOPT \<and> m (ecx r + 4) = 1 \<and> m (ecx r + 8) = 4) \<or>
      tb E ''pasv_enable'' \<and> (n = SYS_LISTEN \<or> n = SYS_ACCEPT))"

definition fcntl_conforms :: "int \<Rightarrow> regs \<Rightarrow> bool" where
  "fcntl_conforms p r \<longleftrightarrow>
     ecx r \<in> {1, 2, 3, 4, 6, 7, 8, 13, 14} \<and> (ecx r = 4 \<longrightarrow> edx r AND (PT_O_ASYNC OR PT_O_DIRECT) = 0) \<and>
     (ecx r = 8 \<longrightarrow> sint (edx r) = p)"

definition conforms :: "env \<Rightarrow> vsf_session \<Rightarrow> int \<Rightarrow> (32 word \<Rightarrow> 32 word) \<Rightarrow> regs \<Rightarrow> bool" where
  "conforms E s p m r =
     (let k = sint (orig_eax r); w = (\<lambda>t. tb E ''write_enable'' \<and> (\<not> is_anonymous s \<or> tb E t)) in
      k \<in> {I386_exit, I386_exit_group, I386_mprotect, I386_brk, I386_read, I386_write, I386_gettimeofday, I386_time, I386_close,
        I386_stat, I386_stat64, I386_lstat, I386_lstat64, I386_readlink, I386_getcwd, I386_chdir, I386_getdents, I386_getdents64,
        I386_fstat, I386_fstat64, I386_lseek, I386_llseek, I386_umask, I386_select, I386_newselect, I386_sigreturn,
        I386_nanosleep, I386_sendfile, I386_sendfile64} \<or>
      k = I386_mmap2 \<and> esi r AND PT_MAP_SHARED = 0 \<or>
      k = I386_open \<and> ecx r AND (PT_O_ASYNC OR PT_O_DIRECT OR PT_O_SYNC) = 0 \<and> (ecx r AND PT_O_ACCMODE = 0 \<or> w ''anon_upload_enable'') \<or>
      (k = I386_fcntl \<or> k = I386_fcntl64) \<and> fcntl_conforms p r \<or>
      k = I386_socketcall \<and> socket_conforms E s m r \<or>
      k = I386_mremap \<and> tb E ''text_userdb_names'' \<or>
      (k = I386_sigaction \<or> k = I386_rt_sigaction) \<and>
        (tb E ''async_abor_enable'' \<or> tu E ''idle_session_timeout'' > 0 \<or> tu E ''data_connection_timeout'' > 0) \<or>
      k = I386_alarm \<and> (tu E ''idle_session_timeout'' > 0 \<or> tu E ''data_connection_timeout'' > 0) \<or>
      k = I386_mkdir \<and> w ''anon_mkdir_write_enable'' \<or>
      k \<in> {I386_unlink, I386_rmdir, I386_rename, I386_ftruncate, I386_ftruncate64} \<and> w ''anon_other_write_enable'' \<or>
      (k = I386_utime \<or> k = I386_utimes) \<and> w ''anon_other_write_enable'' \<and> tb E ''mdtm_write'' \<or>
      k = I386_chmod \<and> tb E ''write_enable'' \<and> \<not> is_anonymous s \<and> tb E ''chmod_enable'' \<or>
      k \<in> {I386_fchmod, I386_fchown, I386_fchown32} \<and> tb E ''write_enable'' \<and> is_anonymous s \<and> tb E ''chown_uploads'')"

lemma socket_lawful:
  assumes "meets (policy_setup E s new_sandbox\<lparr>pid := p\<rparr>) m r Validate_socketcall"
  shows "socket_conforms E s m r"
proof -
  let ?P = "policy_setup E s new_sandbox" and ?n = "unat (ebx r)"
  have a: "is_socketcall_allowed ?P ?n"
    and c: "\<And>c a. socket_rule ?n ?P = Some (c, a) \<Longrightarrow> socket_meets m r c a"
    using assms by (auto simp: Let_def socket_rule_def split: option.splits)
  from policy_socketcalls [OF a] c policy_socket_rules [of _ s] show ?thesis
    unfolding socket_conforms_def Let_def
    by (elim disjE conjE insertE emptyE; force)
qed


lemma lawful_conforms:
  assumes "lawful (policy_setup E s new_sandbox\<lparr>pid := p\<rparr>) m r"
  shows "conforms E s p m r"
proof -
  let ?P = "policy_setup E s new_sandbox\<lparr>pid := p\<rparr>" and ?k = "sint (orig_eax r)"
  have a: "is_allowed (policy_setup E s new_sandbox) ?k"
    and v: "\<And>v. validator (policy_setup E s new_sandbox) ?k = Some v \<Longrightarrow> meets ?P m r v"
    using assms by (auto simp: lawful_def split: option.splits)
  have open_ok: "ecx r AND (PT_O_ASYNC OR PT_O_DIRECT OR PT_O_SYNC) = 0 \<and>
      (ecx r AND PT_O_ACCMODE = 0 \<or> tb E ''write_enable'' \<and> (\<not> is_anonymous s \<or> tb E ''anon_upload_enable''))" if "?k = I386_open"
    using v [unfolded that, OF policy_validators(2)] by (auto split: if_splits)
  have mmap_ok: "esi r AND PT_MAP_SHARED = 0" if "?k = I386_mmap2" using v [unfolded that, OF policy_validators(1)] by simp
  have fcntl_ok: "fcntl_conforms p r" if "?k = I386_fcntl \<or> ?k = I386_fcntl64"
    using that v policy_validators(3,4) [of E s] by (auto simp: fcntl_conforms_def)
  have socket_ok: "socket_conforms E s m r" if "?k = I386_socketcall"
    using v [unfolded that, OF policy_validators(5)] by (rule socket_lawful)
  show ?thesis using policy_allowed [OF a] open_ok mmap_ok fcntl_ok socket_ok
    unfolding conforms_def Let_def by (elim disjE conjE insertE emptyE; simp)
qed

lemma exit_conforms: "orig_eax r = 252 \<Longrightarrow> conforms E s p m r"
  by (simp add: conforms_def Let_def)

lemma policy_keeps: "is_exit (policy_setup E s S) = is_exit S" "pid (policy_setup E s S) = pid S"
proof -
  have run: "is_exit (apply_all fs S) = is_exit S \<and> pid (apply_all fs S) = pid S"
    if "list_all (\<lambda>f. \<forall>S. is_exit (f S) = is_exit S \<and> pid (f S) = pid S) fs" for fs
    using that by (induction fs arbitrary: S) simp_all
  have "is_exit (allow n S) = is_exit S \<and> pid (allow n S) = pid S"
    "is_exit (validate_with n v S) = is_exit S \<and> pid (validate_with n v S) = pid S"
    "is_exit (allow_socketcall j S) = is_exit S \<and> pid (allow_socketcall j S) = pid S"
    "is_exit (check_socketcall j c a S) = is_exit S \<and> pid (check_socketcall j c a S) = pid S" for n v j c a S
    by (simp_all add: allow_def validate_with_def allow_socketcall_def check_socketcall_def)
  then have "list_all (\<lambda>f. \<forall>S. is_exit (f S) = is_exit S \<and> pid (f S) = pid S) (policy_edits E s)"
    by (simp add: policy_edits_def Let_def permit_defs)
  from run [OF this] show "is_exit (policy_setup E s S) = is_exit S" "pid (policy_setup E s S) = pid S"
    by (simp_all add: policy_setup_def)
qed

lemma session_launched:
  assumes "ptrace_sandbox_alloc K [] = (Inr (Some S0), h0)"
    and "ptrace_sandbox_launch_process K (policy_setup E s S0) h0 = (Inr (p, S), h)" and "p \<noteq> - 1"
  shows "S = policy_setup E s new_sandbox\<lparr>pid := p\<rparr>" and "launched K S h" and "armed S"
proof -
  have a: "S0 = new_sandbox" "place (seen K h0) = Outside" "ran (seen K h0) = []" using alloc_result [OF assms(1)] by simp_all
  have "\<not> is_exit (policy_setup E s S0)" by (simp add: policy_keeps a(1))
  from pt_wpD [OF launch_rule [OF this a(2,3)] assms(2)] assms(3)
  have l: "S = policy_setup E s new_sandbox\<lparr>pid := p\<rparr> \<and> launched K S h" by (auto simp: a(1))
  then show S: "S = policy_setup E s new_sandbox\<lparr>pid := p\<rparr>" and "launched K S h" by blast+
  show "armed S" unfolding S by (rule policy_armed)
qed

section \<open>Properties\<close>




section \<open>An example\<close>

text \<open>A process that stops for its launch, reads (call 3), and then tries to run another program (call 11).\<close>

definition demo_regs :: "32 word \<Rightarrow> regs" where
  "demo_regs nr = zero_regs\<lparr>orig_eax := nr, xcs := 0x73\<rparr>"

definition demo_kernel :: kernel where
  "demo_kernel = \<lparr>
     k_ret = (\<lambda>h c. case c of Malloc \<Rightarrow> 1000 | Fork \<Rightarrow> 77 | Waitpid p z \<Rightarrow> p | _ \<Rightarrow> 0),
     k_errno = (\<lambda>_ _. 0),
     k_status = (\<lambda>h. if waits h = 0 then 19 * 256 + 127 else if waits h < 4 then 133 * 256 + 127 else 0),
     k_regs = (\<lambda>h. demo_regs (if waits h < 4 then 3 else 11)),
     k_peek = (\<lambda>_ _. 0)\<rparr>"

lemma demo_ok: "steady demo_kernel" "regs_open demo_kernel" "over_after demo_kernel 77 4"
proof -
  have "waits (c # h) = waits h" if "quiet c" for c h using that by (cases c) simp_all
  then show "steady demo_kernel" by (simp add: steady_def demo_kernel_def)
  show "regs_open demo_kernel" "over_after demo_kernel 77 4"
    by (simp_all add: regs_open_def over_after_def over_def demo_kernel_def WIFEXITED_def)
qed

lemma demo_retry: "pt_retry demo_kernel (Waitpid 77 0) h = (Inr (77, 0, k_status demo_kernel h), Waitpid 77 0 # h)"
  unfolding pt_retry_def by (subst while_option_unfold) (simp add: demo_kernel_def)

lemma demo_alloc: "ptrace_sandbox_alloc demo_kernel [] = (Inr (Some new_sandbox), [Sigaction, Malloc])"
  by (simp add: ptrace_sandbox_alloc_def pt_bnd_def pt_call_def pt_ret_def demo_kernel_def)

definition demo_sandbox :: pt_sandbox where
  "demo_sandbox = policy_setup plain_env blank_session new_sandbox\<lparr>pid := 77\<rparr>"

definition demo_start :: "call list" where
  "demo_start = [Setoptions 77 15, Waitpid 77 0, Fork, Sigaction, Malloc]"

lemma demo_launch:
  "ptrace_sandbox_launch_process demo_kernel (policy_setup plain_env blank_session new_sandbox) [Sigaction, Malloc] =
     (Inr (77, demo_sandbox), demo_start)"
proof -
  have "k_ret demo_kernel h Fork = 77" "k_ret demo_kernel h (Setoptions 77 15) = 0" for h by (simp_all add: demo_kernel_def)
  moreover have "k_status demo_kernel [Fork, Sigaction, Malloc] = 4991" by (simp add: demo_kernel_def)
  ultimately show ?thesis
    by (simp add: ptrace_sandbox_launch_process_def policy_keeps pt_bnd_def pt_call_def pt_ret_def demo_retry WIFSTOPPED_def WSTOPSIG_def
        demo_sandbox_def demo_start_def Let_def)
qed

lemma demo_judge: "judge demo_kernel (demo_sandbox\<lparr>is_exit := True, pt_regs := demo_regs 3\<rparr>) h = (Inr 0, h)"
proof -
  have "is_allowed (policy_setup E s new_sandbox) 3" for E s
    unfolding policy_setup_def policy_edits_def Let_def
    by (subst apply_all_allowed) (simp_all add: permit_defs del: apply_all_append apply_all.simps)
  moreover have "validator (policy_setup E s new_sandbox) 3 = None" for E s
    unfolding policy_fields policy_edits_def Let_def by (simp add: fold_if permit_defs cong: if_cong del: if_split)
  ultimately show ?thesis by (simp add: judge_def demo_sandbox_def demo_regs_def pt_ret_def)
qed

lemma demo_turn:
  "supervises demo_kernel demo_sandbox demo_start (demo_sandbox\<lparr>is_exit := True, pt_regs := zero_regs\<rparr>)
     (Pt_syscall 77 0 # Getregs 77 # Waitpid 77 0 # Pt_syscall 77 0 # demo_start)"
  (is "supervises _ _ _ ?S ?h")
proof (rule turns)
  let ?h1 = "Pt_syscall 77 0 # demo_start"
  have p: "pid demo_sandbox = 77" "is_exit demo_sandbox = False" by (simp_all add: demo_sandbox_def policy_keeps)
  have k: "k_ret demo_kernel h (Pt_syscall 77 z) = 0" "k_ret demo_kernel h (Getregs 77) = 0" for h z by (simp_all add: demo_kernel_def)
  show "supervises demo_kernel demo_sandbox demo_start demo_sandbox ?h1"
    by (rule starts) (simp add: ptrace_sandbox_continue_process_def pt_bnd_def pt_call_def pt_ret_def p k)
  have st: "k_status demo_kernel ?h1 = 34175" "k_regs demo_kernel (Waitpid 77 0 # ?h1) = demo_regs 3"
    by (simp_all add: demo_kernel_def demo_start_def)
  show "run_turn demo_kernel demo_sandbox ?h1 = (Inr (Inl ?S), ?h)"
    by (simp add: run_turn_def ptrace_sandbox_get_event_def ptrace_sandbox_handle_event_def get_action_def pt_getregs_def
        ptrace_sandbox_continue_process_def pt_bnd_def pt_call_def pt_ret_def p k st demo_retry demo_judge
        WIFEXITED_def WIFSIGNALED_def WIFSTOPPED_def WSTOPSIG_def Let_def)
qed



text \<open>The check of files opened for reading looks at the access mode only: \<^verbatim>\<open>O_CREAT\<close> (64) and \<^verbatim>\<open>O_TRUNC\<close> (512) pass, with which
  a process that may only read creates and empties files.\<close>
theorem readonly_open_truncates:
  "validate_open_readonly (S\<lparr>pt_regs := demo_regs 5\<lparr>ecx := 64 OR 512\<rparr>\<rparr>) h = (Inr 0, h)"
  by (simp add: validate_open_readonly_def validate_open_default_def ptrace_sandbox_get_arg_def demo_regs_def zero_regs_def Let_def)
    (simp add: pt_ret_def)

end
