(* ===== verification/Secbuf.thy ===== *)
theory Secbuf
  imports Prelude
begin

text \<open>
  \<^verbatim>\<open>secbuf.c\<close>: buffers between two pages without access, so that a write behind the end of a buffer
  stops the process. The memory of a process is modelled by pages; where the kernel places a new mapping
  is not part of the sources, and the locale \<open>page_mapper\<close> states what is documented of \<^verbatim>\<open>mmap\<close>.
\<close>

section \<open>Memory\<close>

datatype prot = Unmapped | ProtNone | ProtRead | ProtWrite

text \<open>The access to each page, by its number, and the \<^verbatim>\<open>unsigned int\<close> that \<^verbatim>\<open>secbuf.c\<close> keeps at an address.\<close>

record vm =
  prot_of :: "nat \<Rightarrow> prot"
  size_at :: "nat \<Rightarrow> nat"

definition pages_of :: "nat \<Rightarrow> nat \<Rightarrow> nat \<Rightarrow> nat list" where
  "pages_of ps addr len = [addr div ps ..< (addr + len + ps - 1) div ps]"

definition set_pages :: "nat \<Rightarrow> nat \<Rightarrow> nat \<Rightarrow> prot \<Rightarrow> vm \<Rightarrow> vm" where
  "set_pages ps addr len q m = m\<lparr>prot_of := (\<lambda>i. if i \<in> set (pages_of ps addr len) then q else prot_of m i)\<rparr>"

section \<open>System calls\<close>

text \<open>\<open>place\<close> chooses the address of a mapping, or fails.\<close>

definition vsf_sysutil_map_anon_pages :: "(nat \<Rightarrow> vm \<Rightarrow> nat \<Rightarrow> nat option) \<Rightarrow> nat \<Rightarrow> nat \<Rightarrow> vm \<Rightarrow> (nat \<times> vm) res" where
  "vsf_sysutil_map_anon_pages place ps len m =
     (case place ps m len of
        None \<Rightarrow> die ''mmap''
      | Some addr \<Rightarrow> Inr (addr, set_pages ps addr len ProtWrite m))"

text \<open>\<^verbatim>\<open>mprotect\<close> fails at an address inside a page and when a page is not mapped; \<^verbatim>\<open>munmap\<close> also without pages.\<close>

definition vsf_sysutil_memprotect :: "nat \<Rightarrow> nat \<Rightarrow> nat \<Rightarrow> prot \<Rightarrow> vm \<Rightarrow> vm res" where
  "vsf_sysutil_memprotect ps addr len q m =
     (if addr mod ps \<noteq> 0 \<or> list_ex (\<lambda>i. prot_of m i = Unmapped) (pages_of ps addr len) then die ''mprotect''
      else Inr (set_pages ps addr len q m))"

definition vsf_sysutil_memunmap :: "nat \<Rightarrow> nat \<Rightarrow> nat \<Rightarrow> vm \<Rightarrow> vm res" where
  "vsf_sysutil_memunmap ps addr len m =
     (if addr mod ps \<noteq> 0 \<or> len = 0 then die ''munmap'' else Inr (set_pages ps addr len Unmapped m))"

section \<open>Secure buffers\<close>

text \<open>The first \<^verbatim>\<open>int\<close> of a page is readable.\<close>

definition vsf_secbuf_free :: "nat \<Rightarrow> nat \<Rightarrow> vm \<Rightarrow> vm res" where
  "vsf_secbuf_free page_size p_ptr m =
     (if p_ptr = 0 then Inr m
      else let p_mmap = p_ptr - p_ptr mod page_size - page_size in
        res_bind (vsf_sysutil_memprotect page_size p_mmap page_size ProtRead m) (\<lambda>m1.
        if prot_of m1 (p_mmap div page_size) \<notin> {ProtRead, ProtWrite} then Inl Segv
        else vsf_sysutil_memunmap page_size p_mmap (size_at m1 p_mmap) m1))"

text \<open>The size of the mapping, in unsigned arithmetic.\<close>

definition map_length :: "nat \<Rightarrow> nat \<Rightarrow> nat" where
  "map_length page_size sz =
     (let round_up = (if sz mod page_size \<noteq> 0 then u32 (u32 (sz div page_size + 1) * page_size) else sz)
      in u32 (round_up + u32 (page_size * 2)))"

definition vsf_secbuf_alloc :: "(nat \<Rightarrow> vm \<Rightarrow> nat \<Rightarrow> nat option) \<Rightarrow> nat \<Rightarrow> nat \<Rightarrow> nat \<Rightarrow> vm \<Rightarrow> (nat \<times> vm) res" where
  "vsf_secbuf_alloc place page_size p_ptr sz m =
     res_bind (vsf_secbuf_free page_size p_ptr m) (\<lambda>m1.
     let page_offset = sz mod page_size; round_up = map_length page_size sz in
     res_bind (vsf_sysutil_map_anon_pages place page_size round_up m1) (\<lambda>(p_mmap, m2).
     res_bind (vsf_sysutil_memprotect page_size (p_mmap + round_up - page_size) page_size ProtNone m2) (\<lambda>m3.
     if prot_of m3 (p_mmap div page_size) \<noteq> ProtWrite then Inl Segv
     else
       res_bind (vsf_sysutil_memprotect page_size p_mmap page_size ProtNone
         (m3\<lparr>size_at := (size_at m3)(p_mmap := round_up)\<rparr>)) (\<lambda>m4.
       Inr (p_mmap + page_size + (if page_offset \<noteq> 0 then page_size - page_offset else 0), m4)))))"

section \<open>Whole pages\<close>

lemma div_span: "0 < ps \<Longrightarrow> (j * ps + l * ps + ps - 1) div ps = j + (l :: nat)"
proof -
  assume ps: "0 < ps"
  then have "j * ps + l * ps + ps - 1 = ps - 1 + (j + l) * ps" by (simp add: algebra_simps)
  with ps show ?thesis by (metis div_mult_self1 less_numeral_extra(3) diff_less zero_less_one div_less add.right_neutral add.commute)
qed

lemma pages_span: "0 < ps \<Longrightarrow> pages_of ps (j * ps) (l * ps) = [j ..< j + l]"
  using div_span [of ps j l] by (simp add: pages_of_def)

lemma set_span: "0 < ps \<Longrightarrow> prot_of (set_pages ps (j * ps) (l * ps) q m) = (\<lambda>i. if j \<le> i \<and> i < j + l then q else prot_of m i)"
  by (simp add: set_pages_def pages_span fun_eq_iff)

lemma set_pages_size [simp]: "size_at (set_pages ps a l q m) = size_at m"
  by (simp add: set_pages_def)

text \<open>The number of pages of a buffer.\<close>

definition data_pages :: "nat \<Rightarrow> nat \<Rightarrow> nat" where
  "data_pages ps sz = (if sz mod ps \<noteq> 0 then sz div ps + 1 else sz div ps)"

lemma data_pages_size:
  assumes "0 < ps"
  shows "data_pages ps sz * ps = sz + (if sz mod ps \<noteq> 0 then ps - sz mod ps else 0)"
proof -
  define q r where "q = sz div ps" and "r = sz mod ps"
  have "sz = q * ps + r" and "r < ps" using assms by (simp_all add: q_def r_def)
  then show ?thesis unfolding data_pages_def q_def [symmetric] r_def [symmetric] by simp
qed

lemma map_length_pages:
  assumes "0 < ps" and "sz + 3 * ps \<le> UINT_MAX"
  shows "map_length ps sz = (data_pages ps sz + 2) * ps"
proof -
  have d: "data_pages ps sz * ps \<le> sz + ps" using data_pages_size [OF assms(1), of sz] by simp
  have l: "data_pages ps sz \<le> data_pages ps sz * ps" using assms(1) by simp
  have "(if sz mod ps \<noteq> 0 then u32 (u32 (sz div ps + 1) * ps) else sz) = data_pages ps sz * ps"
  proof (cases "sz mod ps = 0")
    case True
    then show ?thesis using data_pages_size [OF assms(1), of sz] by simp
  next
    case False
    then have "u32 (sz div ps + 1) = data_pages ps sz" using order_trans [OF l d] assms(2) u32_id [of "data_pages ps sz"]
      unfolding data_pages_def by simp
    then show ?thesis using False d assms(2) by simp
  qed
  then show ?thesis using d assms(2) by (simp add: map_length_def algebra_simps)
qed

section \<open>The interface of the kernel\<close>

text \<open>A new mapping is aligned, not at address 0, and covers no mapped page.\<close>

locale page_mapper =
  fixes place :: "nat \<Rightarrow> vm \<Rightarrow> nat \<Rightarrow> nat option"
  assumes placed: "0 < ps \<Longrightarrow> place ps m len = Some addr \<Longrightarrow>
    addr mod ps = 0 \<and> addr \<noteq> 0 \<and> (\<forall>i \<in> set (pages_of ps addr len). prot_of m i = Unmapped)"
begin

lemma alloc_pages:
  assumes ps: "0 < ps" and sz: "sz + 3 * ps \<le> UINT_MAX"
    and free: "vsf_secbuf_free ps p0 m = Inr m1" and at: "place ps m1 (map_length ps sz) = Some addr"
  shows "\<exists>k m'. addr = k * ps \<and> k \<noteq> 0 \<and> (\<forall>i. k \<le> i \<and> i < k + data_pages ps sz + 2 \<longrightarrow> prot_of m1 i = Unmapped) \<and>
    vsf_secbuf_alloc place ps p0 sz m = Inr ((k + 1 + data_pages ps sz) * ps - sz, m') \<and>
    prot_of m' = (\<lambda>i. if i = k \<or> i = k + 1 + data_pages ps sz then ProtNone
      else if k < i \<and> i < k + 1 + data_pages ps sz then ProtWrite else prot_of m1 i) \<and>
    size_at m' (k * ps) = (data_pages ps sz + 2) * ps"
proof -
  let ?n = "data_pages ps sz"
  have len: "map_length ps sz = (?n + 2) * ps" by (rule map_length_pages [OF ps sz])
  define k where "k = addr div ps"
  have k: "addr = k * ps" "k \<noteq> 0" using placed [OF ps at] by (auto simp: k_def)
  have un: "\<forall>i. k \<le> i \<and> i < k + (?n + 2) \<longrightarrow> prot_of m1 i = Unmapped"
    using placed [OF ps at] unfolding len k(1) pages_span [OF ps] set_upt by (simp only: atLeastLessThan_iff Ball_def) blast
  define m2 where "m2 = set_pages ps (k * ps) ((?n + 2) * ps) ProtWrite m1"
  have p2: "prot_of m2 = (\<lambda>i. if k \<le> i \<and> i < k + (?n + 2) then ProtWrite else prot_of m1 i)"
    unfolding m2_def by (rule set_span [OF ps])
  have one: "pages_of ps (j * ps) ps = [j]" for j using pages_span [OF ps, of j 1] by simp
  have one': "prot_of (set_pages ps (j * ps) ps q v) = (prot_of v)(j := q)" for j q v
    using set_span [OF ps, of j 1 q v] by (auto simp: fun_eq_iff)
  have last: "k * ps + (?n + 2) * ps - ps = (k + 1 + ?n) * ps" by (simp add: algebra_simps)
  define m3 where "m3 = set_pages ps ((k + 1 + ?n) * ps) ps ProtNone m2"
  have p3: "prot_of m3 = (prot_of m2)(k + 1 + ?n := ProtNone)" unfolding m3_def by (rule one')
  have s3: "vsf_sysutil_memprotect ps ((k + 1 + ?n) * ps) ps ProtNone m2 = Inr m3"
    unfolding vsf_sysutil_memprotect_def one m3_def by (simp add: p2)
  define m4 where "m4 = set_pages ps (k * ps) ps ProtNone (m3\<lparr>size_at := (size_at m3)(k * ps := (?n + 2) * ps)\<rparr>)"
  have s4: "vsf_sysutil_memprotect ps (k * ps) ps ProtNone (m3\<lparr>size_at := (size_at m3)(k * ps := (?n + 2) * ps)\<rparr>) = Inr m4"
    unfolding vsf_sysutil_memprotect_def one m4_def by (simp add: p3 p2)
  have p4: "prot_of m4 = (prot_of m3)(k := ProtNone)" unfolding m4_def one' by simp
  have w: "prot_of m3 (k * ps div ps) = ProtWrite" using ps by (simp add: p3 p2)
  have ptr: "k * ps + ps + (if sz mod ps \<noteq> 0 then ps - sz mod ps else 0) = (k + 1 + ?n) * ps - sz"
    using data_pages_size [OF ps, of sz] by (simp add: algebra_simps)
  have "vsf_secbuf_alloc place ps p0 sz m = Inr ((k + 1 + ?n) * ps - sz, m4)"
    using at unfolding len k(1)
    by (simp only: vsf_secbuf_alloc_def free res_bind.simps Let_def len vsf_sysutil_map_anon_pages_def option.case prod.case
      m2_def [symmetric] last s3 w s4 ptr simp_thms if_False)
  moreover have "prot_of m4 = (\<lambda>i. if i = k \<or> i = k + 1 + ?n then ProtNone
      else if k < i \<and> i < k + 1 + ?n then ProtWrite else prot_of m1 i)"
    unfolding p4 p3 p2 by (auto simp: fun_eq_iff)
  moreover have "size_at m4 (k * ps) = (?n + 2) * ps" by (simp add: m4_def)
  ultimately show ?thesis using k un by (auto simp: add.assoc)
qed

end

section \<open>Buffers\<close>

text \<open>Where a buffer lies.\<close>

lemma buffer_place:
  assumes "0 < ps"
  shows "\<exists>off. (k + 1 + data_pages ps sz) * ps - sz = (k + 1) * ps + off \<and> off < ps \<and>
    (k + 1) * ps + off + sz = (k + 1 + data_pages ps sz) * ps"
proof -
  have "sz mod ps < ps" using assms by simp
  then show ?thesis using data_pages_size [OF assms, of sz]
    by (intro exI [of _ "data_pages ps sz * ps - sz"]) (auto simp: algebra_simps)
qed

lemma in_page: "off < ps \<Longrightarrow> ((k + 1) * ps + off) mod ps = off \<and> ((k + 1) * ps + off) div ps = (k :: nat) + 1"
  by (simp only: mod_mult_self3 div_mult_self3 mod_less div_less) simp

lemma free_restores:
  assumes ps: "0 < ps" and off: "off < ps" and "k \<noteq> 0"
    and "size_at m' (k * ps) = (n + 2) * ps" and "\<forall>i. k \<le> i \<and> i < k + n + 2 \<longrightarrow> prot_of m' i \<noteq> Unmapped \<and> prot_of m1 i = Unmapped"
    and same: "\<forall>i. \<not> (k \<le> i \<and> i < k + n + 2) \<longrightarrow> prot_of m' i = prot_of m1 i"
  shows "\<exists>m''. vsf_secbuf_free ps ((k + 1) * ps + off) m' = Inr m'' \<and> prot_of m'' = prot_of m1"
proof -
  let ?p = "(k + 1) * ps + off"
  have "?p mod ps = off" using in_page [OF off] by simp
  then have base: "?p - ?p mod ps - ps = k * ps" by (simp add: algebra_simps)
  have one: "pages_of ps (k * ps) ps = [k]" using pages_span [OF ps, of k 1] by simp
  define m2 where "m2 = set_pages ps (k * ps) ps ProtRead m'"
  have p2: "prot_of m2 = (prot_of m')(k := ProtRead)" using set_span [OF ps, of k 1 ProtRead m'] by (auto simp: m2_def fun_eq_iff)
  have "vsf_sysutil_memprotect ps (k * ps) ps ProtRead m' = Inr m2"
    unfolding vsf_sysutil_memprotect_def one m2_def using assms(5) by simp
  moreover have "prot_of m2 (k * ps div ps) = ProtRead" using ps by (simp add: p2)
  moreover have "vsf_sysutil_memunmap ps (k * ps) (size_at m2 (k * ps)) m2 = Inr (set_pages ps (k * ps) ((n + 2) * ps) Unmapped m2)"
    unfolding vsf_sysutil_memunmap_def using ps assms(4) by (simp add: m2_def)
  ultimately have "vsf_secbuf_free ps ?p m' = Inr (set_pages ps (k * ps) ((n + 2) * ps) Unmapped m2)"
    unfolding vsf_secbuf_free_def Let_def base using ps by simp
  moreover have "prot_of (set_pages ps (k * ps) ((n + 2) * ps) Unmapped m2) = prot_of m1"
    unfolding set_span [OF ps] p2 using assms(5) same by (auto simp: fun_eq_iff)
  ultimately show ?thesis by blast
qed

text \<open>C39: a secure buffer cannot be left. If the kernel finds a place for the mapping and the size is not within
  three pages of the largest \<^verbatim>\<open>unsigned int\<close>, \<^verbatim>\<open>vsf_secbuf_alloc\<close> returns a buffer whose bytes are all accessible, whose
  end is exactly the begin of a page without access and which has such a page in front; mappings that
  existed are unchanged, except for a former buffer, which is freed. Freeing the buffer finds its size
  again and gives the memory back as it was.\<close>

theorem secbuf_guarded:
  assumes "page_mapper place" and "0 < ps" and "sz + 3 * ps \<le> UINT_MAX"
    and "vsf_secbuf_free ps p0 m = Inr m1" and "place ps m1 (map_length ps sz) \<noteq> None"
  shows "\<exists>p m' m''. vsf_secbuf_alloc place ps p0 sz m = Inr (p, m') \<and>
    (\<forall>b. p \<le> b \<and> b < p + sz \<longrightarrow> prot_of m' (b div ps) = ProtWrite) \<and>
    (p + sz) mod ps = 0 \<and> prot_of m' ((p + sz) div ps) = ProtNone \<and> prot_of m' (p div ps - 1) = ProtNone \<and>
    (\<forall>i. prot_of m1 i \<noteq> Unmapped \<longrightarrow> prot_of m' i = prot_of m1 i) \<and>
    vsf_secbuf_free ps p m' = Inr m'' \<and> prot_of m'' = prot_of m1"
proof -
  let ?n = "data_pages ps sz"
  from assms(5) obtain addr where "place ps m1 (map_length ps sz) = Some addr" by blast
  then obtain k m' where k: "k \<noteq> 0" and un: "\<forall>i. k \<le> i \<and> i < k + ?n + 2 \<longrightarrow> prot_of m1 i = Unmapped"
    and alloc: "vsf_secbuf_alloc place ps p0 sz m = Inr ((k + 1 + ?n) * ps - sz, m')"
    and prot: "prot_of m' = (\<lambda>i. if i = k \<or> i = k + 1 + ?n then ProtNone
      else if k < i \<and> i < k + 1 + ?n then ProtWrite else prot_of m1 i)"
    and size: "size_at m' (k * ps) = (?n + 2) * ps"
    using page_mapper.alloc_pages [OF assms(1-4)] by blast
  obtain off where off: "(k + 1 + ?n) * ps - sz = (k + 1) * ps + off" "off < ps" "(k + 1) * ps + off + sz = (k + 1 + ?n) * ps"
    using buffer_place [OF assms(2)] by blast
  have inside: "prot_of m' (b div ps) = ProtWrite" if "(k + 1) * ps + off \<le> b" "b < (k + 1 + ?n) * ps" for b
  proof -
    have "k + 1 \<le> b div ps" using that(1) assms(2) by (simp add: less_eq_div_iff_mult_less_eq)
    moreover have "b div ps < k + 1 + ?n" using that(2) by (simp add: less_mult_imp_div_less)
    ultimately show ?thesis by (simp add: prot)
  qed
  have front: "((k + 1) * ps + off) div ps - 1 = k" using in_page [OF off(2)] by simp
  have "\<exists>m''. vsf_secbuf_free ps ((k + 1) * ps + off) m' = Inr m'' \<and> prot_of m'' = prot_of m1"
    by (rule free_restores [OF assms(2) off(2) k size]) (use un in \<open>auto simp: prot\<close>)
  then obtain m'' where "vsf_secbuf_free ps ((k + 1) * ps + off) m' = Inr m''" "prot_of m'' = prot_of m1" by blast
  note freed = this
  show ?thesis
  proof (intro exI conjI allI impI)
    show "vsf_secbuf_alloc place ps p0 sz m = Inr ((k + 1) * ps + off, m')" using alloc unfolding off(1) .
    show "prot_of m' (b div ps) = ProtWrite" if "(k + 1) * ps + off \<le> b \<and> b < (k + 1) * ps + off + sz" for b
      using inside that unfolding off(3) by blast
    show "((k + 1) * ps + off + sz) mod ps = 0" unfolding off(3) by simp
    show "prot_of m' (((k + 1) * ps + off + sz) div ps) = ProtNone" unfolding off(3) using assms(2) by (simp add: prot)
    show "prot_of m' (((k + 1) * ps + off) div ps - 1) = ProtNone" unfolding front by (simp add: prot)
    show "prot_of m' i = prot_of m1 i" if "prot_of m1 i \<noteq> Unmapped" for i using un that by (auto simp: prot)
  qed (rule freed)+
qed

text \<open>A kernel that takes the first free place below a limit.\<close>

definition first_fit :: "nat \<Rightarrow> nat \<Rightarrow> vm \<Rightarrow> nat \<Rightarrow> nat option" where
  "first_fit limit ps m len =
     map_option (\<lambda>k. k * ps) (find (\<lambda>k. list_all (\<lambda>i. prot_of m i = Unmapped) (pages_of ps (k * ps) len)) [1 ..< limit])"

interpretation kernel_mmap: page_mapper "first_fit limit"
  by unfold_locales (auto simp: first_fit_def find_Some_iff list_all_iff)

theorem secbuf_guarded_witness:
  "\<exists>p m' m''. vsf_secbuf_alloc (first_fit 10) 4096 0 5000 \<lparr>prot_of = (\<lambda>i. if i = 2 then ProtRead else Unmapped), size_at = (\<lambda>a. 0)\<rparr> = Inr (p, m') \<and>
     prot_of m' ((p + 5000) div 4096) = ProtNone \<and> vsf_secbuf_free 4096 p m' = Inr m'' \<and> prot_of m' 2 = ProtRead"
  using secbuf_guarded [OF kernel_mmap.page_mapper_axioms [of 10], of 4096 5000 0
      "\<lparr>prot_of = (\<lambda>i. if i = 2 then ProtRead else Unmapped), size_at = (\<lambda>a. 0)\<rparr>"
      "\<lparr>prot_of = (\<lambda>i. if i = 2 then ProtRead else Unmapped), size_at = (\<lambda>a. 0)\<rparr>"]
  by (fastforce simp: vsf_secbuf_free_def first_fit_def map_length_def u32_def pages_of_def upt_rec)

end
