(* ===== verification/Tls.thy ===== *)
theory Tls
  imports Dataio "HOL-Library.While_Combinator"
begin

text \<open>
  \<^verbatim>\<open>ssl.c\<close> without its commands (those are in \<open>Replies\<close>) and \<^verbatim>\<open>sslslave.c\<close>. After a login over TLS the process that
  spoke TLS before stays as a slave: it alone holds the keys, and the process that runs the session asks it
  to read and to write over a second socket pair. In this theory the two sides of the world are the
  session (\<open>Child\<close>, the consumer) and the slave (\<open>Parent\<close>); OpenSSL is outside. The part of
  \<^verbatim>\<open>struct vsf_session\<close> that only TLS uses is the record \<open>tls\<close>, handed from call to call; a null pointer is 0.
\<close>

section \<open>State\<close>

record tls =
  p_control_ssl :: int
  p_data_ssl :: int
  control_cert_digest :: bytes
  ssl_consumer_fd :: int
  ssl_slave_fd :: int

definition debug_line :: "env \<Rightarrow> bytes \<Rightarrow> unit act" where
  "debug_line E t = vsf_log_line E kVSFLogEntryDebug t"

text \<open>A number of type \<^verbatim>\<open>int\<close> printed by \<^verbatim>\<open>str_append_ulong\<close>.\<close>

definition int_as_ulong :: "int \<Rightarrow> bytes" where
  "int_as_ulong n = vsf_sysutil_ulong_to_str (nat (n mod 2 ^ 64))"

definition get_ssl_error :: "env \<Rightarrow> bytes act" where
  "get_ssl_error E = bnd (ask_text E (Sys ''get_ssl_error'' [] [])) (\<lambda>t. ret (cstr t))"

section \<open>Reading and writing\<close>

text \<open>A call that is repeated as long as OpenSSL wants to read or write first (errors 2 and 3); the result of the
  last call and its data. A loop that never ends is a fault.\<close>

definition ssl_retry :: "env \<Rightarrow> event \<Rightarrow> int \<Rightarrow> (int \<times> bytes) act" where
  "ssl_retry E e p_ssl = (\<lambda>w.
     case while_option
       (\<lambda>(tr, r, bs). r < 0 \<and> answers E tr (Sys ''SSL_get_error'' [] [p_ssl, r]) \<in> {2, 3})
       (\<lambda>(tr, r, bs). (tr @ [e], answers E tr e, texts E tr e))
       (trace w @ [e], answers E (trace w) e, texts E (trace w) e) of
       None \<Rightarrow> (Inl (Endless ''ssl_retry''), w)
     | Some (tr, r, bs) \<Rightarrow> (Inr (r, bs), w\<lparr>trace := tr\<rparr>))"

definition ssl_read_common :: "env \<Rightarrow> tls \<Rightarrow> int \<Rightarrow> int \<Rightarrow> string \<Rightarrow> (int \<times> bytes) act" where
  "ssl_read_common E T p_ssl len func =
     bnd (ssl_retry E (Sys func [] [p_ssl, len]) p_ssl) (\<lambda>(r, bs).
     bnd (ask E (Sys ''SSL_get_shutdown'' [] [p_ssl])) (\<lambda>shutdown.
     if r = 0 \<and> shutdown \<noteq> 2 then
       thn (debug_line E
         ((if p_ssl = p_control_ssl T then ''Control'' else ''DATA'') @ '' connection terminated without SSL shutdown.'' @
          (if p_ssl \<noteq> p_control_ssl T then '' Buggy client! Integrity of upload cannot be asserted.'' else [])))
       (ret (if tb E ''strict_ssl_read_eof'' then - 1 else 0, []))
     else ret (r, take (nat r) bs)))"

definition ssl_read :: "env \<Rightarrow> tls \<Rightarrow> int \<Rightarrow> int \<Rightarrow> (int \<times> bytes) act" where
  "ssl_read E T p_ssl len = ssl_read_common E T p_ssl len ''SSL_read''"

definition ssl_peek :: "env \<Rightarrow> tls \<Rightarrow> int \<Rightarrow> int \<Rightarrow> (int \<times> bytes) act" where
  "ssl_peek E T p_ssl len = ssl_read_common E T p_ssl len ''SSL_peek''"

definition ssl_write :: "env \<Rightarrow> int \<Rightarrow> bytes \<Rightarrow> int act" where
  "ssl_write E p_ssl p_buf = bnd (ssl_retry E (Sys ''SSL_write'' [p_buf] [p_ssl]) p_ssl) (\<lambda>(r, bs). ret r)"

definition ssl_write_str :: "env \<Rightarrow> int \<Rightarrow> bytes \<Rightarrow> int act" where
  "ssl_write_str E p_ssl p_str =
     bnd (sys E (Sys ''SSL_write'' [p_str] [p_ssl])) (\<lambda>r. ret (if r \<noteq> int (length p_str) then - 1 else 0))"

definition ssl_read_into_str :: "env \<Rightarrow> tls \<Rightarrow> int \<Rightarrow> int \<Rightarrow> (int \<times> bytes) act" where
  "ssl_read_into_str E T p_ssl len =
     bnd (ssl_read E T p_ssl len) (\<lambda>(r, bs). ret (r, if r \<ge> 0 then bs else []))"

section \<open>Data connections\<close>

definition maybe_log_shutdown_state :: "env \<Rightarrow> tls \<Rightarrow> unit act" where
  "maybe_log_shutdown_state E T =
     doif (tb E ''debug_ssl'')
       (bnd (ask E (Sys ''SSL_get_shutdown'' [] [p_data_ssl T])) (\<lambda>r.
        debug_line E (''SSL shutdown state is: '' @
          (if r = 0 then ''NONE'' else if r = 1 then ''SSL_SENT_SHUTDOWN''
           else if r = 2 then ''SSL_RECEIVED_SHUTDOWN'' else int_as_ulong r))))"

definition maybe_log_ssl_error_state :: "env \<Rightarrow> int \<Rightarrow> unit act" where
  "maybe_log_ssl_error_state E r =
     doif (tb E ''debug_ssl'')
       (bnd (get_ssl_error E) (\<lambda>err. bnd (ask E (Sys ''errno'' [] [])) (\<lambda>errno.
        debug_line E (''SSL ret: '' @ int_as_ulong r @ '', SSL error: '' @ err @ '', errno: '' @ int_as_ulong errno))))"

text \<open>Whether the connection was shut down as well as the settings ask for.\<close>

definition shutdown_data :: "env \<Rightarrow> tls \<Rightarrow> bool act" where
  "shutdown_data E T =
     (let p_ssl = p_data_ssl T; failed = (\<lambda>r. thn (maybe_log_ssl_error_state E r) (ret (\<not> tb E ''strict_ssl_write_shutdown''))) in
      thn (maybe_log_shutdown_state E T)
      (thn (emit (Sys ''vsf_sysutil_set_nodelay'' [] [p_ssl]))
      (bnd (sys E (Sys ''SSL_shutdown'' [] [p_ssl])) (\<lambda>r.
       thn (maybe_log_shutdown_state E T)
       (if r = 0 then
          bnd (sys E (Sys ''SSL_shutdown'' [] [p_ssl])) (\<lambda>r2.
          thn (maybe_log_shutdown_state E T)
          (if r2 \<noteq> 1 then thn (maybe_log_shutdown_state E T) (failed r2) else ret True))
        else if r < 0 then failed r
        else ret True)))))"

definition ssl_data_close :: "env \<Rightarrow> tls \<Rightarrow> (int \<times> tls) act" where
  "ssl_data_close E T =
     (if p_data_ssl T = 0 then ret (1, T)
      else bnd (shutdown_data E T) (\<lambda>success.
        thn (emit (Sys ''SSL_free'' [] [p_data_ssl T]))
        (ret (if success then 1 else 0, T\<lparr>p_data_ssl := 0\<rparr>))))"

text \<open>The line about a new connection; the certificate is released.\<close>

definition describe_ssl :: "env \<Rightarrow> int \<Rightarrow> unit act" where
  "describe_ssl E p_ssl =
     bnd (ask_text E (Sys ''SSL_get_cipher_version'' [] [p_ssl])) (\<lambda>version.
     bnd (ask_text E (Sys ''SSL_CIPHER_get_name'' [] [p_ssl])) (\<lambda>name.
     bnd (ask E (Sys ''SSL_get_peer_certificate'' [] [p_ssl])) (\<lambda>cert.
     bnd (ask E (Sys ''SSL_session_reused'' [] [p_ssl])) (\<lambda>reused.
     debug_line E (''SSL version: '' @ cstr version @ '', SSL cipher: '' @ cstr name @
       (if reused \<noteq> 0 then '', reused'' else '', not reused'') @
       (if cert \<noteq> 0 then '', CERT PRESENTED'' else '', no cert''))))))"

definition get_ssl :: "env \<Rightarrow> int \<Rightarrow> int act" where
  "get_ssl E fd =
     bnd (sys E (Sys ''SSL_new'' [] [])) (\<lambda>p_ssl.
     if p_ssl = 0 then thn (doif (tb E ''debug_ssl'') (debug_line E ''SSL_new failed'')) (ret 0)
     else
       bnd (sys E (Sys ''SSL_set_fd'' [] [p_ssl, fd])) (\<lambda>r.
       if r = 0 then
         thn (doif (tb E ''debug_ssl'') (debug_line E ''SSL_set_fd failed''))
         (thn (emit (Sys ''SSL_free'' [] [p_ssl])) (ret 0))
       else
         bnd (sys E (Sys ''SSL_accept'' [] [p_ssl])) (\<lambda>r.
         if r \<noteq> 1 then
           bnd (get_ssl_error E) (\<lambda>p_err.
           thn (doif (tb E ''debug_ssl'') (debug_line E (''SSL_accept failed: '' @ p_err))) (lift (die p_err)))
         else thn (doif (tb E ''debug_ssl'') (describe_ssl E p_ssl)) (ret p_ssl))))"

text \<open>The digest of the client's certificate, if it presented one.\<close>

definition ssl_cert_digest :: "env \<Rightarrow> int \<Rightarrow> bytes option act" where
  "ssl_cert_digest E p_ssl =
     bnd (ask E (Sys ''SSL_get_peer_certificate'' [] [p_ssl])) (\<lambda>p_cert.
     if p_cert = 0 then ret None
     else
       bnd (ask_text E (Sys ''X509_digest'' [] [p_ssl])) (\<lambda>digest.
       bnd (sys E (Sys ''X509_digest'' [] [p_ssl])) (\<lambda>r.
       if r = 0 then lift (die ''X509_digest failed'')
       else
         thn (doif (tb E ''debug_ssl'')
           (debug_line E (''Cert digest:'' @ concat (map (\<lambda>c. '' '' @ vsf_sysutil_ulong_to_str (code c)) digest))))
         (ret (Some digest)))))"

definition setup_bio_callbacks :: "int \<Rightarrow> unit act" where
  "setup_bio_callbacks p_ssl = steps
     [emit (Sys ''BIO_set_callback'' [''rbio''] [p_ssl]), emit (Sys ''BIO_set_callback'' [''wbio''] [p_ssl])]"

definition ssl_session_init :: "env \<Rightarrow> tls \<Rightarrow> (int \<times> tls) act" where
  "ssl_session_init E T =
     bnd (get_ssl E 0) (\<lambda>p_ssl.
     if p_ssl = 0 then ret (0, T)
     else
       bnd (ssl_cert_digest E p_ssl) (\<lambda>d.
       thn (setup_bio_callbacks p_ssl)
       (ret (1, T\<lparr>p_control_ssl := p_ssl,
          control_cert_digest := (case d of None \<Rightarrow> control_cert_digest T | Some digest \<Rightarrow> digest)\<rparr>))))"

definition refuse_data :: "env \<Rightarrow> tls \<Rightarrow> bytes \<Rightarrow> (int \<times> tls) act" where
  "refuse_data E T reason =
     thn (debug_line E reason) (bnd (ssl_data_close E T) (\<lambda>(r, T'). ret (0, T')))"

definition check_data_cert :: "env \<Rightarrow> tls \<Rightarrow> (int \<times> tls) act" where
  "check_data_cert E T =
     (if control_cert_digest T = [] then ret (1, T)
      else bnd (ssl_cert_digest E (p_data_ssl T)) (\<lambda>d.
        case d of
          None \<Rightarrow> refuse_data E T ''Missing cert on data channel.''
        | Some digest \<Rightarrow>
            if str_strcmp (control_cert_digest T) digest \<noteq> 0 then refuse_data E T ''DIFFERENT cert on data channel.''
            else thn (doif (tb E ''debug_ssl'') (debug_line E ''Matching cert on data channel.'')) (ret (1, T))))"

definition ssl_accept :: "env \<Rightarrow> tls \<Rightarrow> int \<Rightarrow> (int \<times> tls) act" where
  "ssl_accept E T fd =
     (if p_data_ssl T \<noteq> 0 then lift (die ''p_data_ssl should be NULL.'')
      else
        bnd (get_ssl E fd) (\<lambda>p_ssl.
        if p_ssl = 0 then ret (0, T)
        else let T' = T\<lparr>p_data_ssl := p_ssl\<rparr> in
          thn (setup_bio_callbacks p_ssl)
          (bnd (ask E (Sys ''SSL_session_reused'' [] [p_ssl])) (\<lambda>reused.
           if tb E ''require_ssl_reuse'' \<and> reused = 0
           then refuse_data E T' ''No SSL session reuse on data channel.''
           else check_data_cert E T'))))"

definition ssl_verify_callback :: "env \<Rightarrow> int \<Rightarrow> int" where
  "ssl_verify_callback E verify_ok = (if tb E ''validate_cert'' then verify_ok else 1)"

definition ssl_add_entropy :: "env \<Rightarrow> unit act" where
  "ssl_add_entropy E =
     bnd (sys E (Sys ''RAND_load_file'' [''/dev/urandom''] [16])) (\<lambda>r.
     doif (r \<noteq> 16) (debug_line E (''Couldn'' @ [CHR 0x27] @ ''t add extra OpenSSL entropy: '' @ int_as_ulong r)))"

section \<open>The second socket pair\<close>

definition ssl_comm_channel_init :: "tls \<Rightarrow> int \<times> int \<Rightarrow> tls res" where
  "ssl_comm_channel_init T sockets =
     (if ssl_consumer_fd T \<noteq> - 1 then bug ''ssl_consumer_fd active''
      else if ssl_slave_fd T \<noteq> - 1 then bug ''ssl_slave_fd active''
      else Inr (T\<lparr>ssl_consumer_fd := fst sockets, ssl_slave_fd := snd sockets\<rparr>))"

definition ssl_comm_channel_set_consumer_context :: "env \<Rightarrow> tls \<Rightarrow> tls act" where
  "ssl_comm_channel_set_consumer_context E T =
     (if ssl_slave_fd T = - 1 then lift (bug ''ssl_slave_fd already closed'')
      else thn (vsf_sysutil_close E (ssl_slave_fd T)) (ret (T\<lparr>ssl_slave_fd := - 1\<rparr>)))"

definition ssl_comm_channel_set_producer_context :: "env \<Rightarrow> tls \<Rightarrow> tls act" where
  "ssl_comm_channel_set_producer_context E T =
     (if ssl_consumer_fd T = - 1 then lift (bug ''ssl_consumer_fd already closed'')
      else thn (vsf_sysutil_close E (ssl_consumer_fd T)) (ret (T\<lparr>ssl_consumer_fd := - 1\<rparr>)))"

section \<open>The slave\<close>

definition PRIV_SOCK_GET_USER_CMD :: nat where "PRIV_SOCK_GET_USER_CMD = 4"
definition PRIV_SOCK_WRITE_USER_RESP :: nat where "PRIV_SOCK_WRITE_USER_RESP = 5"
definition PRIV_SOCK_DO_SSL_HANDSHAKE :: nat where "PRIV_SOCK_DO_SSL_HANDSHAKE = 6"
definition PRIV_SOCK_DO_SSL_CLOSE :: nat where "PRIV_SOCK_DO_SSL_CLOSE = 7"
definition PRIV_SOCK_DO_SSL_READ :: nat where "PRIV_SOCK_DO_SSL_READ = 8"
definition PRIV_SOCK_DO_SSL_WRITE :: nat where "PRIV_SOCK_DO_SSL_WRITE = 9"

lemmas slave_codes = PRIV_SOCK_GET_USER_CMD_def PRIV_SOCK_WRITE_USER_RESP_def PRIV_SOCK_DO_SSL_HANDSHAKE_def
  PRIV_SOCK_DO_SSL_CLOSE_def PRIV_SOCK_DO_SSL_READ_def PRIV_SOCK_DO_SSL_WRITE_def PRIV_SOCK_RESULT_OK_def PRIV_SOCK_RESULT_BAD_def

definition ssl_slave_start :: "env \<Rightarrow> unit act" where
  "ssl_slave_start E = steps
     [emit (Sys ''vsf_sysutil_clear_alarm'' [] []),
      emit (Sys ''priv_sock_set_parent_context'' [] []),
      doif (tb E ''setproctitle_enable'') (emit (Sys ''setproctitle'' [''SSL handler''] []))]"

text \<open>What the slave does for each request, without the messages.\<close>

definition slave_getline :: "(int \<times> bytes) act" where
  "slave_getline =
     bnd ftp_getline (\<lambda>(r, line). thn (upd (ftp_cmd_str_update (\<lambda>_. line))) (ret (r, line)))"

definition slave_respond :: "env \<Rightarrow> bytes \<Rightarrow> int act" where
  "slave_respond E p_str =
     thn (upd (ftp_cmd_str_update (\<lambda>_. p_str))) (ftp_write_str E p_str kVSFRWControl)"

definition slave_handshake :: "env \<Rightarrow> tls \<Rightarrow> int \<Rightarrow> (bool \<times> tls) act" where
  "slave_handshake E T fd =
     thn (upd (data_fd_update (\<lambda>_. fd)))
     (bnd (ssl_accept E T fd) (\<lambda>(r, T').
      if r = 1 then ret (True, T')
      else thn (vsf_sysutil_close E fd) (thn (upd (data_fd_update (\<lambda>_. - 1))) (ret (False, T')))))"

text \<open>Both of \<^verbatim>\<open>data_fd\<close> and \<^verbatim>\<open>p_data_ssl\<close> are set.\<close>

definition in_transfer :: "tls \<Rightarrow> vsf_session \<Rightarrow> bool" where
  "in_transfer T s \<longleftrightarrow> data_fd s \<noteq> - 1 \<and> p_data_ssl T \<noteq> 0"

definition slave_close :: "env \<Rightarrow> tls \<Rightarrow> (bool \<times> tls) act" where
  "slave_close E T =
     bnd (gets data_fd) (\<lambda>fd.
     if fd = - 1 \<and> p_data_ssl T = 0 then ret (True, T)
     else if fd = - 1 \<or> p_data_ssl T = 0 then lift (bug ''invalid state'')
     else
       bnd (ssl_data_close E T) (\<lambda>(r, T').
       thn (vsf_sysutil_close E fd) (thn (upd (data_fd_update (\<lambda>_. - 1))) (ret (r = 1, T')))))"

text \<open>One round of the loop.\<close>

definition result_code :: "bool \<Rightarrow> nat" where
  "result_code b = (if b then PRIV_SOCK_RESULT_OK else PRIV_SOCK_RESULT_BAD)"

definition ssl_slave_req :: "env \<Rightarrow> tls \<Rightarrow> tls act" where
  "ssl_slave_req E T =
     bnd (priv_sock_get_cmd Parent) (\<lambda>cmd.
     if cmd = PRIV_SOCK_GET_USER_CMD then
       bnd slave_getline (\<lambda>(r, line).
       thn (priv_sock_send_int E Parent r)
       (thn (doif (r \<ge> 0) (priv_sock_send_str E Parent line)) (ret T)))
     else if cmd = PRIV_SOCK_WRITE_USER_RESP then
       bnd (priv_sock_get_str Parent) (\<lambda>p_str.
       bnd (slave_respond E p_str) (\<lambda>r. thn (priv_sock_send_int E Parent r) (ret T)))
     else if cmd = PRIV_SOCK_DO_SSL_HANDSHAKE then
       bnd (gets data_fd) (\<lambda>fd0.
       if fd0 \<noteq> - 1 \<or> p_data_ssl T \<noteq> 0 then lift (bug ''state not clean'')
       else
         bnd (priv_sock_recv_fd Parent) (\<lambda>fd.
         bnd (slave_handshake E T fd) (\<lambda>(ok, T').
         thn (priv_sock_send_result E Parent (result_code ok)) (ret T'))))
     else if cmd = PRIV_SOCK_DO_SSL_READ then
       bnd (priv_sock_get_int Parent) (\<lambda>sz.
       if sz \<le> 0 \<or> sz > int VSFTP_DATA_BUFSIZE then lift (bug ''bad size'')
       else
         bnd (gets (in_transfer T)) (\<lambda>ok.
         if \<not> ok then lift (bug ''invalid state'')
         else
           bnd (ssl_read_into_str E T (p_data_ssl T) sz) (\<lambda>(r, data_str).
           thn (priv_sock_send_int E Parent r) (thn (priv_sock_send_str E Parent data_str) (ret T)))))
     else if cmd = PRIV_SOCK_DO_SSL_WRITE then
       bnd (gets (in_transfer T)) (\<lambda>ok.
       if \<not> ok then lift (bug ''invalid state'')
       else
         bnd (priv_sock_get_str Parent) (\<lambda>data_str.
         bnd (ssl_write E (p_data_ssl T) data_str) (\<lambda>r. thn (priv_sock_send_int E Parent r) (ret T))))
     else if cmd = PRIV_SOCK_DO_SSL_CLOSE then
       bnd (slave_close E T) (\<lambda>(ok, T'). thn (priv_sock_send_result E Parent (result_code ok)) (ret T'))
     else lift (die ''bad request in process_ssl_slave_req''))"

section \<open>The consumer\<close>

text \<open>The session waits for the first byte of the answer while the slave handles the request.\<close>

definition await_slave :: "env \<Rightarrow> tls \<Rightarrow> tls act" where
  "await_slave E T = on_parent (ssl_slave_req E T)"

definition ask_getline :: "env \<Rightarrow> tls \<Rightarrow> ((int \<times> bytes) \<times> tls) act" where
  "ask_getline E T =
     thn (priv_sock_send_cmd E Child PRIV_SOCK_GET_USER_CMD)
     (bnd (await_slave E T) (\<lambda>T'.
      bnd (priv_sock_get_int Child) (\<lambda>r.
      if r \<ge> 0 then bnd (priv_sock_get_str Child) (\<lambda>line. ret ((r, line), T')) else ret ((r, []), T'))))"

definition ask_respond :: "env \<Rightarrow> tls \<Rightarrow> bytes \<Rightarrow> (int \<times> tls) act" where
  "ask_respond E T p_str =
     thn (priv_sock_send_cmd E Child PRIV_SOCK_WRITE_USER_RESP)
     (thn (priv_sock_send_str E Child p_str)
     (bnd (await_slave E T) (\<lambda>T'. bnd (priv_sock_get_int Child) (\<lambda>r. ret (r, T')))))"

definition ask_handshake :: "env \<Rightarrow> tls \<Rightarrow> (bool \<times> tls) act" where
  "ask_handshake E T =
     bnd (gets data_fd) (\<lambda>fd.
     thn (priv_sock_send_cmd E Child PRIV_SOCK_DO_SSL_HANDSHAKE)
     (thn (priv_sock_send_fd E Child fd)
     (bnd (await_slave E T) (\<lambda>T'.
      bnd (priv_sock_get_result Child) (\<lambda>res. ret (res = PRIV_SOCK_RESULT_OK, T'))))))"

definition ask_read :: "env \<Rightarrow> tls \<Rightarrow> nat \<Rightarrow> ((int \<times> bytes) \<times> tls) act" where
  "ask_read E T len =
     thn (priv_sock_send_cmd E Child PRIV_SOCK_DO_SSL_READ)
     (thn (priv_sock_send_int E Child (int len))
     (bnd (await_slave E T) (\<lambda>T'.
      bnd (priv_sock_get_int Child) (\<lambda>r.
      bnd (priv_sock_recv_buf Child len) (\<lambda>p_buf. thn (check_pending E r) (ret ((r, p_buf), T')))))))"

definition ask_write :: "env \<Rightarrow> tls \<Rightarrow> bytes \<Rightarrow> (int \<times> tls) act" where
  "ask_write E T p_buf =
     thn (priv_sock_send_cmd E Child PRIV_SOCK_DO_SSL_WRITE)
     (thn (priv_sock_send_buf E Child p_buf)
     (bnd (await_slave E T) (\<lambda>T'.
      bnd (priv_sock_get_int Child) (\<lambda>r. thn (check_pending E r) (ret (r, T'))))))"

definition ask_write_str :: "env \<Rightarrow> tls \<Rightarrow> bytes \<Rightarrow> (int \<times> tls) act" where
  "ask_write_str E T p_str =
     thn (priv_sock_send_cmd E Child PRIV_SOCK_DO_SSL_WRITE)
     (thn (priv_sock_send_str E Child p_str)
     (bnd (await_slave E T) (\<lambda>T'.
      bnd (priv_sock_get_int Child) (\<lambda>written.
      ret (if written > 0 \<and> written = int (length p_str) then 0 else - 1, T')))))"

definition ask_close :: "env \<Rightarrow> tls \<Rightarrow> (bool \<times> tls) act" where
  "ask_close E T =
     thn (priv_sock_send_cmd E Child PRIV_SOCK_DO_SSL_CLOSE)
     (bnd (await_slave E T) (\<lambda>T'.
      bnd (priv_sock_get_result Child) (\<lambda>res. ret (res = PRIV_SOCK_RESULT_OK, T'))))"

end
