(* ===== verification/Slave.thy ===== *)
theory Slave
  imports Tls Launch
begin

text \<open>
  Properties of TLS: what a data connection must show before it is used, what an end of file without a
  shutdown means, that the requests to the slave act as direct calls, and that the slave never reaches
  one of its assertions.
\<close>

section \<open>Calls to OpenSSL\<close>

text \<open>The C library's \<^verbatim>\<open>int\<close>, and reads that return what they say, at most as much as asked for.\<close>

definition int_answers :: "env \<Rightarrow> bool" where
  "int_answers E \<longleftrightarrow> (\<forall>tr e. - 2147483648 \<le> answers E tr e \<and> answers E tr e \<le> 2147483647)"

definition ssl_reads :: "env \<Rightarrow> bool" where
  "ssl_reads E \<longleftrightarrow> (\<forall>tr p n. 0 < n \<longrightarrow> answers E tr (Sys ''SSL_read'' [] [p, n]) \<le> n \<and>
     answers E tr (Sys ''SSL_read'' [] [p, n]) \<le> int (length (texts E tr (Sys ''SSL_read'' [] [p, n]))))"

lemma retry_result:
  assumes "ssl_retry E e p w = (Inr (r, bs), w')"
  shows "\<exists>tr. r = answers E tr e \<and> bs = texts E tr e"
proof -
  let ?I = "\<lambda>(t :: event list, r, bs). \<exists>tr. r = answers E tr e \<and> bs = texts E tr e"
  from assms obtain tr where "while_option
       (\<lambda>(tr, r, bs). r < 0 \<and> answers E tr (Sys ''SSL_get_error'' [] [p, r]) \<in> {2, 3})
       (\<lambda>(tr, r, bs). (tr @ [e], answers E tr e, texts E tr e))
       (trace w @ [e], answers E (trace w) e, texts E (trace w) e) = Some (tr, r, bs)"
    by (auto simp: ssl_retry_def split: option.splits)
  from while_option_rule [where P = ?I, OF _ this] show ?thesis by auto
qed

lemma retry_world: "ssl_retry E e p w = (r, w') \<Longrightarrow> \<exists>es. w' = w\<lparr>trace := es\<rparr>"
  by (auto simp: ssl_retry_def split: option.splits intro: exI [of _ "trace w"])

lemma faults_retry [faults_intros]: "F (Endless ''ssl_retry'') \<Longrightarrow> faults F (ssl_retry E e p)"
  by (auto simp: faults_def ssl_retry_def split: option.splits)

lemma retry_returns:
  assumes "answers E (trace w) e \<ge> 0"
  shows "ssl_retry E e p w = (Inr (answers E (trace w) e, texts E (trace w) e), w\<lparr>trace := trace w @ [e]\<rparr>)"
  using assms by (subst ssl_retry_def, subst while_option_unfold) simp

context outside
begin

lemma keeps_retry [keeps_intros]: "keeps I (ssl_retry E e p)"
  unfolding keeps_def using retry_world trace_free by (metis prod.collapse)

lemma keeps_debug [keeps_intros]: "keeps I (debug_line E t)"
  unfolding debug_line_def by (rule keeps_talking [OF talks_log_line]) simp

lemma keeps_ssl_io [keeps_intros]:
  "keeps I (ssl_read_common E T p n f)" "keeps I (ssl_read E T p n)" "keeps I (ssl_write E p b)" "keeps I (ssl_read_into_str E T p n)"
  "keeps I (get_ssl_error E)"
  unfolding ssl_read_into_str_def ssl_read_def ssl_read_common_def ssl_write_def get_ssl_error_def
  by (intro keeps_intros)+

lemma keeps_ssl_close [keeps_intros]: "keeps I (ssl_data_close E T)"
  unfolding ssl_data_close_def shutdown_data_def maybe_log_shutdown_state_def maybe_log_ssl_error_state_def Let_def
  by (intro keeps_intros)

lemma keeps_ssl_accept [keeps_intros]: "keeps I (ssl_accept E T fd)"
  unfolding ssl_accept_def get_ssl_def describe_ssl_def setup_bio_callbacks_def refuse_data_def check_data_cert_def
    ssl_cert_digest_def Let_def
  by (intro keeps_intros)

lemma keeps_slave [keeps_intros]:
  "keeps I (slave_handshake E T fd)" "keeps I (slave_close E T)" "keeps I (slave_respond E s)"
  unfolding slave_handshake_def slave_close_def slave_respond_def ftp_write_str_def str_netfd_write_def
  by (intro keeps_intros)+

end

section \<open>Messages\<close>

lemma sends:
  assumes "channel_ok E"
  shows "priv_sock_send_str E Parent p w = (Inr (), w\<lparr>down := down w @ map Byte (enc32 (word_of_nat (length p))) @ map Byte p\<rparr>)"
    and "priv_sock_send_buf E Child p w = (Inr (), w\<lparr>up := up w @ map Byte (enc32 (word_of_nat (length p))) @ map Byte p\<rparr>)"
  using assms by (auto simp: priv_sock_send_str_def priv_sock_send_buf_def channel_sends thn_def bnd_def doif_def ask_def
      put_items_def sock_write_def channel_ok_def ret_def linorder_not_le [symmetric] linorder_not_less)

lemma gets_end:
  assumes "length p \<le> VSFTP_PRIVSOCK_MAXSTR"
  shows "priv_sock_get_str Parent (w\<lparr>up := map Byte (enc32 (word_of_nat (length p))) @ map Byte p\<rparr>) = (Inr p, w\<lparr>up := []\<rparr>)"
    and "priv_sock_get_str Child (w\<lparr>down := map Byte (enc32 (word_of_nat (length p))) @ map Byte p\<rparr>) = (Inr p, w\<lparr>down := []\<rparr>)"
    and "length p \<le> n \<Longrightarrow>
      priv_sock_recv_buf Child n (w\<lparr>down := map Byte (enc32 (word_of_nat (length p))) @ map Byte p\<rparr>) = (Inr p, w\<lparr>down := []\<rparr>)"
proof -
  have n: "unat (word_of_nat (length p) :: 32 word) = length p"
    using assms by (simp add: VSFTP_PRIVSOCK_MAXSTR_def unat_of_nat)
  have tk: "take_bytes (length p) (map Byte p) = Some (p, [])" using take_bytes_append [of p "[]"] by simp
  have gi: "priv_sock_get_int Child (w\<lparr>down := map Byte (enc32 v) @ r\<rparr>) = (Inr (sint v), w\<lparr>down := r\<rparr>)" for v r
    by (simp add: priv_sock_get_int_def sock_read_def bnd_def ret_def)
  show "priv_sock_get_str Parent (w\<lparr>up := map Byte (enc32 (word_of_nat (length p))) @ map Byte p\<rparr>) = (Inr p, w\<lparr>up := []\<rparr>)"
    using get_str [OF assms, where w = w and r = "[]"] by simp
  show "priv_sock_get_str Child (w\<lparr>down := map Byte (enc32 (word_of_nat (length p))) @ map Byte p\<rparr>) = (Inr p, w\<lparr>down := []\<rparr>)"
    using assms tk by (cases "p = []") (simp_all add: priv_sock_get_str_def gi channel_gets bnd_def Let_def n sock_read_def ret_def)
  show "length p \<le> n \<Longrightarrow>
      priv_sock_recv_buf Child n (w\<lparr>down := map Byte (enc32 (word_of_nat (length p))) @ map Byte p\<rparr>) = (Inr p, w\<lparr>down := []\<rparr>)"
    using tk by (cases "p = []") (simp_all add: priv_sock_recv_buf_def gi channel_gets bnd_def Let_def n sock_read_def ret_def)
qed

lemma get_int_rest:
  "priv_sock_get_int Child (w\<lparr>down := map Byte (enc32 v) @ r\<rparr>) = (Inr (sint v), w\<lparr>down := r\<rparr>)"
  by (simp add: priv_sock_get_int_def sock_read_def bnd_def ret_def)

lemma int_wire: "- 2147483648 \<le> r \<Longrightarrow> r \<le> 2147483647 \<Longrightarrow> sint (word_of_int r :: 32 word) = r"
  by transfer (simp add: signed_take_bit_int_eq_self)

lemma get_result: "priv_sock_get_result Child (w\<lparr>down := [Byte (char_of (result_code ok))]\<rparr>) =
    (Inr (result_code ok), w\<lparr>down := []\<rparr>)" "result_code ok = Suc 0 \<longleftrightarrow> ok"
  by (simp_all add: channel_gets result_code_def slave_codes)

lemmas slave_run = channel_sends channel_gets sends gets_end get_int_rest send_str get_result bnd_def thn_def ret_def on_parent_def
  await_slave_def ssl_slave_req_def slave_codes idle_id idleD gets_def lift_def

section \<open>Requests act as direct calls\<close>

lemma ask_close_agrees:
  assumes "channel_ok E" and "idle w"
  shows "agrees (ask_close E T w) (on_parent (slave_close E T) w)"
proof -
  have "keeps idle (slave_close E T)" "idle (swap w)" using assms(2) by (auto intro: keeps_intros)
  then show ?thesis
    by (cases rule: privop_cases)
      (use assms in \<open>simp_all add: agrees_def ask_close_def slave_run split: prod.splits\<close>)
qed

lemma ask_handshake_agrees:
  assumes "channel_ok E" and "idle w" and "data_fd (parent w) = - 1" and "p_data_ssl T = 0"
  shows "agrees (ask_handshake E T w) (on_parent (slave_handshake E T (data_fd (sess w))) w)"
proof -
  have "keeps idle (slave_handshake E T (data_fd (sess w)))" "idle (swap w)" using assms(2) by (auto intro: keeps_intros)
  then show ?thesis
    by (cases rule: privop_cases)
      (use assms in \<open>simp_all add: agrees_def ask_handshake_def slave_run split: prod.splits\<close>)
qed

lemma write_range:
  assumes "int_answers E"
  shows "ssl_write E p b w = (Inr r, w') \<Longrightarrow> sint (word_of_int r :: 32 word) = r"
    and "slave_respond E s w = (Inr r, w') \<Longrightarrow> sint (word_of_int r :: 32 word) = r"
proof -
  have rng: "sint (word_of_int (answers E tr e) :: 32 word) = answers E tr e" for tr e
    using assms by (intro int_wire) (simp_all add: int_answers_def)
  show "sint (word_of_int r :: 32 word) = r" if "ssl_write E p b w = (Inr r, w')"
    using that rng by (auto simp: ssl_write_def bnd_def ret_def split: prod.splits sum.splits dest!: retry_result)
  show "sint (word_of_int r :: 32 word) = r" if "slave_respond E s w = (Inr r, w')"
    using that by (auto simp: slave_respond_def ftp_write_str_def str_netfd_write_def act_defs rng bug_def split: if_splits)
qed

lemma ask_respond_agrees:
  assumes "channel_ok E" and "idle w" and "int_answers E" and "length s \<le> VSFTP_PRIVSOCK_MAXSTR"
  shows "agrees (ask_respond E T s w) (on_parent (bnd (slave_respond E s) (\<lambda>r. ret (r, T))) w)"
proof -
  have "keeps idle (slave_respond E s)" "idle (swap w)" using assms(2) by (auto intro: keeps_intros)
  then show ?thesis
    by (cases rule: privop_cases)
      (use assms in \<open>simp_all add: agrees_def ask_respond_def slave_run write_range(2)\<close>)
qed

lemma ask_write_agrees:
  assumes "channel_ok E" and "idle w" and "int_answers E" and "length b \<le> VSFTP_PRIVSOCK_MAXSTR" and "in_transfer T (parent w)"
  shows "agrees (ask_write E T b w)
      (bnd (on_parent (ssl_write E (p_data_ssl T) b)) (\<lambda>r. thn (check_pending E r) (ret (r, T))) w)"
    and "agrees (ask_write_str E T b w)
      (bnd (on_parent (ssl_write E (p_data_ssl T) b)) (\<lambda>r. ret (if r > 0 \<and> r = int (length b) then 0 else - 1, T)) w)"
proof -
  have k: "keeps idle (ssl_write E (p_data_ssl T) b)" "idle (swap w)" using assms(2) by (auto intro: keeps_intros)
  show "agrees (ask_write E T b w)
      (bnd (on_parent (ssl_write E (p_data_ssl T) b)) (\<lambda>r. thn (check_pending E r) (ret (r, T))) w)"
    using k by (cases rule: privop_cases)
      (use assms in \<open>simp_all add: agrees_def ask_write_def slave_run write_range(1)\<close>)
  show "agrees (ask_write_str E T b w)
      (bnd (on_parent (ssl_write E (p_data_ssl T) b)) (\<lambda>r. ret (if r > 0 \<and> r = int (length b) then 0 else - 1, T)) w)"
    using k by (cases rule: privop_cases)
      (use assms in \<open>simp_all add: agrees_def ask_write_str_def slave_run write_range(1)\<close>)
qed

lemma read_range:
  assumes "int_answers E" and "ssl_reads E" and "0 < n" and "ssl_read_into_str E T p (int n) w = (Inr (r, bs), w')"
  shows "sint (word_of_int r :: 32 word) = r \<and> length bs \<le> n"
proof -
  obtain r0 b0 v where "ssl_retry E (Sys ''SSL_read'' [] [p, int n]) p w = (Inr (r0, b0), v)"
    using assms(4) by (auto simp: ssl_read_into_str_def ssl_read_def ssl_read_common_def bnd_def split: prod.splits sum.splits)
  moreover from retry_result [OF this] obtain tr where "r0 = answers E tr (Sys ''SSL_read'' [] [p, int n])" by blast
  then have "- 2147483648 \<le> r0" "r0 \<le> 2147483647" "r0 \<le> int n"
    using assms(1-3) by (auto simp: int_answers_def ssl_reads_def)
  ultimately show ?thesis
    using assms(4) int_wire [of r0]
    by (auto simp: ssl_read_into_str_def ssl_read_def ssl_read_common_def bnd_def thn_def ret_def ask_def
        split: prod.splits sum.splits if_splits)
qed

lemma ask_read_agrees:
  assumes "channel_ok E" and "idle w" and "int_answers E" and "ssl_reads E" and "0 < n" and "n \<le> VSFTP_DATA_BUFSIZE"
    and "in_transfer T (parent w)"
  shows "agrees (ask_read E T n w)
    (bnd (on_parent (ssl_read_into_str E T (p_data_ssl T) (int n))) (\<lambda>(r, bs). thn (check_pending E r) (ret ((r, bs), T))) w)"
proof -
  have nw: "sint (word_of_nat n :: 32 word) = int n" using assms(6) int_wire [of "int n"] by (simp add: VSFTP_DATA_BUFSIZE_def)
  have small: "k \<le> n \<Longrightarrow> k \<le> VSFTP_PRIVSOCK_MAXSTR" for k using assms(6) by (simp add: VSFTP_DATA_BUFSIZE_def VSFTP_PRIVSOCK_MAXSTR_def)
  have "keeps idle (ssl_read_into_str E T (p_data_ssl T) (int n))" "idle (swap w)" using assms(2) by (auto intro: keeps_intros)
  then show ?thesis
  proof (cases rule: privop_cases)
    case (fault f w1)
    then show ?thesis using assms by (simp add: agrees_def ask_read_def slave_run nw)
  next
    case (returns a w1)
    obtain r bs where a: "a = (r, bs)" by fastforce
    then have "sint (word_of_int r :: 32 word) = r" "length bs \<le> n"
      using read_range [OF assms(3-5)] returns(1) by blast+
    then show ?thesis using assms returns a small by (simp add: agrees_def ask_read_def slave_run nw)
  qed
qed

lemma netfd_bounds:
  "netfd_loop tm n buf left sc inc = Inr (r, line, sc', inc') \<Longrightarrow> length buf + left = n \<Longrightarrow>
    - 1 \<le> r \<and> r \<le> int n \<and> length line \<le> n"
proof (induction tm n buf left sc inc rule: netfd_loop.induct)
  case (1 tm n buf left sc inc)
  obtain x ss where ws: "(case sc of [] \<Rightarrow> (Sees left, []) | s # ss \<Rightarrow> (s, ss)) = (x, ss)" by fastforce
  note run = "1.prems"(1) [unfolded netfd_loop.simps [of tm n buf left sc inc] ws Let_def prod.case]
  show ?case
  proof (cases "left = 0 \<or> (\<forall>k. x \<noteq> Sees k)")
    case True
    then show ?thesis using run "1.prems"(2) by (cases x) (auto simp: die_def bug_def split: if_splits)
  next
    case False
    then obtain k where k: "x = Sees k" "left \<noteq> 0" by blast
    let ?v = "visible k left inc"
    let ?i = "length (takeWhile (\<lambda>c. c \<noteq> tm) (take ?v inc))"
    have v: "?v \<le> left" "?v \<le> length inc" using k(2) by (auto simp: visible_def min_def max_def Suc_le_eq)
    have i: "?i \<le> ?v" using length_takeWhile_le [of "\<lambda>c. c \<noteq> tm" "take ?v inc"] v by simp
    have line: "length (takeWhile (\<lambda>c. c \<noteq> tm) (buf @ take ?v inc)) \<le> n"
      using length_takeWhile_le [of "\<lambda>c. c \<noteq> tm" "buf @ take ?v inc"] v "1.prems"(2) by (simp only: length_append length_take)
    consider "?v = 0" | "?v \<noteq> 0" "?i < length (take ?v inc)" | "?v \<noteq> 0" "\<not> ?i < length (take ?v inc)" by blast
    then show ?thesis
    proof cases
      case 3
      then have "netfd_loop tm n (buf @ take ?v inc) (left - ?v) ss (drop ?v inc) = Inr (r, line, sc', inc')"
        using run k v "1.prems"(2) by simp
      with "1.IH" [OF _ _ ws [symmetric] refl k(1)] 3 k v "1.prems"(2) show ?thesis by simp
    qed (use run k v i line "1.prems"(2) in auto)
  qed
qed

lemma getline_bounds:
  assumes "slave_getline w = (Inr (r, line), w')"
  shows "sint (word_of_int r :: 32 word) = r \<and> length line \<le> VSFTP_PRIVSOCK_MAXSTR"
proof -
  obtain sc rest where "str_netfd_alloc LF VSFTP_MAX_COMMAND_LINE (sched w) (incoming w) = Inr (r, line, sc, rest)"
    using assms by (auto simp: slave_getline_def ftp_getline_def next_line_def bnd_def thn_def ret_def upd_def doif_def
        split: sum.splits prod.splits if_splits)
  from netfd_bounds [OF this [unfolded str_netfd_alloc_def]]
  show ?thesis using int_wire [of r] by (simp add: VSFTP_MAX_COMMAND_LINE_def VSFTP_PRIVSOCK_MAXSTR_def)
qed

lemma keeps_getline: "keeps idle slave_getline" "keeps (on_sess (\<lambda>s. data_fd s = fd)) slave_getline"
  by (auto simp: keeps_def slave_getline_def ftp_getline_def next_line_def handle_alarm_timeout_def act_defs idle_def
      split: sum.splits prod.splits)

lemma ask_getline_agrees:
  assumes "channel_ok E" and "idle w"
  shows "agrees (ask_getline E T w)
    (on_parent (bnd slave_getline (\<lambda>(r, line). ret ((r, if r \<ge> 0 then line else []), T))) w)"
proof -
  have "keeps idle slave_getline" "idle (swap w)" using assms(2) by (auto intro: keeps_getline)
  then show ?thesis
  proof (cases rule: privop_cases)
    case (fault f w1)
    then show ?thesis using assms by (simp add: agrees_def ask_getline_def slave_run)
  next
    case (returns a w1)
    obtain r line where a: "a = (r, line)" by fastforce
    then have "sint (word_of_int r :: 32 word) = r" "length line \<le> VSFTP_PRIVSOCK_MAXSTR"
      using getline_bounds returns(1) by blast+
    then show ?thesis using assms returns a
      by (cases "r \<ge> 0") (simp_all add: agrees_def ask_getline_def slave_run doif_def)
  qed
qed

text \<open>C10: the process that runs the session may ask the slave for every operation on a TLS connection as if it held
  the keys itself. When the socket pair works, numbers are of type \<^verbatim>\<open>int\<close> and reads return at most what was asked
  for, each request of the consumer (a command line, a reply, the handshake, reading, both kinds of
  writing, closing) ends as the operation does when it is called directly in the process of the slave: the
  same result or fault and the same world, with nothing left in the socket pair.\<close>

theorem slave_refines:
  assumes "channel_ok E" and "int_answers E" and "ssl_reads E" and "idle w"
  shows "agrees (ask_getline E T w)
      (on_parent (bnd slave_getline (\<lambda>(r, line). ret ((r, if r \<ge> 0 then line else []), T))) w) \<and>
    (length s \<le> VSFTP_PRIVSOCK_MAXSTR \<longrightarrow>
      agrees (ask_respond E T s w) (on_parent (bnd (slave_respond E s) (\<lambda>r. ret (r, T))) w)) \<and>
    (data_fd (parent w) = - 1 \<and> p_data_ssl T = 0 \<longrightarrow>
      agrees (ask_handshake E T w) (on_parent (slave_handshake E T (data_fd (sess w))) w)) \<and>
    agrees (ask_close E T w) (on_parent (slave_close E T) w) \<and>
    (in_transfer T (parent w) \<longrightarrow>
      (length s \<le> VSFTP_PRIVSOCK_MAXSTR \<longrightarrow>
        agrees (ask_write E T s w) (bnd (on_parent (ssl_write E (p_data_ssl T) s)) (\<lambda>r. thn (check_pending E r) (ret (r, T))) w) \<and>
        agrees (ask_write_str E T s w) (bnd (on_parent (ssl_write E (p_data_ssl T) s))
          (\<lambda>r. ret (if r > 0 \<and> r = int (length s) then 0 else - 1, T)) w)) \<and>
      (0 < n \<and> n \<le> VSFTP_DATA_BUFSIZE \<longrightarrow>
        agrees (ask_read E T n w) (bnd (on_parent (ssl_read_into_str E T (p_data_ssl T) (int n)))
          (\<lambda>(r, bs). thn (check_pending E r) (ret ((r, bs), T))) w)))"
  by (intro conjI impI; (elim conjE)?) (auto intro: assms ask_getline_agrees ask_respond_agrees ask_handshake_agrees ask_close_agrees ask_write_agrees ask_read_agrees)

section \<open>Handshakes\<close>

named_theorems yields_intros
lemmas [yields_intros] = yields_rules(1,3,4)

lemma yields_more [yields_intros]:
  "yields P (lift (die m))"
  "yields P n \<Longrightarrow> yields P (thn m' n)"
  "yields P u \<Longrightarrow> (\<And>x. yields P (h x)) \<Longrightarrow> yields P (case v of None \<Rightarrow> u | Some x \<Rightarrow> h x)"
  by (auto simp: yields_def lift_def thn_def bnd_def ret_def split: option.splits prod.splits sum.splits)

text \<open>A closed connection has no TLS state; a refused one is closed.\<close>

lemma yields_close: "yields (\<lambda>(r, T'). p_data_ssl T' = 0) (ssl_data_close E T)"
  unfolding ssl_data_close_def by (intro yields_intros yields_rules(2); simp)

lemma yields_refuse: "yields (\<lambda>(r, T'). r = 0 \<and> p_data_ssl T' = 0) (refuse_data E T m)"
  unfolding refuse_data_def
  by (rule yields_more, rule yields_bnd [OF yields_close]) (auto intro!: yields_intros)

lemma yields_accept: "p_data_ssl T = 0 \<Longrightarrow> yields (\<lambda>(r, T'). if r = 1 then p_data_ssl T' \<noteq> 0 else p_data_ssl T' = 0) (ssl_accept E T fd)"
proof -
  assume T: "p_data_ssl T = 0"
  have ref: "yields (\<lambda>(r, T'). if r = 1 then p_data_ssl T' \<noteq> 0 else p_data_ssl T' = 0) (refuse_data E U m)" for U m
    by (rule yields_mono [OF yields_refuse]) auto
  have cert: "yields (\<lambda>(r, T'). if r = 1 then p_data_ssl T' \<noteq> 0 else p_data_ssl T' = 0) (check_data_cert E U)"
    if "p_data_ssl U \<noteq> 0" for U
    using that unfolding check_data_cert_def by (intro yields_intros yields_rules(2) ref) simp_all
  show ?thesis unfolding ssl_accept_def Let_def
    using T by (intro yields_intros yields_rules(2) ref cert) simp_all
qed

text \<open>An answer that OpenSSL gave during the run that led to a world.\<close>

definition answered :: "env \<Rightarrow> world \<Rightarrow> event \<Rightarrow> (int \<Rightarrow> bool) \<Rightarrow> bool" where
  "answered E v e P \<longleftrightarrow> (\<exists>tr. prefix tr (trace v) \<and> P (answers E tr e))"

lemma answered_now: "P (answers E (trace v) e) \<Longrightarrow> answered E v e P"
  by (auto simp: answered_def)

lemma answered_later: "answered E v e P \<Longrightarrow> prefix (trace v) (trace v') \<Longrightarrow> answered E v' e P"
  unfolding answered_def by (meson prefix_order.trans)

lemma answered_then:
  "prefix xs (trace v) \<Longrightarrow> P (answers E xs e) \<Longrightarrow> answered E v e P"
  "answered E w e P \<Longrightarrow> prefix (trace w @ ys) (trace v) \<Longrightarrow> answered E v e P"
  unfolding answered_def by (auto dest: append_prefixD intro: prefix_order.trans)

lemma wp_debug: "(\<And>es. Q () (w\<lparr>trace := trace w @ es\<rparr>)) \<Longrightarrow> wp (debug_line E t) Q (\<lambda>_ _. True) w"
  unfolding debug_line_def by (rule wp_talks [OF talks_log_line, where F = "\<lambda>_. True"]) simp_all

lemma wp_maybe_debug: "(\<And>es. Q () (w\<lparr>trace := trace w @ es\<rparr>)) \<Longrightarrow> wp (doif b (debug_line E t)) Q (\<lambda>_ _. True) w"
  using wp_debug [of Q w] by (cases b) (auto simp: wp_doif dest: meta_spec [of _ "[]"])

lemma wp_trivial: "wp m (\<lambda>_ _. True) (\<lambda>_ _. True) w"
  by (simp add: wp_def split: prod.splits sum.splits)

lemma get_ssl_rule:
  assumes "\<And>p v. prefix (trace w) (trace v) \<Longrightarrow> (p \<noteq> 0 \<longrightarrow> answered E v (Sys ''SSL_accept'' [] [p]) (\<lambda>r. r = 1)) \<Longrightarrow> Q p v"
  shows "wp (get_ssl E fd) Q (\<lambda>_ _. True) w"
proof -
  have desc: "wp (doif b (describe_ssl E p)) R (\<lambda>_ _. True) v" if "\<And>es. R () (v\<lparr>trace := trace v @ es\<rparr>)" for b p R v
    using that that [of "[]"] unfolding describe_ssl_def by (cases b) (simp_all add: wp_simps wp_debug)
  show ?thesis unfolding get_ssl_def get_ssl_error_def wp_bnd wp_thn wp_basic wp_if
    by (intro if_bool_eq_conj [THEN iffD2] conjI impI wp_maybe_debug desc)
      (auto intro!: assms wp_trivial simp: die_def bug_def wp_simps answered_def
        exI [where x = "trace w @ [Sys ''SSL_new'' [] [], Sys ''SSL_set_fd'' [] [answers E (trace w) (Sys ''SSL_new'' [] []), fd]]"])
qed

lemma tls_refuse_rule: "(\<And>T' v. Q (0, T') v) \<Longrightarrow> wp (refuse_data E T m) Q (\<lambda>_ _. True) w"
  unfolding refuse_data_def wp_thn wp_bnd
  by (rule wp_debug, rule wp_mono [OF wp_trivial]) (auto simp: wp_simps)

definition small_digests :: "env \<Rightarrow> bool" where
  "small_digests E \<longleftrightarrow> (\<forall>tr p. length (texts E tr (Sys ''X509_digest'' [] [p])) \<le> 64)"

text \<open>The certificate of the data connection is that of the control connection, if that had one.\<close>

definition same_client :: "env \<Rightarrow> tls \<Rightarrow> int \<Rightarrow> world \<Rightarrow> bool" where
  "same_client E T p v \<longleftrightarrow> control_cert_digest T = [] \<or>
     (\<exists>tr. prefix tr (trace v) \<and> answers E tr (Sys ''SSL_get_peer_certificate'' [] [p]) \<noteq> 0 \<and>
        texts E tr (Sys ''X509_digest'' [] [p]) = control_cert_digest T)"

lemma check_cert_rule:
  assumes "small_digests E" and "length (control_cert_digest T) \<le> 64"
    and "\<And>v. prefix (trace w) (trace v) \<Longrightarrow> same_client E T (p_data_ssl T) v \<Longrightarrow> Q (1, T) v" and "\<And>T' v. Q (0, T') v"
  shows "wp (check_data_cert E T) Q (\<lambda>_ _. True) w"
proof -
  have eq: "str_strcmp (control_cert_digest T) (texts E tr (Sys ''X509_digest'' [] [p])) = 0 \<longleftrightarrow>
      control_cert_digest T = texts E tr (Sys ''X509_digest'' [] [p])" for tr p
  proof -
    have "length (texts E tr (Sys ''X509_digest'' [] [p])) \<le> INT_MAX"
      using assms(1) [unfolded small_digests_def, rule_format, of tr p] by simp
    moreover have "length (control_cert_digest T) \<le> INT_MAX" using assms(2) by simp
    ultimately show ?thesis using strcmp_byte_order by blast
  qed
  show ?thesis
    unfolding check_data_cert_def ssl_cert_digest_def wp_bnd wp_thn wp_basic wp_if
    by (intro if_bool_eq_conj [THEN iffD2] conjI impI wp_maybe_debug)
      (auto intro!: assms(3,4) tls_refuse_rule wp_maybe_debug wp_debug simp: die_def bug_def wp_simps same_client_def eq
        exI [where x = "trace w"])
qed

lemma tls_accept_rule:
  assumes "small_digests E" and "length (control_cert_digest T) \<le> 64"
  shows "wp (ssl_accept E T fd) (\<lambda>(r, T') v. r = 1 \<longrightarrow> p_data_ssl T = 0 \<and> p_data_ssl T' \<noteq> 0 \<and>
      answered E v (Sys ''SSL_accept'' [] [p_data_ssl T']) (\<lambda>r. r = 1) \<and>
      (tb E ''require_ssl_reuse'' \<longrightarrow> answered E v (Sys ''SSL_session_reused'' [] [p_data_ssl T']) (\<lambda>r. r \<noteq> 0)) \<and>
      same_client E T (p_data_ssl T') v) (\<lambda>_ _. True) w"
proof (cases "p_data_ssl T = 0")
  case True
  show ?thesis unfolding ssl_accept_def setup_bio_callbacks_def Let_def True
    by (simp only: simp_thms if_False wp_bnd, rule get_ssl_rule)
      (auto simp: wp_simps same_client_def assms True intro!: tls_refuse_rule check_cert_rule intro: answered_then)
qed (simp add: ssl_accept_def wp_simps die_def bug_def)

lemma tls_read_rule:
  "wp (ssl_read E T p n) (\<lambda>(r, bs) v. r = 0 \<and> tb E ''strict_ssl_read_eof'' \<longrightarrow>
     answered E v (Sys ''SSL_get_shutdown'' [] [p]) (\<lambda>s. s = 2)) (\<lambda>_ _. True) w"
  unfolding ssl_read_def ssl_read_common_def wp_bnd
  by (rule wp_mono [OF wp_trivial]) (auto simp: wp_simps intro!: wp_debug answered_now)

text \<open>C12: what a TLS connection must show. \<^verbatim>\<open>ssl_accept\<close> reports success only when no data connection was open and
  OpenSSL completed the handshake, when the TLS session of the control connection was reused if
  \<^verbatim>\<open>require_ssl_reuse\<close> is set, and when the client presented the certificate of the control connection if that had
  one; otherwise nothing of the connection remains. With \<^verbatim>\<open>strict_ssl_read_eof\<close> the end of the data is reported only
  after the shutdown message of the peer, so that a connection an attacker cut does not pass for a whole
  file.\<close>

theorem tls_channel_checked:
  assumes "small_digests E" and "length (control_cert_digest T) \<le> 64"
  shows "(\<forall>w r T' w'. p_data_ssl T = 0 \<and> ssl_accept E T fd w = (Inr (r, T'), w') \<longrightarrow>
      (if r = 1
       then p_data_ssl T' \<noteq> 0 \<and> answered E w' (Sys ''SSL_accept'' [] [p_data_ssl T']) (\<lambda>a. a = 1) \<and>
         (tb E ''require_ssl_reuse'' \<longrightarrow> answered E w' (Sys ''SSL_session_reused'' [] [p_data_ssl T']) (\<lambda>a. a \<noteq> 0)) \<and>
         same_client E T (p_data_ssl T') w'
       else p_data_ssl T' = 0)) \<and>
    (\<forall>w bs w'. tb E ''strict_ssl_read_eof'' \<and> ssl_read E T p n w = (Inr (0, bs), w') \<longrightarrow>
      answered E w' (Sys ''SSL_get_shutdown'' [] [p]) (\<lambda>a. a = 2))"
proof (intro conjI allI impI; elim conjE)
  fix w r T' w' assume T: "p_data_ssl T = 0" and run: "ssl_accept E T fd w = (Inr (r, T'), w')"
  show "if r = 1
       then p_data_ssl T' \<noteq> 0 \<and> answered E w' (Sys ''SSL_accept'' [] [p_data_ssl T']) (\<lambda>a. a = 1) \<and>
         (tb E ''require_ssl_reuse'' \<longrightarrow> answered E w' (Sys ''SSL_session_reused'' [] [p_data_ssl T']) (\<lambda>a. a \<noteq> 0)) \<and>
         same_client E T (p_data_ssl T') w'
       else p_data_ssl T' = 0"
    using wp_Inr [OF tls_accept_rule [OF assms] run] yields_accept [OF T, of E fd, unfolded yields_def, rule_format, OF run]
    by (simp split: if_splits)
next
  fix w bs w' assume "tb E ''strict_ssl_read_eof''" and run: "ssl_read E T p n w = (Inr (0, bs), w')"
  then show "answered E w' (Sys ''SSL_get_shutdown'' [] [p]) (\<lambda>a. a = 2)" using wp_Inr [OF tls_read_rule run] by simp
qed

section \<open>The protocol\<close>

text \<open>The texts of the assertions in \<^verbatim>\<open>sslslave.c\<close> and of the checks on the messages.\<close>

definition slave_messages :: "string list" where
  "slave_messages =
     [''state not clean'', ''bad size'', ''invalid state'', ''bad request in process_ssl_slave_req'',
      ''p_data_ssl should be NULL.'', ''priv_sock_get_str: too big'', ''priv_sock_get_str: read error'',
      ''recv_len bigger than buffer'', ''priv_sock_recv_buf'', ''priv_sock_get_cmd'', ''priv_sock_get_int'',
      ''priv_sock_get_result'', ''recvmsg'', ''no passed fd'']"

definition foreign :: "fault \<Rightarrow> bool" where
  "foreign f \<longleftrightarrow> (\<forall>m \<in> set slave_messages. f \<noteq> Oops m)"

text \<open>OpenSSL's messages begin in this way.\<close>

definition openssl_errors :: "env \<Rightarrow> bool" where
  "openssl_errors E \<longleftrightarrow> (\<forall>tr. \<exists>t. texts E tr (Sys ''get_ssl_error'' [] []) = ''error:'' @ t)"

text \<open>Both processes between two requests: nothing is under way, and the slave has a data connection exactly when the
  session believes so.\<close>

definition linked :: "world \<Rightarrow> tls \<Rightarrow> bool \<Rightarrow> bool" where
  "linked w T connected \<longleftrightarrow> idle w \<and>
     (if connected then in_transfer T (parent w) else data_fd (parent w) = - 1 \<and> p_data_ssl T = 0)"

text \<open>The requests the session makes and when: a handshake for its data connection, transfers while it is connected,
  lines and replies at any time, a close after each attempt. In between it does anything that leaves the slave alone.\<close>

inductive served :: "env \<Rightarrow> world \<Rightarrow> tls \<Rightarrow> bool \<Rightarrow> bool" for E where
  start: "linked w T False \<Longrightarrow> served E w T False"
| own: "served E w T c \<Longrightarrow> parent w' = parent w \<Longrightarrow> idle w' \<Longrightarrow> served E w' T c"
| handshake: "served E w T False \<Longrightarrow> data_fd (sess w) \<noteq> - 1 \<Longrightarrow> ask_handshake E T w = (Inr (ok, T'), w') \<Longrightarrow> served E w' T' ok"
| reads: "served E w T True \<Longrightarrow> 0 < n \<Longrightarrow> n \<le> VSFTP_DATA_BUFSIZE \<Longrightarrow> ask_read E T n w = (Inr (a, T'), w') \<Longrightarrow> served E w' T' True"
| writes: "served E w T True \<Longrightarrow> length b \<le> VSFTP_PRIVSOCK_MAXSTR \<Longrightarrow> ask_write E T b w = (Inr (r, T'), w') \<Longrightarrow> served E w' T' True"
| writes_str: "served E w T True \<Longrightarrow> length b \<le> VSFTP_PRIVSOCK_MAXSTR \<Longrightarrow> ask_write_str E T b w = (Inr (r, T'), w') \<Longrightarrow> served E w' T' True"
| getline: "served E w T c \<Longrightarrow> ask_getline E T w = (Inr (a, T'), w') \<Longrightarrow> served E w' T' c"
| respond: "served E w T c \<Longrightarrow> length b \<le> VSFTP_PRIVSOCK_MAXSTR \<Longrightarrow> ask_respond E T b w = (Inr (r, T'), w') \<Longrightarrow> served E w' T' c"
| close: "served E w T c \<Longrightarrow> ask_close E T w = (Inr (ok, T'), w') \<Longrightarrow> served E w' T' False"

lemma tls_wp_agrees: "agrees (m w) (n w) \<Longrightarrow> wp n Q (\<lambda>f _. F f) w \<Longrightarrow> wp m Q (\<lambda>f _. F f) w"
  by (cases "m w"; cases "fst (m w)"; cases "n w"; cases "fst (n w)") (auto simp: agrees_def wp_def)

lemma wp_all: "faults F m \<Longrightarrow> keeps I m \<Longrightarrow> I w \<Longrightarrow> (\<And>a v. I v \<Longrightarrow> Q a v) \<Longrightarrow> wp m Q (\<lambda>f _. F f) w"
  by (rule wp_faults, assumption, rule wp_mono, rule keepsD, assumption+) simp_all

lemma keeps_both: "keeps I m \<Longrightarrow> keeps J m \<Longrightarrow> keeps (\<lambda>w. I w \<and> J w) m"
  by (simp add: keeps_def)

lemma keeps_sess_retry [keeps_intros]: "keeps (on_sess P) (ssl_retry E e p)"
  by (auto simp: keeps_def ssl_retry_def split: option.splits)

lemma keeps_sess_debug [keeps_intros]: "keeps (on_sess P) (debug_line E t)"
  unfolding debug_line_def by (rule talks_keeps_sess [OF talks_log_line]) simp

lemma keeps_sess_tls [keeps_intros]:
  "keeps (on_sess P) (ssl_read_into_str E T p n)" "keeps (on_sess P) (ssl_write E p b)" "keeps (on_sess P) (ssl_data_close E T)"
  "keeps (on_sess P) (ssl_accept E T fd)"
  unfolding ssl_read_into_str_def ssl_read_def ssl_read_common_def ssl_write_def get_ssl_error_def ssl_data_close_def
    shutdown_data_def maybe_log_shutdown_state_def maybe_log_ssl_error_state_def ssl_accept_def get_ssl_def describe_ssl_def
    setup_bio_callbacks_def refuse_data_def check_data_cert_def ssl_cert_digest_def Let_def
  by (intro keeps_intros)+

lemma faults_debug [faults_intros]: "faults F (debug_line E t)"
  unfolding debug_line_def by (rule talks_faults [OF talks_log_line]) simp

lemma foreign_text: "m \<notin> set slave_messages \<Longrightarrow> foreign (Oops m)"
  by (auto simp: foreign_def)

lemma foreign_tls [faults_intros]:
  "faults foreign (ssl_retry E e p)" "faults foreign (vsf_sysutil_close E fd)"
  unfolding vsf_sysutil_close_def by (intro faults_intros; simp add: foreign_def slave_messages_def)+

lemma foreign_ssl:
  "faults foreign (ssl_read_into_str E T p n)" "faults foreign (ssl_write E p b)" "faults foreign (ssl_data_close E T)"
  unfolding ssl_read_into_str_def ssl_read_def ssl_read_common_def ssl_write_def get_ssl_error_def ssl_data_close_def
    shutdown_data_def maybe_log_shutdown_state_def maybe_log_ssl_error_state_def Let_def
  by (intro faults_intros)+

lemma foreign_get_ssl:
  assumes "openssl_errors E"
  shows "faults foreign (get_ssl E fd)"
proof -
  have bad: "faults foreign (bnd (get_ssl_error E) (\<lambda>p_err. thn (doif b (debug_line E (g p_err))) (lift (die p_err))))" for b g
  proof -
    have "foreign (Oops (cstr (texts E tr (Sys ''get_ssl_error'' [] []))))" for tr
    proof -
      obtain t where "texts E tr (Sys ''get_ssl_error'' [] []) = ''error:'' @ t" using assms by (auto simp: openssl_errors_def)
      then show ?thesis by (simp add: foreign_def slave_messages_def cstr_def)
    qed
    then have "faults foreign (thn (doif b (debug_line E (g p))) (lift (die p)))"
      if "p = cstr (texts E tr (Sys ''get_ssl_error'' [] []))" for p tr
      using that by (intro faults_intros) (auto simp: die_def bug_def)
    from this [OF refl] show ?thesis unfolding faults_def get_ssl_error_def bnd_def ask_text_def ret_def by simp blast
  qed
  show ?thesis unfolding get_ssl_def describe_ssl_def by (rule bad | rule faults_intros)+
qed

lemma foreign_accept:
  assumes "openssl_errors E" and "p_data_ssl T = 0"
  shows "faults foreign (ssl_accept E T fd)"
  unfolding ssl_accept_def setup_bio_callbacks_def refuse_data_def check_data_cert_def ssl_cert_digest_def Let_def
  using assms by (intro faults_intros foreign_get_ssl foreign_ssl) (auto simp: die_def bug_def foreign_def slave_messages_def)

text \<open>Each request in a linked state.\<close>

lemma tls_handshake_rule:
  assumes "openssl_errors E" and "channel_ok E" and "linked w T False" and "data_fd (sess w) \<noteq> - 1"
  shows "wp (ask_handshake E T) (\<lambda>(ok, T') w'. linked w' T' ok) (\<lambda>f _. foreign f) w"
proof (rule tls_wp_agrees [of "ask_handshake E T" w "on_parent (slave_handshake E T (data_fd (sess w)))", OF ask_handshake_agrees], goal_cases)
  case 5
  let ?fd = "data_fd (sess w)"
  have T: "p_data_ssl T = 0" and i: "idle w" using assms(3) by (simp_all add: linked_def)
  have accept: "wp (ssl_accept E T ?fd) (\<lambda>(r, T') v. (if r = 1 then p_data_ssl T' \<noteq> 0 else p_data_ssl T' = 0) \<and> idle v \<and> data_fd (sess v) = ?fd)
      (\<lambda>f _. foreign f) v0" if "idle v0" "data_fd (sess v0) = ?fd" for v0
  proof -
    have "keeps (\<lambda>v. idle v \<and> data_fd (sess v) = ?fd) (ssl_accept E T ?fd)"
      by (rule keeps_both) (intro keeps_intros)+
    then have "wp (ssl_accept E T ?fd) (\<lambda>a v. idle v \<and> data_fd (sess v) = ?fd) (\<lambda>f _. foreign f) v0"
      by (rule wp_all [OF foreign_accept [OF assms(1) T]]) (use that in auto)
    from yields_wp [OF yields_accept [OF T] this] show ?thesis by (rule wp_mono) auto
  qed
  have close: "wp (vsf_sysutil_close E fd) Q (\<lambda>f _. foreign f) v" if "\<And>es. Q () (v\<lparr>trace := es\<rparr>)" for fd Q v
    using that unfolding vsf_sysutil_close_def or_die_def by (simp add: wp_simps die_def bug_def foreign_def slave_messages_def)
  have "wp (slave_handshake E T ?fd) (\<lambda>(ok, T') v. linked (swap v) T' ok) (\<lambda>f _. foreign f) (swap w)"
    unfolding slave_handshake_def wp_thn wp_basic wp_bnd
    by (rule wp_mono [OF accept]) (use i assms(4) in \<open>auto simp: wp_simps linked_def in_transfer_def idle_def intro!: close\<close>)
  then show ?case unfolding wp_on_parent by (rule wp_mono) auto
qed (use assms in \<open>simp_all add: linked_def\<close>)

lemma close_rule:
  assumes "channel_ok E" and "linked w T c"
  shows "wp (ask_close E T) (\<lambda>(ok, T') w'. linked w' T' False) (\<lambda>f _. foreign f) w"
proof (rule tls_wp_agrees [of "ask_close E T" w "on_parent (slave_close E T)", OF ask_close_agrees], goal_cases)
  case 3
  have i: "idle w" using assms(2) by (simp add: linked_def)
  have shut: "wp (ssl_data_close E T) (\<lambda>(r, T') v. p_data_ssl T' = 0 \<and> idle v) (\<lambda>f _. foreign f) v0" if "idle v0" for v0
  proof -
    have "wp (ssl_data_close E T) (\<lambda>a v. idle v) (\<lambda>f _. foreign f) v0"
      by (rule wp_all [OF foreign_ssl(3)]) (auto intro: keeps_intros that)
    from yields_wp [OF yields_close this] show ?thesis by (rule wp_mono) auto
  qed
  have close: "wp (vsf_sysutil_close E fd) Q (\<lambda>f _. foreign f) v" if "\<And>es. Q () (v\<lparr>trace := es\<rparr>)" for fd Q v
    using that unfolding vsf_sysutil_close_def or_die_def by (simp add: wp_simps die_def bug_def foreign_def slave_messages_def)
  have "wp (slave_close E T) (\<lambda>(ok, T') v. linked (swap v) T' False) (\<lambda>f _. foreign f) (swap w)"
    unfolding slave_close_def wp_bnd wp_basic wp_if
    by (intro if_bool_eq_conj [THEN iffD2] conjI impI; (rule wp_mono [OF shut])?)
      (use i assms(2) in \<open>auto simp: wp_simps linked_def in_transfer_def idle_def split: if_splits intro!: close\<close>)
  then show ?case unfolding wp_on_parent by (rule wp_mono) auto
qed (use assms in \<open>simp_all add: linked_def\<close>)

lemma tls_pending_rule:
  assumes "\<And>s es. Q () (w\<lparr>sess := s, trace := es\<rparr>)"
  shows "wp (check_pending E r) Q (\<lambda>f _. foreign f) w"
proof -
  let ?I = "\<lambda>v. v\<lparr>sess := sess w, trace := trace w\<rparr> = w"
  have out: "outside ?I" by unfold_locales simp_all
  have mine: "Q () v" if "?I v" for v
  proof -
    have "v = v\<lparr>sess := sess w, trace := trace w\<rparr>\<lparr>sess := sess v, trace := trace v\<rparr>" by simp
    also have "\<dots> = w\<lparr>sess := sess v, trace := trace v\<rparr>" unfolding that ..
    finally show ?thesis using assms by metis
  qed
  have k: "keeps ?I (check_pending E r)"
    unfolding check_pending_def handle_io_def handle_sigalrm_def start_data_alarm_def
    by (intro keeps_intros outside.keeps_effects [OF out] outside.keeps_sysutil [OF out])
  have "faults foreign (check_pending E r)"
    unfolding check_pending_def handle_io_def handle_sigalrm_def start_data_alarm_def
    by (intro faults_intros) (simp add: foreign_def slave_messages_def)
  then show ?thesis by (rule wp_all [OF _ k]) (auto intro: mine)
qed

lemma tls_transfer_rule:
  assumes "channel_ok E" and "int_answers E" and "linked w T True"
  shows "ssl_reads E \<Longrightarrow> 0 < n \<Longrightarrow> n \<le> VSFTP_DATA_BUFSIZE \<Longrightarrow>
      wp (ask_read E T n) (\<lambda>(a, T') w'. linked w' T' True) (\<lambda>f _. foreign f) w"
    and "length b \<le> VSFTP_PRIVSOCK_MAXSTR \<Longrightarrow> wp (ask_write E T b) (\<lambda>(a, T') w'. linked w' T' True) (\<lambda>f _. foreign f) w"
    and "length b \<le> VSFTP_PRIVSOCK_MAXSTR \<Longrightarrow> wp (ask_write_str E T b) (\<lambda>(a, T') w'. linked w' T' True) (\<lambda>f _. foreign f) w"
proof -
  have l: "idle w" "in_transfer T (parent w)" using assms(3) by (simp_all add: linked_def)
  have io: "wp (on_parent m) Q (\<lambda>f _. foreign f) w"
    if "faults foreign m" "keeps idle m" "\<And>P. keeps (on_sess P) m" "\<And>a v. linked v T True \<Longrightarrow> Q a v" for m :: "'a act" and Q
    unfolding wp_on_parent
    by (rule wp_all [OF that(1) keeps_both [OF that(2) that(3) [where P = "in_transfer T"]]])
      (use l that(4) in \<open>auto simp: linked_def\<close>)
  have after: "linked (v\<lparr>sess := s, trace := es\<rparr>) T True" if "linked v T True" for v s es
    using that by (simp add: linked_def idle_def)
  note rules = faults_intros foreign_ssl keeps_intros tls_pending_rule after
  show "wp (ask_read E T n) (\<lambda>(a, T') w'. linked w' T' True) (\<lambda>f _. foreign f) w"
    if "ssl_reads E" "0 < n" "n \<le> VSFTP_DATA_BUFSIZE"
    by (rule tls_wp_agrees [of "ask_read E T n" w "bnd (on_parent (ssl_read_into_str E T (p_data_ssl T) (int n))) (\<lambda>(r, bs). thn (check_pending E r) (ret ((r, bs), T)))",
        OF ask_read_agrees [OF assms(1) l(1) assms(2) that l(2)]], unfold wp_bnd, rule io)
      (auto intro!: rules simp: wp_simps)
  show "wp (ask_write E T b) (\<lambda>(a, T') w'. linked w' T' True) (\<lambda>f _. foreign f) w" if "length b \<le> VSFTP_PRIVSOCK_MAXSTR"
    by (rule tls_wp_agrees [of "ask_write E T b" w "bnd (on_parent (ssl_write E (p_data_ssl T) b)) (\<lambda>r. thn (check_pending E r) (ret (r, T)))",
        OF ask_write_agrees(1) [OF assms(1) l(1) assms(2) that l(2)]], unfold wp_bnd, rule io)
      (auto intro!: rules simp: wp_simps)
  show "wp (ask_write_str E T b) (\<lambda>(a, T') w'. linked w' T' True) (\<lambda>f _. foreign f) w" if "length b \<le> VSFTP_PRIVSOCK_MAXSTR"
    by (rule tls_wp_agrees [of "ask_write_str E T b" w "bnd (on_parent (ssl_write E (p_data_ssl T) b)) (\<lambda>r. ret (if r > 0 \<and> r = int (length b) then 0 else - 1, T))",
        OF ask_write_agrees(2) [OF assms(1) l(1) assms(2) that l(2)]], unfold wp_bnd, rule io)
      (auto intro!: rules simp: wp_simps)
qed

lemma netfd_fault: "netfd_loop tm n buf left sc inc = Inl f \<Longrightarrow> foreign f"
proof (induction tm n buf left sc inc rule: netfd_loop.induct)
  case (1 tm n buf left sc inc)
  obtain x ss where ws: "(case sc of [] \<Rightarrow> (Sees left, []) | s # ss \<Rightarrow> (s, ss)) = (x, ss)" by fastforce
  note run = "1.prems" [unfolded netfd_loop.simps [of tm n buf left sc inc] ws Let_def prod.case]
  show ?case
  proof (cases "\<exists>k. length buf + left = n \<and> left \<noteq> 0 \<and> x = Sees k \<and> visible k left inc \<noteq> 0 \<and> visible k left inc \<le> left \<and>
      \<not> length (takeWhile (\<lambda>c. c \<noteq> tm) (take (visible k left inc) inc)) < length (take (visible k left inc) inc)")
    case True
    then obtain k where k: "length buf + left = n" "left \<noteq> 0" "x = Sees k" "visible k left inc \<noteq> 0" "visible k left inc \<le> left"
      "\<not> length (takeWhile (\<lambda>c. c \<noteq> tm) (take (visible k left inc) inc)) < length (take (visible k left inc) inc)" by blast
    then have "netfd_loop tm n (buf @ take (visible k left inc) inc) (left - visible k left inc) ss (drop (visible k left inc) inc) = Inl f"
      using run by (simp split: if_splits)
    with "1.IH" [OF _ _ ws [symmetric] refl k(3)] k show ?thesis by simp
  next
    case False
    then show ?thesis using run
      by (cases x) (auto simp: die_def bug_def foreign_def slave_messages_def split: if_splits)
  qed
qed

lemma control_rule:
  assumes "channel_ok E" and "int_answers E" and "linked w T c"
  shows "wp (ask_getline E T) (\<lambda>(a, T') w'. linked w' T' c) (\<lambda>f _. foreign f) w"
    and "length b \<le> VSFTP_PRIVSOCK_MAXSTR \<Longrightarrow> wp (ask_respond E T b) (\<lambda>(a, T') w'. linked w' T' c) (\<lambda>f _. foreign f) w"
proof -
  have i: "idle w" and d: "if c then data_fd (parent w) \<noteq> - 1 \<and> p_data_ssl T \<noteq> 0 else data_fd (parent w) = - 1 \<and> p_data_ssl T = 0"
    using assms(3) by (auto simp: linked_def in_transfer_def)
  have io: "wp (on_parent (bnd m (\<lambda>a. ret (g a, T)))) (\<lambda>(a, T') w'. linked w' T' c) (\<lambda>f _. foreign f) w"
    if "faults foreign m" "keeps idle m" "keeps (on_sess (\<lambda>s. data_fd s = data_fd (parent w))) m" for m :: "'a act" and g :: "'a \<Rightarrow> 'b"
    unfolding wp_on_parent wp_bnd
    by (rule wp_all [OF that(1) keeps_both [OF that(2,3)]]) (use i d in \<open>auto simp: wp_simps linked_def in_transfer_def\<close>)
  have "faults foreign slave_getline"
  proof -
    note netfd_fault
    then show ?thesis
      unfolding slave_getline_def ftp_getline_def handle_alarm_timeout_def
      by (intro faults_intros) (auto simp: faults_def next_line_def str_netfd_alloc_def split: sum.splits prod.splits)
  qed
  note got = io [OF this keeps_getline, of "\<lambda>(r, line). (r, if r \<ge> 0 then line else [])"]
  have eq: "(\<lambda>(r, line). ret ((r, if r \<ge> 0 then line else []), T)) =
      (\<lambda>a. ret ((\<lambda>(r :: int, line). (r, if r \<ge> 0 then line else [])) a, T))" by (auto simp: fun_eq_iff)
  have "wp (on_parent (bnd slave_getline (\<lambda>(r, line). ret ((r, if r \<ge> 0 then line else []), T)))) (\<lambda>(a, T') w'. linked w' T' c) (\<lambda>f _. foreign f) w"
    unfolding eq by (rule got)
  then show "wp (ask_getline E T) (\<lambda>(a, T') w'. linked w' T' c) (\<lambda>f _. foreign f) w"
    by (rule tls_wp_agrees [of "ask_getline E T" w "on_parent (bnd slave_getline (\<lambda>(r, line). ret ((r, if r \<ge> 0 then line else []), T)))", OF ask_getline_agrees [OF assms(1) i]])
  have "faults foreign (slave_respond E b)"
    unfolding slave_respond_def ftp_write_str_def str_netfd_write_def
    by (intro faults_intros) (auto simp: bug_def foreign_def slave_messages_def)
  moreover have "keeps idle (slave_respond E b)" "keeps (on_sess (\<lambda>s. data_fd s = data_fd (parent w))) (slave_respond E b)"
    unfolding slave_respond_def ftp_write_str_def str_netfd_write_def by (intro keeps_intros; simp)+
  ultimately have "wp (on_parent (bnd (slave_respond E b) (\<lambda>r. ret (r, T)))) (\<lambda>(a, T') w'. linked w' T' c) (\<lambda>f _. foreign f) w"
    by (rule io)
  then show "wp (ask_respond E T b) (\<lambda>(a, T') w'. linked w' T' c) (\<lambda>f _. foreign f) w" if "length b \<le> VSFTP_PRIVSOCK_MAXSTR"
    by (rule tls_wp_agrees [of "ask_respond E T b" w "on_parent (bnd (slave_respond E b) (\<lambda>r. ret (r, T)))", OF ask_respond_agrees [OF assms(1) i assms(2) that]])
qed

lemma wp_step: "wp m (\<lambda>(a, T') w'. P w' T' a) X w \<Longrightarrow> m w = (Inr (a, T'), w') \<Longrightarrow> P w' T' a"
  by (simp add: wp_def)

lemma served_linked:
  assumes "served E w T c" and "channel_ok E" and "int_answers E" and "ssl_reads E" and "openssl_errors E"
  shows "linked w T c"
  using assms(1)
proof induction
  case (start w T)
  then show ?case .
next
  case (own w T c w')
  then show ?case by (simp add: linked_def)
next
  case (handshake w T ok T' w')
  from wp_step [OF tls_handshake_rule [OF assms(5,2) handshake(4,2)] handshake(3)] show ?case .
next
  case (reads w T n a T' w')
  from wp_step [OF tls_transfer_rule(1) [OF assms(2,3) reads(5) assms(4) reads(2,3)] reads(4)] show ?case .
next
  case (writes w T b r T' w')
  from wp_step [OF tls_transfer_rule(2) [OF assms(2,3) writes(4,2)] writes(3)] show ?case .
next
  case (writes_str w T b r T' w')
  from wp_step [OF tls_transfer_rule(3) [OF assms(2,3) writes_str(4,2)] writes_str(3)] show ?case .
next
  case (getline w T c a T' w')
  from wp_step [OF control_rule(1) [OF assms(2,3) getline(3)] getline(2)] show ?case .
next
  case (respond w T c b r T' w')
  from wp_step [OF control_rule(2) [OF assms(2,3) respond(4,2)] respond(3)] show ?case .
next
  case (close w T c ok T' w')
  from wp_step [OF close_rule [OF assms(2) close(3)] close(2)] show ?case .
qed

text \<open>An operation that fails in this world fails for a reason outside the protocol.\<close>

definition fails_outside :: "'a act \<Rightarrow> world \<Rightarrow> bool" where
  "fails_outside m w \<longleftrightarrow> (\<forall>f w'. m w = (Inl f, w') \<longrightarrow> foreign f)"

lemma wp_outside: "wp m Q (\<lambda>f _. foreign f) w \<Longrightarrow> fails_outside m w"
  by (auto simp: fails_outside_def wp_def)

text \<open>C11: the slave never meets a state or a message it does not expect. Whatever requests the session makes, in the
  order its code makes them and with anything else it does in between, both processes agree between two
  requests on whether there is a data connection, the slave holds a descriptor exactly when it holds its TLS
  state, and nothing is left in the socket pair; the next request, of any kind the session may make then,
  can fail only for a reason outside the protocol: not with an assertion of the slave, a message too
  long, a message cut short, or one that is missing its descriptor.\<close>

theorem slave_protocol_safe:
  assumes "served E w T c" and "channel_ok E" and "int_answers E" and "ssl_reads E" and "openssl_errors E"
  shows "idle w \<and> (c \<longleftrightarrow> data_fd (parent w) \<noteq> - 1) \<and> (c \<longleftrightarrow> p_data_ssl T \<noteq> 0) \<and>
    fails_outside (ask_getline E T) w \<and> fails_outside (ask_close E T) w \<and>
    (length b \<le> VSFTP_PRIVSOCK_MAXSTR \<longrightarrow> fails_outside (ask_respond E T b) w) \<and>
    (\<not> c \<and> data_fd (sess w) \<noteq> - 1 \<longrightarrow> fails_outside (ask_handshake E T) w) \<and>
    (c \<and> length b \<le> VSFTP_PRIVSOCK_MAXSTR \<longrightarrow> fails_outside (ask_write E T b) w \<and> fails_outside (ask_write_str E T b) w) \<and>
    (c \<and> 0 < n \<and> n \<le> VSFTP_DATA_BUFSIZE \<longrightarrow> fails_outside (ask_read E T n) w)"
proof -
  have l: "linked w T c" by (rule served_linked [OF assms])
  then have st: "idle w" "c \<longleftrightarrow> data_fd (parent w) \<noteq> - 1" "c \<longleftrightarrow> p_data_ssl T \<noteq> 0"
    by (auto simp: linked_def in_transfer_def split: if_splits)
  note control = control_rule [OF assms(2,3) l, THEN wp_outside] close_rule [OF assms(2) l, THEN wp_outside]
  have "fails_outside (ask_handshake E T) w" if "\<not> c" "data_fd (sess w) \<noteq> - 1"
    using tls_handshake_rule [OF assms(5,2) _ that(2), THEN wp_outside] l that(1) by simp
  moreover have "fails_outside (ask_write E T b) w \<and> fails_outside (ask_write_str E T b) w" if "c" "length b \<le> VSFTP_PRIVSOCK_MAXSTR"
    using tls_transfer_rule(2,3) [OF assms(2,3) _ that(2), THEN wp_outside] l that(1) by simp
  moreover have "fails_outside (ask_read E T n) w" if "c" "0 < n" "n \<le> VSFTP_DATA_BUFSIZE"
    using tls_transfer_rule(1) [OF assms(2,3) _ assms(4) that(2,3), THEN wp_outside] l that(1) by simp
  ultimately show ?thesis using st control by blast
qed

section \<open>Witnesses\<close>

text \<open>An OpenSSL that answers every call with 1, and a session with a data connection.\<close>

definition one_env :: env where
  "one_env = bare_env\<lparr>answers := (\<lambda>tr e. 1), texts := (\<lambda>tr e. ''error:'')\<rparr>"

definition new_tls :: tls where
  "new_tls = \<lparr>p_control_ssl = 5, p_data_ssl = 0, control_cert_digest = [], ssl_consumer_fd = - 1, ssl_slave_fd = 4\<rparr>"

definition linked_world :: "int \<Rightarrow> int \<Rightarrow> world" where
  "linked_world fd slave_fd = (world_with (blank_session\<lparr>data_fd := fd\<rparr>) [])\<lparr>parent := blank_session\<lparr>data_fd := slave_fd\<rparr>\<rparr>"

lemma one_env_ok: "channel_ok one_env" "int_answers one_env" "ssl_reads one_env" "openssl_errors one_env" "small_digests one_env"
  by (auto simp: one_env_def channel_ok_def int_answers_def ssl_reads_def openssl_errors_def small_digests_def)

lemma one_env_off: "\<not> tb one_env x" "answers one_env tr e = 1" "texts one_env tr e = ''error:''"
  by (simp_all add: one_env_def bare_env_def)

lemma linked_world_idle: "idle (linked_world fd slave_fd)" "data_fd (parent (linked_world fd slave_fd)) = slave_fd"
  "data_fd (sess (linked_world fd slave_fd)) = fd"
  by (simp_all add: linked_world_def idle_def world_with_def)

theorem slave_refines_witness:
  "agrees (ask_write one_env (new_tls\<lparr>p_data_ssl := 9\<rparr>) ''ab'' (linked_world 7 8))
     (bnd (on_parent (ssl_write one_env 9 ''ab'')) (\<lambda>r. thn (check_pending one_env r) (ret (r, new_tls\<lparr>p_data_ssl := 9\<rparr>)))
       (linked_world 7 8))"
  using slave_refines [OF one_env_ok(1-3) linked_world_idle(1), of "new_tls\<lparr>p_data_ssl := 9\<rparr>" 7 8 "''ab''" 1]
  by (simp add: in_transfer_def linked_world_idle VSFTP_PRIVSOCK_MAXSTR_def)

lemma one_accept: "ssl_accept one_env new_tls fd w =
    (Inr (1, new_tls\<lparr>p_data_ssl := 1\<rparr>), w\<lparr>trace := trace w @ [Sys ''SSL_new'' [] [], Sys ''SSL_set_fd'' [] [1, fd],
      Sys ''SSL_accept'' [] [1], Sys ''BIO_set_callback'' [''rbio''] [1], Sys ''BIO_set_callback'' [''wbio''] [1]]\<rparr>)"
  by (simp add: ssl_accept_def get_ssl_def check_data_cert_def setup_bio_callbacks_def new_tls_def act_defs one_env_off)

theorem tls_channel_checked_witness:
  "\<exists>w'. ssl_accept one_env new_tls 7 (linked_world 7 (- 1)) = (Inr (1, new_tls\<lparr>p_data_ssl := 1\<rparr>), w') \<and>
     answered one_env w' (Sys ''SSL_accept'' [] [1]) (\<lambda>a. a = 1)"
proof -
  have "length (control_cert_digest new_tls) \<le> 64" "p_data_ssl new_tls = 0" by (simp_all add: new_tls_def)
  with tls_channel_checked [OF one_env_ok(5) this(1), of 7] one_accept [of 7 "linked_world 7 (- 1)"] show ?thesis
    by fastforce
qed

theorem slave_protocol_safe_witness:
  "\<exists>w' T'. served one_env w' T' True \<and> data_fd (parent w') \<noteq> - 1 \<and> fails_outside (ask_write one_env T' ''ab'') w'"
proof -
  let ?w = "linked_world 7 (- 1)"
  have start: "served one_env ?w new_tls False"
    by (rule served.start) (simp add: linked_def linked_world_idle new_tls_def)
  have "agrees (ask_handshake one_env new_tls ?w) (on_parent (slave_handshake one_env new_tls 7) ?w)"
    using ask_handshake_agrees [OF one_env_ok(1) linked_world_idle(1), of 7 "- 1" new_tls] by (simp add: linked_world_idle new_tls_def)
  moreover have "\<exists>v. on_parent (slave_handshake one_env new_tls 7) ?w = (Inr (True, new_tls\<lparr>p_data_ssl := 1\<rparr>), v)"
    by (simp add: on_parent_def slave_handshake_def one_accept act_defs)
  ultimately obtain v where "ask_handshake one_env new_tls ?w = (Inr (True, new_tls\<lparr>p_data_ssl := 1\<rparr>), v)"
    by (cases "ask_handshake one_env new_tls ?w") (auto simp: agrees_def)
  from served.handshake [OF start _ this] have s: "served one_env v (new_tls\<lparr>p_data_ssl := 1\<rparr>) True" by (simp add: linked_world_idle)
  from slave_protocol_safe [OF s one_env_ok(1-4), of "''ab''" 1] s show ?thesis by (auto simp: VSFTP_PRIVSOCK_MAXSTR_def)
qed

end
