(* ===== verification/Signals.thy ===== *)
theory Signals
  imports Prelude
begin

text \<open>
  The signals of \<^verbatim>\<open>sysutil.c\<close>. A signal that arrives only sets a flag; its handler runs later, at the points
  where the code calls \<^verbatim>\<open>vsf_sysutil_check_pending_actions\<close>. Handlers are arbitrary code, which may itself be
  interrupted, install and remove handlers, reach such points again or end the process: the parameter \<open>B\<close> names
  for each start of a handler, from what happened so far, the steps of its run that concern signals.
\<close>

section \<open>State\<close>

abbreviation (input) NSIG :: nat where "NSIG \<equiv> 65"
abbreviation (input) SIG_ALRM :: nat where "SIG_ALRM \<equiv> 14"

datatype sysutil_signal = SigALRM | SigTERM | SigCHLD | SigPIPE | SigURG | SigHUP

datatype interrupt_context = ContextUnknown | ContextIO

text \<open>What the kernel does at a signal: the two handlers of \<^verbatim>\<open>sysutil.c\<close>, a handler given to it, the default.\<close>

datatype disposition = Sig_dfl | Common_sighandler | Alrm_sighandler | Async_sighandler string

record sig_details =
  sync_sig_handler :: "string option"
  p_private :: int
  pending :: bool
  running :: bool
  use_alarm :: bool

text \<open>A handler that starts or returns (of a signal, or the i/o handler), a change of the alarm, and the removal of
  the handler of a signal.\<close>

datatype who = Io | Sig nat
datatype jotting = Enters who | Returns who | Alarm nat | Removes nat

record sig_state =
  s_sig_details :: "nat \<Rightarrow> sig_details"
  s_io_handler :: "string option"
  s_p_io_handler_private :: int
  s_io_handler_running :: bool
  dispositions :: "nat \<Rightarrow> disposition"
  blocked :: "nat \<Rightarrow> bool"
  journal :: "jotting list"

definition jot :: "jotting \<Rightarrow> sig_state \<Rightarrow> sig_state" where
  "jot n S = S\<lparr>journal := journal S @ [n]\<rparr>"

definition set_details :: "nat \<Rightarrow> (sig_details \<Rightarrow> sig_details) \<Rightarrow> sig_state \<Rightarrow> sig_state" where
  "set_details i f S = S\<lparr>s_sig_details := (s_sig_details S)(i := f (s_sig_details S i))\<rparr>"

section \<open>Arrival\<close>

definition vsf_sysutil_alrm_sighandler :: "sig_state \<Rightarrow> sig_state" where
  "vsf_sysutil_alrm_sighandler S = jot (Alarm 1) S"

definition vsf_sysutil_common_sighandler :: "nat \<Rightarrow> sig_state \<Rightarrow> sig_state" where
  "vsf_sysutil_common_sighandler signum S =
     (if signum \<ge> NSIG then S
      else if sync_sig_handler (s_sig_details S signum) \<noteq> None then
        (let S' = set_details signum (pending_update (\<lambda>_. True)) S in
         if use_alarm (s_sig_details S signum) then jot (Alarm 1) S' else S')
      else S)"

text \<open>The kernel's part: a blocked signal is kept back, the default action and other handlers are not followed.\<close>

definition arrives :: "nat \<Rightarrow> sig_state \<Rightarrow> sig_state" where
  "arrives n S =
     (if blocked S n then S
      else case dispositions S n of
        Common_sighandler \<Rightarrow> vsf_sysutil_common_sighandler n S
      | Alrm_sighandler \<Rightarrow> vsf_sysutil_alrm_sighandler S
      | _ \<Rightarrow> S)"

section \<open>Installation\<close>

text \<open>The numbers are those of Linux.\<close>

fun vsf_sysutil_translate_sig :: "sysutil_signal \<Rightarrow> nat" where
  "vsf_sysutil_translate_sig SigALRM = SIG_ALRM"
| "vsf_sysutil_translate_sig SigTERM = 15"
| "vsf_sysutil_translate_sig SigCHLD = 17"
| "vsf_sysutil_translate_sig SigPIPE = 13"
| "vsf_sysutil_translate_sig SigURG = 23"
| "vsf_sysutil_translate_sig SigHUP = 1"

text \<open>\<^verbatim>\<open>sigaction\<close> and its companions fail only for numbers that are no signals.\<close>

definition vsf_sysutil_set_sighandler :: "nat \<Rightarrow> disposition \<Rightarrow> sig_state \<Rightarrow> sig_state" where
  "vsf_sysutil_set_sighandler sig d S = S\<lparr>dispositions := (dispositions S)(sig := d)\<rparr>"

definition vsf_sysutil_block_sig :: "sysutil_signal \<Rightarrow> sig_state \<Rightarrow> sig_state" where
  "vsf_sysutil_block_sig sig S = S\<lparr>blocked := (blocked S)(vsf_sysutil_translate_sig sig := True)\<rparr>"

definition vsf_sysutil_unblock_sig :: "sysutil_signal \<Rightarrow> sig_state \<Rightarrow> sig_state" where
  "vsf_sysutil_unblock_sig sig S = S\<lparr>blocked := (blocked S)(vsf_sysutil_translate_sig sig := False)\<rparr>"

definition vsf_sysutil_install_sighandler :: "sysutil_signal \<Rightarrow> string \<Rightarrow> int \<Rightarrow> bool \<Rightarrow> sig_state \<Rightarrow> sig_state" where
  "vsf_sysutil_install_sighandler sig handler private alarm S =
     (let realsig = vsf_sysutil_translate_sig sig;
          S1 = set_details realsig (\<lambda>d. d\<lparr>p_private := private, sync_sig_handler := Some handler, use_alarm := alarm\<rparr>) S;
          S2 = vsf_sysutil_set_sighandler realsig Common_sighandler S1
      in if alarm \<and> realsig \<noteq> SIG_ALRM then vsf_sysutil_set_sighandler SIG_ALRM Alrm_sighandler S2 else S2)"

definition forget_handler :: "nat \<Rightarrow> sig_state \<Rightarrow> sig_state" where
  "forget_handler i = set_details i (\<lambda>d. d\<lparr>p_private := 0, sync_sig_handler := None\<rparr>)"

definition vsf_sysutil_default_sig :: "sysutil_signal \<Rightarrow> sig_state \<Rightarrow> sig_state" where
  "vsf_sysutil_default_sig sig S =
     (let realsig = vsf_sysutil_translate_sig sig in forget_handler realsig (vsf_sysutil_set_sighandler realsig Sig_dfl S))"

definition vsf_sysutil_install_null_sighandler :: "sysutil_signal \<Rightarrow> sig_state \<Rightarrow> sig_state" where
  "vsf_sysutil_install_null_sighandler sig S =
     (let realsig = vsf_sysutil_translate_sig sig in vsf_sysutil_set_sighandler realsig Common_sighandler (forget_handler realsig S))"

definition vsf_sysutil_install_async_sighandler :: "sysutil_signal \<Rightarrow> string \<Rightarrow> sig_state \<Rightarrow> sig_state" where
  "vsf_sysutil_install_async_sighandler sig handler S =
     (let realsig = vsf_sysutil_translate_sig sig in
      vsf_sysutil_set_sighandler realsig (Async_sighandler handler) (vsf_sysutil_block_sig sig (forget_handler realsig S)))"

definition vsf_sysutil_install_io_handler :: "string \<Rightarrow> int \<Rightarrow> sig_state \<Rightarrow> sig_state res" where
  "vsf_sysutil_install_io_handler handler private S =
     (if s_io_handler S \<noteq> None then bug ''double register of i/o handler''
      else Inr (S\<lparr>s_io_handler := Some handler, s_p_io_handler_private := private\<rparr>))"

definition vsf_sysutil_uninstall_io_handler :: "sig_state \<Rightarrow> sig_state res" where
  "vsf_sysutil_uninstall_io_handler S =
     (if s_io_handler S = None then bug ''no i/o handler to unregister!''
      else Inr (S\<lparr>s_io_handler := None, s_p_io_handler_private := 0\<rparr>))"

definition vsf_sysutil_set_alarm :: "nat \<Rightarrow> sig_state \<Rightarrow> sig_state" where
  "vsf_sysutil_set_alarm trigger_seconds S = jot (Alarm trigger_seconds) S"

definition vsf_sysutil_clear_alarm :: "sig_state \<Rightarrow> sig_state" where
  "vsf_sysutil_clear_alarm S = vsf_sysutil_set_alarm 0 S"

text \<open>What \<^verbatim>\<open>vsf_sysutil_post_fork\<close> forgets of the signals.\<close>

definition post_fork_signals :: "sig_state \<Rightarrow> sig_state" where
  "post_fork_signals S = S\<lparr>s_io_handler := None,
     s_sig_details := (\<lambda>i. if i < NSIG then (s_sig_details S i)\<lparr>sync_sig_handler := None, pending := False\<rparr> else s_sig_details S i)\<rparr>"

section \<open>The deferred handlers\<close>

text \<open>The steps of a handler: a signal arrives, a check for pending signals is reached, handlers of signals and of i/o are
  installed and removed, signals are blocked and let through, the alarm is set, and the process ends, be it by an exit, by
  an assertion or in a loop of the handler.\<close>

datatype step =
    Arrives nat | Checks interrupt_context | Installs sysutil_signal string int bool | Sets_alarm nat
  | Defaults sysutil_signal | Installs_null sysutil_signal | Installs_async sysutil_signal string
  | Blocks sysutil_signal | Unblocks sysutil_signal | Installs_io string int | Uninstalls_io | Ends fault

type_synonym behaviour = "jotting list \<Rightarrow> who \<Rightarrow> step list"

text \<open>\<open>again\<close> is the check a handler reaches in its turn.\<close>

definition removing :: "sysutil_signal \<Rightarrow> sig_state \<Rightarrow> sig_state" where
  "removing sig S = jot (Removes (vsf_sysutil_translate_sig sig)) S"

fun do_step :: "(interrupt_context \<Rightarrow> sig_state \<Rightarrow> sig_state res) \<Rightarrow> step \<Rightarrow> sig_state \<Rightarrow> sig_state res" where
  "do_step again (Arrives n) S = Inr (arrives n S)"
| "do_step again (Checks c) S = again c S"
| "do_step again (Installs sig h p a) S = Inr (vsf_sysutil_install_sighandler sig h p a S)"
| "do_step again (Sets_alarm n) S = Inr (vsf_sysutil_set_alarm n S)"
| "do_step again (Defaults sig) S = Inr (removing sig (vsf_sysutil_default_sig sig S))"
| "do_step again (Installs_null sig) S = Inr (removing sig (vsf_sysutil_install_null_sighandler sig S))"
| "do_step again (Installs_async sig h) S = Inr (removing sig (vsf_sysutil_install_async_sighandler sig h S))"
| "do_step again (Blocks sig) S = Inr (vsf_sysutil_block_sig sig S)"
| "do_step again (Unblocks sig) S = Inr (vsf_sysutil_unblock_sig sig S)"
| "do_step again (Installs_io h p) S = vsf_sysutil_install_io_handler h p S"
| "do_step again Uninstalls_io S = vsf_sysutil_uninstall_io_handler S"
| "do_step again (Ends f) S = Inl f"

primrec do_all :: "('a \<Rightarrow> sig_state \<Rightarrow> sig_state res) \<Rightarrow> 'a list \<Rightarrow> sig_state \<Rightarrow> sig_state res" where
  "do_all f [] S = Inr S"
| "do_all f (x # xs) S = res_bind (f x S) (do_all f xs)"

definition call_handler :: "(interrupt_context \<Rightarrow> sig_state \<Rightarrow> sig_state res) \<Rightarrow> behaviour \<Rightarrow> who \<Rightarrow> sig_state \<Rightarrow> sig_state res" where
  "call_handler again B x S =
     (let S1 = jot (Enters x) S in
      res_bind (do_all (do_step again) (B (journal S1) x) S1) (\<lambda>S2. Inr (jot (Returns x) S2)))"

definition check_io :: "(interrupt_context \<Rightarrow> sig_state \<Rightarrow> sig_state res) \<Rightarrow> behaviour \<Rightarrow> interrupt_context \<Rightarrow> sig_state \<Rightarrow> sig_state res" where
  "check_io again B c S =
     (if s_io_handler S \<noteq> None \<and> \<not> s_io_handler_running S \<and> c = ContextIO then
        res_bind (call_handler again B Io (S\<lparr>s_io_handler_running := True\<rparr>)) (\<lambda>S'. Inr (S'\<lparr>s_io_handler_running := False\<rparr>))
      else Inr S)"

definition check_sig :: "(interrupt_context \<Rightarrow> sig_state \<Rightarrow> sig_state res) \<Rightarrow> behaviour \<Rightarrow> nat \<Rightarrow> sig_state \<Rightarrow> sig_state res" where
  "check_sig again B i S =
     (let d = s_sig_details S i in
      if pending d \<and> \<not> running d then
        (let S1 = set_details i (running_update (\<lambda>_. True)) S;
             S2 = (if use_alarm d then jot (Alarm 0) S1 else S1) in
         res_bind
           (if sync_sig_handler d \<noteq> None then call_handler again B (Sig i) (set_details i (pending_update (\<lambda>_. False)) S2) else Inr S2)
           (\<lambda>S3. Inr (set_details i (running_update (\<lambda>_. False)) S3)))
      else Inr S)"

text \<open>Checks inside handlers inside checks: the number is the depth that is left.\<close>

primrec check_actions :: "nat \<Rightarrow> behaviour \<Rightarrow> interrupt_context \<Rightarrow> sig_state \<Rightarrow> sig_state res" where
  "check_actions 0 B c S = Inl (Endless ''vsf_sysutil_check_pending_actions'')"
| "check_actions (Suc d) B c S =
     res_bind (check_io (check_actions d B) B c S) (do_all (check_sig (check_actions d B) B) [0 ..< NSIG])"

text \<open>No signal and no i/o handler can be in the middle of its run twice, so this depth is never used up.\<close>

definition vsf_sysutil_check_pending_actions :: "behaviour \<Rightarrow> interrupt_context \<Rightarrow> sig_state \<Rightarrow> sig_state res" where
  "vsf_sysutil_check_pending_actions B c S = check_actions (NSIG + 2) B c S"


section \<open>Nesting\<close>

text \<open>Reading a journal with the handlers that are in the middle of their run, the innermost first: none is entered
  again, and the innermost returns first.\<close>

fun scan :: "who list \<Rightarrow> jotting list \<Rightarrow> who list option" where
  "scan st [] = Some st"
| "scan st (Enters x # js) = (if x \<in> set st then None else scan (x # st) js)"
| "scan (y # ys) (Returns x # js) = (if y = x then scan ys js else None)"
| "scan [] (Returns x # js) = None"
| "scan st (Alarm n # js) = scan st js"
| "scan st (Removes i # js) = scan st js"

lemma scan_append: "scan st a = Some st' \<Longrightarrow> scan st (a @ b) = scan st' b"
  by (induction st a rule: scan.induct) (auto split: if_splits)

fun busy :: "sig_state \<Rightarrow> who \<Rightarrow> bool" where
  "busy S Io = s_io_handler_running S"
| "busy S (Sig i) = running (s_sig_details S i)"

definition handled :: "sig_state \<Rightarrow> nat \<Rightarrow> bool" where
  "handled S i \<longleftrightarrow> sync_sig_handler (s_sig_details S i) \<noteq> None"

definition due :: "sig_state \<Rightarrow> nat \<Rightarrow> bool" where
  "due S i \<longleftrightarrow> handled S i \<and> pending (s_sig_details S i)"

text \<open>What a run does to the state: the journal grows by a well nested piece, what is in the middle of its run stays so, and a
  signal that is due stays due until its handler is entered or removed.\<close>

definition met :: "sig_state \<Rightarrow> jotting list \<Rightarrow> sig_state \<Rightarrow> nat \<Rightarrow> bool" where
  "met S js S' i \<longleftrightarrow> Removes i \<in> set js \<or>
     (handled S i \<longrightarrow> handled S' i) \<and> (due S i \<longrightarrow> due S' i \<or> Enters (Sig i) \<in> set js)"

definition evolves :: "who list \<Rightarrow> sig_state \<Rightarrow> jotting list \<Rightarrow> sig_state \<Rightarrow> bool" where
  "evolves st S js S' \<longleftrightarrow>
     journal S' = journal S @ js \<and> scan st js = Some st \<and> busy S' = busy S \<and> (\<forall>i. met S js S' i)"

lemma evolves_refl [simp]: "evolves st S [] S"
  by (simp add: evolves_def met_def)

lemma evolves_trans: "evolves st S a S' \<Longrightarrow> evolves st S' b S'' \<Longrightarrow> evolves st S (a @ b) S''"
  unfolding evolves_def met_def by (simp add: scan_append) blast

lemma details_simps [simp]:
  "s_sig_details (jot n S) = s_sig_details S" "journal (jot n S) = journal S @ [n]"
  "s_io_handler_running (jot n S) = s_io_handler_running S" "s_io_handler (jot n S) = s_io_handler S"
  "s_sig_details (set_details i f S) = (s_sig_details S)(i := f (s_sig_details S i))" "journal (set_details i f S) = journal S"
  "s_io_handler_running (set_details i f S) = s_io_handler_running S" "s_io_handler (set_details i f S) = s_io_handler S"
  by (simp_all add: jot_def set_details_def)

lemma busy_eqI: "s_io_handler_running S' = s_io_handler_running S \<Longrightarrow> (\<And>i. running (s_sig_details S' i) = running (s_sig_details S i)) \<Longrightarrow> busy S' = busy S"
proof
  fix x assume "s_io_handler_running S' = s_io_handler_running S" and "\<And>i. running (s_sig_details S' i) = running (s_sig_details S i)"
  then show "busy S' x = busy S x" by (cases x) simp_all
qed

lemma busy_jot [simp]: "busy (jot n S) = busy S"
  by (rule busy_eqI) simp_all

text \<open>How a handler may end the process.\<close>

definition ended :: "behaviour \<Rightarrow> fault \<Rightarrow> bool" where
  "ended B f \<longleftrightarrow> (\<exists>js x. Ends f \<in> set (B js x) \<or>
     (\<exists>h p. Installs_io h p \<in> set (B js x)) \<and> f = Oops ''double register of i/o handler'' \<or>
     Uninstalls_io \<in> set (B js x) \<and> f = Oops ''no i/o handler to unregister!'')"

text \<open>The outcome of a run from \<open>S\<close>: the process ended by a handler, or a state that evolved from \<open>S\<close>.\<close>

definition fares :: "behaviour \<Rightarrow> who list \<Rightarrow> sig_state \<Rightarrow> (jotting list \<Rightarrow> bool) \<Rightarrow> sig_state res \<Rightarrow> bool" where
  "fares B st S Q r \<longleftrightarrow> (case r of Inl f \<Rightarrow> ended B f | Inr S' \<Rightarrow> \<exists>js. evolves st S js S' \<and> Q js)"

lemma fares_Inr [intro]: "evolves st S js S' \<Longrightarrow> Q js \<Longrightarrow> fares B st S Q (Inr S')"
  by (auto simp: fares_def)

lemma fares_weaken: "fares B st S P r \<Longrightarrow> (\<And>js. P js \<Longrightarrow> Q js) \<Longrightarrow> fares B st S Q r"
  by (cases r) (auto simp: fares_def)

lemma fares_same [simp]: "Q [] \<Longrightarrow> fares B st S Q (Inr S)"
  by (rule fares_Inr [OF evolves_refl])

lemma fares_bind:
  assumes "fares B st S P r"
    and "\<And>S' js. evolves st S js S' \<Longrightarrow> P js \<Longrightarrow> fares B st S' (\<lambda>b. Q (js @ b)) (k S')"
  shows "fares B st S Q (res_bind r k)"
proof (cases r)
  case (Inl f)
  with assms(1) show ?thesis by (simp add: fares_def)
next
  case (Inr S')
  with assms(1) obtain js where js: "evolves st S js S'" "P js" by (auto simp: fares_def)
  from assms(2) [OF this] show ?thesis
    using evolves_trans [OF js(1)] Inr by (cases "k S'") (auto simp: fares_def)
qed

lemma evolves_step:
  assumes "\<And>c. p \<noteq> Checks c" and "p \<in> set (B h x)"
  shows "fares B st S (\<lambda>_. True) (do_step again p S)"
proof -
  note defs = evolves_def met_def handled_def due_def
  note setters = vsf_sysutil_set_sighandler_def vsf_sysutil_block_sig_def forget_handler_def Let_def
  have alarm: "evolves st S [Alarm n] (jot (Alarm n) S)" for n by (auto simp: defs)
  have common: "\<exists>js. evolves st S js (vsf_sysutil_common_sighandler n S)" for n
    by (rule exI [of _ "if n < NSIG \<and> handled S n \<and> use_alarm (s_sig_details S n) then [Alarm 1] else []"])
      (auto simp: defs vsf_sysutil_common_sighandler_def Let_def intro!: busy_eqI split: if_splits)
  show ?thesis
  proof (cases p)
    case (Arrives n)
    have "\<exists>js. evolves st S js S" by (rule exI [of _ "[]"]) simp
    then have "\<exists>js. evolves st S js (arrives n S)"
      using common [of n] alarm [of 1]
      unfolding arrives_def vsf_sysutil_alrm_sighandler_def by (auto split: disposition.split)
    with Arrives show ?thesis by auto
  next
    case (Installs sig g q a)
    have "evolves st S [] (vsf_sysutil_install_sighandler sig g q a S)"
      by (auto simp: defs vsf_sysutil_install_sighandler_def setters intro!: busy_eqI split: if_splits)
    with Installs show ?thesis by auto
  next
    case (Sets_alarm n)
    with alarm [of n] show ?thesis by (auto simp: vsf_sysutil_set_alarm_def)
  next
    case (Defaults sig)
    have "evolves st S [Removes (vsf_sysutil_translate_sig sig)] (removing sig (vsf_sysutil_default_sig sig S))"
      by (auto simp: defs removing_def vsf_sysutil_default_sig_def setters intro!: busy_eqI split: if_splits)
    with Defaults show ?thesis by auto
  next
    case (Installs_null sig)
    have "evolves st S [Removes (vsf_sysutil_translate_sig sig)] (removing sig (vsf_sysutil_install_null_sighandler sig S))"
      by (auto simp: defs removing_def vsf_sysutil_install_null_sighandler_def setters intro!: busy_eqI split: if_splits)
    with Installs_null show ?thesis by auto
  next
    case (Installs_async sig g)
    have "evolves st S [Removes (vsf_sysutil_translate_sig sig)] (removing sig (vsf_sysutil_install_async_sighandler sig g S))"
      by (auto simp: defs removing_def vsf_sysutil_install_async_sighandler_def setters intro!: busy_eqI split: if_splits)
    with Installs_async show ?thesis by auto
  next
    case (Blocks sig)
    have "evolves st S [] (vsf_sysutil_block_sig sig S)" by (auto simp: defs setters intro!: busy_eqI split: if_splits)
    with Blocks show ?thesis by auto
  next
    case (Unblocks sig)
    have "evolves st S [] (vsf_sysutil_unblock_sig sig S)" by (auto simp: defs vsf_sysutil_unblock_sig_def intro!: busy_eqI)
    with Unblocks show ?thesis by auto
  next
    case (Installs_io g q)
    have "evolves st S [] (S\<lparr>s_io_handler := Some g, s_p_io_handler_private := q\<rparr>)" by (auto simp: defs intro!: busy_eqI)
    with Installs_io assms(2) show ?thesis by (auto simp: vsf_sysutil_install_io_handler_def fares_def ended_def bug_def)
  next
    case Uninstalls_io
    have "evolves st S [] (S\<lparr>s_io_handler := None, s_p_io_handler_private := 0\<rparr>)" by (auto simp: defs intro!: busy_eqI)
    with Uninstalls_io assms(2) show ?thesis by (auto simp: vsf_sysutil_uninstall_io_handler_def fares_def ended_def bug_def)
  qed (use assms in \<open>auto simp: fares_def ended_def\<close>)
qed

text \<open>The depth a check needs: the handlers that are not in the middle of their run.\<close>

definition slots :: "who set" where
  "slots = insert Io (Sig ` {0 ..< NSIG})"

definition idle_slots :: "(who \<Rightarrow> bool) \<Rightarrow> nat" where
  "idle_slots b = card {x \<in> slots. \<not> b x}"

definition tracks :: "who list \<Rightarrow> sig_state \<Rightarrow> bool" where
  "tracks st S \<longleftrightarrow> (\<forall>x. x \<in> set st \<longleftrightarrow> busy S x)"

definition sound :: "behaviour \<Rightarrow> nat \<Rightarrow> ('a \<Rightarrow> sig_state \<Rightarrow> sig_state res) \<Rightarrow> 'a \<Rightarrow> bool" where
  "sound B d f a \<longleftrightarrow> (\<forall>st S. tracks st S \<longrightarrow> idle_slots (busy S) < d \<longrightarrow> fares B st S (\<lambda>_. True) (f a S))"

lemma evolves_same: "evolves st S js S' \<Longrightarrow> busy S' = busy S \<and> tracks st S' = tracks st S"
  by (simp add: evolves_def tracks_def)

lemma finite_slots [simp]: "finite slots"
  by (simp add: slots_def)

lemma idle_less: "x \<in> slots \<Longrightarrow> \<not> b x \<Longrightarrow> idle_slots (b(x := True)) < idle_slots b"
  unfolding idle_slots_def by (rule psubset_card_mono) auto

lemma idle_bound: "idle_slots b \<le> NSIG + 1"
proof -
  have "idle_slots b \<le> card slots" unfolding idle_slots_def by (rule card_mono) auto
  also have "card slots \<le> Suc (card (Sig ` {0 ..< NSIG}))" unfolding slots_def by (rule card_insert_le_m1) simp_all
  also have "card (Sig ` {0 ..< NSIG}) \<le> NSIG" using card_image_le [of "{0 ..< NSIG}" Sig] by simp
  finally show ?thesis by simp
qed


lemma do_all_sound:
  assumes "\<And>x. x \<in> set xs \<Longrightarrow> sound B d f x" and "tracks st S" and "idle_slots (busy S) < d"
  shows "fares B st S (\<lambda>_. True) (do_all f xs S)"
  using assms
proof (induction xs arbitrary: S)
  case (Cons x xs)
  then have "fares B st S (\<lambda>_. True) (f x S)" by (simp add: sound_def)
  then show ?case unfolding do_all.simps
    by (rule fares_bind) (use Cons evolves_same in \<open>auto simp: \<close>)
qed auto

text \<open>A handler that is called is entered and runs; it returns, or it ends the process.\<close>

definition called :: "behaviour \<Rightarrow> who \<Rightarrow> who list \<Rightarrow> sig_state \<Rightarrow> sig_state res \<Rightarrow> bool" where
  "called B x st S r \<longleftrightarrow> (case r of Inl f \<Rightarrow> ended B f
     | Inr S' \<Rightarrow> \<exists>js. journal S' = journal S @ Enters x # js \<and> scan st (Enters x # js) = Some st \<and> busy S' = busy S \<and>
         (\<forall>i. met S (Enters x # js) S' i))"

lemma call_handler_sound:
  assumes "\<And>c. sound B d again c" and "tracks (x # st) S" and "x \<notin> set st" and "idle_slots (busy S) < d"
  shows "called B x st S (call_handler again B x S)"
proof -
  let ?S = "jot (Enters x) S" and ?run = "do_all (do_step again) (B (journal (jot (Enters x) S)) x) (jot (Enters x) S)"
  have "sound B d (do_step again) p" if "p \<in> set (B (journal ?S) x)" for p
  proof (cases "\<exists>c. p = Checks c")
    case True
    then show ?thesis using assms(1) by (auto simp: sound_def)
  next
    case False
    then show ?thesis unfolding sound_def using evolves_step [of p B "journal ?S" x] that by blast
  qed
  moreover have "tracks (x # st) ?S" "idle_slots (busy ?S) < d" using assms(2,4) by (simp_all add: tracks_def)
  ultimately have run: "fares B (x # st) ?S (\<lambda>_. True) ?run" by (rule do_all_sound)
  show ?thesis
  proof (cases ?run)
    case (Inl f)
    with run show ?thesis by (simp add: fares_def called_def call_handler_def)
  next
    case (Inr S1)
    with run obtain js where js: "evolves (x # st) ?S js S1" by (auto simp: fares_def)
    then have "scan (x # st) (js @ [Returns x]) = Some st" by (auto simp: evolves_def scan_append)
    then have "journal (jot (Returns x) S1) = journal S @ Enters x # js @ [Returns x] \<and>
        scan st (Enters x # js @ [Returns x]) = Some st \<and> busy (jot (Returns x) S1) = busy S \<and>
        (\<forall>i. met S (Enters x # js @ [Returns x]) (jot (Returns x) S1) i)"
      using js assms(3) by (auto simp: evolves_def met_def handled_def due_def)
    with Inr show ?thesis by (auto simp: call_handler_def called_def)
  qed
qed

lemma check_io_sound:
  assumes "\<And>c. sound B d again c"
  shows "sound B (Suc d) (\<lambda>c. check_io again B c) c"
  unfolding sound_def
proof (intro allI impI)
  fix st S assume st: "tracks st S" and d: "idle_slots (busy S) < Suc d"
  show "fares B st S (\<lambda>_. True) (check_io again B c S)"
  proof (cases "s_io_handler S \<noteq> None \<and> \<not> s_io_handler_running S \<and> c = ContextIO")
    case False
    then show ?thesis by (auto simp: check_io_def)
  next
    case True
    let ?S = "S\<lparr>s_io_handler_running := True\<rparr>"
    have b: "busy ?S = (busy S)(Io := True)"
    proof
      show "busy ?S x = ((busy S)(Io := True)) x" for x by (cases x) simp_all
    qed
    have "tracks (Io # st) ?S" "Io \<notin> set st" using st True by (auto simp: tracks_def b)
    moreover have "idle_slots (busy ?S) < d"
      using idle_less [of Io "busy S"] d True unfolding b by (simp add: slots_def)
    ultimately have call: "called B Io st ?S (call_handler again B Io ?S)" by (rule call_handler_sound [OF assms])
    show ?thesis
    proof (cases "call_handler again B Io ?S")
      case (Inl f)
      with call True show ?thesis by (simp add: called_def fares_def check_io_def)
    next
      case (Inr S1)
      with call obtain js where S1: "journal S1 = journal ?S @ Enters Io # js" "scan st (Enters Io # js) = Some st"
        "busy S1 = busy ?S" "\<forall>i. met ?S (Enters Io # js) S1 i"
        by (auto simp: called_def)
      have "busy (S1\<lparr>s_io_handler_running := False\<rparr>) = busy S"
      proof
        fix x show "busy (S1\<lparr>s_io_handler_running := False\<rparr>) x = busy S x"
          using fun_cong [OF S1(3), of x] True by (cases x) simp_all
      qed
      then have "evolves st S (Enters Io # js) (S1\<lparr>s_io_handler_running := False\<rparr>)"
        using S1 by (auto simp: evolves_def met_def handled_def due_def)
      then show ?thesis using True Inr by (auto simp: check_io_def)
    qed
  qed
qed

lemma busy_set: "busy (set_details i (running_update (\<lambda>_. v)) S) = (busy S)(Sig i := v)"
proof
  show "busy (set_details i (running_update (\<lambda>_. v)) S) x = ((busy S)(Sig i := v)) x" for x by (cases x) simp_all
qed

text \<open>The turn of one signal: a due signal whose handler is not running is entered.\<close>

lemma check_sig_sound:
  assumes "\<And>c. sound B d again c" and "i < NSIG" and "tracks st S" and "idle_slots (busy S) < Suc d"
  shows "fares B st S (\<lambda>js. due S i \<and> \<not> busy S (Sig i) \<longrightarrow> Enters (Sig i) \<in> set js) (check_sig again B i S)"
proof (cases "pending (s_sig_details S i) \<and> \<not> running (s_sig_details S i)")
  case False
  then have "check_sig again B i S = Inr S" "\<not> (due S i \<and> \<not> busy S (Sig i))" by (auto simp: check_sig_def due_def)
  then show ?thesis using evolves_refl [of st S] by auto
next
  case True
  let ?d = "s_sig_details S i" and ?S1 = "set_details i (running_update (\<lambda>_. True)) S"
  let ?as = "if use_alarm ?d then [Alarm 0] else []"
  define S2 where "S2 = (if use_alarm ?d then jot (Alarm 0) ?S1 else ?S1)"
  have S2: "journal S2 = journal S @ ?as" "s_sig_details S2 = s_sig_details ?S1" "busy S2 = (busy S)(Sig i := True)"
    by (simp_all add: S2_def busy_set)
  have undo: "(busy S)(Sig i := False) = busy S" using True by (auto simp: fun_eq_iff)
  show ?thesis
  proof (cases "handled S i")
    case False
    let ?R = "set_details i (running_update (\<lambda>_. False)) S2"
    have "check_sig again B i S = Inr ?R" using True False by (simp add: check_sig_def Let_def S2_def handled_def)
    moreover have "evolves st S ?as ?R"
      using True S2 undo by (auto simp: evolves_def met_def handled_def due_def busy_set split: if_splits)
    ultimately show ?thesis using False by (auto simp: due_def)
  next
    case h: True
    let ?S3 = "set_details i (pending_update (\<lambda>_. False)) S2"
    have b3: "busy ?S3 = (busy S)(Sig i := True)" using S2(3) by (subst busy_eqI [of ?S3 S2]) auto
    have "tracks (Sig i # st) ?S3" "Sig i \<notin> set st" using assms(3) True by (auto simp: tracks_def b3)
    moreover have "idle_slots (busy ?S3) < d"
      using idle_less [of "Sig i" "busy S"] assms(2,4) True unfolding b3 by (simp add: slots_def)
    ultimately have call: "called B (Sig i) st ?S3 (call_handler again B (Sig i) ?S3)"
      by (rule call_handler_sound [OF assms(1)])
    show ?thesis
    proof (cases "call_handler again B (Sig i) ?S3")
      case (Inl f)
      with call True h show ?thesis by (simp add: called_def fares_def check_sig_def S2_def handled_def)
    next
      case (Inr S4)
      with call obtain js where S4: "journal S4 = journal ?S3 @ Enters (Sig i) # js"
        "scan st (Enters (Sig i) # js) = Some st" "busy S4 = busy ?S3" "\<forall>k. met ?S3 (Enters (Sig i) # js) S4 k"
        by (auto simp: called_def)
      let ?R = "set_details i (running_update (\<lambda>_. False)) S4" and ?js = "?as @ Enters (Sig i) # js"
      have hd: "handled ?S3 k = handled S k" "k \<noteq> i \<Longrightarrow> due ?S3 k = due S k" "handled ?R k = handled S4 k" "due ?R k = due S4 k" for k
        by (simp_all add: handled_def due_def S2(2))
      have "scan st ?js = Some st" using S4(2) by (cases "use_alarm ?d") simp_all
      moreover have "busy ?R = busy S" using S4(3) undo by (simp add: busy_set b3)
      moreover have "met S ?js ?R k" for k
        using spec [OF S4(4), of k] hd [of k] unfolding met_def by (cases "k = i") auto
      ultimately have "evolves st S ?js ?R" using S4(1) S2(1) by (simp add: evolves_def)
      moreover have "check_sig again B i S = Inr ?R" using True h Inr by (simp add: check_sig_def Let_def S2_def handled_def)
      ultimately show ?thesis by (auto intro!: fares_Inr [of _ _ ?js])
    qed
  qed
qed

lemma check_sigs_sound:
  assumes "\<And>c. sound B d again c" and "\<And>i. i \<in> set is \<Longrightarrow> i < NSIG" and "tracks st S" and "idle_slots (busy S) < Suc d"
  shows "fares B st S (\<lambda>js. \<forall>i \<in> set is. due S i \<and> \<not> busy S (Sig i) \<longrightarrow> Enters (Sig i) \<in> set js \<or> Removes i \<in> set js)
    (do_all (check_sig again B) is S)"
  using assms(2-4)
proof (induction "is" arbitrary: S)
  case (Cons i "is")
  have "fares B st S (\<lambda>js. due S i \<and> \<not> busy S (Sig i) \<longrightarrow> Enters (Sig i) \<in> set js) (check_sig again B i S)"
    by (rule check_sig_sound [OF assms(1)]) (use Cons.prems in auto)
  then show ?case unfolding do_all.simps
  proof (rule fares_bind)
    fix S1 a assume a: "evolves st S a S1" "due S i \<and> \<not> busy S (Sig i) \<longrightarrow> Enters (Sig i) \<in> set a"
    have "fares B st S1 (\<lambda>b. \<forall>i \<in> set is. due S1 i \<and> \<not> busy S1 (Sig i) \<longrightarrow> Enters (Sig i) \<in> set b \<or> Removes i \<in> set b)
        (do_all (check_sig again B) is S1)"
      by (rule Cons.IH) (use Cons.prems evolves_same [OF a(1)] in auto)
    then show "fares B st S1 (\<lambda>b. \<forall>k \<in> set (i # is). due S k \<and> \<not> busy S (Sig k) \<longrightarrow>
        Enters (Sig k) \<in> set (a @ b) \<or> Removes k \<in> set (a @ b)) (do_all (check_sig again B) is S1)"
      using a unfolding fares_def evolves_def met_def by (fastforce split: sum.splits)
  qed
qed auto

lemma check_actions_sound:
  "tracks st S \<Longrightarrow> idle_slots (busy S) < d \<Longrightarrow>
     fares B st S (\<lambda>js. \<forall>i < NSIG. due S i \<and> \<not> busy S (Sig i) \<longrightarrow> Enters (Sig i) \<in> set js \<or> Removes i \<in> set js)
       (check_actions d B c S)"
proof (induction d arbitrary: c st S)
  case (Suc d)
  have again: "sound B d (check_actions d B) c'" for c'
    unfolding sound_def by (intro allI impI fares_weaken [OF Suc.IH]) simp_all
  have "fares B st S (\<lambda>_. True) (check_io (check_actions d B) B c S)"
    using check_io_sound [OF again, of c] Suc.prems unfolding sound_def by blast
  then show ?case unfolding check_actions.simps
  proof (rule fares_bind)
    fix S1 a assume a: "evolves st S a S1"
    have "fares B st S1 (\<lambda>b. \<forall>i \<in> set [0 ..< NSIG]. due S1 i \<and> \<not> busy S1 (Sig i) \<longrightarrow>
        Enters (Sig i) \<in> set b \<or> Removes i \<in> set b) (do_all (check_sig (check_actions d B) B) [0 ..< NSIG] S1)"
      by (rule check_sigs_sound [OF again]) (use Suc.prems evolves_same [OF a] in auto)
    then show "fares B st S1 (\<lambda>b. \<forall>i < NSIG. due S i \<and> \<not> busy S (Sig i) \<longrightarrow>
        Enters (Sig i) \<in> set (a @ b) \<or> Removes i \<in> set (a @ b)) (do_all (check_sig (check_actions d B) B) [0 ..< NSIG] S1)"
      using a unfolding fares_def evolves_def met_def by (fastforce split: sum.splits)
  qed
qed simp

section \<open>Properties\<close>

text \<open>C13: the deferred signals. The handlers may be interrupted by signals, check for pending signals in their turn,
  install and remove handlers, and end the process. Either \<^verbatim>\<open>vsf_sysutil_check_pending_actions\<close> does not return because a
  handler ended the process (by one of its own steps, or by registering the i/o handler twice or removing one that is not
  there). Or it returns, and then no handler was entered while it was in the middle of its run, handlers returned in the
  opposite order of their entries, every flag that marks a running handler is as before, and each signal that was pending at
  the start, with a handler that was not running, has had its handler entered, unless a handler removed it. The nesting
  of checks inside handlers never goes on without end.\<close>
theorem pending_signals_handled:
  assumes "\<And>x. x \<in> set st \<longleftrightarrow> busy S x"
  shows "case vsf_sysutil_check_pending_actions B c S of
      Inl f \<Rightarrow> (\<exists>js x. Ends f \<in> set (B js x) \<or>
        (\<exists>h p. Installs_io h p \<in> set (B js x)) \<and> f = Oops ''double register of i/o handler'' \<or>
        Uninstalls_io \<in> set (B js x) \<and> f = Oops ''no i/o handler to unregister!'')
    | Inr S' \<Rightarrow> \<exists>js. journal S' = journal S @ js \<and> scan st js = Some st \<and> busy S' = busy S \<and>
        (\<forall>i < NSIG. sync_sig_handler (s_sig_details S i) \<noteq> None \<and> pending (s_sig_details S i) \<and>
           \<not> running (s_sig_details S i) \<longrightarrow> Enters (Sig i) \<in> set js \<or> Removes i \<in> set js)"
proof -
  have "tracks st S" using assms by (simp add: tracks_def)
  moreover have "idle_slots (busy S) < NSIG + 2" using idle_bound [of "busy S"] by simp
  ultimately have "fares B st S (\<lambda>js. \<forall>i < NSIG. due S i \<and> \<not> busy S (Sig i) \<longrightarrow>
      Enters (Sig i) \<in> set js \<or> Removes i \<in> set js) (vsf_sysutil_check_pending_actions B c S)"
    unfolding vsf_sysutil_check_pending_actions_def by (rule check_actions_sound)
  then show ?thesis
    unfolding fares_def ended_def evolves_def due_def handled_def busy.simps by (fastforce split: sum.splits)
qed

text \<open>While the handler of SIGCHLD runs, SIGALRM and SIGCHLD are pending.\<close>

definition quiet_details :: sig_details where
  "quiet_details = \<lparr>sync_sig_handler = None, p_private = 0, pending = False, running = False, use_alarm = False\<rparr>"

definition demo_signals :: sig_state where
  "demo_signals = \<lparr>s_sig_details = (\<lambda>_. quiet_details)
       (14 := quiet_details\<lparr>sync_sig_handler := Some ''handle_alarm_timeout'', pending := True\<rparr>,
        17 := quiet_details\<lparr>sync_sig_handler := Some ''handle_sigchld'', pending := True, running := True\<rparr>),
     s_io_handler = None, s_p_io_handler_private = 0, s_io_handler_running = False,
     dispositions = (\<lambda>_. Common_sighandler), blocked = (\<lambda>_. False), journal = []\<rparr>"

theorem pending_signals_handled_witness:
  "\<exists>S' js. vsf_sysutil_check_pending_actions (\<lambda>_ _. [Arrives 14, Checks ContextUnknown, Defaults SigHUP]) ContextIO demo_signals = Inr S' \<and>
     scan [Sig 17] js = Some [Sig 17] \<and> (Enters (Sig 14) \<in> set js \<or> Removes 14 \<in> set js)"
proof -
  have "x \<in> set [Sig 17] \<longleftrightarrow> busy demo_signals x" for x by (cases x) (auto simp: demo_signals_def quiet_details_def)
  note run = pending_signals_handled [OF this, of "\<lambda>_ _. [Arrives 14, Checks ContextUnknown, Defaults SigHUP]" ContextIO]
  have due: "sync_sig_handler (s_sig_details demo_signals 14) \<noteq> None \<and> pending (s_sig_details demo_signals 14) \<and>
      \<not> running (s_sig_details demo_signals 14)"
    by (simp add: demo_signals_def quiet_details_def)
  show ?thesis
  proof (cases "vsf_sysutil_check_pending_actions (\<lambda>_ _. [Arrives 14, Checks ContextUnknown, Defaults SigHUP]) ContextIO demo_signals")
    case (Inl f)
    with run show ?thesis by simp
  next
    case (Inr S')
    with run obtain js where js: "scan [Sig 17] js = Some [Sig 17]" and
      all: "\<forall>i < NSIG. sync_sig_handler (s_sig_details demo_signals i) \<noteq> None \<and> pending (s_sig_details demo_signals i) \<and>
        \<not> running (s_sig_details demo_signals i) \<longrightarrow> Enters (Sig i) \<in> set js \<or> Removes i \<in> set js"
      by auto
    from spec [OF all, of 14] due have "Enters (Sig 14) \<in> set js \<or> Removes 14 \<in> set js" by simp
    with Inr js show ?thesis by blast
  qed
qed

end
