(* ===== verification/Sysio.thy ===== *)
theory Sysio
  imports Prelude
begin

text \<open>
  The reading and writing loops of \<^verbatim>\<open>sysutil.c\<close>. The answers of the kernel to the calls of \<^verbatim>\<open>read\<close> and \<^verbatim>\<open>write\<close> on one
  descriptor are a list; where it ends, a call does not return. The signals handled between the calls are in theory \<open>Signals\<close>.
\<close>

text \<open>\<open>Interrupted\<close> is an error with \<^verbatim>\<open>EINTR\<close>, \<open>Fails\<close> any other.\<close>

datatype answer = Interrupted | Fails | Moved bytes

section \<open>Reading\<close>

text \<open>The answer to a read holds the bytes. A result is the return value, the bytes stored and the answers left.\<close>

fun vsf_sysutil_read :: "answer list \<Rightarrow> (int \<times> bytes \<times> answer list) option" where
  "vsf_sysutil_read [] = None"
| "vsf_sysutil_read (Interrupted # k) = vsf_sysutil_read k"
| "vsf_sysutil_read (Fails # k) = Some (- 1, [], k)"
| "vsf_sysutil_read (Moved bs # k) = Some (int (length bs), bs, k)"

lemma read_shorter: "vsf_sysutil_read k = Some (r, bs, k') \<Longrightarrow> length k' < length k"
  by (induction k rule: vsf_sysutil_read.induct) auto

function read_rest :: "nat \<Rightarrow> bytes \<Rightarrow> answer list \<Rightarrow> (int \<times> bytes) res option" where
  "read_rest sz got k =
     (case vsf_sysutil_read k of
        None \<Rightarrow> None
      | Some (r, bs, k') \<Rightarrow>
          if r < 0 then Some (Inr (r, got))
          else if r = 0 then Some (Inr (int (length got), got))
          else if nat r > sz then Some (die ''retval too big in vsf_sysutil_read_loop'')
          else if sz - nat r = 0 then Some (Inr (int (length (got @ bs)), got @ bs))
          else read_rest (sz - nat r) (got @ bs) k')"
  by pat_completeness auto
termination by (relation "measure (\<lambda>(sz, got, k). length k)") (auto simp: read_shorter)

declare read_rest.simps [simp del]

definition vsf_sysutil_read_loop :: "nat \<Rightarrow> answer list \<Rightarrow> (int \<times> bytes) res option" where
  "vsf_sysutil_read_loop sz k =
     (if sz > INT_MAX then Some (die ''size too big in vsf_sysutil_read_loop'') else read_rest sz [] k)"

section \<open>Writing\<close>

text \<open>The answer to a write holds what was taken; only its length is told to the caller.\<close>

definition vsf_sysutil_write :: "answer list \<Rightarrow> (int \<times> answer list) option" where
  "vsf_sysutil_write k = map_option (\<lambda>(r, bs, k'). (r, k')) (vsf_sysutil_read k)"

function write_rest :: "bytes \<Rightarrow> bytes \<Rightarrow> answer list \<Rightarrow> (int \<times> bytes) res option" where
  "write_rest p_buf sent k =
     (case vsf_sysutil_write k of
        None \<Rightarrow> None
      | Some (r, k') \<Rightarrow>
          if r < 0 then Some (Inr (r, sent))
          else if r = 0 then Some (Inr (int (length sent), sent))
          else if nat r > length p_buf then Some (die ''retval too big in vsf_sysutil_write_loop'')
          else if length p_buf - nat r = 0 then Some (Inr (int (length (sent @ take (nat r) p_buf)), sent @ take (nat r) p_buf))
          else write_rest (drop (nat r) p_buf) (sent @ take (nat r) p_buf) k')"
  by pat_completeness auto
termination by (relation "measure (\<lambda>(p_buf, sent, k). length k)") (auto simp: vsf_sysutil_write_def read_shorter)

declare write_rest.simps [simp del]

text \<open>The return value and the bytes that went out.\<close>

definition vsf_sysutil_write_loop :: "bytes \<Rightarrow> answer list \<Rightarrow> (int \<times> bytes) res option" where
  "vsf_sysutil_write_loop p_buf k =
     (if length p_buf > INT_MAX then Some (die ''size too big in vsf_sysutil_write_loop'') else write_rest p_buf [] k)"

section \<open>Lemmas\<close>

text \<open>A kernel that moves no more than it is asked to: after \<open>n\<close> bytes wanted, the pieces fit.\<close>

fun fits :: "nat \<Rightarrow> answer list \<Rightarrow> bool" where
  "fits n [] = True"
| "fits n (Moved bs # k) = (length bs \<le> n \<and> fits (n - length bs) k)"
| "fits n (a # k) = fits n k"

lemma read_fits:
  "vsf_sysutil_read k = Some (r, bs, k') \<Longrightarrow> fits n k \<Longrightarrow>
     (r < 0 \<and> bs = [] \<or> r = int (length bs)) \<and> length bs \<le> n \<and> fits (n - length bs) k'"
  by (induction k rule: vsf_sysutil_read.induct) auto

lemma read_rest_exact:
  "read_rest sz got k = Some x \<Longrightarrow> fits sz k \<Longrightarrow> 0 < sz \<Longrightarrow>
     \<exists>r bs. x = Inr (r, got @ bs) \<and> length bs \<le> sz \<and> (r < 0 \<or> r = int (length (got @ bs)))"
proof (induction sz got k rule: read_rest.induct)
  case (1 sz got k)
  from 1(2) obtain r bs k' where v: "vsf_sysutil_read k = Some (r, bs, k')"
    by (subst (asm) read_rest.simps) (auto split: option.splits)
  note f = read_fits [OF v 1(3)]
  show ?case
  proof (cases "0 < r \<and> r < int sz")
    case True
    then have n: "nat r = length bs" and r: "r = int (length bs)" using f by auto
    have "read_rest (sz - length bs) (got @ bs) k' = Some x"
      using 1(2) True v unfolding r by (subst (asm) read_rest.simps) (auto split: if_splits)
    moreover have "fits (sz - length bs) k'" "0 < sz - length bs" using f True n by auto
    ultimately obtain r' bs' where "x = Inr (r', (got @ bs) @ bs')" "length bs' \<le> sz - length bs" "r' < 0 \<or> r' = int (length ((got @ bs) @ bs'))"
      using 1(1) [OF v refl refl] True n by fastforce
    then show ?thesis using f by (intro exI [of _ r'] exI [of _ "bs @ bs'"]) auto
  next
    case False
    then show ?thesis using 1(2) v f by (subst (asm) read_rest.simps) (auto split: if_splits)
  qed
qed


lemma write_rest_exact:
  "write_rest p_buf sent k = Some x \<Longrightarrow> fits (length p_buf) k \<Longrightarrow> p_buf \<noteq> [] \<Longrightarrow>
     \<exists>r n. x = Inr (r, sent @ take n p_buf) \<and> n \<le> length p_buf \<and> (r < 0 \<or> r = int (length sent + n))"
proof (induction p_buf sent k rule: write_rest.induct)
  case (1 p_buf sent k)
  from 1(2) obtain r bs k' where v: "vsf_sysutil_read k = Some (r, bs, k')"
    by (subst (asm) write_rest.simps) (auto simp: vsf_sysutil_write_def split: option.splits)
  then have w: "vsf_sysutil_write k = Some (r, k')" by (simp add: vsf_sysutil_write_def)
  note f = read_fits [OF v 1(3)]
  show ?case
  proof (cases "0 < r \<and> r < int (length p_buf)")
    case True
    then have n: "nat r = length bs" using f by auto
    let ?p = "drop (nat r) p_buf" and ?s = "sent @ take (nat r) p_buf"
    have "write_rest ?p ?s k' = Some x" using 1(2) True w by (subst (asm) write_rest.simps) (auto split: if_splits)
    moreover have "fits (length ?p) k'" "?p \<noteq> []" using f True n by auto
    ultimately obtain r' m where m: "x = Inr (r', ?s @ take m ?p)" "m \<le> length ?p" "r' < 0 \<or> r' = int (length ?s + m)"
      using 1(1) [OF w refl] True by fastforce
    have "take (nat r) p_buf @ take m ?p = take (nat r + m) p_buf" by (simp add: take_add)
    then show ?thesis using m True by (intro exI [of _ r'] exI [of _ "nat r + m"]) auto
  next
    case False
    then show ?thesis using 1(2) w f by (subst (asm) write_rest.simps) (auto split: if_splits intro: exI [of _ "0 :: nat"] exI [of _ "length p_buf"])
  qed
qed

lemma read_returns: "filter (\<lambda>a. a \<noteq> Interrupted) k = a # as \<Longrightarrow> \<exists>r bs k'. vsf_sysutil_read k = Some (r, bs, k') \<and> filter (\<lambda>a. a \<noteq> Interrupted) k' = as"
  by (induction k rule: vsf_sysutil_read.induct) (auto split: if_splits)

lemma write_rest_returns:
  "length p_buf \<le> length (filter (\<lambda>a. a \<noteq> Interrupted) k) \<Longrightarrow> p_buf \<noteq> [] \<Longrightarrow> write_rest p_buf sent k \<noteq> None"
proof (induction p_buf sent k rule: write_rest.induct)
  case (1 p_buf sent k)
  obtain a as where as: "filter (\<lambda>a. a \<noteq> Interrupted) k = a # as" using 1(2,3) by (cases "filter (\<lambda>a. a \<noteq> Interrupted) k") auto
  from read_returns [OF this] obtain r bs k' where v: "vsf_sysutil_read k = Some (r, bs, k')"
    and k': "filter (\<lambda>a. a \<noteq> Interrupted) k' = as" by blast
  then have w: "vsf_sysutil_write k = Some (r, k')" by (simp add: vsf_sysutil_write_def)
  show ?case
  proof (cases "0 < r \<and> r < int (length p_buf)")
    case True
    have "length (drop (nat r) p_buf) \<le> length (filter (\<lambda>a. a \<noteq> Interrupted) k')" using 1(2) True as k' by auto
    then have "write_rest (drop (nat r) p_buf) (sent @ take (nat r) p_buf) k' \<noteq> None" using 1(1) [OF w refl] True by fastforce
    then show ?thesis using w True by (subst write_rest.simps) auto
  next
    case False
    then show ?thesis using w by (subst write_rest.simps) auto
  qed
qed

text \<open>A block that is written reaches the descriptor in order and without gaps, in whatever pieces the kernel takes it and
  however often it is interrupted; the number returned is the number of bytes that went out; and the loop returns when the kernel
  answers often enough.\<close>

theorem write_loop_exact:
  assumes "data \<noteq> []" and "length data \<le> INT_MAX" and "fits (length data) k"
    and "length data \<le> length (filter (\<lambda>a. a \<noteq> Interrupted) k)"
  shows "\<exists>r n. vsf_sysutil_write_loop data k = Some (Inr (r, take n data)) \<and> n \<le> length data \<and> (r < 0 \<or> r = int n)"
proof -
  from write_rest_returns [OF assms(4,1)] obtain x where x: "write_rest data [] k = Some x" by blast
  from write_rest_exact [OF this assms(3,1)] x assms(2) show ?thesis by (auto simp: vsf_sysutil_write_loop_def)
qed

end
