(* ===== verification/Spec2Isabelle.thy ===== *)
theory Spec2Isabelle
  imports Str StrList Ascii IpAddr Standalone Paths Settings Parseconf Launch Sandbox Policy Secbuf Slave Signals Sysio
begin

text \<open>
  A verification development of the FTP server of \<^verbatim>\<open>cos-ftp-v4\<close>: vsftpd 3.0.3 changed to keep its files
  in the COS object store. The sources are under \<^verbatim>\<open>src/src/\<close>.

  \<^bold>\<open>The program.\<close> A listener (\<^verbatim>\<open>standalone.c\<close> with \<^verbatim>\<open>hash.c\<close>) accepts connections, counts them per address
  and forks. The child reads the configuration (\<^verbatim>\<open>parseconf.c\<close>, \<^verbatim>\<open>tunables.c\<close>), greets the client and
  waits for a user name and a password (\<^verbatim>\<open>prelogin.c\<close>), which a privileged parent checks against the
  table of accounts (\<^verbatim>\<open>privops.c\<close>, \<^verbatim>\<open>cosswitch.cpp\<close>). The logged-in session (\<^verbatim>\<open>postlogin.c\<close>) reads one
  command line after the other (\<^verbatim>\<open>netstr.c\<close>, \<^verbatim>\<open>ftpcmdio.c\<close>), checks paths (\<^verbatim>\<open>access.c\<close>, \<^verbatim>\<open>ls.c\<close>), asks
  the parent for sockets over a socket pair (\<^verbatim>\<open>privsock.c\<close>, \<^verbatim>\<open>twoprocess.c\<close>, \<^verbatim>\<open>postprivparent.c\<close>; in the
  one-process model, \<^verbatim>\<open>oneprocess.c\<close>, it calls the operations itself), moves data (\<^verbatim>\<open>ftpdataio.c\<close>,
  \<^verbatim>\<open>ascii.c\<close>), calls the store (\<^verbatim>\<open>cosswitch.cpp\<close>) and logs (\<^verbatim>\<open>logging.c\<close>).

  \<^bold>\<open>How it is modelled.\<close> Faults are values: \<open>Prelude\<close> has the type of the ways a run ends (\<^verbatim>\<open>bug\<close> and
  \<^verbatim>\<open>die\<close> of \<^verbatim>\<open>utility.c\<close>, an exit, a read outside memory, a recursion without end). Bytes are characters,
  \<^verbatim>\<open>unsigned int\<close> is a number below \<open>2 ^ 32\<close> with its wrap-around or a word. Code that works on a session is
  an action on the \<open>world\<close> of theory \<open>World\<close>: \<^verbatim>\<open>struct vsf_session\<close> as a record, the parent's copy of it,
  the control connection, the data that will arrive, the socket pair and the trace of all calls to the
  outside. The environment \<open>env\<close>, a parameter, holds the configuration and answers every outside call
  from the calls made so far, so a theorem about an arbitrary environment covers every behaviour of the
  operating system, of OpenSSL and of the COS client. \<open>World\<close> also has the reasoning: weakest
  preconditions (\<open>wp\<close>), what an action keeps (\<open>keeps\<close>), which events it adds (\<open>talks\<close>) and how it can
  fail (\<open>faults\<close>), each with a collection of rules.

  \<^bold>\<open>The theories.\<close>
  \<^item> \<open>Prelude\<close>, \<open>Sysutil\<close>: faults, results, C strings; the parts of \<^verbatim>\<open>sysutil.c\<close> that compute on values.
  \<^item> \<open>Signals\<close>, \<open>Sysio\<close>: the deferred signal handlers of \<^verbatim>\<open>sysutil.c\<close>, and its reading and writing loops.
  \<^item> \<open>StrVal\<close>, \<open>Str\<close>, \<open>StrList\<close>: \<^verbatim>\<open>str.c\<close> as functions on byte sequences and as operations on buffers with
    capacity and terminator, shown to agree; \<^verbatim>\<open>strlist.c\<close>.
  \<^item> \<open>Ascii\<close>, \<open>IpAddr\<close>, \<open>Sockaddr\<close>, \<open>Netstr\<close>, \<open>Encode\<close>: \<^verbatim>\<open>ascii.c\<close>, \<^verbatim>\<open>ipaddrparse.c\<close>, the socket addresses of
    \<^verbatim>\<open>sysutil.c\<close>, the line reader of \<^verbatim>\<open>netstr.c\<close>, the guess of the character set in \<^verbatim>\<open>encode.cpp\<close>.
  \<^item> \<open>Hash\<close>, \<open>Standalone\<close>: \<^verbatim>\<open>hash.c\<close> with its nodes on a heap, refined to a finite map through the locale
    \<open>table\<close>; the listener as a step relation with the exact counts of its children.
  \<^item> \<open>NameFilter\<close>, \<open>Paths\<close>: the matcher of \<^verbatim>\<open>ls.c\<close>, the checks of \<^verbatim>\<open>access.c\<close>, the path handling of
    \<^verbatim>\<open>postlogin.c\<close> and \<^verbatim>\<open>sysstr.c\<close>.
  \<^item> \<open>Tunables\<close>, \<open>Settings\<close>, \<open>Parseconf\<close>: the settings, their tables and defaults, and the file reader.
  \<^item> \<open>World\<close>, \<open>Logging\<close>, \<open>Cmdio\<close>: sessions and actions, \<^verbatim>\<open>logging.c\<close>, and the control connection
    (\<^verbatim>\<open>ftpcmdio.c\<close>, \<^verbatim>\<open>readwrite.c\<close>).
  \<^item> \<open>Cos\<close>, \<open>Privops\<close>, \<open>Broker\<close>: \<^verbatim>\<open>cosswitch.cpp\<close>; \<^verbatim>\<open>privops.c\<close>; the socket protocol and both process models.
    The locale \<open>passive_ops\<close> of \<open>Broker\<close> is the contract of the passive listener; it is interpreted on
    the one-process and on the two-process operations, and \<open>broker_refines\<close> shows that a request over
    the socket acts as the direct call.
  \<^item> \<open>Dataio\<close>, \<open>Ls\<close>: \<^verbatim>\<open>ftpdataio.c\<close> and the listings of \<^verbatim>\<open>ls.c\<close>.
  \<^item> \<open>Replies\<close>, \<open>Postlogin\<close>: \<^verbatim>\<open>banner.c\<close>, \<^verbatim>\<open>features.c\<close>, \<^verbatim>\<open>opts.c\<close>, the commands of \<^verbatim>\<open>ssl.c\<close>; all handlers of
    \<^verbatim>\<open>postlogin.c\<close> that are compiled in, their dispatch and the loop.
  \<^item> \<open>Session\<close>, \<open>Service\<close>: the state of a session and that every handler keeps it.
  \<^item> \<open>Login\<close>, \<open>Prelogin\<close>: the login request of \<^verbatim>\<open>twoprocess.c\<close> and \<^verbatim>\<open>oneprocess.c\<close> with the user's own settings and
    the fork that follows it; \<^verbatim>\<open>prelogin.c\<close> and the start of both process models. \<open>connects\<close> is the
    step relation of a whole connection: its start, the commands before the login and those after.
  \<^item> \<open>Admission\<close>, \<open>Entry\<close>: who is admitted, and the invariants of a connection from its start on.
  \<^item> \<open>Start\<close>, \<open>Launch\<close>: \<^verbatim>\<open>main.c\<close> with \<^verbatim>\<open>ssl_init\<close>: arguments, configuration, checks, the first session; what it hands to
    the process models is what \<open>Entry\<close> starts from.
  \<^item> \<open>Seccomp\<close>, \<open>Sandbox\<close>: \<^verbatim>\<open>seccompsandbox.c\<close>: the table of permitted system calls, the policies and the compiler to
    a filter program. The locale \<open>bpf_machine\<close> states the documented meaning of the instructions used, and
    is interpreted on an executable machine.
  \<^item> \<open>Ptrace\<close>, \<open>Policy\<close>: \<^verbatim>\<open>ptracesandbox.c\<close> and \<^verbatim>\<open>ftppolicy.c\<close>: a supervisor that stops a process at each system call, over an
    arbitrary kernel, and the policy of a session. \<^verbatim>\<open>vsf_one_process_start\<close> uses them when \<^verbatim>\<open>ptrace_sandbox\<close> is set; in its model
    these calls are events. \<open>seen\<close> states which system calls of the process run, as \<^verbatim>\<open>ptrace\<close>
    documents it; \<open>supervises\<close> is the relation of the states of the loop.
  \<^item> \<open>Secbuf\<close>: \<^verbatim>\<open>secbuf.c\<close> over a table of pages with protections; the locale \<open>page_mapper\<close> states what \<^verbatim>\<open>mmap\<close>
    promises and is interpreted on a first-fit mapper.
  \<^item> \<open>Tls\<close>, \<open>Slave\<close>: the rest of \<^verbatim>\<open>ssl.c\<close>, and \<^verbatim>\<open>sslslave.c\<close> with its callers in \<^verbatim>\<open>readwrite.c\<close> and \<^verbatim>\<open>ftpdataio.c\<close>: the
    process that keeps the TLS state of the control connection and serves the session over a socket pair.

  \<^bold>\<open>What the theorems show.\<close> For the strings: agreement of buffers and values, order, searching, splitting
  and appending, without the guarded faults. For the parsers and converters: exactness, round trips,
  independence of how a stream is cut into fragments; for the configuration file: that it sets what its lines say, and
  which mistakes end the process. For the hash table and the listener: refinement to
  a map and exact accounts. For paths and names: how far accepted paths stay below the user's root and
  where they do not, where the textual removal of dots is right, soundness of the matcher. For replies, commands and logs: one line per reply,
  exact transport, no password in the log. For transfers: exactly the bytes, for every fragmentation and for
  short answers of the store, and that they end. For privileged operations: the passive port range, the same host on passive
  connections, what a login grants, and the refinement over the socket. For a connection,
  from the start of its process through the login to the last command: who can log in, which logins
  are encrypted (all that must be, but for accounts named like the anonymous user), the limit of failed logins, the invariant
  of the data modes, and that the assertions on the state of a session are not reached. For the sandbox: that the compiled filter decides as the table does, and that
  what it lets through is what the settings permit. For the supervisor: that only calls of the policy run, and that it ends
  with the process. For signals: that the deferred handlers are run unless one ends the process, and none is entered
  twice. For TLS: that a request over the socket pair acts as the
  direct call, that no request makes the slave fail an assertion, and that a data connection counts as protected only after
  the checks of its session and certificate. For secure buffers: that the byte after a buffer
  and the page before it are inaccessible, and that freeing restores the mappings.

  \<^bold>\<open>Bounds and fuel.\<close> One model has fuel: \<open>check_actions\<close> of \<open>Signals\<close> counts the depth of checks inside handlers, and its
  theorem shows that the depth given is never used up. Every other loop is a function with a measure, a recursion over a list, the
  \<open>while_option\<close> of \<open>Tls\<close> (OpenSSL may ask for a retry for ever, which is the fault \<open>Endless\<close>) and of \<open>Ptrace\<close> (whose
  termination is a theorem), or
  (\<open>Hash\<close>) a \<^theory_text>\<open>partial_function\<close> into \<open>option\<close> whose termination is part of the refinement theorem. Loops
  over network input recurse over the input still to come; its end is the end of the connection.

  \<^bold>\<open>Not modelled.\<close> System calls, OpenSSL, \<^verbatim>\<open>iconv\<close>, \<^verbatim>\<open>qsort\<close> and the COS client are parameters. Left out are
  the handlers the source disables with \<^verbatim>\<open>#if 0\<close>, \<^verbatim>\<open>handle_sigurg\<close> (on urgent data, it reads a command in the middle of
  another; \<^verbatim>\<open>ABOR\<close> sets \<^verbatim>\<open>abor_received\<close> and shuts the data connection down, any other command is answered as unknown; the
  theorems on sessions hold for runs in which it does not strike), the \<^verbatim>\<open>close\<close> in the accepting step of the listener, the
  debug output of \<^verbatim>\<open>bio_callback\<close>, and most of the system-dependent layer (its meaning is that of the kernel interface). The
  sequence of requests that \<open>Slave\<close> allows a session to make is written down from its callers, not derived from the model of the
  session.
\<close>

end
